(* ===== verification/Prelude.thy ===== *)
theory Prelude
  imports Complex_Main "HOL-Library.List_Lexorder" "HOL-Library.Char_ord" "HOL-Library.Sublist"
begin

text \<open>
  Shared vocabulary of the development: results of fallible Python code, the string operations of
  Python the sources use, identifiers, and generic lemmas on lists and association lists.

  A Python \<^verbatim>\<open>str\<close> is a \<open>string\<close>, a list of \<open>char\<close>; a \<open>char\<close> is read as the Unicode code point
  with its number (0 to 255). The predicates below follow Python's \<^verbatim>\<open>str\<close> methods on that range.
\<close>

section \<open>Collections of simplification rules\<close>

named_theorems result_simps \<open>rewriting of result-valued (error or value) code\<close>
named_theorems str_simps \<open>the Python string operations\<close>
named_theorems wf_intros \<open>introduction rules for well-formedness invariants\<close>

section \<open>Results\<close>

text \<open>A call that raises is \<open>Inl e\<close>, a call that returns is \<open>Inr v\<close>.\<close>

type_synonym ('e, 'a) res = "'e + 'a"

definition ret :: "'a \<Rightarrow> ('e, 'a) res" where
  "ret x = Inr x"

definition raise :: "'e \<Rightarrow> ('e, 'a) res" where
  "raise e = Inl e"

definition bind_res :: "('e, 'a) res \<Rightarrow> ('a \<Rightarrow> ('e, 'b) res) \<Rightarrow> ('e, 'b) res" where
  "bind_res m f = (case m of Inl e \<Rightarrow> Inl e | Inr x \<Rightarrow> f x)"

definition is_ok :: "('e, 'a) res \<Rightarrow> bool" where
  "is_ok m = (case m of Inl _ \<Rightarrow> False | Inr _ \<Rightarrow> True)"

lemma bind_res_simps [simp, result_simps]:
  "bind_res (Inl e) f = Inl e"
  "bind_res (Inr x) f = f x"
  by (simp_all add: bind_res_def)

lemma is_ok_simps [simp, result_simps]:
  "is_ok (Inl e) = False"
  "is_ok (Inr x) = True"
  by (simp_all add: is_ok_def)

lemma bind_res_Inr [result_simps]:
  "bind_res m f = Inr y \<longleftrightarrow> (\<exists>x. m = Inr x \<and> f x = Inr y)"
  by (cases m) auto

lemma bind_res_Inl [result_simps]:
  "bind_res m f = Inl e \<longleftrightarrow> m = Inl e \<or> (\<exists>x. m = Inr x \<and> f x = Inl e)"
  by (cases m) auto

lemma is_ok_bind [result_simps]:
  "is_ok (bind_res m f) \<longleftrightarrow> (\<exists>x. m = Inr x \<and> is_ok (f x))"
  by (cases m) auto

lemma is_ok_iff: "is_ok m \<longleftrightarrow> (\<exists>x. m = Inr x)"
  by (cases m) auto

text \<open>The value of a call that returned, with a default for one that raised.\<close>

definition ok_of :: "'a \<Rightarrow> ('e, 'a) res \<Rightarrow> 'a" where
  "ok_of d m = (case m of Inl _ \<Rightarrow> d | Inr x \<Rightarrow> x)"

lemma ok_of_Inr: "is_ok m \<Longrightarrow> m = Inr (ok_of d m)"
  by (cases m) (simp_all add: ok_of_def)

text \<open>A loop over a list whose body may raise: the state is threaded, the first error stops it.\<close>

fun fold_res :: "('a \<Rightarrow> 's \<Rightarrow> ('e, 's) res) \<Rightarrow> 'a list \<Rightarrow> 's \<Rightarrow> ('e, 's) res" where
  "fold_res f [] s = Inr s"
| "fold_res f (x # xs) s = bind_res (f x s) (fold_res f xs)"

lemma fold_res_append [result_simps]:
  "fold_res f (xs @ ys) s = bind_res (fold_res f xs s) (fold_res f ys)"
  by (induction xs arbitrary: s) (auto simp: bind_res_def split: sum.splits)

lemma fold_res_invariant:
  assumes "fold_res f xs s = Inr t" and "P s"
    and "\<And>x u v. x \<in> set xs \<Longrightarrow> P u \<Longrightarrow> f x u = Inr v \<Longrightarrow> P v"
  shows "P t"
  using assms
proof (induction xs arbitrary: s)
  case (Cons x xs)
  then obtain u where "f x s = Inr u" and "fold_res f xs u = Inr t"
    by (auto simp: bind_res_Inr)
  with Cons show ?case by (metis list.set_intros)
qed simp

lemma fold_res_error: "fold_res f xs s = Inl e \<Longrightarrow> \<exists>x\<in>set xs. \<exists>u. f x u = Inl e"
  by (induction xs arbitrary: s) (auto simp: bind_res_Inl)

section \<open>Identifiers and time\<close>

text \<open>
  UUIDs are opaque keys, compared and printed only, so they are natural numbers; what the code
  prints (\<^verbatim>\<open>str(uuid)\<close>) is a parameter where its text matters. A \<^verbatim>\<open>datetime\<close> is a number of
  microseconds.
\<close>

type_synonym uuid = nat
type_synonym instant = int

section \<open>Python strings\<close>

definition ord_of :: "char \<Rightarrow> nat" where
  "ord_of c = of_char c"

definition py_isspace :: "char \<Rightarrow> bool" where
  "py_isspace c = (let n = ord_of c in
     9 \<le> n \<and> n \<le> 13 \<or> 28 \<le> n \<and> n \<le> 32 \<or> n = 133 \<or> n = 160)"

definition py_isdigit :: "char \<Rightarrow> bool" where
  "py_isdigit c = (let n = ord_of c in 48 \<le> n \<and> n \<le> 57)"

definition py_lower_char :: "char \<Rightarrow> char" where
  "py_lower_char c = (let n = ord_of c in
     if 65 \<le> n \<and> n \<le> 90 \<or> 192 \<le> n \<and> n \<le> 222 \<and> n \<noteq> 215 then char_of (n + 32) else c)"

definition py_lower :: "string \<Rightarrow> string" where
  "py_lower s = map py_lower_char s"

definition py_lstrip :: "string \<Rightarrow> string" where
  "py_lstrip s = dropWhile py_isspace s"

definition py_strip :: "string \<Rightarrow> string" where
  "py_strip s = rev (dropWhile py_isspace (rev (dropWhile py_isspace s)))"

definition str_starts :: "string \<Rightarrow> string \<Rightarrow> bool" where
  "str_starts s p = (take (length p) s = p)"

lemma str_starts_prefix [str_simps]: "str_starts s p \<longleftrightarrow> prefix p s"
  by (metis append_eq_conv_conj append_take_drop_id prefix_def str_starts_def)

lemma dropWhile_id: "(xs = [] \<or> \<not> P (hd xs)) \<Longrightarrow> dropWhile P xs = xs"
  by (cases xs) auto

lemma hd_dropWhile_False: "dropWhile P xs \<noteq> [] \<Longrightarrow> \<not> P (hd (dropWhile P xs))"
  by (simp add: hd_dropWhile)

lemma last_dropWhile: "dropWhile P xs \<noteq> [] \<Longrightarrow> last (dropWhile P xs) = last xs"
  by (metis append_self_conv2 last_append takeWhile_dropWhile_id)

lemma py_strip_ends:
  assumes "py_strip s \<noteq> []"
  shows "\<not> py_isspace (hd (py_strip s))" and "\<not> py_isspace (last (py_strip s))"
proof -
  let ?t = "dropWhile py_isspace s"
  let ?u = "dropWhile py_isspace (rev ?t)"
  have u: "?u \<noteq> []"
    using assms unfolding py_strip_def by simp
  then have t: "?t \<noteq> []" by fastforce
  have "hd (rev ?u) = last ?u" using u by (simp add: hd_rev)
  also have "\<dots> = last (rev ?t)" using u by (rule last_dropWhile)
  also have "\<dots> = hd ?t" using t by (simp add: last_rev)
  finally show "\<not> py_isspace (hd (py_strip s))"
    using hd_dropWhile_False [OF t] by (simp add: py_strip_def)
  show "\<not> py_isspace (last (py_strip s))"
    using hd_dropWhile_False [OF u] u by (simp add: py_strip_def last_rev)
qed

lemma py_strip_idem [simp, str_simps]: "py_strip (py_strip s) = py_strip s"
proof (cases "py_strip s = []")
  case True
  then show ?thesis by (simp only: True) (simp add: py_strip_def)
next
  case False
  let ?v = "py_strip s"
  have "dropWhile py_isspace ?v = ?v"
    using py_strip_ends(1) [OF False] by (intro dropWhile_id) simp
  moreover have "dropWhile py_isspace (rev ?v) = rev ?v"
    using py_strip_ends(2) [OF False] False by (intro dropWhile_id) (simp add: hd_rev)
  ultimately show ?thesis
    by (simp add: py_strip_def [of "py_strip s"])
qed

lemma py_strip_id: "\<forall>c\<in>set s. \<not> py_isspace c \<Longrightarrow> py_strip s = s"
  unfolding py_strip_def by (metis dropWhile_eq_self_iff list.set_sel(1) rev_rev_ident set_rev)

lemma py_strip_Nil [simp, str_simps]: "py_strip [] = []"
  by (simp add: py_strip_def)

section \<open>Lists\<close>

text \<open>\<^verbatim>\<open>next((x for x in xs if p(x)), None)\<close>\<close>

definition find_first :: "('a \<Rightarrow> bool) \<Rightarrow> 'a list \<Rightarrow> 'a option" where
  "find_first p xs = List.find p xs"

lemma find_first_Some: "find_first p xs = Some x \<Longrightarrow> x \<in> set xs \<and> p x"
  by (auto simp: find_first_def find_Some_iff)

lemma find_first_None [simp]: "find_first p xs = None \<longleftrightarrow> (\<forall>x\<in>set xs. \<not> p x)"
  by (auto simp: find_first_def find_None_iff)

lemma find_first_key: "r \<in> set rows \<Longrightarrow> distinct (map key rows) \<Longrightarrow> find_first (\<lambda>x. key x = key r) rows = Some r"
  by (induction rows) (auto simp: find_first_def image_iff)

text \<open>The index of the first element that satisfies a predicate.\<close>

fun index_of :: "('a \<Rightarrow> bool) \<Rightarrow> 'a list \<Rightarrow> nat option" where
  "index_of p [] = None"
| "index_of p (x # xs) = (if p x then Some 0 else map_option Suc (index_of p xs))"

lemma index_of_Some:
  "index_of p xs = Some i \<Longrightarrow> i < length xs \<and> p (xs ! i)"
  by (induction xs arbitrary: i) (auto split: if_splits)

lemma index_of_None [simp]: "index_of p xs = None \<longleftrightarrow> (\<forall>x\<in>set xs. \<not> p x)"
  by (induction xs) auto

text \<open>Order-preserving removal of repeated elements, \<^verbatim>\<open>dict.fromkeys\<close> in Python.\<close>

fun dedupe_from :: "'a set \<Rightarrow> 'a list \<Rightarrow> 'a list" where
  "dedupe_from seen [] = []"
| "dedupe_from seen (x # xs) =
     (if x \<in> seen then dedupe_from seen xs else x # dedupe_from (insert x seen) xs)"

lemma set_dedupe_from [simp]: "set (dedupe_from seen xs) = set xs - seen"
  by (induction xs arbitrary: seen) auto

lemma distinct_dedupe_from [simp]: "distinct (dedupe_from seen xs)"
  by (induction xs arbitrary: seen) auto

lemma size_list_member: "x \<in> set xs \<Longrightarrow> f x \<le> size_list f xs"
  by (induction xs) auto

lemma sort_key_Nil_iff [simp]: "sort_key f xs = [] \<longleftrightarrow> xs = []"
  by (metis length_0_conv length_sort)

lemma filter_id_conv': "(\<forall>x\<in>set xs. p x) \<Longrightarrow> filter p xs = xs"
  by (simp add: filter_id_conv)

lemma length_filter_update:
  assumes "i < length xs"
  shows "int (length (filter p (xs[i := y]))) =
    int (length (filter p xs)) - of_bool (p (xs ! i)) + of_bool (p y)"
proof -
  have "xs = take i xs @ xs ! i # drop (Suc i) xs"
    using assms by (simp add: id_take_nth_drop)
  moreover have "xs[i := y] = take i xs @ y # drop (Suc i) xs"
    using assms by (simp add: upd_conv_take_nth_drop)
  ultimately have
    "length (filter p xs) = length (filter p (take i xs @ xs ! i # drop (Suc i) xs))" and
    "length (filter p (xs[i := y])) = length (filter p (take i xs @ y # drop (Suc i) xs))"
    by simp_all
  then show ?thesis by simp
qed

section \<open>Association lists as Python dictionaries\<close>

text \<open>
  A dictionary whose insertion order matters is an association list with distinct keys: a new key
  goes to the end, an existing one keeps its place.
\<close>

fun dict_set :: "'k \<Rightarrow> 'v \<Rightarrow> ('k \<times> 'v) list \<Rightarrow> ('k \<times> 'v) list" where
  "dict_set k v [] = [(k, v)]"
| "dict_set k v (p # ps) = (if fst p = k then (k, v) # ps else p # dict_set k v ps)"

definition dict_pop :: "'k \<Rightarrow> ('k \<times> 'v) list \<Rightarrow> ('k \<times> 'v) list" where
  "dict_pop k d = filter (\<lambda>p. fst p \<noteq> k) d"

lemma map_of_dict_set [simp]: "map_of (dict_set k v d) = (map_of d)(k \<mapsto> v)"
  by (induction d) (auto simp: fun_eq_iff)

lemma keys_dict_set: "fst ` set (dict_set k v d) = insert k (fst ` set d)"
  by (induction d) auto

lemma distinct_dict_set:
  "distinct (map fst d) \<Longrightarrow> distinct (map fst (dict_set k v d))"
proof (induction d)
  case (Cons p d)
  then show ?case
    using keys_dict_set [of k v d] by (auto simp: image_iff)
qed simp

lemma map_of_dict_pop [simp]: "map_of (dict_pop k d) = (map_of d)(k := None)"
  by (induction d) (auto simp: dict_pop_def fun_eq_iff)

text \<open>\<^verbatim>\<open>{k: v for k, v in items}\<close>: a later item wins.\<close>

definition dict_of :: "('k \<times> 'v) list \<Rightarrow> ('k \<times> 'v) list" where
  "dict_of items = foldl (\<lambda>d (k, v). dict_set k v d) [] items"

lemma map_of_foldl_dict_set:
  "map_of (foldl (\<lambda>d (k, v). dict_set k v d) d items) = map_of d ++ map_of (rev items)"
  by (induction items arbitrary: d)
    (auto simp: map_add_def fun_eq_iff split: option.splits prod.splits)

lemma map_of_dict_of: "map_of (dict_of items) = map_of (rev items)"
  by (simp add: dict_of_def map_of_foldl_dict_set)

text \<open>Grouping by a key (\<^verbatim>\<open>acc.setdefault(key, []).append(x)\<close> over the items): the dictionary has the keys in order of first use.\<close>

definition group_by :: "('a \<Rightarrow> 'k) \<Rightarrow> 'a list \<Rightarrow> ('k \<times> 'a list) list" where
  "group_by key xs = foldl (\<lambda>d x. dict_set (key x) ((case map_of d (key x) of None \<Rightarrow> [] | Some ys \<Rightarrow> ys) @ [x]) d) [] xs"

lemma group_by_snoc:
  "group_by key (xs @ [x]) =
     dict_set (key x) ((case map_of (group_by key xs) (key x) of None \<Rightarrow> [] | Some ys \<Rightarrow> ys) @ [x]) (group_by key xs)"
  by (simp add: group_by_def)

lemma group_by_map:
  "map_of (group_by key xs) k = (if k \<in> key ` set xs then Some (filter (\<lambda>x. key x = k) xs) else None) \<and>
   fst ` set (group_by key xs) = key ` set xs \<and> distinct (map fst (group_by key xs))"
proof (induction xs arbitrary: k rule: rev_induct)
  case (snoc x xs)
  have "filter (\<lambda>y. key y = key x) xs = []" if "key x \<notin> key ` set xs"
    using that unfolding filter_empty_conv by (metis imageI)
  then show ?case
    using snoc.IH by (auto simp: group_by_snoc keys_dict_set distinct_dict_set)
qed (simp add: group_by_def)

end
