(* ===== verification/Py_Value.thy ===== *)
theory Py_Value
  imports Prelude "HOL-Library.Multiset"
begin

text \<open>
  The JSON-shaped Python values the platform passes around as \<^verbatim>\<open>Any\<close> / \<^verbatim>\<open>dict[str, Any]\<close>, with
  Python's \<^verbatim>\<open>==\<close>, ordering, truth value and \<^verbatim>\<open>in\<close>. A JSON number without fraction is an \<^verbatim>\<open>int\<close>
  (unbounded), one with a fraction a \<^verbatim>\<open>float\<close>; a finite float is a rational number, and Python
  compares it with an \<^verbatim>\<open>int\<close> exactly. \<^verbatim>\<open>bool\<close> is a number (\<^verbatim>\<open>True == 1\<close>). Dictionaries have string
  keys and keep insertion order.
\<close>

datatype pyval =
    PNone
  | PBool bool
  | PInt int
  | PFloat rat
  | PStr string
  | PList "pyval list"
  | PDict "(string \<times> pyval) list"

type_synonym pydict = "(string \<times> pyval) list"

section \<open>Equality\<close>

fun num_of :: "pyval \<Rightarrow> rat option" where
  "num_of (PBool b) = Some (of_bool b)"
| "num_of (PInt i) = Some (of_int i)"
| "num_of (PFloat r) = Some r"
| "num_of _ = None"

text \<open>\<^verbatim>\<open>a == b\<close>: numbers compare by value across their types, dictionaries regardless of order.\<close>

fun py_eq :: "pyval \<Rightarrow> pyval \<Rightarrow> bool"
  and py_eq_list :: "pyval list \<Rightarrow> pyval list \<Rightarrow> bool"
  and py_eq_items :: "pydict \<Rightarrow> pydict \<Rightarrow> bool" where
  "py_eq PNone w = (w = PNone)"
| "py_eq (PStr s) w = (w = PStr s)"
| "py_eq (PList xs) w = (case w of PList ys \<Rightarrow> py_eq_list xs ys | _ \<Rightarrow> False)"
| "py_eq (PDict d) w =
     (case w of PDict e \<Rightarrow> length d = length e \<and> py_eq_items d e | _ \<Rightarrow> False)"
| "py_eq (PBool b) w = (num_of w = Some (of_bool b))"
| "py_eq (PInt i) w = (num_of w = Some (of_int i))"
| "py_eq (PFloat r) w = (num_of w = Some r)"
| "py_eq_list [] ys = (ys = [])"
| "py_eq_list (x # xs) ys = (case ys of [] \<Rightarrow> False | y # ys' \<Rightarrow> py_eq x y \<and> py_eq_list xs ys')"
| "py_eq_items [] e = True"
| "py_eq_items (p # d) e =
     ((case map_of e (fst p) of None \<Rightarrow> False | Some w \<Rightarrow> py_eq (snd p) w) \<and> py_eq_items d e)"

section \<open>Ordering\<close>

text \<open>
  \<^verbatim>\<open>a < b\<close> and its kin by one comparison: \<open>Some\<close> of a negative number, 0 or a positive number, and
  \<open>None\<close> where Python raises \<^verbatim>\<open>TypeError\<close>. Lists compare at the first pair of unequal elements.
\<close>

definition cmp_of :: "'a::linorder \<Rightarrow> 'a \<Rightarrow> int" where
  "cmp_of x y = (if x < y then -1 else if x = y then 0 else 1)"

fun py_compare :: "pyval \<Rightarrow> pyval \<Rightarrow> int option"
  and py_compare_list :: "pyval list \<Rightarrow> pyval list \<Rightarrow> int option" where
  "py_compare PNone w = None"
| "py_compare (PDict d) w = None"
| "py_compare (PStr s) w = (case w of PStr t \<Rightarrow> Some (cmp_of s t) | _ \<Rightarrow> None)"
| "py_compare (PList xs) w = (case w of PList ys \<Rightarrow> py_compare_list xs ys | _ \<Rightarrow> None)"
| "py_compare (PBool b) w = map_option (cmp_of (of_bool b)) (num_of w)"
| "py_compare (PInt i) w = map_option (cmp_of (of_int i)) (num_of w)"
| "py_compare (PFloat r) w = map_option (cmp_of r) (num_of w)"
| "py_compare_list [] ys = (case ys of [] \<Rightarrow> Some 0 | _ \<Rightarrow> Some (-1))"
| "py_compare_list (x # xs) ys =
     (case ys of [] \<Rightarrow> Some 1
      | y # ys' \<Rightarrow> if py_eq x y then py_compare_list xs ys' else py_compare x y)"

section \<open>Truth value and membership\<close>

fun py_truthy :: "pyval \<Rightarrow> bool" where
  "py_truthy PNone = False"
| "py_truthy (PBool b) = b"
| "py_truthy (PInt i) = (i \<noteq> 0)"
| "py_truthy (PFloat r) = (r \<noteq> 0)"
| "py_truthy (PStr s) = (s \<noteq> [])"
| "py_truthy (PList xs) = (xs \<noteq> [])"
| "py_truthy (PDict d) = (d \<noteq> [])"

fun is_substr :: "string \<Rightarrow> string \<Rightarrow> bool" where
  "is_substr p [] = (p = [])"
| "is_substr p (c # s) = (str_starts (c # s) p \<or> is_substr p s)"

text \<open>\<^verbatim>\<open>needle in haystack\<close>; \<open>None\<close> is \<^verbatim>\<open>TypeError\<close>.\<close>

fun py_in :: "pyval \<Rightarrow> pyval \<Rightarrow> bool option" where
  "py_in x (PList ys) = Some (\<exists>y\<in>set ys. py_eq x y)"
| "py_in x (PStr s) = (case x of PStr p \<Rightarrow> Some (is_substr p s) | _ \<Rightarrow> None)"
| "py_in x (PDict d) = (case x of PStr k \<Rightarrow> Some (map_of d k \<noteq> None) | PList _ \<Rightarrow> None | PDict _ \<Rightarrow> None
                       | _ \<Rightarrow> Some False)"
| "py_in x _ = None"

text \<open>\<^verbatim>\<open>d.get(k)\<close>: a missing key reads as \<^verbatim>\<open>None\<close>.\<close>

definition dict_get :: "pydict \<Rightarrow> string \<Rightarrow> pyval" where
  "dict_get d k = (case map_of d k of None \<Rightarrow> PNone | Some v \<Rightarrow> v)"

definition has_key :: "pydict \<Rightarrow> string \<Rightarrow> bool" where
  "has_key d k = (map_of d k \<noteq> None)"

section \<open>Decimal and JSON text\<close>

definition digit_char :: "nat \<Rightarrow> char" where
  "digit_char d = char_of (48 + d)"

fun nat_str :: "nat \<Rightarrow> string" where
  "nat_str n = (if n < 10 then [digit_char n] else nat_str (n div 10) @ [digit_char (n mod 10)])"

declare nat_str.simps [simp del]

definition int_str :: "int \<Rightarrow> string" where
  "int_str i = (if i < 0 then ''-'' @ nat_str (nat (- i)) else nat_str (nat i))"

definition hex_digit :: "nat \<Rightarrow> char" where
  "hex_digit n = (if n < 10 then char_of (48 + n) else char_of (87 + n))"

text \<open>\<^verbatim>\<open>json.dumps(value, sort_keys=True, separators=(",", ":"))\<close> with its default ASCII escapes. The text of a
  float is the parameter \<open>float_repr\<close>.\<close>

definition json_char :: "char \<Rightarrow> string" where
  "json_char c =
     (let n = ord_of c in
      if n = 34 then [CHR 0x5C, CHR 0x22] else if n = 92 then [CHR 0x5C, CHR 0x5C]
      else if n = 10 then [CHR 0x5C, CHR ''n''] else if n = 13 then [CHR 0x5C, CHR ''r'']
      else if n = 9 then [CHR 0x5C, CHR ''t''] else if n = 8 then [CHR 0x5C, CHR ''b'']
      else if n = 12 then [CHR 0x5C, CHR ''f'']
      else if 32 \<le> n \<and> n \<le> 126 then [c]
      else [CHR 0x5C, CHR ''u'', CHR ''0'', CHR ''0'', hex_digit (n div 16), hex_digit (n mod 16)])"

definition json_string :: "string \<Rightarrow> string" where
  "json_string s = [CHR 0x22] @ concat (map json_char s) @ [CHR 0x22]"

fun join_with :: "string \<Rightarrow> string list \<Rightarrow> string" where
  "join_with sep [] = []"
| "join_with sep [x] = x"
| "join_with sep (x # y # ys) = x @ sep @ join_with sep (y # ys)"

fun json_dumps :: "(rat \<Rightarrow> string) \<Rightarrow> pyval \<Rightarrow> string" where
  "json_dumps float_repr PNone = ''null''"
| "json_dumps float_repr (PBool b) = (if b then ''true'' else ''false'')"
| "json_dumps float_repr (PInt i) = int_str i"
| "json_dumps float_repr (PFloat r) = float_repr r"
| "json_dumps float_repr (PStr s) = json_string s"
| "json_dumps float_repr (PList xs) = ''['' @ join_with '','' (map (json_dumps float_repr) xs) @ '']''"
| "json_dumps float_repr (PDict d) =
     ''{'' @ join_with '','' (map (\<lambda>(k, t). json_string k @ '':'' @ t)
       (sort_key fst (map (\<lambda>(k, v). (k, json_dumps float_repr v)) d))) @ ''}''"

section \<open>Facts\<close>


lemma is_substr_sublist [str_simps]: "is_substr p s \<longleftrightarrow> sublist p s"
proof (induction s)
  case (Cons c s)
  then show ?case
    by (auto simp: str_starts_prefix sublist_Cons_right)
qed simp

text \<open>The key order of an object does not show in its text.\<close>

lemma json_dumps_key_order:
  assumes "distinct (map fst d)" "mset d = mset e"
  shows "json_dumps f (PDict d) = json_dumps f (PDict e)"
proof -
  let ?g = "\<lambda>(k, v). (k, json_dumps f v)"
  have "sort_key fst (map ?g d) = sort_key fst (map ?g e)"
  proof (rule sort_key_inj_key_eq)
    show "mset (map ?g d) = mset (sort_key fst (map ?g e))" using assms(2) by simp
    have "map fst (map ?g d) = map fst d" by (simp add: case_prod_beta comp_def)
    then have "distinct (map fst (map ?g d))" using assms(1) by (simp only:)
    then show "inj_on fst (set (map ?g d))" by (metis distinct_map)
  qed simp
  then show ?thesis by simp
qed

lemma cmp_of_simps [simp]:
  "cmp_of x y < 0 \<longleftrightarrow> x < y"
  "cmp_of x y = 0 \<longleftrightarrow> x = y"
  "cmp_of x y \<le> 0 \<longleftrightarrow> x \<le> y"
  "0 < cmp_of x y \<longleftrightarrow> y < x"
  "0 \<le> cmp_of x y \<longleftrightarrow> y \<le> x"
  by (auto simp: cmp_of_def)

lemma dict_get_dict_set [simp]:
  "dict_get (dict_set k v d) k' = (if k' = k then v else dict_get d k')"
  by (simp add: dict_get_def)

lemma has_key_dict_set [simp]: "has_key (dict_set k v d) k' \<longleftrightarrow> k' = k \<or> has_key d k'"
  by (simp add: has_key_def)

lemma dict_get_no_key: "\<not> has_key d k \<Longrightarrow> dict_get d k = PNone"
  by (simp add: has_key_def dict_get_def)

lemma py_compare_num:
  "num_of v = Some a \<Longrightarrow> num_of w = Some b \<Longrightarrow> py_compare v w = Some (cmp_of a b)"
  by (cases v) auto

lemma py_compare_PNone [simp]: "py_compare v PNone = None"
  by (cases v) auto

text \<open>\<^verbatim>\<open>d.get(k, v)\<close> and \<^verbatim>\<open>a or b\<close>.\<close>

definition get_default :: "pydict \<Rightarrow> string \<Rightarrow> pyval \<Rightarrow> pyval" where
  "get_default d k v = (if has_key d k then dict_get d k else v)"

definition py_or :: "pyval \<Rightarrow> pyval \<Rightarrow> pyval" where
  "py_or a b = (if py_truthy a then a else b)"

end
