(* ===== verification/Workflow_Graph.thy ===== *)
theory Workflow_Graph
  imports Py_Value "HOL-Library.Multiset"
begin

text \<open>
  \<^verbatim>\<open>server/bbz_core/domain/workflow/graph.py\<close>: the structural validation of an EPK graph definition and
  its flattening into ordered node and edge rows (\<open>validate_graph\<close>, \<open>derive_index\<close>), and the edge
  lookups and the stack search that the engine (\<^verbatim>\<open>_Index\<close>) and the publish checks (\<^verbatim>\<open>_reachable\<close>) build on
  them.

  A definition is a record of the shape that the schema \<^verbatim>\<open>workflow.graph.v1\<close> prescribes (\<^verbatim>\<open>start\<close>, \<^verbatim>\<open>nodes\<close>,
  \<^verbatim>\<open>edges\<close> with their optional members). The JSON-Schema validator is a library: its error list is the
  parameter \<open>iter_errors\<close>.
\<close>

section \<open>Data\<close>

record json_node =
  j_key :: string
  j_type :: string
  j_label :: "string option"
  j_kind :: "string option"
  j_connector :: "string option"
  j_direction :: "string option"
  j_props :: "pydict option"

record gedge =
  e_key :: string
  e_from :: string
  e_to :: string
  e_branch :: "string option"
  e_condition :: "pydict option"

record graph_def =
  d_start :: string
  d_nodes :: "json_node list"
  d_edges :: "gedge list"

record gnode =
  n_key :: string
  n_type :: string
  n_label :: "string option"
  n_function_kind :: "string option"
  n_connector_type :: "string option"
  n_connector_direction :: "string option"
  n_props :: pydict

record derived_graph =
  g_start :: string
  g_nodes :: "gnode list"
  g_edges :: "gedge list"

datatype graph_error =
    SchemaErrors "string list"
  | DuplicateNodeKeys "string list"
  | StartMissing string
  | DuplicateEdgeKeys "string list"
  | EndpointMissing string string string

section \<open>Validation and derivation\<close>

text \<open>\<^verbatim>\<open>sorted({k for k in keys if keys.count(k) > 1})\<close>\<close>

definition duplicate_keys :: "string list \<Rightarrow> string list" where
  "duplicate_keys keys = sort (remdups (filter (\<lambda>k. 1 < count_list keys k) keys))"

fun check_edges :: "string list \<Rightarrow> gedge list \<Rightarrow> (graph_error, unit) res" where
  "check_edges keys [] = Inr ()"
| "check_edges keys (e # es) =
     (if e_from e \<notin> set keys then Inl (EndpointMissing (e_key e) ''from'' (e_from e))
      else if e_to e \<notin> set keys then Inl (EndpointMissing (e_key e) ''to'' (e_to e))
      else check_edges keys es)"

definition validate_graph :: "(graph_def \<Rightarrow> string list) \<Rightarrow> graph_def \<Rightarrow> (graph_error, unit) res" where
  "validate_graph iter_errors d =
     (let errors = sort (iter_errors d) in
      if errors \<noteq> [] then Inl (SchemaErrors errors)
      else (let keys = map j_key (d_nodes d); dupes = duplicate_keys keys in
        if dupes \<noteq> [] then Inl (DuplicateNodeKeys dupes)
        else if d_start d \<notin> set keys then Inl (StartMissing (d_start d))
        else (let edupes = duplicate_keys (map e_key (d_edges d)) in
          if edupes \<noteq> [] then Inl (DuplicateEdgeKeys edupes)
          else check_edges keys (d_edges d))))"

definition node_row :: "json_node \<Rightarrow> gnode" where
  "node_row n = \<lparr>n_key = j_key n, n_type = j_type n, n_label = j_label n, n_function_kind = j_kind n,
     n_connector_type = j_connector n, n_connector_direction = j_direction n,
     n_props = (case j_props n of None \<Rightarrow> [] | Some p \<Rightarrow> p)\<rparr>"

definition derive_index :: "(graph_def \<Rightarrow> string list) \<Rightarrow> graph_def \<Rightarrow> (graph_error, derived_graph) res" where
  "derive_index iter_errors d =
     bind_res (validate_graph iter_errors d) (\<lambda>_.
       Inr \<lparr>g_start = d_start d,
            g_nodes = map node_row (sort_key j_key (d_nodes d)),
            g_edges = sort_key e_key (d_edges d)\<rparr>)"

section \<open>Edge lookups\<close>

definition node_at :: "derived_graph \<Rightarrow> string \<Rightarrow> gnode option" where
  "node_at g k = map_of (rev (map (\<lambda>n. (n_key n, n)) (g_nodes g))) k"

definition out_edges :: "derived_graph \<Rightarrow> string \<Rightarrow> gedge list" where
  "out_edges g k = filter (\<lambda>e. e_from e = k) (g_edges g)"

definition in_edges :: "derived_graph \<Rightarrow> string \<Rightarrow> gedge list" where
  "in_edges g k = filter (\<lambda>e. e_to e = k) (g_edges g)"

definition node_keys :: "derived_graph \<Rightarrow> string list" where
  "node_keys g = map n_key (g_nodes g)"

text \<open>The stack search: the top of the stack is the head of the list.\<close>

definition targets :: "derived_graph \<Rightarrow> string set" where
  "targets g = set (map e_to (g_edges g))"

lemma finite_targets [simp]: "finite (targets g)"
  by (simp add: targets_def)

lemma out_targets: "e \<in> set (out_edges g k) \<Longrightarrow> e_to e \<in> targets g"
  by (auto simp: out_edges_def targets_def)

function search :: "derived_graph \<Rightarrow> string list \<Rightarrow> string set \<Rightarrow> string set" where
  "search g [] seen = seen"
| "search g (k # stack) seen =
     (if k \<in> seen then search g stack seen
      else search g (rev (map e_to (out_edges g k)) @ stack) (insert k seen))"
  by pat_completeness auto
termination
proof (relation "measures [\<lambda>(g, stack, seen). card ((targets g \<union> set stack) - seen),
    \<lambda>(g, stack, seen). length stack]", goal_cases)
  case (2 g k stack seen)
  have "card (targets g \<union> set stack - seen) \<le> card (targets g \<union> set (k # stack) - seen)"
    by (rule card_mono) auto
  then show ?case by auto
next
  case (3 g k stack seen)
  have "targets g \<union> set (rev (map e_to (out_edges g k)) @ stack) - insert k seen
      \<subset> targets g \<union> set (k # stack) - seen"
    using 3 by (auto dest: out_targets)
  then have "card (targets g \<union> set (rev (map e_to (out_edges g k)) @ stack) - insert k seen)
      < card (targets g \<union> set (k # stack) - seen)"
    by (intro psubset_card_mono) auto
  then show ?case by simp
qed simp

section \<open>Well-formed graphs\<close>

definition wf_graph :: "derived_graph \<Rightarrow> bool" where
  "wf_graph g =
     (distinct (node_keys g) \<and> distinct (map e_key (g_edges g)) \<and> g_start g \<in> set (node_keys g)
      \<and> (\<forall>e\<in>set (g_edges g). e_from e \<in> set (node_keys g) \<and> e_to e \<in> set (node_keys g))
      \<and> sorted (node_keys g) \<and> sorted (map e_key (g_edges g)))"

lemma duplicate_keys_Nil: "duplicate_keys keys = [] \<longleftrightarrow> distinct keys"
proof -
  have "duplicate_keys keys = [] \<longleftrightarrow> (\<forall>k\<in>set keys. count_list keys k \<le> 1)"
    by (simp add: duplicate_keys_def filter_empty_conv not_less)
  also have "\<dots> \<longleftrightarrow> distinct keys"
    by (metis count_list_0_iff count_mset distinct_count_atmost_1 gr_zeroI le_antisym
        less_one linorder_not_less set_mset_mset count_eq_zero_iff order_refl)
  finally show ?thesis .
qed

lemma check_edges_ok:
  "check_edges keys es = Inr () \<longleftrightarrow> (\<forall>e\<in>set es. e_from e \<in> set keys \<and> e_to e \<in> set keys)"
  by (induction es) auto

lemma validate_graph_ok:
  "validate_graph iter_errors d = Inr () \<longleftrightarrow>
     iter_errors d = [] \<and> distinct (map j_key (d_nodes d)) \<and> d_start d \<in> set (map j_key (d_nodes d))
     \<and> distinct (map e_key (d_edges d))
     \<and> (\<forall>e\<in>set (d_edges d). e_from e \<in> set (map j_key (d_nodes d)) \<and> e_to e \<in> set (map j_key (d_nodes d)))"
  by (auto simp: validate_graph_def Let_def duplicate_keys_Nil check_edges_ok split: if_splits)

lemma set_sort_keys: "set (map j_key (sort_key j_key ns)) = set (map j_key ns)"
  by simp

lemma node_keys_derived:
  "map n_key (map node_row ns) = map j_key ns"
  by (simp add: node_row_def)

lemma distinct_map_sort_key: "distinct (map f (sort_key g xs)) \<longleftrightarrow> distinct (map f xs)"
  by (metis distinct_map distinct_sort set_sort)

lemma sort_key_perm:
  "mset xs = mset ys \<Longrightarrow> distinct (map f xs) \<Longrightarrow> sort_key f xs = sort_key f ys"
  by (rule sort_key_inj_key_eq) (auto simp: distinct_map)

lemma derive_index_wf:
  assumes "derive_index iter_errors d = Inr g"
  shows "wf_graph g"
proof -
  have "validate_graph iter_errors d = Inr ()" and
    g: "g = \<lparr>g_start = d_start d, g_nodes = map node_row (sort_key j_key (d_nodes d)),
      g_edges = sort_key e_key (d_edges d)\<rparr>"
    using assms by (auto simp: derive_index_def bind_res_Inr)
  moreover have "node_keys g = map j_key (sort_key j_key (d_nodes d))"
    by (simp add: g node_keys_def node_row_def)
  ultimately show ?thesis
    by (simp add: wf_graph_def validate_graph_ok distinct_map_sort_key)
qed

lemma wf_graph_simps:
  assumes "wf_graph g"
  shows "distinct (node_keys g)" "distinct (map e_key (g_edges g))" "g_start g \<in> set (node_keys g)"
    "e \<in> set (g_edges g) \<Longrightarrow> e_from e \<in> set (node_keys g)"
    "e \<in> set (g_edges g) \<Longrightarrow> e_to e \<in> set (node_keys g)"
    "sorted (map e_key (g_edges g))"
  using assms by (auto simp: wf_graph_def)

lemma node_at_iff:
  assumes "distinct (node_keys g)"
  shows "node_at g k = Some n \<longleftrightarrow> n \<in> set (g_nodes g) \<and> n_key n = k"
proof -
  have "distinct (map fst (rev (map (\<lambda>n. (n_key n, n)) (g_nodes g))))"
    using assms by (simp add: node_keys_def rev_map [symmetric] comp_def)
  then show ?thesis
    unfolding node_at_def by (subst map_of_eq_Some_iff) auto
qed

lemma node_at_None: "node_at g k = None \<longleftrightarrow> k \<notin> set (node_keys g)"
  by (auto simp: node_at_def node_keys_def map_of_eq_None_iff image_iff)

section \<open>The stack search computes reachability\<close>

definition edge_rel :: "derived_graph \<Rightarrow> (string \<times> string) set" where
  "edge_rel g = {(e_from e, e_to e) | e. e \<in> set (g_edges g)}"

lemma out_edges_rel: "k' \<in> set (map e_to (out_edges g k)) \<longleftrightarrow> (k, k') \<in> edge_rel g"
  by (auto simp: out_edges_def edge_rel_def)

lemma search_sub: "seen \<subseteq> search g stack seen" "set stack \<subseteq> search g stack seen"
  by (induction g stack seen rule: search.induct) auto

lemma search_closed:
  "\<forall>x\<in>seen. edge_rel g `` {x} \<subseteq> seen \<union> set stack \<Longrightarrow>
   \<forall>x\<in>search g stack seen. edge_rel g `` {x} \<subseteq> search g stack seen"
proof (induction g stack seen rule: search.induct)
  case (2 g k stack seen)
  show ?case
  proof (cases "k \<in> seen")
    case True
    with "2.IH"(1) "2.prems" show ?thesis by auto
  next
    case False
    have "\<forall>x\<in>insert k seen. edge_rel g `` {x}
        \<subseteq> insert k seen \<union> set (rev (map e_to (out_edges g k)) @ stack)"
      using "2.prems" out_edges_rel [of _ g k] by auto
    with False "2.IH"(2) show ?thesis by simp
  qed
qed simp

lemma search_reaches:
  "search g stack seen \<subseteq> seen \<union> (edge_rel g)\<^sup>* `` set stack"
proof (induction g stack seen rule: search.induct)
  case (2 g k stack seen)
  show ?case
  proof (cases "k \<in> seen")
    case True
    with "2.IH"(1) show ?thesis by auto
  next
    case False
    have "(edge_rel g)\<^sup>* `` set (map e_to (out_edges g k)) \<subseteq> (edge_rel g)\<^sup>* `` {k}"
      using out_edges_rel [of _ g k] by (auto intro: converse_rtrancl_into_rtrancl)
    then have "(edge_rel g)\<^sup>* `` (set (map e_to (out_edges g k)) \<union> set stack)
        \<subseteq> (edge_rel g)\<^sup>* `` insert k (set stack)" and "k \<in> (edge_rel g)\<^sup>* `` insert k (set stack)"
      unfolding insert_is_Un [of k "set stack"] Image_Un by blast+
    moreover have "search g (k # stack) seen
        \<subseteq> insert k seen \<union> (edge_rel g)\<^sup>* `` (set (map e_to (out_edges g k)) \<union> set stack)"
      using False "2.IH"(2) by simp
    ultimately show ?thesis
      unfolding list.set(2) by blast
  qed
qed simp

lemma rtrancl_closed: "(x, y) \<in> r\<^sup>* \<Longrightarrow> x \<in> A \<Longrightarrow> (\<forall>a\<in>A. r `` {a} \<subseteq> A) \<Longrightarrow> y \<in> A"
  by (induction rule: rtrancl_induct) auto

theorem search_rtrancl: "search g stack {} = (edge_rel g)\<^sup>* `` set stack"
proof
  show "search g stack {} \<subseteq> (edge_rel g)\<^sup>* `` set stack"
    using search_reaches [of g stack "{}"] by simp
  have "\<forall>x\<in>search g stack {}. edge_rel g `` {x} \<subseteq> search g stack {}"
    by (rule search_closed) simp
  moreover have "set stack \<subseteq> search g stack {}"
    by (rule search_sub)
  ultimately show "(edge_rel g)\<^sup>* `` set stack \<subseteq> search g stack {}"
    by (auto intro: rtrancl_closed)
qed

lemma search_out_trancl:
  "search g (rev (map e_to (out_edges g k))) {} = {y. (k, y) \<in> (edge_rel g)\<^sup>+}"
proof -
  have "set (map e_to (out_edges g k)) = edge_rel g `` {k}"
    using out_edges_rel [of _ g k] by blast
  then show ?thesis
    by (auto simp: search_rtrancl trancl_unfold_left)
qed

section \<open>Properties\<close>

text \<open>
  \<open>derive_index\<close> is canonical: whenever it accepts a definition, the result is a well-formed
  graph (unique keys, sorted rows, every edge endpoint and the start exist), and a definition that
  lists the same nodes and edges in another order is accepted too and yields the same rows.
\<close>

theorem derive_index_canonical:
  assumes ok: "derive_index iter_errors d = Inr g"
    and perm: "mset (d_nodes d') = mset (d_nodes d)" "mset (d_edges d') = mset (d_edges d)"
      "d_start d' = d_start d" "iter_errors d' = []"
  shows "wf_graph g \<and> derive_index iter_errors d' = Inr g"
proof -
  have sets: "set (d_nodes d') = set (d_nodes d)" "set (d_edges d') = set (d_edges d)"
    using perm by (metis set_mset_mset)+
  have v: "validate_graph iter_errors d = Inr ()"
    using ok by (auto simp: derive_index_def bind_res_Inr)
  then have dist: "distinct (map j_key (d_nodes d))" "distinct (map e_key (d_edges d))"
    by (simp_all add: validate_graph_ok)
  then have dist': "distinct (map j_key (d_nodes d'))" "distinct (map e_key (d_edges d'))"
    using perm(1,2) by (metis mset_eq_imp_distinct_iff mset_map)+
  have "validate_graph iter_errors d' = Inr ()"
    using v dist' perm(3,4) sets by (simp add: validate_graph_ok)
  moreover have "sort_key j_key (d_nodes d') = sort_key j_key (d_nodes d)"
    and "sort_key e_key (d_edges d') = sort_key e_key (d_edges d)"
    using perm(1,2) dist' by (auto intro: sort_key_perm)
  ultimately show ?thesis
    using ok derive_index_wf [OF ok] perm(3) by (simp add: derive_index_def v)
qed

definition two_nodes :: "json_node list" where
  "two_nodes = map (\<lambda>k. \<lparr>j_key = k, j_type = ''event'', j_label = None, j_kind = None, j_connector = None,
     j_direction = None, j_props = None\<rparr>) [''a'', ''b'']"

definition one_edge :: "gedge list" where
  "one_edge = [\<lparr>e_key = ''e'', e_from = ''b'', e_to = ''a'', e_branch = None, e_condition = None\<rparr>]"

theorem derive_index_canonical_witness:
  "derive_index (\<lambda>_. []) \<lparr>d_start = ''b'', d_nodes = rev two_nodes, d_edges = one_edge\<rparr>
     = Inr \<lparr>g_start = ''b'', g_nodes = map node_row two_nodes, g_edges = one_edge\<rparr>"
proof -
  have 1: "derive_index (\<lambda>_. []) \<lparr>d_start = ''b'', d_nodes = two_nodes, d_edges = one_edge\<rparr>
     = Inr \<lparr>g_start = ''b'', g_nodes = map node_row two_nodes, g_edges = one_edge\<rparr>" by code_simp
  show ?thesis
    using derive_index_canonical [OF 1, of "\<lparr>d_start = ''b'', d_nodes = rev two_nodes, d_edges = one_edge\<rparr>"]
    by simp
qed

end
