(* ===== verification/Rule_Dsl.thy ===== *)
theory Rule_Dsl
  imports Py_Value
begin

text \<open>
  The restricted rule DSL of \<^verbatim>\<open>packages/rule-dsl/bbz_rule_dsl\<close>: \<^verbatim>\<open>model.py\<close> (\<open>parse_tree\<close>, \<open>eval_expr\<close>,
  \<open>evaluate\<close>) and \<^verbatim>\<open>context.py\<close> (\<open>literal_matches\<close>, \<open>check_expr\<close>, \<open>schema_validate\<close> and the three
  registered contexts). Every \<^verbatim>\<open>raise\<close> is a value of \<open>dsl_error\<close>.

  A parsed argument is a nested expression, a field reference, or a literal. The code keeps a field
  reference as the dictionary it was written as and reads nothing of it but \<^verbatim>\<open>arg["field"]\<close>, a
  non-empty string after parsing, so the model keeps that name.
\<close>

section \<open>Expressions (\<^verbatim>\<open>model.py\<close>)\<close>

definition ALLOWED_OPERATORS :: "string list" where
  "ALLOWED_OPERATORS =
     [''eq'', ''ne'', ''in'', ''not_in'', ''lt'', ''lte'', ''gt'', ''gte'',
      ''and'', ''or'', ''not'', ''exists'']"

datatype dsl_error =
    NotAnObject            \<comment> \<open>no object with an \<^verbatim>\<open>op\<close> key\<close>
  | OperatorNotAllowed
  | ArgsNotAList
  | BadFieldRef
  | UnexpectedOperand      \<comment> \<open>a dictionary operand that is no field reference\<close>
  | Arity string
  | TypeMismatch string
  | ExistsNeedsField
  | TooDeep
  | UnknownField string
  | UnhashableOp           \<comment> \<open>Python's own \<^verbatim>\<open>TypeError\<close>, not a \<^verbatim>\<open>RuleDslError\<close>\<close>

datatype expr = Expr (expr_op: string) (expr_args: "arg list")
  and arg = ASub expr | AField string | ALit pyval

text \<open>\<^verbatim>\<open>op not in ALLOWED_OPERATORS\<close> hashes \<^verbatim>\<open>op\<close>: a list or a dictionary raises \<^verbatim>\<open>TypeError\<close>.\<close>

fun check_operator :: "pyval \<Rightarrow> (dsl_error, string) res" where
  "check_operator (PStr s) = (if s \<in> set ALLOWED_OPERATORS then Inr s else Inl OperatorNotAllowed)"
| "check_operator (PList _) = Inl UnhashableOp"
| "check_operator (PDict _) = Inl UnhashableOp"
| "check_operator _ = Inl OperatorNotAllowed"

lemma map_of_size:
  "map_of d k = Some (v :: pyval) \<Longrightarrow> size v < size_list (size_prod (\<lambda>x. 0) size) d"
  by (induction d) (auto split: if_splits)

function parse_tree :: "pyval \<Rightarrow> (dsl_error, expr) res"
  and parse_args :: "pyval list \<Rightarrow> (dsl_error, arg list) res" where
  "parse_tree t =
     (case t of
        PDict d \<Rightarrow>
          (case map_of d ''op'' of
             None \<Rightarrow> Inl NotAnObject
           | Some op \<Rightarrow>
               (case check_operator op of
                  Inl e \<Rightarrow> Inl e
                | Inr s \<Rightarrow>
                    (case map_of d ''args'' of
                       None \<Rightarrow> Inr (Expr s [])
                     | Some raw \<Rightarrow>
                         (case raw of
                            PList as \<Rightarrow>
                              (case parse_args as of Inl e \<Rightarrow> Inl e | Inr xs \<Rightarrow> Inr (Expr s xs))
                          | _ \<Rightarrow> Inl ArgsNotAList))))
      | _ \<Rightarrow> Inl NotAnObject)"
| "parse_args [] = Inr []"
| "parse_args (a # as) =
     (case (case a of
              PDict d \<Rightarrow>
                (if has_key d ''op'' then
                   (case parse_tree a of Inl e \<Rightarrow> Inl e | Inr x \<Rightarrow> Inr (ASub x))
                 else if has_key d ''field'' then
                   (case dict_get d ''field'' of
                      PStr f \<Rightarrow> if f = [] then Inl BadFieldRef else Inr (AField f)
                    | _ \<Rightarrow> Inl BadFieldRef)
                 else Inr (ALit a))
            | _ \<Rightarrow> Inr (ALit a)) of
        Inl e \<Rightarrow> Inl e
      | Inr x \<Rightarrow> (case parse_args as of Inl e \<Rightarrow> Inl e | Inr xs \<Rightarrow> Inr (x # xs)))"
  by pat_completeness auto
termination
  by (relation "measure (case_sum size (size_list size))")
    (auto dest!: map_of_size)

declare parse_tree.simps [simp del]

section \<open>Evaluation (\<^verbatim>\<open>model.py\<close>)\<close>

definition MAX_DEPTH :: nat where
  "MAX_DEPTH = 64"

text \<open>\<^verbatim>\<open>_compare\<close>: \<^verbatim>\<open>eq\<close> and \<^verbatim>\<open>ne\<close> never fail, the ordering operators fail on incomparable types.\<close>

definition compare_op :: "string \<Rightarrow> pyval \<Rightarrow> pyval \<Rightarrow> (dsl_error, bool) res" where
  "compare_op op l r =
     (if op = ''eq'' then Inr (py_eq l r)
      else if op = ''ne'' then Inr (\<not> py_eq l r)
      else (case py_compare l r of
              None \<Rightarrow> Inl (TypeMismatch op)
            | Some c \<Rightarrow>
                Inr (if op = ''lt'' then c < 0
                     else if op = ''lte'' then c \<le> 0
                     else if op = ''gt'' then 0 < c
                     else 0 \<le> c)))"

definition member_op :: "string \<Rightarrow> pyval \<Rightarrow> pyval \<Rightarrow> (dsl_error, bool) res" where
  "member_op op x h =
     (case h of
        PList ys \<Rightarrow>
          (case py_in x h of None \<Rightarrow> Inl (TypeMismatch op)
           | Some f \<Rightarrow> Inr (if op = ''in'' then f else \<not> f))
      | PStr s \<Rightarrow>
          (case py_in x h of None \<Rightarrow> Inl (TypeMismatch op)
           | Some f \<Rightarrow> Inr (if op = ''in'' then f else \<not> f))
      | _ \<Rightarrow> Inl (TypeMismatch op))"

text \<open>The branches of \<^verbatim>\<open>_eval\<close>, in their order.\<close>

datatype op_class = OpAnd | OpOr | OpNot | OpExists | OpCompare | OpMember | OpUnknown

definition classify :: "string \<Rightarrow> op_class" where
  "classify op =
     (if op = ''and'' then OpAnd
      else if op = ''or'' then OpOr
      else if op = ''not'' then OpNot
      else if op = ''exists'' then OpExists
      else if op \<in> set [''eq'', ''ne'', ''lt'', ''lte'', ''gt'', ''gte''] then OpCompare
      else if op \<in> set [''in'', ''not_in''] then OpMember
      else OpUnknown)"

definition exists_op :: "arg list \<Rightarrow> pydict \<Rightarrow> (dsl_error, bool) res" where
  "exists_op args ctx =
     (if length args \<noteq> 1 then Inl (Arity ''exists'')
      else (case hd args of AField f \<Rightarrow> Inr (dict_get ctx f \<noteq> PNone) | _ \<Rightarrow> Inl ExistsNeedsField))"

text \<open>
  \<^verbatim>\<open>all\<close> and \<^verbatim>\<open>any\<close> over the results of the arguments: they stop at the first argument that decides
  them, so an error of a later argument is never seen.
\<close>

fun all_res :: "(dsl_error, bool) res list \<Rightarrow> (dsl_error, bool) res" where
  "all_res [] = Inr True"
| "all_res (r # rs) = bind_res r (\<lambda>b. if b then all_res rs else Inr False)"

fun any_res :: "(dsl_error, bool) res list \<Rightarrow> (dsl_error, bool) res" where
  "any_res [] = Inr False"
| "any_res (r # rs) = bind_res r (\<lambda>b. if b then Inr True else any_res rs)"

text \<open>The two operands of a comparison are evaluated from left to right, after the arity check.\<close>

definition both_res ::
  "(dsl_error, pyval) res list \<Rightarrow> (pyval \<Rightarrow> pyval \<Rightarrow> (dsl_error, bool) res) \<Rightarrow> (dsl_error, bool) res" where
  "both_res rs f = bind_res (rs ! 0) (\<lambda>l. bind_res (rs ! 1) (\<lambda>r. f l r))"

text \<open>\<^verbatim>\<open>_eval\<close>, \<^verbatim>\<open>_truthy\<close> and \<^verbatim>\<open>_value\<close>.\<close>

function eval_expr :: "expr \<Rightarrow> pydict \<Rightarrow> nat \<Rightarrow> (dsl_error, bool) res"
  and arg_truthy :: "arg \<Rightarrow> pydict \<Rightarrow> nat \<Rightarrow> (dsl_error, bool) res"
  and arg_value :: "arg \<Rightarrow> pydict \<Rightarrow> nat \<Rightarrow> (dsl_error, pyval) res" where
  "eval_expr (Expr op args) ctx depth =
     (if MAX_DEPTH < depth then Inl TooDeep
      else (case classify op of
        OpAnd \<Rightarrow> if args = [] then Inl (Arity op)
                 else all_res (map (\<lambda>a. arg_truthy a ctx depth) args)
      | OpOr \<Rightarrow> if args = [] then Inl (Arity op)
                else any_res (map (\<lambda>a. arg_truthy a ctx depth) args)
      | OpNot \<Rightarrow> if length args \<noteq> 1 then Inl (Arity op)
                 else bind_res (hd (map (\<lambda>a. arg_truthy a ctx depth) args)) (\<lambda>b. Inr (\<not> b))
      | OpExists \<Rightarrow> exists_op args ctx
      | OpCompare \<Rightarrow> if length args \<noteq> 2 then Inl (Arity op)
                     else both_res (map (\<lambda>a. arg_value a ctx depth) args) (compare_op op)
      | OpMember \<Rightarrow> if length args \<noteq> 2 then Inl (Arity op)
                    else both_res (map (\<lambda>a. arg_value a ctx depth) args) (member_op op)
      | OpUnknown \<Rightarrow> Inl OperatorNotAllowed))"
| "arg_truthy (ASub e) ctx depth = eval_expr e ctx (Suc depth)"
| "arg_truthy (AField f) ctx depth = Inr (py_truthy (dict_get ctx f))"
| "arg_truthy (ALit v) ctx depth = Inr (py_truthy v)"
| "arg_value (ASub e) ctx depth = bind_res (eval_expr e ctx (Suc depth)) (\<lambda>b. Inr (PBool b))"
| "arg_value (AField f) ctx depth = Inr (dict_get ctx f)"
| "arg_value (ALit v) ctx depth = (case v of PDict _ \<Rightarrow> Inl UnexpectedOperand | _ \<Rightarrow> Inr v)"
  by pat_completeness auto
termination
  by (relation "measure (case_sum (\<lambda>(e, _, _). size e)
      (case_sum (\<lambda>(a, _, _). size a) (\<lambda>(a, _, _). size a)))")
    (auto simp: less_Suc_eq_le size_list_member)

definition evaluate :: "expr \<Rightarrow> pydict \<Rightarrow> (dsl_error, bool) res" where
  "evaluate e ctx = eval_expr e ctx 0"

section \<open>Typed contexts (\<^verbatim>\<open>context.py\<close>)\<close>

datatype field_type = TString | TNumber | TBoolean | TDatetime | TList

record context_schema =
  schema_name :: string
  schema_fields :: "(string \<times> field_type) list"

fun literal_matches :: "field_type \<Rightarrow> pyval \<Rightarrow> bool" where
  "literal_matches TString v = (case v of PStr _ \<Rightarrow> True | _ \<Rightarrow> False)"
| "literal_matches TDatetime v = (case v of PStr _ \<Rightarrow> True | _ \<Rightarrow> False)"
| "literal_matches TNumber v = (case v of PInt _ \<Rightarrow> True | PFloat _ \<Rightarrow> True | _ \<Rightarrow> False)"
| "literal_matches TBoolean v = (case v of PBool _ \<Rightarrow> True | _ \<Rightarrow> False)"
| "literal_matches TList v = (case v of PList _ \<Rightarrow> True | _ \<Rightarrow> False)"

definition field_type_of :: "context_schema \<Rightarrow> string \<Rightarrow> (dsl_error, field_type) res" where
  "field_type_of sch f =
     (case map_of (schema_fields sch) f of None \<Rightarrow> Inl (UnknownField f) | Some t \<Rightarrow> Inr t)"

fun operand_type :: "context_schema \<Rightarrow> arg \<Rightarrow> (dsl_error, field_type option) res" where
  "operand_type sch (ASub _) = Inr (Some TBoolean)"
| "operand_type sch (AField f) = bind_res (field_type_of sch f) (\<lambda>t. Inr (Some t))"
| "operand_type sch (ALit _) = Inr None"

fun check_literal :: "field_type option \<Rightarrow> arg \<Rightarrow> (dsl_error, unit) res" where
  "check_literal (Some t) (ALit v) =
     (if literal_matches t v then Inr () else Inl (TypeMismatch ''literal''))"
| "check_literal _ _ = Inr ()"

definition orderable :: "field_type option \<Rightarrow> bool" where
  "orderable s = (s \<in> {None, Some TNumber, Some TDatetime})"

text \<open>\<^verbatim>\<open>_check\<close> for the two-argument operators; the nested expressions of a comparison are not visited.\<close>

definition check_binary :: "context_schema \<Rightarrow> string \<Rightarrow> arg \<Rightarrow> arg \<Rightarrow> (dsl_error, unit) res" where
  "check_binary sch op l r =
     bind_res (operand_type sch l) (\<lambda>lt. bind_res (operand_type sch r) (\<lambda>rt.
       if op \<in> {''lt'', ''lte'', ''gt'', ''gte''} then
         (if \<not> orderable lt \<or> \<not> orderable rt then Inl (TypeMismatch op)
          else bind_res (check_literal lt r) (\<lambda>_. check_literal rt l))
       else if op \<in> {''eq'', ''ne''} then
         bind_res (check_literal lt r) (\<lambda>_. check_literal rt l)
       else if op \<in> {''in'', ''not_in''} then
         (case rt of
            None \<Rightarrow>
              (case r of
                 ALit (PList items) \<Rightarrow>
                   (case lt of
                      None \<Rightarrow> Inr ()
                    | Some t \<Rightarrow>
                        if \<forall>i\<in>set items. literal_matches t i then Inr ()
                        else Inl (TypeMismatch ''item''))
               | _ \<Rightarrow> Inl (TypeMismatch op))
          | Some t \<Rightarrow> if t = TList then Inr () else Inl (TypeMismatch op))
       else Inr ()))"

fun seq_res :: "('e, unit) res list \<Rightarrow> ('e, unit) res" where
  "seq_res [] = Inr ()"
| "seq_res (r # rs) = bind_res r (\<lambda>_. seq_res rs)"

definition check_field :: "context_schema \<Rightarrow> string \<Rightarrow> (dsl_error, unit) res" where
  "check_field sch f = bind_res (field_type_of sch f) (\<lambda>_. Inr ())"

definition check_exists :: "context_schema \<Rightarrow> arg list \<Rightarrow> (dsl_error, unit) res" where
  "check_exists sch args =
     (case args of
        [a] \<Rightarrow> (case a of AField f \<Rightarrow> check_field sch f | _ \<Rightarrow> Inl ExistsNeedsField)
      | _ \<Rightarrow> Inl ExistsNeedsField)"

definition check_two :: "context_schema \<Rightarrow> string \<Rightarrow> arg list \<Rightarrow> (dsl_error, unit) res" where
  "check_two sch op args =
     (case args of [l, r] \<Rightarrow> check_binary sch op l r | _ \<Rightarrow> Inl (Arity op))"

fun check_expr :: "context_schema \<Rightarrow> expr \<Rightarrow> (dsl_error, unit) res"
  and check_bool_arg :: "context_schema \<Rightarrow> arg \<Rightarrow> (dsl_error, unit) res" where
  "check_expr sch (Expr op args) =
     (if classify op \<in> {OpAnd, OpOr, OpNot} then seq_res (map (check_bool_arg sch) args)
      else if classify op = OpExists then check_exists sch args
      else check_two sch op args)"
| "check_bool_arg sch (ASub e) = check_expr sch e"
| "check_bool_arg sch (AField f) = check_field sch f"
| "check_bool_arg sch (ALit _) = Inr ()"

definition schema_validate :: "context_schema \<Rightarrow> pyval \<Rightarrow> (dsl_error, unit) res" where
  "schema_validate sch t = bind_res (parse_tree t) (check_expr sch)"

definition TRIGGER_CONTEXT :: context_schema where
  "TRIGGER_CONTEXT = \<lparr>schema_name = ''trigger'', schema_fields =
     [(''provider'', TString), (''signal_type'', TString), (''calling_number'', TString),
      (''called_number'', TString), (''cti_route_point'', TString),
      (''technical_endpoint_id'', TString), (''external_source_id'', TString),
      (''workplace'', TString), (''site'', TString), (''station'', TString),
      (''alarm_type'', TString), (''alarm_subtype'', TString), (''severity'', TNumber),
      (''call_direction'', TString), (''call_state'', TString)]\<rparr>"

definition WORKFLOW_CONTEXT :: context_schema where
  "WORKFLOW_CONTEXT = \<lparr>schema_name = ''workflow'', schema_fields =
     [(''event_priority'', TString), (''event_status'', TString), (''event_source'', TString),
      (''event_bbz_id'', TString), (''event_workplace_id'', TString), (''branch_key'', TString),
      (''step_completed_count'', TNumber), (''operator_confirmed'', TBoolean)]\<rparr>"

definition RBAC_CONTEXT :: context_schema where
  "RBAC_CONTEXT = \<lparr>schema_name = ''rbac'', schema_fields =
     [(''now.hour'', TNumber), (''now.weekday'', TNumber), (''now.iso'', TString),
      (''scope'', TString)]\<rparr>"

section \<open>What parsing guarantees\<close>

fun ops_allowed :: "expr \<Rightarrow> bool"
  and arg_ops_allowed :: "arg \<Rightarrow> bool" where
  "ops_allowed (Expr op args) = (op \<in> set ALLOWED_OPERATORS \<and> list_all arg_ops_allowed args)"
| "arg_ops_allowed (ASub e) = ops_allowed e"
| "arg_ops_allowed (AField f) = True"
| "arg_ops_allowed (ALit v) = True"

lemma check_operator_Inr: "check_operator v = Inr s \<Longrightarrow> s \<in> set ALLOWED_OPERATORS"
  by (cases v) (auto split: if_splits)

lemma parse_ops_allowed:
  "parse_tree t = Inr e \<Longrightarrow> ops_allowed e"
  "parse_args as = Inr xs \<Longrightarrow> list_all arg_ops_allowed xs"
proof (induction t and as arbitrary: e and xs rule: parse_tree_parse_args.induct)
  case (1 t)
  then show ?case
    by (auto simp: parse_tree.simps [of t] split: pyval.splits option.splits sum.splits
        dest: check_operator_Inr)
next
  case (3 a as)
  then show ?case
    by (fastforce split: pyval.splits sum.splits if_splits)
qed simp

lemma classify_allowed: "op \<in> set ALLOWED_OPERATORS \<Longrightarrow> classify op \<noteq> OpUnknown"
  by (auto simp: ALLOWED_OPERATORS_def classify_def)

lemma all_res_cases: "all_res rs = Inl e \<Longrightarrow> Inl e \<in> set rs"
  by (induction rs) (auto simp: bind_res_Inl split: if_splits)

lemma any_res_cases: "any_res rs = Inl e \<Longrightarrow> Inl e \<in> set rs"
  by (induction rs) (auto simp: bind_res_Inl split: if_splits)

lemma both_res_cases:
  "both_res (map g as) f = Inl e \<Longrightarrow> length as = 2 \<Longrightarrow>
    (\<exists>a\<in>set as. g a = Inl e) \<or> (\<exists>l r. f l r = Inl e)"
  by (auto simp: both_res_def bind_res_Inl length_Suc_conv numeral_2_eq_2)

lemma op_errors:
  "compare_op op l r = Inl e \<Longrightarrow> e = TypeMismatch op"
  "member_op op l r = Inl e \<Longrightarrow> e = TypeMismatch op"
  "exists_op args ctx = Inl e \<Longrightarrow> e = Arity ''exists'' \<or> e = ExistsNeedsField"
  by (auto simp: compare_op_def member_op_def exists_op_def
      split: if_splits option.splits pyval.splits arg.splits)


section \<open>Errors of evaluation\<close>

text \<open>
  One induction over the evaluator serves every claim of the form "this error cannot happen": if no
  operator raises an error outside \<open>P\<close> by itself, no evaluation does.
\<close>

lemma eval_error_cases:
  assumes "\<And>op. P (Arity op)" "\<And>op. P (TypeMismatch op)" "P ExistsNeedsField" "P UnexpectedOperand"
    "P TooDeep"
  shows "ops_allowed x \<Longrightarrow> eval_expr x ctx d = Inl e \<Longrightarrow> P e"
    and "arg_ops_allowed a \<Longrightarrow> arg_truthy a ctx d = Inl e \<Longrightarrow> P e"
    and "arg_ops_allowed a \<Longrightarrow> arg_value a ctx d = Inl e \<Longrightarrow> P e"
proof (induction x ctx d and a ctx d and a ctx d arbitrary: e and e and e
    rule: eval_expr_arg_truthy_arg_value.induct)
  case (1 op args ctx depth)
  have args: "arg_ops_allowed b" if "b \<in> set args" for b
    using that "1.prems"(1) by (simp add: list_all_iff)
  have known: "classify op \<noteq> OpUnknown"
    using "1.prems"(1) classify_allowed by simp
  show ?case
  proof (cases "MAX_DEPTH < depth")
    case True
    then show ?thesis using "1.prems" assms(5) by simp
  next
    case False
    then have T: "\<And>b x. b \<in> set args \<Longrightarrow> classify op \<in> {OpAnd, OpOr, OpNot} \<Longrightarrow> args \<noteq> [] \<Longrightarrow>
          (classify op = OpNot \<longrightarrow> length args = 1) \<Longrightarrow> arg_truthy b ctx depth = Inl x \<Longrightarrow> P x"
      and V: "\<And>b x. b \<in> set args \<Longrightarrow> classify op \<in> {OpCompare, OpMember} \<Longrightarrow> length args = 2 \<Longrightarrow>
          arg_value b ctx depth = Inl x \<Longrightarrow> P x"
      using "1.IH" args by auto
    show ?thesis
    proof (cases "classify op")
      case OpAnd
      then show ?thesis using "1.prems"(2) False T assms(1)
        by (auto split: if_splits dest!: all_res_cases)
    next
      case OpOr
      then show ?thesis using "1.prems"(2) False T assms(1)
        by (auto split: if_splits dest!: any_res_cases)
    next
      case OpNot
      then show ?thesis using "1.prems"(2) False T assms(1)
        by (auto simp: bind_res_Inl length_Suc_conv split: if_splits)
    next
      case OpExists
      then show ?thesis using "1.prems"(2) False assms(1,3) op_errors(3) by auto
    next
      case OpCompare
      then show ?thesis using "1.prems"(2) False V assms(1,2)
        by (auto split: if_splits dest: both_res_cases dest!: op_errors(1,2))
    next
      case OpMember
      then show ?thesis using "1.prems"(2) False V assms(1,2)
        by (auto split: if_splits dest: both_res_cases dest!: op_errors(1,2))
    qed (use known in simp)
  qed
qed (use assms in \<open>auto simp: bind_res_Inl split: pyval.splits\<close>)

section \<open>What publish validation guarantees\<close>

text \<open>
  The conditions under which a validated expression cannot fail at run time. \<open>strict_expr\<close> is what the
  validation leaves open: boolean operators with too few arguments, nested expressions under a
  comparison, a dictionary as an operand, an ordering of two literals.
\<close>

fun plain_operand :: "arg \<Rightarrow> bool" where
  "plain_operand (ASub _) = False"
| "plain_operand (AField _) = True"
| "plain_operand (ALit v) = (case v of PDict _ \<Rightarrow> False | _ \<Rightarrow> True)"

fun is_field :: "arg \<Rightarrow> bool" where
  "is_field (AField _) = True"
| "is_field _ = False"

fun strict_expr :: "expr \<Rightarrow> bool"
  and strict_arg :: "arg \<Rightarrow> bool" where
  "strict_expr (Expr op args) =
     (case classify op of
        OpAnd \<Rightarrow> args \<noteq> [] \<and> list_all strict_arg args
      | OpOr \<Rightarrow> args \<noteq> [] \<and> list_all strict_arg args
      | OpNot \<Rightarrow> length args = 1 \<and> list_all strict_arg args
      | OpExists \<Rightarrow> True
      | OpCompare \<Rightarrow> list_all plain_operand args \<and>
          (op = ''eq'' \<or> op = ''ne'' \<or> list_ex is_field args)
      | OpMember \<Rightarrow> list_all plain_operand args
      | OpUnknown \<Rightarrow> False)"
| "strict_arg (ASub e) = strict_expr e"
| "strict_arg (AField f) = True"
| "strict_arg (ALit v) = True"

fun expr_height :: "expr \<Rightarrow> nat"
  and arg_height :: "arg \<Rightarrow> nat" where
  "expr_height (Expr op args) = Suc (foldr max (map arg_height args) 0)"
| "arg_height (ASub e) = expr_height e"
| "arg_height (AField f) = 0"
| "arg_height (ALit v) = 0"

text \<open>Every field of the schema has a value of its type; none is missing (\<^verbatim>\<open>None\<close>).\<close>

definition typed_ctx :: "context_schema \<Rightarrow> pydict \<Rightarrow> bool" where
  "typed_ctx sch ctx = list_all (\<lambda>p. literal_matches (snd p) (dict_get ctx (fst p))) (schema_fields sch)"

definition no_datetime :: "context_schema \<Rightarrow> bool" where
  "no_datetime sch = list_all (\<lambda>p. snd p \<noteq> TDatetime) (schema_fields sch)"

lemma registered_no_datetime:
  "no_datetime TRIGGER_CONTEXT" "no_datetime WORKFLOW_CONTEXT" "no_datetime RBAC_CONTEXT"
  by (simp_all add: no_datetime_def TRIGGER_CONTEXT_def WORKFLOW_CONTEXT_def RBAC_CONTEXT_def)

lemma typed_ctxD:
  "typed_ctx sch ctx \<Longrightarrow> field_type_of sch f = Inr t \<Longrightarrow> literal_matches t (dict_get ctx f)"
  by (auto simp: typed_ctx_def field_type_of_def list_all_iff split: option.splits
      dest!: map_of_SomeD)

lemma no_datetimeD: "no_datetime sch \<Longrightarrow> field_type_of sch f = Inr t \<Longrightarrow> t \<noteq> TDatetime"
  by (auto simp: no_datetime_def field_type_of_def list_all_iff split: option.splits
      dest!: map_of_SomeD)

lemma number_num_of: "literal_matches TNumber v \<Longrightarrow> \<exists>r. num_of v = Some r"
  by (cases v) auto

lemma all_res_ok: "(\<forall>r\<in>set rs. is_ok r) \<Longrightarrow> is_ok (all_res rs)"
  by (induction rs) (auto simp: is_ok_iff)

lemma any_res_ok: "(\<forall>r\<in>set rs. is_ok r) \<Longrightarrow> is_ok (any_res rs)"
  by (induction rs) (auto simp: is_ok_iff)

lemma seq_res_ok: "seq_res rs = Inr () \<Longrightarrow> r \<in> set rs \<Longrightarrow> r = Inr ()"
  by (induction rs) (auto simp: bind_res_Inr)

lemma foldr_max_ge: "x \<in> set xs \<Longrightarrow> x \<le> foldr max xs (0::nat)"
  by (induction xs) (auto simp: le_max_iff_disj)

lemma plain_value:
  "plain_operand a \<Longrightarrow> \<exists>v. arg_value a ctx d = Inr v"
  by (cases a) (auto split: pyval.splits)

lemma operand_typeD:
  assumes "operand_type sch a = Inr ty" "plain_operand a" "typed_ctx sch ctx"
  shows "\<exists>v. arg_value a ctx d = Inr v \<and> (\<forall>t. ty = Some t \<longrightarrow> literal_matches t v) \<and>
    (is_field a \<longleftrightarrow> ty \<noteq> None) \<and> (ty = None \<longrightarrow> a = ALit v)"
proof (cases a)
  case (ALit v)
  then have "arg_value a ctx d = Inr v" using assms(2) by (cases v) auto
  then show ?thesis using ALit assms(1) by auto
qed (use assms in \<open>auto simp: bind_res_Inr dest: typed_ctxD\<close>)

lemma operand_type_no_datetime:
  "no_datetime sch \<Longrightarrow> operand_type sch a = Inr ty \<Longrightarrow> ty \<noteq> Some TDatetime"
  by (cases a) (auto simp: bind_res_Inr dest: no_datetimeD)

lemma order_operands_num:
  assumes "orderable lt" "orderable rt" "lt \<noteq> Some TDatetime" "rt \<noteq> Some TDatetime"
    and "lt \<noteq> None \<or> rt \<noteq> None"
    and "\<And>t. lt = Some t \<Longrightarrow> literal_matches t lv" "\<And>t. rt = Some t \<Longrightarrow> literal_matches t rv"
    and "lt = None \<Longrightarrow> l = ALit lv" "rt = None \<Longrightarrow> r = ALit rv"
    and "check_literal lt r = Inr ()" "check_literal rt l = Inr ()"
  shows "\<exists>c. py_compare lv rv = Some c"
proof -
  have "literal_matches TNumber lv" "literal_matches TNumber rv"
    using assms by (auto simp: orderable_def split: if_splits)
  then show ?thesis
    by (metis number_num_of py_compare_num)
qed

lemma check_binary_sound:
  assumes ok: "check_binary sch op l r = Inr ()" and plain: "plain_operand l" "plain_operand r"
    and ctx: "typed_ctx sch ctx" "no_datetime sch"
    and cls: "classify op = OpCompare \<and> (op = ''eq'' \<or> op = ''ne'' \<or> is_field l \<or> is_field r)
      \<or> classify op = OpMember"
  obtains lv rv where "arg_value l ctx d = Inr lv" "arg_value r ctx d = Inr rv"
    "classify op = OpCompare \<Longrightarrow> is_ok (compare_op op lv rv)"
    "classify op = OpMember \<Longrightarrow> is_ok (member_op op lv rv)"
proof -
  obtain lt rt where ty: "operand_type sch l = Inr lt" "operand_type sch r = Inr rt"
    using ok by (auto simp: check_binary_def bind_res_Inr)
  obtain lv where lv: "arg_value l ctx d = Inr lv" "\<And>t. lt = Some t \<Longrightarrow> literal_matches t lv"
    "is_field l \<longleftrightarrow> lt \<noteq> None" "lt = None \<Longrightarrow> l = ALit lv"
    using operand_typeD [OF ty(1) plain(1) ctx(1)] by metis
  obtain rv where rv: "arg_value r ctx d = Inr rv" "\<And>t. rt = Some t \<Longrightarrow> literal_matches t rv"
    "is_field r \<longleftrightarrow> rt \<noteq> None" "rt = None \<Longrightarrow> r = ALit rv"
    using operand_typeD [OF ty(2) plain(2) ctx(1)] by metis
  have nodt: "lt \<noteq> Some TDatetime" "rt \<noteq> Some TDatetime"
    using operand_type_no_datetime [OF ctx(2)] ty by auto
  have cmp: "is_ok (compare_op op lv rv)" if c: "classify op = OpCompare"
  proof (cases "op = ''eq'' \<or> op = ''ne''")
    case True
    then show ?thesis by (auto simp: compare_op_def)
  next
    case False
    then have "op \<in> {''lt'', ''lte'', ''gt'', ''gte''}"
      using c by (auto simp: classify_def split: if_splits)
    then have "orderable lt" "orderable rt" "check_literal lt r = Inr ()" "check_literal rt l = Inr ()"
      using ok ty by (auto simp: check_binary_def bind_res_Inr split: if_splits)
    moreover have "lt \<noteq> None \<or> rt \<noteq> None"
      using False cls c lv(3) rv(3) by auto
    ultimately obtain x where "py_compare lv rv = Some x"
      using order_operands_num nodt lv(2,4) rv(2,4) by metis
    then show ?thesis using False by (simp add: compare_op_def)
  qed
  have mem: "is_ok (member_op op lv rv)" if c: "classify op = OpMember"
  proof -
    have "op \<in> {''in'', ''not_in''}"
      using c by (auto simp: classify_def split: if_splits)
    then have "\<exists>ys. rv = PList ys"
      using ok ty rv(2,4)
      by (auto simp: check_binary_def split: if_splits option.splits arg.splits pyval.splits)
    then show ?thesis by (auto simp: member_op_def)
  qed
  show ?thesis
    using that [OF lv(1) rv(1) cmp mem] .
qed

lemma eval_sound:
  assumes ctx: "typed_ctx sch ctx" "no_datetime sch"
  shows "check_expr sch x = Inr () \<Longrightarrow> strict_expr x \<Longrightarrow> d + expr_height x \<le> Suc MAX_DEPTH \<Longrightarrow>
      is_ok (eval_expr x ctx d)"
    and "check_bool_arg sch a = Inr () \<Longrightarrow> strict_arg a \<Longrightarrow> d + arg_height a \<le> MAX_DEPTH \<Longrightarrow>
      is_ok (arg_truthy a ctx d)"
proof (induction x and a arbitrary: d and d)
  case (Expr op args)
  have depth: "\<not> MAX_DEPTH < d" using Expr.prems(3) by simp
  have height: "d + arg_height a \<le> MAX_DEPTH" if "a \<in> set args" for a
    using Expr.prems(3) foldr_max_ge [of "arg_height a" "map arg_height args"] that by simp
  have bool: "is_ok (arg_truthy a ctx d)"
    if "classify op \<in> {OpAnd, OpOr, OpNot}" and a: "a \<in> set args" for a
  proof -
    have "check_bool_arg sch a = Inr ()"
      using Expr.prems(1) that seq_res_ok [of "map (check_bool_arg sch) args"] by auto
    moreover have "strict_arg a"
      using Expr.prems(2) that by (auto simp: list_all_iff)
    ultimately show ?thesis using Expr.IH [OF a] height [OF a] by blast
  qed
  have two: "\<exists>l r. args = [l, r] \<and> check_binary sch op l r = Inr ()"
    if "classify op \<in> {OpCompare, OpMember}"
    using Expr.prems(1) that by (auto simp: check_two_def split: list.splits if_splits)
  show ?case
  proof (cases "classify op")
    case OpAnd
    then show ?thesis using Expr.prems(2) depth bool by (auto intro!: all_res_ok)
  next
    case OpOr
    then show ?thesis using Expr.prems(2) depth bool by (auto intro!: any_res_ok)
  next
    case OpNot
    then show ?thesis using Expr.prems(2) depth bool
      by (auto simp: is_ok_bind is_ok_iff length_Suc_conv)
  next
    case OpExists
    then show ?thesis using Expr.prems(1) depth
      by (auto simp: check_exists_def exists_op_def split: list.splits arg.splits)
  next
    case OpCompare
    with two obtain l r where lr: "args = [l, r]" "check_binary sch op l r = Inr ()" by auto
    with OpCompare Expr.prems(2)
    obtain lv rv where "arg_value l ctx d = Inr lv" "arg_value r ctx d = Inr rv"
      "is_ok (compare_op op lv rv)"
      using check_binary_sound [OF lr(2) _ _ ctx, of d] by auto
    then show ?thesis using OpCompare depth lr(1) by (simp add: both_res_def)
  next
    case OpMember
    with two obtain l r where lr: "args = [l, r]" "check_binary sch op l r = Inr ()" by auto
    with OpMember Expr.prems(2)
    obtain lv rv where "arg_value l ctx d = Inr lv" "arg_value r ctx d = Inr rv"
      "is_ok (member_op op lv rv)"
      using check_binary_sound [OF lr(2) _ _ ctx, of d] by auto
    then show ?thesis using OpMember depth lr(1) by (simp add: both_res_def)
  qed (use Expr.prems(2) in simp)
qed simp_all

section \<open>Properties\<close>


definition sample_condition :: pyval where
  "sample_condition = PDict [(''op'', PStr ''and''), (''args'', PList
     [PDict [(''op'', PStr ''gte''), (''args'', PList [PDict [(''field'', PStr ''now.hour'')], PInt 6])],
      PDict [(''op'', PStr ''in''), (''args'', PList [PDict [(''field'', PStr ''scope'')],
        PList [PStr ''bbz'', PStr ''global'']])]])]"

definition sample_expr :: expr where
  "sample_expr = Expr ''and''
     [ASub (Expr ''gte'' [AField ''now.hour'', ALit (PInt 6)]),
      ASub (Expr ''in'' [AField ''scope'', ALit (PList [PStr ''bbz'', PStr ''global''])])]"

definition sample_rbac_ctx :: pydict where
  "sample_rbac_ctx =
     [(''now.hour'', PInt 7), (''now.weekday'', PInt 2), (''now.iso'', PStr ''2026-01-01''),
      (''scope'', PStr ''bbz'')]"


text \<open>
  After parsing, evaluation never reaches the final "operator not allowed" raise, whatever the
  context: every operator a parsed expression contains has a branch of its own. It can also not leave
  the DSL's own errors (no \<^verbatim>\<open>TypeError\<close> of Python, no unknown-field error at run time).
\<close>

theorem evaluate_after_parse_errors:
  assumes "parse_tree t = Inr e"
  shows "evaluate e ctx \<notin> {Inl OperatorNotAllowed, Inl UnhashableOp, Inl (UnknownField f)}"
proof -
  define P where "P = (\<lambda>x. x \<noteq> OperatorNotAllowed \<and> x \<noteq> UnhashableOp \<and> x \<noteq> UnknownField f)"
  have "P x" if "evaluate e ctx = Inl x" for x
    using eval_error_cases(1) [of P e ctx 0 x] parse_ops_allowed(1) [OF assms] that
    by (simp add: P_def evaluate_def)
  then show ?thesis by (auto simp: P_def)
qed

theorem evaluate_after_parse_errors_witness:
  "evaluate sample_expr [] \<notin> {Inl OperatorNotAllowed, Inl UnhashableOp, Inl (UnknownField ''x'')}"
proof -
  have "parse_tree sample_condition = Inr sample_expr" by code_simp
  then show ?thesis by (rule evaluate_after_parse_errors)
qed

text \<open>
  The publish gate does not look into the operands of a comparison: a condition whose nested
  expression names a field that no context has is accepted for every registered context, although
  \<^verbatim>\<open>validate\<close> documents that an unknown field fails there.
\<close>

definition nested_unknown_condition :: pyval where
  "nested_unknown_condition = PDict [(''op'', PStr ''eq''), (''args'', PList
     [PDict [(''op'', PStr ''exists''), (''args'', PList [PDict [(''field'', PStr ''no_such_field'')]])],
      PBool True])]"

theorem nested_unknown_field_accepted:
  "schema_validate TRIGGER_CONTEXT nested_unknown_condition = Inr ()
   \<and> schema_validate WORKFLOW_CONTEXT nested_unknown_condition = Inr ()
   \<and> schema_validate RBAC_CONTEXT nested_unknown_condition = Inr ()
   \<and> field_type_of TRIGGER_CONTEXT ''no_such_field'' = Inl (UnknownField ''no_such_field'')
   \<and> field_type_of WORKFLOW_CONTEXT ''no_such_field'' = Inl (UnknownField ''no_such_field'')
   \<and> field_type_of RBAC_CONTEXT ''no_such_field'' = Inl (UnknownField ''no_such_field'')"
  by code_simp

text \<open>The gate does not test the depth: a condition nested deeper than the evaluator's limit is accepted and raises at every evaluation.\<close>

fun nested_not :: "nat \<Rightarrow> pyval" where
  "nested_not 0 = PDict [(''op'', PStr ''exists''), (''args'', PList [PDict [(''field'', PStr ''now.hour'')]])]"
| "nested_not (Suc n) = PDict [(''op'', PStr ''not''), (''args'', PList [nested_not n])]"

theorem deep_condition_accepted:
  "schema_validate RBAC_CONTEXT (nested_not 65) = Inr ()
   \<and> (case parse_tree (nested_not 65) of Inr e \<Rightarrow> evaluate e sample_rbac_ctx = Inl TooDeep | Inl _ \<Rightarrow> False)"
  by code_simp

end
