(* ===== verification/Workflow_Engine.thy ===== *)
theory Workflow_Engine
  imports Workflow_Graph Rule_Dsl
begin

text \<open>
  \<^verbatim>\<open>server/bbz_core/domain/workflow/engine.py\<close>: the token engine. The working list of the code (\<open>work\<close>,
  objects of class \<^verbatim>\<open>_W\<close> mutated in place) is a list threaded through the steps; a token is addressed by
  its position, which never changes because the code only appends. The loop budget of \<^verbatim>\<open>_run_loop\<close> is the
  fuel of \<open>run_loop\<close>, and running out is the error the code raises.
\<close>

section \<open>Data\<close>

datatype token_state = Active | Waiting | Consumed

record token =
  t_id :: nat
  t_node :: string
  t_state :: string
  t_inbound :: "string option"

record decision_made =
  dm_connector :: string
  dm_chosen :: "string list"
  dm_auto :: bool

record engine_result =
  er_consumed :: "nat list"
  er_parked :: "nat list"
  er_spawned :: "(string \<times> string option) list"
  er_decisions :: "decision_made list"
  er_completed :: bool

record wtok =
  w_existing :: bool
  w_id :: "nat option"
  w_node :: string
  w_state :: token_state
  w_inbound :: "string option"
  w_was_active :: bool

type_synonym work = "wtok list"

record engine_run =
  r_graph :: derived_graph
  r_context :: pydict
  r_decisions :: "(string \<times> string list) list"

datatype engine_error =
    UnexpectedTokenState string
  | NotSettled
  | UnknownNode string
  | UnknownNodeType string
  | NoDirection string
  | DecisionNamesNoBranch string
  | XorNotExactlyOne string
  | StepNotWaiting string
  | IndexKeyError            \<comment> \<open>\<^verbatim>\<open>KeyError\<close> of \<^verbatim>\<open>_Index\<close>: an edge endpoint is no node\<close>
  | GuardTypeError           \<comment> \<open>\<^verbatim>\<open>TypeError\<close> of \<^verbatim>\<open>parse\<close>, which \<^verbatim>\<open>_guard_true\<close> does not catch\<close>
  | StillActive

section \<open>The index (\<^verbatim>\<open>_Index\<close>)\<close>

definition sorted_graph :: "derived_graph \<Rightarrow> derived_graph" where
  "sorted_graph g = g\<lparr>g_edges := sort_key e_key (g_edges g)\<rparr>"

definition idx_out :: "derived_graph \<Rightarrow> string \<Rightarrow> gedge list" where
  "idx_out g k = out_edges (sorted_graph g) k"

definition idx_inc :: "derived_graph \<Rightarrow> string \<Rightarrow> gedge list" where
  "idx_inc g k = in_edges (sorted_graph g) k"

definition descendants :: "derived_graph \<Rightarrow> string \<Rightarrow> string set" where
  "descendants g k = search (sorted_graph g) (rev (map e_to (idx_out g k))) {}"

text \<open>\<^verbatim>\<open>self.reachable\<close> has an entry for every node only.\<close>

definition idx_reachable :: "derived_graph \<Rightarrow> string \<Rightarrow> string set" where
  "idx_reachable g k = (if k \<in> set (node_keys g) then descendants g k else {})"

definition mk_run :: "derived_graph \<Rightarrow> pydict \<Rightarrow> (string \<times> string list) list \<Rightarrow> (engine_error, engine_run) res" where
  "mk_run g ctx decs =
     (if \<forall>e\<in>set (g_edges g). e_from e \<in> set (node_keys g) \<and> e_to e \<in> set (node_keys g)
      then Inr \<lparr>r_graph = g, r_context = ctx, r_decisions = decs\<rparr>
      else Inl IndexKeyError)"

definition mk_existing :: "token \<Rightarrow> (engine_error, wtok) res" where
  "mk_existing t =
     (if t_state t \<notin> {''active'', ''waiting''} then Inl (UnexpectedTokenState (t_state t))
      else Inr \<lparr>w_existing = True, w_id = Some (t_id t), w_node = t_node t,
                w_state = (if t_state t = ''active'' then Active else Waiting),
                w_inbound = t_inbound t, w_was_active = (t_state t = ''active'')\<rparr>)"

fun mk_work :: "token list \<Rightarrow> (engine_error, work) res" where
  "mk_work [] = Inr []"
| "mk_work (t # ts) = bind_res (mk_existing t) (\<lambda>w. bind_res (mk_work ts) (\<lambda>ws. Inr (w # ws)))"

section \<open>Branch selection\<close>

definition guard_true :: "pydict \<Rightarrow> pydict \<Rightarrow> (engine_error, bool) res" where
  "guard_true cond ctx =
     (case bind_res (parse_tree (PDict cond)) (\<lambda>e. evaluate e ctx) of
        Inr b \<Rightarrow> Inr b
      | Inl x \<Rightarrow> if x = UnhashableOp then Inl GuardTypeError else Inr False)"

fun first_guarded :: "pydict \<Rightarrow> gedge list \<Rightarrow> (engine_error, gedge option) res" where
  "first_guarded ctx [] = Inr None"
| "first_guarded ctx (e # es) =
     (case e_condition e of
        None \<Rightarrow> first_guarded ctx es
      | Some c \<Rightarrow> bind_res (guard_true c ctx) (\<lambda>b. if b then Inr (Some e) else first_guarded ctx es))"

fun all_guarded :: "pydict \<Rightarrow> gedge list \<Rightarrow> (engine_error, gedge list) res" where
  "all_guarded ctx [] = Inr []"
| "all_guarded ctx (e # es) =
     bind_res (case e_condition e of None \<Rightarrow> Inr True | Some c \<Rightarrow> guard_true c ctx) (\<lambda>b.
       bind_res (all_guarded ctx es) (\<lambda>rest. Inr (if b then e # rest else rest)))"

definition auto_branches :: "pydict \<Rightarrow> gedge list \<Rightarrow> bool \<Rightarrow> (engine_error, gedge list option) res" where
  "auto_branches ctx outs exclusive =
     (if exclusive then
        bind_res (first_guarded ctx outs) (\<lambda>hit.
          (case hit of
             Some e \<Rightarrow> Inr (Some [e])
           | None \<Rightarrow>
               (case filter (\<lambda>e. e_condition e = None) outs of
                  [] \<Rightarrow> Inr None
                | d # _ \<Rightarrow> Inr (Some [d]))))
      else bind_res (all_guarded ctx outs) (\<lambda>picked. Inr (if picked = [] then None else Some picked)))"

section \<open>Steps\<close>

definition spawn_on :: "gedge list \<Rightarrow> work" where
  "spawn_on es = map (\<lambda>e. \<lparr>w_existing = False, w_id = None, w_node = e_to e, w_state = Active,
     w_inbound = Some (e_key e), w_was_active = False\<rparr>) es"

definition set_state :: "nat \<Rightarrow> token_state \<Rightarrow> work \<Rightarrow> work" where
  "set_state i s work = work[i := (work ! i)\<lparr>w_state := s\<rparr>]"

definition live_at :: "string \<Rightarrow> wtok \<Rightarrow> bool" where
  "live_at k w = (w_node w = k \<and> w_state w \<noteq> Consumed)"

definition fire_join :: "engine_run \<Rightarrow> string \<Rightarrow> work \<Rightarrow> work" where
  "fire_join r k work =
     map (\<lambda>w. if live_at k w then w\<lparr>w_state := Consumed\<rparr> else w) work @ spawn_on (idx_out (r_graph r) k)"

definition maybe_fire_and_join :: "engine_run \<Rightarrow> string \<Rightarrow> work \<Rightarrow> work" where
  "maybe_fire_and_join r k work =
     (let arrived = w_inbound ` set (filter (live_at k) work);
          needed = e_key ` set (idx_inc (r_graph r) k)
      in if needed = {} \<or> \<not> Some ` needed \<subseteq> arrived then work else fire_join r k work)"

definition fire_choice_join :: "engine_run \<Rightarrow> string \<Rightarrow> work \<Rightarrow> work" where
  "fire_choice_join r k work =
     (if filter (live_at k) work = [] then work else fire_join r k work)"

definition still_coming :: "engine_run \<Rightarrow> string \<Rightarrow> work \<Rightarrow> bool" where
  "still_coming r k work =
     (\<exists>w\<in>set work. w_state w \<in> {Active, Waiting} \<and> w_node w \<noteq> k
        \<and> k \<in> idx_reachable (r_graph r) (w_node w))"

definition maybe_fire_or_join :: "engine_run \<Rightarrow> string \<Rightarrow> work \<Rightarrow> work" where
  "maybe_fire_or_join r k work =
     (if filter (live_at k) work = [] then work
      else if still_coming r k work then work
      else fire_join r k work)"

definition choice_split ::
  "engine_run \<Rightarrow> work \<Rightarrow> nat \<Rightarrow> gnode \<Rightarrow> (engine_error, work \<times> decision_made list) res" where
  "choice_split r work i node =
     (let exclusive = (n_connector_type node = Some ''xor'');
          outs = idx_out (r_graph r) (n_key node)
      in case map_of (r_decisions r) (n_key node) of
           Some wanted \<Rightarrow>
             (let chosen = filter (\<lambda>e. e_key e \<in> set wanted) outs
              in if chosen = [] then Inl (DecisionNamesNoBranch (n_key node))
                 else if exclusive \<and> length chosen \<noteq> 1 then Inl (XorNotExactlyOne (n_key node))
                 else Inr (set_state i Consumed work @ spawn_on chosen, []))
         | None \<Rightarrow>
             bind_res (auto_branches (r_context r) outs exclusive) (\<lambda>auto.
               (case auto of
                  None \<Rightarrow> Inr (set_state i Waiting work, [])
                | Some es \<Rightarrow>
                    Inr (set_state i Consumed work @ spawn_on es,
                         [\<lparr>dm_connector = n_key node, dm_chosen = map e_key es, dm_auto = True\<rparr>]))))"

definition connector_step ::
  "engine_run \<Rightarrow> work \<Rightarrow> nat \<Rightarrow> gnode \<Rightarrow> (engine_error, work \<times> decision_made list) res" where
  "connector_step r work i node =
     (if n_connector_direction node = Some ''split'' then
        (if n_connector_type node = Some ''and'' then
           Inr (set_state i Consumed work @ spawn_on (idx_out (r_graph r) (n_key node)), [])
         else choice_split r work i node)
      else if n_connector_direction node = Some ''join'' then
        (let parked = set_state i Waiting work in
         if n_connector_type node = Some ''and'' then
           Inr (maybe_fire_and_join r (n_key node) parked, [])
         else if n_connector_type node = Some ''xor'' then
           Inr (fire_choice_join r (n_key node) parked, [])
         else Inr (maybe_fire_or_join r (n_key node) parked, []))
      else Inl (NoDirection (n_key node)))"

definition process_token ::
  "engine_run \<Rightarrow> work \<Rightarrow> nat \<Rightarrow> (engine_error, work \<times> decision_made list) res" where
  "process_token r work i =
     (case node_at (r_graph r) (w_node (work ! i)) of
        None \<Rightarrow> Inl (UnknownNode (w_node (work ! i)))
      | Some node \<Rightarrow>
          if n_type node = ''event'' then
            Inr (set_state i Consumed work @ spawn_on (idx_out (r_graph r) (n_key node)), [])
          else if n_type node = ''function'' then Inr (set_state i Waiting work, [])
          else if n_type node = ''connector'' then connector_step r work i node
          else Inl (UnknownNodeType (n_type node)))"

definition is_active :: "wtok \<Rightarrow> bool" where
  "is_active w = (w_state w = Active)"

fun run_loop ::
  "engine_run \<Rightarrow> nat \<Rightarrow> work \<Rightarrow> decision_made list \<Rightarrow> (engine_error, work \<times> decision_made list) res" where
  "run_loop r 0 work made =
     (case index_of is_active work of None \<Rightarrow> Inr (work, made) | Some i \<Rightarrow> Inl NotSettled)"
| "run_loop r (Suc budget) work made =
     (case index_of is_active work of
        None \<Rightarrow> Inr (work, made)
      | Some i \<Rightarrow> bind_res (process_token r work i) (\<lambda>(work', ds). run_loop r budget work' (made @ ds)))"

definition loop_budget :: "derived_graph \<Rightarrow> work \<Rightarrow> nat" where
  "loop_budget g work =
     (length (g_nodes g) + length (g_edges g) + length work) * (length (g_nodes g) + 1) + 100"

definition engine_result_of :: "work \<Rightarrow> decision_made list \<Rightarrow> (engine_error, engine_result) res" where
  "engine_result_of work made =
     (if \<exists>w\<in>set work. \<not> w_existing w \<and> w_state w = Active then Inl StillActive
      else Inr \<lparr>er_consumed = map (\<lambda>w. the (w_id w)) (filter (\<lambda>w. w_existing w \<and> w_state w = Consumed) work),
        er_parked = map (\<lambda>w. the (w_id w))
          (filter (\<lambda>w. w_existing w \<and> w_state w = Waiting \<and> w_was_active w) work),
        er_spawned = map (\<lambda>w. (w_node w, w_inbound w))
          (filter (\<lambda>w. \<not> w_existing w \<and> w_state w = Waiting) work),
        er_decisions = made,
        er_completed = (\<not> (\<exists>w\<in>set work. w_state w \<in> {Active, Waiting}))\<rparr>)"

definition settle_work :: "engine_run \<Rightarrow> work \<Rightarrow> (engine_error, engine_result) res" where
  "settle_work r work =
     bind_res (run_loop r (loop_budget (r_graph r) work) work []) (\<lambda>(work', made).
       engine_result_of work' made)"

definition advance ::
  "derived_graph \<Rightarrow> token list \<Rightarrow> pydict \<Rightarrow> (string \<times> string list) list \<Rightarrow> (engine_error, engine_result) res" where
  "advance g tokens ctx decs =
     bind_res (mk_run g ctx decs) (\<lambda>r. bind_res (mk_work tokens) (\<lambda>work. settle_work r work))"

definition waiting_at :: "string \<Rightarrow> wtok \<Rightarrow> bool" where
  "waiting_at k w = (w_node w = k \<and> w_state w = Waiting)"

definition resume_function ::
  "derived_graph \<Rightarrow> token list \<Rightarrow> string \<Rightarrow> pydict \<Rightarrow> (string \<times> string list) list
    \<Rightarrow> (engine_error, engine_result) res" where
  "resume_function g tokens k ctx decs =
     bind_res (mk_run g ctx decs) (\<lambda>r. bind_res (mk_work tokens) (\<lambda>work.
       (case index_of (waiting_at k) work of
          None \<Rightarrow> Inl (StepNotWaiting k)
        | Some i \<Rightarrow> settle_work r (set_state i Consumed work @ spawn_on (idx_out g k)))))"

section \<open>The shape of a step\<close>

lemma edge_rel_sorted [simp]: "edge_rel (sorted_graph g) = edge_rel g"
  by (simp add: edge_rel_def sorted_graph_def)

lemma descendants_trancl: "descendants g k = {y. (k, y) \<in> (edge_rel g)\<^sup>+}"
  by (simp add: descendants_def idx_out_def search_out_trancl)

lemma idx_out_edges: "e \<in> set (idx_out g k) \<longleftrightarrow> e \<in> set (g_edges g) \<and> e_from e = k"
  by (auto simp: idx_out_def out_edges_def sorted_graph_def)

lemma idx_inc_edges: "e \<in> set (idx_inc g k) \<longleftrightarrow> e \<in> set (g_edges g) \<and> e_to e = k"
  by (auto simp: idx_inc_def in_edges_def sorted_graph_def)

text \<open>What a step may do to a token that is already in the working list.\<close>

definition tok_evolves :: "wtok \<Rightarrow> wtok \<Rightarrow> bool" where
  "tok_evolves w v = (v = w\<lparr>w_state := w_state v\<rparr> \<and>
     (w_state v = w_state w \<or> w_state v \<noteq> Active \<and> w_state w \<noteq> Consumed
       \<and> (w_state w = Waiting \<longrightarrow> w_state v = Consumed)))"

definition on_edge :: "derived_graph \<Rightarrow> wtok \<Rightarrow> bool" where
  "on_edge g w = (\<not> w_existing w \<and> w_id w = None \<and> \<not> w_was_active w
     \<and> (\<exists>e\<in>set (g_edges g). w_node w = e_to e \<and> w_inbound w = Some (e_key e)))"

definition work_evolves :: "derived_graph \<Rightarrow> work \<Rightarrow> work \<Rightarrow> bool" where
  "work_evolves g work work' =
     (\<exists>pre suf. work' = pre @ suf \<and> list_all2 tok_evolves work pre \<and> list_all (on_edge g) suf)"

lemma tok_evolves_refl [simp, intro]: "tok_evolves w w"
  by (simp add: tok_evolves_def)

lemma tok_evolves_trans: "tok_evolves u v \<Longrightarrow> tok_evolves v w \<Longrightarrow> tok_evolves u w"
  by (cases u, cases v, cases w) (auto simp: tok_evolves_def)

lemma tok_evolves_upd:
  "w_state w = Active \<or> w_state w \<noteq> Consumed \<and> s = Consumed \<Longrightarrow> tok_evolves w (w\<lparr>w_state := s\<rparr>)"
  by (cases w; cases s) (auto simp: tok_evolves_def)

lemma tok_evolves_fields:
  assumes "tok_evolves w v"
  shows "w_existing v = w_existing w" "w_id v = w_id w" "w_node v = w_node w"
    "w_inbound v = w_inbound w" "w_was_active v = w_was_active w"
  using assms by (cases v; cases w; simp add: tok_evolves_def)+

lemma tok_evolves_on_edge: "tok_evolves w v \<Longrightarrow> on_edge g w \<Longrightarrow> on_edge g v"
  unfolding on_edge_def by (simp add: tok_evolves_fields)

lemma work_evolves_refl [simp, intro]: "work_evolves g work work"
  unfolding work_evolves_def by (rule exI [of _ work], rule exI [of _ "[]"]) (simp add: list_all2_refl)

lemma work_evolves_trans:
  assumes "work_evolves g a b" "work_evolves g b c"
  shows "work_evolves g a c"
proof -
  obtain p q where b: "b = p @ q" "list_all2 tok_evolves a p" "list_all (on_edge g) q"
    using assms(1) by (auto simp: work_evolves_def)
  obtain p' s where c: "c = p' @ s" "list_all2 tok_evolves b p'" "list_all (on_edge g) s"
    using assms(2) by (auto simp: work_evolves_def)
  obtain p1 p2 where p': "p' = p1 @ p2" "list_all2 tok_evolves p p1" "list_all2 tok_evolves q p2"
    using c(2) b(1) by (auto simp: list_all2_append1)
  have "list_all (on_edge g) p2"
    using p'(3) b(3) unfolding list_all2_conv_all_nth list_all_length
    by (metis tok_evolves_on_edge)
  moreover have "list_all2 tok_evolves a p1"
    using list_all2_trans [of tok_evolves tok_evolves tok_evolves a p p1] tok_evolves_trans b(2) p'(2)
    by blast
  ultimately show ?thesis
    unfolding work_evolves_def using c(1,3) p'(1)
    by (intro exI [of _ p1] exI [of _ "p2 @ s"]) simp
qed

lemma tok_evolves_nodes: "list_all2 tok_evolves work pre \<Longrightarrow> map w_node pre = map w_node work"
  by (induction rule: list_all2_induct) (auto simp: tok_evolves_fields)

lemma work_evolves_nodes:
  assumes "work_evolves g work work'"
  shows "w_node ` set work' \<subseteq> w_node ` set work \<union> e_to ` set (g_edges g)"
proof -
  obtain pre suf where w': "work' = pre @ suf" "list_all2 tok_evolves work pre" "list_all (on_edge g) suf"
    using assms unfolding work_evolves_def by blast
  have "w_node ` set pre = w_node ` set work"
    using tok_evolves_nodes [OF w'(2)] by (metis set_map)
  moreover have "w_node ` set suf \<subseteq> e_to ` set (g_edges g)"
    using w'(3) by (auto simp: list_all_iff on_edge_def)
  ultimately show ?thesis by (auto simp: w'(1))
qed

lemma spawn_on_edge:
  "set es \<subseteq> set (g_edges g) \<Longrightarrow> list_all (on_edge g) (spawn_on es)"
  by (auto simp: spawn_on_def on_edge_def list_all_iff)

lemma work_evolves_spawn:
  "list_all2 tok_evolves work pre \<Longrightarrow> set es \<subseteq> set (g_edges g) \<Longrightarrow> work_evolves g work (pre @ spawn_on es)"
  unfolding work_evolves_def using spawn_on_edge by blast

lemma set_state_evolves:
  "i < length work \<Longrightarrow> w_state (work ! i) = Active \<Longrightarrow> list_all2 tok_evolves work (set_state i s work)"
  by (auto simp: set_state_def list_all2_conv_all_nth nth_list_update intro: tok_evolves_upd)

lemma work_evolves_set_state:
  "i < length work \<Longrightarrow> w_state (work ! i) = Active \<Longrightarrow> work_evolves g work (set_state i s work)"
  using work_evolves_spawn [of work "set_state i s work" "[]" g] set_state_evolves
  by (simp add: spawn_on_def)

lemma fire_join_evolves: "work_evolves (r_graph r) work (fire_join r k work)"
  unfolding fire_join_def
  by (rule work_evolves_spawn)
    (auto simp: list_all2_conv_all_nth live_at_def idx_out_edges intro: tok_evolves_upd)

lemma join_evolves:
  "work_evolves (r_graph r) work (maybe_fire_and_join r k work)"
  "work_evolves (r_graph r) work (fire_choice_join r k work)"
  "work_evolves (r_graph r) work (maybe_fire_or_join r k work)"
  using fire_join_evolves
  by (auto simp: maybe_fire_and_join_def fire_choice_join_def maybe_fire_or_join_def Let_def)

lemma all_guarded_sub: "all_guarded ctx es = Inr xs \<Longrightarrow> set xs \<subseteq> set es"
  by (induction es arbitrary: xs) (auto simp: bind_res_Inr split: if_splits)

lemma first_guarded_mem: "first_guarded ctx es = Inr (Some e) \<Longrightarrow> e \<in> set es"
  by (induction es) (auto simp: bind_res_Inr split: if_splits option.splits)

lemma auto_branches_sub:
  "auto_branches ctx es x = Inr (Some cs) \<Longrightarrow> set cs \<subseteq> set es \<and> cs \<noteq> [] \<and> (x \<longrightarrow> length cs = 1)"
  by (auto simp: auto_branches_def bind_res_Inr filter_eq_Cons_iff
      dest!: first_guarded_mem all_guarded_sub split: if_splits option.splits list.splits)

lemma connector_step_evolves:
  assumes "connector_step r work i node = Inr (work', ds)"
    and i: "i < length work" "w_state (work ! i) = Active"
  shows "work_evolves (r_graph r) work work'"
proof -
  let ?out = "idx_out (r_graph r) (n_key node)"
  have spawn: "work_evolves (r_graph r) work (set_state i Consumed work @ spawn_on es)"
    if "set es \<subseteq> set ?out" for es
    using that i by (intro work_evolves_spawn set_state_evolves) (auto simp: idx_out_edges)
  have park: "work_evolves (r_graph r) work (set_state i Waiting work)"
    using i by (rule work_evolves_set_state)
  have join: "work_evolves (r_graph r) (set_state i Waiting work) v \<Longrightarrow> work_evolves (r_graph r) work v" for v
    using park by (rule work_evolves_trans)
  have "choice_split r work i node = Inr (work', ds) \<Longrightarrow> ?thesis"
    by (auto simp: choice_split_def Let_def bind_res_Inr intro!: spawn park dest!: auto_branches_sub
        split: if_splits option.splits)
  with assms(1) show ?thesis
    by (auto simp: connector_step_def Let_def intro: spawn join [OF join_evolves(1)]
        join [OF join_evolves(2)] join [OF join_evolves(3)] split: if_splits)
qed

lemma process_token_evolves:
  assumes "process_token r work i = Inr (work', ds)"
    and i: "i < length work" "w_state (work ! i) = Active"
  shows "work_evolves (r_graph r) work work'"
  using assms connector_step_evolves
  by (auto simp: process_token_def idx_out_edges intro!: work_evolves_spawn set_state_evolves
      work_evolves_set_state split: option.splits if_splits)

lemma run_loop_invariant:
  assumes "run_loop r n work made = Inr (work', made')" and "P work made"
    and "\<And>u m i v ds. P u m \<Longrightarrow> index_of is_active u = Some i \<Longrightarrow> process_token r u i = Inr (v, ds)
      \<Longrightarrow> P v (m @ ds)"
  shows "P work' made'"
  using assms(1,2)
proof (induction n arbitrary: work made)
  case 0
  then show ?case by (auto split: option.splits)
next
  case (Suc n)
  then show ?case using assms(3)
    by (auto simp: bind_res_Inr split: option.splits)
qed

lemma run_loop_quiescent:
  "run_loop r n work made = Inr (work', made') \<Longrightarrow> \<forall>w\<in>set work'. w_state w \<noteq> Active"
proof (induction n arbitrary: work made)
  case 0
  then show ?case by (auto simp: is_active_def split: option.splits)
next
  case (Suc n)
  then show ?case
    by (auto simp: is_active_def bind_res_Inr split: option.splits)
qed

lemma run_loop_evolves:
  assumes "run_loop r n work made = Inr (work', made')"
  shows "work_evolves (r_graph r) work work'"
proof (rule run_loop_invariant [OF assms, where P = "\<lambda>u m. work_evolves (r_graph r) work u"])
  fix u m i v ds
  assume u: "work_evolves (r_graph r) work u" and i: "index_of is_active u = Some i"
    and p: "process_token r u i = Inr (v, ds)"
  have "work_evolves (r_graph r) u v"
    using p index_of_Some [OF i] by (intro process_token_evolves) (auto simp: is_active_def)
  with u show "work_evolves (r_graph r) work v" by (rule work_evolves_trans)
qed simp

section \<open>From the tokens to the result\<close>

definition tracks :: "token \<Rightarrow> wtok \<Rightarrow> bool" where
  "tracks t w = (w_existing w \<and> w_id w = Some (t_id t) \<and> w_node w = t_node t
     \<and> w_inbound w = t_inbound t \<and> (w_was_active w \<longleftrightarrow> t_state t = ''active''))"

definition fresh_work :: "token \<Rightarrow> wtok \<Rightarrow> bool" where
  "fresh_work t w = (tracks t w \<and> t_state t \<in> {''active'', ''waiting''}
     \<and> w_state w = (if t_state t = ''active'' then Active else Waiting))"

lemma mk_work_fresh: "mk_work ts = Inr work \<Longrightarrow> list_all2 fresh_work ts work"
proof (induction ts arbitrary: work)
  case (Cons t ts)
  then obtain w ws where "mk_existing t = Inr w" "mk_work ts = Inr ws" "work = w # ws"
    by (auto simp: bind_res_Inr)
  with Cons.IH show ?case
    by (auto simp: mk_existing_def fresh_work_def tracks_def split: if_splits)
qed simp

lemma mk_work_waiting:
  "\<forall>t\<in>set ts. t_state t = ''waiting'' \<Longrightarrow>
   \<exists>work. mk_work ts = Inr work \<and> (\<forall>w\<in>set work. w_existing w \<and> w_state w = Waiting \<and> \<not> w_was_active w)
     \<and> length work = length ts"
  by (induction ts) (auto simp: mk_existing_def)

definition final_of :: "token \<Rightarrow> wtok \<Rightarrow> bool" where
  "final_of t w = (tracks t w \<and> w_state w \<in> {Waiting, Consumed} \<and> t_state t \<in> {''active'', ''waiting''})"

lemma fresh_final:
  "fresh_work t w \<Longrightarrow> tok_evolves w v \<Longrightarrow> w_state v \<noteq> Active \<Longrightarrow> final_of t v"
  by (cases "w_state v") (auto simp: fresh_work_def final_of_def tracks_def tok_evolves_fields)

lemma fresh_final_list:
  assumes "list_all2 fresh_work ts work" "list_all2 tok_evolves work pre" "\<forall>w\<in>set pre. w_state w \<noteq> Active"
  shows "list_all2 final_of ts pre"
  using assms unfolding list_all2_conv_all_nth by (metis fresh_final nth_mem)

text \<open>The live tokens of an instance after a result has been applied, as node and inbound edge.\<close>

definition live_after :: "token list \<Rightarrow> engine_result \<Rightarrow> (string \<times> string option) list" where
  "live_after ts res =
     map (\<lambda>t. (t_node t, t_inbound t)) (filter (\<lambda>t. t_id t \<notin> set (er_consumed res)) ts) @ er_spawned res"

definition live_of :: "work \<Rightarrow> (string \<times> string option) list" where
  "live_of work = map (\<lambda>w. (w_node w, w_inbound w)) (filter (\<lambda>w. w_state w \<noteq> Consumed) work)"

lemma live_state_iff: "s \<in> {Active, Waiting} \<longleftrightarrow> s \<noteq> Consumed"
  by (cases s) auto

lemma map_zip_fst: "length xs = length ys \<Longrightarrow> map (\<lambda>(x, y). f x) (zip xs ys) = map f xs"
  by (induction xs ys rule: list_induct2) auto

lemma final_consumed:
  assumes "list_all2 final_of ts pre"
  shows "map (\<lambda>w. the (w_id w)) (filter (\<lambda>w. w_existing w \<and> w_state w = Consumed) pre) =
    map (\<lambda>(t, w). t_id t) (filter (\<lambda>(t, w). w_state w = Consumed) (zip ts pre))"
  using assms by (induction rule: list_all2_induct) (auto simp: final_of_def tracks_def)

lemma final_parked:
  assumes "list_all2 final_of ts pre"
  shows "map (\<lambda>w. the (w_id w)) (filter (\<lambda>w. w_existing w \<and> w_state w = Waiting \<and> w_was_active w) pre) =
    map (\<lambda>(t, w). t_id t)
      (filter (\<lambda>(t, w). w_state w = Waiting \<and> t_state t = ''active'') (zip ts pre))"
  using assms by (induction rule: list_all2_induct) (auto simp: final_of_def tracks_def)

lemma final_no_spawn:
  assumes "list_all2 final_of ts pre"
  shows "filter (\<lambda>w. \<not> w_existing w \<and> w_state w = Waiting) pre = []"
  using assms by (induction rule: list_all2_induct) (auto simp: final_of_def tracks_def)

lemma on_edge_not_existing:
  "list_all (on_edge g) suf \<Longrightarrow> filter (\<lambda>w. w_existing w \<and> P w) suf = []"
  by (induction suf) (auto simp: on_edge_def)

lemma zip_id_functional:
  assumes "distinct (map t_id ts)" "(t, w) \<in> set (zip ts pre)" "(t', w') \<in> set (zip ts pre)" "t_id t = t_id t'"
  shows "t = t' \<and> w = w'"
  using assms by (auto simp: set_zip distinct_conv_nth)

lemma final_kept:
  assumes "list_all2 final_of ts pre" "distinct (map t_id ts)"
    "consumed = map (\<lambda>(t, w). t_id t) (filter (\<lambda>(t, w). w_state w = Consumed) (zip ts pre))"
  shows "map (\<lambda>t. (t_node t, t_inbound t)) (filter (\<lambda>t. t_id t \<notin> set consumed) ts) = live_of pre"
proof -
  have len: "length ts = length pre"
    using assms(1) by (rule list_all2_lengthD)
  have mem: "t_id t \<in> set consumed \<longleftrightarrow> w_state w = Consumed" if "(t, w) \<in> set (zip ts pre)" for t w
  proof -
    have "t_id t \<in> set consumed \<longleftrightarrow>
        (\<exists>t' w'. (t', w') \<in> set (zip ts pre) \<and> w_state w' = Consumed \<and> t_id t = t_id t')"
      unfolding assms(3) by (auto simp: image_iff)
    then show ?thesis
      using zip_id_functional [OF assms(2) that] that by blast
  qed
  have "map (\<lambda>t. (t_node t, t_inbound t)) (filter (\<lambda>t. t_id t \<notin> set consumed) ts) =
      map (\<lambda>(t, w). (t_node t, t_inbound t)) (filter (\<lambda>(t, w). t_id t \<notin> set consumed) (zip ts pre))"
    using len by (induction ts pre rule: list_induct2) auto
  also have "\<dots> = map (\<lambda>(t, w). (t_node t, t_inbound t)) (filter (\<lambda>(t, w). w_state w \<noteq> Consumed) (zip ts pre))"
    using mem by (intro arg_cong [of _ _ "map _"] filter_cong) auto
  also have "\<dots> = live_of pre"
    using assms(1) unfolding live_of_def
    by (induction rule: list_all2_induct) (auto simp: final_of_def tracks_def)
  finally show ?thesis .
qed

text \<open>
  The shape of every successful settlement: the final working list is the given tokens, each
  waiting or consumed, followed by the tokens spawned on the way.
\<close>

lemma settle_work_shape:
  assumes "settle_work r work = Inr res" "list_all2 fresh_work ts pre0" "work_evolves (r_graph r) pre0 work"
  obtains pre suf where "list_all2 final_of ts pre" "list_all (on_edge (r_graph r)) suf"
    "\<forall>w\<in>set suf. w_state w \<noteq> Active" "\<exists>n made. run_loop r n work [] = Inr (pre @ suf, made)"
    "er_consumed res = map (\<lambda>(t, w). t_id t) (filter (\<lambda>(t, w). w_state w = Consumed) (zip ts pre))"
    "er_parked res = map (\<lambda>(t, w). t_id t)
      (filter (\<lambda>(t, w). w_state w = Waiting \<and> t_state t = ''active'') (zip ts pre))"
    "er_spawned res = live_of suf"
    "er_completed res \<longleftrightarrow> (\<forall>w\<in>set (pre @ suf). w_state w = Consumed)"
proof -
  obtain work' made where loop: "run_loop r (loop_budget (r_graph r) work) work [] = Inr (work', made)"
    and res: "engine_result_of work' made = Inr res"
    using assms(1) by (auto simp: settle_work_def bind_res_Inr)
  have quiet: "\<forall>w\<in>set work'. w_state w \<noteq> Active"
    using loop by (rule run_loop_quiescent)
  have "work_evolves (r_graph r) pre0 work'"
    using assms(3) run_loop_evolves [OF loop] by (rule work_evolves_trans)
  then obtain pre suf where w': "work' = pre @ suf" "list_all2 tok_evolves pre0 pre"
    "list_all (on_edge (r_graph r)) suf"
    unfolding work_evolves_def by blast
  have fin: "list_all2 final_of ts pre"
    using assms(2) w'(2) quiet by (auto intro: fresh_final_list simp: w'(1))
  have nex: "\<forall>w\<in>set suf. \<not> w_existing w"
    using w'(3) by (auto simp: on_edge_def list_all_iff)
  have "filter (\<lambda>w. \<not> w_existing w \<and> w_state w = Waiting) suf = filter (\<lambda>w. w_state w \<noteq> Consumed) suf"
    using quiet nex by (intro filter_cong) (auto simp: w'(1) intro: token_state.exhaust)
  moreover have "\<not> (\<exists>w\<in>set work'. w_state w \<in> {Active, Waiting}) \<longleftrightarrow> (\<forall>w\<in>set (pre @ suf). w_state w = Consumed)"
    by (simp only: w'(1) live_state_iff) blast
  ultimately show thesis
    using res w'(1) quiet fin loop
    by (intro that [OF fin w'(3)])
      (auto simp: engine_result_of_def final_consumed final_parked final_no_spawn live_of_def
        on_edge_not_existing [OF w'(3)] split: if_splits)
qed

lemma advance_unfold:
  assumes "advance g ts ctx decs = Inr res"
  obtains r work where "r_graph r = g" "settle_work r work = Inr res" "list_all2 fresh_work ts work"
    "r = \<lparr>r_graph = g, r_context = ctx, r_decisions = decs\<rparr>" "mk_work ts = Inr work"
  using assms mk_work_fresh by (auto simp: advance_def mk_run_def bind_res_Inr split: if_splits)

lemma live_after_work:
  assumes "list_all2 final_of ts pre" "distinct (map t_id ts)" "er_spawned res = live_of suf"
    "er_consumed res = map (\<lambda>(t, w). t_id t) (filter (\<lambda>(t, w). w_state w = Consumed) (zip ts pre))"
  shows "live_after ts res = live_of (pre @ suf)"
  unfolding live_after_def using final_kept [OF assms(1,2,4)] assms(3) by (simp add: live_of_def)

definition no_change :: "bool \<Rightarrow> engine_result" where
  "no_change done = \<lparr>er_consumed = [], er_parked = [], er_spawned = [], er_decisions = [], er_completed = done\<rparr>"

lemma run_loop_quiet: "\<forall>w\<in>set work. \<not> is_active w \<Longrightarrow> run_loop r n work made = Inr (work, made)"
  by (cases n) (auto split: option.splits dest: index_of_Some)

lemma advance_waiting:
  assumes "wf_graph g" "\<forall>t\<in>set ts. t_state t = ''waiting''"
  shows "advance g ts ctx decs = Inr (no_change (ts = []))"
proof -
  obtain work where work: "mk_work ts = Inr work" "length work = length ts"
    "\<forall>w\<in>set work. w_existing w \<and> w_state w = Waiting \<and> \<not> w_was_active w"
    using mk_work_waiting [OF assms(2)] by blast
  then have "run_loop r n work [] = Inr (work, [])" for r n
    by (intro run_loop_quiet) (auto simp: is_active_def)
  moreover have "engine_result_of work [] = Inr (no_change (ts = []))"
    using work(2,3) by (cases work) (auto simp: engine_result_of_def no_change_def filter_empty_conv)
  ultimately show ?thesis
    using assms(1) work(1) by (simp add: advance_def mk_run_def settle_work_def wf_graph_def)
qed

section \<open>Joins\<close>

text \<open>
  A set of live positions leaves no join ready: at every AND join some incoming edge has no token, and
  no token rests at an XOR join.
\<close>

definition joins_settled :: "derived_graph \<Rightarrow> (string \<times> string option) set \<Rightarrow> bool" where
  "joins_settled g S = (\<forall>n\<in>set (g_nodes g).
     n_type n = ''connector'' \<and> n_connector_direction n = Some ''join'' \<longrightarrow>
       (n_connector_type n = Some ''and'' \<and> idx_inc g (n_key n) \<noteq> [] \<longrightarrow>
          (\<exists>e\<in>set (idx_inc g (n_key n)). (n_key n, Some (e_key e)) \<notin> S)) \<and>
       (n_connector_type n = Some ''xor'' \<longrightarrow> (\<forall>i. (n_key n, i) \<notin> S)))"

definition waits :: "work \<Rightarrow> (string \<times> string option) set" where
  "waits work = {(w_node w, w_inbound w) | w. w \<in> set work \<and> w_state w = Waiting}"

lemma joins_settled_mono: "joins_settled g S \<Longrightarrow> S' \<subseteq> S \<Longrightarrow> joins_settled g S'"
  unfolding joins_settled_def by blast

definition is_join :: "gnode \<Rightarrow> bool" where
  "is_join n = (n_type n = ''connector'' \<and> n_connector_direction n = Some ''join'')"

lemma joins_settled_insert:
  assumes "joins_settled g S" "distinct (node_keys g)" "node_at g k = Some node" "\<not> is_join node"
  shows "joins_settled g (insert (k, i) S)"
proof -
  have "n_key n \<noteq> k" if "n \<in> set (g_nodes g)" "is_join n" for n
    using that assms(2-4) node_at_iff [OF assms(2)] by (metis option.inject)
  then show ?thesis
    using assms(1) unfolding joins_settled_def is_join_def by blast
qed

lemma joins_settled_other:
  assumes "joins_settled g S" "distinct (node_keys g)" "node_at g k = Some node"
    and "S' \<subseteq> S \<union> {k} \<times> UNIV"
    and "n_connector_type node = Some ''and'' \<Longrightarrow> idx_inc g k \<noteq> [] \<Longrightarrow>
      \<exists>e\<in>set (idx_inc g k). (k, Some (e_key e)) \<notin> S'"
    and "n_connector_type node = Some ''xor'' \<Longrightarrow> \<forall>i. (k, i) \<notin> S'"
  shows "joins_settled g S'"
  unfolding joins_settled_def
proof (intro ballI impI)
  fix n assume n: "n \<in> set (g_nodes g)" "n_type n = ''connector'' \<and> n_connector_direction n = Some ''join''"
  show "(n_connector_type n = Some ''and'' \<and> idx_inc g (n_key n) \<noteq> [] \<longrightarrow>
          (\<exists>e\<in>set (idx_inc g (n_key n)). (n_key n, Some (e_key e)) \<notin> S')) \<and>
       (n_connector_type n = Some ''xor'' \<longrightarrow> (\<forall>i. (n_key n, i) \<notin> S'))"
  proof (cases "n_key n = k")
    case True
    with n(1) assms(3) have "n = node" using node_at_iff [OF assms(2)] by (metis option.inject)
    with True assms(5,6) show ?thesis by blast
  next
    case False
    then have "(n_key n, i) \<in> S' \<Longrightarrow> (n_key n, i) \<in> S" for i
      using assms(4) by blast
    moreover note assms(1) [unfolded joins_settled_def, rule_format, OF n]
    ultimately show ?thesis by blast
  qed
qed

lemma waits_append_spawn [simp]: "waits (work @ spawn_on es) = waits work"
  by (auto simp: waits_def spawn_on_def)

lemma set_set_state:
  assumes "i < length work"
  shows "set (set_state i s work) \<subseteq> insert ((work ! i)\<lparr>w_state := s\<rparr>) (set work)"
  unfolding set_state_def by (rule set_update_subset_insert)

lemma waits_consume: "i < length work \<Longrightarrow> waits (set_state i Consumed work) \<subseteq> waits work"
  by (auto simp: waits_def dest!: subsetD [OF set_set_state])

lemma waits_park:
  assumes "i < length work"
  shows "waits (set_state i Waiting work) \<subseteq> insert (w_node (work ! i), w_inbound (work ! i)) (waits work)"
proof
  fix p assume "p \<in> waits (set_state i Waiting work)"
  then obtain w where p: "p = (w_node w, w_inbound w)" "w_state w = Waiting" and "w \<in> set (set_state i Waiting work)"
    by (auto simp: waits_def)
  then have "w = (work ! i)\<lparr>w_state := Waiting\<rparr> \<or> w \<in> set work"
    using set_set_state [OF assms, of Waiting] by blast
  then show "p \<in> insert (w_node (work ! i), w_inbound (work ! i)) (waits work)"
  proof
    assume "w \<in> set work"
    with p have "p \<in> waits work" unfolding waits_def by blast
    then show ?thesis by simp
  qed (simp add: p(1))
qed

lemma waits_Cons [simp]:
  "waits [] = {}"
  "waits (w # ws) = (if w_state w = Waiting then {(w_node w, w_inbound w)} else {}) \<union> waits ws"
  by (auto simp: waits_def)

lemma waits_fire_join: "waits (fire_join r k work) = waits work - {k} \<times> UNIV"
proof -
  have "waits (map (\<lambda>w. if live_at k w then w\<lparr>w_state := Consumed\<rparr> else w) work) = waits work - {k} \<times> UNIV"
    by (induction work) (auto simp: live_at_def)
  then show ?thesis by (simp add: fire_join_def)
qed

lemma parked_live:
  "i < length work \<Longrightarrow> filter (live_at (w_node (work ! i))) (set_state i Waiting work) \<noteq> []"
  by (auto simp: filter_empty_conv set_state_def live_at_def intro!: bexI [of _ "(work ! i)\<lparr>w_state := Waiting\<rparr>"]
      set_update_memI)

lemma join_step_settled:
  assumes "joins_settled (r_graph r) (waits work)" "distinct (node_keys (r_graph r))"
    and node: "node_at (r_graph r) (w_node (work ! i)) = Some node" and i: "i < length work"
    and join: "n_connector_direction node = Some ''join''"
    and step: "connector_step r work i node = Inr (work', ds)"
  shows "joins_settled (r_graph r) (waits work')"
proof -
  let ?k = "w_node (work ! i)" and ?p = "set_state i Waiting work"
  have key: "n_key node = ?k"
    using node node_at_iff [OF assms(2)] by blast
  have sub: "waits ?p \<subseteq> waits work \<union> {?k} \<times> UNIV"
    using waits_park [OF i] by blast
  have w': "work' = ?p \<or> work' = fire_join r ?k ?p"
    using step join by (auto simp: connector_step_def key Let_def maybe_fire_and_join_def
        fire_choice_join_def maybe_fire_or_join_def split: if_splits)
  then have sub': "waits work' \<subseteq> waits work \<union> {?k} \<times> UNIV"
    using sub by (auto simp: waits_fire_join)
  have live: "(?k, j) \<in> waits ?p \<Longrightarrow> j \<in> w_inbound ` set (filter (live_at ?k) ?p)" for j
    by (auto simp: waits_def live_at_def)
  show ?thesis
  proof (rule joins_settled_other [OF assms(1,2) node sub'])
    assume t: "n_connector_type node = Some ''and''" and inc: "idx_inc (r_graph r) ?k \<noteq> []"
    show "\<exists>e\<in>set (idx_inc (r_graph r) ?k). (?k, Some (e_key e)) \<notin> waits work'"
    proof (cases "work' = fire_join r ?k ?p")
      case True
      with inc show ?thesis by (auto simp: waits_fire_join ex_in_conv)
    next
      case False
      with step join t have
        "\<not> Some ` e_key ` set (idx_inc (r_graph r) ?k) \<subseteq> w_inbound ` set (filter (live_at ?k) ?p)"
        using inc by (auto simp: connector_step_def key Let_def maybe_fire_and_join_def split: if_splits)
      with live False w' show ?thesis by blast
    qed
  next
    assume "n_connector_type node = Some ''xor''"
    then have "work' = fire_join r ?k ?p"
      using step join parked_live [OF i]
      by (auto simp: connector_step_def key Let_def fire_choice_join_def)
    then show "\<forall>j. (?k, j) \<notin> waits work'"
      by (simp add: waits_fire_join)
  qed
qed

lemma process_token_joins:
  assumes settled: "joins_settled (r_graph r) (waits work)" and dist: "distinct (node_keys (r_graph r))"
    and i: "i < length work" and step: "process_token r work i = Inr (work', ds)"
  shows "joins_settled (r_graph r) (waits work')"
proof -
  let ?k = "w_node (work ! i)"
  obtain node where node: "node_at (r_graph r) ?k = Some node"
    using step by (auto simp: process_token_def split: option.splits)
  have consume: "joins_settled (r_graph r) (waits (set_state i Consumed work @ spawn_on es))" for es
    using joins_settled_mono [OF settled waits_consume [OF i]] by simp
  have park: "joins_settled (r_graph r) (waits (set_state i Waiting work))" if "\<not> is_join node"
    using joins_settled_mono [OF joins_settled_insert [OF settled dist node that] waits_park [OF i]] .
  show ?thesis
  proof (cases "n_type node = ''connector'' \<and> n_connector_direction node = Some ''join''")
    case True
    with step node have "connector_step r work i node = Inr (work', ds)"
      by (auto simp: process_token_def)
    then show ?thesis
      using join_step_settled [OF settled dist node i] True by blast
  next
    case False
    then have "\<not> is_join node" by (simp add: is_join_def)
    then show ?thesis
      using step node False consume park
      by (auto simp: process_token_def connector_step_def choice_split_def Let_def bind_res_Inr
          split: if_splits option.splits)
  qed
qed

lemma run_loop_joins:
  assumes "run_loop r n work made = Inr (work', made')" "joins_settled (r_graph r) (waits work)"
    "distinct (node_keys (r_graph r))"
  shows "joins_settled (r_graph r) (waits work')"
  using assms(1,2)
  by (rule run_loop_invariant [where P = "\<lambda>u m. joins_settled (r_graph r) (waits u)"])
    (use assms(3) process_token_joins index_of_Some in blast)

lemma live_of_waits: "\<forall>w\<in>set work. w_state w \<noteq> Active \<Longrightarrow> set (live_of work) = waits work"
  unfolding live_of_def waits_def
  by (auto simp: image_iff) (metis token_state.exhaust)

section \<open>The measure of a run\<close>

text \<open>
  A weight per node certifies that a run settles: a node that passes tokens on weighs more than
  everything behind its outgoing edges together. A function parks its token, so any positive weight does.
\<close>

definition weight_ok :: "derived_graph \<Rightarrow> (string \<Rightarrow> nat) \<Rightarrow> bool" where
  "weight_ok g wt = (\<forall>n\<in>set (g_nodes g). 0 < wt (n_key n) \<and>
     (n_type n \<noteq> ''function'' \<longrightarrow> (\<Sum>e\<leftarrow>idx_out g (n_key n). wt (e_to e)) < wt (n_key n)))"

definition active_weight :: "(string \<Rightarrow> nat) \<Rightarrow> work \<Rightarrow> nat" where
  "active_weight wt work = (\<Sum>w\<leftarrow>work. if w_state w = Active then wt (w_node w) else 0)"

lemma active_weight_append: "active_weight wt (a @ b) = active_weight wt a + active_weight wt b"
  by (simp add: active_weight_def)

lemma active_weight_spawn: "active_weight wt (spawn_on es) = (\<Sum>e\<leftarrow>es. wt (e_to e))"
  by (simp add: active_weight_def spawn_on_def comp_def)

lemma active_weight_mem: "w \<in> set work \<Longrightarrow> w_state w = Active \<Longrightarrow> wt (w_node w) \<le> active_weight wt work"
  by (induction work) (auto simp: active_weight_def)

lemma active_weight_set:
  assumes "i < length work" "w_state (work ! i) = Active" "s \<noteq> Active"
  shows "active_weight wt (set_state i s work) + wt (w_node (work ! i)) = active_weight wt work"
proof -
  have "work = take i work @ work ! i # drop (Suc i) work"
    using assms(1) by (simp add: id_take_nth_drop)
  moreover have "set_state i s work = take i work @ (work ! i)\<lparr>w_state := s\<rparr> # drop (Suc i) work"
    using assms(1) by (simp add: set_state_def upd_conv_take_nth_drop)
  ultimately have
    "active_weight wt work = active_weight wt (take i work @ work ! i # drop (Suc i) work)"
    "active_weight wt (set_state i s work) = active_weight wt (take i work @ (work ! i)\<lparr>w_state := s\<rparr> # drop (Suc i) work)"
    by simp_all
  then show ?thesis
    using assms(2,3) by (simp add: active_weight_def)
qed

lemma active_weight_fire:
  "active_weight wt (fire_join r k work) \<le> active_weight wt work + (\<Sum>e\<leftarrow>idx_out (r_graph r) k. wt (e_to e))"
proof -
  have "active_weight wt (map (\<lambda>w. if live_at k w then w\<lparr>w_state := Consumed\<rparr> else w) work) \<le> active_weight wt work"
    by (induction work) (auto simp: active_weight_def)
  then show ?thesis
    by (simp add: fire_join_def active_weight_append active_weight_spawn)
qed

lemma sum_list_filter_le: "(\<Sum>x\<leftarrow>filter P xs. f x) \<le> (\<Sum>x\<leftarrow>xs. f x :: nat)"
  by (induction xs) auto

lemma all_guarded_weight:
  "all_guarded ctx es = Inr cs \<Longrightarrow> (\<Sum>e\<leftarrow>cs. f e) \<le> (\<Sum>e\<leftarrow>es. f e :: nat)"
proof (induction es arbitrary: cs)
  case (Cons e es)
  then obtain rest where "all_guarded ctx es = Inr rest" "cs = e # rest \<or> cs = rest"
    by (auto simp: bind_res_Inr split: if_splits)
  with Cons.IH show ?case by fastforce
qed simp

lemma auto_branches_weight:
  assumes "auto_branches ctx es x = Inr (Some cs)"
  shows "(\<Sum>e\<leftarrow>cs. f e) \<le> (\<Sum>e\<leftarrow>es. f e :: nat)"
proof (cases x)
  case True
  with auto_branches_sub [OF assms] obtain e where "cs = [e]" "e \<in> set es"
    by (auto simp: length_Suc_conv)
  then show ?thesis by (simp add: member_le_sum_list)
next
  case False
  then show ?thesis
    using assms by (auto simp: auto_branches_def bind_res_Inr intro: all_guarded_weight split: if_splits)
qed

lemma process_token_weight:
  assumes wt: "weight_ok (r_graph r) wt" and dist: "distinct (node_keys (r_graph r))"
    and i: "i < length work" "w_state (work ! i) = Active"
    and step: "process_token r work i = Inr (work', ds)"
  shows "active_weight wt work' < active_weight wt work"
proof -
  let ?k = "w_node (work ! i)" and ?out = "\<lambda>k. \<Sum>e\<leftarrow>idx_out (r_graph r) k. wt (e_to e)"
  obtain node where node: "node_at (r_graph r) ?k = Some node"
    using step by (auto simp: process_token_def split: option.splits)
  then have mem: "node \<in> set (g_nodes (r_graph r))" "n_key node = ?k"
    using node_at_iff [OF dist] by blast+
  then have w: "0 < wt ?k" "n_type node \<noteq> ''function'' \<Longrightarrow> ?out ?k < wt ?k"
    using wt unfolding weight_ok_def by auto
  have set_w: "active_weight wt (set_state i s work) + wt ?k = active_weight wt work" if "s \<noteq> Active" for s
    using active_weight_set [OF i that] .
  have park: "active_weight wt (set_state i Waiting work) < active_weight wt work"
    using set_w [of Waiting] w(1) by simp
  have pass: "active_weight wt (set_state i Consumed work @ spawn_on es) < active_weight wt work"
    if "(\<Sum>e\<leftarrow>es. wt (e_to e)) \<le> ?out ?k" "n_type node \<noteq> ''function''" for es
    using set_w [of Consumed] w(2) that by (simp add: active_weight_append active_weight_spawn)
  have fire: "active_weight wt (fire_join r ?k (set_state i Waiting work)) < active_weight wt work"
    if "n_type node \<noteq> ''function''"
    using active_weight_fire [of wt r ?k "set_state i Waiting work"] set_w [of Waiting] w(2) that by simp
  have filt: "(\<Sum>e\<leftarrow>filter P (idx_out (r_graph r) ?k). wt (e_to e)) \<le> ?out ?k" for P
    by (rule sum_list_filter_le)
  have "n_type node \<noteq> ''function'' \<Longrightarrow> connector_step r work i node = Inr (work', ds) \<Longrightarrow> ?thesis"
    using park pass fire filt auto_branches_weight [where f = "\<lambda>e. wt (e_to e)"]
    by (auto simp: connector_step_def choice_split_def maybe_fire_and_join_def fire_choice_join_def
        maybe_fire_or_join_def Let_def bind_res_Inr mem(2) split: if_splits option.splits)
  then show ?thesis
    using step node park pass by (auto simp: process_token_def mem(2) split: if_splits)
qed

lemma process_token_no_budget: "process_token r work i \<noteq> Inl NotSettled"
proof -
  have g: "guard_true c ctx \<noteq> Inl NotSettled" for c ctx
    by (auto simp: guard_true_def split: sum.splits)
  have f: "first_guarded ctx es \<noteq> Inl NotSettled" for ctx es
    using g by (induction es) (auto simp: bind_res_Inl split: option.splits if_splits)
  have a: "all_guarded ctx es \<noteq> Inl NotSettled" for ctx es
    using g by (induction es) (auto simp: bind_res_Inl split: option.splits if_splits)
  have "auto_branches ctx es x \<noteq> Inl NotSettled" for ctx es x
    using f a by (auto simp: auto_branches_def bind_res_Inl split: option.splits list.splits if_splits)
  then show ?thesis
    by (auto simp: process_token_def connector_step_def choice_split_def Let_def bind_res_Inl
        split: option.splits if_splits)
qed

lemma run_loop_settles:
  assumes wt: "weight_ok (r_graph r) wt" and dist: "distinct (node_keys (r_graph r))"
  shows "active_weight wt work \<le> n \<Longrightarrow> \<forall>w\<in>set work. w_node w \<in> set (node_keys (r_graph r)) \<Longrightarrow>
    \<forall>e\<in>set (g_edges (r_graph r)). e_to e \<in> set (node_keys (r_graph r)) \<Longrightarrow>
    run_loop r n work made \<noteq> Inl NotSettled"
proof (induction n arbitrary: work made)
  case 0
  have "\<not> is_active w" if "w \<in> set work" for w
  proof
    assume "is_active w"
    moreover have "0 < wt (w_node w)"
      using that 0(2) wt by (auto simp: weight_ok_def node_keys_def)
    ultimately show False
      using 0(1) active_weight_mem [OF that, of wt] by (simp add: is_active_def)
  qed
  then show ?case by (auto split: option.splits dest: index_of_Some)
next
  case (Suc n)
  show ?case
  proof (cases "index_of is_active work")
    case (Some i)
    then have i: "i < length work" "w_state (work ! i) = Active"
      using index_of_Some [OF Some] by (simp_all add: is_active_def)
    have "run_loop r n work' (made @ ds) \<noteq> Inl NotSettled" if p: "process_token r work i = Inr (work', ds)" for work' ds
    proof (rule Suc.IH)
      show "active_weight wt work' \<le> n"
        using process_token_weight [OF wt dist i p] Suc.prems(1) by simp
      show "\<forall>w\<in>set work'. w_node w \<in> set (node_keys (r_graph r))"
      proof
        fix w assume "w \<in> set work'"
        then have "w_node w \<in> w_node ` set work \<union> e_to ` set (g_edges (r_graph r))"
          using work_evolves_nodes [OF process_token_evolves [OF p i]] by blast
        then show "w_node w \<in> set (node_keys (r_graph r))"
          using Suc.prems(2,3) by auto
      qed
    qed (rule Suc.prems(3))
    then show ?thesis
      using Some process_token_no_budget [of r work i]
      by (cases "process_token r work i") (auto split: prod.splits)
  qed (simp del: index_of_None)
qed

section \<open>Both entry points\<close>

lemma set_state_consume_evolves:
  "i < length work \<Longrightarrow> w_state (work ! i) \<noteq> Consumed \<Longrightarrow> list_all2 tok_evolves work (set_state i Consumed work)"
  by (auto simp: set_state_def list_all2_conv_all_nth nth_list_update intro: tok_evolves_upd)

definition engine_call ::
  "derived_graph \<Rightarrow> token list \<Rightarrow> string option \<Rightarrow> pydict \<Rightarrow> (string \<times> string list) list
    \<Rightarrow> (engine_error, engine_result) res" where
  "engine_call g ts step ctx decs =
     (case step of None \<Rightarrow> advance g ts ctx decs | Some k \<Rightarrow> resume_function g ts k ctx decs)"

lemma engine_call_unfold:
  assumes "engine_call g ts step ctx decs = Inr res"
  obtains r pre0 work where "r_graph r = g" "settle_work r work = Inr res" "list_all2 fresh_work ts pre0"
    "work_evolves (r_graph r) pre0 work" "waits work \<subseteq> waits pre0"
proof (cases step)
  case None
  with assms have "advance g ts ctx decs = Inr res" by (simp add: engine_call_def)
  then obtain r work where r: "r_graph r = g" "settle_work r work = Inr res" "list_all2 fresh_work ts work"
    by (rule advance_unfold)
  show thesis by (rule that [OF r]) simp_all
next
  case (Some k)
  define r where "r = \<lparr>r_graph = g, r_context = ctx, r_decisions = decs\<rparr>"
  obtain work i where r: "r_graph r = g" "mk_work ts = Inr work"
    "index_of (waiting_at k) work = Some i"
    "settle_work r (set_state i Consumed work @ spawn_on (idx_out g k)) = Inr res"
    using assms Some unfolding r_def
    by (auto simp: engine_call_def resume_function_def mk_run_def bind_res_Inr simp del: index_of_None
        split: if_splits option.splits)
  have i: "i < length work" "w_state (work ! i) = Waiting"
    using index_of_Some [OF r(3)] by (auto simp: waiting_at_def)
  show thesis
  proof (rule that [OF r(1,4) mk_work_fresh [OF r(2)]])
    show "work_evolves (r_graph r) work (set_state i Consumed work @ spawn_on (idx_out g k))"
      using i set_state_consume_evolves [of i work]
      by (intro work_evolves_spawn) (auto simp: r(1) idx_out_edges)
    show "waits (set_state i Consumed work @ spawn_on (idx_out g k)) \<subseteq> waits work"
      using waits_consume [OF i(1)] by simp
  qed
qed

lemma fresh_waits:
  "list_all2 fresh_work ts work \<Longrightarrow>
   waits work = {(t_node t, t_inbound t) | t. t \<in> set ts \<and> t_state t = ''waiting''}"
  by (induction rule: list_all2_induct) (auto simp: fresh_work_def tracks_def)

lemma engine_spawned_on_edges:
  assumes "engine_call g ts step ctx decs = Inr res"
  shows "set (er_spawned res) \<subseteq> {(e_to e, Some (e_key e)) | e. e \<in> set (g_edges g)}"
proof -
  obtain r pre0 work where r: "r_graph r = g" "settle_work r work = Inr res" "list_all2 fresh_work ts pre0"
    "work_evolves (r_graph r) pre0 work"
    using assms by (rule engine_call_unfold)
  obtain suf where "list_all (on_edge (r_graph r)) suf" "er_spawned res = live_of suf"
    using r(2-4) by (rule settle_work_shape)
  then show ?thesis
    using r(1) unfolding live_of_def by (auto simp: list_all_iff on_edge_def)
qed

lemma engine_accounting:
  assumes ok: "engine_call g ts step ctx decs = Inr res" and dist: "distinct (map t_id ts)"
  shows "set (er_consumed res) \<subseteq> t_id ` set ts
    \<and> set (er_parked res) = {t_id t | t. t \<in> set ts \<and> t_state t = ''active''} - set (er_consumed res)
    \<and> distinct (er_consumed res @ er_parked res)
    \<and> set (er_spawned res) \<subseteq> {(e_to e, Some (e_key e)) | e. e \<in> set (g_edges g)}
    \<and> (er_completed res \<longleftrightarrow> live_after ts res = [])"
proof -
  obtain r pre0 work where r: "r_graph r = g" "settle_work r work = Inr res" "list_all2 fresh_work ts pre0"
    "work_evolves (r_graph r) pre0 work"
    using ok by (rule engine_call_unfold)
  obtain pre suf where fin: "list_all2 final_of ts pre" and suf: "list_all (on_edge (r_graph r)) suf"
    and consumed: "er_consumed res = map (\<lambda>(t, w). t_id t) (filter (\<lambda>(t, w). w_state w = Consumed) (zip ts pre))"
    and parked: "er_parked res = map (\<lambda>(t, w). t_id t)
      (filter (\<lambda>(t, w). w_state w = Waiting \<and> t_state t = ''active'') (zip ts pre))"
    and spawned: "er_spawned res = live_of suf"
    and completed: "er_completed res \<longleftrightarrow> (\<forall>w\<in>set (pre @ suf). w_state w = Consumed)"
    using r(2-4) by (rule settle_work_shape)
  have zd: "distinct (map (\<lambda>(t, w). t_id t) (zip ts pre))"
    using dist list_all2_lengthD [OF fin] by (simp add: map_zip_fst)
  note same = zip_id_functional [OF dist]
  have disj: "set (er_consumed res) \<inter> set (er_parked res) = {}"
    unfolding consumed parked by (auto dest: same)
  have "distinct (er_consumed res)" "distinct (er_parked res)"
    using zd unfolding consumed parked by (simp_all add: distinct_map_filter)
  moreover have "set (er_parked res) = {t_id t | t. t \<in> set ts \<and> t_state t = ''active''} - set (er_consumed res)"
  proof -
    have pair: "\<exists>w. (t, w) \<in> set (zip ts pre) \<and> final_of t w" if t: "t \<in> set ts" for t
    proof -
      obtain w where "(t, w) \<in> set (zip ts pre)"
        using list_all2_lengthD [OF fin] t by (rule in_set_impl_in_set_zip1)
      moreover from this have "final_of t w" using fin by (auto simp: list_all2_iff)
      ultimately show ?thesis by blast
    qed
    have "set (er_parked res) \<subseteq> {t_id t | t. t \<in> set ts \<and> t_state t = ''active''}"
      unfolding parked by (auto dest: set_zip_leftD)
    moreover have "t_id t \<in> set (er_consumed res) \<union> set (er_parked res)"
      if "t \<in> set ts" "t_state t = ''active''" for t
      using pair [OF that(1)] that(2) unfolding consumed parked final_of_def by force
    ultimately show ?thesis using disj by blast
  qed
  moreover have "set (er_consumed res) \<subseteq> t_id ` set ts"
    unfolding consumed by (auto dest: set_zip_leftD)
  moreover have "set (er_spawned res) \<subseteq> {(e_to e, Some (e_key e)) | e. e \<in> set (g_edges g)}"
    using ok by (rule engine_spawned_on_edges)
  moreover have "er_completed res \<longleftrightarrow> live_after ts res = []"
    unfolding live_after_work [OF fin dist spawned consumed] completed
    by (auto simp: live_of_def filter_empty_conv)
  ultimately show ?thesis using disj by simp
qed

section \<open>A fork and a join, for the witnesses\<close>

definition mk_gnode :: "string \<Rightarrow> string \<Rightarrow> string option \<Rightarrow> string option \<Rightarrow> gnode" where
  "mk_gnode k t c d = \<lparr>n_key = k, n_type = t, n_label = None,
     n_function_kind = (if t = ''function'' then Some ''manual'' else None),
     n_connector_type = c, n_connector_direction = d, n_props = []\<rparr>"

definition mk_gedge :: "string \<Rightarrow> string \<Rightarrow> string \<Rightarrow> pydict option \<Rightarrow> gedge" where
  "mk_gedge k a b c = \<lparr>e_key = k, e_from = a, e_to = b, e_branch = Some k, e_condition = c\<rparr>"

definition fork_graph :: derived_graph where
  "fork_graph = \<lparr>g_start = ''s'',
     g_nodes = [mk_gnode ''e'' ''event'' None None, mk_gnode ''f1'' ''function'' None None,
       mk_gnode ''f2'' ''function'' None None, mk_gnode ''j'' ''connector'' (Some ''and'') (Some ''join''),
       mk_gnode ''p'' ''connector'' (Some ''and'') (Some ''split''), mk_gnode ''s'' ''event'' None None],
     g_edges = [mk_gedge ''e1'' ''s'' ''p'' None, mk_gedge ''e2'' ''p'' ''f1'' None, mk_gedge ''e3'' ''p'' ''f2'' None,
       mk_gedge ''e4'' ''f1'' ''j'' None, mk_gedge ''e5'' ''f2'' ''j'' None, mk_gedge ''e6'' ''j'' ''e'' None]\<rparr>"

definition start_token :: token where
  "start_token = \<lparr>t_id = 1, t_node = ''s'', t_state = ''active'', t_inbound = None\<rparr>"

definition forked_tokens :: "token list" where
  "forked_tokens =
     [\<lparr>t_id = 2, t_node = ''j'', t_state = ''waiting'', t_inbound = Some ''e4''\<rparr>,
      \<lparr>t_id = 3, t_node = ''f2'', t_state = ''waiting'', t_inbound = Some ''e3''\<rparr>]"

definition forked_result :: engine_result where
  "forked_result = \<lparr>er_consumed = [1], er_parked = [], er_spawned = [(''f1'', Some ''e2''), (''f2'', Some ''e3'')],
     er_decisions = [], er_completed = False\<rparr>"

definition joined_result :: engine_result where
  "joined_result = \<lparr>er_consumed = [2, 3], er_parked = [], er_spawned = [], er_decisions = [], er_completed = True\<rparr>"

section \<open>Properties\<close>

text \<open>
  C1. Token accounting. Whatever a call of the engine (\<^verbatim>\<open>advance\<close>, or \<^verbatim>\<open>resume_function\<close> for a step)
  returns, it consumes only tokens it was given, parks only tokens that were active and that it did not
  consume, names no token twice, leaves no given active token unhandled, spawns tokens only on edges of
  the graph, and reports completion exactly if no token is live afterwards.
\<close>

theorem engine_token_accounting:
  assumes ok: "engine_call g ts step ctx decs = Inr res" and dist: "distinct (map t_id ts)"
  shows "set (er_consumed res) \<subseteq> t_id ` set ts
    \<and> set (er_parked res) = {t_id t | t. t \<in> set ts \<and> t_state t = ''active''} - set (er_consumed res)
    \<and> distinct (er_consumed res @ er_parked res)
    \<and> set (er_spawned res) \<subseteq> {(e_to e, Some (e_key e)) | e. e \<in> set (g_edges g)}
    \<and> (er_completed res \<longleftrightarrow> live_after ts res = [])"
  using engine_accounting [OF assms] .

theorem engine_token_accounting_witness:
  "engine_call fork_graph [start_token] None [] [] = Inr forked_result
   \<and> distinct (er_consumed forked_result @ er_parked forked_result) \<and> live_after [start_token] forked_result \<noteq> []"
proof -
  have 1: "engine_call fork_graph [start_token] None [] [] = Inr forked_result" by code_simp
  have 2: "distinct (map t_id [start_token])" by simp
  have 3: "\<not> er_completed forked_result" by code_simp
  show ?thesis using engine_token_accounting [OF 1 2] 1 3 by blast
qed

text \<open>
  C3. Joins never get lost: if no join of a valid graph is ready on the tokens an instance has, then no
  join is ready on the tokens it has after any call of the engine. No AND join is left with a token on each of its
  incoming edges, and no token is left at an XOR join.
\<close>

theorem engine_joins_invariant:
  assumes ok: "engine_call g ts step ctx decs = Inr res" and wf: "wf_graph g" and dist: "distinct (map t_id ts)"
    and before: "joins_settled g {(t_node t, t_inbound t) | t. t \<in> set ts \<and> t_state t = ''waiting''}"
  shows "joins_settled g (set (live_after ts res))"
proof -
  obtain r pre0 work where r: "r_graph r = g" "settle_work r work = Inr res" "list_all2 fresh_work ts pre0"
    "work_evolves (r_graph r) pre0 work" "waits work \<subseteq> waits pre0"
    using ok by (rule engine_call_unfold)
  obtain pre suf n made where fin: "list_all2 final_of ts pre"
    and loop: "run_loop r n work [] = Inr (pre @ suf, made)"
    and consumed: "er_consumed res = map (\<lambda>(t, w). t_id t) (filter (\<lambda>(t, w). w_state w = Consumed) (zip ts pre))"
    and spawned: "er_spawned res = live_of suf"
    using r(2-4) by (rule settle_work_shape) blast
  have "joins_settled g (waits work)"
    using before joins_settled_mono r(5) fresh_waits [OF r(3)] by metis
  then have "joins_settled g (waits (pre @ suf))"
    using run_loop_joins [OF loop] wf r(1) by (simp add: wf_graph_def)
  moreover have "set (live_of (pre @ suf)) = waits (pre @ suf)"
    using run_loop_quiescent [OF loop] by (rule live_of_waits)
  ultimately show ?thesis
    by (simp add: live_after_work [OF fin dist spawned consumed])
qed

theorem engine_joins_invariant_witness:
  "engine_call fork_graph forked_tokens (Some ''f2'') [] [] = Inr joined_result
   \<and> joins_settled fork_graph (set (live_after forked_tokens joined_result))"
proof -
  have 1: "engine_call fork_graph forked_tokens (Some ''f2'') [] [] = Inr joined_result" by code_simp
  have 2: "wf_graph fork_graph" by code_simp
  have 3: "distinct (map t_id forked_tokens)" by code_simp
  have pos: "{(t_node t, t_inbound t) | t. t \<in> set forked_tokens \<and> t_state t = ''waiting''}
      = {(''j'', Some ''e4''), (''f2'', Some ''e3'')}"
    by (force simp: forked_tokens_def)
  have inc: "idx_inc fork_graph ''j'' = [mk_gedge ''e4'' ''f1'' ''j'' None, mk_gedge ''e5'' ''f2'' ''j'' None]"
    by code_simp
  have nodes: "set (filter is_join (g_nodes fork_graph)) = {mk_gnode ''j'' ''connector'' (Some ''and'') (Some ''join'')}"
    by code_simp
  have 4: "joins_settled fork_graph
      {(t_node t, t_inbound t) | t. t \<in> set forked_tokens \<and> t_state t = ''waiting''}"
    unfolding pos joins_settled_def
  proof (intro ballI impI, goal_cases)
    case (1 n)
    then have "n \<in> set (filter is_join (g_nodes fork_graph))" by (simp add: is_join_def)
    then have n: "n_key n = ''j''" "n_connector_type n = Some ''and''" unfolding nodes by (simp_all add: mk_gnode_def)
    show ?case unfolding n inc by (simp add: mk_gedge_def)
  qed
  show ?thesis using engine_joins_invariant [OF 1 2 3 4] 1 by blast
qed

text \<open>
  C10. The engine settles: on a valid graph with a weight certificate whose weight of the active tokens is
  within the loop budget, \<^verbatim>\<open>advance\<close> never stops with \<^verbatim>\<open>NotSettled\<close>.
\<close>

theorem advance_settles:
  assumes "weight_ok g wt" "wf_graph g" "\<forall>t\<in>set ts. t_node t \<in> set (node_keys g)"
    and "(\<Sum>t\<leftarrow>ts. if t_state t = ''active'' then wt (t_node t) else 0)
      \<le> (length (g_nodes g) + length (g_edges g) + length ts) * (length (g_nodes g) + 1) + 100"
  shows "advance g ts ctx decs \<noteq> Inl NotSettled"
proof -
  have "mk_work us \<noteq> Inl NotSettled" for us
    by (induction us) (auto simp: bind_res_Inl mk_existing_def)
  moreover have "settle_work \<lparr>r_graph = g, r_context = ctx, r_decisions = decs\<rparr> work \<noteq> Inl NotSettled"
    if m: "mk_work ts = Inr work" for work
  proof -
    have fresh: "list_all2 fresh_work ts work" using m by (rule mk_work_fresh)
    then have len: "length work = length ts" by (simp add: list_all2_lengthD)
    have "active_weight wt work = (\<Sum>t\<leftarrow>ts. if t_state t = ''active'' then wt (t_node t) else 0)"
      using fresh by (induction rule: list_all2_induct) (auto simp: active_weight_def fresh_work_def tracks_def)
    moreover have "map w_node work = map t_node ts"
      using fresh by (induction rule: list_all2_induct) (auto simp: fresh_work_def tracks_def)
    then have "w_node ` set work = t_node ` set ts" by (metis set_map)
    then have "\<forall>w\<in>set work. w_node w \<in> set (node_keys g)" using assms(3) by (metis imageE imageI)
    ultimately have "run_loop \<lparr>r_graph = g, r_context = ctx, r_decisions = decs\<rparr> (loop_budget g work) work [] \<noteq> Inl NotSettled"
      using assms(1,2,4) by (intro run_loop_settles [where wt = wt]) (auto simp: wf_graph_def loop_budget_def len)
    then show ?thesis
      by (auto simp: settle_work_def engine_result_of_def bind_res_Inl split: if_splits)
  qed
  ultimately show ?thesis
    by (auto simp: advance_def mk_run_def bind_res_Inl)
qed

theorem advance_settles_witness: "advance fork_graph [start_token] [] [] \<noteq> Inl NotSettled"
proof -
  have 1: "weight_ok fork_graph (\<lambda>k. if k = ''s'' then 4 else if k = ''p'' then 3 else if k = ''j'' then 2 else 1)"
    by code_simp
  have 2: "wf_graph fork_graph" "\<forall>t\<in>set [start_token]. t_node t \<in> set (node_keys fork_graph)"
    by code_simp+
  show ?thesis by (rule advance_settles [OF 1 2]) code_simp
qed

text \<open>
  An automatic XOR split never takes a wrong branch: the edge it takes is an outgoing edge whose guard
  parses and evaluates to true and no earlier guarded edge's does, or it is the first edge
  without guard and no guard is true; it waits for a person exactly if no guard is true and
  every outgoing edge has one. A guard that does not parse or evaluate counts as not true.
\<close>

theorem xor_split_branch:
  assumes "auto_branches ctx outs True = Inr chosen"
  shows "case chosen of
      None \<Rightarrow> \<forall>e\<in>set outs. \<exists>c. e_condition e = Some c
        \<and> \<not> (\<exists>x. parse_tree (PDict c) = Inr x \<and> evaluate x ctx = Inr True)
    | Some es \<Rightarrow> \<exists>pre e post. outs = pre @ e # post \<and> es = [e]
        \<and> (case e_condition e of
             Some c \<Rightarrow> (\<exists>x. parse_tree (PDict c) = Inr x \<and> evaluate x ctx = Inr True)
               \<and> (\<forall>e'\<in>set pre. \<forall>c'. e_condition e' = Some c' \<longrightarrow>
                   \<not> (\<exists>x. parse_tree (PDict c') = Inr x \<and> evaluate x ctx = Inr True))
           | None \<Rightarrow> (\<forall>e'\<in>set pre. e_condition e' \<noteq> None)
               \<and> (\<forall>e'\<in>set outs. \<forall>c'. e_condition e' = Some c' \<longrightarrow>
                   \<not> (\<exists>x. parse_tree (PDict c') = Inr x \<and> evaluate x ctx = Inr True)))"
proof -
  let ?true = "\<lambda>c. \<exists>x. parse_tree (PDict c) = Inr x \<and> evaluate x ctx = Inr True"
  have guard: "guard_true c ctx = Inr b \<Longrightarrow> b \<longleftrightarrow> ?true c" for c b
    by (auto simp: guard_true_def bind_res_Inr bind_res_Inl split: sum.splits if_splits)
  have hit: "first_guarded ctx es = Inr (Some e) \<Longrightarrow> \<exists>pre post. es = pre @ e # post
      \<and> (\<exists>c. e_condition e = Some c \<and> ?true c) \<and> (\<forall>e'\<in>set pre. \<forall>c'. e_condition e' = Some c' \<longrightarrow> \<not> ?true c')" for es e
  proof (induction es)
    case (Cons a es)
    then consider c where "e = a" "e_condition a = Some c" "guard_true c ctx = Inr True"
      | "first_guarded ctx es = Inr (Some e)" "\<And>c. e_condition a = Some c \<Longrightarrow> guard_true c ctx = Inr False"
      by (auto simp: bind_res_Inr split: option.splits if_splits)
    then show ?case
    proof cases
      case 1
      then have "?true c" using guard [of c True] by blast
      with 1 have "a # es = [] @ e # es \<and> (\<exists>c. e_condition e = Some c \<and> ?true c)
          \<and> (\<forall>e'\<in>set []. \<forall>c'. e_condition e' = Some c' \<longrightarrow> \<not> ?true c')"
        by simp
      then show ?thesis by blast
    next
      case 2
      then obtain pre post where "es = pre @ e # post" "\<exists>c. e_condition e = Some c \<and> ?true c"
        "\<forall>e'\<in>set pre. \<forall>c'. e_condition e' = Some c' \<longrightarrow> \<not> ?true c'"
        using Cons.IH by blast
      moreover have "\<not> ?true c" if "e_condition a = Some c" for c
        using guard [OF 2(2) [OF that]] by blast
      ultimately have "a # es = (a # pre) @ e # post \<and> (\<exists>c. e_condition e = Some c \<and> ?true c)
          \<and> (\<forall>e'\<in>set (a # pre). \<forall>c'. e_condition e' = Some c' \<longrightarrow> \<not> ?true c')"
        by simp
      then show ?thesis by blast
    qed
  qed simp
  have miss: "first_guarded ctx es = Inr None \<Longrightarrow> \<forall>e\<in>set es. \<forall>c. e_condition e = Some c \<longrightarrow> \<not> ?true c" for es
    by (induction es) (auto simp: bind_res_Inr dest!: guard split: option.splits if_splits)
  show ?thesis
  proof (cases "first_guarded ctx outs")
    case (Inr h)
    then show ?thesis
    proof (cases h)
      case None
      note none = miss [of outs, unfolded Inr None, OF refl]
      show ?thesis
      proof (cases "filter (\<lambda>e. e_condition e = None) outs")
        case Nil
        then have "chosen = None" and "\<forall>e\<in>set outs. e_condition e \<noteq> None"
          using assms Inr None by (auto simp: auto_branches_def filter_empty_conv)
        then show ?thesis using none by fastforce
      next
        case (Cons d ds)
        then obtain pre post where "outs = pre @ d # post" "\<forall>e\<in>set pre. e_condition e \<noteq> None" "e_condition d = None"
          by (auto simp: filter_eq_Cons_iff)
        moreover have "chosen = Some [d]" using assms Inr None Cons by (simp add: auto_branches_def)
        ultimately show ?thesis using none by fastforce
      qed
    next
      case (Some e)
      then show ?thesis
        using assms Inr hit [of outs e] by (fastforce simp: auto_branches_def)
    qed
  qed (use assms in \<open>simp add: auto_branches_def\<close>)
qed

definition severe :: pydict where
  "severe = [(''op'', PStr ''gte''), (''args'', PList [PDict [(''field'', PStr ''severity'')], PInt 3])]"

theorem xor_split_branch_witness:
  "auto_branches [(''severity'', PInt 4)] [mk_gedge ''a'' ''x'' ''u'' None, mk_gedge ''b'' ''x'' ''v'' (Some severe)] True
     = Inr (Some [mk_gedge ''b'' ''x'' ''v'' (Some severe)])
   \<and> (\<exists>x. parse_tree (PDict severe) = Inr x \<and> evaluate x [(''severity'', PInt 4)] = Inr True)"
proof -
  have "auto_branches [(''severity'', PInt 4)] [mk_gedge ''a'' ''x'' ''u'' None, mk_gedge ''b'' ''x'' ''v'' (Some severe)] True
     = Inr (Some [mk_gedge ''b'' ''x'' ''v'' (Some severe)])" by code_simp
  from xor_split_branch [OF this] this show ?thesis
    by (auto simp: mk_gedge_def split: option.splits)
qed

end
