(* ===== verification/Workflow_Publish.thy ===== *)
theory Workflow_Publish
  imports Workflow_Engine
begin

text \<open>
  \<^verbatim>\<open>server/bbz_core/domain/workflow/publish.py\<close>: the semantic checks a graph passes before it may be
  published. The recursion of \<^verbatim>\<open>visit\<close> inside \<^verbatim>\<open>_has_cycle\<close> is the stack machine \<open>visit_stack\<close>, whose frames are
  the activations of \<^verbatim>\<open>visit\<close> with the edges their loops have left. The membership test on
  \<^verbatim>\<open>props\<close> and the capability set follow the code; messages are not modelled, codes and nodes are.
\<close>

section \<open>Issues\<close>

record validation_issue =
  i_code :: string
  i_node :: "string option"

definition issue :: "string \<Rightarrow> string \<Rightarrow> validation_issue" where
  "issue c k = \<lparr>i_code = c, i_node = Some k\<rparr>"

definition required_prop :: "string \<Rightarrow> string option" where
  "required_prop kind = map_of
     [(''integration_action'', ''capability''), (''notification'', ''channel''), (''timer'', ''duration_seconds'')] kind"

definition reachable_from_start :: "derived_graph \<Rightarrow> string set" where
  "reachable_from_start g = search g [g_start g] {}"

section \<open>The cycle search\<close>

datatype colour = Visiting | Done

function visit_stack ::
  "derived_graph \<Rightarrow> (string \<times> gedge list) list \<Rightarrow> (string \<Rightarrow> colour option) \<Rightarrow> bool" where
  "visit_stack g [] col = False"
| "visit_stack g ((k, []) # st) col = visit_stack g st (col(k \<mapsto> Done))"
| "visit_stack g ((k, e # es) # st) col =
     (case col (e_to e) of
        Some Visiting \<Rightarrow> True
      | Some Done \<Rightarrow> visit_stack g ((k, es) # st) col
      | None \<Rightarrow> visit_stack g ((e_to e, out_edges g (e_to e)) # (k, es) # st) (col(e_to e \<mapsto> Visiting)))"
  by pat_completeness auto

definition visit_universe :: "derived_graph \<Rightarrow> (string \<times> gedge list) list \<Rightarrow> string set" where
  "visit_universe g st = targets g \<union> fst ` set st \<union> e_to ` (\<Union>f\<in>set st. set (snd f))"

lemma finite_visit_universe [simp]: "finite (visit_universe g st)"
  by (simp add: visit_universe_def)

termination visit_stack
proof (relation "measures [\<lambda>(g, st, col). card (visit_universe g st - dom col),
    \<lambda>(g, st, col). length st + (\<Sum>f\<leftarrow>st. length (snd f))]", goal_cases)
  case (2 g k st col)
  have "card (visit_universe g st - dom (col(k \<mapsto> Done))) \<le> card (visit_universe g ((k, []) # st) - dom col)"
    by (intro card_mono) (auto simp: visit_universe_def)
  then show ?case by auto
next
  case (3 g k e es st col)
  have "visit_universe g ((e_to e, out_edges g (e_to e)) # (k, es) # st) \<subseteq> visit_universe g ((k, e # es) # st)"
    by (auto simp: visit_universe_def targets_def out_edges_def)
  moreover have "e_to e \<in> visit_universe g ((k, e # es) # st) - dom col"
    using 3 by (auto simp: visit_universe_def)
  moreover have "dom (col(e_to e \<mapsto> Visiting)) = insert (e_to e) (dom col)" by simp
  ultimately have "visit_universe g ((e_to e, out_edges g (e_to e)) # (k, es) # st) - dom (col(e_to e \<mapsto> Visiting))
      \<subset> visit_universe g ((k, e # es) # st) - dom col"
    by blast
  then have "card (visit_universe g ((e_to e, out_edges g (e_to e)) # (k, es) # st) - dom (col(e_to e \<mapsto> Visiting)))
      < card (visit_universe g ((k, e # es) # st) - dom col)"
    by (intro psubset_card_mono) auto
  then show ?case by simp
next
  case (4 g k e es st col)
  have "card (visit_universe g ((k, es) # st) - dom col) \<le> card (visit_universe g ((k, e # es) # st) - dom col)"
    by (intro card_mono) (auto simp: visit_universe_def)
  then show ?case by auto
qed simp

definition has_cycle :: "derived_graph \<Rightarrow> bool" where
  "has_cycle g = visit_stack g [(g_start g, out_edges g (g_start g))] [g_start g \<mapsto> Visiting]"

section \<open>The checks, in the order of the code\<close>

definition start_issues :: "derived_graph \<Rightarrow> gnode \<Rightarrow> validation_issue list" where
  "start_issues g start =
     (if n_type start \<noteq> ''event'' then [issue ''start_not_event'' (n_key start)] else [])
     @ (if in_edges g (n_key start) \<noteq> [] then [issue ''start_has_predecessor'' (n_key start)] else [])"

definition reach_issues :: "derived_graph \<Rightarrow> validation_issue list" where
  "reach_issues g =
     (let reach = reachable_from_start g;
          ends = filter (\<lambda>n. out_edges g (n_key n) = []) (g_nodes g)
      in map (\<lambda>n. issue ''orphan'' (n_key n)) (filter (\<lambda>n. n_key n \<notin> reach) (g_nodes g))
         @ (if \<exists>n\<in>set ends. n_key n \<in> reach then [] else [\<lparr>i_code = ''no_end'', i_node = None\<rparr>]))"

definition cardinality_issues :: "derived_graph \<Rightarrow> gnode \<Rightarrow> validation_issue list" where
  "cardinality_issues g n =
     (let o_n = length (out_edges g (n_key n)); i_n = length (in_edges g (n_key n)) in
      if n_type n = ''connector'' then
        (if n_connector_direction n = Some ''split'' \<and> \<not> (i_n = 1 \<and> 2 \<le> o_n)
         then [issue ''split_cardinality'' (n_key n)] else [])
        @ (if n_connector_direction n = Some ''join'' \<and> \<not> (2 \<le> i_n \<and> o_n = 1)
           then [issue ''join_cardinality'' (n_key n)] else [])
      else if 1 < o_n then [issue ''branch_without_connector'' (n_key n)] else [])"

definition split_issues :: "derived_graph \<Rightarrow> gnode \<Rightarrow> validation_issue list" where
  "split_issues g n =
     (if n_type n \<noteq> ''connector'' \<or> n_connector_direction n \<noteq> Some ''split'' then []
      else (let branches = out_edges g (n_key n) in
        (if n_connector_type n = Some ''xor'' \<and> 1 < length (filter (\<lambda>e. e_condition e = None) branches)
         then [issue ''xor_unresolvable'' (n_key n)] else [])
        @ (if n_connector_type n = Some ''or'' \<and> (\<exists>e\<in>set branches. e_branch e = None)
           then [issue ''or_untrackable'' (n_key n)] else [])))"

definition function_issues :: "(pyval \<Rightarrow> bool) option \<Rightarrow> gnode \<Rightarrow> validation_issue list" where
  "function_issues caps n =
     (if n_type n \<noteq> ''function'' then []
      else (case required_prop (case n_function_kind n of None \<Rightarrow> '''' | Some k \<Rightarrow> k) of
              Some need \<Rightarrow> if has_key (n_props n) need then [] else [issue ''missing_prop'' (n_key n)]
            | None \<Rightarrow> [])
        @ (case caps of
             Some known \<Rightarrow>
               if n_function_kind n = Some ''integration_action'' \<and> \<not> known (dict_get (n_props n) ''capability'')
               then [issue ''unknown_capability'' (n_key n)] else []
           | None \<Rightarrow> []))"

definition loop_issues :: "derived_graph \<Rightarrow> validation_issue list" where
  "loop_issues g =
     (if has_cycle g \<and> \<not> (\<exists>n\<in>set (g_nodes g). n_type n = ''connector'' \<and> has_key (n_props n) ''reentry'')
      then [\<lparr>i_code = ''unbounded_loop'', i_node = None\<rparr>] else [])"

definition graph_issues :: "(pyval \<Rightarrow> bool) option \<Rightarrow> derived_graph \<Rightarrow> validation_issue list" where
  "graph_issues caps g =
     (case node_at g (g_start g) of None \<Rightarrow> [] | Some start \<Rightarrow> start_issues g start)
     @ reach_issues g
     @ concat (map (cardinality_issues g) (g_nodes g))
     @ concat (map (split_issues g) (g_nodes g))
     @ concat (map (function_issues caps) (g_nodes g))
     @ loop_issues g"

definition validate_publishable ::
  "(graph_def \<Rightarrow> string list) \<Rightarrow> (pyval \<Rightarrow> bool) option \<Rightarrow> graph_def \<Rightarrow> validation_issue list" where
  "validate_publishable iter_errors caps d =
     (case derive_index iter_errors d of
        Inl _ \<Rightarrow> [\<lparr>i_code = ''structure'', i_node = None\<rparr>]
      | Inr g \<Rightarrow> graph_issues caps g)"

section \<open>The cycle search is exact\<close>

fun chained :: "derived_graph \<Rightarrow> (string \<times> gedge list) list \<Rightarrow> bool" where
  "chained g ((k, es) # (k', es') # st) \<longleftrightarrow> (k', k) \<in> edge_rel g \<and> chained g ((k', es') # st)"
| "chained g _ \<longleftrightarrow> True"

definition done_set :: "(string \<Rightarrow> colour option) \<Rightarrow> string set" where
  "done_set col = {k. col k = Some Done}"

text \<open>The successors of an open activation are finished, left to its loop, or its child on the stack.\<close>

fun frames_ok :: "derived_graph \<Rightarrow> string set \<Rightarrow> string set \<Rightarrow> (string \<times> gedge list) list \<Rightarrow> bool" where
  "frames_ok g D up [] \<longleftrightarrow> True"
| "frames_ok g D up ((k, es) # st) \<longleftrightarrow>
     edge_rel g `` {k} \<subseteq> D \<union> e_to ` set es \<union> up \<and> set es \<subseteq> set (out_edges g k) \<and> frames_ok g D {k} st"

definition opened :: "(string \<times> gedge list) list \<Rightarrow> string set" where
  "opened st = fst ` set st"

definition fresh_frames :: "(string \<times> gedge list) list \<Rightarrow> bool" where
  "fresh_frames st = distinct (map fst st)"

lemma opened_simps [simp]: "opened [] = {}" "opened ((k, es) # st) = insert k (opened st)"
  by (simp_all add: opened_def)

lemma fresh_frames_simps [simp]:
  "fresh_frames []" "fresh_frames ((k, es) # st) \<longleftrightarrow> k \<notin> opened st \<and> fresh_frames st"
  by (simp_all add: fresh_frames_def opened_def)

definition visit_inv :: "derived_graph \<Rightarrow> (string \<times> gedge list) list \<Rightarrow> (string \<Rightarrow> colour option) \<Rightarrow> bool" where
  "visit_inv g st col \<longleftrightarrow>
     {k. col k = Some Visiting} = opened st \<and> fresh_frames st
     \<and> (\<forall>d\<in>done_set col. edge_rel g `` {d} \<subseteq> done_set col)
     \<and> (\<forall>d\<in>done_set col. (d, d) \<notin> (edge_rel g)\<^sup>+)
     \<and> frames_ok g (done_set col) {} st \<and> chained g st
     \<and> (\<forall>k\<in>opened st. (g_start g, k) \<in> (edge_rel g)\<^sup>*)
     \<and> (g_start g \<in> done_set col \<or> g_start g \<in> opened st)"

lemma frames_ok_mono:
  "frames_ok g D up st \<Longrightarrow> D \<union> up \<subseteq> D' \<union> up' \<Longrightarrow> D \<subseteq> D' \<Longrightarrow> frames_ok g D' up' st"
proof (induction st arbitrary: up up')
  case (Cons f st)
  obtain k es where f: "f = (k, es)" by (cases f)
  have "frames_ok g D' {k} st"
    using Cons.IH [of "{k}" "{k}"] Cons.prems(1,3) by (auto simp: f)
  moreover have "edge_rel g `` {k} \<subseteq> D' \<union> e_to ` set es \<union> up'"
    using Cons.prems unfolding f frames_ok.simps by blast
  ultimately show ?case using Cons.prems(1) by (simp add: f)
qed simp

lemma chained_trancl: "chained g st \<Longrightarrow> f \<in> set st \<Longrightarrow> st \<noteq> [] \<Longrightarrow> (fst f, fst (hd st)) \<in> (edge_rel g)\<^sup>*"
proof (induction g st rule: chained.induct)
  case (1 g k es k' es' st)
  then show ?case by (auto intro: rtrancl_into_rtrancl)
qed auto

lemma visit_inv_done:
  assumes "visit_inv g ((k, []) # st) col"
  shows "visit_inv g st (col(k \<mapsto> Done))"
proof -
  let ?D = "done_set col"
  have D': "done_set (col(k \<mapsto> Done)) = insert k ?D"
    by (auto simp: done_set_def)
  have "k \<in> {j. col j = Some Visiting}"
    using assms unfolding visit_inv_def by simp
  then have k: "k \<notin> ?D" "k \<notin> opened st"
    using assms by (auto simp: visit_inv_def done_set_def)
  have closed: "\<forall>d\<in>?D. edge_rel g `` {d} \<subseteq> ?D" and succ: "edge_rel g `` {k} \<subseteq> ?D"
    using assms by (auto simp: visit_inv_def)
  have "(k, k) \<notin> (edge_rel g)\<^sup>+"
  proof
    assume "(k, k) \<in> (edge_rel g)\<^sup>+"
    then obtain s where "(k, s) \<in> edge_rel g" "(s, k) \<in> (edge_rel g)\<^sup>*" by (meson tranclD)
    with succ closed have "k \<in> ?D" by (auto intro: rtrancl_closed)
    with k show False by simp
  qed
  moreover have "chained g st"
    using assms by (cases st) (auto simp: visit_inv_def)
  moreover have "frames_ok g (insert k ?D) {} st"
    using assms frames_ok_mono [of g ?D "{k}" st "insert k ?D" "{}"] by (auto simp: visit_inv_def)
  moreover have "{j. (col(k \<mapsto> Done)) j = Some Visiting} = opened st"
    using assms k by (auto simp: visit_inv_def split: if_splits)
  ultimately show ?thesis
    using assms closed succ unfolding visit_inv_def D' by auto
qed

lemma visit_inv_skip:
  assumes "visit_inv g ((k, e # es) # st) col" "col (e_to e) = Some Done"
  shows "visit_inv g ((k, es) # st) col"
proof -
  have "chained g ((k, es) # st)"
    using assms(1) by (cases st) (auto simp: visit_inv_def)
  moreover have "e_to e \<in> done_set col" using assms(2) by (simp add: done_set_def)
  ultimately show ?thesis
    using assms(1) by (auto simp: visit_inv_def)
qed

lemma visit_inv_push:
  assumes inv: "visit_inv g ((k, e # es) # st) col" and new: "col (e_to e) = None"
  shows "visit_inv g ((e_to e, out_edges g (e_to e)) # (k, es) # st) (col(e_to e \<mapsto> Visiting))"
proof -
  have D': "done_set (col(e_to e \<mapsto> Visiting)) = done_set col"
    using new by (auto simp: done_set_def)
  have e: "e \<in> set (out_edges g k)" using inv by (auto simp: visit_inv_def)
  then have edge: "(k, e_to e) \<in> edge_rel g"
    by (auto simp: out_edges_def edge_rel_def)
  have "e_to e \<notin> {j. col j = Some Visiting}" using new by simp
  then have fresh: "e_to e \<notin> opened ((k, es) # st)"
    using inv unfolding visit_inv_def by simp
  have ch: "chained g ((k, es) # st)"
    using inv by (cases st) (auto simp: visit_inv_def)
  have fr: "frames_ok g (done_set col) {} ((e_to e, out_edges g (e_to e)) # (k, es) # st)"
    using inv by (auto simp: visit_inv_def out_edges_def edge_rel_def)
  have vis: "{j. (col(e_to e \<mapsto> Visiting)) j = Some Visiting} = opened ((e_to e, out_edges g (e_to e)) # (k, es) # st)"
    using inv by (auto simp: visit_inv_def split: if_splits)
  have "(g_start g, e_to e) \<in> (edge_rel g)\<^sup>*"
    using inv edge by (auto simp: visit_inv_def intro: rtrancl_into_rtrancl)
  then show ?thesis
    using inv fresh ch edge fr vis unfolding visit_inv_def D' by auto
qed

lemma visit_stack_correct:
  "visit_inv g st col \<Longrightarrow>
   visit_stack g st col \<longleftrightarrow> (\<exists>x. (g_start g, x) \<in> (edge_rel g)\<^sup>* \<and> (x, x) \<in> (edge_rel g)\<^sup>+)"
proof (induction g st col rule: visit_stack.induct)
  case (1 g col)
  then have start: "g_start g \<in> done_set col" and closed: "\<forall>d\<in>done_set col. edge_rel g `` {d} \<subseteq> done_set col"
    and acyclic: "\<forall>d\<in>done_set col. (d, d) \<notin> (edge_rel g)\<^sup>+"
    by (auto simp: visit_inv_def)
  then show ?case by (auto intro: rtrancl_closed)
next
  case (2 g k st col)
  show ?case using "2.IH" [OF visit_inv_done [OF "2.prems"]] by (simp only: visit_stack.simps)
next
  case (3 g k e es st col)
  show ?case
  proof (cases "col (e_to e)")
    case None
    then show ?thesis using "3.IH"(1) [OF None visit_inv_push [OF "3.prems" None]]
      by (simp only: visit_stack.simps option.case)
  next
    case (Some c)
    show ?thesis
    proof (cases c)
      case Visiting
      then have "e_to e \<in> opened ((k, e # es) # st)"
        using "3.prems" Some unfolding visit_inv_def by blast
      then obtain f where f: "f \<in> set ((k, e # es) # st)" "fst f = e_to e" unfolding opened_def by (metis imageE)
      have "chained g ((k, e # es) # st)" using "3.prems" by (simp add: visit_inv_def)
      from chained_trancl [OF this f(1)] have "(e_to e, k) \<in> (edge_rel g)\<^sup>*" using f(2) by simp
      moreover have "(k, e_to e) \<in> edge_rel g"
        using "3.prems" by (auto simp: visit_inv_def out_edges_def edge_rel_def)
      ultimately have "(k, k) \<in> (edge_rel g)\<^sup>+" by (rule rtrancl_into_trancl2 [rotated])
      moreover have "(g_start g, k) \<in> (edge_rel g)\<^sup>*"
        using "3.prems" by (auto simp: visit_inv_def)
      ultimately show ?thesis using Some Visiting by auto
    next
      case Done
      with Some show ?thesis using "3.IH"(2) visit_inv_skip [OF "3.prems"] by simp
    qed
  qed
qed

lemma has_cycle_iff:
  "has_cycle g \<longleftrightarrow> (\<exists>x. (g_start g, x) \<in> (edge_rel g)\<^sup>* \<and> (x, x) \<in> (edge_rel g)\<^sup>+)"
proof -
  have "visit_inv g [(g_start g, out_edges g (g_start g))] [g_start g \<mapsto> Visiting]"
    by (auto simp: visit_inv_def done_set_def out_edges_def edge_rel_def split: if_splits)
  then show ?thesis unfolding has_cycle_def by (rule visit_stack_correct)
qed

section \<open>Loop-free graphs settle\<close>

lemma finite_edge_rel: "finite (edge_rel g)"
proof -
  have "edge_rel g = (\<lambda>e. (e_from e, e_to e)) ` set (g_edges g)" by (auto simp: edge_rel_def)
  then show ?thesis by simp
qed

lemma idx_out_rel: "e \<in> set (idx_out g k) \<Longrightarrow> (k, e_to e) \<in> edge_rel g"
  by (auto simp: idx_out_edges edge_rel_def)

definition behind :: "derived_graph \<Rightarrow> string \<Rightarrow> nat" where
  "behind g k = card ((edge_rel g)\<^sup>+ `` {k})"

lemma behind_less:
  assumes "acyclic (edge_rel g)" "(k, k') \<in> edge_rel g"
  shows "behind g k' < behind g k"
  unfolding behind_def
proof (rule psubset_card_mono)
  show "finite ((edge_rel g)\<^sup>+ `` {k})"
    using finite_edge_rel by (simp add: finite_Image)
  have "k' \<in> (edge_rel g)\<^sup>+ `` {k}" "k' \<notin> (edge_rel g)\<^sup>+ `` {k'}"
    using assms by (auto simp: acyclic_def)
  moreover have "(edge_rel g)\<^sup>+ `` {k'} \<subseteq> (edge_rel g)\<^sup>+ `` {k}"
    using assms(2) by (auto intro: trancl_into_trancl2)
  ultimately show "(edge_rel g)\<^sup>+ `` {k'} \<subset> (edge_rel g)\<^sup>+ `` {k}" by blast
qed

definition path_weight :: "derived_graph \<Rightarrow> string \<Rightarrow> nat" where
  "path_weight g k = Suc (length (g_edges g)) ^ behind g k"

lemma sum_list_bound: "(\<And>x. x \<in> set xs \<Longrightarrow> f x \<le> b) \<Longrightarrow> (\<Sum>x\<leftarrow>xs. f x) \<le> length xs * (b :: nat)"
  by (induction xs) (auto simp: add_mono)

lemma acyclic_weight_ok:
  assumes "acyclic (edge_rel g)"
  shows "weight_ok g (path_weight g)"
  unfolding weight_ok_def
proof (intro ballI conjI impI)
  fix n
  let ?k = "n_key n" and ?E = "length (g_edges g)"
  show "0 < path_weight g ?k" by (simp add: path_weight_def)
  show "(\<Sum>e\<leftarrow>idx_out g ?k. path_weight g (e_to e)) < path_weight g ?k"
  proof (cases "idx_out g ?k")
    case (Cons e es)
    have pos: "0 < behind g ?k"
      using behind_less [OF assms idx_out_rel, of e ?k] Cons by simp
    have "path_weight g (e_to e) \<le> Suc ?E ^ (behind g ?k - 1)" if "e \<in> set (idx_out g ?k)" for e
    proof -
      have "behind g (e_to e) < behind g ?k"
        using that by (intro behind_less [OF assms] idx_out_rel)
      then have "behind g (e_to e) \<le> behind g ?k - 1" by simp
      then show ?thesis unfolding path_weight_def by (rule power_increasing) simp
    qed
    then have "(\<Sum>e\<leftarrow>idx_out g ?k. path_weight g (e_to e)) \<le> length (idx_out g ?k) * Suc ?E ^ (behind g ?k - 1)"
      by (rule sum_list_bound)
    also have "\<dots> \<le> ?E * Suc ?E ^ (behind g ?k - 1)"
      by (intro mult_right_mono) (simp_all add: idx_out_def out_edges_def sorted_graph_def
          order_trans [OF length_filter_le])
    also have "\<dots> < Suc ?E * Suc ?E ^ (behind g ?k - 1)" by simp
    also have "\<dots> = path_weight g ?k"
      using pos by (simp add: path_weight_def power_eq_if)
    finally show ?thesis .
  qed (simp add: path_weight_def)
qed

section \<open>What an empty issue list means\<close>

lemma graph_issues_Nil:
  "graph_issues caps g = [] \<longleftrightarrow>
     (\<forall>n. node_at g (g_start g) = Some n \<longrightarrow> start_issues g n = []) \<and> reach_issues g = []
     \<and> (\<forall>n\<in>set (g_nodes g). cardinality_issues g n = [] \<and> split_issues g n = [] \<and> function_issues caps n = [])
     \<and> loop_issues g = []"
  by (auto simp: graph_issues_def split: option.splits)

lemma reach_issues_Nil:
  "reach_issues g = [] \<longleftrightarrow> (\<forall>n\<in>set (g_nodes g). (g_start g, n_key n) \<in> (edge_rel g)\<^sup>*)
     \<and> (\<exists>n\<in>set (g_nodes g). out_edges g (n_key n) = [] \<and> (g_start g, n_key n) \<in> (edge_rel g)\<^sup>*)"
  by (auto simp: reach_issues_def Let_def reachable_from_start_def search_rtrancl filter_empty_conv)

lemma loop_free_acyclic:
  assumes "\<not> has_cycle g" "wf_graph g" "\<forall>n\<in>set (g_nodes g). (g_start g, n_key n) \<in> (edge_rel g)\<^sup>*"
  shows "acyclic (edge_rel g)"
proof (rule acyclicI, intro allI notI)
  fix x assume x: "(x, x) \<in> (edge_rel g)\<^sup>+"
  then obtain y where "(x, y) \<in> edge_rel g" by (meson tranclD)
  then have "x \<in> set (node_keys g)"
    using assms(2) by (auto simp: edge_rel_def wf_graph_def)
  then have "(g_start g, x) \<in> (edge_rel g)\<^sup>*"
    using assms(3) by (auto simp: node_keys_def)
  with x assms(1) show False by (auto simp: has_cycle_iff)
qed

section \<open>Graphs that only fork\<close>

definition forks_only :: "gnode \<Rightarrow> bool" where
  "forks_only n = (n_type n = ''event'' \<or> n_type n = ''function''
     \<or> n_type n = ''connector'' \<and> n_connector_direction n = Some ''split'' \<and> n_connector_type n = Some ''and'')"

definition exact_weight :: "derived_graph \<Rightarrow> (string \<Rightarrow> nat) \<Rightarrow> bool" where
  "exact_weight g wt = (\<forall>n\<in>set (g_nodes g). forks_only n \<and>
     wt (n_key n) = (if n_type n = ''function'' then 1 else Suc (\<Sum>e\<leftarrow>idx_out g (n_key n). wt (e_to e))))"

lemma process_forks:
  assumes "exact_weight (r_graph r) wt" "wf_graph (r_graph r)"
    and i: "i < length work" "w_state (work ! i) = Active" and "w_node (work ! i) \<in> set (node_keys (r_graph r))"
  shows "\<exists>work'. process_token r work i = Inr (work', []) \<and> Suc (active_weight wt work') = active_weight wt work"
proof -
  let ?k = "w_node (work ! i)"
  obtain n where n: "node_at (r_graph r) ?k = Some n"
    using assms(5) node_at_None by fastforce
  then have mem: "n \<in> set (g_nodes (r_graph r))" "n_key n = ?k"
    using node_at_iff assms(2) by (auto simp: wf_graph_def)
  with assms(1) have f: "forks_only n"
    and w: "wt ?k = (if n_type n = ''function'' then 1 else Suc (\<Sum>e\<leftarrow>idx_out (r_graph r) ?k. wt (e_to e)))"
    by (auto simp: exact_weight_def)
  have "active_weight wt (set_state i s work) + wt ?k = active_weight wt work" if "s \<noteq> Active" for s
    using active_weight_set [OF i that] .
  from this [of Consumed] this [of Waiting] show ?thesis
    using n f w mem(2)
    by (auto simp: process_token_def connector_step_def forks_only_def active_weight_append active_weight_spawn)
qed

lemma active_weight_pos: "0 < active_weight wt work \<Longrightarrow> \<exists>i. index_of is_active work = Some i"
  by (induction work) (auto simp: active_weight_def is_active_def simp del: index_of_None split: if_splits)

lemma run_loop_trips:
  assumes "exact_weight (r_graph r) wt" "wf_graph (r_graph r)"
  shows "n < active_weight wt work \<Longrightarrow> \<forall>w\<in>set work. w_node w \<in> set (node_keys (r_graph r)) \<Longrightarrow>
    run_loop r n work made = Inl NotSettled"
proof (induction n arbitrary: work made)
  case 0
  then show ?case using active_weight_pos [of wt work] by auto
next
  case (Suc n)
  then obtain i where Some: "index_of is_active work = Some i"
    using active_weight_pos [of wt work] by auto
  then have i: "i < length work" "w_state (work ! i) = Active"
    using index_of_Some [OF Some] by (simp_all add: is_active_def)
  have node: "w_node (work ! i) \<in> set (node_keys (r_graph r))"
    using Suc.prems(2) i(1) by simp
  obtain work' where p: "process_token r work i = Inr (work', [])" "Suc (active_weight wt work') = active_weight wt work"
    using process_forks [OF assms i node] by blast
  have "\<forall>w\<in>set work'. w_node w \<in> set (node_keys (r_graph r))"
  proof
    fix w assume "w \<in> set work'"
    then have "w_node w \<in> w_node ` set work \<union> e_to ` set (g_edges (r_graph r))"
      using work_evolves_nodes [OF process_token_evolves [OF p(1) i]] by blast
    then show "w_node w \<in> set (node_keys (r_graph r))"
      using Suc.prems(2) assms(2) by (auto simp: wf_graph_def)
  qed
  then show ?case
    using Suc.IH [of work' made] Suc.prems(1) p Some by simp
qed

section \<open>Properties\<close>

text \<open>
  C12. The publish gate is sound: a definition without issues derives a well-formed graph whose start is an
  event without predecessor, in which every node is reachable from the start and some end is, splits
  have one incoming and at least two outgoing edges, joins at least two incoming and one outgoing,
  no other node branches, an XOR split has at most one branch without condition, and, unless a
  connector declares a re-entry rule, there is no cycle at all.
\<close>

theorem publishable_sound:
  assumes "validate_publishable iter_errors caps d = []"
  shows "\<exists>g start. derive_index iter_errors d = Inr g \<and> wf_graph g
    \<and> node_at g (g_start g) = Some start \<and> n_type start = ''event'' \<and> in_edges g (g_start g) = []
    \<and> (\<forall>n\<in>set (g_nodes g). (g_start g, n_key n) \<in> (edge_rel g)\<^sup>*)
    \<and> (\<exists>n\<in>set (g_nodes g). out_edges g (n_key n) = [] \<and> (g_start g, n_key n) \<in> (edge_rel g)\<^sup>*)
    \<and> (\<forall>n\<in>set (g_nodes g).
         (n_type n = ''connector'' \<and> n_connector_direction n = Some ''split'' \<longrightarrow>
            length (in_edges g (n_key n)) = 1 \<and> 2 \<le> length (out_edges g (n_key n))
            \<and> (n_connector_type n = Some ''xor'' \<longrightarrow>
                 length (filter (\<lambda>e. e_condition e = None) (out_edges g (n_key n))) \<le> 1))
       \<and> (n_type n = ''connector'' \<and> n_connector_direction n = Some ''join'' \<longrightarrow>
            2 \<le> length (in_edges g (n_key n)) \<and> length (out_edges g (n_key n)) = 1)
       \<and> (n_type n \<noteq> ''connector'' \<longrightarrow> length (out_edges g (n_key n)) \<le> 1))
    \<and> ((\<forall>n\<in>set (g_nodes g). n_type n = ''connector'' \<longrightarrow> \<not> has_key (n_props n) ''reentry'')
         \<longrightarrow> acyclic (edge_rel g))"
proof -
  obtain g where g: "derive_index iter_errors d = Inr g" and none: "graph_issues caps g = []"
    using assms by (auto simp: validate_publishable_def split: sum.splits)
  have wf: "wf_graph g" using g by (rule derive_index_wf)
  then obtain start where start: "node_at g (g_start g) = Some start"
    using node_at_None by (fastforce simp: wf_graph_def)
  then have key: "n_key start = g_start g"
    using node_at_iff wf by (auto simp: wf_graph_def)
  have st: "start_issues g start = []" and re: "reach_issues g = []" and lo: "loop_issues g = []"
    and no: "cardinality_issues g n = []" "split_issues g n = []" if "n \<in> set (g_nodes g)" for n
    using none start that by (auto simp: graph_issues_Nil)
  note rs = re [unfolded reach_issues_Nil]
  have start_mem: "start \<in> set (g_nodes g)" using start node_at_iff wf by (auto simp: wf_graph_def)
  have card: "(n_type n = ''connector'' \<and> n_connector_direction n = Some ''split'' \<longrightarrow>
            length (in_edges g (n_key n)) = 1 \<and> 2 \<le> length (out_edges g (n_key n))
            \<and> (n_connector_type n = Some ''xor'' \<longrightarrow>
                 length (filter (\<lambda>e. e_condition e = None) (out_edges g (n_key n))) \<le> 1))
       \<and> (n_type n = ''connector'' \<and> n_connector_direction n = Some ''join'' \<longrightarrow>
            2 \<le> length (in_edges g (n_key n)) \<and> length (out_edges g (n_key n)) = 1)
       \<and> (n_type n \<noteq> ''connector'' \<longrightarrow> length (out_edges g (n_key n)) \<le> 1)" if "n \<in> set (g_nodes g)" for n
    using no [OF that] by (simp add: cardinality_issues_def split_issues_def Let_def not_less split: if_splits)
  have "acyclic (edge_rel g)"
    if "\<forall>n\<in>set (g_nodes g). n_type n = ''connector'' \<longrightarrow> \<not> has_key (n_props n) ''reentry''"
    using lo [OF start_mem] that rs [OF start_mem] wf
    by (intro loop_free_acyclic) (auto simp: loop_issues_def split: if_splits)
  moreover have "n_type start = ''event''" "in_edges g (g_start g) = []"
    using st [OF start_mem] key by (auto simp: start_issues_def split: if_splits)
  ultimately show ?thesis
    using g wf start rs [OF start_mem] card by blast
qed

text \<open>
  C14. On a well-formed graph without cycles the engine's loop comes to rest: a budget of one step per
  possible path weight, \<open>(E + 1) ^ behind k\<close> for a token at node \<open>k\<close>, is always enough.
\<close>

theorem acyclic_run_settles:
  assumes "wf_graph (r_graph r)" "acyclic (edge_rel (r_graph r))"
    and "\<forall>w\<in>set work. w_node w \<in> set (node_keys (r_graph r))"
    and "(\<Sum>w\<leftarrow>work. if w_state w = Active then Suc (length (g_edges (r_graph r))) ^ behind (r_graph r) (w_node w) else 0) \<le> n"
  shows "run_loop r n work made \<noteq> Inl NotSettled"
proof (rule run_loop_settles [OF acyclic_weight_ok [OF assms(2)]])
  show "active_weight (path_weight (r_graph r)) work \<le> n"
    using assms(4) unfolding active_weight_def path_weight_def .
qed (use assms(1,3) in \<open>auto simp: wf_graph_def\<close>)

section \<open>Concrete definitions\<close>

definition mk_jnode :: "string \<Rightarrow> string \<Rightarrow> string option \<Rightarrow> string option \<Rightarrow> json_node" where
  "mk_jnode k t c d = \<lparr>j_key = k, j_type = t, j_label = None,
     j_kind = (if t = ''function'' then Some ''manual'' else None), j_connector = c, j_direction = d, j_props = None\<rparr>"

definition fork_def :: graph_def where
  "fork_def = \<lparr>d_start = ''s'',
     d_nodes = [mk_jnode ''s'' ''event'' None None, mk_jnode ''p'' ''connector'' (Some ''and'') (Some ''split''),
       mk_jnode ''f1'' ''function'' None None, mk_jnode ''f2'' ''function'' None None,
       mk_jnode ''j'' ''connector'' (Some ''and'') (Some ''join''), mk_jnode ''e'' ''event'' None None],
     d_edges = g_edges fork_graph\<rparr>"

definition parallel :: "string \<Rightarrow> string \<Rightarrow> gedge list" where
  "parallel a b = map (\<lambda>i. mk_gedge (a @ i) a b None) [''1'', ''2'', ''3'', ''4'', ''5'', ''6'', ''7'']"

definition burst_nodes :: "json_node list" where
  "burst_nodes = [mk_jnode ''f'' ''function'' None None, mk_jnode ''p'' ''connector'' (Some ''and'') (Some ''split''),
     mk_jnode ''q'' ''connector'' (Some ''and'') (Some ''split''), mk_jnode ''r'' ''connector'' (Some ''and'') (Some ''split''),
     mk_jnode ''s'' ''event'' None None, mk_jnode ''u'' ''event'' None None, mk_jnode ''v'' ''event'' None None]"

definition burst_edges :: "gedge list" where
  "burst_edges = parallel ''p'' ''u'' @ parallel ''q'' ''v'' @ parallel ''r'' ''f'' @
     [mk_gedge ''s0'' ''s'' ''p'' None, mk_gedge ''u0'' ''u'' ''q'' None, mk_gedge ''v0'' ''v'' ''r'' None]"

definition burst_def :: graph_def where
  "burst_def = \<lparr>d_start = ''s'', d_nodes = burst_nodes, d_edges = burst_edges\<rparr>"

definition burst_graph :: derived_graph where
  "burst_graph = \<lparr>g_start = ''s'', g_nodes = map node_row burst_nodes, g_edges = burst_edges\<rparr>"

definition burst_weight :: "string \<Rightarrow> nat" where
  "burst_weight k = (if k = ''s'' then 457 else if k = ''p'' then 456 else if k = ''u'' then 65 else if k = ''q'' then 64
     else if k = ''v'' then 9 else if k = ''r'' then 8 else 1)"

definition or_def :: graph_def where
  "or_def = \<lparr>d_start = ''s'',
     d_nodes = [mk_jnode ''e1'' ''event'' None None, mk_jnode ''e2'' ''event'' None None,
       mk_jnode ''f1'' ''function'' None None, mk_jnode ''f2'' ''function'' None None,
       mk_jnode ''j'' ''connector'' (Some ''or'') (Some ''join''), mk_jnode ''o'' ''connector'' (Some ''or'') (Some ''split''),
       mk_jnode ''s'' ''event'' None None, mk_jnode ''x'' ''connector'' (Some ''xor'') (Some ''split'')],
     d_edges = [mk_gedge ''a'' ''s'' ''o'' None, mk_gedge ''b'' ''o'' ''f1'' None, mk_gedge ''c'' ''o'' ''f2'' None,
       mk_gedge ''d'' ''f1'' ''j'' None, mk_gedge ''e'' ''f2'' ''x'' None, mk_gedge ''f'' ''x'' ''e2'' (Some severe),
       mk_gedge ''g'' ''x'' ''j'' None, mk_gedge ''h'' ''j'' ''e1'' None]\<rparr>"

definition or_graph :: derived_graph where
  "or_graph = \<lparr>g_start = ''s'', g_nodes = map node_row (d_nodes or_def), g_edges = d_edges or_def\<rparr>"

definition waiting_token :: "nat \<Rightarrow> string \<Rightarrow> string \<Rightarrow> token" where
  "waiting_token i k e = \<lparr>t_id = i, t_node = k, t_state = ''waiting'', t_inbound = Some e\<rparr>"

theorem publishable_sound_witness:
  "validate_publishable (\<lambda>_. []) None fork_def = []
   \<and> (\<exists>g. derive_index (\<lambda>_. []) fork_def = Inr g \<and> wf_graph g)"
proof -
  have 1: "validate_publishable (\<lambda>_. []) None fork_def = []" by code_simp
  show ?thesis using 1 publishable_sound [OF 1] by blast
qed

theorem acyclic_run_settles_witness:
  "run_loop \<lparr>r_graph = burst_graph, r_context = [], r_decisions = []\<rparr> (25 ^ 6)
     [\<lparr>w_existing = True, w_id = Some 1, w_node = ''r'', w_state = Active, w_inbound = None, w_was_active = True\<rparr>] []
   \<noteq> Inl NotSettled"
proof (rule acyclic_run_settles, goal_cases)
  case 1
  show ?case unfolding engine_run.simps by code_simp
next
  case 2
  have "\<not> has_cycle burst_graph" "wf_graph burst_graph"
    "\<forall>n\<in>set (g_nodes burst_graph). n_key n \<in> reachable_from_start burst_graph" by code_simp+
  then show ?case
    unfolding engine_run.simps by (intro loop_free_acyclic) (auto simp: reachable_from_start_def search_rtrancl)
next
  case 3
  have "''r'' \<in> set (node_keys burst_graph)" by code_simp
  then show ?case by simp
next
  case 4
  have "length (g_edges burst_graph) = 24" by code_simp
  moreover have "(edge_rel burst_graph)\<^sup>+ `` {''r''} = descendants burst_graph ''r''"
    by (auto simp: descendants_trancl)
  moreover have "descendants burst_graph ''r'' = {''f''}" by code_simp
  ultimately show ?case by (simp add: behind_def)
qed

text \<open>
  The budget of \<^verbatim>\<open>_run_loop\<close> can stop a loop-free graph that the publish gate accepts: three
  AND splits with seven parallel edges each make more steps than the budget allows, for every
  context and every decision. The error message of the code blames a cycle.
\<close>

theorem budget_trips_without_cycle:
  "validate_publishable (\<lambda>_. []) None burst_def = [] \<and> derive_index (\<lambda>_. []) burst_def = Inr burst_graph
   \<and> acyclic (edge_rel burst_graph) \<and> advance burst_graph [start_token] ctx decs = Inl NotSettled"
proof -
  have pub: "validate_publishable (\<lambda>_. []) None burst_def = []"
    and idx: "derive_index (\<lambda>_. []) burst_def = Inr burst_graph" by code_simp+
  have wf: "wf_graph burst_graph" and ew: "exact_weight burst_graph burst_weight" by code_simp+
  have "\<not> has_cycle burst_graph" "\<forall>n\<in>set (g_nodes burst_graph). n_key n \<in> reachable_from_start burst_graph"
    by code_simp+
  then have "acyclic (edge_rel burst_graph)"
    using wf by (intro loop_free_acyclic) (auto simp: reachable_from_start_def search_rtrancl)
  moreover have "advance burst_graph [start_token] ctx decs = Inl NotSettled"
  proof -
    let ?w = "\<lparr>w_existing = True, w_id = Some 1, w_node = ''s'', w_state = Active, w_inbound = None, w_was_active = True\<rparr>"
    have "loop_budget burst_graph [w] = 356" for w
      unfolding loop_budget_def list.size by code_simp
    moreover have "active_weight burst_weight [?w] = 457"
      by (simp add: active_weight_def burst_weight_def)
    moreover have "''s'' \<in> set (node_keys burst_graph)" by code_simp
    ultimately have "run_loop \<lparr>r_graph = burst_graph, r_context = ctx, r_decisions = decs\<rparr>
        (loop_budget burst_graph [?w]) [?w] [] = Inl NotSettled"
      using ew wf by (intro run_loop_trips [where wt = burst_weight]) auto
    then show ?thesis
      using wf by (simp add: advance_def mk_run_def mk_existing_def start_token_def settle_work_def wf_graph_def)
  qed
  ultimately show ?thesis using pub idx by blast
qed

text \<open>
  An OR join is not looked at again when the last token that could have reached it goes elsewhere. On
  this publishable graph two completed steps leave one token at the OR join, no other token is live, and
  every later \<^verbatim>\<open>advance\<close> leaves it there: the instance never completes.
\<close>

theorem or_join_stuck:
  "validate_publishable (\<lambda>_. []) None or_def = [] \<and> derive_index (\<lambda>_. []) or_def = Inr or_graph
   \<and> advance or_graph [start_token] [(''severity'', PInt 4)] [] = Inr \<lparr>er_consumed = [1], er_parked = [],
        er_spawned = [(''f1'', Some ''b''), (''f2'', Some ''c'')],
        er_decisions = [\<lparr>dm_connector = ''o'', dm_chosen = [''b'', ''c''], dm_auto = True\<rparr>], er_completed = False\<rparr>
   \<and> resume_function or_graph [waiting_token 2 ''f1'' ''b'', waiting_token 3 ''f2'' ''c''] ''f1'' [(''severity'', PInt 4)] []
      = Inr \<lparr>er_consumed = [2], er_parked = [], er_spawned = [(''j'', Some ''d'')], er_decisions = [], er_completed = False\<rparr>
   \<and> resume_function or_graph [waiting_token 3 ''f2'' ''c'', waiting_token 4 ''j'' ''d''] ''f2'' [(''severity'', PInt 4)] []
      = Inr \<lparr>er_consumed = [3], er_parked = [], er_spawned = [],
          er_decisions = [\<lparr>dm_connector = ''x'', dm_chosen = [''f''], dm_auto = True\<rparr>], er_completed = False\<rparr>
   \<and> advance or_graph [waiting_token 4 ''j'' ''d''] ctx decs
      = Inr \<lparr>er_consumed = [], er_parked = [], er_spawned = [], er_decisions = [], er_completed = False\<rparr>"
proof -
  have "advance or_graph [waiting_token 4 ''j'' ''d''] ctx decs
      = Inr \<lparr>er_consumed = [], er_parked = [], er_spawned = [], er_decisions = [], er_completed = False\<rparr>"
  proof -
    have "wf_graph or_graph" by code_simp
    then show ?thesis
      using advance_waiting [of or_graph "[waiting_token 4 ''j'' ''d'']"] by (simp add: waiting_token_def no_change_def)
  qed
  moreover have "validate_publishable (\<lambda>_. []) None or_def = []" "derive_index (\<lambda>_. []) or_def = Inr or_graph"
    by code_simp+
  moreover have "advance or_graph [start_token] [(''severity'', PInt 4)] [] = Inr \<lparr>er_consumed = [1], er_parked = [],
        er_spawned = [(''f1'', Some ''b''), (''f2'', Some ''c'')],
        er_decisions = [\<lparr>dm_connector = ''o'', dm_chosen = [''b'', ''c''], dm_auto = True\<rparr>], er_completed = False\<rparr>"
    by code_simp
  moreover have "resume_function or_graph [waiting_token 2 ''f1'' ''b'', waiting_token 3 ''f2'' ''c''] ''f1'' [(''severity'', PInt 4)] []
      = Inr \<lparr>er_consumed = [2], er_parked = [], er_spawned = [(''j'', Some ''d'')], er_decisions = [], er_completed = False\<rparr>"
    by code_simp
  moreover have "resume_function or_graph [waiting_token 3 ''f2'' ''c'', waiting_token 4 ''j'' ''d''] ''f2'' [(''severity'', PInt 4)] []
      = Inr \<lparr>er_consumed = [3], er_parked = [], er_spawned = [],
          er_decisions = [\<lparr>dm_connector = ''x'', dm_chosen = [''f''], dm_auto = True\<rparr>], er_completed = False\<rparr>"
    by code_simp
  ultimately show ?thesis by blast
qed

end
