(* ===== verification/Workflow_Sim.thy ===== *)
theory Workflow_Sim
  imports Workflow_Publish
begin

text \<open>
  \<^verbatim>\<open>server/bbz_core/domain/workflow/tasks.py\<close> (the kinds of function nodes) and \<^verbatim>\<open>simulate.py\<close> (the in-memory dry
  run of a definition and the structural diff of two definitions). The object of class \<^verbatim>\<open>_Sim\<close> is the
  record \<open>sim\<close> that every step returns updated. The text of a UUID is a parameter (\<open>uuid_str\<close>).
\<close>

section \<open>Decimal numbers\<close>

text \<open>The digits of \<^verbatim>\<open>int(text)\<close>: at least one, single underscores only between two digits.\<close>

fun read_digits :: "nat \<Rightarrow> bool \<Rightarrow> string \<Rightarrow> nat option" where
  "read_digits acc after_digit [] = (if after_digit then Some acc else None)"
| "read_digits acc after_digit (c # s) =
     (if py_isdigit c then read_digits (acc * 10 + (ord_of c - 48)) True s
      else if c = CHR ''_'' \<and> after_digit then read_digits acc False s
      else None)"

definition py_int_str :: "string \<Rightarrow> int option" where
  "py_int_str s =
     (case py_strip s of
        [] \<Rightarrow> None
      | c # t \<Rightarrow>
          if c = CHR ''-'' then map_option (\<lambda>n. - int n) (read_digits 0 False t)
          else if c = CHR ''+'' then map_option int (read_digits 0 False t)
          else map_option int (read_digits 0 False (c # t)))"

text \<open>\<^verbatim>\<open>int(raw)\<close>; \<open>None\<close> is \<^verbatim>\<open>TypeError\<close> or \<^verbatim>\<open>ValueError\<close>. A float is cut towards zero.\<close>

fun py_int :: "pyval \<Rightarrow> int option" where
  "py_int (PInt i) = Some i"
| "py_int (PBool b) = Some (of_bool b)"
| "py_int (PFloat r) = Some (if r < 0 then - \<lfloor>- r\<rfloor> else \<lfloor>r\<rfloor>)"
| "py_int (PStr s) = py_int_str s"
| "py_int _ = None"

section \<open>Task kinds\<close>

definition OPERATOR_KINDS :: "string list" where
  "OPERATOR_KINDS = [''manual'', ''confirmation'', ''documentation'']"

definition TIMER_KINDS :: "string list" where
  "TIMER_KINDS = [''timer'']"

definition AUTO_KINDS :: "string list" where
  "AUTO_KINDS = [''integration_action'', ''notification'', ''event_update'']"

datatype task_error = NotAutoKind string | DurationNotNumber pyval | DurationNegative

definition outbox_action :: "string \<Rightarrow> (task_error, string) res" where
  "outbox_action kind =
     (case map_of [(''integration_action'', ''integration''), (''notification'', ''notify''),
         (''event_update'', ''event_update'')] kind of
        None \<Rightarrow> Inl (NotAutoKind kind) | Some a \<Rightarrow> Inr a)"

definition timer_seconds :: "pydict \<Rightarrow> (task_error, int) res" where
  "timer_seconds props =
     (let raw = (case map_of props ''duration_seconds'' of None \<Rightarrow> PInt 60 | Some v \<Rightarrow> v)
      in case py_int raw of
           None \<Rightarrow> Inl (DurationNotNumber raw)
         | Some s \<Rightarrow> if s < 0 then Inl DurationNegative else Inr s)"

definition step_dedupe_key :: "(uuid \<Rightarrow> string) \<Rightarrow> uuid \<Rightarrow> string \<Rightarrow> string" where
  "step_dedupe_key uuid_str i k = ''workflow-step:'' @ uuid_str i @ '':'' @ k @ '':attempt-0''"

section \<open>The dry run\<close>

record sim_step =
  ss_node :: string
  ss_kind :: string
  ss_outcome :: string

record sim_outbox =
  so_node :: string
  so_action :: string
  so_dedupe :: string
  so_kind :: string
  so_props :: pydict

record sim_report =
  sr_status :: string
  sr_visited :: "string list"
  sr_steps :: "sim_step list"
  sr_decisions :: "decision_made list"
  sr_outbox :: "sim_outbox list"
  sr_pending :: "string list"
  sr_active :: "string list"

record sim =
  sim_tokens :: "token list"
  sim_next_id :: nat
  sim_report :: sim_report

datatype sim_error = SimGraph graph_error | SimEngine engine_error | SimTask task_error | SimNotSettled

definition lift_err :: "('e \<Rightarrow> 'f) \<Rightarrow> ('e, 'a) res \<Rightarrow> ('f, 'a) res" where
  "lift_err f m = (case m of Inl e \<Rightarrow> Inl (f e) | Inr x \<Rightarrow> Inr x)"

lemma lift_err_Inr [simp]: "lift_err f m = Inr x \<longleftrightarrow> m = Inr x"
  by (auto simp: lift_err_def split: sum.splits)

definition empty_report :: sim_report where
  "empty_report = \<lparr>sr_status = ''running'', sr_visited = [], sr_steps = [], sr_decisions = [], sr_outbox = [],
     sr_pending = [], sr_active = []\<rparr>"

definition new_token :: "string \<Rightarrow> string option \<Rightarrow> string \<Rightarrow> sim \<Rightarrow> token \<times> sim" where
  "new_token k inbound st s =
     (let i = sim_next_id s + 1 in
      (\<lparr>t_id = i, t_node = k, t_state = st, t_inbound = inbound\<rparr>, s\<lparr>sim_next_id := i\<rparr>))"

definition sim_spawn :: "string \<times> string option \<Rightarrow> sim \<Rightarrow> sim" where
  "sim_spawn p s =
     (let (t, s') = new_token (fst p) (snd p) ''waiting'' s in
      s'\<lparr>sim_tokens := sim_tokens s' @ [t],
         sim_report := (sim_report s')\<lparr>sr_visited := sr_visited (sim_report s') @ [fst p]\<rparr>\<rparr>)"

definition sim_apply :: "engine_result \<Rightarrow> sim \<Rightarrow> sim" where
  "sim_apply res s =
     (let s1 = s\<lparr>sim_tokens := filter (\<lambda>t. t_id t \<notin> set (er_consumed res)) (sim_tokens s)\<rparr>;
          s2 = fold sim_spawn (er_spawned res) s1
      in s2\<lparr>sim_report := (sim_report s2)\<lparr>sr_decisions := sr_decisions (sim_report s2) @ er_decisions res\<rparr>\<rparr>)"

definition kind_of :: "gnode \<Rightarrow> string" where
  "kind_of n = (case n_function_kind n of None \<Rightarrow> ''manual'' | Some k \<Rightarrow> if k = '''' then ''manual'' else k)"

definition record_step :: "(uuid \<Rightarrow> string) \<Rightarrow> gnode \<Rightarrow> sim_report \<Rightarrow> (sim_error, sim_report) res" where
  "record_step uuid_str n rep =
     (let kind = kind_of n;
          step = (\<lambda>r outcome. r\<lparr>sr_steps := sr_steps r @ [\<lparr>ss_node = n_key n, ss_kind = kind, ss_outcome = outcome\<rparr>]\<rparr>)
      in if kind \<in> set AUTO_KINDS then
           bind_res (lift_err SimTask (outbox_action kind)) (\<lambda>action.
             Inr (step (rep\<lparr>sr_outbox := sr_outbox rep @
               [\<lparr>so_node = n_key n, so_action = action, so_dedupe = step_dedupe_key uuid_str 0 (n_key n),
                 so_kind = kind, so_props = n_props n\<rparr>]\<rparr>) ''dispatched (dry-run)''))
         else if kind \<in> set TIMER_KINDS then
           bind_res (lift_err SimTask (timer_seconds (n_props n))) (\<lambda>secs.
             Inr (step rep (''waited '' @ int_str secs @ ''s (fast-forward)'')))
         else Inr (step rep ''completed''))"

definition run_function ::
  "(uuid \<Rightarrow> string) \<Rightarrow> derived_graph \<Rightarrow> pydict \<Rightarrow> (string \<times> string list) list \<Rightarrow> gnode \<Rightarrow> sim \<Rightarrow> (sim_error, sim) res" where
  "run_function uuid_str g ctx decs n s =
     bind_res (record_step uuid_str n (sim_report s)) (\<lambda>rep.
       (let s1 = s\<lparr>sim_report := rep\<rparr> in
        bind_res (lift_err SimEngine (resume_function g (sim_tokens s1) (n_key n) ctx decs)) (\<lambda>res.
          Inr (sim_apply res s1))))"

definition node_of :: "derived_graph \<Rightarrow> string \<Rightarrow> gnode option" where
  "node_of g k = find_first (\<lambda>n. n_key n = k) (g_nodes g)"

definition note_pending :: "gnode \<Rightarrow> sim \<Rightarrow> sim" where
  "note_pending n s =
     (if n_type n = ''connector'' \<and> n_connector_direction n = Some ''split''
         \<and> n_connector_type n \<in> {Some ''xor'', Some ''or''} \<and> n_key n \<notin> set (sr_pending (sim_report s))
      then s\<lparr>sim_report := (sim_report s)\<lparr>sr_pending := sr_pending (sim_report s) @ [n_key n]\<rparr>\<rparr>
      else s)"

fun act_from ::
  "(uuid \<Rightarrow> string) \<Rightarrow> derived_graph \<Rightarrow> pydict \<Rightarrow> (string \<times> string list) list \<Rightarrow> token list \<Rightarrow> sim
    \<Rightarrow> (sim_error, bool \<times> sim) res" where
  "act_from uuid_str g ctx decs [] s = Inr (False, s)"
| "act_from uuid_str g ctx decs (t # ts) s =
     (case node_of g (t_node t) of
        None \<Rightarrow> act_from uuid_str g ctx decs ts s
      | Some n \<Rightarrow>
          if n_type n = ''function'' then
            bind_res (run_function uuid_str g ctx decs n s) (\<lambda>s'. Inr (True, s'))
          else act_from uuid_str g ctx decs ts (note_pending n s))"

fun act_loop ::
  "(uuid \<Rightarrow> string) \<Rightarrow> derived_graph \<Rightarrow> pydict \<Rightarrow> (string \<times> string list) list \<Rightarrow> nat \<Rightarrow> sim \<Rightarrow> (sim_error, sim) res" where
  "act_loop uuid_str g ctx decs 0 s = Inl SimNotSettled"
| "act_loop uuid_str g ctx decs (Suc n) s =
     bind_res (act_from uuid_str g ctx decs (sim_tokens s) s) (\<lambda>(moved, s').
       if moved then act_loop uuid_str g ctx decs n s' else Inr s')"

definition simulate ::
  "(uuid \<Rightarrow> string) \<Rightarrow> (graph_def \<Rightarrow> string list) \<Rightarrow> graph_def \<Rightarrow> pydict \<Rightarrow> (string \<times> string list) list
    \<Rightarrow> (sim_error, sim_report) res" where
  "simulate uuid_str iter_errors d ctx decs =
     bind_res (lift_err SimGraph (derive_index iter_errors d)) (\<lambda>g.
       (let (t, s0) = new_token (g_start g) None ''active'' \<lparr>sim_tokens = [], sim_next_id = 0, sim_report = empty_report\<rparr>;
            s1 = s0\<lparr>sim_tokens := [t], sim_report := (sim_report s0)\<lparr>sr_visited := [g_start g]\<rparr>\<rparr>
        in bind_res (lift_err SimEngine (advance g (sim_tokens s1) ctx decs)) (\<lambda>res.
             bind_res (act_loop uuid_str g ctx decs ((length (g_nodes g) + length (g_edges g)) * 4 + 50) (sim_apply res s1))
               (\<lambda>s. Inr ((sim_report s)\<lparr>sr_active := sort (remdups (map t_node (sim_tokens s))),
                      sr_visited := dedupe_from {} (sr_visited (sim_report s)),
                      sr_status := (if sim_tokens s = [] then ''completed'' else ''running'')\<rparr>)))))"

section \<open>The diff of two definitions\<close>

datatype diff_error = DiffMalformed

fun item_key :: "pyval \<Rightarrow> (diff_error, string \<times> pyval) res" where
  "item_key (PDict n) = (case map_of n ''key'' of Some (PStr k) \<Rightarrow> Inr (k, PDict n) | _ \<Rightarrow> Inl DiffMalformed)"
| "item_key _ = Inl DiffMalformed"

fun map_res :: "('a \<Rightarrow> ('e, 'b) res) \<Rightarrow> 'a list \<Rightarrow> ('e, 'b list) res" where
  "map_res f [] = Inr []"
| "map_res f (x # xs) = bind_res (f x) (\<lambda>y. bind_res (map_res f xs) (\<lambda>ys. Inr (y # ys)))"

definition items_by_key :: "string \<Rightarrow> pydict \<Rightarrow> (diff_error, (string \<times> pyval) list) res" where
  "items_by_key what d =
     (case map_of d what of
        None \<Rightarrow> Inr []
      | Some (PList xs) \<Rightarrow> bind_res (map_res item_key xs) (\<lambda>items. Inr (dict_of items))
      | Some _ \<Rightarrow> Inl DiffMalformed)"

definition keys_minus :: "(string \<times> pyval) list \<Rightarrow> (string \<times> pyval) list \<Rightarrow> string list" where
  "keys_minus a b = sort (filter (\<lambda>k. map_of b k = None) (remdups (map fst a)))"

definition keys_changed :: "(string \<times> pyval) list \<Rightarrow> (string \<times> pyval) list \<Rightarrow> string list" where
  "keys_changed a b = sort (filter (\<lambda>k. case (map_of a k, map_of b k) of
       (Some v, Some w) \<Rightarrow> \<not> py_eq v w | _ \<Rightarrow> False) (remdups (map fst a)))"

record definition_diff =
  nodes_added :: "string list"
  nodes_removed :: "string list"
  nodes_changed :: "string list"
  edges_added :: "string list"
  edges_removed :: "string list"
  edges_changed :: "string list"
  start_changed :: bool

definition diff_definitions :: "pydict option \<Rightarrow> pydict \<Rightarrow> (diff_error, definition_diff) res" where
  "diff_definitions before after =
     (let b = (case before of None \<Rightarrow> [] | Some d \<Rightarrow> d) in
      bind_res (items_by_key ''nodes'' b) (\<lambda>bn. bind_res (items_by_key ''nodes'' after) (\<lambda>an.
      bind_res (items_by_key ''edges'' b) (\<lambda>be. bind_res (items_by_key ''edges'' after) (\<lambda>ae.
        Inr \<lparr>nodes_added = keys_minus an bn, nodes_removed = keys_minus bn an, nodes_changed = keys_changed an bn,
             edges_added = keys_minus ae be, edges_removed = keys_minus be ae, edges_changed = keys_changed ae be,
             start_changed = (\<not> py_eq (dict_get b ''start'') (dict_get after ''start''))\<rparr>)))))"

section \<open>Reports\<close>

text \<open>What every step of a dry run keeps true of its report and its tokens.\<close>

definition auto_steps :: "sim_report \<Rightarrow> (string \<times> string) list" where
  "auto_steps rep = map (\<lambda>st. (ss_node st, ss_kind st)) (filter (\<lambda>st. ss_kind st \<in> set AUTO_KINDS) (sr_steps rep))"

definition function_node :: "derived_graph \<Rightarrow> string \<Rightarrow> bool" where
  "function_node g k = (\<exists>n\<in>set (g_nodes g). n_key n = k \<and> n_type n = ''function'')"

definition sim_inv :: "derived_graph \<Rightarrow> sim \<Rightarrow> bool" where
  "sim_inv g s \<longleftrightarrow>
     set (sr_visited (sim_report s)) \<subseteq> set (node_keys g) \<and> g_start g \<in> set (sr_visited (sim_report s))
     \<and> (\<forall>t\<in>set (sim_tokens s). t_node t \<in> set (sr_visited (sim_report s)))
     \<and> (\<forall>t\<in>set (sim_tokens s). t_id t \<le> sim_next_id s) \<and> distinct (map t_id (sim_tokens s))
     \<and> map (\<lambda>o1. (so_node o1, so_kind o1)) (sr_outbox (sim_report s)) = auto_steps (sim_report s)
     \<and> (\<forall>st\<in>set (sr_steps (sim_report s)). function_node g (ss_node st))
     \<and> distinct (sr_pending (sim_report s))"

lemma sim_spawn_inv: "sim_inv g s \<Longrightarrow> fst p \<in> set (node_keys g) \<Longrightarrow> sim_inv g (sim_spawn p s)"
  by (cases s; cases "sim_report s")
    (auto simp: sim_inv_def sim_spawn_def new_token_def Let_def auto_steps_def image_iff)

lemma fold_sim_spawn_inv:
  "sim_inv g s \<Longrightarrow> \<forall>p\<in>set ps. fst p \<in> set (node_keys g) \<Longrightarrow> sim_inv g (fold sim_spawn ps s)"
  by (induction ps arbitrary: s) (auto intro: sim_spawn_inv)

lemma sim_inv_report:
  "sim_inv g s \<Longrightarrow> sim_inv g (s\<lparr>sim_report := (sim_report s)\<lparr>sr_decisions := ds\<rparr>\<rparr>)"
  by (simp add: sim_inv_def auto_steps_def)

lemma sim_apply_inv:
  assumes "sim_inv g s" "set (er_spawned res) \<subseteq> {(e_to e, Some (e_key e)) | e. e \<in> set (g_edges g)}" "wf_graph g"
  shows "sim_inv g (sim_apply res s)"
proof -
  have "sim_inv g (s\<lparr>sim_tokens := filter (\<lambda>t. t_id t \<notin> set (er_consumed res)) (sim_tokens s)\<rparr>)"
    using assms(1) by (auto simp: sim_inv_def auto_steps_def distinct_map_filter)
  moreover have "\<forall>p\<in>set (er_spawned res). fst p \<in> set (node_keys g)"
    using assms(2,3) by (auto simp: wf_graph_def)
  ultimately show ?thesis
    unfolding sim_apply_def Let_def by (intro sim_inv_report fold_sim_spawn_inv)
qed

lemma record_step_inv:
  assumes "record_step uuid_str n (sim_report s) = Inr rep" "sim_inv g s" "n \<in> set (g_nodes g)" "n_type n = ''function''"
  shows "sim_inv g (s\<lparr>sim_report := rep\<rparr>)"
proof -
  have "function_node g (n_key n)"
    using assms(3,4) by (auto simp: function_node_def)
  then show ?thesis
    using assms by (auto simp: record_step_def Let_def bind_res_Inr sim_inv_def auto_steps_def split: if_splits)
qed

lemma node_of_Some: "node_of g k = Some n \<Longrightarrow> n \<in> set (g_nodes g) \<and> n_key n = k"
  unfolding node_of_def by (drule find_first_Some) simp

lemma run_function_inv:
  assumes "run_function uuid_str g ctx decs n s = Inr s'" "sim_inv g s" "n \<in> set (g_nodes g)"
    "n_type n = ''function''" "wf_graph g"
  shows "sim_inv g s'"
proof -
  obtain rep res where rep: "record_step uuid_str n (sim_report s) = Inr rep"
    and res: "resume_function g (sim_tokens s) (n_key n) ctx decs = Inr res"
    and s': "s' = sim_apply res (s\<lparr>sim_report := rep\<rparr>)"
    using assms(1) by (auto simp: run_function_def Let_def bind_res_Inr)
  have "set (er_spawned res) \<subseteq> {(e_to e, Some (e_key e)) | e. e \<in> set (g_edges g)}"
    using engine_spawned_on_edges [of g "sim_tokens s" "Some (n_key n)"] res by (simp add: engine_call_def)
  then show ?thesis
    using sim_apply_inv [OF record_step_inv [OF rep assms(2-4)]] assms(5) unfolding s' by blast
qed

lemma note_pending_inv: "sim_inv g s \<Longrightarrow> sim_inv g (note_pending n s)"
  by (auto simp: note_pending_def sim_inv_def auto_steps_def)

lemma act_from_inv:
  "act_from uuid_str g ctx decs ts s = Inr (moved, s') \<Longrightarrow> sim_inv g s \<Longrightarrow> wf_graph g \<Longrightarrow> sim_inv g s'"
proof (induction ts arbitrary: s)
  case (Cons t ts)
  show ?case
  proof (cases "node_of g (t_node t)")
    case None
    then show ?thesis using Cons by simp
  next
    case (Some n)
    then show ?thesis
      using Cons node_of_Some [OF Some] run_function_inv note_pending_inv
      by (fastforce simp: bind_res_Inr split: if_splits)
  qed
qed simp

lemma act_loop_inv:
  "act_loop uuid_str g ctx decs n s = Inr s' \<Longrightarrow> sim_inv g s \<Longrightarrow> wf_graph g \<Longrightarrow> sim_inv g s'"
  by (induction n arbitrary: s) (auto simp: bind_res_Inr split: if_splits dest: act_from_inv)

section \<open>Properties\<close>

text \<open>
  A dry run that ends tells the truth about itself: it visits each node at most once in its list, only
  nodes of the graph, among them the start; exactly the steps of an automatic kind have a would-be outbox
  row, in the order of the steps; every step is a function node of the graph; the nodes it names
  as active were visited; and it reports completion exactly if no node is active.
\<close>

theorem simulate_report:
  assumes "simulate uuid_str iter_errors d ctx decs = Inr rep"
  shows "\<exists>g. derive_index iter_errors d = Inr g
    \<and> distinct (sr_visited rep) \<and> set (sr_visited rep) \<subseteq> set (node_keys g) \<and> g_start g \<in> set (sr_visited rep)
    \<and> map (\<lambda>o1. (so_node o1, so_kind o1)) (sr_outbox rep)
        = map (\<lambda>st. (ss_node st, ss_kind st)) (filter (\<lambda>st. ss_kind st \<in> set AUTO_KINDS) (sr_steps rep))
    \<and> (\<forall>st\<in>set (sr_steps rep). \<exists>n\<in>set (g_nodes g). n_key n = ss_node st \<and> n_type n = ''function'')
    \<and> set (sr_active rep) \<subseteq> set (sr_visited rep) \<and> distinct (sr_pending rep)
    \<and> (sr_status rep = ''completed'' \<longleftrightarrow> sr_active rep = [])"
proof -
  obtain g res s where g: "derive_index iter_errors d = Inr g" and res: "advance g [start_token\<lparr>t_node := g_start g\<rparr>] ctx decs = Inr res"
    and s: "act_loop uuid_str g ctx decs ((length (g_nodes g) + length (g_edges g)) * 4 + 50)
        (sim_apply res \<lparr>sim_tokens = [start_token\<lparr>t_node := g_start g\<rparr>], sim_next_id = 1,
           sim_report = empty_report\<lparr>sr_visited := [g_start g]\<rparr>\<rparr>) = Inr s"
    and rep: "rep = (sim_report s)\<lparr>sr_active := sort (remdups (map t_node (sim_tokens s))),
        sr_visited := dedupe_from {} (sr_visited (sim_report s)),
        sr_status := (if sim_tokens s = [] then ''completed'' else ''running'')\<rparr>"
    using assms by (auto simp: simulate_def bind_res_Inr new_token_def Let_def start_token_def)
  have wf: "wf_graph g" using g by (rule derive_index_wf)
  have "set (er_spawned res) \<subseteq> {(e_to e, Some (e_key e)) | e. e \<in> set (g_edges g)}"
    using engine_spawned_on_edges [of g _ None] res by (simp add: engine_call_def)
  moreover have "sim_inv g \<lparr>sim_tokens = [start_token\<lparr>t_node := g_start g\<rparr>], sim_next_id = 1,
      sim_report = empty_report\<lparr>sr_visited := [g_start g]\<rparr>\<rparr>"
    using wf by (simp add: sim_inv_def empty_report_def auto_steps_def start_token_def wf_graph_def)
  ultimately have "sim_inv g s"
    using sim_apply_inv [OF _ _ wf] act_loop_inv [OF s _ wf] by blast
  then show ?thesis
    using g by (intro exI [of _ g]) (auto simp: rep sim_inv_def auto_steps_def function_node_def)
qed

text \<open>
  A dry run of a definition whose start node is a function cannot run that step: the token that the
  first \<^verbatim>\<open>advance\<close> parks keeps the state \<^verbatim>\<open>active\<close> in \<^verbatim>\<open>_apply\<close>, so \<^verbatim>\<open>resume_function\<close> finds no waiting token
  and the dry run ends with the engine's error.
\<close>

definition function_start_def :: graph_def where
  "function_start_def = \<lparr>d_start = ''f'',
     d_nodes = [mk_jnode ''e'' ''event'' None None, mk_jnode ''f'' ''function'' None None],
     d_edges = [mk_gedge ''a'' ''f'' ''e'' None]\<rparr>"

theorem simulate_function_start_fails:
  "simulate (\<lambda>_. ''0'') (\<lambda>_. []) function_start_def [] [] = Inl (SimEngine (StepNotWaiting ''f''))"
  by code_simp

theorem simulate_report_witness:
  "\<exists>rep. simulate (\<lambda>_. ''0'') (\<lambda>_. []) fork_def [] [] = Inr rep \<and> distinct (sr_visited rep)
     \<and> sr_status rep = ''completed''"
proof -
  have "simulate (\<lambda>_. ''0'') (\<lambda>_. []) fork_def [] [] = Inr \<lparr>sr_status = ''completed'',
     sr_visited = [''s'', ''f1'', ''f2'', ''j''],
     sr_steps = [\<lparr>ss_node = ''f1'', ss_kind = ''manual'', ss_outcome = ''completed''\<rparr>,
       \<lparr>ss_node = ''f2'', ss_kind = ''manual'', ss_outcome = ''completed''\<rparr>],
     sr_decisions = [], sr_outbox = [], sr_pending = [], sr_active = []\<rparr>" (is "_ = Inr ?rep")
    by code_simp
  from simulate_report [OF this] this show ?thesis by (intro exI [of _ ?rep]) simp
qed

end
