(* ===== verification/Redaction.thy ===== *)
theory Redaction
  imports Py_Value
begin

text \<open>
  \<^verbatim>\<open>server/bbz_core/redaction.py\<close>: the mask that every sink (audit, event log, outbox, log) applies to what it
  writes. The context variable \<^verbatim>\<open>_active\<close> is the argument \<open>secrets\<close>, the registered values in the order the
  frozen set yields them.
\<close>

section \<open>Replacing a substring\<close>

definition MASK :: string where
  "MASK = ''[redacted]''"

definition MIN_LEN :: nat where
  "MIN_LEN = 3"

definition SCRUB_DEPTH :: nat where
  "SCRUB_DEPTH = 10"

text \<open>\<^verbatim>\<open>text.replace(s, m)\<close> for a non-empty \<open>s\<close>: from the left, without overlap.\<close>

function py_replace :: "string \<Rightarrow> string \<Rightarrow> string \<Rightarrow> string" where
  "py_replace s m [] = []"
| "py_replace s m (c # t) =
     (if s \<noteq> [] \<and> str_starts (c # t) s then m @ py_replace s m (drop (length s) (c # t))
      else c # py_replace s m t)"
  by pat_completeness auto
termination by (relation "measure (\<lambda>(s, m, t). length t)") auto

section \<open>Registration and scrubbing\<close>

definition redacting :: "string option list \<Rightarrow> string list \<Rightarrow> string list" where
  "redacting values active =
     active @ filter (\<lambda>s. s \<notin> set active)
       (remdups (concat (map (\<lambda>v. case v of Some s \<Rightarrow> if MIN_LEN \<le> length s then [s] else [] | None \<Rightarrow> []) values)))"

definition scrub_string :: "string list \<Rightarrow> string \<Rightarrow> string" where
  "scrub_string secrets t = foldl (\<lambda>v s. if is_substr s v then py_replace s MASK v else v) t secrets"

fun scrub_at :: "string list \<Rightarrow> nat \<Rightarrow> pyval \<Rightarrow> pyval" where
  "scrub_at secrets depth (PStr t) = PStr (scrub_string secrets t)"
| "scrub_at secrets depth (PDict d) =
     (if SCRUB_DEPTH \<le> depth then PDict d else PDict (map (\<lambda>(k, v). (k, scrub_at secrets (Suc depth) v)) d))"
| "scrub_at secrets depth (PList xs) =
     (if SCRUB_DEPTH \<le> depth then PList xs else PList (map (scrub_at secrets (Suc depth)) xs))"
| "scrub_at secrets depth v = v"

definition scrub :: "string list \<Rightarrow> pyval \<Rightarrow> pyval" where
  "scrub secrets v = (if secrets = [] then v else scrub_at secrets 0 v)"

definition scrub_dict :: "string list \<Rightarrow> pydict \<Rightarrow> pydict" where
  "scrub_dict secrets d = (case scrub secrets (PDict d) of PDict e \<Rightarrow> e | _ \<Rightarrow> d)"

definition scrub_text :: "string list \<Rightarrow> string \<Rightarrow> string" where
  "scrub_text secrets t = (case scrub secrets (PStr t) of PStr u \<Rightarrow> u | _ \<Rightarrow> t)"

text \<open>The string values of a value, down to the given number of nested containers (dictionary keys are not values).\<close>

fun strings_within :: "nat \<Rightarrow> pyval \<Rightarrow> string list" where
  "strings_within n (PStr t) = [t]"
| "strings_within n (PDict d) = (if n = 0 then [] else concat (map (\<lambda>(k, v). strings_within (n - 1) v) d))"
| "strings_within n (PList xs) = (if n = 0 then [] else concat (map (strings_within (n - 1)) xs))"
| "strings_within n v = []"

section \<open>What replacement leaves\<close>

text \<open>A secret that shares no character with the mask.\<close>

definition off_mask :: "string \<Rightarrow> bool" where
  "off_mask s = (s \<noteq> [] \<and> set s \<inter> set MASK = {})"

lemma sublist_append_off:
  assumes "s \<noteq> []" "set s \<inter> set m = {}" "m \<noteq> []" "sublist s (a @ m @ b)"
  shows "sublist s a \<or> sublist s b"
proof -
  obtain p q where pq: "a @ m @ b = p @ s @ q" using assms(4) by (auto simp: sublist_def)
  consider "length (p @ s) \<le> length a" | "length (a @ m) \<le> length p" | "length a < length (p @ s)" "length p < length (a @ m)"
    by linarith
  then show ?thesis
  proof cases
    case 1
    then have "prefix (p @ s) a"
      using pq by (metis append.assoc prefix_length_prefix prefixI)
    then show ?thesis by (auto simp: sublist_def prefix_def)
  next
    case 2
    then obtain p' where "p = (a @ m) @ p'"
      using pq by (metis append.assoc prefix_length_prefix prefixI prefixE)
    then have "b = p' @ s @ q" using pq by simp
    then show ?thesis by (auto simp: sublist_def)
  next
    case 3
    let ?i = "max (length a) (length p)"
    have i: "?i < length (a @ m)" "?i < length (p @ s)" using 3 assms(1,3) by auto
    have "(a @ m @ b) ! ?i = m ! (?i - length a)" using i by (auto simp: nth_append max_def)
    moreover have "(p @ s @ q) ! ?i = s ! (?i - length p)" using i by (auto simp: nth_append max_def)
    ultimately have "m ! (?i - length a) = s ! (?i - length p)" using pq by simp
    moreover have "m ! (?i - length a) \<in> set m" "s ! (?i - length p) \<in> set s"
      using i assms(1,3) by (auto simp: max_def intro!: nth_mem)
    ultimately show ?thesis using assms(2) by (metis disjoint_iff)
  qed
qed

lemma MASK_not_Nil [simp]: "MASK \<noteq> []"
  by (simp add: MASK_def)

lemma py_replace_first:
  assumes "s \<noteq> []"
  shows "\<not> sublist s t \<and> py_replace s m t = t
    \<or> (\<exists>a b. t = a @ s @ b \<and> \<not> sublist s a \<and> py_replace s m t = a @ m @ py_replace s m b)"
proof (induction t)
  case Nil
  then show ?case using assms by simp
next
  case (Cons c t)
  show ?case
  proof (cases "prefix s (c # t)")
    case True
    then obtain b where b: "c # t = s @ b" by (auto simp: prefix_def)
    then have "drop (length s) (c # t) = b" by simp
    then have "py_replace s m (c # t) = [] @ m @ py_replace s m b"
      using True assms by (simp add: str_starts_prefix)
    then show ?thesis using b assms by (intro disjI2 exI [of _ "[]"] exI [of _ b]) simp
  next
    case False
    then have step: "py_replace s m (c # t) = c # py_replace s m t"
      by (simp add: str_starts_prefix)
    from Cons.IH show ?thesis
    proof
      assume "\<not> sublist s t \<and> py_replace s m t = t"
      then show ?thesis using step False by (simp add: sublist_Cons_right)
    next
      assume "\<exists>a b. t = a @ s @ b \<and> \<not> sublist s a \<and> py_replace s m t = a @ m @ py_replace s m b"
      then obtain a b where ab: "t = a @ s @ b" "\<not> sublist s a" "py_replace s m t = a @ m @ py_replace s m b"
        by blast
      have "\<not> prefix s (c # a)"
        using False ab(1) by (auto dest: prefix_prefix [of s "c # a" "s @ b"])
      then have "\<not> sublist s (c # a)" using ab(2) by (simp add: sublist_Cons_right)
      then show ?thesis using ab(1,3) step by (intro disjI2 exI [of _ "c # a"] exI [of _ b]) simp
    qed
  qed
qed

lemma py_replace_none:
  assumes "off_mask s" "off_mask s'" "s' = s \<or> \<not> sublist s' t"
  shows "\<not> sublist s' (py_replace s MASK t)"
  using assms(3)
proof (induction t rule: length_induct)
  case (1 t)
  have s: "s \<noteq> []" "s' \<noteq> []" "set s' \<inter> set MASK = {}" using assms(1,2) by (auto simp: off_mask_def)
  from py_replace_first [OF s(1), of t MASK] show ?case
  proof
    assume "\<not> sublist s t \<and> py_replace s MASK t = t"
    then show ?thesis using "1.prems" by auto
  next
    assume "\<exists>a b. t = a @ s @ b \<and> \<not> sublist s a \<and> py_replace s MASK t = a @ MASK @ py_replace s MASK b"
    then obtain a b where ab: "t = a @ s @ b" "\<not> sublist s a" "py_replace s MASK t = a @ MASK @ py_replace s MASK b"
      by blast
    have part: "sublist a t" "sublist b t"
      unfolding ab(1) sublist_def by (rule exI [of _ "[]"], simp) (rule exI [of _ "a @ s"], rule exI [of _ "[]"], simp)
    have "s' = s \<or> \<not> sublist s' a \<and> \<not> sublist s' b"
      using "1.prems" part sublist_order.order_trans by blast
    moreover have "length b < length t" using ab(1) s(1) by simp
    ultimately have "\<not> sublist s' (py_replace s MASK b)" "\<not> sublist s' a"
      using "1.IH" ab(2) by blast+
    then show ?thesis
      using sublist_append_off [OF s(2,3) MASK_not_Nil, of a "py_replace s MASK b"] unfolding ab(3) by blast
  qed
qed

lemma scrub_string_clean:
  assumes "\<forall>s\<in>set secrets. off_mask s" "s \<in> set secrets \<or> off_mask s \<and> \<not> sublist s t"
  shows "\<not> sublist s (scrub_string secrets t)"
  using assms
proof (induction secrets arbitrary: t)
  case Nil
  then show ?case by (simp add: scrub_string_def)
next
  case (Cons s0 secrets)
  let ?t = "if is_substr s0 t then py_replace s0 MASK t else t"
  have "scrub_string (s0 # secrets) t = scrub_string secrets ?t"
    by (simp add: scrub_string_def)
  moreover have "s \<in> set secrets \<or> off_mask s \<and> \<not> sublist s ?t"
    using Cons.prems py_replace_none [of s0 s t] by (auto simp: is_substr_sublist)
  ultimately show ?case using Cons.IH Cons.prems(1) by simp
qed

lemma scrub_at_clean:
  assumes "\<forall>s\<in>set secrets. off_mask s"
  shows "depth + n \<le> SCRUB_DEPTH \<Longrightarrow> t \<in> set (strings_within n (scrub_at secrets depth v)) \<Longrightarrow> s \<in> set secrets
    \<Longrightarrow> \<not> sublist s t"
proof (induction v arbitrary: depth n)
  case (PStr u)
  then show ?case using scrub_string_clean [OF assms, of s u] by simp
next
  case (PList xs)
  then obtain n' x where n: "n = Suc n'" and x: "x \<in> set xs" "t \<in> set (strings_within n' (scrub_at secrets (Suc depth) x))"
    by (cases n) (auto split: if_splits)
  show ?case using PList.IH [OF x(1) _ x(2) PList.prems(3)] PList.prems(1) by (simp add: n)
next
  case (PDict d)
  then obtain n' k x where n: "n = Suc n'" and x: "(k, x) \<in> set d" "t \<in> set (strings_within n' (scrub_at secrets (Suc depth) x))"
    by (cases n) (auto split: if_splits)
  have "x \<in> Basic_BNFs.snds (k, x)" by simp
  from PDict.IH [OF x(1) this _ x(2) PDict.prems(3)] show ?case using PDict.prems(1) by (simp add: n)
qed simp_all

section \<open>Properties\<close>

text \<open>
  C20. The redaction net holds: whatever value a sink scrubs while secrets are registered whose characters
  do not occur in the mask (the digits of a door code, say), no registered secret is a
  substring of any string value that it writes, down to ten levels of nested containers.
\<close>

theorem scrub_masks_secrets:
  assumes "\<forall>s\<in>set secrets. s \<noteq> [] \<and> set s \<inter> set ''[redacted]'' = {}"
    and "t \<in> set (strings_within 10 (scrub secrets v))" "s \<in> set secrets"
  shows "\<not> sublist s t"
proof -
  have "\<forall>s\<in>set secrets. off_mask s" using assms(1) by (simp add: off_mask_def MASK_def)
  moreover have "secrets \<noteq> []" using assms(3) by auto
  ultimately show ?thesis
    using scrub_at_clean [of secrets 0 10 t v s] assms(2,3) by (simp add: scrub_def SCRUB_DEPTH_def)
qed

theorem scrub_masks_secrets_witness:
  "scrub [''12#45''] (PDict [(''error'', PList [PStr ''sent 12#45!''])])
     = PDict [(''error'', PList [PStr ''sent [redacted]!''])]
   \<and> \<not> sublist ''12#45'' ''sent [redacted]!''"
proof -
  have eq: "scrub [''12#45''] (PDict [(''error'', PList [PStr ''sent 12#45!''])])
     = PDict [(''error'', PList [PStr ''sent [redacted]!''])]" by code_simp
  have mem: "''sent [redacted]!'' \<in> set (strings_within 10 (scrub [''12#45''] (PDict [(''error'', PList [PStr ''sent 12#45!''])])))"
    unfolding eq by simp
  have "\<not> sublist ''12#45'' ''sent [redacted]!''"
    by (rule scrub_masks_secrets [OF _ mem]) simp_all
  with eq show ?thesis by blast
qed

end
