(* ===== verification/Event_Log.thy ===== *)
theory Event_Log
  imports Redaction
begin

text \<open>
  \<^verbatim>\<open>server/bbz_core/infra/event_log.py\<close> (append, head, paged read of the domain-event log) and the catch-up loop of
  \<^verbatim>\<open>infra/event_stream.py\<close> (\<^verbatim>\<open>event_feed\<close>). The log is the list of visible (committed) rows with the next identity
  value. The JSON-Schema validators are parameters. The feed runs between the commits of other sessions, so it is
  a step relation: a commit may fall between any two of its statements.
\<close>

section \<open>The log\<close>

record domain_event =
  de_seq :: nat
  de_aggregate_type :: string
  de_aggregate_id :: string
  de_event_type :: string
  de_occurred :: instant
  de_occurred_local :: "string option"
  de_node :: string
  de_user :: "uuid option"
  de_client :: "string option"
  de_command :: "uuid option"
  de_correlation :: "string option"
  de_schema_version :: nat
  de_payload :: pydict

record event_log =
  el_rows :: "domain_event list"
  el_next_seq :: nat

datatype event_log_error =
    EventNotInTransaction
  | EnvelopeInvalid "string list"
  | UnknownEventType string nat
  | PayloadInvalid string "string list"

record event_request =
  er_aggregate_type :: string
  er_aggregate_id :: string
  er_event_type :: string
  er_payload :: pydict
  er_schema_version :: nat
  er_user :: "uuid option"
  er_client :: "string option"
  er_command :: "uuid option"
  er_local :: "string option"

record event_env =
  ee_node :: string
  ee_correlation :: "string option"
  ee_now :: instant
  ee_secrets :: "string list"
  ee_in_transaction :: bool

record validators =
  envelope_errors :: "domain_event \<Rightarrow> string list"
  payload_errors :: "string \<Rightarrow> nat \<Rightarrow> (pydict \<Rightarrow> string list) option"

text \<open>The row is flushed before it is validated: on a validation error it is in the session, and gone only if
  the caller rolls back.\<close>

definition append_event ::
  "validators \<Rightarrow> event_env \<Rightarrow> event_request \<Rightarrow> event_log \<Rightarrow> (event_log_error, nat) res \<times> event_log" where
  "append_event val env rq elog =
     (if \<not> ee_in_transaction env then (Inl EventNotInTransaction, elog)
      else (let row = \<lparr>de_seq = el_next_seq elog, de_aggregate_type = er_aggregate_type rq,
                  de_aggregate_id = er_aggregate_id rq, de_event_type = er_event_type rq,
                  de_occurred = ee_now env, de_occurred_local = er_local rq, de_node = ee_node env,
                  de_user = er_user rq, de_client = er_client rq, de_command = er_command rq,
                  de_correlation = ee_correlation env, de_schema_version = er_schema_version rq,
                  de_payload = scrub_dict (ee_secrets env) (er_payload rq)\<rparr>;
                elog' = \<lparr>el_rows = el_rows elog @ [row], el_next_seq = Suc (el_next_seq elog)\<rparr>
            in if envelope_errors val row \<noteq> [] then (Inl (EnvelopeInvalid (sort (envelope_errors val row))), elog')
               else (case payload_errors val (de_event_type row) (de_schema_version row) of
                       None \<Rightarrow> (Inl (UnknownEventType (de_event_type row) (de_schema_version row)), elog')
                     | Some check \<Rightarrow>
                         if check (de_payload row) \<noteq> []
                         then (Inl (PayloadInvalid (de_event_type row) (sort (check (de_payload row)))), elog')
                         else (Inr (de_seq row), elog'))))"

definition head_seq :: "domain_event list \<Rightarrow> nat" where
  "head_seq rows = foldr (\<lambda>r m. max (de_seq r) m) rows 0"

definition read_since :: "domain_event list \<Rightarrow> nat \<Rightarrow> nat \<Rightarrow> domain_event list" where
  "read_since rows after limit = take limit (sort_key de_seq (filter (\<lambda>r. after < de_seq r) rows))"

section \<open>The feed\<close>

datatype feed_frame = EventFrame domain_event | CatchUpComplete nat | Heartbeat

definition CATCHUP_BATCH :: nat where
  "CATCHUP_BATCH = 500"

record feed =
  fd_log :: "domain_event list"      \<comment> \<open>the rows visible to a new statement\<close>
  fd_last :: nat
  fd_caught_up :: bool
  fd_window :: bool                  \<comment> \<open>an empty read is done, the head is not yet read\<close>
  fd_frames :: "feed_frame list"

definition feed_start :: "domain_event list \<Rightarrow> nat \<Rightarrow> feed" where
  "feed_start rows after = \<lparr>fd_log = rows, fd_last = after, fd_caught_up = False, fd_window = False, fd_frames = []\<rparr>"

definition feed_poll :: "feed \<Rightarrow> feed" where
  "feed_poll s =
     (let rows = read_since (fd_log s) (fd_last s) CATCHUP_BATCH in
      if rows \<noteq> [] then s\<lparr>fd_last := de_seq (last rows), fd_frames := fd_frames s @ map EventFrame rows\<rparr>
      else if \<not> fd_caught_up s then s\<lparr>fd_window := True\<rparr>
      else s\<lparr>fd_frames := fd_frames s @ [Heartbeat]\<rparr>)"

definition feed_head :: "feed \<Rightarrow> feed" where
  "feed_head s =
     (let l = max (fd_last s) (head_seq (fd_log s)) in
      s\<lparr>fd_last := l, fd_caught_up := True, fd_window := False,
        fd_frames := fd_frames s @ [CatchUpComplete l, Heartbeat]\<rparr>)"

text \<open>One step of the feed or of another session, which may commit a row where \<open>may_commit\<close> allows it.\<close>

inductive feed_step :: "(feed \<Rightarrow> domain_event \<Rightarrow> bool) \<Rightarrow> feed \<Rightarrow> feed \<Rightarrow> bool" for may_commit where
  poll: "\<not> fd_window s \<Longrightarrow> feed_step may_commit s (feed_poll s)"
| head: "fd_window s \<Longrightarrow> feed_step may_commit s (feed_head s)"
| commit: "may_commit s r \<Longrightarrow> de_seq r \<notin> de_seq ` set (fd_log s) \<Longrightarrow> feed_step may_commit s (s\<lparr>fd_log := fd_log s @ [r]\<rparr>)"

inductive_cases feed_stepE: "feed_step may_commit s t"

definition events_of :: "feed_frame list \<Rightarrow> domain_event list" where
  "events_of fs = concat (map (\<lambda>f. case f of EventFrame r \<Rightarrow> [r] | _ \<Rightarrow> []) fs)"

definition delivered :: "feed \<Rightarrow> domain_event list" where
  "delivered s = events_of (fd_frames s)"

section \<open>Reading pages\<close>

lemma head_seq_ge: "r \<in> set rows \<Longrightarrow> de_seq r \<le> head_seq rows"
  by (induction rows) (auto simp: head_seq_def)

lemma head_seq_mem: "rows \<noteq> [] \<Longrightarrow> \<exists>r\<in>set rows. de_seq r = head_seq rows"
proof (induction rows)
  case (Cons r rows)
  then show ?case
    by (cases "rows = []") (auto simp: head_seq_def max_def)
qed simp

lemma sorted_last: "sorted (map f ys) \<Longrightarrow> x \<in> set ys \<Longrightarrow> f x \<le> (f (last ys) :: nat)"
  by (induction ys) auto

lemma sorted_distinct_take_last:
  assumes "sorted (map f xs)" "distinct (map f xs)" "take n xs \<noteq> []"
  shows "set (take n xs) = {x \<in> set xs. f x \<le> (f (last (take n xs)) :: nat)}"
proof -
  let ?l = "last (take n xs)"
  have sp: "sorted (map f (take n xs @ drop n xs))" "distinct (map f (take n xs @ drop n xs))"
    using assms(1,2) by simp_all
  have l: "?l \<in> set (take n xs)" using assms(3) by simp
  have "sorted (map f (take n xs))" using sp(1) unfolding map_append sorted_append by blast
  from sorted_last [OF this] have "\<forall>x\<in>set (take n xs). f x \<le> f ?l" by simp
  moreover have "\<forall>x\<in>set (drop n xs). f ?l < f x"
  proof
    fix x assume x: "x \<in> set (drop n xs)"
    have "f ?l \<in> set (map f (take n xs))" "f x \<in> set (map f (drop n xs))" using l x by (simp_all only: set_map imageI)
    moreover have "\<forall>a\<in>set (map f (take n xs)). \<forall>b\<in>set (map f (drop n xs)). a \<le> b"
      "set (map f (take n xs)) \<inter> set (map f (drop n xs)) = {}"
      using sp unfolding map_append sorted_append distinct_append by blast+
    ultimately show "f ?l < f x" by (metis IntI empty_iff order_le_less)
  qed
  moreover have "set xs = set (take n xs) \<union> set (drop n xs)"
    by (metis append_take_drop_id set_append)
  ultimately have "x \<in> set (take n xs) \<longleftrightarrow> x \<in> set xs \<and> f x \<le> f ?l" for x
    by (metis Un_iff not_le)
  then show ?thesis by blast
qed

lemma read_since_page:
  assumes "distinct (map de_seq rows)" "read_since rows after n \<noteq> []"
  shows "set (read_since rows after n) =
      {r \<in> set rows. after < de_seq r \<and> de_seq r \<le> de_seq (last (read_since rows after n))}"
    and "sorted_wrt (<) (map de_seq (read_since rows after n))"
proof -
  let ?xs = "sort_key de_seq (filter (\<lambda>r. after < de_seq r) rows)"
  have d: "distinct (map de_seq ?xs)"
    using assms(1) by (simp add: distinct_map inj_on_def)
  have "set (take n ?xs) = {r \<in> set ?xs. de_seq r \<le> de_seq (last (take n ?xs))}"
    using sorted_distinct_take_last [OF _ d, of n] assms(2) by (simp add: read_since_def)
  then show "set (read_since rows after n) =
      {r \<in> set rows. after < de_seq r \<and> de_seq r \<le> de_seq (last (read_since rows after n))}"
    by (auto simp: read_since_def)
  have "sorted_wrt (<) (map de_seq ?xs)"
    using d by (simp add: strict_sorted_iff)
  then show "sorted_wrt (<) (map de_seq (read_since rows after n))"
    by (metis sorted_wrt_take take_map read_since_def)
qed

lemma read_since_empty:
  "0 < n \<Longrightarrow> read_since rows after n = [] \<longleftrightarrow> (\<forall>r\<in>set rows. de_seq r \<le> after)"
  by (auto simp: read_since_def filter_empty_conv not_less)

section \<open>The invariant of a feed\<close>

text \<open>Commits in the order of their numbers, and none between the empty read and the reading of the head.\<close>

definition in_order :: "feed \<Rightarrow> domain_event \<Rightarrow> bool" where
  "in_order s r = ((\<forall>x\<in>set (fd_log s). de_seq x < de_seq r) \<and> \<not> fd_window s)"

definition feed_inv :: "nat \<Rightarrow> feed \<Rightarrow> bool" where
  "feed_inv after s \<longleftrightarrow>
     distinct (map de_seq (fd_log s)) \<and> after \<le> fd_last s \<and> fd_last s \<le> max after (head_seq (fd_log s))
     \<and> sorted_wrt (<) (map de_seq (delivered s))
     \<and> set (delivered s) = {r \<in> set (fd_log s). after < de_seq r \<and> de_seq r \<le> fd_last s}
     \<and> (fd_window s \<longrightarrow> (\<forall>r\<in>set (fd_log s). de_seq r \<le> fd_last s))
     \<and> (\<forall>h. CatchUpComplete h \<in> set (fd_frames s) \<longrightarrow> h \<le> fd_last s)"

lemma events_of_simps [simp]:
  "events_of [] = []"
  "events_of (fs @ gs) = events_of fs @ events_of gs"
  "events_of (map EventFrame rows) = rows"
  "events_of [CatchUpComplete h, Heartbeat] = []"
  "events_of [Heartbeat] = []"
  by (simp_all add: events_of_def comp_def)

lemma feed_poll_inv:
  assumes inv: "feed_inv after s"
  shows "feed_inv after (feed_poll s)"
proof -
  let ?rows = "read_since (fd_log s) (fd_last s) CATCHUP_BATCH"
  show ?thesis
  proof (cases "?rows = []")
    case True
    then have "\<forall>r\<in>set (fd_log s). de_seq r \<le> fd_last s"
      using read_since_empty [of CATCHUP_BATCH] by (simp add: CATCHUP_BATCH_def)
    then show ?thesis using inv True by (auto simp: feed_poll_def feed_inv_def delivered_def)
  next
    case False
    have d: "distinct (map de_seq (fd_log s))" using inv by (simp add: feed_inv_def)
    note page = read_since_page [OF d False]
    have l: "last ?rows \<in> set ?rows" using False by simp
    then have l': "last ?rows \<in> set (fd_log s)" "fd_last s < de_seq (last ?rows)" using page(1) by auto
    have "\<forall>x\<in>set (delivered s). \<forall>y\<in>set ?rows. de_seq x < de_seq y"
      using inv page(1) by (auto simp: feed_inv_def)
    then have "sorted_wrt (<) (map de_seq (delivered s @ ?rows))"
      using inv page(2) by (auto simp: feed_inv_def sorted_wrt_append)
    moreover have "set (delivered s @ ?rows) =
        {r \<in> set (fd_log s). after < de_seq r \<and> de_seq r \<le> de_seq (last ?rows)}"
      using inv page(1) l'(2) by (auto simp: feed_inv_def)
    moreover have "de_seq (last ?rows) \<le> head_seq (fd_log s)" using l'(1) by (rule head_seq_ge)
    ultimately show ?thesis
      using inv False l' by (auto simp: feed_poll_def feed_inv_def delivered_def Let_def)
  qed
qed

lemma feed_head_inv:
  assumes inv: "feed_inv after s" and w: "fd_window s"
  shows "feed_inv after (feed_head s)"
proof -
  have "head_seq (fd_log s) \<le> fd_last s"
  proof (cases "fd_log s = []")
    case True
    then show ?thesis by (simp add: head_seq_def)
  next
    case False
    then show ?thesis using head_seq_mem [OF False] inv w by (auto simp: feed_inv_def)
  qed
  then have "max (fd_last s) (head_seq (fd_log s)) = fd_last s" by simp
  then show ?thesis using inv by (auto simp: feed_head_def feed_inv_def delivered_def)
qed

lemma feed_commit_inv:
  assumes inv: "feed_inv after s" and ok: "in_order s r"
  shows "feed_inv after (s\<lparr>fd_log := fd_log s @ [r]\<rparr>)"
proof -
  have "head_seq (fd_log s) < de_seq r \<or> fd_log s = []"
    using head_seq_mem [of "fd_log s"] ok unfolding in_order_def by metis
  then have new: "de_seq r \<le> after \<or> fd_last s < de_seq r"
    using inv by (auto simp: feed_inv_def head_seq_def)
  have "head_seq (fd_log s) \<le> head_seq (fd_log s @ [r])"
  proof (cases "fd_log s = []")
    case False
    then obtain x where "x \<in> set (fd_log s)" "de_seq x = head_seq (fd_log s)" using head_seq_mem by blast
    then show ?thesis using head_seq_ge [of x "fd_log s @ [r]"] by simp
  qed (simp add: head_seq_def)
  then show ?thesis using inv ok new by (auto simp: feed_inv_def in_order_def delivered_def)
qed

lemma feed_inv_steps:
  assumes "(feed_step in_order)\<^sup>*\<^sup>* s t" "feed_inv after s"
  shows "feed_inv after t"
  using assms
proof (induction rule: rtranclp_induct)
  case (step t u)
  from step.hyps(2) show ?case
    using step feed_poll_inv feed_head_inv feed_commit_inv by (auto elim!: feed_stepE)
qed

lemma feed_start_inv: "distinct (map de_seq rows) \<Longrightarrow> feed_inv after (feed_start rows after)"
  by (auto simp: feed_inv_def feed_start_def delivered_def)

text \<open>A row below the cursor that was not delivered never will be.\<close>

definition missed :: "domain_event \<Rightarrow> feed \<Rightarrow> bool" where
  "missed r s = (de_seq r \<le> fd_last s \<and> r \<notin> set (delivered s))"

lemma missed_forever:
  assumes "(feed_step may_commit)\<^sup>*\<^sup>* s t" "missed r s"
  shows "missed r t"
  using assms
proof (induction rule: rtranclp_induct)
  case (step t u)
  have m: "missed r t" using step by blast
  let ?rows = "read_since (fd_log t) (fd_last t) CATCHUP_BATCH"
  have rows: "\<forall>x\<in>set ?rows. fd_last t < de_seq x"
    by (auto simp: read_since_def dest!: in_set_takeD)
  then have lst: "?rows \<noteq> [] \<Longrightarrow> fd_last t < de_seq (last ?rows)" by simp
  have "missed r (feed_poll t)"
  proof (cases "?rows = []")
    case True
    then show ?thesis using m by (simp add: missed_def feed_poll_def delivered_def)
  next
    case False
    with lst m have "de_seq r \<le> de_seq (last ?rows)" by (simp add: missed_def)
    moreover have "r \<notin> set ?rows" using rows m by (auto simp: missed_def)
    ultimately show ?thesis using m False by (simp add: missed_def feed_poll_def delivered_def Let_def)
  qed
  with m step.hyps(2) show ?case
    by (auto elim!: feed_stepE simp: missed_def feed_head_def delivered_def Let_def)
qed

section \<open>Properties\<close>

text \<open>
  C17. If other sessions commit domain events in the order of their sequence numbers and none of them between the
  feed's empty read and its reading of the head, a subscriber gets every event after its \<^verbatim>\<open>after_seq\<close> up to the
  cursor exactly once and in order, and \<^verbatim>\<open>CatchUpComplete(h)\<close> means that it has everything up to \<open>h\<close>.
\<close>

theorem feed_complete_in_order:
  assumes "(feed_step in_order)\<^sup>*\<^sup>* (feed_start rows after) s" "distinct (map de_seq rows)"
  shows "sorted_wrt (<) (map de_seq (delivered s))
    \<and> set (delivered s) = {r \<in> set (fd_log s). after < de_seq r \<and> de_seq r \<le> fd_last s}
    \<and> (\<forall>h r. CatchUpComplete h \<in> set (fd_frames s) \<and> r \<in> set (fd_log s) \<and> after < de_seq r \<and> de_seq r \<le> h
         \<longrightarrow> r \<in> set (delivered s))"
  using feed_inv_steps [OF assms(1) feed_start_inv [OF assms(2)]] by (fastforce simp: feed_inv_def)

text \<open>
  The feed can lose an event: if a commit falls between the empty read and the reading of the head, the cursor
  jumps over it. The subscriber is told that it is caught up through that event, which is in the log, and no later
  step of any kind delivers it.
\<close>

theorem feed_loses_event:
  assumes "de_seq r = 1"
  shows "\<exists>s. (feed_step (\<lambda>_ _. True))\<^sup>*\<^sup>* (feed_start [] 0) s \<and> CatchUpComplete 1 \<in> set (fd_frames s) \<and> r \<in> set (fd_log s)
    \<and> (\<forall>t. (feed_step (\<lambda>_ _. True))\<^sup>*\<^sup>* s t \<longrightarrow> r \<notin> set (delivered t))"
proof -
  let ?s0 = "feed_start [] 0"
  let ?s1 = "feed_poll ?s0"
  let ?s2 = "?s1\<lparr>fd_log := fd_log ?s1 @ [r]\<rparr>"
  let ?s3 = "feed_head ?s2"
  have s1: "?s1 = ?s0\<lparr>fd_window := True\<rparr>"
    by (simp add: feed_poll_def feed_start_def read_since_def)
  have "feed_step (\<lambda>_ _. True) ?s0 ?s1" by (rule feed_step.poll) (simp add: feed_start_def)
  moreover have "feed_step (\<lambda>_ _. True) ?s1 ?s2"
    by (rule feed_step.commit) (simp_all only: s1, simp_all add: feed_start_def)
  moreover have "feed_step (\<lambda>_ _. True) ?s2 ?s3"
    by (rule feed_step.head) (simp only: s1, simp)
  ultimately have reach: "(feed_step (\<lambda>_ _. True))\<^sup>*\<^sup>* ?s0 ?s3" 
    by (meson converse_rtranclp_into_rtranclp rtranclp.rtrancl_refl)
  have "missed r ?s3"
    unfolding s1 using assms by (simp add: missed_def feed_head_def feed_start_def delivered_def head_seq_def)
  then have "\<forall>t. (feed_step (\<lambda>_ _. True))\<^sup>*\<^sup>* ?s3 t \<longrightarrow> r \<notin> set (delivered t)"
    using missed_forever unfolding missed_def by blast
  moreover have "CatchUpComplete 1 \<in> set (fd_frames ?s3)" "r \<in> set (fd_log ?s3)"
    unfolding s1 using assms by (simp_all add: feed_head_def feed_start_def head_seq_def)
  ultimately show ?thesis using reach by blast
qed


definition sample_event :: "nat \<Rightarrow> domain_event" where
  "sample_event n = \<lparr>de_seq = n, de_aggregate_type = ''event'', de_aggregate_id = ''1'', de_event_type = ''EVENT_CREATED'',
     de_occurred = 0, de_occurred_local = None, de_node = ''a'', de_user = None, de_client = None, de_command = None,
     de_correlation = None, de_schema_version = 1, de_payload = []\<rparr>"

theorem feed_complete_in_order_witness:
  "set (delivered (feed_poll (feed_start [sample_event 2, sample_event 1] 1))) = {sample_event 2}"
proof -
  let ?s = "feed_start [sample_event 2, sample_event 1] 1"
  have "(feed_step in_order)\<^sup>*\<^sup>* ?s (feed_poll ?s)"
    by (rule r_into_rtranclp, rule feed_step.poll) (simp add: feed_start_def)
  from feed_complete_in_order [OF this]
  have "set (delivered (feed_poll ?s)) = {r \<in> set (fd_log (feed_poll ?s)). 1 < de_seq r \<and> de_seq r \<le> fd_last (feed_poll ?s)}"
    by (simp add: sample_event_def)
  moreover have "fd_log (feed_poll ?s) = [sample_event 2, sample_event 1]" "fd_last (feed_poll ?s) = 2"
    by code_simp+
  moreover have "de_seq (sample_event n) = n" for n by (simp add: sample_event_def)
  ultimately show ?thesis by auto
qed

theorem feed_loses_event_witness:
  "\<exists>s. (feed_step (\<lambda>_ _. True))\<^sup>*\<^sup>* (feed_start [] 0) s \<and> CatchUpComplete 1 \<in> set (fd_frames s) \<and> sample_event 1 \<in> set (fd_log s)
    \<and> sample_event 1 \<notin> set (delivered s)"
  using feed_loses_event [of "sample_event 1"] by (auto simp: sample_event_def)

end
