(* ===== verification/Events.thy ===== *)
theory Events
  imports Event_Log
begin

text \<open>
  \<^verbatim>\<open>server/bbz_core/domain/events/state.py\<close> and \<^verbatim>\<open>aggregate.py\<close> (the event state machine) and
  \<^verbatim>\<open>infra/repositories/events.py\<close> (load and save under the optimistic version guard). A method of the aggregate mutates the
  object in place, so it returns its outcome together with the object as it leaves it, also when it raises. The text of a UUID
  is the parameter \<open>us\<close>.
\<close>

section \<open>Status and priority\<close>

datatype event_priority = Critical | High | Medium | Low

datatype event_status = New | Accepted | Acknowledged | Opened | Archived

fun priority_value :: "event_priority \<Rightarrow> string" where
  "priority_value Critical = ''critical''"
| "priority_value High = ''high''"
| "priority_value Medium = ''medium''"
| "priority_value Low = ''low''"

fun status_value :: "event_status \<Rightarrow> string" where
  "status_value New = ''new''"
| "status_value Accepted = ''accepted''"
| "status_value Acknowledged = ''acknowledged''"
| "status_value Opened = ''opened''"
| "status_value Archived = ''archived''"

fun ALLOWED_TRANSITIONS :: "event_status \<Rightarrow> event_status list" where
  "ALLOWED_TRANSITIONS New = [Accepted]"
| "ALLOWED_TRANSITIONS Accepted = [Acknowledged]"
| "ALLOWED_TRANSITIONS Acknowledged = [Opened]"
| "ALLOWED_TRANSITIONS Opened = [Archived]"
| "ALLOWED_TRANSITIONS Archived = [Opened]"

definition can_transition :: "event_status \<Rightarrow> event_status \<Rightarrow> bool" where
  "can_transition src dst = (dst \<in> set (ALLOWED_TRANSITIONS src))"

section \<open>The aggregate\<close>

record event_data =
  ev_type :: string
  ev_payload :: pydict

record event_agg =
  ag_id :: uuid
  ag_title :: string
  ag_priority :: event_priority
  ag_status :: event_status
  ag_description :: "string option"
  ag_bbz :: "uuid option"
  ag_workplace :: "uuid option"
  ag_source :: string
  ag_assignee :: "uuid option"
  ag_version :: nat
  ag_pending :: "event_data list"

datatype event_error =
    TitleEmpty | TitleTooLong | DescriptionTooLong
  | InvalidTransition | NothingChanged | ReasonRequired | AlreadyAssigned | NoOwner | AlreadyOwned

definition MAX_TITLE :: nat where "MAX_TITLE = 300"
definition MAX_DESCRIPTION :: nat where "MAX_DESCRIPTION = 20000"

definition clean_title :: "string \<Rightarrow> (event_error, string) res" where
  "clean_title t =
     (let c = py_strip t in
      if c = [] then Inl TitleEmpty else if MAX_TITLE < length c then Inl TitleTooLong else Inr c)"

definition clean_description :: "string option \<Rightarrow> (event_error, string option) res" where
  "clean_description d =
     (case d of
        None \<Rightarrow> Inr None
      | Some t \<Rightarrow>
          (let c = py_strip t in
           if c = [] then Inr None else if MAX_DESCRIPTION < length c then Inl DescriptionTooLong else Inr (Some c)))"

definition uuid_or_none :: "(uuid \<Rightarrow> string) \<Rightarrow> uuid option \<Rightarrow> pyval" where
  "uuid_or_none us u = (case u of None \<Rightarrow> PNone | Some i \<Rightarrow> PStr (us i))"

definition str_or_none :: "string option \<Rightarrow> pyval" where
  "str_or_none s = (case s of None \<Rightarrow> PNone | Some t \<Rightarrow> PStr t)"

definition emit :: "string \<Rightarrow> pydict \<Rightarrow> event_agg \<Rightarrow> event_agg" where
  "emit ty payload a = a\<lparr>ag_pending := ag_pending a @ [\<lparr>ev_type = ty, ev_payload = payload\<rparr>]\<rparr>"

record create_args =
  ca_id :: uuid
  ca_title :: string
  ca_priority :: event_priority
  ca_actor :: "uuid option"
  ca_description :: "string option"
  ca_bbz :: "uuid option"
  ca_workplace :: "uuid option"
  ca_source :: string

definition create_event :: "(uuid \<Rightarrow> string) \<Rightarrow> create_args \<Rightarrow> (event_error, event_agg) res" where
  "create_event us c =
     bind_res (clean_title (ca_title c)) (\<lambda>title.
     bind_res (clean_description (ca_description c)) (\<lambda>desc.
       Inr (emit ''EVENT_CREATED''
         [(''title'', PStr title), (''description'', str_or_none desc), (''priority'', PStr (priority_value (ca_priority c))),
          (''bbz_id'', uuid_or_none us (ca_bbz c)), (''workplace_id'', uuid_or_none us (ca_workplace c)),
          (''source'', PStr (ca_source c)), (''actor_id'', uuid_or_none us (ca_actor c))]
         \<lparr>ag_id = ca_id c, ag_title = title, ag_priority = ca_priority c, ag_status = New, ag_description = desc,
           ag_bbz = ca_bbz c, ag_workplace = ca_workplace c, ag_source = ca_source c, ag_assignee = None,
           ag_version = 1, ag_pending = []\<rparr>)))"

text \<open>A method call: its outcome and the object after it.\<close>

type_synonym agg_call = "event_agg \<Rightarrow> (event_error, unit) res \<times> event_agg"

definition transition ::
  "(uuid \<Rightarrow> string) \<Rightarrow> event_status \<Rightarrow> string \<Rightarrow> uuid \<Rightarrow> pydict \<Rightarrow> agg_call" where
  "transition us target ty actor extra a =
     (if \<not> can_transition (ag_status a) target then (Inl InvalidTransition, a)
      else (Inr (), emit ty
        ([(''from'', PStr (status_value (ag_status a))), (''to'', PStr (status_value target)), (''actor_id'', PStr (us actor))] @ extra)
        (a\<lparr>ag_status := target\<rparr>)))"

definition change :: "string \<Rightarrow> pyval \<Rightarrow> pyval \<Rightarrow> pydict" where
  "change k old new = [(k, PDict [(''from'', old), (''to'', new)])]"

text \<open>\<^verbatim>\<open>update\<close>: the three fields one after the other, each assigned as soon as it is checked.\<close>

definition update_title :: "string option \<Rightarrow> event_agg \<times> pydict \<Rightarrow> (event_error, event_agg \<times> pydict) res" where
  "update_title t st =
     (case t of
        None \<Rightarrow> Inr st
      | Some raw \<Rightarrow> bind_res (clean_title raw) (\<lambda>new.
          (case st of (a, ch) \<Rightarrow>
             if new = ag_title a then Inr st
             else Inr (a\<lparr>ag_title := new\<rparr>, ch @ change ''title'' (PStr (ag_title a)) (PStr new)))))"

definition update_description ::
  "string option option \<Rightarrow> event_agg \<times> pydict \<Rightarrow> (event_error, event_agg \<times> pydict) res" where
  "update_description d st =
     (case d of
        None \<Rightarrow> Inr st
      | Some raw \<Rightarrow> bind_res (clean_description raw) (\<lambda>new.
          (case st of (a, ch) \<Rightarrow>
             if new = ag_description a then Inr st
             else Inr (a\<lparr>ag_description := new\<rparr>,
               ch @ change ''description'' (str_or_none (ag_description a)) (str_or_none new)))))"

definition update_priority :: "event_priority option \<Rightarrow> event_agg \<times> pydict \<Rightarrow> event_agg \<times> pydict" where
  "update_priority p st =
     (case (p, st) of
        (Some new, (a, ch)) \<Rightarrow>
          if new = ag_priority a then st
          else (a\<lparr>ag_priority := new\<rparr>,
            ch @ change ''priority'' (PStr (priority_value (ag_priority a))) (PStr (priority_value new)))
      | (None, _) \<Rightarrow> st)"

definition update_event ::
  "(uuid \<Rightarrow> string) \<Rightarrow> uuid \<Rightarrow> string option \<Rightarrow> string option option \<Rightarrow> event_priority option \<Rightarrow> agg_call" where
  "update_event us actor title desc prio a =
     (if ag_status a = Archived then (Inl InvalidTransition, a)
      else (case update_title title (a, []) of
              Inl e \<Rightarrow> (Inl e, a)
            | Inr (a1, ch1) \<Rightarrow>
                (case update_description desc (a1, ch1) of
                   Inl e \<Rightarrow> (Inl e, a1)
                 | Inr (a2, ch2) \<Rightarrow>
                     (case update_priority prio (a2, ch2) of
                        (a3, ch3) \<Rightarrow>
                          if ch3 = [] then (Inl NothingChanged, a3)
                          else (Inr (), emit ''EVENT_UPDATED'' [(''changes'', PDict ch3), (''actor_id'', PStr (us actor))] a3)))))"

definition accept :: "(uuid \<Rightarrow> string) \<Rightarrow> uuid \<Rightarrow> agg_call" where
  "accept us actor = transition us Accepted ''EVENT_ACCEPTED'' actor []"

definition acknowledge :: "(uuid \<Rightarrow> string) \<Rightarrow> uuid \<Rightarrow> agg_call" where
  "acknowledge us actor = transition us Acknowledged ''EVENT_ACKNOWLEDGED'' actor []"

definition open_event :: "(uuid \<Rightarrow> string) \<Rightarrow> uuid \<Rightarrow> agg_call" where
  "open_event us actor a =
     (if ag_status a \<noteq> Acknowledged then (Inl InvalidTransition, a) else transition us Opened ''EVENT_OPENED'' actor [] a)"

definition archive :: "(uuid \<Rightarrow> string) \<Rightarrow> uuid \<Rightarrow> string option \<Rightarrow> agg_call" where
  "archive us actor reason =
     (let c = py_strip (case reason of None \<Rightarrow> [] | Some t \<Rightarrow> t) in
      transition us Archived ''EVENT_ARCHIVED'' actor (if c = [] then [] else [(''reason'', PStr c)]))"

definition reactivate :: "(uuid \<Rightarrow> string) \<Rightarrow> uuid \<Rightarrow> string \<Rightarrow> agg_call" where
  "reactivate us actor reason a =
     (if ag_status a \<noteq> Archived then (Inl InvalidTransition, a)
      else (let c = py_strip reason in
        if c = [] then (Inl ReasonRequired, a)
        else transition us Opened ''EVENT_REACTIVATED'' actor [(''reason'', PStr c)] a))"

definition ownership_payload :: "(uuid \<Rightarrow> string) \<Rightarrow> uuid option \<Rightarrow> uuid \<Rightarrow> uuid \<Rightarrow> pydict" where
  "ownership_payload us prev to_user actor =
     [(''from_user_id'', uuid_or_none us prev), (''to_user_id'', PStr (us to_user)), (''actor_id'', PStr (us actor))]"

definition assign :: "(uuid \<Rightarrow> string) \<Rightarrow> uuid \<Rightarrow> uuid \<Rightarrow> agg_call" where
  "assign us to_user actor a =
     (if ag_status a = Archived then (Inl InvalidTransition, a)
      else if ag_assignee a = Some to_user then (Inl AlreadyAssigned, a)
      else (Inr (), emit ''EVENT_ASSIGNED'' (ownership_payload us (ag_assignee a) to_user actor) (a\<lparr>ag_assignee := Some to_user\<rparr>)))"

definition take_over :: "(uuid \<Rightarrow> string) \<Rightarrow> uuid \<Rightarrow> uuid \<Rightarrow> agg_call" where
  "take_over us new_user actor a =
     (if ag_status a = Archived then (Inl InvalidTransition, a)
      else if ag_assignee a = None then (Inl NoOwner, a)
      else if ag_assignee a = Some new_user then (Inl AlreadyOwned, a)
      else (Inr (), emit ''EVENT_TAKEN_OVER'' (ownership_payload us (ag_assignee a) new_user actor) (a\<lparr>ag_assignee := Some new_user\<rparr>)))"

definition collect_events :: "event_agg \<Rightarrow> event_data list \<times> event_agg" where
  "collect_events a = (ag_pending a, a\<lparr>ag_pending := []\<rparr>)"

datatype event_command =
    Update "string option" "string option option" "event_priority option"
  | Accept | Acknowledge | Open | Archive "string option" | Reactivate string
  | Assign uuid | TakeOver uuid

fun exec_command :: "(uuid \<Rightarrow> string) \<Rightarrow> uuid \<Rightarrow> event_command \<Rightarrow> agg_call" where
  "exec_command us actor (Update t d p) = update_event us actor t d p"
| "exec_command us actor Accept = accept us actor"
| "exec_command us actor Acknowledge = acknowledge us actor"
| "exec_command us actor Open = open_event us actor"
| "exec_command us actor (Archive r) = archive us actor r"
| "exec_command us actor (Reactivate r) = reactivate us actor r"
| "exec_command us actor (Assign u) = assign us u actor"
| "exec_command us actor (TakeOver u) = take_over us u actor"

section \<open>The repository\<close>

record event_row =
  ew_id :: uuid
  ew_title :: string
  ew_description :: "string option"
  ew_priority :: event_priority
  ew_status :: event_status
  ew_bbz :: "uuid option"
  ew_workplace :: "uuid option"
  ew_source :: string
  ew_version :: nat

record history_row =
  hi_event :: uuid
  hi_from :: "string option"
  hi_to :: string
  hi_at :: instant
  hi_by :: "uuid option"
  hi_correlation :: "string option"

record assignment_row =
  as_event :: uuid
  as_user :: uuid
  as_at :: instant
  as_by :: "uuid option"
  as_active :: bool

record event_db =
  eb_events :: "event_row list"
  eb_history :: "history_row list"
  eb_assignments :: "assignment_row list"
  eb_log :: event_log

datatype repo_error =
    VersionConflict uuid nat | EventNotFound uuid | NotInTransaction | LogError event_log_error | CommandError event_error
  | AssigneeMissing | ManyActiveAssignments | DuplicateEventId uuid

definition event_get :: "uuid \<Rightarrow> event_db \<Rightarrow> (repo_error, event_agg option) res" where
  "event_get e db =
     (case find_first (\<lambda>r. ew_id r = e) (eb_events db) of
        None \<Rightarrow> Inr None
      | Some r \<Rightarrow>
          (case filter (\<lambda>s. as_event s = e \<and> as_active s) (eb_assignments db) of
             s # s' # ss \<Rightarrow> Inl ManyActiveAssignments
           | ss \<Rightarrow> Inr (Some \<lparr>ag_id = ew_id r, ag_title = ew_title r, ag_priority = ew_priority r, ag_status = ew_status r,
               ag_description = ew_description r, ag_bbz = ew_bbz r, ag_workplace = ew_workplace r, ag_source = ''manual'',
               ag_assignee = (case ss of [] \<Rightarrow> None | s # _ \<Rightarrow> Some (as_user s)), ag_version = ew_version r, ag_pending = []\<rparr>)))"

definition event_require :: "uuid \<Rightarrow> event_db \<Rightarrow> (repo_error, event_agg) res" where
  "event_require e db =
     bind_res (event_get e db) (\<lambda>a. case a of None \<Rightarrow> Inl (EventNotFound e) | Some agg \<Rightarrow> Inr agg)"

definition log_request :: "(uuid \<Rightarrow> string) \<Rightarrow> uuid \<Rightarrow> uuid option \<Rightarrow> uuid option \<Rightarrow> event_data \<Rightarrow> event_request" where
  "log_request us e actor command ev =
     \<lparr>er_aggregate_type = ''event'', er_aggregate_id = us e, er_event_type = ev_type ev, er_payload = ev_payload ev,
       er_schema_version = 1, er_user = actor, er_client = None, er_command = command, er_local = None\<rparr>"

record repo_env =
  re_validators :: validators
  re_env :: event_env
  re_uuid :: "uuid \<Rightarrow> string"

definition append_one ::
  "repo_env \<Rightarrow> uuid \<Rightarrow> uuid option \<Rightarrow> uuid option \<Rightarrow> event_data \<Rightarrow> event_db \<Rightarrow> (repo_error, event_db) res" where
  "append_one env e actor command ev db =
     (case append_event (re_validators env) (re_env env) (log_request (re_uuid env) e actor command ev) (eb_log db) of
        (Inl err, _) \<Rightarrow> Inl (LogError err)
      | (Inr _, elog) \<Rightarrow> Inr (db\<lparr>eb_log := elog\<rparr>))"

definition event_add ::
  "repo_env \<Rightarrow> event_agg \<Rightarrow> uuid option \<Rightarrow> uuid option \<Rightarrow> event_db \<Rightarrow> (repo_error, event_db) res" where
  "event_add env a actor command db =
     (if \<not> ee_in_transaction (re_env env) then Inl NotInTransaction
      else if ag_id a \<in> ew_id ` set (eb_events db) then Inl (DuplicateEventId (ag_id a))
      else (let db1 = db\<lparr>eb_events := eb_events db @
              [\<lparr>ew_id = ag_id a, ew_title = ag_title a, ew_description = ag_description a, ew_priority = ag_priority a,
                ew_status = ag_status a, ew_bbz = ag_bbz a, ew_workplace = ag_workplace a, ew_source = ag_source a, ew_version = 1\<rparr>],
              eb_history := eb_history db @ [\<lparr>hi_event = ag_id a, hi_from = None, hi_to = status_value (ag_status a),
                hi_at = ee_now (re_env env), hi_by = actor, hi_correlation = ee_correlation (re_env env)\<rparr>]\<rparr>
            in fold_res (append_one env (ag_id a) actor command) (fst (collect_events a)) db1))"

definition reconcile_assignment :: "instant \<Rightarrow> event_agg \<Rightarrow> string \<Rightarrow> uuid \<Rightarrow> event_db \<Rightarrow> (repo_error, event_db) res" where
  "reconcile_assignment now a ty actor db =
     (if ty \<notin> {''EVENT_ASSIGNED'', ''EVENT_TAKEN_OVER''} then Inr db
      else (case ag_assignee a of
              None \<Rightarrow> Inl AssigneeMissing
            | Some u \<Rightarrow> Inr (db\<lparr>eb_assignments :=
                map (\<lambda>s. if as_event s = ag_id a \<and> as_active s then s\<lparr>as_active := False\<rparr> else s) (eb_assignments db)
                @ [\<lparr>as_event = ag_id a, as_user = u, as_at = now, as_by = Some actor, as_active = True\<rparr>]\<rparr>)))"

definition add_history :: "event_env \<Rightarrow> event_agg \<Rightarrow> uuid \<Rightarrow> event_data \<Rightarrow> event_db \<Rightarrow> event_db" where
  "add_history env a actor ev db =
     (case (dict_get (ev_payload ev) ''from'', dict_get (ev_payload ev) ''to'') of
        (PStr src, PStr dst) \<Rightarrow>
          if src \<noteq> dst then db\<lparr>eb_history := eb_history db @
            [\<lparr>hi_event = ag_id a, hi_from = Some src, hi_to = dst, hi_at = ee_now env, hi_by = Some actor,
              hi_correlation = ee_correlation env\<rparr>]\<rparr> else db
      | _ \<Rightarrow> db)"

definition save_pending ::
  "repo_env \<Rightarrow> event_agg \<Rightarrow> uuid \<Rightarrow> uuid option \<Rightarrow> event_data \<Rightarrow> event_db \<Rightarrow> (repo_error, event_db) res" where
  "save_pending env a actor command ev db =
     bind_res (reconcile_assignment (ee_now (re_env env)) a (ev_type ev) actor (add_history (re_env env) a actor ev db))
       (append_one env (ag_id a) (Some actor) command ev)"

definition store_row :: "event_agg \<Rightarrow> nat \<Rightarrow> event_row \<Rightarrow> event_row" where
  "store_row a v r = r\<lparr>ew_title := ag_title a, ew_description := ag_description a, ew_priority := ag_priority a,
     ew_status := ag_status a, ew_bbz := ag_bbz a, ew_workplace := ag_workplace a, ew_version := v\<rparr>"

definition event_save ::
  "repo_env \<Rightarrow> event_agg \<Rightarrow> uuid \<Rightarrow> nat \<Rightarrow> uuid option \<Rightarrow> event_db \<Rightarrow> (repo_error, nat \<times> event_db) res" where
  "event_save env a actor expected command db =
     (if \<not> ee_in_transaction (re_env env) then Inl NotInTransaction
      else if \<not> (\<exists>r\<in>set (eb_events db). ew_id r = ag_id a \<and> ew_version r = expected) then Inl (VersionConflict (ag_id a) expected)
      else (let db1 = db\<lparr>eb_events := map (\<lambda>r. if ew_id r = ag_id a \<and> ew_version r = expected
                then store_row a (expected + 1) r else r) (eb_events db)\<rparr>
            in bind_res (fold_res (save_pending env a actor command) (fst (collect_events a)) db1)
                 (\<lambda>db2. Inr (expected + 1, db2))))"

text \<open>A write request: load, one command, save with the version the client saw. Any error rolls back.\<close>

definition handle_command ::
  "repo_env \<Rightarrow> uuid \<Rightarrow> uuid option \<Rightarrow> uuid \<Rightarrow> nat \<Rightarrow> event_command \<Rightarrow> event_db \<Rightarrow> (repo_error, nat \<times> event_db) res" where
  "handle_command env actor command e expected cmd db =
     bind_res (event_require e db) (\<lambda>a.
       (case exec_command (re_uuid env) actor cmd a of
          (Inl err, _) \<Rightarrow> Inl (CommandError err)
        | (Inr _, a') \<Rightarrow> event_save env a' actor expected command db))"

section \<open>What a command does\<close>

definition command_effect :: "event_agg \<Rightarrow> event_agg \<Rightarrow> event_data \<Rightarrow> bool" where
  "command_effect a b ev \<longleftrightarrow>
     ag_pending b = ag_pending a @ [ev] \<and> ag_id b = ag_id a \<and> ag_version b = ag_version a \<and> ag_bbz b = ag_bbz a
     \<and> ag_workplace b = ag_workplace a \<and> ag_source b = ag_source a
     \<and> (ag_status b = ag_status a \<and> dict_get (ev_payload ev) ''from'' = PNone
        \<or> can_transition (ag_status a) (ag_status b)
          \<and> dict_get (ev_payload ev) ''from'' = PStr (status_value (ag_status a))
          \<and> dict_get (ev_payload ev) ''to'' = PStr (status_value (ag_status b)))
     \<and> (if ev_type ev \<in> {''EVENT_ASSIGNED'', ''EVENT_TAKEN_OVER''} then ag_assignee b \<noteq> None \<and> ag_assignee b \<noteq> ag_assignee a
        else ag_assignee b = ag_assignee a)"

lemma transition_effect:
  assumes "transition us target ty actor extra a = (Inr (), b)" "ty \<notin> {''EVENT_ASSIGNED'', ''EVENT_TAKEN_OVER''}"
  shows "\<exists>ev. command_effect a b ev"
proof -
  have "can_transition (ag_status a) target" and
    "b = emit ty ([(''from'', PStr (status_value (ag_status a))), (''to'', PStr (status_value target)), (''actor_id'', PStr (us actor))] @ extra)
        (a\<lparr>ag_status := target\<rparr>)"
    using assms(1) by (auto simp: transition_def split: if_splits)
  then show ?thesis
    using assms(2) by (auto simp: emit_def command_effect_def dict_get_def)
qed

lemma update_title_effect:
  "update_title t (a, ch) = Inr (b, ch') \<Longrightarrow> b = a\<lparr>ag_title := ag_title b\<rparr>"
  by (auto simp: update_title_def bind_res_Inr split: option.splits if_splits)

lemma update_description_effect:
  "update_description t (a, ch) = Inr (b, ch') \<Longrightarrow> b = a\<lparr>ag_description := ag_description b\<rparr>"
  by (auto simp: update_description_def bind_res_Inr split: option.splits if_splits)

lemma update_priority_effect:
  "update_priority t (a, ch) = (b, ch') \<Longrightarrow> b = a\<lparr>ag_priority := ag_priority b\<rparr>"
  by (auto simp: update_priority_def split: option.splits if_splits)

lemma update_effect:
  assumes "update_event us actor t d p a = (Inr (), b)"
  shows "\<exists>ev. command_effect a b ev"
proof -
  obtain a1 ch1 a2 ch2 a3 ch3 where steps: "update_title t (a, []) = Inr (a1, ch1)"
    "update_description d (a1, ch1) = Inr (a2, ch2)" "update_priority p (a2, ch2) = (a3, ch3)"
    and b: "b = emit ''EVENT_UPDATED'' [(''changes'', PDict ch3), (''actor_id'', PStr (us actor))] a3"
    using assms by (auto simp: update_event_def split: if_splits sum.splits prod.splits)
  have "a3 = a\<lparr>ag_title := ag_title a1, ag_description := ag_description a2, ag_priority := ag_priority a3\<rparr>"
    using update_title_effect [OF steps(1)] update_description_effect [OF steps(2)] update_priority_effect [OF steps(3)]
    by (cases a; cases a1; cases a2; cases a3) simp
  then obtain x y z where "a3 = a\<lparr>ag_title := x, ag_description := y, ag_priority := z\<rparr>" by blast
  then show ?thesis unfolding b by (auto simp: emit_def command_effect_def dict_get_def)
qed

lemma exec_effect:
  assumes "exec_command us actor cmd a = (Inr (), b)"
  shows "\<exists>ev. command_effect a b ev"
proof (cases cmd)
  case (Update t d p)
  then show ?thesis using assms update_effect by simp
next
  case (Assign u)
  then show ?thesis
    using assms by (auto simp: assign_def emit_def command_effect_def ownership_payload_def dict_get_def split: if_splits)
next
  case (TakeOver u)
  then show ?thesis
    using assms by (auto simp: take_over_def emit_def command_effect_def ownership_payload_def dict_get_def split: if_splits)
qed (use assms in \<open>auto simp: accept_def acknowledge_def open_event_def archive_def reactivate_def Let_def
    intro!: transition_effect split: if_splits\<close>)

text \<open>Apart from \<^verbatim>\<open>update\<close>, a method that raises leaves the object as it was.\<close>

lemma exec_error_unchanged:
  assumes "exec_command us actor cmd a = (Inl e, b)" "\<nexists>t d p. cmd = Update t d p"
  shows "b = a"
  using assms by (cases cmd) (auto simp: accept_def acknowledge_def open_event_def archive_def reactivate_def assign_def
      take_over_def transition_def Let_def split: if_splits)

section \<open>What the repository keeps\<close>

text \<open>The status history of an event: from its creation along allowed transitions to its status.\<close>

inductive trail :: "(string option \<times> string) list \<Rightarrow> event_status \<Rightarrow> bool" where
  created: "trail [(None, status_value New)] New"
| moved: "trail t s \<Longrightarrow> can_transition s s' \<Longrightarrow> trail (t @ [(Some (status_value s), status_value s')]) s'"

definition history_of :: "uuid \<Rightarrow> event_db \<Rightarrow> (string option \<times> string) list" where
  "history_of e db = map (\<lambda>h. (hi_from h, hi_to h)) (filter (\<lambda>h. hi_event h = e) (eb_history db))"

definition owners :: "uuid \<Rightarrow> event_db \<Rightarrow> assignment_row list" where
  "owners e db = filter (\<lambda>s. as_event s = e \<and> as_active s) (eb_assignments db)"

definition repo_inv :: "event_db \<Rightarrow> bool" where
  "repo_inv db \<longleftrightarrow> distinct (map ew_id (eb_events db))
     \<and> (\<forall>r\<in>set (eb_events db). trail (history_of (ew_id r) db) (ew_status r))
     \<and> (\<forall>h\<in>set (eb_history db). hi_event h \<in> ew_id ` set (eb_events db))
     \<and> (\<forall>e. length (owners e db) \<le> 1)"

lemma append_one_effect:
  assumes "append_one env e actor command ev db = Inr db'"
  shows "\<exists>elog row. db' = db\<lparr>eb_log := elog\<rparr> \<and> el_rows elog = el_rows (eb_log db) @ [row]
    \<and> de_event_type row = ev_type ev \<and> de_aggregate_id row = re_uuid env e"
proof -
  obtain n elog where ap: "append_event (re_validators env) (re_env env) (log_request (re_uuid env) e actor command ev) (eb_log db)
      = (Inr n, elog)" and db': "db' = db\<lparr>eb_log := elog\<rparr>"
    using assms by (auto simp: append_one_def split: prod.splits sum.splits)
  from ap have "\<exists>row. el_rows elog = el_rows (eb_log db) @ [row] \<and> de_event_type row = ev_type ev
      \<and> de_aggregate_id row = re_uuid env e"
    by (auto simp: append_event_def log_request_def Let_def split: if_splits option.splits)
  then show ?thesis using db' by blast
qed

lemma reconcile_effect:
  assumes "reconcile_assignment now a ty actor db = Inr db'"
  shows "\<exists>as. db' = db\<lparr>eb_assignments := as\<rparr>" "\<forall>e. length (owners e db) \<le> 1 \<Longrightarrow> length (owners e db') \<le> 1"
proof -
  have retired: "filter (\<lambda>s. as_event s = e \<and> as_active s)
      (map (\<lambda>s. if as_event s = x \<and> as_active s then s\<lparr>as_active := False\<rparr> else s) xs)
      = (if e = x then [] else filter (\<lambda>s. as_event s = e \<and> as_active s) xs)" for xs e x
    by (induction xs) auto
  show "\<exists>as. db' = db\<lparr>eb_assignments := as\<rparr>"
    using assms by (auto simp: reconcile_assignment_def split: if_splits option.splits intro: exI [of _ "eb_assignments db"])
  show "length (owners e db') \<le> 1" if "\<forall>e. length (owners e db) \<le> 1"
    using assms that by (auto simp: reconcile_assignment_def owners_def retired split: if_splits option.splits)
qed

lemma history_of_log [simp]: "history_of e (db\<lparr>eb_log := l\<rparr>) = history_of e db"
  and history_of_assignments [simp]: "history_of e (db\<lparr>eb_assignments := as\<rparr>) = history_of e db"
  and history_of_events [simp]: "history_of e (db\<lparr>eb_events := es\<rparr>) = history_of e db"
  and owners_log [simp]: "owners e (db\<lparr>eb_log := l\<rparr>) = owners e db"
  and owners_events [simp]: "owners e (db\<lparr>eb_events := es\<rparr>) = owners e db"
  and owners_history [simp]: "owners e (db\<lparr>eb_history := hs\<rparr>) = owners e db"
  by (simp_all add: history_of_def owners_def)

lemma status_value_inj [simp]: "status_value s = status_value t \<longleftrightarrow> s = t"
  by (cases s; cases t) auto

lemma can_transition_neq: "can_transition s t \<Longrightarrow> s \<noteq> t"
  by (cases s) (auto simp: can_transition_def)

text \<open>Saving the one event that a command emits.\<close>

lemma add_history_effect:
  assumes "command_effect a0 a ev"
  shows "\<exists>hs. add_history env a actor ev db = db\<lparr>eb_history := eb_history db @ hs\<rparr>
    \<and> (\<forall>h\<in>set hs. hi_event h = ag_id a)
    \<and> (map (\<lambda>h. (hi_from h, hi_to h)) hs = [] \<and> ag_status a = ag_status a0
       \<or> map (\<lambda>h. (hi_from h, hi_to h)) hs = [(Some (status_value (ag_status a0)), status_value (ag_status a))]
         \<and> can_transition (ag_status a0) (ag_status a))"
proof (cases "dict_get (ev_payload ev) ''from'' = PNone")
  case True
  then show ?thesis
    using assms by (intro exI [of _ "[]"]) (auto simp: add_history_def command_effect_def)
next
  case False
  then have ct: "can_transition (ag_status a0) (ag_status a)" and "dict_get (ev_payload ev) ''from'' = PStr (status_value (ag_status a0))"
      "dict_get (ev_payload ev) ''to'' = PStr (status_value (ag_status a))"
    using assms by (auto simp: command_effect_def)
  then show ?thesis
    using can_transition_neq [OF ct]
    by (intro exI [of _ "[\<lparr>hi_event = ag_id a, hi_from = Some (status_value (ag_status a0)),
        hi_to = status_value (ag_status a), hi_at = ee_now env, hi_by = Some actor, hi_correlation = ee_correlation env\<rparr>]"])
      (simp add: add_history_def)
qed

lemma history_of_append:
  "history_of e (db\<lparr>eb_history := eb_history db @ hs\<rparr>)
   = history_of e db @ map (\<lambda>h. (hi_from h, hi_to h)) (filter (\<lambda>h. hi_event h = e) hs)"
  by (simp add: history_of_def)

lemma event_save_effect:
  assumes "event_save env a actor expected command db = Inr (v, db')" "command_effect a0 a ev" "ag_pending a0 = []"
  shows "v = expected + 1" "\<exists>r\<in>set (eb_events db). ew_id r = ag_id a \<and> ew_version r = expected"
    and "eb_events db' = map (\<lambda>r. if ew_id r = ag_id a \<and> ew_version r = expected then store_row a (expected + 1) r else r) (eb_events db)"
    and "\<exists>row. el_rows (eb_log db') = el_rows (eb_log db) @ [row] \<and> de_event_type row = ev_type ev \<and> de_aggregate_id row = re_uuid env (ag_id a)"
    and "\<forall>e. length (owners e db) \<le> 1 \<Longrightarrow> \<forall>e. length (owners e db') \<le> 1"
    and "\<exists>hs. eb_history db' = eb_history db @ hs \<and> (\<forall>h\<in>set hs. hi_event h = ag_id a)
      \<and> (map (\<lambda>h. (hi_from h, hi_to h)) hs = [] \<and> ag_status a = ag_status a0
       \<or> map (\<lambda>h. (hi_from h, hi_to h)) hs = [(Some (status_value (ag_status a0)), status_value (ag_status a))]
         \<and> can_transition (ag_status a0) (ag_status a))"
proof -
  define db1 where "db1 = db\<lparr>eb_events := map (\<lambda>r. if ew_id r = ag_id a \<and> ew_version r = expected then store_row a (expected + 1) r else r) (eb_events db)\<rparr>"
  have pend: "ag_pending a = [ev]" using assms(2,3) by (simp add: command_effect_def)
  have ok: "\<exists>r\<in>set (eb_events db). ew_id r = ag_id a \<and> ew_version r = expected" and v: "v = expected + 1"
    and sp: "save_pending env a actor command ev db1 = Inr db'"
    using assms(1) by (auto simp: event_save_def collect_events_def pend bind_res_Inr Let_def db1_def split: if_splits)
  obtain db2 where re: "reconcile_assignment (ee_now (re_env env)) a (ev_type ev) actor (add_history (re_env env) a actor ev db1) = Inr db2"
    and ap: "append_one env (ag_id a) (Some actor) command ev db2 = Inr db'"
    using sp by (auto simp: save_pending_def bind_res_Inr)
  obtain hs where hs: "add_history (re_env env) a actor ev db1 = db1\<lparr>eb_history := eb_history db1 @ hs\<rparr>"
    and hs': "\<forall>h\<in>set hs. hi_event h = ag_id a" "map (\<lambda>h. (hi_from h, hi_to h)) hs = [] \<and> ag_status a = ag_status a0
       \<or> map (\<lambda>h. (hi_from h, hi_to h)) hs = [(Some (status_value (ag_status a0)), status_value (ag_status a))]
         \<and> can_transition (ag_status a0) (ag_status a)"
    using add_history_effect [OF assms(2), of "re_env env" actor db1] by (elim exE conjE, intro that) assumption+
  obtain as where db2: "db2 = db1\<lparr>eb_history := eb_history db1 @ hs, eb_assignments := as\<rparr>"
    using reconcile_effect(1) [OF re] by (auto simp: hs)
  obtain elog row where db': "db' = db2\<lparr>eb_log := elog\<rparr>" and row: "el_rows elog = el_rows (eb_log db2) @ [row]"
      "de_event_type row = ev_type ev" "de_aggregate_id row = re_uuid env (ag_id a)"
    using append_one_effect [OF ap] by blast
  show "v = expected + 1" "\<exists>r\<in>set (eb_events db). ew_id r = ag_id a \<and> ew_version r = expected" by fact+
  show "eb_events db' = map (\<lambda>r. if ew_id r = ag_id a \<and> ew_version r = expected then store_row a (expected + 1) r else r) (eb_events db)"
    by (simp add: db' db2 db1_def)
  show "\<exists>row. el_rows (eb_log db') = el_rows (eb_log db) @ [row] \<and> de_event_type row = ev_type ev \<and> de_aggregate_id row = re_uuid env (ag_id a)"
    using row by (simp add: db' db2 db1_def)
  show "\<forall>e. length (owners e db') \<le> 1" if "\<forall>e. length (owners e db) \<le> 1"
  proof -
    have "\<forall>e. length (owners e (db1\<lparr>eb_history := eb_history db1 @ hs\<rparr>)) \<le> 1" using that by (simp add: db1_def)
    then show ?thesis using reconcile_effect(2) [OF re [unfolded hs]] by (simp add: db')
  qed
  show "\<exists>hs. eb_history db' = eb_history db @ hs \<and> (\<forall>h\<in>set hs. hi_event h = ag_id a)
      \<and> (map (\<lambda>h. (hi_from h, hi_to h)) hs = [] \<and> ag_status a = ag_status a0
       \<or> map (\<lambda>h. (hi_from h, hi_to h)) hs = [(Some (status_value (ag_status a0)), status_value (ag_status a))]
         \<and> can_transition (ag_status a0) (ag_status a))"
    using hs' by (intro exI [of _ hs]) (simp add: db' db2 db1_def)
qed

lemma event_require_row:
  assumes "event_require e db = Inr a"
  shows "\<exists>r\<in>set (eb_events db). ew_id r = e \<and> ag_id a = e \<and> ag_status a = ew_status r \<and> ag_version a = ew_version r"
    and "ag_pending a = []"
proof -
  obtain r where r: "find_first (\<lambda>r. ew_id r = e) (eb_events db) = Some r"
    using assms by (auto simp: event_require_def event_get_def bind_res_Inr simp del: find_first_None split: option.splits)
  have "ag_id a = ew_id r \<and> ag_status a = ew_status r \<and> ag_version a = ew_version r \<and> ag_pending a = []"
    using assms r by (cases "filter (\<lambda>s. as_event s = e \<and> as_active s) (eb_assignments db)" rule: remdups_adj.cases)
      (auto simp: event_require_def event_get_def bind_res_Inr)
  then show "\<exists>r\<in>set (eb_events db). ew_id r = e \<and> ag_id a = e \<and> ag_status a = ew_status r \<and> ag_version a = ew_version r" "ag_pending a = []"
    using find_first_Some [OF r] by auto
qed

text \<open>The step a successful write makes, as seen from outside.\<close>

lemma handle_command_effect:
  assumes "handle_command env actor command e expected cmd db = Inr (v, db')"
  obtains a0 a ev r where "event_require e db = Inr a0" "command_effect a0 a ev" "event_save env a actor expected command db = Inr (v, db')"
    "ag_pending a0 = []" "ag_id a = e" "r \<in> set (eb_events db)" "ew_id r = e" "ag_status a0 = ew_status r" "ag_version a0 = ew_version r"
proof -
  obtain a0 where req: "event_require e db = Inr a0" using assms by (auto simp: handle_command_def bind_res_Inr)
  obtain out a where out: "exec_command (re_uuid env) actor cmd a0 = (out, a)" by fastforce
  have ex: "exec_command (re_uuid env) actor cmd a0 = (Inr (), a)" and save: "event_save env a actor expected command db = Inr (v, db')"
    using assms by (auto simp: handle_command_def req out split: sum.splits)
  obtain ev where ev: "command_effect a0 a ev" using exec_effect [OF ex] by blast
  obtain r where r: "r \<in> set (eb_events db)" "ew_id r = e" "ag_id a0 = e" "ag_status a0 = ew_status r" "ag_version a0 = ew_version r"
    using event_require_row(1) [OF req] by blast
  have "ag_id a = e" using ev r(3) by (simp add: command_effect_def)
  with r show ?thesis using event_require_row(2) [OF req] by (intro that [OF req ev save])
qed

lemma handle_command_inv:
  assumes "handle_command env actor command e expected cmd db = Inr (v, db')" "repo_inv db"
  shows "repo_inv db'"
proof -
  obtain a0 a ev r where req: "event_require e db = Inr a0" and ev: "command_effect a0 a ev"
    and save: "event_save env a actor expected command db = Inr (v, db')" and pend: "ag_pending a0 = []" and ida: "ag_id a = e"
    and r: "r \<in> set (eb_events db)" "ew_id r = e" "ag_status a0 = ew_status r"
    using handle_command_effect [OF assms(1)] by metis
  note eff = event_save_effect [OF save ev pend]
  let ?upd = "\<lambda>r. if ew_id r = ag_id a \<and> ew_version r = expected then store_row a (expected + 1) r else r"
  have ids: "ew_id (?upd x) = ew_id x" for x by (simp add: store_row_def)
  have ids': "ew_id \<circ> ?upd = ew_id" by (simp add: fun_eq_iff store_row_def)
  obtain hs where hs: "eb_history db' = eb_history db @ hs" "\<forall>h\<in>set hs. hi_event h = e"
    "map (\<lambda>h. (hi_from h, hi_to h)) hs = [] \<and> ag_status a = ew_status r
       \<or> map (\<lambda>h. (hi_from h, hi_to h)) hs = [(Some (status_value (ew_status r)), status_value (ag_status a))]
         \<and> can_transition (ew_status r) (ag_status a)"
    using eff(6) by (auto simp: ida r(3))
  have his: "history_of x db' = history_of x db @ (if x = e then map (\<lambda>h. (hi_from h, hi_to h)) hs else [])" for x
    using hs(1,2) by (auto simp: history_of_def filter_empty_conv intro!: filter_id_conv')
  have uniq: "x = r" if "x \<in> set (eb_events db)" "ew_id x = e" for x
    using assms(2) that r by (auto simp: repo_inv_def distinct_map inj_on_def)
  have ver: "ew_version r = expected" using eff(2) uniq by (auto simp: ida)
  have tr: "trail (history_of (ew_id (?upd x)) db') (ew_status (?upd x))" if "x \<in> set (eb_events db)" for x
  proof (cases "ew_id x = e")
    case True
    have t: "trail (history_of e db) (ew_status r)" using assms(2) r by (auto simp: repo_inv_def)
    have "trail (history_of e db') (ag_status a)"
      using hs(3) t trail.moved [OF t] by (auto simp: his)
    then show ?thesis using uniq [OF that True] ver by (simp add: store_row_def ida r)
  next
    case False
    then show ?thesis using assms(2) that by (auto simp: repo_inv_def his ida)
  qed
  have all: "\<forall>x\<in>set (eb_events db'). trail (history_of (ew_id x) db') (ew_status x)"
    unfolding eff(3) using tr by (simp only: set_map ball_simps) blast
  have same: "map ew_id (eb_events db') = map ew_id (eb_events db)" by (simp add: eff(3) ids')
  then have "ew_id ` set (eb_events db') = ew_id ` set (eb_events db)" by (metis set_map)
  then have "\<forall>h\<in>set (eb_history db'). hi_event h \<in> ew_id ` set (eb_events db')"
    using assms(2) hs(1,2) r(1,2) by (auto simp: repo_inv_def)
  then show ?thesis
    using assms(2) eff(5) same all unfolding repo_inv_def by simp
qed

lemma create_event_new: "create_event us c = Inr a \<Longrightarrow> ag_status a = New \<and> ag_id a = ca_id c"
  by (auto simp: create_event_def bind_res_Inr emit_def)

lemma event_add_effect:
  assumes "event_add env a actor command db = Inr db'"
  shows "ag_id a \<notin> ew_id ` set (eb_events db)"
    and "\<exists>r elog h. db' = db\<lparr>eb_events := eb_events db @ [r], eb_history := eb_history db @ [h], eb_log := elog\<rparr>
      \<and> ew_id r = ag_id a \<and> ew_status r = ag_status a \<and> ew_version r = 1 \<and> hi_event h = ag_id a
      \<and> hi_from h = None \<and> hi_to h = status_value (ag_status a)"
proof -
  define r where "r = \<lparr>ew_id = ag_id a, ew_title = ag_title a, ew_description = ag_description a, ew_priority = ag_priority a,
                ew_status = ag_status a, ew_bbz = ag_bbz a, ew_workplace = ag_workplace a, ew_source = ag_source a, ew_version = 1\<rparr>"
  define h where "h = \<lparr>hi_event = ag_id a, hi_from = None, hi_to = status_value (ag_status a),
                hi_at = ee_now (re_env env), hi_by = actor, hi_correlation = ee_correlation (re_env env)\<rparr>"
  define db1 where "db1 = db\<lparr>eb_events := eb_events db @ [r], eb_history := eb_history db @ [h]\<rparr>"
  have fold: "fold_res (append_one env (ag_id a) actor command) (fst (collect_events a)) db1 = Inr db'"
    and new: "ag_id a \<notin> ew_id ` set (eb_events db)"
    using assms by (auto simp: event_add_def r_def h_def db1_def Let_def split: if_splits)
  have "\<exists>elog. db' = db1\<lparr>eb_log := elog\<rparr>"
  proof (rule fold_res_invariant [OF fold, where P = "\<lambda>d. \<exists>elog. d = db1\<lparr>eb_log := elog\<rparr>"])
    show "\<exists>elog. db1 = db1\<lparr>eb_log := elog\<rparr>" by (intro exI [of _ "eb_log db1"]) simp
  next
    fix x u v assume u: "\<exists>elog. u = db1\<lparr>eb_log := elog\<rparr>" and "append_one env (ag_id a) actor command x u = Inr v"
    from append_one_effect [OF this(2)] obtain elog where "v = u\<lparr>eb_log := elog\<rparr>" by blast
    with u show "\<exists>elog. v = db1\<lparr>eb_log := elog\<rparr>" by auto
  qed
  then obtain elog where "db' = db1\<lparr>eb_log := elog\<rparr>" by blast
  then show "\<exists>r elog h. db' = db\<lparr>eb_events := eb_events db @ [r], eb_history := eb_history db @ [h], eb_log := elog\<rparr>
      \<and> ew_id r = ag_id a \<and> ew_status r = ag_status a \<and> ew_version r = 1 \<and> hi_event h = ag_id a
      \<and> hi_from h = None \<and> hi_to h = status_value (ag_status a)"
    by (intro exI [of _ r] exI [of _ elog] exI [of _ h]) (simp add: db1_def r_def h_def)
  show "ag_id a \<notin> ew_id ` set (eb_events db)" by (rule new)
qed

lemma event_add_inv:
  assumes "event_add env a actor command db = Inr db'" "ag_status a = New" "repo_inv db"
  shows "repo_inv db'"
proof -
  obtain r elog h where db': "db' = db\<lparr>eb_events := eb_events db @ [r], eb_history := eb_history db @ [h], eb_log := elog\<rparr>"
    and r: "ew_id r = ag_id a" "ew_status r = New" and h: "hi_event h = ag_id a" "hi_from h = None" "hi_to h = status_value New"
    using event_add_effect(2) [OF assms(1)] assms(2) by metis
  have new: "ag_id a \<notin> ew_id ` set (eb_events db)" by (rule event_add_effect(1) [OF assms(1)])
  then have "filter (\<lambda>h. hi_event h = ag_id a) (eb_history db) = []"
    using assms(3) unfolding repo_inv_def filter_empty_conv by metis
  then have his: "history_of e db' = (if e = ag_id a then [(None, status_value New)] else history_of e db)" for e
    using h by (simp add: db' history_of_def)
  have evs: "eb_events db' = eb_events db @ [r]" by (simp add: db')
  have "trail (history_of (ew_id x) db') (ew_status x)" if "x \<in> set (eb_events db')" for x
    using that assms(3) new r trail.created by (auto simp: evs his repo_inv_def) (metis imageI)
  moreover have "owners e db' = owners e db" for e by (simp add: db' owners_def)
  ultimately show ?thesis
    using assms(3) new r(1) h(1) by (auto simp: repo_inv_def db')
qed

text \<open>Everything the repository is asked to do, in any order, by any callers; a request that fails rolls back.\<close>

inductive repo_step :: "event_db \<Rightarrow> event_db \<Rightarrow> bool" where
  added: "create_event (re_uuid env) c = Inr a \<Longrightarrow> event_add env a actor command db = Inr db' \<Longrightarrow> repo_step db db'"
| written: "handle_command env actor' command e expected cmd db = Inr (v, db') \<Longrightarrow> repo_step db db'"

inductive_cases repo_stepE: "repo_step db db'"

definition empty_event_db :: event_db where
  "empty_event_db = \<lparr>eb_events = [], eb_history = [], eb_assignments = [], eb_log = \<lparr>el_rows = [], el_next_seq = 1\<rparr>\<rparr>"

lemma repo_inv_reachable: "repo_step\<^sup>*\<^sup>* empty_event_db db \<Longrightarrow> repo_inv db"
proof (induction rule: rtranclp_induct)
  case base
  show ?case by (simp add: repo_inv_def empty_event_db_def owners_def)
next
  case (step y z)
  then show ?case
    using event_add_inv handle_command_inv create_event_new by (elim repo_stepE) blast+
qed

lemma handle_command_guard:
  assumes "repo_inv db" "handle_command env actor command e expected cmd db = Inr (v, db')"
  shows "\<exists>r r'. r \<in> set (eb_events db) \<and> r' \<in> set (eb_events db') \<and> ew_id r = e \<and> ew_id r' = e
      \<and> ew_version r = expected \<and> ew_version r' = expected + 1 \<and> v = expected + 1
      \<and> (ew_status r' = ew_status r \<or> can_transition (ew_status r) (ew_status r'))
      \<and> filter (\<lambda>x. ew_id x \<noteq> e) (eb_events db') = filter (\<lambda>x. ew_id x \<noteq> e) (eb_events db)
      \<and> (\<exists>row. el_rows (eb_log db') = el_rows (eb_log db) @ [row])"
    and "\<not> is_ok (handle_command env' actor' command' e expected cmd' db')"
proof -
  obtain a0 a ev r where ev: "command_effect a0 a ev" and save: "event_save env a actor expected command db = Inr (v, db')"
    and pend: "ag_pending a0 = []" and ida: "ag_id a = e" and r: "r \<in> set (eb_events db)" "ew_id r = e" "ag_status a0 = ew_status r"
    using handle_command_effect [OF assms(2)] by metis
  note eff = event_save_effect [OF save ev pend, unfolded ida]
  have uniq: "x = r" if "x \<in> set (eb_events db)" "ew_id x = e" for x
    using assms(1) that r by (auto simp: repo_inv_def distinct_map inj_on_def)
  then have ver: "ew_version r = expected" using eff(2) by auto
  let ?r' = "store_row a (expected + 1) r"
  have r': "?r' \<in> set (eb_events db')" unfolding eff(3) using r ver by force
  have only: "ew_version x = expected + 1" if x_in: "x \<in> set (eb_events db')" and x_id: "ew_id x = e" for x
  proof -
    obtain y where y: "y \<in> set (eb_events db)"
      and x: "x = (if ew_id y = e \<and> ew_version y = expected then store_row a (expected + 1) y else y)"
      using x_in unfolding eff(3) set_map by blast
    have "ew_id y = e" using x_id by (simp add: x store_row_def split: if_splits)
    then have "y = r" by (rule uniq [OF y])
    then show ?thesis using x ver r(2) by (simp add: store_row_def)
  qed
  have others: "filter (\<lambda>x. ew_id x \<noteq> e) (eb_events db') = filter (\<lambda>x. ew_id x \<noteq> e) (eb_events db)"
  proof -
    have "filter (\<lambda>x. ew_id x \<noteq> e) (map (\<lambda>r. if ew_id r = e \<and> ew_version r = expected then store_row a (expected + 1) r else r) xs)
        = filter (\<lambda>x. ew_id x \<noteq> e) xs" for xs
      by (induction xs) (auto simp: store_row_def)
    then show ?thesis unfolding eff(3) .
  qed
  have st: "ag_status a = ew_status r \<or> can_transition (ew_status r) (ag_status a)"
    using eff(6) by (auto simp: r(3))
  show "\<exists>r r'. r \<in> set (eb_events db) \<and> r' \<in> set (eb_events db') \<and> ew_id r = e \<and> ew_id r' = e
      \<and> ew_version r = expected \<and> ew_version r' = expected + 1 \<and> v = expected + 1
      \<and> (ew_status r' = ew_status r \<or> can_transition (ew_status r) (ew_status r'))
      \<and> filter (\<lambda>x. ew_id x \<noteq> e) (eb_events db') = filter (\<lambda>x. ew_id x \<noteq> e) (eb_events db)
      \<and> (\<exists>row. el_rows (eb_log db') = el_rows (eb_log db) @ [row])"
    using r(1,2) r' ver eff(1,4) st others by (intro exI [of _ r] exI [of _ ?r'] conjI) (simp_all add: store_row_def, blast)
  show "\<not> is_ok (handle_command env' actor' command' e expected cmd' db')"
  proof
    assume "is_ok (handle_command env' actor' command' e expected cmd' db')"
    then obtain v2 db2 where h2: "handle_command env' actor' command' e expected cmd' db' = Inr (v2, db2)"
      by (auto simp: is_ok_iff)
    obtain a1 a2 ev2 where s2: "event_save env' a2 actor' expected command' db' = Inr (v2, db2)" "command_effect a1 a2 ev2"
      "ag_pending a1 = []" "ag_id a2 = e"
      using handle_command_effect [OF h2] by metis
    obtain y where "y \<in> set (eb_events db')" "ew_id y = e" "ew_version y = expected"
      using event_save_effect(2) [OF s2(1,2,3)] unfolding s2(4) by blast
    from only [OF this(1,2)] this(3) show False by simp
  qed
qed

section \<open>Properties\<close>

text \<open>
  C11. Whatever requests are made in whatever order, an event has at most one active owner, and its status history
  leads from its creation as \<^verbatim>\<open>new\<close> along allowed transitions to the status it has now.
\<close>

theorem event_history_and_owner:
  assumes "repo_step\<^sup>*\<^sup>* empty_event_db db"
  shows "distinct (map ew_id (eb_events db)) \<and> (\<forall>r\<in>set (eb_events db). trail (history_of (ew_id r) db) (ew_status r))
    \<and> (\<forall>e. length (owners e db) \<le> 1)"
  using repo_inv_reachable [OF assms] by (simp add: repo_inv_def)

text \<open>
  C7. No write is lost: a write that succeeds found the version its caller saw and raises it by one, changes no other event,
  moves the status by an allowed transition or not at all, and appends one domain event; any later write that
  still carries the old version is refused and changes nothing.
\<close>

theorem event_write_guarded:
  assumes "repo_inv db" "handle_command env actor command e expected cmd db = Inr (v, db')"
  shows "(\<exists>r r'. r \<in> set (eb_events db) \<and> r' \<in> set (eb_events db') \<and> ew_id r = e \<and> ew_id r' = e
      \<and> ew_version r = expected \<and> ew_version r' = expected + 1 \<and> v = expected + 1
      \<and> (ew_status r' = ew_status r \<or> can_transition (ew_status r) (ew_status r'))
      \<and> filter (\<lambda>x. ew_id x \<noteq> e) (eb_events db') = filter (\<lambda>x. ew_id x \<noteq> e) (eb_events db)
      \<and> (\<exists>row. el_rows (eb_log db') = el_rows (eb_log db) @ [row]))
    \<and> \<not> is_ok (handle_command env' actor' command' e expected cmd' db')"
  using handle_command_guard [OF assms] by blast

text \<open>
  An update whose title is fine and whose description is too long raises, and has replaced the title in memory
  already: the method is not all-or-nothing.
\<close>

theorem update_leaves_title:
  "update_event us actor (Some ''B'') (Some (Some (replicate 20001 CHR ''x''))) None (agg\<lparr>ag_status := New, ag_title := ''A''\<rparr>)
   = (Inl DescriptionTooLong, agg\<lparr>ag_status := New, ag_title := ''B''\<rparr>)"
proof -
  let ?d = "replicate 20001 CHR ''x''"
  have strip: "py_strip ?d = ?d"
    by (rule py_strip_id) (simp_all add: py_isspace_def ord_of_def)
  have "py_strip ''B'' = ''B''" by (simp add: py_strip_def py_isspace_def ord_of_def)
  then have "clean_title ''B'' = Inr ''B''" "clean_description (Some ?d) = Inl DescriptionTooLong"
    using strip by (simp_all add: clean_title_def clean_description_def Let_def MAX_TITLE_def MAX_DESCRIPTION_def)
  then show ?thesis by (simp add: update_event_def update_title_def update_description_def)
qed

section \<open>Witnesses\<close>

definition sample_repo_env :: repo_env where
  "sample_repo_env = \<lparr>re_validators = \<lparr>envelope_errors = \<lambda>_. [], payload_errors = \<lambda>_ _. Some (\<lambda>_. [])\<rparr>,
     re_env = \<lparr>ee_node = ''a'', ee_correlation = None, ee_now = 0, ee_secrets = [], ee_in_transaction = True\<rparr>, re_uuid = nat_str\<rparr>"

definition sample_create :: create_args where
  "sample_create = \<lparr>ca_id = 5, ca_title = '' fire '', ca_priority = High, ca_actor = Some 7, ca_description = None, ca_bbz = None,
     ca_workplace = None, ca_source = ''manual''\<rparr>"

definition one_event_db :: event_db where
  "one_event_db = ok_of empty_event_db
     (bind_res (case create_event nat_str sample_create of Inl _ \<Rightarrow> Inl NotInTransaction | Inr a \<Rightarrow> Inr a)
       (\<lambda>a. event_add sample_repo_env a (Some 7) None empty_event_db))"

lemma one_event_step: "repo_step empty_event_db one_event_db"
proof -
  obtain a where a: "create_event nat_str sample_create = Inr a"
    by (simp add: create_event_def sample_create_def clean_title_def clean_description_def MAX_TITLE_def py_strip_def py_isspace_def
        ord_of_def Let_def)
  have "is_ok (bind_res (case create_event nat_str sample_create of Inl _ \<Rightarrow> Inl NotInTransaction | Inr a \<Rightarrow> Inr a)
       (\<lambda>a. event_add sample_repo_env a (Some 7) None empty_event_db))" by code_simp
  then have "event_add sample_repo_env a (Some 7) None empty_event_db = Inr one_event_db"
    by (auto simp: one_event_db_def ok_of_def a is_ok_iff)
  then show ?thesis using a by (intro repo_step.added [where env = sample_repo_env and c = sample_create]) (simp_all add: sample_repo_env_def)
qed

theorem event_history_and_owner_witness:
  "\<exists>db. repo_step\<^sup>*\<^sup>* empty_event_db db \<and> length (eb_events db) = 1
     \<and> list_all (\<lambda>r. trail (history_of (ew_id r) db) (ew_status r)) (eb_events db)"
proof -
  have reach: "repo_step\<^sup>*\<^sup>* empty_event_db one_event_db" using one_event_step by (rule r_into_rtranclp)
  moreover have "length (eb_events one_event_db) = 1" by code_simp
  ultimately show ?thesis using event_history_and_owner [OF reach] unfolding list_all_iff by blast
qed

theorem event_write_guarded_witness:
  "\<exists>v db'. handle_command sample_repo_env 7 None 5 1 Accept one_event_db = Inr (v, db') \<and> v = 2
     \<and> \<not> is_ok (handle_command sample_repo_env 8 None 5 1 (Assign 8) db')"
proof -
  have inv: "repo_inv one_event_db" using one_event_step by (intro repo_inv_reachable r_into_rtranclp)
  have "is_ok (handle_command sample_repo_env 7 None 5 1 Accept one_event_db)" by code_simp
  then obtain v db' where h: "handle_command sample_repo_env 7 None 5 1 Accept one_event_db = Inr (v, db')"
    by (auto simp: is_ok_iff)
  note guarded = event_write_guarded [OF inv h, of sample_repo_env 8 None "Assign 8"]
  from guarded have "v = 1 + 1" by (elim conjE exE)
  then show ?thesis using h guarded by (intro exI [of _ v] exI [of _ db']) simp
qed

end
