(* ===== verification/Dedupe.thy ===== *)
theory Dedupe
  imports Py_Value
begin

text \<open>
  The contract that the outbox, the provider-event inbox and the command store share: a table with a unique key that is
  filled by \<^verbatim>\<open>INSERT ... ON CONFLICT DO NOTHING\<close>. What their clients rely on is proved once, from the two laws
  of the contract: among any sequence of requests one and only one of those with the same key is accepted.
\<close>

text \<open>The answers to a sequence of requests, and the table after it.\<close>

fun put_all :: "('r \<Rightarrow> 's \<Rightarrow> bool \<times> 's) \<Rightarrow> 'r list \<Rightarrow> 's \<Rightarrow> bool list \<times> 's" where
  "put_all put [] s = ([], s)"
| "put_all put (r # rs) s =
     (let (ok, s') = put r s; (oks, s'') = put_all put rs s' in (ok # oks, s''))"

definition accepted :: "('r \<Rightarrow> 's \<Rightarrow> bool \<times> 's) \<Rightarrow> 'r list \<Rightarrow> 's \<Rightarrow> 'r list" where
  "accepted put rs s = map fst (filter snd (zip rs (fst (put_all put rs s))))"

lemma accepted_simps [simp]:
  "accepted put [] s = []"
  "accepted put (r # rs) s =
     (if fst (put r s) then [r] else []) @ accepted put rs (snd (put r s))"
  by (auto simp: accepted_def Let_def split: prod.splits)

locale dedupe_store =
  fixes put :: "'r \<Rightarrow> 's \<Rightarrow> bool \<times> 's"
    and key :: "'r \<Rightarrow> 'k"
    and keys :: "'s \<Rightarrow> 'k set"
  assumes put_keys: "keys (snd (put r s)) = insert (key r) (keys s)"
    and put_new: "fst (put r s) \<longleftrightarrow> key r \<notin> keys s"
begin

lemma accepted_keys: "key ` set (accepted put rs s) = key ` set rs - keys s"
proof (induction rs arbitrary: s)
  case (Cons r rs)
  show ?case
    by (simp only: accepted_simps set_append image_Un Cons.IH put_keys put_new) auto
qed simp

lemma accepted_distinct: "distinct (map key (accepted put rs s))"
proof (induction rs arbitrary: s)
  case (Cons r rs)
  have "key r \<notin> key ` set (accepted put rs (snd (put r s)))"
    unfolding accepted_keys by (simp add: put_keys)
  then show ?case using Cons.IH by auto
qed simp

lemma accepted_once:
  "length (filter (\<lambda>r. key r = k) (accepted put rs s)) = (if k \<in> key ` set rs \<and> k \<notin> keys s then 1 else 0)"
proof -
  have "length (filter (\<lambda>r. key r = k) xs) = (if k \<in> key ` set xs then 1 else 0)" if "distinct (map key xs)" for xs
    using that by (induction xs) (auto simp: filter_empty_conv)
  from this [OF accepted_distinct] show ?thesis
    unfolding accepted_keys by simp
qed

lemma replay_rejected: "set ss \<subseteq> set rs \<Longrightarrow> accepted put ss (snd (put_all put rs s)) = []"
proof -
  have all: "key ` set rs \<subseteq> keys (snd (put_all put rs s)) \<and> keys s \<subseteq> keys (snd (put_all put rs s))" for rs s
  proof (induction rs arbitrary: s)
    case (Cons r rs)
    have "snd (put_all put (r # rs) s) = snd (put_all put rs (snd (put r s)))"
      by (auto simp: Let_def split: prod.splits)
    then show ?case using Cons.IH [of "snd (put r s)"] by (auto simp: put_keys)
  qed simp
  assume "set ss \<subseteq> set rs"
  then have "key ` set (accepted put ss (snd (put_all put rs s))) = {}"
    unfolding accepted_keys using all [of rs s] by blast
  then show ?thesis by simp
qed

end

end
