(* ===== verification/Audit_Trail.thy ===== *)
theory Audit_Trail
  imports Redaction
begin

text \<open>
  \<^verbatim>\<open>server/bbz_core/audit/service.py\<close> (\<^verbatim>\<open>AuditService.write\<close>, \<^verbatim>\<open>changed_fields\<close>) and
  \<^verbatim>\<open>infra/repositories/audit_chain.py\<close> (sealing and verification of the hash chain). The table \<^verbatim>\<open>audit_events\<close> is the list of its
  committed rows together with the next value of the identity column \<^verbatim>\<open>seq\<close>, which a rolled-back
  transaction does not give back. SHA-256 is the parameter \<open>sha\<close>; the text of a time, of a UUID and of a float
  are parameters of the canonical row text.
\<close>

section \<open>Audit rows\<close>

record audit_row =
  au_id :: uuid
  au_seq :: nat
  au_occurred :: instant
  au_node :: string
  au_action :: string
  au_actor :: "uuid option"
  au_client :: "string option"
  au_workplace :: "string option"
  au_target_type :: "string option"
  au_target_id :: "string option"
  au_before :: "pydict option"
  au_after :: "pydict option"
  au_reason :: "string option"
  au_correlation :: "string option"
  au_event_seq :: "nat option"

record audit_db =
  audit_events :: "audit_row list"
  audit_next_seq :: nat

record audit_request =
  rq_action :: string
  rq_actor :: "uuid option"
  rq_client :: "string option"
  rq_workplace :: "string option"
  rq_target_type :: "string option"
  rq_target_id :: "string option"
  rq_before :: "pydict option"
  rq_after :: "pydict option"
  rq_reason :: "string option"
  rq_event_seq :: "nat option"

text \<open>What a request finds around it: the node, the correlation id, the clock, the registered secrets.\<close>

record audit_env =
  env_node :: string
  env_correlation :: "string option"
  env_now :: instant
  env_secrets :: "string list"

datatype audit_error = AuditNotInTransaction | AuditReasonRequired string

definition REASON_REQUIRED :: "string list" where
  "REASON_REQUIRED = [''EVENT_REACTIVATED'']"

definition changed_fields :: "pydict option \<Rightarrow> pydict option \<Rightarrow> (string \<times> pyval \<times> pyval) list" where
  "changed_fields before after =
     (let b = (case before of None \<Rightarrow> [] | Some d \<Rightarrow> d); a = (case after of None \<Rightarrow> [] | Some d \<Rightarrow> d);
          keys = remdups (map fst b @ map fst a)
      in map (\<lambda>k. (k, dict_get b k, dict_get a k)) (filter (\<lambda>k. \<not> py_eq (dict_get b k) (dict_get a k)) keys))"

definition clean_reason :: "string option \<Rightarrow> string option" where
  "clean_reason r = (let t = py_strip (case r of None \<Rightarrow> [] | Some s \<Rightarrow> s) in if t = [] then None else Some t)"

definition audit_write ::
  "audit_env \<Rightarrow> bool \<Rightarrow> audit_request \<Rightarrow> audit_db \<Rightarrow> (audit_error, audit_db) res" where
  "audit_write env in_transaction rq db =
     (if \<not> in_transaction then Inl AuditNotInTransaction
      else (let reason = clean_reason (rq_reason rq) in
        if rq_action rq \<in> set REASON_REQUIRED \<and> reason = None then Inl (AuditReasonRequired (rq_action rq))
        else Inr \<lparr>audit_events = audit_events db @
            [\<lparr>au_id = audit_next_seq db, au_seq = audit_next_seq db, au_occurred = env_now env, au_node = env_node env,
              au_action = rq_action rq, au_actor = rq_actor rq, au_client = rq_client rq,
              au_workplace = rq_workplace rq, au_target_type = rq_target_type rq, au_target_id = rq_target_id rq,
              au_before = map_option (scrub_dict (env_secrets env)) (rq_before rq),
              au_after = map_option (scrub_dict (env_secrets env)) (rq_after rq),
              au_reason = map_option (scrub_text (env_secrets env)) reason,
              au_correlation = env_correlation env, au_event_seq = rq_event_seq rq\<rparr>],
          audit_next_seq = Suc (audit_next_seq db)\<rparr>))"

text \<open>A transaction that rolls back loses its rows; the identity values it drew stay drawn.\<close>

definition audit_rollback :: "audit_db \<Rightarrow> audit_db \<Rightarrow> audit_db" where
  "audit_rollback before inside = before\<lparr>audit_next_seq := audit_next_seq inside\<rparr>"

section \<open>The chain\<close>

record chain_link =
  cl_seq :: nat
  cl_event :: uuid
  cl_prev :: string
  cl_hash :: string

definition GENESIS :: string where
  "GENESIS = replicate 64 (CHR ''0'')"

definition opt_str :: "string option \<Rightarrow> pyval" where
  "opt_str s = (case s of None \<Rightarrow> PNone | Some t \<Rightarrow> PStr t)"

definition opt_dict :: "pydict option \<Rightarrow> pyval" where
  "opt_dict d = (case d of None \<Rightarrow> PNone | Some e \<Rightarrow> PDict e)"

definition row_fields :: "(uuid \<Rightarrow> string) \<Rightarrow> (instant \<Rightarrow> string) \<Rightarrow> audit_row \<Rightarrow> pydict" where
  "row_fields uuid_str time_str r =
     [(''seq'', PInt (int (au_seq r))), (''occurred_at_utc'', PStr (time_str (au_occurred r))),
      (''node_id'', PStr (au_node r)), (''action'', PStr (au_action r)),
      (''actor_user_id'', opt_str (map_option uuid_str (au_actor r))), (''actor_client_id'', opt_str (au_client r)),
      (''workplace_id'', opt_str (au_workplace r)), (''target_type'', opt_str (au_target_type r)),
      (''target_id'', opt_str (au_target_id r)), (''before'', opt_dict (au_before r)), (''after'', opt_dict (au_after r)),
      (''reason'', opt_str (au_reason r)), (''correlation_id'', opt_str (au_correlation r)),
      (''event_seq_ref'', case au_event_seq r of None \<Rightarrow> PNone | Some n \<Rightarrow> PInt (int n))]"

definition canonical :: "(rat \<Rightarrow> string) \<Rightarrow> (uuid \<Rightarrow> string) \<Rightarrow> (instant \<Rightarrow> string) \<Rightarrow> audit_row \<Rightarrow> string" where
  "canonical float_repr uuid_str time_str r = json_dumps float_repr (PDict (row_fields uuid_str time_str r))"

definition row_digest :: "(string \<Rightarrow> string) \<Rightarrow> (audit_row \<Rightarrow> string) \<Rightarrow> audit_row \<Rightarrow> string" where
  "row_digest sha canon r = sha (canon r)"

definition link_hash :: "(string \<Rightarrow> string) \<Rightarrow> string \<Rightarrow> string \<Rightarrow> string" where
  "link_hash sha prev digest = sha (prev @ digest)"

definition chain_head :: "chain_link list \<Rightarrow> nat \<times> string" where
  "chain_head links = (if links = [] then (0, GENESIS)
     else (let l = last (sort_key cl_seq links) in (cl_seq l, cl_hash l)))"

fun seal_rows :: "(string \<Rightarrow> string) \<Rightarrow> (audit_row \<Rightarrow> string) \<Rightarrow> string \<Rightarrow> audit_row list \<Rightarrow> chain_link list" where
  "seal_rows sha canon prev [] = []"
| "seal_rows sha canon prev (r # rs) =
     (let h = link_hash sha prev (row_digest sha canon r) in
      \<lparr>cl_seq = au_seq r, cl_event = au_id r, cl_prev = prev, cl_hash = h\<rparr> # seal_rows sha canon h rs)"

definition seal ::
  "(string \<Rightarrow> string) \<Rightarrow> (audit_row \<Rightarrow> string) \<Rightarrow> audit_row list \<Rightarrow> chain_link list \<Rightarrow> chain_link list" where
  "seal sha canon rows links =
     (let (head, prev) = chain_head links in
      links @ seal_rows sha canon prev (sort_key au_seq (filter (\<lambda>r. head < au_seq r) rows)))"

record verify_result =
  vr_ok :: bool
  vr_checked :: nat
  vr_head_seq :: nat
  vr_head_hash :: string
  vr_first_bad :: "nat option"
  vr_detail :: string

definition verify_bad :: "nat \<Rightarrow> string \<Rightarrow> string \<Rightarrow> verify_result" where
  "verify_bad s detail prev = \<lparr>vr_ok = False, vr_checked = s, vr_head_seq = s, vr_head_hash = prev,
     vr_first_bad = Some s, vr_detail = detail\<rparr>"

definition row_at :: "audit_row list \<Rightarrow> nat \<Rightarrow> audit_row option" where
  "row_at rows s = find_first (\<lambda>r. au_seq r = s) rows"

fun verify_walk ::
  "(string \<Rightarrow> string) \<Rightarrow> (audit_row \<Rightarrow> string) \<Rightarrow> audit_row list \<Rightarrow> string \<Rightarrow> nat option \<Rightarrow> chain_link list
    \<Rightarrow> verify_result option" where
  "verify_walk sha canon rows prev expected [] = None"
| "verify_walk sha canon rows prev expected (l # ls) =
     (if expected \<noteq> None \<and> expected \<noteq> Some (cl_seq l) then Some (verify_bad (cl_seq l) ''seq gap'' prev)
      else if cl_prev l \<noteq> prev then Some (verify_bad (cl_seq l) ''prev_hash'' prev)
      else (case row_at rows (cl_seq l) of
              None \<Rightarrow> Some (verify_bad (cl_seq l) ''vanished'' prev)
            | Some r \<Rightarrow>
                if link_hash sha prev (row_digest sha canon r) \<noteq> cl_hash l
                then Some (verify_bad (cl_seq l) ''content'' prev)
                else verify_walk sha canon rows (cl_hash l) (Some (Suc (cl_seq l))) ls))"

definition chain_verify ::
  "(string \<Rightarrow> string) \<Rightarrow> (audit_row \<Rightarrow> string) \<Rightarrow> audit_row list \<Rightarrow> chain_link list \<Rightarrow> nat option \<Rightarrow> verify_result" where
  "chain_verify sha canon rows links limit =
     (let ls = (case limit of None \<Rightarrow> sort_key cl_seq links | Some n \<Rightarrow> take n (sort_key cl_seq links)) in
      if ls = [] then \<lparr>vr_ok = True, vr_checked = 0, vr_head_seq = 0, vr_head_hash = GENESIS,
          vr_first_bad = None, vr_detail = ''''\<rparr>
      else (case verify_walk sha canon rows GENESIS None ls of
              Some bad \<Rightarrow> bad
            | None \<Rightarrow> \<lparr>vr_ok = True, vr_checked = length ls, vr_head_seq = cl_seq (last ls),
                vr_head_hash = cl_hash (last ls), vr_first_bad = None, vr_detail = ''''\<rparr>))"

record chain_link_view =
  cv_seq :: nat
  cv_event :: uuid
  cv_prev :: string
  cv_hash :: string
  cv_action :: string
  cv_occurred :: instant

definition chain_export :: "audit_row list \<Rightarrow> chain_link list \<Rightarrow> nat \<Rightarrow> nat \<Rightarrow> chain_link_view list" where
  "chain_export rows links after_seq limit =
     take limit (concat (map (\<lambda>l. case row_at rows (cl_seq l) of
         None \<Rightarrow> []
       | Some r \<Rightarrow> [\<lparr>cv_seq = cl_seq l, cv_event = cl_event l, cv_prev = cl_prev l, cv_hash = cl_hash l,
           cv_action = au_action r, cv_occurred = au_occurred r\<rparr>])
       (sort_key cl_seq (filter (\<lambda>l. after_seq < cl_seq l) links))))"

section \<open>Sealing and walking\<close>

fun consecutive :: "nat list \<Rightarrow> bool" where
  "consecutive (n # m # ms) \<longleftrightarrow> m = Suc n \<and> consecutive (m # ms)"
| "consecutive _ \<longleftrightarrow> True"

lemma seal_rows_seqs: "map cl_seq (seal_rows sha canon prev rs) = map au_seq rs"
  by (induction rs arbitrary: prev) (auto simp: Let_def)

lemma seal_rows_length: "length (seal_rows sha canon prev rs) = length rs"
  by (induction rs arbitrary: prev) (auto simp: Let_def)

lemma row_at_Some: "row_at rows s = Some r \<Longrightarrow> r \<in> set rows \<and> au_seq r = s"
  unfolding row_at_def by (drule find_first_Some) simp

lemma row_at_unique:
  assumes "distinct (map au_seq rows)" "r \<in> set rows"
  shows "row_at rows (au_seq r) = Some r"
proof (cases "row_at rows (au_seq r)")
  case None
  then show ?thesis using assms(2) by (auto simp: row_at_def)
next
  case (Some r')
  then show ?thesis
    using row_at_Some [OF Some] assms by (auto simp: distinct_map dest: inj_onD)
qed

lemma walk_sealed:
  assumes "distinct (map au_seq rows)"
  shows "set rs \<subseteq> set rows \<Longrightarrow> consecutive (map au_seq rs) \<Longrightarrow>
    expected = None \<or> rs = [] \<or> expected = Some (au_seq (hd rs)) \<Longrightarrow>
    verify_walk sha canon rows prev expected (seal_rows sha canon prev rs) = None"
proof (induction rs arbitrary: prev expected)
  case (Cons r rs)
  have r: "row_at rows (au_seq r) = Some r"
    using row_at_unique [OF assms] Cons.prems(1) by simp
  have "consecutive (map au_seq rs) \<and> (rs = [] \<or> au_seq (hd rs) = Suc (au_seq r))"
    using Cons.prems(2) by (cases rs) auto
  then show ?case
    using Cons r by (auto simp: Let_def)
qed simp


lemma sorted_seal:
  "sorted (map au_seq rs) \<Longrightarrow> sort_key cl_seq (seal_rows sha canon prev rs) = seal_rows sha canon prev rs"
  by (simp add: sort_key_id_if_sorted seal_rows_seqs)

lemma seal_Nil:
  assumes "\<forall>r\<in>set rows. 0 < au_seq r"
  shows "seal sha canon rows [] = seal_rows sha canon GENESIS (sort_key au_seq rows)"
  using assms by (simp add: seal_def chain_head_def)

lemma seal_rows_append:
  "seal_rows sha canon prev (xs @ ys) = seal_rows sha canon prev xs @
     seal_rows sha canon (if xs = [] then prev else cl_hash (last (seal_rows sha canon prev xs))) ys"
proof (induction xs arbitrary: prev)
  case (Cons x xs)
  then show ?case by (cases xs) (simp_all add: Let_def)
qed simp

text \<open>
  One run of the sealer after another, each over the table as it is then. The second component keeps the rows as
  they were when a run sealed them.
\<close>

definition seal_run :: "(string \<Rightarrow> string) \<Rightarrow> (audit_row \<Rightarrow> string) \<Rightarrow> audit_row list \<Rightarrow> chain_link list \<times> audit_row list
    \<Rightarrow> chain_link list \<times> audit_row list" where
  "seal_run sha canon rows c = (seal sha canon rows (fst c),
     snd c @ sort_key au_seq (filter (\<lambda>r. fst (chain_head (fst c)) < au_seq r) rows))"

definition sealed_by :: "(string \<Rightarrow> string) \<Rightarrow> (audit_row \<Rightarrow> string) \<Rightarrow> audit_row list list
    \<Rightarrow> chain_link list \<times> audit_row list" where
  "sealed_by sha canon tables = fold (seal_run sha canon) tables ([], [])"

text \<open>The texts that sealing and a walk over \<open>rows\<close> hash: finitely many, all in this list.\<close>

definition chain_texts :: "(string \<Rightarrow> string) \<Rightarrow> (audit_row \<Rightarrow> string) \<Rightarrow> chain_link list \<Rightarrow> audit_row list \<Rightarrow> string list" where
  "chain_texts sha canon links rows =
     map canon rows @ concat (map (\<lambda>l. map (\<lambda>r. cl_prev l @ sha (canon r)) rows) links)"

definition collides :: "(string \<Rightarrow> string) \<Rightarrow> string list \<Rightarrow> bool" where
  "collides sha ts \<longleftrightarrow> (\<exists>x\<in>set ts. \<exists>y\<in>set ts. x \<noteq> y \<and> sha x = sha y)"

lemma chain_texts_iff:
  "t \<in> set (chain_texts sha canon links rows) \<longleftrightarrow>
    (\<exists>r\<in>set rows. t = canon r) \<or> (\<exists>l\<in>set links. \<exists>r\<in>set rows. t = cl_prev l @ sha (canon r))"
  by (auto simp: chain_texts_def)

lemma chain_texts_mono:
  "set links \<subseteq> set links' \<Longrightarrow> set rows \<subseteq> set rows' \<Longrightarrow>
    set (chain_texts sha canon links rows) \<subseteq> set (chain_texts sha canon links' rows')"
  unfolding subset_iff chain_texts_iff by metis

lemma seal_run_chain:
  assumes "fst c = seal_rows sha canon GENESIS (snd c)" "sorted (map au_seq (snd c))"
  shows "fst (seal_run sha canon rows c) = seal_rows sha canon GENESIS (snd (seal_run sha canon rows c))
    \<and> sorted (map au_seq (snd (seal_run sha canon rows c)))"
proof -
  let ?new = "sort_key au_seq (filter (\<lambda>r. fst (chain_head (fst c)) < au_seq r) rows)"
  have len: "length (fst c) = length (snd c)"
    using assms(1) by (simp add: seal_rows_length)
  have head: "chain_head (fst c) = (if snd c = [] then (0, GENESIS) else (au_seq (last (snd c)), cl_hash (last (fst c))))"
  proof (cases "snd c = []")
    case False
    then have ne: "fst c \<noteq> []" using len by auto
    have "cl_seq (last (fst c)) = au_seq (last (snd c))"
      using arg_cong [OF seal_rows_seqs [of sha canon GENESIS "snd c"], of last] assms(1) ne False
      by (simp add: last_map)
    then show ?thesis
      using False ne assms by (simp add: chain_head_def sorted_seal)
  qed (use len in \<open>simp add: chain_head_def\<close>)
  have last: "au_seq x \<le> au_seq (last (snd c))" if "x \<in> set (snd c)" for x
    using assms(2) that by (cases "snd c" rule: rev_cases) (auto simp: sorted_append)
  have "sorted (map au_seq (snd c @ ?new))"
    using assms(2) last head by (cases "snd c = []") (auto simp: sorted_append intro: order_trans less_imp_le)
  moreover have "seal sha canon rows (fst c) = seal_rows sha canon GENESIS (snd c @ ?new)"
    using head len assms(1) by (cases "snd c = []") (auto simp: seal_def seal_rows_append Let_def split_beta)
  ultimately show ?thesis by (simp add: seal_run_def)
qed

lemma sealed_by_chain:
  "fst (sealed_by sha canon tables) = seal_rows sha canon GENESIS (snd (sealed_by sha canon tables))
    \<and> sorted (map au_seq (snd (sealed_by sha canon tables)))"
proof -
  have "fst (fold (seal_run sha canon) tables c) = seal_rows sha canon GENESIS (snd (fold (seal_run sha canon) tables c))
      \<and> sorted (map au_seq (snd (fold (seal_run sha canon) tables c)))"
    if "fst c = seal_rows sha canon GENESIS (snd c)" "sorted (map au_seq (snd c))" for c
    using that
  proof (induction tables arbitrary: c)
    case (Cons rows tables)
    then show ?case using seal_run_chain [OF Cons.prems] by simp
  qed simp
  then show ?thesis by (simp add: sealed_by_def)
qed

lemma walk_same_rows:
  assumes "verify_walk sha canon rows' prev expected (seal_rows sha canon prev rs) = None"
    and "set (chain_texts sha canon (seal_rows sha canon prev rs) (rs @ rows')) \<subseteq> set ts" "\<not> collides sha ts"
  shows "\<forall>r\<in>set rs. \<exists>r'\<in>set rows'. au_seq r' = au_seq r \<and> canon r' = canon r"
  using assms
proof (induction rs arbitrary: prev expected)
  case (Cons r rs)
  let ?h = "link_hash sha prev (row_digest sha canon r)"
  obtain r' where r': "row_at rows' (au_seq r) = Some r'" "link_hash sha prev (row_digest sha canon r') = ?h"
    and rest: "verify_walk sha canon rows' ?h (Some (Suc (au_seq r))) (seal_rows sha canon ?h rs) = None"
    using Cons.prems(1) by (auto simp: Let_def split: if_splits option.splits)
  have mem: "r' \<in> set rows'" "au_seq r' = au_seq r" using row_at_Some [OF r'(1)] by auto
  have inj: "x = y" if "sha x = sha y" "x \<in> set ts" "y \<in> set ts" for x y
    using that Cons.prems(3) by (auto simp: collides_def)
  have texts: "canon r \<in> set ts" "canon r' \<in> set ts" "prev @ sha (canon r) \<in> set ts" "prev @ sha (canon r') \<in> set ts"
    using Cons.prems(2) mem(1) by (simp_all add: chain_texts_def Let_def subset_iff)
  have "prev @ sha (canon r') = prev @ sha (canon r)"
    by (rule inj [OF r'(2) [unfolded link_hash_def row_digest_def] texts(4,3)])
  then have "sha (canon r') = sha (canon r)" by simp
  then have "canon r' = canon r" by (rule inj [OF _ texts(2,1)])
  moreover have "set (chain_texts sha canon (seal_rows sha canon ?h rs) (rs @ rows')) \<subseteq> set ts"
    using order_trans [OF chain_texts_mono Cons.prems(2)] by (simp add: Let_def subset_insertI2)
  ultimately show ?case
    using Cons.IH [OF rest _ Cons.prems(3)] mem by auto
qed simp

lemma verify_ok_walk:
  "vr_ok (chain_verify sha canon rows links None) \<longleftrightarrow>
   verify_walk sha canon rows GENESIS None (sort_key cl_seq links) = None"
proof -
  have "\<not> vr_ok bad" if "verify_walk sha canon rows p e ls = Some bad" for p e ls bad
    using that by (induction ls arbitrary: p e) (auto simp: verify_bad_def split: if_splits option.splits)
  then show ?thesis
    by (auto simp: chain_verify_def Let_def split: option.splits)
qed

section \<open>Properties\<close>

text \<open>
  Sealing makes a chain that verifies: if the audit rows carry distinct, consecutive sequence numbers
  (from 1 or later), sealing them all and re-walking the chain finds nothing wrong, and the head is the last row.
\<close>

theorem seal_verifies:
  assumes "distinct (map au_seq rows)" "consecutive (map au_seq (sort_key au_seq rows))" "\<forall>r\<in>set rows. 0 < au_seq r"
  shows "vr_ok (chain_verify sha canon rows (seal sha canon rows []) None)
    \<and> vr_checked (chain_verify sha canon rows (seal sha canon rows []) None) = length rows"
proof -
  let ?rs = "sort_key au_seq rows"
  have links: "seal sha canon rows [] = seal_rows sha canon GENESIS ?rs"
    using assms(3) by (rule seal_Nil)
  have sorted: "sort_key cl_seq (seal sha canon rows []) = seal_rows sha canon GENESIS ?rs"
    unfolding links by (simp add: sorted_seal)
  have walk: "verify_walk sha canon rows GENESIS None (seal_rows sha canon GENESIS ?rs) = None"
    using walk_sealed [OF assms(1)] assms(2) by simp
  have "length (seal_rows sha canon GENESIS ?rs) = length rows"
    using arg_cong [OF seal_rows_seqs, of length] by simp
  then show ?thesis
    using walk sorted by (auto simp: chain_verify_def Let_def)
qed

text \<open>
  C5. The chain detects tampering: take the links any sequence of sealing runs leaves, each run over the table as
  it was at that time. If a later walk over these links accepts a table, every row that was ever sealed is in it
  under its sequence number with the canonical text it had when it was sealed, or two different texts of the
  finite list that sealing and the walk hashed have the same hash: a change that goes unnoticed is a collision
  found for the hash. Nothing is assumed of the hash.
\<close>

theorem chain_detects_tampering:
  assumes "vr_ok (chain_verify sha canon rows' (fst (sealed_by sha canon tables)) None)"
  shows "(\<forall>r\<in>set (snd (sealed_by sha canon tables)). \<exists>r'\<in>set rows'. au_seq r' = au_seq r \<and> canon r' = canon r)
    \<or> collides sha (chain_texts sha canon (fst (sealed_by sha canon tables)) (snd (sealed_by sha canon tables) @ rows'))"
proof -
  let ?rs = "snd (sealed_by sha canon tables)"
  have links: "fst (sealed_by sha canon tables) = seal_rows sha canon GENESIS ?rs" "sorted (map au_seq ?rs)"
    using sealed_by_chain by auto
  then have "verify_walk sha canon rows' GENESIS None (seal_rows sha canon GENESIS ?rs) = None"
    using assms by (simp add: verify_ok_walk sorted_seal)
  from walk_same_rows [OF this, of "chain_texts sha canon (seal_rows sha canon GENESIS ?rs) (?rs @ rows')"]
  show ?thesis unfolding links(1) by blast
qed

text \<open>
  A rolled-back transaction makes the chain cry wolf: after an audited request, one that is audited and
  rolls back, and another audited request, the honestly sealed chain fails verification with a sequence gap,
  whatever the hash is.
\<close>

theorem rollback_breaks_chain:
  assumes "audit_write env True rq1 db0 = Inr db1" "audit_write env True rq2 db1 = Inr db2"
    and "audit_write env True rq3 (audit_rollback db1 db2) = Inr db3"
    and "db0 = \<lparr>audit_events = [], audit_next_seq = 1\<rparr>"
  shows "\<not> vr_ok (chain_verify sha canon (audit_events db3) (seal sha canon (audit_events db3) []) None)
    \<and> vr_detail (chain_verify sha canon (audit_events db3) (seal sha canon (audit_events db3) []) None) = ''seq gap''"
proof -
  obtain r1 r3 where rows: "audit_events db3 = [r1, r3]" "au_seq r1 = 1" "au_seq r3 = 3"
    using assms by (auto simp: audit_write_def audit_rollback_def Let_def split: if_splits)
  have "seal sha canon [r1, r3] [] = seal_rows sha canon GENESIS [r1, r3]"
    using rows by (simp add: seal_Nil)
  then show ?thesis
    using rows by (simp add: chain_verify_def Let_def row_at_def find_first_def verify_bad_def)
qed


section \<open>Witnesses\<close>

definition sample_request :: audit_request where
  "sample_request = \<lparr>rq_action = ''LOGIN'', rq_actor = Some 7, rq_client = None, rq_workplace = None,
     rq_target_type = None, rq_target_id = None, rq_before = None, rq_after = Some [(''ok'', PBool True)],
     rq_reason = None, rq_event_seq = None\<rparr>"

definition sample_env :: audit_env where
  "sample_env = \<lparr>env_node = ''a'', env_correlation = None, env_now = 0, env_secrets = []\<rparr>"

definition sample_row :: "nat \<Rightarrow> audit_row" where
  "sample_row n = \<lparr>au_id = n, au_seq = n, au_occurred = 0, au_node = ''a'', au_action = ''LOGIN'', au_actor = Some 7,
     au_client = None, au_workplace = None, au_target_type = None, au_target_id = None, au_before = None,
     au_after = Some [(''ok'', PBool True)], au_reason = None, au_correlation = None, au_event_seq = None\<rparr>"

definition audit_at :: "nat list \<Rightarrow> nat \<Rightarrow> audit_db" where
  "audit_at ns next = \<lparr>audit_events = map sample_row ns, audit_next_seq = next\<rparr>"

theorem seal_verifies_witness:
  "vr_checked (chain_verify (\<lambda>t. t) (canonical (\<lambda>_. []) nat_str int_str) [sample_row 2, sample_row 1]
     (seal (\<lambda>t. t) (canonical (\<lambda>_. []) nat_str int_str) [sample_row 2, sample_row 1] []) None) = 2"
  using seal_verifies [of "[sample_row 2, sample_row 1]" "\<lambda>t. t" "canonical (\<lambda>_. []) nat_str int_str"]
  by (simp add: sample_row_def)

text \<open>A hash with finitely many values, hence with collisions, though none on the texts of the sample chain.\<close>

definition sample_sha :: "string \<Rightarrow> string" where
  "sample_sha t = take 7 (rev t) @ (if length t < 10 then ''0'' else if length t < 20 then ''1'' else ''2'')"

definition sample_canon :: "audit_row \<Rightarrow> string" where
  "sample_canon r = au_action r @ nat_str (au_seq r)"

definition sample_chain :: "chain_link list \<times> audit_row list" where
  "sample_chain = sealed_by sample_sha sample_canon [[sample_row 1], [sample_row 2, sample_row 1]]"

theorem chain_detects_tampering_witness:
  "snd sample_chain = [sample_row 1, sample_row 2]
    \<and> (\<exists>r'\<in>set [sample_row 2, sample_row 1]. au_seq r' = 1 \<and> sample_canon r' = sample_canon (sample_row 1))"
proof -
  have ok: "vr_ok (chain_verify sample_sha sample_canon [sample_row 2, sample_row 1] (fst sample_chain) None)"
    by code_simp
  have free: "\<not> collides sample_sha (chain_texts sample_sha sample_canon (fst sample_chain)
      (snd sample_chain @ [sample_row 2, sample_row 1]))" by code_simp
  have rows: "snd sample_chain = [sample_row 1, sample_row 2]" by code_simp
  have "\<forall>r\<in>set (snd sample_chain). \<exists>r'\<in>set [sample_row 2, sample_row 1].
      au_seq r' = au_seq r \<and> sample_canon r' = sample_canon r"
    using chain_detects_tampering [OF ok [unfolded sample_chain_def]] free unfolding sample_chain_def by blast
  moreover have "au_seq (sample_row 1) = 1" by (simp add: sample_row_def)
  ultimately show ?thesis unfolding rows by simp
qed

theorem rollback_breaks_chain_witness:
  "vr_detail (chain_verify (\<lambda>t. t) (\<lambda>_. []) (audit_events (audit_at [1, 3] 4))
     (seal (\<lambda>t. t) (\<lambda>_. []) (audit_events (audit_at [1, 3] 4)) []) None) = ''seq gap''"
proof -
  have 1: "audit_write sample_env True sample_request \<lparr>audit_events = [], audit_next_seq = 1\<rparr> = Inr (audit_at [1] 2)"
    and 2: "audit_write sample_env True sample_request (audit_at [1] 2) = Inr (audit_at [1, 2] 3)"
    and 3: "audit_write sample_env True sample_request (audit_rollback (audit_at [1] 2) (audit_at [1, 2] 3)) = Inr (audit_at [1, 3] 4)"
    by code_simp+
  show ?thesis using rollback_breaks_chain [OF 1 2 3 refl] by blast
qed

end
