(* ===== verification/Outbox.thy ===== *)
theory Outbox
  imports Dedupe Audit_Trail Event_Log
begin

text \<open>
  \<^verbatim>\<open>server/bbz_core/infra/outbox.py\<close> (enqueue, claim, the three outcomes) and \<^verbatim>\<open>workers/outbox_dispatcher.py\<close> (one batch of the
  dispatcher, the notes it leaves on the triggering event). A handler is a function from the payload to its
  result or its exception text; \<open>ds_calls\<close> records the calls, with success, because they are the effects that the outbox is about.
\<close>

section \<open>The table\<close>

record outbox_row =
  ob_id :: nat
  ob_dedupe :: string
  ob_action :: string
  ob_payload :: pydict
  ob_status :: string
  ob_attempts :: nat
  ob_next_at :: instant
  ob_last_error :: "string option"
  ob_result :: "pydict option"
  ob_dispatched_at :: "instant option"

definition MAX_ATTEMPTS :: nat where
  "MAX_ATTEMPTS = 8"

definition outbox_backoff :: "instant \<Rightarrow> nat \<Rightarrow> instant" where
  "outbox_backoff now attempts = now + min (5 * 2 ^ attempts) (30 * 60) * 1000000"

datatype outbox_error = OutboxNotInTransaction

type_synonym outbox_request = "string \<times> string \<times> pydict"

definition outbox_put :: "string list \<Rightarrow> instant \<Rightarrow> outbox_request \<Rightarrow> outbox_row list \<Rightarrow> bool \<times> outbox_row list" where
  "outbox_put secrets now rq rows =
     (case rq of (dedupe, action, payload) \<Rightarrow>
        if dedupe \<in> ob_dedupe ` set rows then (False, rows)
        else (True, rows @ [\<lparr>ob_id = length rows, ob_dedupe = dedupe, ob_action = action,
          ob_payload = scrub_dict secrets payload, ob_status = ''pending'', ob_attempts = 0, ob_next_at = now,
          ob_last_error = None, ob_result = None, ob_dispatched_at = None\<rparr>]))"

definition enqueue ::
  "string list \<Rightarrow> instant \<Rightarrow> bool \<Rightarrow> outbox_request \<Rightarrow> outbox_row list \<Rightarrow> (outbox_error, bool \<times> outbox_row list) res" where
  "enqueue secrets now in_transaction rq rows =
     (if \<not> in_transaction then Inl OutboxNotInTransaction else Inr (outbox_put secrets now rq rows))"

definition claim_due :: "instant \<Rightarrow> nat \<Rightarrow> outbox_row list \<Rightarrow> nat list" where
  "claim_due now limit rows =
     map ob_id (take limit (sort_key ob_next_at (filter (\<lambda>r. ob_status r = ''pending'' \<and> ob_next_at r \<le> now) rows)))"

definition mark_dispatched :: "string list \<Rightarrow> instant \<Rightarrow> pydict option \<Rightarrow> outbox_row \<Rightarrow> outbox_row" where
  "mark_dispatched secrets now result r =
     r\<lparr>ob_status := ''dispatched'', ob_attempts := ob_attempts r + 1,
       ob_result := map_option (scrub_dict secrets) result, ob_last_error := None, ob_dispatched_at := Some now\<rparr>"

definition mark_retry :: "string list \<Rightarrow> instant \<Rightarrow> string \<Rightarrow> outbox_row \<Rightarrow> outbox_row" where
  "mark_retry secrets now err r =
     r\<lparr>ob_attempts := ob_attempts r + 1, ob_last_error := Some (scrub_text secrets err),
       ob_next_at := outbox_backoff now (ob_attempts r + 1)\<rparr>"

definition mark_failed :: "string list \<Rightarrow> string \<Rightarrow> outbox_row \<Rightarrow> outbox_row" where
  "mark_failed secrets err r =
     r\<lparr>ob_status := ''failed'', ob_attempts := ob_attempts r + 1, ob_last_error := Some (scrub_text secrets err)\<rparr>"

interpretation outbox_store: dedupe_store "outbox_put secrets now" fst "\<lambda>rows. ob_dedupe ` set rows"
  by unfold_locales (auto simp: outbox_put_def split: prod.splits)

section \<open>The dispatcher\<close>

type_synonym handler = "pydict \<Rightarrow> (string, pydict option) res"

record dispatcher =
  ds_rows :: "outbox_row list"
  ds_audit :: audit_db
  ds_log :: event_log
  ds_calls :: "(nat \<times> bool) list"

record dispatch_env =
  de_handlers :: "(string \<times> handler) list"
  de_audit_env :: audit_env
  de_validators :: validators
  de_str :: "pyval \<Rightarrow> string"        \<comment> \<open>\<^verbatim>\<open>str(value)\<close>\<close>

definition DEFAULT_HANDLERS :: "(string \<times> handler) list" where
  "DEFAULT_HANDLERS = [(''noop'', \<lambda>_. Inr None), (''notify'', \<lambda>_. Inr (Some [(''delivered'', PBool True)]))]"

definition register_handler :: "string \<Rightarrow> handler \<Rightarrow> (string \<times> handler) list \<Rightarrow> (string \<times> handler) list" where
  "register_handler action h hs = dict_set action h hs"

definition CAMERA_ACTION_TYPES :: "string list" where
  "CAMERA_ACTION_TYPES = [''open_camera'', ''open_camera_group'']"

text \<open>\<^verbatim>\<open>[str(r) for r in payload.get("camera_refs") or ...]\<close>; \<open>None\<close> is the \<^verbatim>\<open>TypeError\<close> of a value that cannot be iterated.\<close>

definition camera_refs :: "(pyval \<Rightarrow> string) \<Rightarrow> pydict \<Rightarrow> pyval list option" where
  "camera_refs str_of payload =
     (let refs = dict_get payload ''camera_refs'';
          one = (if py_truthy (dict_get payload ''camera_ref'') then [dict_get payload ''camera_ref''] else []) in
      map_option (map (\<lambda>v. PStr (str_of v)))
        (if \<not> py_truthy refs then Some one
         else (case refs of
                 PList xs \<Rightarrow> Some xs
               | PStr t \<Rightarrow> Some (map (\<lambda>c. PStr [c]) t)
               | PDict d \<Rightarrow> Some (map (\<lambda>p. PStr (fst p)) d)
               | _ \<Rightarrow> None)))"

definition opt_text :: "string option \<Rightarrow> pyval" where
  "opt_text t = (case t of None \<Rightarrow> PNone | Some s \<Rightarrow> PStr s)"

definition note_env :: "dispatch_env \<Rightarrow> event_env" where
  "note_env env = \<lparr>ee_node = env_node (de_audit_env env), ee_correlation = env_correlation (de_audit_env env),
     ee_now = env_now (de_audit_env env), ee_secrets = env_secrets (de_audit_env env), ee_in_transaction = True\<rparr>"

text \<open>A note on the triggering event; an error of the append is swallowed, what it flushed stays.\<close>

definition append_note ::
  "dispatch_env \<Rightarrow> outbox_row \<Rightarrow> string \<Rightarrow> (pyval list \<Rightarrow> pydict) \<Rightarrow> event_log \<Rightarrow> event_log" where
  "append_note env r kind payload elog =
     (if ob_action r \<notin> set CAMERA_ACTION_TYPES \<or> \<not> py_truthy (dict_get (ob_payload r) ''event_id'') then elog
      else (case camera_refs (de_str env) (ob_payload r) of
              None \<Rightarrow> elog
            | Some refs \<Rightarrow> snd (append_event (de_validators env) (note_env env)
                \<lparr>er_aggregate_type = ''event'', er_aggregate_id = de_str env (dict_get (ob_payload r) ''event_id''),
                  er_event_type = kind, er_payload = payload refs, er_schema_version = 1, er_user = None, er_client = None,
                  er_command = None, er_local = None\<rparr> elog)))"

definition on_terminal_failure :: "dispatch_env \<Rightarrow> outbox_row \<Rightarrow> event_log \<Rightarrow> event_log" where
  "on_terminal_failure env r =
     append_note env r ''CAMERA_ACTION_FAILED'' (\<lambda>refs.
       [(''action_type'', PStr (ob_action r)), (''camera_refs'', PList refs),
        (''error'', opt_text (ob_last_error r)), (''attempts'', PInt (int (ob_attempts r)))])"

definition on_camera_dispatched :: "dispatch_env \<Rightarrow> outbox_row \<Rightarrow> event_log \<Rightarrow> event_log" where
  "on_camera_dispatched env r =
     append_note env r ''CAMERA_OPENED'' (\<lambda>refs.
       [(''action_type'', PStr (ob_action r)), (''camera_refs'', PList refs),
        (''workplace_id'', dict_get (ob_payload r) ''workplace_id'')])"

definition dispatch_audit :: "dispatch_env \<Rightarrow> bool \<Rightarrow> outbox_row \<Rightarrow> audit_db \<Rightarrow> audit_db" where
  "dispatch_audit env ok r db =
     (case audit_write (de_audit_env env) True
        \<lparr>rq_action = (if ok then ''EXTERNAL_ACTION_DISPATCHED'' else ''EXTERNAL_ACTION_FAILED''), rq_actor = None,
          rq_client = None, rq_workplace = None, rq_target_type = Some ''external_action'',
          rq_target_id = Some (nat_str (ob_id r)), rq_before = None,
          rq_after = Some [(''action_type'', PStr (ob_action r)), (''attempts'', PInt (int (ob_attempts r))),
            (''status'', PStr (ob_status r))],
          rq_reason = (if ok then None else case ob_last_error r of
             None \<Rightarrow> Some ''dispatch failed'' | Some e \<Rightarrow> Some (if e = '''' then ''dispatch failed'' else e)),
          rq_event_seq = None\<rparr> db of
        Inl _ \<Rightarrow> db
      | Inr db' \<Rightarrow> db')"

text \<open>\<^verbatim>\<open>repr\<close> of a string: the quotes and the escapes that Python chooses.\<close>

definition repr_char :: "nat \<Rightarrow> char \<Rightarrow> string" where
  "repr_char quote c =
     (let n = ord_of c in
      if n = quote \<or> n = 92 then [CHR 0x5C, c]
      else if n = 9 then [CHR 0x5C, CHR ''t''] else if n = 10 then [CHR 0x5C, CHR ''n''] else if n = 13 then [CHR 0x5C, CHR ''r'']
      else if n < 32 \<or> 127 \<le> n \<and> n \<le> 160 \<or> n = 173 then [CHR 0x5C, CHR ''x'', hex_digit (n div 16), hex_digit (n mod 16)]
      else [c])"

definition py_repr :: "string \<Rightarrow> string" where
  "py_repr t =
     (let quote = (if CHR 0x27 \<in> set t \<and> CHR 0x22 \<notin> set t then CHR 0x22 else CHR 0x27) in
      [quote] @ concat (map (repr_char (ord_of quote)) t) @ [quote])"

definition process_row :: "dispatch_env \<Rightarrow> nat \<Rightarrow> outbox_row \<Rightarrow> dispatcher \<Rightarrow> dispatcher" where
  "process_row env i r s =
     (let secrets = env_secrets (de_audit_env env); now = env_now (de_audit_env env);
          store = (\<lambda>r' s'. s'\<lparr>ds_rows := (ds_rows s')[i := r']\<rparr>) in
      case map_of (de_handlers env) (ob_action r) of
        None \<Rightarrow>
          (let r' = mark_failed secrets (''no handler for '' @ py_repr (ob_action r)) r in
           store r' (s\<lparr>ds_audit := dispatch_audit env False r' (ds_audit s)\<rparr>))
      | Some handler \<Rightarrow>
          (case handler (ob_payload r) of
             Inl exc \<Rightarrow>
               (let s1 = s\<lparr>ds_calls := ds_calls s @ [(ob_id r, False)]\<rparr> in
                if MAX_ATTEMPTS \<le> ob_attempts r + 1 then
                  (let r' = mark_failed secrets exc r in
                   store r' (s1\<lparr>ds_audit := dispatch_audit env False r' (ds_audit s1),
                     ds_log := on_terminal_failure env r' (ds_log s1)\<rparr>))
                else store (mark_retry secrets now exc r) s1)
           | Inr result \<Rightarrow>
               (let s1 = s\<lparr>ds_calls := ds_calls s @ [(ob_id r, True)]\<rparr>; r' = mark_dispatched secrets now result r in
                store r' (s1\<lparr>ds_audit := dispatch_audit env True r' (ds_audit s1),
                  ds_log := on_camera_dispatched env r' (ds_log s1)\<rparr>))))"

definition process_one :: "dispatch_env \<Rightarrow> nat \<Rightarrow> dispatcher \<Rightarrow> dispatcher" where
  "process_one env row_id s =
     (case index_of (\<lambda>r. ob_id r = row_id) (ds_rows s) of
        None \<Rightarrow> s
      | Some i \<Rightarrow> if ob_status (ds_rows s ! i) \<noteq> ''pending'' then s else process_row env i (ds_rows s ! i) s)"

definition run_once :: "dispatch_env \<Rightarrow> nat \<Rightarrow> dispatcher \<Rightarrow> nat \<times> dispatcher" where
  "run_once env limit s =
     (let ids = claim_due (env_now (de_audit_env env)) limit (ds_rows s) in
      (length ids, fold (process_one env) ids s))"

text \<open>A worker that dies after the handler has returned and before its transaction commits: the effect is out, the row is
  as it was.\<close>

definition crash_one :: "dispatch_env \<Rightarrow> nat \<Rightarrow> dispatcher \<Rightarrow> dispatcher" where
  "crash_one env row_id s = s\<lparr>ds_calls := ds_calls (process_one env row_id s)\<rparr>"

text \<open>
  The claim of a batch writes nothing and its locks end with its transaction, so between the rows of a batch other workers may run: besides
  whole batches, a step is the transaction of one row, of any row that any earlier claim returned.
\<close>

inductive dispatch_step :: "bool \<Rightarrow> dispatcher \<Rightarrow> dispatcher \<Rightarrow> bool" for crashes where
  enq: "dispatch_step crashes s (s\<lparr>ds_rows := snd (outbox_put secrets now rq (ds_rows s))\<rparr>)"
| batch: "dispatch_step crashes s (snd (run_once env limit s))"
| one: "dispatch_step crashes s (process_one env row_id s)"
| crash: "crashes \<Longrightarrow> dispatch_step crashes s (crash_one env row_id s)"

inductive_cases dispatch_stepE: "dispatch_step crashes s t"

section \<open>Invariant\<close>

definition row_ok :: "(nat \<times> bool) list \<Rightarrow> outbox_row \<Rightarrow> bool" where
  "row_ok calls r \<longleftrightarrow>
     ob_attempts r \<le> MAX_ATTEMPTS \<and> (ob_status r = ''pending'' \<longrightarrow> ob_attempts r < MAX_ATTEMPTS)
     \<and> ob_status r \<in> {''pending'', ''dispatched'', ''failed''}
     \<and> count_list calls (ob_id r, True) = (if ob_status r = ''dispatched'' then 1 else 0)"

definition disp_inv :: "dispatcher \<Rightarrow> bool" where
  "disp_inv s \<longleftrightarrow>
     distinct (map ob_dedupe (ds_rows s)) \<and> map ob_id (ds_rows s) = [0..<length (ds_rows s)]
     \<and> (\<forall>r\<in>set (ds_rows s). row_ok (ds_calls s) r)
     \<and> (\<forall>c\<in>set (ds_calls s). fst c < length (ds_rows s))"


lemma count_list_append_single [simp]: "count_list (xs @ [y]) x = count_list xs x + (if y = x then 1 else 0)"
  by (induction xs) auto

text \<open>What processing a pending row does to it and to the calls.\<close>

lemma process_row_effect:
  obtains r' ok where "ds_rows (process_row env i r s) = (ds_rows s)[i := r']" "ob_id r' = ob_id r" "ob_dedupe r' = ob_dedupe r"
    "ob_attempts r' = Suc (ob_attempts r)" "ob_status r' \<in> {ob_status r, ''dispatched'', ''failed''}"
    "ob_status r' = ob_status r \<longrightarrow> Suc (ob_attempts r) < MAX_ATTEMPTS \<or> ob_status r \<noteq> ''pending''"
    "ds_calls (process_row env i r s) = ds_calls s @ ok" "ok \<in> {[], [(ob_id r, False)], [(ob_id r, True)]}"
    "ob_status r = ''pending'' \<longrightarrow> (ok = [(ob_id r, True)] \<longleftrightarrow> ob_status r' = ''dispatched'')"
proof (cases "map_of (de_handlers env) (ob_action r)")
  case None
  then show thesis
    by (intro that [of "mark_failed (env_secrets (de_audit_env env)) (''no handler for '' @ py_repr (ob_action r)) r" "[]"])
      (auto simp: process_row_def Let_def mark_failed_def)
next
  case (Some h)
  show thesis
  proof (cases "h (ob_payload r)")
    case (Inl exc)
    show thesis
    proof (cases "MAX_ATTEMPTS \<le> ob_attempts r + 1")
      case True
      with Some Inl show thesis
        by (intro that [of "mark_failed (env_secrets (de_audit_env env)) exc r" "[(ob_id r, False)]"])
          (auto simp: process_row_def Let_def mark_failed_def)
    next
      case False
      with Some Inl show thesis
        by (intro that [of "mark_retry (env_secrets (de_audit_env env)) (env_now (de_audit_env env)) exc r" "[(ob_id r, False)]"])
          (auto simp: process_row_def Let_def mark_retry_def)
    qed
  next
    case (Inr result)
    with Some show thesis
      by (intro that [of "mark_dispatched (env_secrets (de_audit_env env)) (env_now (de_audit_env env)) result r" "[(ob_id r, True)]"])
        (auto simp: process_row_def Let_def mark_dispatched_def)
  qed
qed

lemma disp_inv_id:
  assumes "disp_inv s" "i < length (ds_rows s)"
  shows "ob_id (ds_rows s ! i) = i"
proof -
  have "map ob_id (ds_rows s) ! i = [0..<length (ds_rows s)] ! i" using assms(1) by (simp add: disp_inv_def)
  then show ?thesis using assms(2) by simp
qed

lemma process_one_cases:
  obtains "process_one env k s = s"
  | i where "i < length (ds_rows s)" "ob_id (ds_rows s ! i) = k" "ob_status (ds_rows s ! i) = ''pending''"
      "process_one env k s = process_row env i (ds_rows s ! i) s"
proof (cases "index_of (\<lambda>r. ob_id r = k) (ds_rows s)")
  case None
  then have "process_one env k s = s" by (simp add: process_one_def del: index_of_None)
  then show thesis by (rule that(1))
next
  case (Some i)
  then have i: "i < length (ds_rows s)" "ob_id (ds_rows s ! i) = k" using index_of_Some [OF Some] by simp_all
  show thesis
  proof (cases "ob_status (ds_rows s ! i) = ''pending''")
    case True
    with Some have "process_one env k s = process_row env i (ds_rows s ! i) s" by (simp add: process_one_def)
    with i True show thesis by (rule that(2))
  next
    case False
    with Some have "process_one env k s = s" by (simp add: process_one_def)
    then show thesis by (rule that(1))
  qed
qed

lemma row_ok_other: "row_ok calls r \<Longrightarrow> (\<forall>c\<in>set cs. fst c \<noteq> ob_id r) \<Longrightarrow> row_ok (calls @ cs) r"
  by (auto simp: row_ok_def count_list_0_iff)

lemma process_one_inv:
  assumes inv: "disp_inv s"
  shows "disp_inv (process_one env k s)"
proof (cases rule: process_one_cases [of env k s])
  case (2 i)
  let ?r = "ds_rows s ! i"
  obtain r' ok where eff: "ds_rows (process_row env i ?r s) = (ds_rows s)[i := r']" "ob_id r' = ob_id ?r"
    "ob_dedupe r' = ob_dedupe ?r" "ob_attempts r' = Suc (ob_attempts ?r)" "ob_status r' \<in> {ob_status ?r, ''dispatched'', ''failed''}"
    "ob_status r' = ob_status ?r \<longrightarrow> Suc (ob_attempts ?r) < MAX_ATTEMPTS \<or> ob_status ?r \<noteq> ''pending''"
    "ds_calls (process_row env i ?r s) = ds_calls s @ ok" "ok \<in> {[], [(ob_id ?r, False)], [(ob_id ?r, True)]}"
    "ob_status ?r = ''pending'' \<longrightarrow> (ok = [(ob_id ?r, True)] \<longleftrightarrow> ob_status r' = ''dispatched'')"
    by (rule process_row_effect)
  have mem: "?r \<in> set (ds_rows s)" using 2(1) by simp
  have old: "row_ok (ds_calls s) ?r" using inv mem by (simp add: disp_inv_def)
  have new: "row_ok (ds_calls s @ ok) r'"
    using old eff(2,4,5,6,8,9) 2(3) by (auto simp: row_ok_def)
  have "row_ok (ds_calls s @ ok) q" if "q \<in> set ((ds_rows s)[i := r'])" for q
  proof -
    obtain j where j: "j < length (ds_rows s)" "q = (ds_rows s)[i := r'] ! j" using \<open>q \<in> _\<close> by (auto simp: in_set_conv_nth)
    show ?thesis
    proof (cases "j = i")
      case True
      then show ?thesis using new j by simp
    next
      case False
      then have q: "q = ds_rows s ! j" using j by simp
      moreover have "\<forall>c\<in>set ok. fst c = i" using eff(8) disp_inv_id [OF inv 2(1)] by auto
      ultimately show ?thesis
        using inv j(1) False disp_inv_id [OF inv j(1)] by (intro row_ok_other) (auto simp: disp_inv_def)
    qed
  qed
  moreover have "map ob_dedupe ((ds_rows s)[i := r']) = map ob_dedupe (ds_rows s)" "map ob_id ((ds_rows s)[i := r']) = map ob_id (ds_rows s)"
    using eff(2,3) 2(1) by (simp_all add: map_update list_update_same_conv)
  moreover have "\<forall>c\<in>set (ds_calls s @ ok). fst c < length (ds_rows s)"
    using inv eff(8) disp_inv_id [OF inv 2(1)] 2(1) by (auto simp: disp_inv_def)
  ultimately show ?thesis
    using inv unfolding 2(4) disp_inv_def eff(1,7) length_list_update by simp
qed (use inv in simp)

lemma fold_process_inv: "disp_inv s \<Longrightarrow> disp_inv (fold (process_one env) ks s)"
  by (induction ks arbitrary: s) (auto intro: process_one_inv)

lemma put_inv: "disp_inv s \<Longrightarrow> disp_inv (s\<lparr>ds_rows := snd (outbox_put secrets now rq (ds_rows s))\<rparr>)"
proof -
  assume inv: "disp_inv s"
  have "count_list (ds_calls s) (length (ds_rows s), True) = 0"
    using inv by (auto simp: disp_inv_def count_list_0_iff)
  then show ?thesis
    using inv by (auto simp: disp_inv_def outbox_put_def row_ok_def MAX_ATTEMPTS_def image_iff split: prod.splits)
qed

definition empty_dispatcher :: dispatcher where
  "empty_dispatcher = \<lparr>ds_rows = [], ds_audit = \<lparr>audit_events = [], audit_next_seq = 1\<rparr>,
     ds_log = \<lparr>el_rows = [], el_next_seq = 1\<rparr>, ds_calls = []\<rparr>"

lemma dispatch_inv:
  assumes "(dispatch_step False)\<^sup>*\<^sup>* empty_dispatcher s"
  shows "disp_inv s"
  using assms
proof (induction rule: rtranclp_induct)
  case base
  show ?case by (simp add: disp_inv_def empty_dispatcher_def)
next
  case (step s t)
  from step.hyps(2) show ?case
    using put_inv [OF step.IH] fold_process_inv [OF step.IH] process_one_inv [OF step.IH]
    by cases (simp_all add: run_once_def Let_def)
qed

lemma process_one_attempts:
  assumes "disp_inv s" "k < length (ds_rows s)"
  shows "k < length (ds_rows (process_one env k s))" and
    "ob_status (ds_rows (process_one env k s) ! k) = ''pending'' \<Longrightarrow> ob_status (ds_rows s ! k) = ''pending''
       \<and> ob_attempts (ds_rows (process_one env k s) ! k) = Suc (ob_attempts (ds_rows s ! k))"
proof -
  have id: "ob_id (ds_rows s ! k) = k" using disp_inv_id [OF assms] .
  have "k < length (ds_rows (process_one env k s)) \<and>
    (ob_status (ds_rows (process_one env k s) ! k) = ''pending'' \<longrightarrow> ob_status (ds_rows s ! k) = ''pending''
       \<and> ob_attempts (ds_rows (process_one env k s) ! k) = Suc (ob_attempts (ds_rows s ! k)))"
  proof (cases "index_of (\<lambda>r. ob_id r = k) (ds_rows s)")
    case None
    then show ?thesis using id assms(2) by auto
  next
    case (Some i)
    then have "i < length (ds_rows s)" "ob_id (ds_rows s ! i) = k" using index_of_Some by fastforce+
    then have i: "i = k" using disp_inv_id [OF assms(1)] by simp
    show ?thesis
    proof (cases "ob_status (ds_rows s ! k) = ''pending''")
      case True
      obtain r' ok where "ds_rows (process_row env k (ds_rows s ! k) s) = (ds_rows s)[k := r']"
        "ob_attempts r' = Suc (ob_attempts (ds_rows s ! k))"
        by (rule process_row_effect)
      then show ?thesis using True Some assms(2) by (simp add: process_one_def i)
    next
      case False
      then show ?thesis using Some assms(2) by (simp add: process_one_def i)
    qed
  qed
  then show "k < length (ds_rows (process_one env k s))"
    "ob_status (ds_rows (process_one env k s) ! k) = ''pending'' \<Longrightarrow> ob_status (ds_rows s ! k) = ''pending''
       \<and> ob_attempts (ds_rows (process_one env k s) ! k) = Suc (ob_attempts (ds_rows s ! k))"
    by auto
qed

lemma fold_env_inv:
  "disp_inv s \<Longrightarrow> k < length (ds_rows s) \<Longrightarrow>
   disp_inv (fold (\<lambda>env. process_one env k) envs s) \<and> k < length (ds_rows (fold (\<lambda>env. process_one env k) envs s))"
  by (induction envs arbitrary: s) (auto intro: process_one_inv process_one_attempts(1))

lemma fold_process_attempts:
  assumes "disp_inv s" "k < length (ds_rows s)"
    "ob_status (ds_rows (fold (\<lambda>env. process_one env k) envs s) ! k) = ''pending''"
  shows "length envs \<le> ob_attempts (ds_rows (fold (\<lambda>env. process_one env k) envs s) ! k)
    \<and> disp_inv (fold (\<lambda>env. process_one env k) envs s) \<and> k < length (ds_rows (fold (\<lambda>env. process_one env k) envs s))"
  using assms(3)
proof (induction envs rule: rev_induct)
  case Nil
  then show ?case using assms(1,2) by simp
next
  case (snoc env envs)
  let ?s = "fold (\<lambda>env. process_one env k) envs s"
  have inv: "disp_inv ?s" "k < length (ds_rows ?s)"
    using fold_env_inv [OF assms(1,2)] by blast+
  then have "ob_status (ds_rows ?s ! k) = ''pending''" "ob_attempts (ds_rows (process_one env k ?s) ! k) = Suc (ob_attempts (ds_rows ?s ! k))"
    using process_one_attempts(2) [of ?s k env] snoc.prems by simp_all
  then show ?case using snoc.IH process_one_inv [OF inv(1)] process_one_attempts(1) [OF inv] by simp
qed

section \<open>Properties\<close>

text \<open>
  C6. As long as no worker dies inside a dispatch, the outbox delivers exactly once: in every state that enqueues
  and dispatchers reach, however the transactions of their batches interleave, dedupe keys are unique, a row's handler has succeeded exactly once if the
  row is dispatched and never otherwise, and no row has more than eight attempts.
\<close>

theorem outbox_exactly_once:
  assumes "(dispatch_step False)\<^sup>*\<^sup>* empty_dispatcher s"
  shows "distinct (map ob_dedupe (ds_rows s)) \<and> (\<forall>r\<in>set (ds_rows s).
    count_list (ds_calls s) (ob_id r, True) = (if ob_status r = ''dispatched'' then 1 else 0)
    \<and> ob_attempts r \<le> 8 \<and> ob_status r \<in> {''pending'', ''dispatched'', ''failed''})"
  using dispatch_inv [OF assms] by (auto simp: disp_inv_def row_ok_def MAX_ATTEMPTS_def)

text \<open>
  No row stays pending: however its handlers behave, a row that is processed eight times is dispatched or failed.
\<close>

theorem outbox_row_settles:
  assumes "(dispatch_step False)\<^sup>*\<^sup>* empty_dispatcher s" "k < length (ds_rows s)" "8 \<le> length envs"
  shows "ob_status (ds_rows (fold (\<lambda>env. process_one env k) envs s) ! k) \<in> {''dispatched'', ''failed''}"
proof -
  let ?t = "fold (\<lambda>env. process_one env k) envs s"
  have inv: "disp_inv s" using assms(1) by (rule dispatch_inv)
  have "disp_inv ?t \<and> k < length (ds_rows ?t)"
    using fold_env_inv [OF inv assms(2)] .
  then have ok: "row_ok (ds_calls ?t) (ds_rows ?t ! k)" by (simp add: disp_inv_def)
  have "ob_status (ds_rows ?t ! k) \<noteq> ''pending''"
  proof
    assume p: "ob_status (ds_rows ?t ! k) = ''pending''"
    then show False
      using fold_process_attempts [OF inv assms(2) p] ok assms(3) by (auto simp: row_ok_def MAX_ATTEMPTS_def)
  qed
  with ok show ?thesis by (auto simp: row_ok_def)
qed

text \<open>
  With a worker that dies after the handler returned and before its commit, a row can be delivered twice, although
  the dispatcher's documentation calls a duplicate dispatch impossible.
\<close>

definition noop_env :: dispatch_env where
  "noop_env = \<lparr>de_handlers = DEFAULT_HANDLERS,
     de_audit_env = \<lparr>env_node = ''a'', env_correlation = None, env_now = 0, env_secrets = []\<rparr>,
     de_validators = \<lparr>envelope_errors = \<lambda>_. [], payload_errors = \<lambda>_ _. None\<rparr>, de_str = \<lambda>_. []\<rparr>"

theorem outbox_crash_duplicates:
  "\<exists>s. (dispatch_step True)\<^sup>*\<^sup>* empty_dispatcher s \<and> count_list (ds_calls s) (0, True) = 2
    \<and> map ob_status (ds_rows s) = [''dispatched'']"
proof -
  let ?s1 = "empty_dispatcher\<lparr>ds_rows := snd (outbox_put [] 0 (''k'', ''noop'', []) (ds_rows empty_dispatcher))\<rparr>"
  let ?s2 = "crash_one noop_env 0 ?s1"
  let ?s3 = "snd (run_once noop_env 20 ?s2)"
  have "dispatch_step True empty_dispatcher ?s1" "dispatch_step True ?s1 ?s2" "dispatch_step True ?s2 ?s3"
    by (blast intro: dispatch_step.intros)+
  then have "(dispatch_step True)\<^sup>*\<^sup>* empty_dispatcher ?s3"
    by (meson converse_rtranclp_into_rtranclp rtranclp.rtrancl_refl)
  moreover have "count_list (ds_calls ?s3) (0, True) = 2" "map ob_status (ds_rows ?s3) = [''dispatched'']"
    by (simp_all add: empty_dispatcher_def outbox_put_def crash_one_def process_one_def process_row_def noop_env_def
        DEFAULT_HANDLERS_def run_once_def claim_due_def Let_def mark_dispatched_def)
  ultimately show ?thesis by (intro exI [of _ ?s3] conjI)
qed

definition one_row :: dispatcher where
  "one_row = empty_dispatcher\<lparr>ds_rows := snd (outbox_put [] 0 (''k'', ''noop'', []) (ds_rows empty_dispatcher))\<rparr>"

lemma one_row_reachable: "(dispatch_step False)\<^sup>*\<^sup>* empty_dispatcher one_row"
  unfolding one_row_def by (rule r_into_rtranclp, rule dispatch_step.enq)

theorem outbox_exactly_once_witness:
  "list_all (\<lambda>r. count_list (ds_calls (snd (run_once noop_env 20 one_row))) (ob_id r, True)
     = (if ob_status r = ''dispatched'' then 1 else 0)) (ds_rows (snd (run_once noop_env 20 one_row)))"
proof -
  have "dispatch_step False one_row (snd (run_once noop_env 20 one_row))" by (rule dispatch_step.batch)
  with one_row_reachable have "(dispatch_step False)\<^sup>*\<^sup>* empty_dispatcher (snd (run_once noop_env 20 one_row))"
    by (rule rtranclp.rtrancl_into_rtrancl)
  from outbox_exactly_once [OF this] show ?thesis unfolding list_all_iff by blast
qed

theorem outbox_row_settles_witness:
  "ob_status (ds_rows (fold (\<lambda>env. process_one env 0) (replicate 8 noop_env) one_row) ! 0) \<in> {''dispatched'', ''failed''}"
proof -
  have "0 < length (ds_rows one_row)" by code_simp
  then show ?thesis by (rule outbox_row_settles [OF one_row_reachable]) simp
qed

end
