(* ===== verification/Workflow_Store.thy ===== *)
theory Workflow_Store
  imports Workflow_Sim Events Outbox
begin

text \<open>
  The tables the workflow services share: \<^verbatim>\<open>server/bbz_core/infra/models/workflow.py\<close> (templates, versions, the
  derived graph index) and \<^verbatim>\<open>workflow_runtime.py\<close> (instances, tokens, task results, decisions), with the outbox and
  the audit log they write to, as one record. A service method runs in one transaction: it returns the new
  database, or an error, after which nothing of it is kept. Primary keys are drawn from a counter.
\<close>

section \<open>Rows\<close>

datatype lifecycle = Draft | Validated | Published | Deprecated

fun lifecycle_value :: "lifecycle \<Rightarrow> string" where
  "lifecycle_value Draft = ''draft''"
| "lifecycle_value Validated = ''validated''"
| "lifecycle_value Published = ''published''"
| "lifecycle_value Deprecated = ''deprecated''"

record wf_template =
  tp_id :: uuid
  tp_key :: string
  tp_name :: string
  tp_owner :: "uuid option"

record wf_version =
  wv_id :: uuid
  wv_template :: uuid
  wv_no :: nat
  wv_lifecycle :: lifecycle
  wv_definition :: graph_def
  wv_changelog :: "string option"
  wv_published_at :: "instant option"
  wv_published_by :: "uuid option"

datatype instance_status = Running | Completed | Cancelled | Failed

fun instance_status_value :: "instance_status \<Rightarrow> string" where
  "instance_status_value Running = ''running''"
| "instance_status_value Completed = ''completed''"
| "instance_status_value Cancelled = ''cancelled''"
| "instance_status_value Failed = ''failed''"

record wf_instance =
  in_id :: uuid
  in_event :: uuid
  in_version :: uuid
  in_status :: instance_status
  in_started :: instant
  in_ended :: "instant option"

record wf_token =
  tk_id :: uuid
  tk_instance :: uuid
  tk_node :: string
  tk_inbound :: "string option"
  tk_state :: string
  tk_resume :: "instant option"
  tk_entered :: instant
  tk_left :: "instant option"

record wf_result =
  rs_id :: uuid
  rs_instance :: uuid
  rs_node :: string
  rs_result :: pydict
  rs_by :: "uuid option"
  rs_at :: instant

record wf_decision =
  dc_id :: uuid
  dc_instance :: uuid
  dc_connector :: string
  dc_chosen :: "string list"
  dc_auto :: bool
  dc_by :: "uuid option"
  dc_at :: instant

record workflow_db =
  wd_templates :: "wf_template list"
  wd_versions :: "wf_version list"
  wd_nodes :: "(uuid \<times> gnode) list"
  wd_edges :: "(uuid \<times> gedge) list"
  wd_instances :: "wf_instance list"
  wd_tokens :: "wf_token list"
  wd_results :: "wf_result list"
  wd_decisions :: "wf_decision list"
  wd_events :: "event_row list"
  wd_outbox :: "outbox_row list"
  wd_audit :: audit_db
  wd_next :: nat

text \<open>What a call finds around it: the clock, node and registered secrets, the text of a UUID and of an instant, the JSON-Schema
  validator of definitions.\<close>

record wf_env =
  we_audit :: audit_env
  we_uuid :: "uuid \<Rightarrow> string"
  we_iso :: "instant \<Rightarrow> string"
  we_schema :: "graph_def \<Rightarrow> string list"

definition we_now :: "wf_env \<Rightarrow> instant" where
  "we_now env = env_now (we_audit env)"

section \<open>Errors\<close>

datatype wf_error =
    VersionNotFound uuid | BadLifecycle lifecycle | NotValidated lifecycle | ChangelogRequired | TemplateKeyExists string
  | TemplateMissing uuid | VersionInUse uuid | FrozenDefinition uuid
  | InstanceNotFound uuid | NoInstanceForEvent uuid | StepNotAvailable string | DecisionNotAvailable string
  | NotABranchConnector string | BranchesNotOutgoing "string list" | XorNeedsOneBranch
  | TemplateNotFound string | NoPublishedVersion string | VersionNotPublished uuid | EventMissing uuid
  | NotConverged | NoFunctionKind string | ManyWaitingTokens string
  | WfGraph graph_error | WfEngine engine_error | WfTask task_error | WfAudit audit_error | WfOutbox outbox_error
  | WfSim sim_error | WfDiff diff_error

definition wf_write_audit ::
  "wf_env \<Rightarrow> string \<Rightarrow> uuid option \<Rightarrow> string \<Rightarrow> string \<Rightarrow> pydict \<Rightarrow> string option \<Rightarrow> workflow_db \<Rightarrow> (wf_error, workflow_db) res" where
  "wf_write_audit env action actor ttype tid after reason db =
     (case audit_write (we_audit env) True
        \<lparr>rq_action = action, rq_actor = actor, rq_client = None, rq_workplace = None, rq_target_type = Some ttype,
          rq_target_id = Some tid, rq_before = None, rq_after = Some after, rq_reason = reason, rq_event_seq = None\<rparr> (wd_audit db) of
        Inl e \<Rightarrow> Inl (WfAudit e)
      | Inr a \<Rightarrow> Inr (db\<lparr>wd_audit := a\<rparr>))"

lemma wf_write_audit_ok:
  assumes "action \<noteq> ''EVENT_REACTIVATED''"
  shows "\<exists>a. wf_write_audit env action actor ttype tid after reason db = Inr (db\<lparr>wd_audit := a\<rparr>)"
  using assms by (auto simp: wf_write_audit_def audit_write_def REASON_REQUIRED_def Let_def split: sum.split)

lemma wf_write_audit_Inr:
  assumes "wf_write_audit env action actor ttype tid after reason db = Inr db'"
  obtains a where "db' = db\<lparr>wd_audit := a\<rparr>"
  using assms by (auto simp: wf_write_audit_def split: sum.splits)

definition version_at :: "uuid \<Rightarrow> workflow_db \<Rightarrow> wf_version option" where
  "version_at v db = find_first (\<lambda>r. wv_id r = v) (wd_versions db)"

definition set_version :: "wf_version \<Rightarrow> workflow_db \<Rightarrow> workflow_db" where
  "set_version row db = db\<lparr>wd_versions := map (\<lambda>r. if wv_id r = wv_id row then row else r) (wd_versions db)\<rparr>"

end
