(* ===== verification/Workflow_Lifecycle.thy ===== *)
theory Workflow_Lifecycle
  imports Workflow_Store
begin

text \<open>
  \<^verbatim>\<open>server/bbz_core/infra/repositories/workflow_lifecycle.py\<close> (create, edit, validate, publish and deprecate template
  versions) and \<^verbatim>\<open>workflow_graph.py\<close> (the derived index). Each method commits its own transaction.
\<close>

section \<open>Operations\<close>

definition lc_audit ::
  "wf_env \<Rightarrow> string \<Rightarrow> wf_version \<Rightarrow> uuid option \<Rightarrow> string option \<Rightarrow> workflow_db \<Rightarrow> (wf_error, workflow_db) res" where
  "lc_audit env action row actor reason =
     wf_write_audit env action actor ''workflow_template_version'' (we_uuid env (wv_id row))
       [(''template_id'', PStr (we_uuid env (wv_template row))), (''version_no'', PInt (int (wv_no row))),
        (''lifecycle'', PStr (lifecycle_value (wv_lifecycle row)))] reason"

definition lc_audit_template ::
  "wf_env \<Rightarrow> string \<Rightarrow> wf_template \<Rightarrow> uuid option \<Rightarrow> workflow_db \<Rightarrow> (wf_error, workflow_db) res" where
  "lc_audit_template env action tpl actor =
     wf_write_audit env action actor ''workflow_template'' (we_uuid env (tp_id tpl))
       [(''key'', PStr (tp_key tpl)), (''name'', PStr (tp_name tpl))] None"

definition lc_require :: "uuid \<Rightarrow> workflow_db \<Rightarrow> (wf_error, wf_version) res" where
  "lc_require v db = (case version_at v db of None \<Rightarrow> Inl (VersionNotFound v) | Some r \<Rightarrow> Inr r)"

definition create_template :: "wf_env \<Rightarrow> string \<Rightarrow> string \<Rightarrow> uuid option \<Rightarrow> workflow_db \<Rightarrow> (wf_error, workflow_db) res" where
  "create_template env key name actor db =
     (let tpl = \<lparr>tp_id = wd_next db, tp_key = key, tp_name = name, tp_owner = actor\<rparr> in
      if key \<in> tp_key ` set (wd_templates db) then Inl (TemplateKeyExists key)
      else lc_audit_template env ''WORKFLOW_TEMPLATE_CREATED'' tpl actor
             (db\<lparr>wd_templates := wd_templates db @ [tpl], wd_next := Suc (wd_next db)\<rparr>))"

definition rename_template :: "wf_env \<Rightarrow> uuid \<Rightarrow> string \<Rightarrow> uuid option \<Rightarrow> workflow_db \<Rightarrow> (wf_error, workflow_db) res" where
  "rename_template env t name actor db =
     (case find_first (\<lambda>r. tp_id r = t) (wd_templates db) of
        None \<Rightarrow> Inl (TemplateMissing t)
      | Some tpl \<Rightarrow>
          lc_audit_template env ''WORKFLOW_TEMPLATE_UPDATED'' (tpl\<lparr>tp_name := name\<rparr>) actor
            (db\<lparr>wd_templates := map (\<lambda>r. if tp_id r = t then r\<lparr>tp_name := name\<rparr> else r) (wd_templates db)\<rparr>))"

definition max_version_no :: "uuid \<Rightarrow> workflow_db \<Rightarrow> nat" where
  "max_version_no t db = foldr max (map wv_no (filter (\<lambda>r. wv_template r = t) (wd_versions db))) 0"

text \<open>The foreign key refuses a draft of a template that does not exist.\<close>

definition create_draft_version ::
  "wf_env \<Rightarrow> uuid \<Rightarrow> graph_def \<Rightarrow> string option \<Rightarrow> uuid option \<Rightarrow> workflow_db \<Rightarrow> (wf_error, workflow_db) res" where
  "create_draft_version env t d changelog actor db =
     (let row = \<lparr>wv_id = wd_next db, wv_template = t, wv_no = max_version_no t db + 1, wv_lifecycle = Draft, wv_definition = d,
            wv_changelog = changelog, wv_published_at = None, wv_published_by = None\<rparr> in
      if t \<notin> tp_id ` set (wd_templates db) then Inl (TemplateMissing t)
      else lc_audit env ''WORKFLOW_TEMPLATE_UPDATED'' row actor None
             (db\<lparr>wd_versions := wd_versions db @ [row], wd_next := Suc (wd_next db)\<rparr>))"

definition edit_draft ::
  "wf_env \<Rightarrow> uuid \<Rightarrow> graph_def \<Rightarrow> string option \<Rightarrow> uuid option \<Rightarrow> workflow_db \<Rightarrow> (wf_error, workflow_db) res" where
  "edit_draft env v d changelog actor db =
     bind_res (lc_require v db) (\<lambda>row.
       if wv_lifecycle row \<noteq> Draft then Inl (BadLifecycle (wv_lifecycle row))
       else (let row' = row\<lparr>wv_definition := d, wv_changelog := (if changelog = None then wv_changelog row else changelog)\<rparr>
             in lc_audit env ''WORKFLOW_TEMPLATE_UPDATED'' row' actor None (set_version row' db)))"

definition delete_draft_version :: "wf_env \<Rightarrow> uuid \<Rightarrow> uuid option \<Rightarrow> workflow_db \<Rightarrow> (wf_error, workflow_db) res" where
  "delete_draft_version env v actor db =
     bind_res (lc_require v db) (\<lambda>row.
       if wv_lifecycle row \<noteq> Draft then Inl (BadLifecycle (wv_lifecycle row))
       else if v \<in> in_version ` set (wd_instances db) then Inl (VersionInUse v)
       else bind_res (lc_audit env ''WORKFLOW_TEMPLATE_UPDATED'' row actor None db) (\<lambda>db1.
              Inr (db1\<lparr>wd_versions := filter (\<lambda>r. wv_id r \<noteq> v) (wd_versions db1),
                wd_nodes := filter (\<lambda>p. fst p \<noteq> v) (wd_nodes db1), wd_edges := filter (\<lambda>p. fst p \<noteq> v) (wd_edges db1)\<rparr>)))"

definition simulate_version ::
  "wf_env \<Rightarrow> uuid \<Rightarrow> pydict \<Rightarrow> (string \<times> string list) list \<Rightarrow> uuid option \<Rightarrow> workflow_db \<Rightarrow> (wf_error, sim_report \<times> workflow_db) res" where
  "simulate_version env v ctx decs actor db =
     bind_res (lc_require v db) (\<lambda>row.
       bind_res (lift_err WfSim (simulate (we_uuid env) (we_schema env) (wv_definition row) ctx decs)) (\<lambda>rep.
         bind_res (lc_audit env ''WORKFLOW_SIMULATED'' row actor None db) (\<lambda>db1. Inr (rep, db1))))"

text \<open>\<^verbatim>\<open>raw\<close> is the JSON of a definition.\<close>

definition version_diff ::
  "(graph_def \<Rightarrow> pydict) \<Rightarrow> uuid \<Rightarrow> workflow_db \<Rightarrow> (wf_error, definition_diff) res" where
  "version_diff raw v db =
     bind_res (lc_require v db) (\<lambda>row.
       let older = filter (\<lambda>r. wv_template r = wv_template row \<and> wv_no r < wv_no row) (wd_versions db);
           prev = find_first (\<lambda>r. \<forall>s\<in>set older. wv_no s \<le> wv_no r) older
       in lift_err WfDiff (diff_definitions (map_option (\<lambda>r. raw (wv_definition r)) prev) (raw (wv_definition row))))"

definition rebuild_graph_index :: "wf_env \<Rightarrow> uuid \<Rightarrow> graph_def \<Rightarrow> workflow_db \<Rightarrow> (wf_error, (nat \<times> nat) \<times> workflow_db) res" where
  "rebuild_graph_index env v d db =
     bind_res (lift_err WfGraph (derive_index (we_schema env) d)) (\<lambda>g.
       Inr ((length (g_nodes g), length (g_edges g)),
         db\<lparr>wd_nodes := filter (\<lambda>p. fst p \<noteq> v) (wd_nodes db) @ map (Pair v) (g_nodes g),
            wd_edges := filter (\<lambda>p. fst p \<noteq> v) (wd_edges db) @ map (Pair v) (g_edges g)\<rparr>))"

text \<open>\<^verbatim>\<open>validate\<close>: with issues it returns them and commits nothing.\<close>

definition validate_version ::
  "wf_env \<Rightarrow> uuid \<Rightarrow> uuid \<Rightarrow> (pyval \<Rightarrow> bool) option \<Rightarrow> workflow_db \<Rightarrow> (wf_error, validation_issue list \<times> workflow_db) res" where
  "validate_version env v actor caps db =
     bind_res (lc_require v db) (\<lambda>row.
       if wv_lifecycle row \<notin> {Draft, Validated} then Inl (BadLifecycle (wv_lifecycle row))
       else (let issues = validate_publishable (we_schema env) caps (wv_definition row) in
         if issues \<noteq> [] then Inr (issues, db)
         else (let row' = row\<lparr>wv_lifecycle := Validated\<rparr> in
           bind_res (rebuild_graph_index env v (wv_definition row) (set_version row' db)) (\<lambda>(_, db1).
             bind_res (lc_audit env ''WORKFLOW_TEMPLATE_VALIDATED'' row' (Some actor) None db1) (\<lambda>db2. Inr ([], db2))))))"

definition publish_version :: "wf_env \<Rightarrow> uuid \<Rightarrow> uuid \<Rightarrow> string \<Rightarrow> workflow_db \<Rightarrow> (wf_error, workflow_db) res" where
  "publish_version env v actor changelog db =
     bind_res (lc_require v db) (\<lambda>row.
       if wv_lifecycle row \<noteq> Validated then Inl (NotValidated (wv_lifecycle row))
       else if py_strip changelog = [] then Inl ChangelogRequired
       else (let row' = row\<lparr>wv_lifecycle := Published, wv_changelog := Some (py_strip changelog),
                 wv_published_at := Some (we_now env), wv_published_by := Some actor\<rparr>
             in lc_audit env ''WORKFLOW_TEMPLATE_PUBLISHED'' row' (Some actor) (Some changelog) (set_version row' db)))"

definition deprecate_version :: "wf_env \<Rightarrow> uuid \<Rightarrow> uuid \<Rightarrow> workflow_db \<Rightarrow> (wf_error, workflow_db) res" where
  "deprecate_version env v actor db =
     bind_res (lc_require v db) (\<lambda>row.
       if wv_lifecycle row \<noteq> Published then Inl (BadLifecycle (wv_lifecycle row))
       else (let row' = row\<lparr>wv_lifecycle := Deprecated\<rparr>
             in lc_audit env ''WORKFLOW_TEMPLATE_DEPRECATED'' row' (Some actor) None (set_version row' db)))"

section \<open>The contract: an abstract lifecycle of versions\<close>

text \<open>What the service promises, on the map from version ids to their lifecycle state and definition.\<close>

type_synonym version_map = "uuid \<rightharpoonup> lifecycle \<times> graph_def"

definition publishable :: "(graph_def \<Rightarrow> string list) \<Rightarrow> graph_def \<Rightarrow> bool" where
  "publishable sch d \<longleftrightarrow> (\<exists>caps. validate_publishable sch caps d = [])"

inductive spec_step :: "(graph_def \<Rightarrow> string list) \<Rightarrow> version_map \<Rightarrow> version_map \<Rightarrow> bool" for sch where
  stutter: "spec_step sch m m"
| draft: "v \<notin> dom m \<Longrightarrow> spec_step sch m (m(v \<mapsto> (Draft, d)))"
| edit: "m v = Some (Draft, d) \<Longrightarrow> spec_step sch m (m(v \<mapsto> (Draft, d')))"
| drop: "m v = Some (Draft, d) \<Longrightarrow> spec_step sch m (m(v := None))"
| validate: "m v = Some (l, d) \<Longrightarrow> l \<in> {Draft, Validated} \<Longrightarrow> publishable sch d \<Longrightarrow> spec_step sch m (m(v \<mapsto> (Validated, d)))"
| publish: "m v = Some (Validated, d) \<Longrightarrow> spec_step sch m (m(v \<mapsto> (Published, d)))"
| deprecate: "m v = Some (Published, d) \<Longrightarrow> spec_step sch m (m(v \<mapsto> (Deprecated, d)))"

inductive_cases spec_stepE: "spec_step sch m m'"

definition version_abs :: "workflow_db \<Rightarrow> version_map" where
  "version_abs db = map_of (map (\<lambda>r. (wv_id r, (wv_lifecycle r, wv_definition r))) (wd_versions db))"

text \<open>Well-formed tables: keys are unique and below the counter, version numbers are unique within a template.\<close>

definition lc_wf :: "workflow_db \<Rightarrow> bool" where
  "lc_wf db \<longleftrightarrow> distinct (map wv_id (wd_versions db)) \<and> (\<forall>r\<in>set (wd_versions db). wv_id r < wd_next db)
     \<and> distinct (map (\<lambda>r. (wv_template r, wv_no r)) (wd_versions db))"

lemma version_abs_audit [simp]: "version_abs (db\<lparr>wd_audit := a\<rparr>) = version_abs db"
  and version_abs_nodes [simp]: "version_abs (db\<lparr>wd_nodes := ns\<rparr>) = version_abs db"
  and version_abs_edges [simp]: "version_abs (db\<lparr>wd_edges := es\<rparr>) = version_abs db"
  and version_abs_templates [simp]: "version_abs (db\<lparr>wd_templates := ts\<rparr>) = version_abs db"
  and version_abs_next [simp]: "version_abs (db\<lparr>wd_next := n\<rparr>) = version_abs db"
  and lc_wf_audit [simp]: "lc_wf (db\<lparr>wd_audit := a\<rparr>) = lc_wf db"
  and lc_wf_nodes [simp]: "lc_wf (db\<lparr>wd_nodes := ns\<rparr>) = lc_wf db"
  and lc_wf_edges [simp]: "lc_wf (db\<lparr>wd_edges := es\<rparr>) = lc_wf db"
  and lc_wf_templates [simp]: "lc_wf (db\<lparr>wd_templates := ts\<rparr>) = lc_wf db"
  by (simp_all add: version_abs_def lc_wf_def)

lemma version_at_abs:
  assumes "lc_wf db" "version_at v db = Some row"
  shows "row \<in> set (wd_versions db)" "wv_id row = v" "version_abs db v = Some (wv_lifecycle row, wv_definition row)"
proof -
  show row: "row \<in> set (wd_versions db)" "wv_id row = v"
    using find_first_Some [OF assms(2) [unfolded version_at_def]] by auto
  show "version_abs db v = Some (wv_lifecycle row, wv_definition row)"
    unfolding version_abs_def using assms(1) row by (intro map_of_is_SomeI) (auto simp: lc_wf_def comp_def)
qed

lemma map_of_map_replace:
  "map_of (map (\<lambda>r. (wv_id r, f r)) (map (\<lambda>r. if wv_id r = wv_id row then row else r) rs))
   = (if wv_id row \<in> wv_id ` set rs then (map_of (map (\<lambda>r. (wv_id r, f r)) rs))(wv_id row \<mapsto> f row)
      else map_of (map (\<lambda>r. (wv_id r, f r)) rs))"
  by (induction rs) (auto simp: fun_eq_iff)

lemma set_version_abs:
  assumes "lc_wf db" "version_at v db = Some row" "wv_id row' = v" "wv_template row' = wv_template row" "wv_no row' = wv_no row"
  shows "version_abs (set_version row' db) = (version_abs db)(v \<mapsto> (wv_lifecycle row', wv_definition row'))"
    and "lc_wf (set_version row' db)"
proof -
  note row = version_at_abs [OF assms(1,2)]
  then show "version_abs (set_version row' db) = (version_abs db)(v \<mapsto> (wv_lifecycle row', wv_definition row'))"
    unfolding version_abs_def set_version_def using assms(3) map_of_map_replace [of "\<lambda>r. (wv_lifecycle r, wv_definition r)" row'] by auto
  have uniq: "r = row" if "r \<in> set (wd_versions db)" "wv_id r = v" for r
    using assms(1) row that by (auto simp: lc_wf_def distinct_map inj_on_def)
  define vs where "vs = map (\<lambda>r. if wv_id r = v then row' else r) (wd_versions db)"
  have same: "map wv_id vs = map wv_id (wd_versions db)"
    "map (\<lambda>r. (wv_template r, wv_no r)) vs = map (\<lambda>r. (wv_template r, wv_no r)) (wd_versions db)"
  proof -
    have each: "wv_id (if wv_id r = v then row' else r) = wv_id r"
        "(wv_template (if wv_id r = v then row' else r), wv_no (if wv_id r = v then row' else r)) = (wv_template r, wv_no r)"
      if "r \<in> set (wd_versions db)" for r
      using uniq [OF that] assms(3-5) by (cases "wv_id r = v"; simp)+
    show "map wv_id vs = map wv_id (wd_versions db)"
      unfolding vs_def map_map comp_def by (rule map_cong [OF refl], erule each)
    show "map (\<lambda>r. (wv_template r, wv_no r)) vs = map (\<lambda>r. (wv_template r, wv_no r)) (wd_versions db)"
      unfolding vs_def map_map comp_def by (rule map_cong [OF refl], erule each)
  qed
  have "\<forall>i\<in>set (map wv_id vs). i < wd_next db" unfolding same(1) using assms(1) by (simp add: lc_wf_def)
  then have "\<forall>r\<in>set vs. wv_id r < wd_next db" by simp
  moreover have "wd_versions (set_version row' db) = vs" by (simp add: set_version_def vs_def assms(3))
  moreover have "wd_next (set_version row' db) = wd_next db" by (simp add: set_version_def)
  ultimately show "lc_wf (set_version row' db)"
    using assms(1) same by (simp add: lc_wf_def)
qed

text \<open>The operations as one step relation; the schema validator is the same throughout.\<close>

inductive lc_step :: "(graph_def \<Rightarrow> string list) \<Rightarrow> workflow_db \<Rightarrow> workflow_db \<Rightarrow> bool" for sch where
  create_template: "create_template env key name actor db = Inr db' \<Longrightarrow> lc_step sch db db'"
| rename_template: "rename_template env t name actor db = Inr db' \<Longrightarrow> lc_step sch db db'"
| create_draft: "create_draft_version env t d changelog actor db = Inr db' \<Longrightarrow> lc_step sch db db'"
| edit: "edit_draft env v d changelog actor db = Inr db' \<Longrightarrow> lc_step sch db db'"
| delete: "delete_draft_version env v actor db = Inr db' \<Longrightarrow> lc_step sch db db'"
| simulated: "simulate_version env v ctx decs actor db = Inr (rep, db') \<Longrightarrow> lc_step sch db db'"
| validated: "we_schema env = sch \<Longrightarrow> validate_version env v actor' caps db = Inr (issues, db') \<Longrightarrow> lc_step sch db db'"
| published: "publish_version env v actor' cl db = Inr db' \<Longrightarrow> lc_step sch db db'"
| deprecated: "deprecate_version env v actor' db = Inr db' \<Longrightarrow> lc_step sch db db'"

inductive_cases lc_stepE: "lc_step sch db db'"

lemma lc_require_Inr: "lc_require v db = Inr row \<longleftrightarrow> version_at v db = Some row"
  by (auto simp: lc_require_def simp del: find_first_None split: option.splits)

lemma lc_audit_Inr:
  "lc_audit env action row actor reason db = Inr db' \<Longrightarrow> \<exists>a. db' = db\<lparr>wd_audit := a\<rparr>"
  "lc_audit_template env action tpl actor db = Inr db' \<Longrightarrow> \<exists>a. db' = db\<lparr>wd_audit := a\<rparr>"
  unfolding lc_audit_def lc_audit_template_def by (metis wf_write_audit_Inr)+

lemma max_version_no_ge: "r \<in> set (wd_versions db) \<Longrightarrow> wv_no r \<le> max_version_no (wv_template r) db"
proof -
  have "x \<in> set xs \<Longrightarrow> x \<le> foldr max xs 0" for x :: nat and xs by (induction xs) auto
  then show "r \<in> set (wd_versions db) \<Longrightarrow> ?thesis" by (simp add: max_version_no_def)
qed

text \<open>Every operation keeps the tables well formed and makes a step of the contract.\<close>

lemma map_of_snoc: "k \<notin> fst ` set xs \<Longrightarrow> map_of (xs @ [(k, v)]) = (map_of xs)(k \<mapsto> v)"
  by (induction xs) (auto simp: fun_eq_iff)

lemma create_draft_refines:
  assumes "create_draft_version env t d changelog actor db = Inr db'" "lc_wf db"
  shows "spec_step sch (version_abs db) (version_abs db') \<and> lc_wf db'"
proof -
  define row where "row = \<lparr>wv_id = wd_next db, wv_template = t, wv_no = max_version_no t db + 1, wv_lifecycle = Draft,
    wv_definition = d, wv_changelog = changelog, wv_published_at = None, wv_published_by = None\<rparr>"
  obtain a where db': "db' = db\<lparr>wd_versions := wd_versions db @ [row], wd_next := Suc (wd_next db), wd_audit := a\<rparr>"
  proof -
    have "lc_audit env ''WORKFLOW_TEMPLATE_UPDATED'' row actor None
        (db\<lparr>wd_versions := wd_versions db @ [row], wd_next := Suc (wd_next db)\<rparr>) = Inr db'"
      using assms(1) unfolding create_draft_version_def Let_def row_def by (simp split: if_split_asm)
    from lc_audit_Inr(1) [OF this] show thesis using that by blast
  qed
  have new: "wd_next db \<notin> wv_id ` set (wd_versions db)" using assms(2) by (auto simp: lc_wf_def)
  have no: "Suc (max_version_no (wv_template r) db) \<noteq> wv_no r" if "r \<in> set (wd_versions db)" for r
    using max_version_no_ge [OF that] by simp
  have "version_abs db' = (version_abs db)(wd_next db \<mapsto> (Draft, d))"
    using new map_of_snoc [of "wd_next db" "map (\<lambda>r. (wv_id r, wv_lifecycle r, wv_definition r)) (wd_versions db)"]
    by (simp add: version_abs_def db' row_def image_image)
  moreover have "wd_next db \<notin> dom (version_abs db)"
    using new by (simp add: version_abs_def dom_map_of_conv_image_fst image_image)
  ultimately have "spec_step sch (version_abs db) (version_abs db')" using spec_step.draft by metis
  moreover have "lc_wf db'"
    using assms(2) new no by (auto simp: lc_wf_def db' row_def less_Suc_eq)
  ultimately show ?thesis by blast
qed

lemma row_update:
  assumes "lc_wf db" "version_at v db = Some row" "lc_audit env action row' actor reason (set_version row' db) = Inr db'"
    and "wv_id row' = wv_id row" "wv_template row' = wv_template row" "wv_no row' = wv_no row"
  shows "version_abs db v = Some (wv_lifecycle row, wv_definition row)"
    "version_abs db' = (version_abs db)(v \<mapsto> (wv_lifecycle row', wv_definition row'))" "lc_wf db'"
proof -
  note old = version_at_abs [OF assms(1,2)]
  obtain a where db': "db' = (set_version row' db)\<lparr>wd_audit := a\<rparr>" using lc_audit_Inr(1) [OF assms(3)] by blast
  show "version_abs db v = Some (wv_lifecycle row, wv_definition row)" by (rule old(3))
  show "version_abs db' = (version_abs db)(v \<mapsto> (wv_lifecycle row', wv_definition row'))" "lc_wf db'"
    using set_version_abs [OF assms(1,2) _ assms(5,6)] assms(4) old(2) by (simp_all add: db')
qed

lemma edit_refines:
  assumes "edit_draft env v d changelog actor db = Inr db'" "lc_wf db"
  shows "spec_step sch (version_abs db) (version_abs db') \<and> lc_wf db'"
proof -
  obtain row where row: "version_at v db = Some row" "wv_lifecycle row = Draft"
    and upd: "lc_audit env ''WORKFLOW_TEMPLATE_UPDATED''
        (row\<lparr>wv_definition := d, wv_changelog := (if changelog = None then wv_changelog row else changelog)\<rparr>) actor None
        (set_version (row\<lparr>wv_definition := d, wv_changelog := (if changelog = None then wv_changelog row else changelog)\<rparr>) db) = Inr db'"
    using assms(1) unfolding edit_draft_def bind_res_Inr lc_require_Inr Let_def by (auto split: if_split_asm)
  from row_update [OF assms(2) row(1) upd] row(2) spec_step.edit [of "version_abs db" v] show ?thesis by simp
qed

lemma publish_refines:
  assumes "publish_version env v actor cl db = Inr db'" "lc_wf db"
  shows "spec_step sch (version_abs db) (version_abs db') \<and> lc_wf db'"
proof -
  obtain row row' where row: "version_at v db = Some row" "wv_lifecycle row = Validated"
    and row': "row' = row\<lparr>wv_lifecycle := Published, wv_changelog := Some (py_strip cl),
                 wv_published_at := Some (we_now env), wv_published_by := Some actor\<rparr>"
    and upd: "lc_audit env ''WORKFLOW_TEMPLATE_PUBLISHED'' row' (Some actor) (Some cl) (set_version row' db) = Inr db'"
    using assms(1) unfolding publish_version_def bind_res_Inr lc_require_Inr Let_def by (auto split: if_split_asm)
  from row_update [OF assms(2) row(1) upd] row(2) row' spec_step.publish [of "version_abs db" v] show ?thesis by simp
qed

lemma deprecate_refines:
  assumes "deprecate_version env v actor db = Inr db'" "lc_wf db"
  shows "spec_step sch (version_abs db) (version_abs db') \<and> lc_wf db'"
proof -
  obtain row row' where row: "version_at v db = Some row" "wv_lifecycle row = Published"
    and row': "row' = row\<lparr>wv_lifecycle := Deprecated\<rparr>"
    and upd: "lc_audit env ''WORKFLOW_TEMPLATE_DEPRECATED'' row' (Some actor) None (set_version row' db) = Inr db'"
    using assms(1) unfolding deprecate_version_def bind_res_Inr lc_require_Inr Let_def by (auto split: if_split_asm)
  from row_update [OF assms(2) row(1) upd] row(2) row' spec_step.deprecate [of "version_abs db" v] show ?thesis by simp
qed

lemma validate_refines:
  assumes "validate_version env v actor caps db = Inr (issues, db')" "lc_wf db" "we_schema env = sch"
  shows "spec_step sch (version_abs db) (version_abs db') \<and> lc_wf db'"
proof (cases "issues = []")
  case False
  then have "db' = db"
    using assms(1) unfolding validate_version_def bind_res_Inr lc_require_Inr Let_def
    by (auto split: if_split_asm simp: bind_res_Inr)
  then show ?thesis using assms(2) spec_step.stutter by simp
next
  case True
  obtain row row' g db1 where row: "version_at v db = Some row" "wv_lifecycle row \<in> {Draft, Validated}"
    and ok: "validate_publishable sch caps (wv_definition row) = []" and row': "row' = row\<lparr>wv_lifecycle := Validated\<rparr>"
    and db1: "rebuild_graph_index env v (wv_definition row) (set_version row' db) = Inr (g, db1)"
    and upd: "lc_audit env ''WORKFLOW_TEMPLATE_VALIDATED'' row' (Some actor) None db1 = Inr db'"
    using assms(1,3) True unfolding validate_version_def bind_res_Inr lc_require_Inr Let_def
    by (auto split: if_split_asm simp: bind_res_Inr)
  obtain ns es a where "db' = (set_version row' db)\<lparr>wd_nodes := ns, wd_edges := es, wd_audit := a\<rparr>"
    using db1 lc_audit_Inr(1) [OF upd] by (auto simp: rebuild_graph_index_def bind_res_Inr)
  then have eff: "version_abs db' = (version_abs db)(v \<mapsto> (Validated, wv_definition row))" "lc_wf db'"
    using set_version_abs [OF assms(2) row(1), of row'] version_at_abs(2) [OF assms(2) row(1)] row' by simp_all
  then show ?thesis
    using version_at_abs(3) [OF assms(2) row(1)] row(2) ok spec_step.validate [of "version_abs db" v]
    by (auto simp: publishable_def)
qed

lemma delete_refines:
  assumes "delete_draft_version env v actor db = Inr db'" "lc_wf db"
  shows "spec_step sch (version_abs db) (version_abs db') \<and> lc_wf db'"
proof -
  obtain row db1 where row: "version_at v db = Some row" "wv_lifecycle row = Draft"
    and upd: "lc_audit env ''WORKFLOW_TEMPLATE_UPDATED'' row actor None db = Inr db1"
    and db': "db' = db1\<lparr>wd_versions := filter (\<lambda>r. wv_id r \<noteq> v) (wd_versions db1),
                wd_nodes := filter (\<lambda>p. fst p \<noteq> v) (wd_nodes db1), wd_edges := filter (\<lambda>p. fst p \<noteq> v) (wd_edges db1)\<rparr>"
    using assms(1) unfolding delete_draft_version_def bind_res_Inr lc_require_Inr Let_def
    by (auto split: if_split_asm simp: bind_res_Inr)
  obtain a where db1: "db1 = db\<lparr>wd_audit := a\<rparr>" using lc_audit_Inr(1) [OF upd] by blast
  have "map_of (map (\<lambda>r. (wv_id r, f r)) (filter (\<lambda>r. wv_id r \<noteq> v) rs)) = (map_of (map (\<lambda>r. (wv_id r, f r)) rs))(v := None)"
    for f :: "wf_version \<Rightarrow> lifecycle \<times> graph_def" and rs by (induction rs) (auto simp: fun_eq_iff)
  then have "version_abs db' = (version_abs db)(v := None)" by (simp add: version_abs_def db' db1)
  moreover have "lc_wf db'"
    using assms(2) by (auto simp: lc_wf_def db' db1 distinct_map_filter)
  ultimately show ?thesis
    using version_at_abs(3) [OF assms(2) row(1)] row(2) spec_step.drop [of "version_abs db" v] by simp
qed

lemma simple_refines:
  "create_template env key name actor db = Inr db' \<Longrightarrow> lc_wf db \<Longrightarrow> version_abs db' = version_abs db \<and> lc_wf db'"
  "rename_template env t name actor db = Inr db' \<Longrightarrow> lc_wf db \<Longrightarrow> version_abs db' = version_abs db \<and> lc_wf db'"
  "simulate_version env v ctx decs actor db = Inr (rep, db') \<Longrightarrow> lc_wf db \<Longrightarrow> version_abs db' = version_abs db \<and> lc_wf db'"
proof -
  have next_wf: "lc_wf db \<Longrightarrow> lc_wf (db\<lparr>wd_templates := ts, wd_next := Suc (wd_next db)\<rparr>)" for ts
    by (auto simp: lc_wf_def less_Suc_eq)
  show "create_template env key name actor db = Inr db' \<Longrightarrow> lc_wf db \<Longrightarrow> version_abs db' = version_abs db \<and> lc_wf db'"
    unfolding create_template_def Let_def using next_wf by (auto split: if_split_asm dest!: lc_audit_Inr)
  show "rename_template env t name actor db = Inr db' \<Longrightarrow> lc_wf db \<Longrightarrow> version_abs db' = version_abs db \<and> lc_wf db'"
    unfolding rename_template_def by (auto simp del: find_first_None split: option.split_asm dest!: lc_audit_Inr)
  show "simulate_version env v ctx decs actor db = Inr (rep, db') \<Longrightarrow> lc_wf db \<Longrightarrow> version_abs db' = version_abs db \<and> lc_wf db'"
    unfolding simulate_version_def bind_res_Inr by (auto simp: bind_res_Inr dest!: lc_audit_Inr)
qed

lemma lc_step_refines:
  assumes "lc_step sch db db'" "lc_wf db"
  shows "spec_step sch (version_abs db) (version_abs db') \<and> lc_wf db'"
  using assms(1)
proof (rule lc_stepE)
qed (use assms(2) spec_step.stutter create_draft_refines edit_refines delete_refines validate_refines publish_refines
    deprecate_refines simple_refines in metis)+

lemma lc_steps_wf: "(lc_step sch)\<^sup>*\<^sup>* db db' \<Longrightarrow> lc_wf db \<Longrightarrow> lc_wf db' \<and> (spec_step sch)\<^sup>*\<^sup>* (version_abs db) (version_abs db')"
proof (induction rule: rtranclp_induct)
  case (step y z)
  then show ?case using lc_step_refines by (metis rtranclp.rtrancl_into_rtrancl)
qed simp

text \<open>What follows from the contract alone.\<close>

lemma spec_steps_sound:
  assumes "(spec_step sch)\<^sup>*\<^sup>* Map.empty m" "m v = Some (l, d)" "l \<noteq> Draft"
  shows "publishable sch d"
  using assms
proof (induction arbitrary: v l d rule: rtranclp_induct)
  case (step y z)
  from step.hyps(2) step.prems step.IH show ?case by cases (auto split: if_split_asm)
qed simp

lemma spec_steps_frozen:
  assumes "(spec_step sch)\<^sup>*\<^sup>* m m'" "m v = Some (l, d)" "l \<in> {Published, Deprecated}"
  shows "\<exists>l'. m' v = Some (l', d) \<and> l' \<in> {Published, Deprecated} \<and> (l = Deprecated \<longrightarrow> l' = Deprecated)"
  using assms
proof (induction rule: rtranclp_induct)
  case (step y z)
  then obtain l' where l': "y v = Some (l', d)" "l' \<in> {Published, Deprecated}" "l = Deprecated \<longrightarrow> l' = Deprecated" by blast
  from step.hyps(2) l' show ?case by cases (auto split: if_split_asm)
qed simp

definition empty_workflow_db :: "event_row list \<Rightarrow> workflow_db" where
  "empty_workflow_db evs = \<lparr>wd_templates = [], wd_versions = [], wd_nodes = [], wd_edges = [], wd_instances = [], wd_tokens = [],
     wd_results = [], wd_decisions = [], wd_events = evs, wd_outbox = [], wd_audit = \<lparr>audit_events = [], audit_next_seq = 1\<rparr>, wd_next = 1\<rparr>"

lemma empty_workflow_db_simps [simp]: "lc_wf (empty_workflow_db evs)" "version_abs (empty_workflow_db evs) = Map.empty"
  by (simp_all add: lc_wf_def version_abs_def empty_workflow_db_def)

section \<open>Properties\<close>

text \<open>
  C27. The lifecycle service implements its contract: on well-formed tables every operation that returns keeps them
  well formed and is a step of the abstract lifecycle (or changes no version): drafts may be edited and dropped, only a
  definition the publish gate accepts becomes validated, only a validated one published, only a published one deprecated.
\<close>

theorem lifecycle_refines_contract:
  assumes "lc_wf db" "lc_step sch db db'"
  shows "spec_step sch (version_abs db) (version_abs db') \<and> lc_wf db'"
  using lc_step_refines [OF assms(2,1)] .

text \<open>
  C28. A published definition is sound and frozen: from empty tables, whatever the service is asked to do, a version that
  is published or deprecated has passed the publish gate, and it keeps that definition for ever and never becomes a draft again.
\<close>

theorem published_definition_frozen:
  assumes "(lc_step sch)\<^sup>*\<^sup>* (empty_workflow_db evs) db" "version_abs db v = Some (l, d)" "l \<in> {Published, Deprecated}"
    and "(lc_step sch)\<^sup>*\<^sup>* db db'"
  shows "(\<exists>caps. validate_publishable sch caps d = []) \<and> (\<exists>l'. version_abs db' v = Some (l', d) \<and> l' \<in> {Published, Deprecated})"
proof -
  have 1: "lc_wf db" "(spec_step sch)\<^sup>*\<^sup>* Map.empty (version_abs db)" using lc_steps_wf [OF assms(1)] by auto
  have 2: "(spec_step sch)\<^sup>*\<^sup>* (version_abs db) (version_abs db')" using lc_steps_wf [OF assms(4) 1(1)] by blast
  have "publishable sch d" using spec_steps_sound [OF 1(2) assms(2)] assms(3) by blast
  then show ?thesis using spec_steps_frozen [OF 2 assms(2,3)] unfolding publishable_def by blast
qed

section \<open>Witnesses\<close>

definition sample_wf_env :: wf_env where
  "sample_wf_env = \<lparr>we_audit = \<lparr>env_node = ''a'', env_correlation = None, env_now = 0, env_secrets = []\<rparr>, we_uuid = nat_str,
     we_iso = int_str, we_schema = (\<lambda>_. [])\<rparr>"

definition db_template :: workflow_db where
  "db_template = ok_of (empty_workflow_db []) (create_template sample_wf_env ''fire'' ''Fire'' None (empty_workflow_db []))"

definition db_draft :: workflow_db where
  "db_draft = ok_of db_template (create_draft_version sample_wf_env 1 fork_def None None db_template)"

definition db_validated :: workflow_db where
  "db_validated = snd (ok_of ([], db_draft) (validate_version sample_wf_env 2 7 None db_draft))"

definition db_published :: workflow_db where
  "db_published = ok_of db_validated (publish_version sample_wf_env 2 7 ''first'' db_validated)"

lemma lifecycle_chain:
  "lc_step (\<lambda>_. []) (empty_workflow_db []) db_template" "lc_step (\<lambda>_. []) db_template db_draft"
  "lc_step (\<lambda>_. []) db_draft db_validated" "lc_step (\<lambda>_. []) db_validated db_published"
proof -
  have "is_ok (create_template sample_wf_env ''fire'' ''Fire'' None (empty_workflow_db []))" by code_simp
  then show "lc_step (\<lambda>_. []) (empty_workflow_db []) db_template"
    unfolding db_template_def by (rule lc_step.create_template [OF ok_of_Inr])
  have "is_ok (create_draft_version sample_wf_env 1 fork_def None None db_template)" by code_simp
  then show "lc_step (\<lambda>_. []) db_template db_draft"
    unfolding db_draft_def by (rule lc_step.create_draft [OF ok_of_Inr])
  have "is_ok (validate_version sample_wf_env 2 7 None db_draft)" by code_simp
  from ok_of_Inr [OF this, of "([], db_draft)"]
  have "validate_version sample_wf_env 2 7 None db_draft
      = Inr (fst (ok_of ([], db_draft) (validate_version sample_wf_env 2 7 None db_draft)), db_validated)"
    by (simp add: db_validated_def)
  then show "lc_step (\<lambda>_. []) db_draft db_validated"
    by (rule lc_step.validated [rotated]) (simp add: sample_wf_env_def)
  have "is_ok (publish_version sample_wf_env 2 7 ''first'' db_validated)" by code_simp
  then show "lc_step (\<lambda>_. []) db_validated db_published"
    unfolding db_published_def by (rule lc_step.published [OF ok_of_Inr])
qed

lemma db_published_reachable: "(lc_step (\<lambda>_. []))\<^sup>*\<^sup>* (empty_workflow_db []) db_published"
  using lifecycle_chain by (meson rtranclp.rtrancl_into_rtrancl rtranclp.rtrancl_refl)

theorem lifecycle_refines_contract_witness:
  "spec_step (\<lambda>_. []) (version_abs (empty_workflow_db [])) (version_abs db_template) \<and> lc_wf db_template"
  using lifecycle_refines_contract [OF _ lifecycle_chain(1)] by simp

theorem published_definition_frozen_witness:
  "version_abs db_published 2 = Some (Published, fork_def) \<and> (\<exists>caps. validate_publishable (\<lambda>_. []) caps fork_def = [])"
proof -
  have "version_abs db_published 2 = Some (Published, fork_def)" by code_simp
  with published_definition_frozen [OF db_published_reachable this _ rtranclp.rtrancl_refl] show ?thesis by simp
qed

end
