(* ===== verification/Workflow_Runtime.thy ===== *)
theory Workflow_Runtime
  imports Workflow_Lifecycle
begin

text \<open>
  \<^verbatim>\<open>server/bbz_core/infra/repositories/workflow_engine.py\<close>: the service that runs workflow instances. It loads the
  tokens of an instance, runs the engine of \<open>Workflow_Engine\<close>, and writes the outcome, the decisions and task results,
  the audit rows and the outbox rows of automatic steps in one transaction. Queries without \<^verbatim>\<open>ORDER BY\<close> return
  rows in insertion order.
\<close>

section \<open>Reading the state of an instance\<close>

definition rt_require :: "uuid \<Rightarrow> workflow_db \<Rightarrow> (wf_error, wf_instance) res" where
  "rt_require i db = (case find_first (\<lambda>r. in_id r = i) (wd_instances db) of None \<Rightarrow> Inl (InstanceNotFound i) | Some r \<Rightarrow> Inr r)"

definition rt_graph :: "wf_env \<Rightarrow> uuid \<Rightarrow> workflow_db \<Rightarrow> (wf_error, derived_graph) res" where
  "rt_graph env v db =
     (case version_at v db of None \<Rightarrow> Inl (VersionNotFound v) | Some r \<Rightarrow> lift_err WfGraph (derive_index (we_schema env) (wv_definition r)))"

definition results_of :: "uuid \<Rightarrow> workflow_db \<Rightarrow> wf_result list" where
  "results_of i db = filter (\<lambda>r. rs_instance r = i) (wd_results db)"

definition rt_context :: "wf_env \<Rightarrow> wf_instance \<Rightarrow> workflow_db \<Rightarrow> pydict" where
  "rt_context env inst db =
     [(''step_completed_count'', PInt (int (length (results_of (in_id inst) db)))), (''operator_confirmed'', PBool False)]
     @ (case find_first (\<lambda>e. ew_id e = in_event inst) (wd_events db) of
          None \<Rightarrow> []
        | Some e \<Rightarrow> [(''event_priority'', PStr (priority_value (ew_priority e))), (''status'', PStr (status_value (ew_status e))),
            (''source'', PStr (ew_source e)), (''bbz_id'', uuid_or_none (we_uuid env) (ew_bbz e)),
            (''workplace_id'', uuid_or_none (we_uuid env) (ew_workplace e))])"

definition rt_decisions :: "uuid \<Rightarrow> workflow_db \<Rightarrow> (string \<times> string list) list" where
  "rt_decisions i db = dict_of (map (\<lambda>d. (dc_connector d, dc_chosen d)) (filter (\<lambda>d. dc_instance d = i) (wd_decisions db)))"

definition live_states :: "string list" where
  "live_states = [''active'', ''waiting'']"

definition to_token :: "wf_token \<Rightarrow> token" where
  "to_token r = \<lparr>t_id = tk_id r, t_node = tk_node r, t_state = tk_state r, t_inbound = tk_inbound r\<rparr>"

definition live_rows :: "uuid \<Rightarrow> workflow_db \<Rightarrow> wf_token list" where
  "live_rows i db = filter (\<lambda>r. tk_instance r = i \<and> tk_state r \<in> set live_states) (wd_tokens db)"

definition rt_tokens :: "uuid \<Rightarrow> workflow_db \<Rightarrow> token list" where
  "rt_tokens i db = map to_token (sort_key tk_node (sort_key tk_entered (sort_key tk_id (live_rows i db))))"

definition step_done :: "uuid \<Rightarrow> string \<Rightarrow> workflow_db \<Rightarrow> bool" where
  "step_done i k db = (\<exists>r\<in>set (wd_results db). rs_instance r = i \<and> rs_node r = k)"

definition graph_node :: "derived_graph \<Rightarrow> string \<Rightarrow> gnode option" where
  "graph_node g k = find_first (\<lambda>n. n_key n = k) (g_nodes g)"

section \<open>Writing\<close>

definition audit_step ::
  "wf_env \<Rightarrow> uuid \<Rightarrow> string \<Rightarrow> uuid option \<Rightarrow> string option \<Rightarrow> workflow_db \<Rightarrow> (wf_error, workflow_db) res" where
  "audit_step env i k actor kind =
     wf_write_audit env ''ACTION_STEP_COMPLETED'' actor ''workflow_instance'' (we_uuid env i)
       ([(''node_key'', PStr k), (''instance_id'', PStr (we_uuid env i))]
        @ (case kind of None \<Rightarrow> [] | Some kd \<Rightarrow> [(''kind'', PStr kd), (''auto'', PBool True)])) None"

definition audit_decision ::
  "wf_env \<Rightarrow> uuid \<Rightarrow> string \<Rightarrow> string list \<Rightarrow> uuid option \<Rightarrow> bool \<Rightarrow> workflow_db \<Rightarrow> (wf_error, workflow_db) res" where
  "audit_decision env i k chosen actor auto =
     wf_write_audit env ''WORKFLOW_DECISION_MADE'' actor ''workflow_instance'' (we_uuid env i)
       [(''connector_node_key'', PStr k), (''chosen_branches'', PList (map PStr chosen)), (''auto'', PBool auto)] None"

definition add_decision :: "wf_env \<Rightarrow> uuid \<Rightarrow> string \<Rightarrow> string list \<Rightarrow> bool \<Rightarrow> uuid option \<Rightarrow> workflow_db \<Rightarrow> workflow_db" where
  "add_decision env i k chosen auto actor db = db\<lparr>wd_decisions := wd_decisions db @
     [\<lparr>dc_id = wd_next db, dc_instance = i, dc_connector = k, dc_chosen = chosen, dc_auto = auto, dc_by = actor, dc_at = we_now env\<rparr>],
     wd_next := Suc (wd_next db)\<rparr>"

definition add_result :: "wf_env \<Rightarrow> uuid \<Rightarrow> string \<Rightarrow> pydict \<Rightarrow> uuid option \<Rightarrow> workflow_db \<Rightarrow> workflow_db" where
  "add_result env i k result actor db = db\<lparr>wd_results := wd_results db @
     [\<lparr>rs_id = wd_next db, rs_instance = i, rs_node = k, rs_result = result, rs_by = actor, rs_at = we_now env\<rparr>],
     wd_next := Suc (wd_next db)\<rparr>"

definition add_token :: "wf_env \<Rightarrow> uuid \<Rightarrow> string \<Rightarrow> string \<times> string option \<Rightarrow> workflow_db \<Rightarrow> workflow_db" where
  "add_token env i state p db = db\<lparr>wd_tokens := wd_tokens db @
     [\<lparr>tk_id = wd_next db, tk_instance = i, tk_node = fst p, tk_inbound = snd p, tk_state = state, tk_resume = None,
       tk_entered = we_now env, tk_left = None\<rparr>],
     wd_next := Suc (wd_next db)\<rparr>"

definition record_auto_decision :: "wf_env \<Rightarrow> uuid \<Rightarrow> decision_made \<Rightarrow> workflow_db \<Rightarrow> (wf_error, workflow_db) res" where
  "record_auto_decision env i d db =
     audit_decision env i (dm_connector d) (dm_chosen d) None True (add_decision env i (dm_connector d) (dm_chosen d) True None db)"

definition token_update :: "instant \<Rightarrow> engine_result \<Rightarrow> wf_token \<Rightarrow> wf_token" where
  "token_update now res r =
     (let r1 = (if tk_id r \<in> set (er_consumed res) then r\<lparr>tk_state := ''consumed'', tk_left := Some now\<rparr> else r)
      in if tk_id r \<in> set (er_parked res) then r1\<lparr>tk_state := ''waiting''\<rparr> else r1)"

definition finish_instance :: "instant \<Rightarrow> uuid \<Rightarrow> workflow_db \<Rightarrow> workflow_db" where
  "finish_instance now i db = db\<lparr>wd_instances := map (\<lambda>r. if in_id r = i \<and> in_status r = Running
     then r\<lparr>in_status := Completed, in_ended := Some now\<rparr> else r) (wd_instances db)\<rparr>"

definition apply_result :: "wf_env \<Rightarrow> uuid \<Rightarrow> engine_result \<Rightarrow> workflow_db \<Rightarrow> (wf_error, workflow_db) res" where
  "apply_result env i res db =
     (let db1 = db\<lparr>wd_tokens := map (token_update (we_now env) res) (wd_tokens db)\<rparr>;
          db2 = fold (add_token env i ''waiting'') (er_spawned res) db1
      in bind_res (fold_res (record_auto_decision env i) (er_decisions res) db2) (\<lambda>db3.
           Inr (if er_completed res then finish_instance (we_now env) i db3 else db3)))"

definition rt_resume :: "wf_env \<Rightarrow> derived_graph \<Rightarrow> wf_instance \<Rightarrow> string \<Rightarrow> workflow_db \<Rightarrow> (wf_error, engine_result) res" where
  "rt_resume env g inst k db =
     lift_err WfEngine (resume_function g (rt_tokens (in_id inst) db) k (rt_context env inst db) (rt_decisions (in_id inst) db))"

definition run_auto :: "wf_env \<Rightarrow> derived_graph \<Rightarrow> wf_instance \<Rightarrow> string \<Rightarrow> workflow_db \<Rightarrow> (wf_error, workflow_db) res" where
  "run_auto env g inst k db =
     (case graph_node g k of
        None \<Rightarrow> Inl (NoFunctionKind k)
      | Some node \<Rightarrow>
          (case n_function_kind node of
             None \<Rightarrow> Inl (NoFunctionKind k)
           | Some kind \<Rightarrow>
               bind_res (lift_err WfTask (outbox_action kind)) (\<lambda>action.
               bind_res (lift_err WfOutbox (enqueue (env_secrets (we_audit env)) (we_now env) True
                  (step_dedupe_key (we_uuid env) (in_id inst) k, action,
                   [(''instance_id'', PStr (we_uuid env (in_id inst))), (''node_key'', PStr k), (''kind'', PStr kind),
                    (''props'', PDict (n_props node))]) (wd_outbox db))) (\<lambda>(_, rows).
               bind_res (audit_step env (in_id inst) k None (Some kind)
                  (add_result env (in_id inst) k [(''dispatched'', PBool True), (''kind'', PStr kind)] None (db\<lparr>wd_outbox := rows\<rparr>))) (\<lambda>db1.
               bind_res (rt_resume env g inst k db1) (\<lambda>res.
                 apply_result env (in_id inst) res db1))))))"

text \<open>One look at a waiting token: arm a timer, or note the first automatic step that is not done.\<close>

definition settle_row ::
  "wf_env \<Rightarrow> derived_graph \<Rightarrow> uuid \<Rightarrow> workflow_db \<Rightarrow> wf_token \<Rightarrow> wf_token list \<times> string option \<Rightarrow> (wf_error, wf_token list \<times> string option) res" where
  "settle_row env g i db r st =
     (case st of (rows, auto) \<Rightarrow>
        if tk_instance r = i \<and> tk_state r = ''waiting'' then
          (case Option.bind (graph_node g (tk_node r)) n_function_kind of
             None \<Rightarrow> Inr (rows @ [r], auto)
           | Some kind \<Rightarrow>
               if kind \<in> set TIMER_KINDS \<and> tk_resume r = None then
                 bind_res (lift_err WfTask (timer_seconds (case graph_node g (tk_node r) of None \<Rightarrow> [] | Some n \<Rightarrow> n_props n)))
                   (\<lambda>s. Inr (rows @ [r\<lparr>tk_resume := Some (we_now env + s * 1000000)\<rparr>], auto))
               else if kind \<in> set AUTO_KINDS \<and> auto = None \<and> \<not> step_done i (tk_node r) db then Inr (rows @ [r], Some (tk_node r))
               else Inr (rows @ [r], auto))
        else Inr (rows @ [r], auto))"

text \<open>\<^verbatim>\<open>for _ in range(...)\<close>: the first argument is the number of rounds left.\<close>

fun settle :: "nat \<Rightarrow> wf_env \<Rightarrow> derived_graph \<Rightarrow> wf_instance \<Rightarrow> workflow_db \<Rightarrow> (wf_error, workflow_db) res" where
  "settle 0 env g inst db = Inl NotConverged"
| "settle (Suc n) env g inst db =
     bind_res (fold_res (settle_row env g (in_id inst) db) (wd_tokens db) ([], None)) (\<lambda>(rows, auto).
       let db1 = db\<lparr>wd_tokens := rows\<rparr> in
       (case auto of
          Some k \<Rightarrow> bind_res (run_auto env g inst k db1) (settle n env g inst)
        | None \<Rightarrow> Inr db1))"

definition settle_rounds :: "derived_graph \<Rightarrow> nat" where
  "settle_rounds g = length (g_nodes g) + 5"

definition drive :: "wf_env \<Rightarrow> derived_graph \<Rightarrow> wf_instance \<Rightarrow> workflow_db \<Rightarrow> (wf_error, workflow_db) res" where
  "drive env g inst db =
     bind_res (lift_err WfEngine (advance g (rt_tokens (in_id inst) db) (rt_context env inst db) (rt_decisions (in_id inst) db))) (\<lambda>res.
     bind_res (apply_result env (in_id inst) res db) (settle (settle_rounds g) env g inst))"

section \<open>The service methods\<close>

text \<open>The insert is refused by a trigger for a version that is not published, and by the foreign key for an unknown event.\<close>

definition start_instance ::
  "wf_env \<Rightarrow> uuid \<Rightarrow> uuid \<Rightarrow> uuid option \<Rightarrow> workflow_db \<Rightarrow> (wf_error, wf_instance \<times> workflow_db) res" where
  "start_instance env e v actor db =
     (let inst = \<lparr>in_id = wd_next db, in_event = e, in_version = v, in_status = Running, in_started = we_now env, in_ended = None\<rparr> in
      if map_option wv_lifecycle (version_at v db) \<noteq> Some Published then Inl (VersionNotPublished v)
      else if e \<notin> ew_id ` set (wd_events db) then Inl (EventMissing e)
      else bind_res (wf_write_audit env ''WORKFLOW_INSTANCE_STARTED'' actor ''workflow_instance'' (we_uuid env (in_id inst))
               [(''event_id'', PStr (we_uuid env e)), (''template_version_id'', PStr (we_uuid env v))] None
               (db\<lparr>wd_instances := wd_instances db @ [inst], wd_next := Suc (wd_next db)\<rparr>)) (\<lambda>db1.
           bind_res (rt_graph env v db1) (\<lambda>g.
           bind_res (drive env g inst (add_token env (in_id inst) ''active'' (g_start g, None) db1)) (\<lambda>db2.
             Inr (inst, db2)))))"

definition start_for_event ::
  "wf_env \<Rightarrow> uuid \<Rightarrow> string \<Rightarrow> uuid option \<Rightarrow> workflow_db \<Rightarrow> (wf_error, wf_instance \<times> workflow_db) res" where
  "start_for_event env e key actor db =
     (case find_first (\<lambda>t. tp_key t = key) (wd_templates db) of
        None \<Rightarrow> Inl (TemplateNotFound key)
      | Some t \<Rightarrow>
          (let pub = filter (\<lambda>r. wv_template r = tp_id t \<and> wv_lifecycle r = Published) (wd_versions db) in
           (case find_first (\<lambda>r. \<forall>s\<in>set pub. wv_no s \<le> wv_no r) pub of
              None \<Rightarrow> Inl (NoPublishedVersion key)
            | Some v \<Rightarrow>
                (case find_first (\<lambda>i. in_event i = e \<and> in_version i = wv_id v \<and> in_status i = Running) (wd_instances db) of
                   Some running \<Rightarrow> Inr (running, db)
                 | None \<Rightarrow> start_instance env e (wv_id v) actor db))))"

definition resolve_event_instance :: "uuid \<Rightarrow> workflow_db \<Rightarrow> (wf_error, wf_instance) res" where
  "resolve_event_instance e db =
     (let mine = sort_key (\<lambda>i. - in_started i) (filter (\<lambda>i. in_event i = e) (wd_instances db)) in
      (case filter (\<lambda>i. in_status i = Running) mine @ mine of
         [] \<Rightarrow> Inl (NoInstanceForEvent e)
       | i # _ \<Rightarrow> Inr i))"

definition advance_instance :: "wf_env \<Rightarrow> uuid \<Rightarrow> workflow_db \<Rightarrow> (wf_error, workflow_db) res" where
  "advance_instance env i db =
     bind_res (rt_require i db) (\<lambda>inst.
       if in_status inst \<noteq> Running then Inr db
       else bind_res (rt_graph env (in_version inst) db) (\<lambda>g. drive env g inst db))"

definition step_error :: "wf_error \<Rightarrow> wf_error" where
  "step_error e = (case e of WfEngine (StepNotWaiting k) \<Rightarrow> StepNotAvailable k | _ \<Rightarrow> e)"

definition complete_step ::
  "wf_env \<Rightarrow> uuid \<Rightarrow> string \<Rightarrow> pydict option \<Rightarrow> uuid option \<Rightarrow> workflow_db \<Rightarrow> (wf_error, workflow_db) res" where
  "complete_step env i k result actor db =
     bind_res (rt_require i db) (\<lambda>inst.
       if step_done i k db then Inr db
       else bind_res (rt_graph env (in_version inst) db) (\<lambda>g.
         bind_res (lift_err step_error (rt_resume env g inst k db)) (\<lambda>res.
         bind_res (audit_step env i k actor None
             (add_result env i k (case result of None \<Rightarrow> [] | Some d \<Rightarrow> d) actor db)) (\<lambda>db1.
         bind_res (apply_result env i res db1) (settle (settle_rounds g) env g inst)))))"

definition activate_token :: "uuid \<Rightarrow> workflow_db \<Rightarrow> workflow_db" where
  "activate_token t db = db\<lparr>wd_tokens := map (\<lambda>r. if tk_id r = t then r\<lparr>tk_state := ''active''\<rparr> else r) (wd_tokens db)\<rparr>"

definition decide ::
  "wf_env \<Rightarrow> uuid \<Rightarrow> string \<Rightarrow> string list \<Rightarrow> uuid option \<Rightarrow> workflow_db \<Rightarrow> (wf_error, workflow_db) res" where
  "decide env i k keys actor db =
     bind_res (rt_require i db) (\<lambda>inst.
     bind_res (rt_graph env (in_version inst) db) (\<lambda>g.
       (case graph_node g k of
          None \<Rightarrow> Inl (NotABranchConnector k)
        | Some node \<Rightarrow>
            if n_type node \<noteq> ''connector'' \<or> n_connector_direction node \<noteq> Some ''split'' then Inl (NotABranchConnector k)
            else if \<exists>d\<in>set (wd_decisions db). dc_instance d = i \<and> dc_connector d = k then Inr db
            else (let out_keys = e_key ` set (filter (\<lambda>e. e_from e = k) (g_edges g)); chosen = dedupe_from {} keys in
              if chosen = [] \<or> \<not> set chosen \<subseteq> out_keys then Inl (BranchesNotOutgoing chosen)
              else if n_connector_type node = Some ''xor'' \<and> length chosen \<noteq> 1 then Inl XorNeedsOneBranch
              else (case filter (\<lambda>r. tk_instance r = i \<and> tk_node r = k \<and> tk_state r = ''waiting'') (wd_tokens db) of
                      [] \<Rightarrow> Inl (DecisionNotAvailable k)
                    | [r] \<Rightarrow>
                        bind_res (audit_decision env i k chosen actor False
                            (add_decision env i k chosen False actor (activate_token (tk_id r) db))) (drive env g inst)
                    | _ \<Rightarrow> Inl (ManyWaitingTokens k))))))"

definition clear_resume :: "uuid \<Rightarrow> workflow_db \<Rightarrow> workflow_db" where
  "clear_resume t db = db\<lparr>wd_tokens := map (\<lambda>r. if tk_id r = t then r\<lparr>tk_resume := None\<rparr> else r) (wd_tokens db)\<rparr>"

text \<open>One due row; the counter is the number of timers fired.\<close>

definition fire_timer :: "wf_env \<Rightarrow> wf_token \<Rightarrow> nat \<times> workflow_db \<Rightarrow> (wf_error, nat \<times> workflow_db) res" where
  "fire_timer env r st =
     (case st of (fired, db) \<Rightarrow>
        bind_res (rt_require (tk_instance r) db) (\<lambda>inst.
        bind_res (rt_graph env (in_version inst) db) (\<lambda>g.
          let db1 = clear_resume (tk_id r) db in
          if in_status inst \<noteq> Running \<or> step_done (in_id inst) (tk_node r) db1 then Inr (fired, db1)
          else bind_res (audit_step env (in_id inst) (tk_node r) None (Some ''timer'')
                   (add_result env (in_id inst) (tk_node r) [(''timer'', PStr ''elapsed'')] None db1)) (\<lambda>db2.
               bind_res (rt_resume env g inst (tk_node r) db2) (\<lambda>res.
               bind_res (apply_result env (in_id inst) res db2) (\<lambda>db3.
               bind_res (settle (settle_rounds g) env g inst db3) (\<lambda>db4. Inr (Suc fired, db4))))))))"

definition fire_due_timers :: "wf_env \<Rightarrow> instant \<Rightarrow> workflow_db \<Rightarrow> (wf_error, nat \<times> workflow_db) res" where
  "fire_due_timers env now db =
     fold_res (fire_timer env)
       (filter (\<lambda>r. tk_state r = ''waiting'' \<and> (case tk_resume r of None \<Rightarrow> False | Some due \<Rightarrow> due \<le> now)) (wd_tokens db)) (0, db)"

section \<open>What the writes leave alone\<close>

text \<open>The tables in which a step of the service is recorded, as seen by the invariants.\<close>

lemma lift_err_Inr': "lift_err f m = Inr x \<longleftrightarrow> m = Inr x"
  by (cases m) (auto simp: lift_err_def)

lemma lift_err_Inl: "lift_err f m = Inl e \<longleftrightarrow> (\<exists>e'. m = Inl e' \<and> e = f e')"
  by (cases m) (auto simp: lift_err_def)

lemma audit_step_Inr:
  assumes "audit_step env i k actor kind db = Inr db'" obtains a where "db' = db\<lparr>wd_audit := a\<rparr>"
  using assms unfolding audit_step_def by (elim wf_write_audit_Inr)

lemma audit_decision_Inr:
  assumes "audit_decision env i k chosen actor auto db = Inr db'" obtains a where "db' = db\<lparr>wd_audit := a\<rparr>"
  using assms unfolding audit_decision_def by (elim wf_write_audit_Inr)

lemma add_token_fields [simp]:
  "wd_templates (add_token env i s p db) = wd_templates db" "wd_versions (add_token env i s p db) = wd_versions db"
  "wd_instances (add_token env i s p db) = wd_instances db"
  "wd_results (add_token env i s p db) = wd_results db" "wd_decisions (add_token env i s p db) = wd_decisions db"
  "wd_events (add_token env i s p db) = wd_events db" "wd_outbox (add_token env i s p db) = wd_outbox db"
  "wd_audit (add_token env i s p db) = wd_audit db" "wd_next (add_token env i s p db) = Suc (wd_next db)"
  by (simp_all add: add_token_def)

definition spawned_rows :: "wf_env \<Rightarrow> uuid \<Rightarrow> nat \<Rightarrow> (string \<times> string option) list \<Rightarrow> wf_token list" where
  "spawned_rows env i n ps = map (\<lambda>(j, p). \<lparr>tk_id = n + j, tk_instance = i, tk_node = fst p, tk_inbound = snd p, tk_state = ''waiting'',
     tk_resume = None, tk_entered = we_now env, tk_left = None\<rparr>) (zip [0..<length ps] ps)"

lemma spawned_rows_Cons: "spawned_rows env i n (p # ps) =
  \<lparr>tk_id = n, tk_instance = i, tk_node = fst p, tk_inbound = snd p, tk_state = ''waiting'', tk_resume = None,
    tk_entered = we_now env, tk_left = None\<rparr> # spawned_rows env i (Suc n) ps"
proof -
  have "zip [0..<length (p # ps)] (p # ps) = (0, p) # map (\<lambda>(j, q). (Suc j, q)) (zip [0..<length ps] ps)"
    by (simp add: upt_rec [of 0] zip_map1 flip: map_Suc_upt del: upt_Suc)
  then show ?thesis by (simp add: spawned_rows_def comp_def case_prod_unfold del: upt_Suc)
qed

lemma fold_add_token:
  "fold (add_token env i ''waiting'') ps db
   = db\<lparr>wd_tokens := wd_tokens db @ spawned_rows env i (wd_next db) ps, wd_next := wd_next db + length ps\<rparr>"
proof (induction ps arbitrary: db)
  case Nil
  show ?case by (simp add: spawned_rows_def)
next
  case (Cons p ps)
  show ?case by (simp add: Cons.IH spawned_rows_Cons) (simp add: add_token_def)
qed

lemma spawned_rows_simps [simp]:
  "map tk_id (spawned_rows env i n ps) = [n..<n + length ps]"
  "map (\<lambda>r. (tk_node r, tk_inbound r)) (spawned_rows env i n ps) = ps"
  "r \<in> set (spawned_rows env i n ps) \<Longrightarrow> tk_instance r = i"
  "r \<in> set (spawned_rows env i n ps) \<Longrightarrow> tk_state r = ''waiting''"
  by (induction ps arbitrary: n) (auto simp: spawned_rows_Cons upt_rec [of n for n] spawned_rows_def [of _ _ _ "[]"])

lemma record_auto_decision_effect:
  assumes "record_auto_decision env i d db = Inr db'"
  shows "\<exists>ds a n. db' = db\<lparr>wd_decisions := wd_decisions db @ ds, wd_next := n, wd_audit := a\<rparr> \<and> wd_next db \<le> n"
proof -
  obtain a where "db' = (add_decision env i (dm_connector d) (dm_chosen d) True None db)\<lparr>wd_audit := a\<rparr>"
    using assms unfolding record_auto_decision_def by (elim audit_decision_Inr)
  then show ?thesis unfolding add_decision_def by (intro exI conjI) (simp, simp)
qed

lemma fold_record_effect:
  assumes "fold_res (record_auto_decision env i) ds db = Inr db'"
  shows "\<exists>ds' a n. db' = db\<lparr>wd_decisions := wd_decisions db @ ds', wd_next := n, wd_audit := a\<rparr> \<and> wd_next db \<le> n"
  using assms
proof (induction ds arbitrary: db)
  case Nil
  then show ?case by (intro exI [of _ "[]"] exI [of _ "wd_audit db"] exI [of _ "wd_next db"]) simp
next
  case (Cons d ds)
  then obtain db1 where "record_auto_decision env i d db = Inr db1" and rest: "fold_res (record_auto_decision env i) ds db1 = Inr db'"
    by (auto simp: bind_res_Inr)
  then obtain ds1 a n where db1: "db1 = db\<lparr>wd_decisions := wd_decisions db @ ds1, wd_next := n, wd_audit := a\<rparr>" "wd_next db \<le> n"
    using record_auto_decision_effect by blast
  obtain ds2 a2 n2 where db': "db' = db1\<lparr>wd_decisions := wd_decisions db1 @ ds2, wd_next := n2, wd_audit := a2\<rparr>" "wd_next db1 \<le> n2"
    using Cons.IH [OF rest] by blast
  show ?case
    using db1(2) db'(2) by (intro exI [of _ "ds1 @ ds2"] exI [of _ a2] exI [of _ n2]) (simp add: db1(1) db'(1))
qed

text \<open>The whole of \<^verbatim>\<open>_apply\<close>.\<close>

lemma apply_result_effect:
  assumes "apply_result env i res db = Inr db'"
  shows "\<exists>ds a n. db' = (let db1 = db\<lparr>wd_tokens := map (token_update (we_now env) res) (wd_tokens db)
        @ spawned_rows env i (wd_next db) (er_spawned res),
      wd_decisions := wd_decisions db @ ds, wd_next := n, wd_audit := a\<rparr>
    in if er_completed res then finish_instance (we_now env) i db1 else db1) \<and> wd_next db + length (er_spawned res) \<le> n"
proof -
  let ?db2 = "db\<lparr>wd_tokens := map (token_update (we_now env) res) (wd_tokens db) @ spawned_rows env i (wd_next db) (er_spawned res),
    wd_next := wd_next db + length (er_spawned res)\<rparr>"
  obtain db3 where "fold_res (record_auto_decision env i) (er_decisions res) ?db2 = Inr db3"
    and db': "db' = (if er_completed res then finish_instance (we_now env) i db3 else db3)"
    using assms by (auto simp: apply_result_def Let_def bind_res_Inr fold_add_token)
  from fold_record_effect [OF this(1)] obtain ds a n where
    "db3 = ?db2\<lparr>wd_decisions := wd_decisions ?db2 @ ds, wd_next := n, wd_audit := a\<rparr>" "wd_next ?db2 \<le> n" by blast
  then show ?thesis unfolding db' by (intro exI [of _ ds] exI [of _ a] exI [of _ n]) (simp add: Let_def)
qed

lemma apply_result_fields:
  assumes "apply_result env i res db = Inr db'"
  shows "wd_results db' = wd_results db" "wd_outbox db' = wd_outbox db" "wd_versions db' = wd_versions db"
    "wd_events db' = wd_events db" "wd_templates db' = wd_templates db" "wd_next db \<le> wd_next db'"
    "\<exists>ds. wd_decisions db' = wd_decisions db @ ds"
    "wd_tokens db' = map (token_update (we_now env) res) (wd_tokens db) @ spawned_rows env i (wd_next db) (er_spawned res)"
    "wd_instances db' = (if er_completed res then wd_instances (finish_instance (we_now env) i db) else wd_instances db)"
    "wd_next db + length (er_spawned res) \<le> wd_next db'"
  using apply_result_effect [OF assms] by (auto simp: Let_def finish_instance_def)

section \<open>Settling converges\<close>

definition open_steps :: "derived_graph \<Rightarrow> uuid \<Rightarrow> workflow_db \<Rightarrow> string set" where
  "open_steps g i db = {k \<in> set (node_keys g). \<not> step_done i k db}"

lemma graph_node_key: "graph_node g k = Some n \<Longrightarrow> k \<in> set (node_keys g) \<and> n_key n = k \<and> n \<in> set (g_nodes g)"
  by (auto simp: graph_node_def node_keys_def dest!: find_first_Some)

lemma run_auto_effect:
  assumes "run_auto env g inst k db = Inr db'"
  obtains db1 res action kind node rows where "graph_node g k = Some node" "n_function_kind node = Some kind"
    "rows = snd (outbox_put (env_secrets (we_audit env)) (we_now env) (step_dedupe_key (we_uuid env) (in_id inst) k, action,
       [(''instance_id'', PStr (we_uuid env (in_id inst))), (''node_key'', PStr k), (''kind'', PStr kind),
        (''props'', PDict (n_props node))]) (wd_outbox db))"
    "audit_step env (in_id inst) k None (Some kind)
       (add_result env (in_id inst) k [(''dispatched'', PBool True), (''kind'', PStr kind)] None (db\<lparr>wd_outbox := rows\<rparr>)) = Inr db1"
    "resume_function g (rt_tokens (in_id inst) db1) k (rt_context env inst db1) (rt_decisions (in_id inst) db1) = Inr res"
    "apply_result env (in_id inst) res db1 = Inr db'"
proof -
  obtain node kind where n: "graph_node g k = Some node" "n_function_kind node = Some kind"
    using assms by (auto simp: run_auto_def simp del: find_first_None split: option.split_asm)
  obtain action where action: "outbox_action kind = Inr action"
    using assms n by (auto simp: run_auto_def bind_res_Inr lift_err_Inr')
  obtain b rows where rows: "outbox_put (env_secrets (we_audit env)) (we_now env) (step_dedupe_key (we_uuid env) (in_id inst) k, action,
       [(''instance_id'', PStr (we_uuid env (in_id inst))), (''node_key'', PStr k), (''kind'', PStr kind),
        (''props'', PDict (n_props node))]) (wd_outbox db) = (b, rows)" by fastforce
  obtain db1 where db1: "audit_step env (in_id inst) k None (Some kind)
       (add_result env (in_id inst) k [(''dispatched'', PBool True), (''kind'', PStr kind)] None (db\<lparr>wd_outbox := rows\<rparr>)) = Inr db1"
    and rest: "bind_res (rt_resume env g inst k db1) (\<lambda>res. apply_result env (in_id inst) res db1) = Inr db'"
    using assms n action rows by (auto simp: run_auto_def bind_res_Inr lift_err_Inr' enqueue_def)
  then obtain res where "resume_function g (rt_tokens (in_id inst) db1) k (rt_context env inst db1) (rt_decisions (in_id inst) db1) = Inr res"
    "apply_result env (in_id inst) res db1 = Inr db'"
    by (auto simp: bind_res_Inr lift_err_Inr' rt_resume_def)
  with n db1 show thesis using rows by (intro that [of node kind rows action db1 res]) simp_all
qed

lemma step_done_add: "step_done i k (add_result env i' k' d actor db) \<longleftrightarrow> step_done i k db \<or> i = i' \<and> k = k'"
  by (auto simp: step_done_def add_result_def)

lemma step_done_fields: "wd_results db' = wd_results db \<Longrightarrow> step_done i k db' = step_done i k db"
  by (simp add: step_done_def)

lemma run_auto_results:
  assumes "run_auto env g inst k db = Inr db'"
  shows "step_done i m db' \<longleftrightarrow> step_done i m db \<or> i = in_id inst \<and> m = k"
  using assms
proof (rule run_auto_effect)
  fix db1 res action kind node rows
  assume au: "audit_step env (in_id inst) k None (Some kind)
       (add_result env (in_id inst) k [(''dispatched'', PBool True), (''kind'', PStr kind)] None (db\<lparr>wd_outbox := rows\<rparr>)) = Inr db1"
    and ap: "apply_result env (in_id inst) res db1 = Inr db'"
  from au obtain a where db1: "db1 = (add_result env (in_id inst) k [(''dispatched'', PBool True), (''kind'', PStr kind)] None
      (db\<lparr>wd_outbox := rows\<rparr>))\<lparr>wd_audit := a\<rparr>" by (elim audit_step_Inr)
  have "step_done i m db' = step_done i m db1" using apply_result_fields(1) [OF ap] by (rule step_done_fields)
  also have "\<dots> = step_done i m (add_result env (in_id inst) k [(''dispatched'', PBool True), (''kind'', PStr kind)] None (db\<lparr>wd_outbox := rows\<rparr>))"
    by (rule step_done_fields) (simp add: db1)
  finally show ?thesis by (simp add: step_done_add) (simp add: step_done_def)
qed

lemma settle_scan_auto:
  assumes "fold_res (settle_row env g i db) rows st = Inr (rows', Some k)" "snd st \<noteq> Some k"
  shows "\<not> step_done i k db \<and> (\<exists>n. graph_node g k = Some n)"
  using assms
proof (induction rows arbitrary: st)
  case (Cons r rows)
  then obtain st1 where st1: "settle_row env g i db r st = Inr st1" and rest: "fold_res (settle_row env g i db) rows st1 = Inr (rows', Some k)"
    by (auto simp: bind_res_Inr)
  show ?case
  proof (cases "snd st1 = Some k")
    case True
    with st1 Cons.prems(2) show ?thesis
      by (auto simp: settle_row_def bind_res_Inr bind_eq_Some_conv split: prod.splits if_splits option.splits)
  qed (use Cons.IH [OF rest] in simp)
qed simp

lemma wf_write_audit_error: "wf_write_audit env action actor ttype tid after reason db \<noteq> Inl NotConverged"
  by (auto simp: wf_write_audit_def split: sum.splits)

lemma apply_result_error: "apply_result env i res db \<noteq> Inl NotConverged"
  using wf_write_audit_error
  by (auto simp: apply_result_def Let_def bind_res_Inl record_auto_decision_def audit_decision_def dest!: fold_res_error)

lemma settle_scan_error: "fold_res (settle_row env g i db) rows st \<noteq> Inl NotConverged"
  by (auto simp: settle_row_def bind_res_Inl lift_err_Inl dest!: fold_res_error split: prod.splits if_splits option.splits)

lemma run_auto_error: "run_auto env g inst k db \<noteq> Inl NotConverged"
  using wf_write_audit_error apply_result_error
  by (auto simp: run_auto_def bind_res_Inl lift_err_Inl audit_step_def rt_resume_def split: option.splits)

lemma settle_converges:
  assumes "card (open_steps g (in_id inst) db) < n"
  shows "settle n env g inst db \<noteq> Inl NotConverged"
  using assms
proof (induction n arbitrary: db)
  case (Suc n)
  show ?case
  proof
    assume "settle (Suc n) env g inst db = Inl NotConverged"
    then consider "fold_res (settle_row env g (in_id inst) db) (wd_tokens db) ([], None) = Inl NotConverged"
      | rows k where "fold_res (settle_row env g (in_id inst) db) (wd_tokens db) ([], None) = Inr (rows, Some k)"
        "run_auto env g inst k (db\<lparr>wd_tokens := rows\<rparr>) = Inl NotConverged"
      | rows k db1 where "fold_res (settle_row env g (in_id inst) db) (wd_tokens db) ([], None) = Inr (rows, Some k)"
        "run_auto env g inst k (db\<lparr>wd_tokens := rows\<rparr>) = Inr db1" "settle n env g inst db1 = Inl NotConverged"
      by (auto simp: bind_res_Inl Let_def split: option.splits)
    then show False
    proof cases
      case 1
      then show False using settle_scan_error by blast
    next
      case 2
      then show False using run_auto_error by blast
    next
      case (3 rows k db1)
      have open_k: "k \<in> open_steps g (in_id inst) db"
        using settle_scan_auto [OF 3(1)] graph_node_key by (fastforce simp: open_steps_def)
      have "open_steps g (in_id inst) db1 = open_steps g (in_id inst) db - {k}"
        unfolding open_steps_def run_auto_results [OF 3(2)] by (auto simp: step_done_def)
      moreover have "finite (open_steps g (in_id inst) db)" by (simp add: open_steps_def)
      ultimately have "card (open_steps g (in_id inst) db1) < n"
        using Suc.prems open_k card_Diff1_less by fastforce
      with Suc.IH 3(3) show False by blast
    qed
  qed
qed simp

section \<open>Properties\<close>

text \<open>
  C32. Settling ends: whatever the database holds, the bounded loop of \<^verbatim>\<open>_settle\<close> never runs out of rounds, since every round but
  the last records the result of a step of the graph that had none.
\<close>

theorem settle_never_exhausted:
  "settle (settle_rounds g) env g inst db \<noteq> Inl NotConverged"
proof (rule settle_converges)
  have "card (open_steps g (in_id inst) db) \<le> card (set (node_keys g))" by (intro card_mono) (auto simp: open_steps_def)
  also have "\<dots> \<le> length (g_nodes g)" using card_length [of "node_keys g"] by (simp add: node_keys_def)
  finally show "card (open_steps g (in_id inst) db) < settle_rounds g" by (simp add: settle_rounds_def)
qed

end
