(* ===== verification/Workflow_Recovery.thy ===== *)
theory Workflow_Recovery
  imports Workflow_Runtime
begin

text \<open>
  What the workflow service keeps over any sequence of requests: the accounting of tokens between the engine and the
  tables, completion, one result and one outbox action per step, and that re-running or replaying a request changes
  nothing (the failover argument of \<^verbatim>\<open>infra/repositories/workflow_engine.py\<close>).
\<close>

section \<open>Tokens and completion\<close>

definition rt_wf :: "workflow_db \<Rightarrow> bool" where
  "rt_wf db \<longleftrightarrow> distinct (map tk_id (wd_tokens db))
     \<and> (\<forall>r\<in>set (wd_tokens db). tk_id r < wd_next db \<and> tk_instance r \<in> in_id ` set (wd_instances db))
     \<and> distinct (map in_id (wd_instances db))
     \<and> (\<forall>r\<in>set (wd_instances db). in_id r < wd_next db \<and> in_status r \<in> {Running, Completed})"

text \<open>Completed means that no token is live, and running that one is.\<close>

definition completion_ok :: "uuid \<Rightarrow> workflow_db \<Rightarrow> bool" where
  "completion_ok i db \<longleftrightarrow> (\<forall>r\<in>set (wd_instances db). in_id r = i \<longrightarrow> (in_status r = Completed \<longleftrightarrow> live_rows i db = []))"

lemma set_rt_tokens: "set (rt_tokens i db) = to_token ` set (live_rows i db)"
  by (simp add: rt_tokens_def)

lemma rt_tokens_Nil: "rt_tokens i db = [] \<longleftrightarrow> live_rows i db = []"
  by (simp add: rt_tokens_def)

lemma distinct_rt_tokens:
  assumes "rt_wf db" shows "distinct (map t_id (rt_tokens i db))"
proof -
  have "mset (map t_id (rt_tokens i db)) = mset (map tk_id (live_rows i db))"
    by (simp add: rt_tokens_def to_token_def comp_def)
  moreover have "distinct (map tk_id (live_rows i db))"
    using assms by (simp add: rt_wf_def live_rows_def distinct_map_filter)
  ultimately show ?thesis by (metis mset_eq_imp_distinct_iff)
qed

lemma rt_wf_unique: "rt_wf db \<Longrightarrow> r \<in> set (wd_tokens db) \<Longrightarrow> r' \<in> set (wd_tokens db) \<Longrightarrow> tk_id r = tk_id r' \<Longrightarrow> r = r'"
  by (auto simp: rt_wf_def distinct_map inj_on_def)

text \<open>What the ids in an engine result say about the rows of the table.\<close>

lemma engine_ids:
  assumes "rt_wf db" "engine_call g (rt_tokens i db) st ctx decs = Inr res" "r \<in> set (wd_tokens db)"
  shows "tk_id r \<in> set (er_consumed res) \<Longrightarrow> r \<in> set (live_rows i db)"
    and "tk_id r \<in> set (er_parked res) \<longleftrightarrow> r \<in> set (live_rows i db) \<and> tk_state r = ''active'' \<and> tk_id r \<notin> set (er_consumed res)"
proof -
  note acc = engine_accounting [OF assms(2) distinct_rt_tokens [OF assms(1)]]
  have mem: "tk_id r \<in> t_id ` {t \<in> set (rt_tokens i db). P (t_state t)} \<longleftrightarrow> r \<in> set (live_rows i db) \<and> P (tk_state r)" for P
  proof
    assume "tk_id r \<in> t_id ` {t \<in> set (rt_tokens i db). P (t_state t)}"
    then obtain r' where r': "r' \<in> set (live_rows i db)" "tk_id r = tk_id r'" "P (tk_state r')"
      by (auto simp: set_rt_tokens to_token_def)
    then have "r' \<in> set (wd_tokens db)" by (simp add: live_rows_def)
    from rt_wf_unique [OF assms(1,3) this r'(2)] r' show "r \<in> set (live_rows i db) \<and> P (tk_state r)" by simp
  next
    assume r: "r \<in> set (live_rows i db) \<and> P (tk_state r)"
    show "tk_id r \<in> t_id ` {t \<in> set (rt_tokens i db). P (t_state t)}"
      by (rule image_eqI [of _ _ "to_token r"]) (use r in \<open>simp_all add: set_rt_tokens to_token_def\<close>)
  qed
  show "r \<in> set (live_rows i db)" if "tk_id r \<in> set (er_consumed res)"
    using acc that mem [of "\<lambda>_. True"] by auto
  have "set (er_parked res) = t_id ` {t \<in> set (rt_tokens i db). t_state t = ''active''} - set (er_consumed res)"
    using acc by auto
  then show "tk_id r \<in> set (er_parked res) \<longleftrightarrow> r \<in> set (live_rows i db) \<and> tk_state r = ''active'' \<and> tk_id r \<notin> set (er_consumed res)"
    using mem [of "\<lambda>s. s = ''active''"] by auto
qed

lemma token_update_id [simp]: "tk_id (token_update now res r) = tk_id r"
  and token_update_instance [simp]: "tk_instance (token_update now res r) = tk_instance r"
  and token_update_node [simp]: "tk_node (token_update now res r) = tk_node r"
  and token_update_resume [simp]: "tk_resume (token_update now res r) = tk_resume r"
  by (simp_all add: token_update_def Let_def)

lemma token_update_state:
  assumes "rt_wf db" "engine_call g (rt_tokens i db) st ctx decs = Inr res" "r \<in> set (wd_tokens db)"
  shows "tk_state (token_update now res r) =
    (if tk_id r \<in> set (er_consumed res) then ''consumed'' else if r \<in> set (live_rows i db) then ''waiting'' else tk_state r)"
  using engine_ids [OF assms] by (auto simp: token_update_def Let_def live_rows_def live_states_def)

lemma filter_map_cong: "(\<And>x. x \<in> set xs \<Longrightarrow> P (f x) = Q x) \<Longrightarrow> filter P (map f xs) = map f (filter Q xs)"
  by (induction xs) auto

lemma apply_live:
  assumes wf: "rt_wf db" and call: "engine_call g (rt_tokens i db) st ctx decs = Inr res"
    and ap: "apply_result env i res db = Inr db'"
  shows "live_rows i db' = map (token_update (we_now env) res) (filter (\<lambda>r. tk_id r \<notin> set (er_consumed res)) (live_rows i db))
      @ spawned_rows env i (wd_next db) (er_spawned res)"
    and "j \<noteq> i \<Longrightarrow> live_rows j db' = live_rows j db"
    and "\<forall>r\<in>set (live_rows i db'). tk_state r = ''waiting''"
    and "live_rows i db' = [] \<longleftrightarrow> er_completed res"
proof -
  note toks = apply_result_fields(8) [OF ap]
  note state = token_update_state [OF wf call]
  have spawned_live: "filter (\<lambda>r. tk_instance r = j \<and> tk_state r \<in> set live_states) (spawned_rows env i n ps)
      = (if j = i then spawned_rows env i n ps else [])" for j n ps
    by (auto simp: filter_empty_conv live_states_def intro!: filter_id_conv')
  have "filter (\<lambda>r. tk_instance r = i \<and> tk_state r \<in> set live_states) (map (token_update (we_now env) res) (wd_tokens db))
      = map (token_update (we_now env) res) (filter (\<lambda>r. r \<in> set (live_rows i db) \<and> tk_id r \<notin> set (er_consumed res)) (wd_tokens db))"
    by (rule filter_map_cong) (use state in \<open>auto simp: live_rows_def live_states_def\<close>)
  also have "filter (\<lambda>r. r \<in> set (live_rows i db) \<and> tk_id r \<notin> set (er_consumed res)) (wd_tokens db)
      = filter (\<lambda>r. tk_id r \<notin> set (er_consumed res)) (live_rows i db)"
    unfolding live_rows_def filter_filter by (rule filter_cong) auto
  finally show one: "live_rows i db' = map (token_update (we_now env) res) (filter (\<lambda>r. tk_id r \<notin> set (er_consumed res)) (live_rows i db))
      @ spawned_rows env i (wd_next db) (er_spawned res)"
    unfolding live_rows_def [of i db'] toks filter_append spawned_live by simp
  show "live_rows j db' = live_rows j db" if "j \<noteq> i"
  proof -
    have same: "token_update (we_now env) res r = r" if "r \<in> set (wd_tokens db)" "tk_instance r = j" for r
      using engine_ids [OF wf call that(1)] that(2) \<open>j \<noteq> i\<close> by (auto simp: token_update_def live_rows_def)
    have "filter (\<lambda>r. tk_instance r = j \<and> tk_state r \<in> set live_states) (map (token_update (we_now env) res) (wd_tokens db))
        = map (token_update (we_now env) res) (filter (\<lambda>r. tk_instance r = j \<and> tk_state r \<in> set live_states) (wd_tokens db))"
      by (rule filter_map_cong) (auto dest: same)
    also have "\<dots> = filter (\<lambda>r. tk_instance r = j \<and> tk_state r \<in> set live_states) (wd_tokens db)"
      by (rule map_idI) (use same in auto)
    finally show ?thesis unfolding live_rows_def toks filter_append spawned_live using that by simp
  qed
  have "tk_state (token_update (we_now env) res r) = ''waiting''" if "r \<in> set (live_rows i db)" "tk_id r \<notin> set (er_consumed res)" for r
    using state [of r] that by (simp add: live_rows_def)
  then show "\<forall>r\<in>set (live_rows i db'). tk_state r = ''waiting''"
    unfolding one by auto
  have "er_completed res \<longleftrightarrow> live_after (rt_tokens i db) res = []"
    using engine_accounting [OF call distinct_rt_tokens [OF wf]] by blast
  also have "\<dots> \<longleftrightarrow> filter (\<lambda>t. t_id t \<notin> set (er_consumed res)) (rt_tokens i db) = [] \<and> er_spawned res = []"
    by (simp add: live_after_def)
  also have "\<dots> \<longleftrightarrow> live_rows i db' = []"
  proof -
    have "filter (\<lambda>t. t_id t \<notin> set (er_consumed res)) (rt_tokens i db) = []
        \<longleftrightarrow> filter (\<lambda>r. tk_id r \<notin> set (er_consumed res)) (live_rows i db) = []"
      unfolding filter_empty_conv set_rt_tokens by (simp add: to_token_def)
    moreover have "spawned_rows env i n ps = [] \<longleftrightarrow> ps = []" for n ps
      by (cases ps) (simp_all add: spawned_rows_Cons spawned_rows_def [of _ _ _ "[]"])
    ultimately show ?thesis unfolding one by (simp only: append_is_Nil_conv map_is_Nil_conv)
  qed
  finally show "live_rows i db' = [] \<longleftrightarrow> er_completed res" by blast
qed

lemma finish_instance_ids [simp]: "map in_id (wd_instances (finish_instance now i db)) = map in_id (wd_instances db)"
  by (simp add: finish_instance_def)

lemma finish_instance_mem:
  assumes "r \<in> set (wd_instances (finish_instance now i db))"
  obtains r0 where "r0 \<in> set (wd_instances db)" "in_id r = in_id r0" "in_id r0 \<noteq> i \<Longrightarrow> r = r0"
    "in_status r = (if in_id r0 = i \<and> in_status r0 = Running then Completed else in_status r0)"
proof -
  obtain r0 where "r0 \<in> set (wd_instances db)" "r = (if in_id r0 = i \<and> in_status r0 = Running
     then r0\<lparr>in_status := Completed, in_ended := Some now\<rparr> else r0)"
    using assms unfolding finish_instance_def by auto
  then show thesis by (intro that [of r0]) (simp_all split: if_split)
qed

lemma apply_instance_mem:
  assumes "apply_result env i res db = Inr db'" "r \<in> set (wd_instances db')"
  obtains r0 where "r0 \<in> set (wd_instances db)" "in_id r = in_id r0" "in_id r0 \<noteq> i \<Longrightarrow> r = r0"
    "in_status r = (if er_completed res \<and> in_id r0 = i \<and> in_status r0 = Running then Completed else in_status r0)"
proof (cases "er_completed res")
  case True
  then have "r \<in> set (wd_instances (finish_instance (we_now env) i db))" using assms(2) apply_result_fields(9) [OF assms(1)] by simp
  then show thesis by (rule finish_instance_mem) (use that True in auto)
next
  case False
  then show thesis using assms(2) apply_result_fields(9) [OF assms(1)] that by simp
qed

lemma apply_instance_ids:
  assumes "apply_result env i res db = Inr db'"
  shows "map in_id (wd_instances db') = map in_id (wd_instances db)"
  unfolding apply_result_fields(9) [OF assms] by simp

lemma apply_wf:
  assumes wf: "rt_wf db" and i: "i \<in> in_id ` set (wd_instances db)" and ap: "apply_result env i res db = Inr db'"
  shows "rt_wf db'"
proof -
  note f = apply_result_fields [OF ap]
  have ids: "map tk_id (wd_tokens db') = map tk_id (wd_tokens db) @ [wd_next db..<wd_next db + length (er_spawned res)]"
    unfolding f(8) by (simp add: comp_def)
  have inst: "map in_id (wd_instances db') = map in_id (wd_instances db)" by (rule apply_instance_ids [OF ap])
  then have inst_set: "in_id ` set (wd_instances db') = in_id ` set (wd_instances db)" by (metis set_map)
  have old: "\<forall>n\<in>set (map tk_id (wd_tokens db)). n < wd_next db" using wf by (simp add: rt_wf_def)
  have "distinct (map tk_id (wd_tokens db'))"
    unfolding ids using wf old by (auto simp: rt_wf_def)
  moreover have "\<forall>n\<in>set (map tk_id (wd_tokens db')). n < wd_next db'"
    unfolding ids using old f(6,10) by auto
  moreover have "\<forall>r\<in>set (wd_tokens db'). tk_instance r \<in> in_id ` set (wd_instances db')"
    unfolding f(8) inst_set using wf i by (auto simp: rt_wf_def)
  moreover have "in_id r < wd_next db' \<and> in_status r \<in> {Running, Completed}" if "r \<in> set (wd_instances db')" for r
  proof -
    obtain r0 where "r0 \<in> set (wd_instances db)" "in_id r = in_id r0"
      "in_status r = (if er_completed res \<and> in_id r0 = i \<and> in_status r0 = Running then Completed else in_status r0)"
      using apply_instance_mem [OF ap \<open>r \<in> set (wd_instances db')\<close>] by metis
    then show ?thesis using wf f(6) by (auto simp: rt_wf_def)
  qed
  ultimately show ?thesis using wf inst unfolding rt_wf_def by simp
qed

lemma apply_completion:
  assumes wf: "rt_wf db" and call: "engine_call g (rt_tokens i db) st ctx decs = Inr res" and ap: "apply_result env i res db = Inr db'"
    and live: "live_rows i db \<noteq> []" and ok: "\<forall>j. completion_ok j db"
  shows "\<forall>j. completion_ok j db'"
proof
  fix j
  note f = apply_result_fields [OF ap]
  note al = apply_live [OF wf call ap]
  show "completion_ok j db'"
    unfolding completion_ok_def
  proof (intro ballI impI)
    fix r assume r: "r \<in> set (wd_instances db')" "in_id r = j"
    obtain r0 where r0: "r0 \<in> set (wd_instances db)" "in_id r = in_id r0" "in_id r0 \<noteq> i \<Longrightarrow> r = r0"
      "in_status r = (if er_completed res \<and> in_id r0 = i \<and> in_status r0 = Running then Completed else in_status r0)"
      using apply_instance_mem [OF ap r(1)] by metis
    show "in_status r = Completed \<longleftrightarrow> live_rows j db' = []"
    proof (cases "j = i")
      case True
      then have "in_status r0 \<noteq> Completed" using ok live r0(1,2) r(2) by (simp add: completion_ok_def)
      then have "in_status r0 = Running" using wf r0(1) by (auto simp: rt_wf_def)
      then show ?thesis using al(4) True r0(2,4) r(2) by simp
    next
      case False
      then have "r \<in> set (wd_instances db)" using r0 r(2) by simp
      then show ?thesis using ok r(2) al(2) [OF False] by (simp add: completion_ok_def)
    qed
  qed
qed

section \<open>The invariant, operation by operation\<close>

definition quiet :: "uuid \<Rightarrow> workflow_db \<Rightarrow> bool" where
  "quiet i db \<longleftrightarrow> (\<forall>r\<in>set (live_rows i db). tk_state r = ''waiting'')"

text \<open>A step has one result; an outbox row belongs to a step that has a result, and its key is unique.\<close>

definition rt_mid :: "(uuid \<Rightarrow> string) \<Rightarrow> workflow_db \<Rightarrow> bool" where
  "rt_mid us db \<longleftrightarrow> rt_wf db \<and> (\<forall>j. completion_ok j db) \<and> distinct (map (\<lambda>r. (rs_instance r, rs_node r)) (wd_results db))
     \<and> distinct (map ob_dedupe (wd_outbox db))
     \<and> (\<forall>o1\<in>set (wd_outbox db). \<exists>r\<in>set (wd_results db). ob_dedupe o1 = step_dedupe_key us (rs_instance r) (rs_node r))"

text \<open>What no step of the service ever takes back.\<close>

definition rt_frame :: "workflow_db \<Rightarrow> workflow_db \<Rightarrow> bool" where
  "rt_frame db db' \<longleftrightarrow> wd_versions db' = wd_versions db \<and> wd_templates db' = wd_templates db \<and> wd_events db' = wd_events db
     \<and> map (\<lambda>r. (in_id r, in_event r, in_version r)) (wd_instances db') = map (\<lambda>r. (in_id r, in_event r, in_version r)) (wd_instances db)
     \<and> set (wd_decisions db) \<subseteq> set (wd_decisions db') \<and> set (wd_results db) \<subseteq> set (wd_results db') \<and> wd_next db \<le> wd_next db'"

lemma rt_frame_refl [simp]: "rt_frame db db"
  by (simp add: rt_frame_def)

lemma rt_frame_trans: "rt_frame a b \<Longrightarrow> rt_frame b c \<Longrightarrow> rt_frame a c"
  by (auto simp: rt_frame_def)

lemma rt_frame_ids:
  assumes "rt_frame db db'" shows "map in_id (wd_instances db') = map in_id (wd_instances db)"
proof -
  have fst: "map in_id xs = map fst (map (\<lambda>r. (in_id r, in_event r, in_version r)) xs)" for xs by simp
  have "map (\<lambda>r. (in_id r, in_event r, in_version r)) (wd_instances db') = map (\<lambda>r. (in_id r, in_event r, in_version r)) (wd_instances db)"
    using assms unfolding rt_frame_def by (elim conjE)
  then show ?thesis unfolding fst by simp
qed

lemma rt_frame_mem:
  assumes "rt_frame db db'" shows "i \<in> in_id ` set (wd_instances db') \<longleftrightarrow> i \<in> in_id ` set (wd_instances db)"
proof -
  have "set (map in_id (wd_instances db')) = set (map in_id (wd_instances db))" using rt_frame_ids [OF assms] by (simp only:)
  then show ?thesis by simp
qed

lemma rt_frame_done: "rt_frame db db' \<Longrightarrow> step_done i k db \<Longrightarrow> step_done i k db'"
  by (auto simp: rt_frame_def step_done_def)

lemma live_rows_cong: "wd_tokens db' = wd_tokens db \<Longrightarrow> live_rows i db' = live_rows i db"
  by (simp add: live_rows_def)

lemma apply_frame:
  assumes "apply_result env i res db = Inr db'" shows "rt_frame db db'"
proof -
  note f = apply_result_fields [OF assms]
  have "map (\<lambda>r. (in_id r, in_event r, in_version r)) (wd_instances (finish_instance now j d))
      = map (\<lambda>r. (in_id r, in_event r, in_version r)) (wd_instances d)" for now j d
    by (simp add: finish_instance_def)
  then show ?thesis using f(1,3-7,9) by (auto simp: rt_frame_def)
qed

lemma mid_audit [simp]: "rt_mid us (db\<lparr>wd_audit := a\<rparr>) = rt_mid us db" "quiet i (db\<lparr>wd_audit := a\<rparr>) = quiet i db"
  "live_rows i (db\<lparr>wd_audit := a\<rparr>) = live_rows i db" "rt_frame d (db\<lparr>wd_audit := a\<rparr>) = rt_frame d db"
  by (simp_all add: rt_mid_def rt_wf_def completion_ok_def live_rows_def quiet_def rt_frame_def)

lemma result_fields [simp]: "wd_tokens (add_result env i k d actor db) = wd_tokens db"
  "wd_instances (add_result env i k d actor db) = wd_instances db" "wd_outbox (add_result env i k d actor db) = wd_outbox db"
  "wd_next (add_result env i k d actor db) = Suc (wd_next db)" "live_rows j (add_result env i k d actor db) = live_rows j db"
  "quiet j (add_result env i k d actor db) = quiet j db"
  by (simp_all add: add_result_def live_rows_def quiet_def)

lemma rt_frame_result [simp]: "rt_frame db (add_result env i k d actor db)"
  by (auto simp: rt_frame_def add_result_def)

lemma mid_result:
  assumes "rt_mid us db" "\<not> step_done i k db"
    and "distinct (map ob_dedupe rows)" "\<forall>o1\<in>set rows. o1 \<in> set (wd_outbox db) \<or> ob_dedupe o1 = step_dedupe_key us i k"
  shows "rt_mid us (add_result env i k d actor (db\<lparr>wd_outbox := rows\<rparr>))"
proof -
  have new: "(i, k) \<notin> (\<lambda>r. (rs_instance r, rs_node r)) ` set (wd_results db)" using assms(2) by (auto simp: step_done_def)
  have res: "wd_results (add_result env i k d actor (db\<lparr>wd_outbox := rows\<rparr>)) = wd_results db @
      [\<lparr>rs_id = wd_next db, rs_instance = i, rs_node = k, rs_result = d, rs_by = actor, rs_at = we_now env\<rparr>]"
    by (simp add: add_result_def)
  have wf: "rt_wf (add_result env i k d actor (db\<lparr>wd_outbox := rows\<rparr>))"
    using assms(1) by (auto simp: rt_mid_def rt_wf_def less_Suc_eq)
  have comp: "completion_ok j (add_result env i k d actor (db\<lparr>wd_outbox := rows\<rparr>))" for j
    using assms(1) by (simp add: rt_mid_def completion_ok_def live_rows_def)
  have "\<exists>r\<in>set (wd_results (add_result env i k d actor (db\<lparr>wd_outbox := rows\<rparr>))).
      ob_dedupe o1 = step_dedupe_key us (rs_instance r) (rs_node r)" if "o1 \<in> set rows" for o1
  proof (cases "o1 \<in> set (wd_outbox db)")
    case True
    then show ?thesis using assms(1) unfolding res rt_mid_def by (metis UnCI set_append)
  next
    case False
    then show ?thesis using assms(4) that unfolding res by auto
  qed
  then show ?thesis
    using assms(1,3) new wf comp unfolding rt_mid_def res by simp
qed

lemma mid_result_only: "rt_mid us db \<Longrightarrow> \<not> step_done i k db \<Longrightarrow> rt_mid us (add_result env i k d actor db)"
  using mid_result [of us db i k "wd_outbox db" env d actor] by (simp add: rt_mid_def)

lemma resume_needs_token: "resume_function g [] k ctx decs \<noteq> Inr res"
  by (auto simp: resume_function_def bind_res_Inr)

text \<open>Applying the result of an engine call for instance \<open>i\<close>.\<close>

lemma mid_apply:
  assumes mid: "rt_mid us db" and call: "engine_call g (rt_tokens i db) st ctx decs = Inr res" and live: "live_rows i db \<noteq> []"
    and i: "i \<in> in_id ` set (wd_instances db)" and ap: "apply_result env i res db = Inr db'"
  shows "rt_mid us db' \<and> quiet i db' \<and> (\<forall>j. j \<noteq> i \<longrightarrow> live_rows j db' = live_rows j db)"
proof -
  have wf: "rt_wf db" and comp: "\<forall>j. completion_ok j db" using mid by (simp_all add: rt_mid_def)
  note al = apply_live [OF wf call ap]
  have "rt_wf db'" using apply_wf [OF wf i ap] .
  moreover have "\<forall>j. completion_ok j db'" using apply_completion [OF wf call ap live comp] .
  ultimately show ?thesis
    using mid al(2,3) apply_result_fields(1,2) [OF ap] unfolding rt_mid_def quiet_def by simp
qed

lemma mid_resume:
  assumes "rt_mid us db" "resume_function g (rt_tokens i db) k ctx decs = Inr res" "i \<in> in_id ` set (wd_instances db)"
    "apply_result env i res db = Inr db'"
  shows "rt_mid us db' \<and> quiet i db' \<and> (\<forall>j. j \<noteq> i \<longrightarrow> live_rows j db' = live_rows j db)"
proof -
  have "rt_tokens i db \<noteq> []" using resume_needs_token assms(2) by metis
  then have "live_rows i db \<noteq> []" by (simp add: rt_tokens_Nil)
  moreover have "engine_call g (rt_tokens i db) (Some k) ctx decs = Inr res" using assms(2) by (simp add: engine_call_def)
  ultimately show ?thesis using mid_apply assms(1,3,4) by blast
qed

lemma run_auto_mid:
  assumes "run_auto env g inst k db = Inr db'" "rt_mid (we_uuid env) db" "\<not> step_done (in_id inst) k db"
    and i: "in_id inst \<in> in_id ` set (wd_instances db)"
  shows "rt_mid (we_uuid env) db' \<and> quiet (in_id inst) db' \<and> (\<forall>j. j \<noteq> in_id inst \<longrightarrow> live_rows j db' = live_rows j db) \<and> rt_frame db db'"
  using assms(1)
proof (rule run_auto_effect)
  fix db1 res action kind node rows
  assume rows: "rows = snd (outbox_put (env_secrets (we_audit env)) (we_now env) (step_dedupe_key (we_uuid env) (in_id inst) k, action,
       [(''instance_id'', PStr (we_uuid env (in_id inst))), (''node_key'', PStr k), (''kind'', PStr kind),
        (''props'', PDict (n_props node))]) (wd_outbox db))"
    and au: "audit_step env (in_id inst) k None (Some kind)
       (add_result env (in_id inst) k [(''dispatched'', PBool True), (''kind'', PStr kind)] None (db\<lparr>wd_outbox := rows\<rparr>)) = Inr db1"
    and res: "resume_function g (rt_tokens (in_id inst) db1) k (rt_context env inst db1) (rt_decisions (in_id inst) db1) = Inr res"
    and ap: "apply_result env (in_id inst) res db1 = Inr db'"
  from au obtain a where db1: "db1 = (add_result env (in_id inst) k [(''dispatched'', PBool True), (''kind'', PStr kind)] None
      (db\<lparr>wd_outbox := rows\<rparr>))\<lparr>wd_audit := a\<rparr>" by (elim audit_step_Inr)
  have "distinct (map ob_dedupe rows)" "\<forall>o1\<in>set rows. o1 \<in> set (wd_outbox db) \<or> ob_dedupe o1 = step_dedupe_key (we_uuid env) (in_id inst) k"
    using assms(2) by (auto simp: rows outbox_put_def rt_mid_def)
  then have mid1: "rt_mid (we_uuid env) db1" using mid_result [OF assms(2,3)] by (simp add: db1)
  have "in_id inst \<in> in_id ` set (wd_instances db1)" using i by (simp add: db1)
  note app = mid_resume [OF mid1 res this ap]
  have "rt_frame db db1" by (auto simp: db1 rt_frame_def add_result_def)
  moreover have "live_rows j db1 = live_rows j db" for j by (rule live_rows_cong) (simp add: db1)
  ultimately show ?thesis using app apply_frame [OF ap] rt_frame_trans by simp
qed

text \<open>A round of \<^verbatim>\<open>_settle\<close> only stamps deadlines on the tokens.\<close>

definition unarmed :: "wf_token \<Rightarrow> wf_token" where
  "unarmed r = r\<lparr>tk_resume := None\<rparr>"

lemma unarmed_fields [simp]: "tk_id (unarmed r) = tk_id r" "tk_instance (unarmed r) = tk_instance r" "tk_state (unarmed r) = tk_state r"
  "tk_node (unarmed r) = tk_node r" "tk_inbound (unarmed r) = tk_inbound r" "tk_entered (unarmed r) = tk_entered r"
  by (simp_all add: unarmed_def)

lemma unarmed_map:
  assumes "map unarmed ts' = map unarmed ts" "\<And>r. f (unarmed r) = f r"
  shows "map f ts' = map f ts"
proof -
  have "map f xs = map f (map unarmed xs)" for xs using assms(2) by simp
  then show ?thesis using assms(1) by metis
qed

definition row_settled :: "derived_graph \<Rightarrow> uuid \<Rightarrow> workflow_db \<Rightarrow> wf_token \<Rightarrow> bool" where
  "row_settled g i db r \<longleftrightarrow> (tk_instance r = i \<and> tk_state r = ''waiting'' \<longrightarrow>
     (\<forall>kind. Option.bind (graph_node g (tk_node r)) n_function_kind = Some kind \<longrightarrow>
       (kind \<in> set TIMER_KINDS \<longrightarrow> tk_resume r \<noteq> None) \<and> (kind \<in> set AUTO_KINDS \<longrightarrow> step_done i (tk_node r) db)))"

lemma settle_row_shape:
  assumes "settle_row env g i db r (rows, auto) = Inr (rows', auto')"
  shows "\<exists>r'. rows' = rows @ [r'] \<and> unarmed r' = unarmed r \<and> (auto' = None \<longrightarrow> auto = None \<and> row_settled g i db r')"
  using assms
  by (auto simp: settle_row_def row_settled_def unarmed_def TIMER_KINDS_def AUTO_KINDS_def bind_res_Inr split: if_split_asm option.split_asm)

lemma settle_scan_shape:
  assumes "fold_res (settle_row env g i db) rs (rows, auto) = Inr (rows', auto')"
  shows "\<exists>rs'. rows' = rows @ rs' \<and> map unarmed rs' = map unarmed rs \<and> (auto' = None \<longrightarrow> auto = None \<and> (\<forall>r\<in>set rs'. row_settled g i db r))"
  using assms
proof (induction rs arbitrary: rows auto)
  case (Cons r rs)
  then obtain rows1 auto1 where one: "settle_row env g i db r (rows, auto) = Inr (rows1, auto1)"
    and rest: "fold_res (settle_row env g i db) rs (rows1, auto1) = Inr (rows', auto')" by (auto simp: bind_res_Inr)
  obtain r' where r': "rows1 = rows @ [r']" "unarmed r' = unarmed r" "auto1 = None \<longrightarrow> auto = None \<and> row_settled g i db r'"
    using settle_row_shape [OF one] by blast
  obtain rs' where "rows' = rows1 @ rs'" "map unarmed rs' = map unarmed rs"
    "auto' = None \<longrightarrow> auto1 = None \<and> (\<forall>r\<in>set rs'. row_settled g i db r)"
    using Cons.IH [OF rest] by blast
  with r' show ?case by (intro exI [of _ "r' # rs'"]) auto
qed simp

lemma settle_row_settled:
  assumes "row_settled g i db r" shows "settle_row env g i db r (rows, None) = Inr (rows @ [r], None)"
proof (cases "tk_instance r = i \<and> tk_state r = ''waiting''")
  case True
  then show ?thesis
    using assms by (cases "Option.bind (graph_node g (tk_node r)) n_function_kind") (auto simp: settle_row_def row_settled_def)
qed (auto simp: settle_row_def)

lemma settle_scan_settled:
  "\<forall>r\<in>set rs. row_settled g i db r \<Longrightarrow> fold_res (settle_row env g i db) rs (rows, None) = Inr (rows @ rs, None)"
  by (induction rs arbitrary: rows) (simp_all add: settle_row_settled)

lemma live_rows_unarmed:
  assumes "map unarmed (wd_tokens db') = map unarmed (wd_tokens db)"
  shows "map unarmed (live_rows i db') = map unarmed (live_rows i db)"
proof -
  have "map unarmed (filter (\<lambda>r. tk_instance r = i \<and> tk_state r \<in> set live_states) xs)
      = filter (\<lambda>r. tk_instance r = i \<and> tk_state r \<in> set live_states) (map unarmed xs)" for xs
    by (induction xs) auto
  then show ?thesis using assms unfolding live_rows_def by metis
qed

lemma mid_unarmed:
  assumes "rt_mid us db" and eq: "map unarmed ts = map unarmed (wd_tokens db)"
  shows "rt_mid us (db\<lparr>wd_tokens := ts\<rparr>)" and "quiet i (db\<lparr>wd_tokens := ts\<rparr>) = quiet i db"
    and "rt_frame db (db\<lparr>wd_tokens := ts\<rparr>)"
proof -
  have live: "map unarmed (live_rows j (db\<lparr>wd_tokens := ts\<rparr>)) = map unarmed (live_rows j db)" for j
    by (rule live_rows_unarmed) (simp add: eq)
  have ids: "map (\<lambda>r. (tk_id r, tk_instance r)) ts = map (\<lambda>r. (tk_id r, tk_instance r)) (wd_tokens db)"
    by (rule unarmed_map [OF eq]) simp
  have ids1: "map tk_id ts = map tk_id (wd_tokens db)" by (rule unarmed_map [OF eq]) simp
  have "\<forall>p\<in>set (map (\<lambda>r. (tk_id r, tk_instance r)) ts). fst p < wd_next db \<and> snd p \<in> in_id ` set (wd_instances db)"
    unfolding ids using assms(1) by (auto simp: rt_mid_def rt_wf_def)
  then have "rt_wf (db\<lparr>wd_tokens := ts\<rparr>)" using assms(1) ids1 by (simp add: rt_mid_def rt_wf_def)
  moreover have "live_rows j (db\<lparr>wd_tokens := ts\<rparr>) = [] \<longleftrightarrow> live_rows j db = []" for j
    using live [of j] by (metis map_is_Nil_conv)
  ultimately show "rt_mid us (db\<lparr>wd_tokens := ts\<rparr>)"
    using assms(1) by (simp add: rt_mid_def completion_ok_def)
  have "quiet i d \<longleftrightarrow> (\<forall>s\<in>set (map tk_state (live_rows i d)). s = ''waiting'')" for d by (simp add: quiet_def)
  moreover have "map tk_state (live_rows i (db\<lparr>wd_tokens := ts\<rparr>)) = map tk_state (live_rows i db)"
    by (rule unarmed_map [OF live]) simp
  ultimately show "quiet i (db\<lparr>wd_tokens := ts\<rparr>) = quiet i db" by (simp only:)
  show "rt_frame db (db\<lparr>wd_tokens := ts\<rparr>)" by (simp add: rt_frame_def)
qed

lemma live_quiet_cong: "live_rows j db' = live_rows j db \<Longrightarrow> quiet j db' = quiet j db"
  by (simp add: quiet_def)

lemma settle_mid:
  assumes "settle n env g inst db = Inr db'" "rt_mid (we_uuid env) db" "in_id inst \<in> in_id ` set (wd_instances db)"
    "quiet (in_id inst) db"
  shows "rt_mid (we_uuid env) db' \<and> quiet (in_id inst) db' \<and> (\<forall>j. quiet j db \<longrightarrow> quiet j db') \<and> rt_frame db db'
    \<and> (\<forall>r\<in>set (wd_tokens db'). row_settled g (in_id inst) db' r)"
  using assms
proof (induction n arbitrary: db)
  case (Suc n)
  let ?i = "in_id inst"
  obtain rows auto where scan: "fold_res (settle_row env g ?i db) (wd_tokens db) ([], None) = Inr (rows, auto)"
    and rest: "(case auto of Some k \<Rightarrow> bind_res (run_auto env g inst k (db\<lparr>wd_tokens := rows\<rparr>)) (settle n env g inst)
        | None \<Rightarrow> Inr (db\<lparr>wd_tokens := rows\<rparr>)) = Inr db'"
    using Suc.prems(1) by (auto simp: bind_res_Inr Let_def)
  have eq: "map unarmed rows = map unarmed (wd_tokens db)" and st: "auto = None \<longrightarrow> (\<forall>r\<in>set rows. row_settled g ?i db r)"
    using settle_scan_shape [OF scan] by auto
  note mid1 = mid_unarmed [OF Suc.prems(2) eq]
  show ?case
  proof (cases auto)
    case None
    then have db': "db' = db\<lparr>wd_tokens := rows\<rparr>" using rest by simp
    have "\<forall>r\<in>set rows. row_settled g ?i db' r" using st None by (simp add: row_settled_def step_done_def db')
    then show ?thesis using mid1 Suc.prems(4) by (simp add: db')
  next
    case (Some k)
    then obtain db1 where ra: "run_auto env g inst k (db\<lparr>wd_tokens := rows\<rparr>) = Inr db1" and se: "settle n env g inst db1 = Inr db'"
      using rest by (auto simp: bind_res_Inr)
    have nd: "\<not> step_done ?i k (db\<lparr>wd_tokens := rows\<rparr>)"
      using settle_scan_auto [OF scan [unfolded Some]] by (simp add: step_done_def)
    have "?i \<in> in_id ` set (wd_instances (db\<lparr>wd_tokens := rows\<rparr>))" using Suc.prems(3) by simp
    note ram = run_auto_mid [OF ra mid1(1) nd this]
    have fr: "rt_frame db db1" using ram mid1(3) rt_frame_trans by blast
    have ids: "?i \<in> in_id ` set (wd_instances db1)" using Suc.prems(3) rt_frame_mem [OF fr] by blast
    note IH = Suc.IH [OF se conjunct1 [OF ram] ids]
    have q1: "quiet ?i db1" using ram by blast
    have "quiet j db1" if "quiet j db" for j
      using that ram q1 mid1(2) live_quiet_cong by (cases "j = ?i") metis+
    then show ?thesis using IH [OF q1] fr rt_frame_trans by blast
  qed
qed simp

definition rt_inv :: "(uuid \<Rightarrow> string) \<Rightarrow> workflow_db \<Rightarrow> bool" where
  "rt_inv us db \<longleftrightarrow> rt_mid us db \<and> (\<forall>j. quiet j db)"

text \<open>A state change that leaves the workflow tables alone, up to the counter.\<close>

lemma rt_inv_cong:
  assumes "wd_tokens db' = wd_tokens db" "wd_instances db' = wd_instances db" "wd_results db' = wd_results db"
    "wd_outbox db' = wd_outbox db" "wd_next db \<le> wd_next db'" "rt_inv us db"
  shows "rt_inv us db'"
proof -
  have "live_rows j db' = live_rows j db" for j using assms(1) by (rule live_rows_cong)
  moreover have "rt_wf db'"
    using assms unfolding rt_inv_def rt_mid_def rt_wf_def by (auto intro: less_le_trans)
  ultimately show ?thesis using assms unfolding rt_inv_def rt_mid_def completion_ok_def quiet_def by simp
qed

lemma rt_require_Inr:
  assumes "rt_require i db = Inr inst"
  shows "inst \<in> set (wd_instances db)" "in_id inst = i" "i \<in> in_id ` set (wd_instances db)"
  using assms by (auto simp: rt_require_def simp del: find_first_None split: option.split_asm dest!: find_first_Some)

lemma running_live:
  assumes "rt_mid us db" "inst \<in> set (wd_instances db)" "in_status inst = Running"
  shows "live_rows (in_id inst) db \<noteq> []"
proof -
  have "completion_ok (in_id inst) db" using assms(1) by (simp add: rt_mid_def)
  then have "in_status inst = Completed \<longleftrightarrow> live_rows (in_id inst) db = []" using assms(2) unfolding completion_ok_def by blast
  then show ?thesis using assms(3) by simp
qed

lemma drive_mid:
  assumes "drive env g inst db = Inr db'" "rt_mid (we_uuid env) db" "in_id inst \<in> in_id ` set (wd_instances db)"
    "live_rows (in_id inst) db \<noteq> []"
  shows "rt_mid (we_uuid env) db' \<and> quiet (in_id inst) db' \<and> (\<forall>j. j \<noteq> in_id inst \<and> quiet j db \<longrightarrow> quiet j db') \<and> rt_frame db db'
    \<and> (\<forall>r\<in>set (wd_tokens db'). row_settled g (in_id inst) db' r)"
proof -
  obtain res db1 where call: "engine_call g (rt_tokens (in_id inst) db) None (rt_context env inst db) (rt_decisions (in_id inst) db) = Inr res"
    and ap: "apply_result env (in_id inst) res db = Inr db1" and se: "settle (settle_rounds g) env g inst db1 = Inr db'"
    using assms(1) by (auto simp: drive_def bind_res_Inr lift_err_Inr' engine_call_def)
  note one = mid_apply [OF assms(2) call assms(4,3) ap]
  note fr = apply_frame [OF ap]
  have "in_id inst \<in> in_id ` set (wd_instances db1)" using assms(3) rt_frame_mem [OF fr] by blast
  note two = settle_mid [OF se conjunct1 [OF one] this]
  have "quiet j db1" if "j \<noteq> in_id inst" "quiet j db" for j using one that live_quiet_cong by blast
  then show ?thesis using two one fr rt_frame_trans by blast
qed

lemma advance_instance_inv:
  assumes "advance_instance env i db = Inr db'" "rt_inv (we_uuid env) db"
  shows "rt_inv (we_uuid env) db'" and "rt_frame db db'"
proof -
  obtain inst where inst: "rt_require i db = Inr inst" using assms(1) by (auto simp: advance_instance_def bind_res_Inr)
  note r = rt_require_Inr [OF inst]
  have "rt_inv (we_uuid env) db' \<and> rt_frame db db'"
  proof (cases "in_status inst = Running")
    case True
    then obtain g where g: "drive env g inst db = Inr db'" using assms(1) inst by (auto simp: advance_instance_def bind_res_Inr)
    have mid: "rt_mid (we_uuid env) db" using assms(2) by (simp add: rt_inv_def)
    have "in_id inst \<in> in_id ` set (wd_instances db)" using r by simp
    from drive_mid [OF g mid this running_live [OF mid r(1) True]] show ?thesis
      using assms(2) unfolding rt_inv_def by metis
  qed (use assms inst in \<open>auto simp: advance_instance_def\<close>)
  then show "rt_inv (we_uuid env) db'" "rt_frame db db'" by blast+
qed

lemma resume_settle_inv:
  assumes "resume_function g (rt_tokens (in_id inst) db) k ctx decs = Inr res" "apply_result env (in_id inst) res db = Inr db1"
    "settle n env g inst db1 = Inr db'" "rt_inv (we_uuid env) db" "in_id inst \<in> in_id ` set (wd_instances db)"
  shows "rt_inv (we_uuid env) db' \<and> rt_frame db db'"
proof -
  have mid: "rt_mid (we_uuid env) db" and q: "\<forall>j. quiet j db" using assms(4) by (simp_all add: rt_inv_def)
  note one = mid_resume [OF mid assms(1,5,2)]
  note fr = apply_frame [OF assms(2)]
  have "in_id inst \<in> in_id ` set (wd_instances db1)" using assms(5) rt_frame_mem [OF fr] by blast
  note two = settle_mid [OF assms(3) conjunct1 [OF one] this]
  have "quiet j db1" for j using one q live_quiet_cong by (cases "j = in_id inst") metis+
  then show ?thesis using two one fr rt_frame_trans unfolding rt_inv_def by blast
qed

lemma rt_tokens_cong: "wd_tokens db' = wd_tokens db \<Longrightarrow> rt_tokens i db' = rt_tokens i db"
  by (simp add: rt_tokens_def live_rows_def)

lemma complete_step_inv:
  assumes "complete_step env i k result actor db = Inr db'" "rt_inv (we_uuid env) db"
  shows "rt_inv (we_uuid env) db' \<and> rt_frame db db' \<and> step_done i k db'"
proof (cases "step_done i k db")
  case True
  then have "db' = db" using assms(1) by (auto simp: complete_step_def bind_res_Inr)
  then show ?thesis using assms(2) True by simp
next
  case False
  obtain inst g res db1 db2 where inst: "rt_require i db = Inr inst"
    and res: "resume_function g (rt_tokens (in_id inst) db) k (rt_context env inst db) (rt_decisions (in_id inst) db) = Inr res"
    and au: "audit_step env i k actor None (add_result env i k (case result of None \<Rightarrow> [] | Some d \<Rightarrow> d) actor db) = Inr db1"
    and ap: "apply_result env i res db1 = Inr db2" and se: "settle (settle_rounds g) env g inst db2 = Inr db'"
    using assms(1) False by (auto simp: complete_step_def bind_res_Inr lift_err_Inr' rt_resume_def)
  note r = rt_require_Inr [OF inst]
  from au obtain a where db1: "db1 = (add_result env i k (case result of None \<Rightarrow> [] | Some d \<Rightarrow> d) actor db)\<lparr>wd_audit := a\<rparr>"
    by (elim audit_step_Inr)
  have "rt_inv (we_uuid env) db1"
    using assms(2) mid_result_only [OF _ False] by (simp add: rt_inv_def db1)
  moreover have "rt_tokens (in_id inst) db1 = rt_tokens (in_id inst) db" by (rule rt_tokens_cong) (simp add: db1)
  moreover have "in_id inst \<in> in_id ` set (wd_instances db1)" using r by (simp add: db1)
  ultimately have "rt_inv (we_uuid env) db' \<and> rt_frame db1 db'"
    using resume_settle_inv [of g inst db1] res ap se r(2) by simp
  moreover have "rt_frame db db1" "step_done i k db1" by (simp_all add: db1) (simp add: step_done_def add_result_def)
  ultimately show ?thesis using rt_frame_trans rt_frame_done by blast
qed

lemma live_rows_activate:
  assumes "\<And>r. r \<in> set (wd_tokens db) \<Longrightarrow> tk_id r = t \<Longrightarrow> tk_state r = ''waiting''"
  shows "map tk_id (live_rows j (activate_token t db)) = map tk_id (live_rows j db)"
proof -
  have "filter (\<lambda>r. tk_instance r = j \<and> tk_state r \<in> set live_states)
      (map (\<lambda>r. if tk_id r = t then r\<lparr>tk_state := ''active''\<rparr> else r) (wd_tokens db))
    = map (\<lambda>r. if tk_id r = t then r\<lparr>tk_state := ''active''\<rparr> else r)
      (filter (\<lambda>r. tk_instance r = j \<and> tk_state r \<in> set live_states) (wd_tokens db))"
    by (rule filter_map_cong) (use assms in \<open>auto simp: live_states_def\<close>)
  then show ?thesis by (simp add: live_rows_def activate_token_def comp_def if_distrib cong: if_cong)
qed

lemma activate_mid:
  assumes mid: "rt_mid us db" and r: "r \<in> set (wd_tokens db)" "tk_state r = ''waiting''"
  shows "rt_mid us (add_decision env i k chosen auto actor (activate_token (tk_id r) db))"
    and "\<And>j. j \<noteq> tk_instance r \<Longrightarrow> live_rows j (activate_token (tk_id r) db) = live_rows j db"
    and "live_rows (tk_instance r) (activate_token (tk_id r) db) \<noteq> []"
proof -
  have wf: "rt_wf db" using mid by (simp add: rt_mid_def)
  have only: "r' = r" if "r' \<in> set (wd_tokens db)" "tk_id r' = tk_id r" for r'
    using rt_wf_unique [OF wf that(1) r(1) that(2)] .
  have live: "map tk_id (live_rows j (activate_token (tk_id r) db)) = map tk_id (live_rows j db)" for j
    by (rule live_rows_activate) (use only r(2) in auto)
  then have emp: "live_rows j (activate_token (tk_id r) db) = [] \<longleftrightarrow> live_rows j db = []" for j
    by (metis map_is_Nil_conv)
  define db1 where "db1 = add_decision env i k chosen auto actor (activate_token (tk_id r) db)"
  have flds: "wd_instances db1 = wd_instances db" "wd_results db1 = wd_results db" "wd_outbox db1 = wd_outbox db" "wd_next db1 = Suc (wd_next db)"
    "wd_tokens db1 = wd_tokens (activate_token (tk_id r) db)" by (simp_all add: db1_def add_decision_def activate_token_def)
  have toks: "map (\<lambda>r. (tk_id r, tk_instance r)) (wd_tokens db1) = map (\<lambda>r. (tk_id r, tk_instance r)) (wd_tokens db)"
    "map tk_id (wd_tokens db1) = map tk_id (wd_tokens db)"
    unfolding flds(5) by (simp_all add: activate_token_def)
  have "\<forall>p\<in>set (map (\<lambda>r. (tk_id r, tk_instance r)) (wd_tokens db1)). fst p < wd_next db1 \<and> snd p \<in> in_id ` set (wd_instances db1)"
    unfolding toks(1) flds(1,4) using wf by (auto simp: rt_wf_def less_Suc_eq)
  then have "\<forall>r\<in>set (wd_tokens db1). tk_id r < wd_next db1 \<and> tk_instance r \<in> in_id ` set (wd_instances db1)" by simp
  then have "rt_wf db1" using wf toks(2) unfolding rt_wf_def flds(1,4) by (auto simp: less_Suc_eq)
  moreover have "live_rows j db1 = live_rows j (activate_token (tk_id r) db)" for j using flds(5) by (rule live_rows_cong)
  ultimately show "rt_mid us db1"
    using mid emp by (simp add: rt_mid_def completion_ok_def flds)
  show "live_rows (tk_instance r) (activate_token (tk_id r) db) \<noteq> []"
    unfolding emp using r by (auto simp: live_rows_def live_states_def filter_empty_conv)
  show "live_rows j (activate_token (tk_id r) db) = live_rows j db" if j: "j \<noteq> tk_instance r" for j
  proof -
    have "filter (\<lambda>r. tk_instance r = j \<and> tk_state r \<in> set live_states)
        (map (\<lambda>x. if tk_id x = tk_id r then x\<lparr>tk_state := ''active''\<rparr> else x) (wd_tokens db))
      = map (\<lambda>x. if tk_id x = tk_id r then x\<lparr>tk_state := ''active''\<rparr> else x) (live_rows j db)"
      unfolding live_rows_def by (rule filter_map_cong) (use only j in auto)
    also have "\<dots> = live_rows j db"
      by (rule map_idI) (use only j in \<open>auto simp: live_rows_def\<close>)
    finally show ?thesis by (simp add: live_rows_def activate_token_def)
  qed
qed

lemma decide_cases:
  assumes "decide env i k keys actor db = Inr db'"
  obtains (replay) "db' = db" "\<exists>d\<in>set (wd_decisions db). dc_instance d = i \<and> dc_connector d = k"
  | (decided) inst g r chosen db1 where "rt_require i db = Inr inst" "r \<in> set (wd_tokens db)" "tk_instance r = i" "tk_state r = ''waiting''"
      "audit_decision env i k chosen actor False (add_decision env i k chosen False actor (activate_token (tk_id r) db)) = Inr db1"
      "drive env g inst db1 = Inr db'"
proof -
  obtain inst g where inst: "rt_require i db = Inr inst" "rt_graph env (in_version inst) db = Inr g"
    using assms by (auto simp: decide_def bind_res_Inr)
  obtain node where node: "graph_node g k = Some node" "n_type node = ''connector''" "n_connector_direction node = Some ''split''"
    using assms inst by (auto simp: decide_def split: option.split_asm if_split_asm)
  show thesis
  proof (cases "\<exists>d\<in>set (wd_decisions db). dc_instance d = i \<and> dc_connector d = k")
    case True
    then have "db' = db" using assms inst node by (simp add: decide_def)
    then show thesis using True replay by blast
  next
    case False
    let ?w = "filter (\<lambda>r. tk_instance r = i \<and> tk_node r = k \<and> tk_state r = ''waiting'') (wd_tokens db)"
    have "(case ?w of [] \<Rightarrow> Inl (DecisionNotAvailable k)
        | [r] \<Rightarrow> bind_res (audit_decision env i k (dedupe_from {} keys) actor False
            (add_decision env i k (dedupe_from {} keys) False actor (activate_token (tk_id r) db))) (drive env g inst)
        | _ \<Rightarrow> Inl (ManyWaitingTokens k)) = Inr db'"
      using assms inst node False unfolding decide_def Let_def by (simp split: if_split_asm)
    then obtain r db1 where w: "?w = [r]" and
      "audit_decision env i k (dedupe_from {} keys) actor False
        (add_decision env i k (dedupe_from {} keys) False actor (activate_token (tk_id r) db)) = Inr db1" "drive env g inst db1 = Inr db'"
      by (cases ?w rule: remdups_adj.cases) (auto simp: bind_res_Inr)
    moreover have "r \<in> set ?w" unfolding w by simp
    then have "r \<in> set (wd_tokens db)" "tk_instance r = i" "tk_state r = ''waiting''" by simp_all
    ultimately show thesis using inst(1) by (intro decided [of inst r "dedupe_from {} keys" db1 g])
  qed
qed

lemma decide_inv:
  assumes "decide env i k keys actor db = Inr db'" "rt_inv (we_uuid env) db"
  shows "rt_inv (we_uuid env) db' \<and> rt_frame db db' \<and> (\<exists>d\<in>set (wd_decisions db'). dc_instance d = i \<and> dc_connector d = k)"
  using assms(1)
proof (cases rule: decide_cases)
  case replay
  then show ?thesis using assms(2) by simp
next
  case (decided inst g r chosen db1)
  have mid: "rt_mid (we_uuid env) db" and q: "\<forall>j. quiet j db" using assms(2) by (simp_all add: rt_inv_def)
  note req = rt_require_Inr [OF decided(1)]
  let ?db0 = "add_decision env i k chosen False actor (activate_token (tk_id r) db)"
  obtain a where db1: "db1 = ?db0\<lparr>wd_audit := a\<rparr>" using decided(5) by (elim audit_decision_Inr)
  have live: "live_rows j db1 = live_rows j (activate_token (tk_id r) db)" for j
    by (rule live_rows_cong) (simp add: db1 add_decision_def)
  note act = activate_mid [OF mid decided(2,4)]
  have mid1: "rt_mid (we_uuid env) db1" using act(1) by (simp add: db1)
  have fr: "rt_frame db db1" and dec: "\<exists>d\<in>set (wd_decisions db1). dc_instance d = i \<and> dc_connector d = k"
    by (auto simp: db1 rt_frame_def add_decision_def activate_token_def)
  have "in_id inst \<in> in_id ` set (wd_instances db1)" using req rt_frame_mem [OF fr] by simp
  moreover have "live_rows (in_id inst) db1 \<noteq> []" using act(3) decided(3) req(2) by (simp add: live)
  ultimately have dr: "rt_mid (we_uuid env) db' \<and> quiet (in_id inst) db' \<and> (\<forall>j. j \<noteq> in_id inst \<and> quiet j db1 \<longrightarrow> quiet j db') \<and> rt_frame db1 db'"
    using drive_mid [OF decided(6) mid1] by blast
  have "quiet j db1" if "j \<noteq> in_id inst" for j
    using q that act(2) [of j] decided(3) req(2) by (simp add: quiet_def live)
  then have "quiet j db'" for j using dr by (cases "j = in_id inst") auto
  moreover have "set (wd_decisions db1) \<subseteq> set (wd_decisions db')" using dr by (simp add: rt_frame_def)
  ultimately show ?thesis using dr fr dec rt_frame_trans unfolding rt_inv_def by blast
qed

lemma clear_resume_inv:
  assumes "rt_inv us db" shows "rt_inv us (clear_resume t db)" "rt_frame db (clear_resume t db)"
proof -
  have mid: "rt_mid us db" using assms by (simp add: rt_inv_def)
  have "map unarmed (map (\<lambda>r. if tk_id r = t then r\<lparr>tk_resume := None\<rparr> else r) (wd_tokens db)) = map unarmed (wd_tokens db)"
    by (simp add: unarmed_def)
  note eq = mid_unarmed [OF mid this]
  show "rt_inv us (clear_resume t db)" "rt_frame db (clear_resume t db)"
    using eq assms by (simp_all add: rt_inv_def clear_resume_def)
qed

lemma fire_timer_inv:
  assumes "fire_timer env r (fired, db) = Inr (fired', db')" "rt_inv (we_uuid env) db"
  shows "rt_inv (we_uuid env) db'"
proof -
  obtain inst g where inst: "rt_require (tk_instance r) db = Inr inst" and g: "rt_graph env (in_version inst) db = Inr g"
    using assms(1) by (auto simp: fire_timer_def bind_res_Inr)
  note r = rt_require_Inr [OF inst]
  define db1 where "db1 = clear_resume (tk_id r) db"
  have inv1: "rt_inv (we_uuid env) db1" using clear_resume_inv [OF assms(2)] by (simp add: db1_def)
  show ?thesis
  proof (cases "in_status inst \<noteq> Running \<or> step_done (in_id inst) (tk_node r) db1")
    case True
    then have "db' = db1" using assms(1) inst g by (auto simp: fire_timer_def db1_def Let_def)
    then show ?thesis using inv1 by simp
  next
    case False
    then obtain db2 res db3 where au: "audit_step env (in_id inst) (tk_node r) None (Some ''timer'')
          (add_result env (in_id inst) (tk_node r) [(''timer'', PStr ''elapsed'')] None db1) = Inr db2"
      and res: "resume_function g (rt_tokens (in_id inst) db2) (tk_node r) (rt_context env inst db2) (rt_decisions (in_id inst) db2) = Inr res"
      and ap: "apply_result env (in_id inst) res db2 = Inr db3" and se: "settle (settle_rounds g) env g inst db3 = Inr db'"
      using assms(1) inst g by (auto simp: fire_timer_def db1_def Let_def bind_res_Inr lift_err_Inr' rt_resume_def)
    from au obtain a where db2: "db2 = (add_result env (in_id inst) (tk_node r) [(''timer'', PStr ''elapsed'')] None db1)\<lparr>wd_audit := a\<rparr>"
      by (elim audit_step_Inr)
    have "rt_inv (we_uuid env) db2"
      using inv1 mid_result_only False by (simp add: rt_inv_def db2)
    moreover have "in_id inst \<in> in_id ` set (wd_instances db2)" using r by (simp add: db2 db1_def clear_resume_def)
    ultimately show ?thesis using resume_settle_inv [OF res ap se] by blast
  qed
qed

lemma fire_due_timers_inv:
  assumes "fire_due_timers env now db = Inr (fired, db')" "rt_inv (we_uuid env) db"
  shows "rt_inv (we_uuid env) db'"
proof -
  have "rt_inv (we_uuid env) (snd (fired, db'))"
    using assms(1) unfolding fire_due_timers_def
    by (rule fold_res_invariant [where P = "\<lambda>s. rt_inv (we_uuid env) (snd s)"]) (use assms(2) fire_timer_inv in \<open>fastforce+\<close>)
  then show ?thesis by simp
qed

lemma start_instance_inv:
  assumes "start_instance env e v actor db = Inr (inst, db')" "rt_inv (we_uuid env) db"
  shows "rt_inv (we_uuid env) db'"
proof -
  define I where "I = \<lparr>in_id = wd_next db, in_event = e, in_version = v, in_status = Running, in_started = we_now env, in_ended = None\<rparr>"
  define db0 where "db0 = db\<lparr>wd_instances := wd_instances db @ [I], wd_next := Suc (wd_next db)\<rparr>"
  have "bind_res (wf_write_audit env ''WORKFLOW_INSTANCE_STARTED'' actor ''workflow_instance'' (we_uuid env (in_id I))
               [(''event_id'', PStr (we_uuid env e)), (''template_version_id'', PStr (we_uuid env v))] None db0) (\<lambda>db1.
      bind_res (rt_graph env v db1) (\<lambda>g. bind_res (drive env g I (add_token env (in_id I) ''active'' (g_start g, None) db1)) (\<lambda>db2.
        Inr (I, db2)))) = Inr (inst, db')"
    using assms(1) unfolding start_instance_def Let_def I_def [symmetric] db0_def [symmetric] by (simp only: sum.distinct split: if_split_asm)
  then obtain db1 g where I: "inst = I"
    and au: "wf_write_audit env ''WORKFLOW_INSTANCE_STARTED'' actor ''workflow_instance'' (we_uuid env (in_id I))
               [(''event_id'', PStr (we_uuid env e)), (''template_version_id'', PStr (we_uuid env v))] None db0 = Inr db1"
    and dr: "drive env g inst (add_token env (in_id inst) ''active'' (g_start g, None) db1) = Inr db'"
    by (auto simp: bind_res_Inr)
  have inst: "inst = \<lparr>in_id = wd_next db, in_event = e, in_version = v, in_status = Running, in_started = we_now env, in_ended = None\<rparr>"
    using I unfolding I_def .
  obtain a where db1: "db1 = db0\<lparr>wd_audit := a\<rparr>" using au by (elim wf_write_audit_Inr)
  define db2 where "db2 = add_token env (in_id inst) ''active'' (g_start g, None) db1"
  have mid: "rt_mid (we_uuid env) db" and q: "\<forall>j. quiet j db" using assms(2) by (simp_all add: rt_inv_def)
  have id: "in_id inst = wd_next db" by (simp add: I I_def)
  have toks: "wd_tokens db2 = wd_tokens db @ [\<lparr>tk_id = Suc (wd_next db), tk_instance = wd_next db, tk_node = g_start g, tk_inbound = None,
      tk_state = ''active'', tk_resume = None, tk_entered = we_now env, tk_left = None\<rparr>]"
    and flds: "wd_instances db2 = wd_instances db @ [inst]" "wd_results db2 = wd_results db" "wd_outbox db2 = wd_outbox db"
      "wd_next db2 = Suc (Suc (wd_next db))"
    by (simp_all add: db2_def add_token_def db1 db0_def id I [symmetric])
  have live: "live_rows j db2 = live_rows j db" if "j \<noteq> wd_next db" for j
    using that by (simp add: live_rows_def toks)
  have live_new: "live_rows (wd_next db) db2 \<noteq> []" by (simp add: live_rows_def toks live_states_def)
  have ins_old: "in_id r \<noteq> wd_next db" if "r \<in> set (wd_instances db)" for r using mid that by (auto simp: rt_mid_def rt_wf_def)
  have "rt_wf db2"
    using mid unfolding rt_mid_def rt_wf_def toks flds by (auto simp: inst dest: less_SucI)
  moreover have "completion_ok j db2" for j
    using mid ins_old live live_new unfolding rt_mid_def completion_ok_def flds
    by (cases "j = wd_next db") (auto simp: inst)
  ultimately have mid2: "rt_mid (we_uuid env) db2" using mid by (simp add: rt_mid_def flds)
  have "in_id inst \<in> in_id ` set (wd_instances db2)" by (simp add: flds)
  from drive_mid [OF dr [folded db2_def] mid2 this] live_new
  have "rt_mid (we_uuid env) db' \<and> quiet (wd_next db) db' \<and> (\<forall>j. j \<noteq> wd_next db \<and> quiet j db2 \<longrightarrow> quiet j db')" by (simp add: id)
  moreover have "quiet j db2" if "j \<noteq> wd_next db" for j using q live [OF that] by (simp add: quiet_def)
  ultimately show ?thesis unfolding rt_inv_def by metis
qed

lemma start_for_event_inv:
  assumes "start_for_event env e key actor db = Inr (inst, db')" "rt_inv (we_uuid env) db"
  shows "rt_inv (we_uuid env) db'"
  using assms start_instance_inv by (auto simp: start_for_event_def Let_def simp del: find_first_None split: option.split_asm)

section \<open>Every sequence of requests\<close>

text \<open>The service, the timers worker, the lifecycle service and the writers of events, in any order.\<close>

inductive rt_step :: "(uuid \<Rightarrow> string) \<Rightarrow> workflow_db \<Rightarrow> workflow_db \<Rightarrow> bool" for us where
  start: "we_uuid env = us \<Longrightarrow> start_instance env e v actor db = Inr (inst, db') \<Longrightarrow> rt_step us db db'"
| start_event: "we_uuid env = us \<Longrightarrow> start_for_event env e key actor db = Inr (inst, db') \<Longrightarrow> rt_step us db db'"
| advanced: "we_uuid env = us \<Longrightarrow> advance_instance env i db = Inr db' \<Longrightarrow> rt_step us db db'"
| completed: "we_uuid env = us \<Longrightarrow> complete_step env i k result actor db = Inr db' \<Longrightarrow> rt_step us db db'"
| decided: "we_uuid env = us \<Longrightarrow> decide env i k keys actor db = Inr db' \<Longrightarrow> rt_step us db db'"
| timers: "we_uuid env = us \<Longrightarrow> fire_due_timers env now db = Inr (fired, db') \<Longrightarrow> rt_step us db db'"
| lifecycle: "lc_step sch db db' \<Longrightarrow> rt_step us db db'"
| events: "rt_step us db (db\<lparr>wd_events := evs\<rparr>)"

inductive_cases rt_stepE: "rt_step us db db'"

lemma lc_step_tables:
  assumes "lc_step sch db db'"
  shows "wd_tokens db' = wd_tokens db \<and> wd_instances db' = wd_instances db \<and> wd_results db' = wd_results db
    \<and> wd_outbox db' = wd_outbox db \<and> wd_next db \<le> wd_next db'"
  using assms
  by (rule lc_stepE)
    (auto simp: create_template_def rename_template_def create_draft_version_def edit_draft_def delete_draft_version_def simulate_version_def
      validate_version_def publish_version_def deprecate_version_def rebuild_graph_index_def set_version_def bind_res_Inr Let_def
      simp del: find_first_None split: if_split_asm option.split_asm dest!: lc_audit_Inr)

lemma rt_step_inv:
  assumes "rt_step us db db'" "rt_inv us db" shows "rt_inv us db'"
  using assms(1)
proof cases
  case (lifecycle sch)
  then show ?thesis using lc_step_tables rt_inv_cong assms(2) by blast
next
  case (events evs)
  then show ?thesis using rt_inv_cong [OF _ _ _ _ _ assms(2)] by simp
next
  case (start env e v actor inst)
  then show ?thesis using start_instance_inv assms(2) by metis
next
  case (start_event env e key actor inst)
  then show ?thesis using start_for_event_inv assms(2) by metis
next
  case (advanced env i)
  then show ?thesis using advance_instance_inv(1) assms(2) by metis
next
  case (completed env i k result actor)
  then show ?thesis using complete_step_inv assms(2) by metis
next
  case (decided env i k keys actor)
  then show ?thesis using decide_inv assms(2) by metis
next
  case (timers env now fired)
  then show ?thesis using fire_due_timers_inv assms(2) by metis
qed

lemma rt_inv_reachable: "(rt_step us)\<^sup>*\<^sup>* (empty_workflow_db evs) db \<Longrightarrow> rt_inv us db"
proof (induction rule: rtranclp_induct)
  case base
  show ?case by (simp add: rt_inv_def rt_mid_def rt_wf_def completion_ok_def quiet_def live_rows_def empty_workflow_db_def)
qed (use rt_step_inv in blast)

section \<open>Failover and replay\<close>

lemma rt_graph_frame: "rt_frame db db' \<Longrightarrow> we_schema env' = we_schema env \<Longrightarrow> rt_graph env' v db' = rt_graph env v db"
  unfolding rt_frame_def rt_graph_def version_at_def by (simp cong: option.case_cong)

lemma find_instance_version:
  assumes "map (\<lambda>r. (in_id r, in_event r, in_version r)) xs = map (\<lambda>r. (in_id r, in_event r, in_version r)) ys"
    "find_first (\<lambda>r. in_id r = i) xs = Some x"
  shows "\<exists>y. find_first (\<lambda>r. in_id r = i) ys = Some y \<and> in_id y = i \<and> in_version y = in_version x"
  using assms by (induction xs ys rule: list_induct2') (auto simp: find_first_def split: if_split_asm)

lemma rt_require_frame:
  assumes "rt_frame db db'" "rt_require i db = Inr inst"
  obtains inst' where "rt_require i db' = Inr inst'" "in_id inst' = i" "in_version inst' = in_version inst"
proof -
  have "map (\<lambda>r. (in_id r, in_event r, in_version r)) (wd_instances db) = map (\<lambda>r. (in_id r, in_event r, in_version r)) (wd_instances db')"
    using assms(1) by (simp add: rt_frame_def)
  moreover have "find_first (\<lambda>r. in_id r = i) (wd_instances db) = Some inst"
    using assms(2) by (simp add: rt_require_def split: option.split_asm)
  ultimately obtain inst' where "find_first (\<lambda>r. in_id r = i) (wd_instances db') = Some inst'" "in_id inst' = i" "in_version inst' = in_version inst"
    using find_instance_version by blast
  then show thesis by (intro that [of inst']) (simp_all add: rt_require_def)
qed

text \<open>On a settled instance \<^verbatim>\<open>_drive\<close> changes nothing.\<close>

lemma apply_no_change: "apply_result env i (no_change False) db = Inr db"
proof -
  have "map (token_update now (no_change False)) ts = ts" for now ts by (rule map_idI) (simp add: token_update_def no_change_def)
  then show ?thesis by (simp add: apply_result_def no_change_def)
qed

lemma drive_settled:
  assumes "wf_graph g" "quiet (in_id inst) db" "live_rows (in_id inst) db \<noteq> []" "\<forall>r\<in>set (wd_tokens db). row_settled g (in_id inst) db r"
  shows "drive env g inst db = Inr db"
proof -
  have "\<forall>t\<in>set (rt_tokens (in_id inst) db). t_state t = ''waiting''"
    using assms(2) by (auto simp: set_rt_tokens quiet_def to_token_def)
  then have "advance g (rt_tokens (in_id inst) db) ctx decs = Inr (no_change False)" for ctx decs
    using advance_waiting [OF assms(1)] assms(3) by (simp add: rt_tokens_Nil)
  moreover have "settle (settle_rounds g) env g inst db = Inr db"
  proof -
    have rounds: "settle_rounds g = Suc (length (g_nodes g) + 4)" by (simp add: settle_rounds_def)
    show ?thesis unfolding rounds settle.simps using settle_scan_settled [OF assms(4), of env "[]"] by simp
  qed
  ultimately show ?thesis by (simp add: drive_def apply_no_change lift_err_def)
qed

lemma advance_idempotent:
  assumes "rt_inv (we_uuid env) db" "advance_instance env i db = Inr db'" "we_schema env' = we_schema env"
  shows "advance_instance env' i db' = Inr db'"
proof -
  obtain inst where inst: "rt_require i db = Inr inst" using assms(2) by (auto simp: advance_instance_def bind_res_Inr)
  note r = rt_require_Inr [OF inst]
  note inv' = advance_instance_inv [OF assms(2,1)]
  obtain inst' where inst': "rt_require i db' = Inr inst'" "in_id inst' = i" "in_version inst' = in_version inst"
    using rt_require_frame [OF inv'(2) inst] .
  show ?thesis
  proof (cases "in_status inst' = Running \<and> in_status inst = Running")
    case True
    then obtain g where g: "rt_graph env (in_version inst) db = Inr g" and dr: "drive env g inst db = Inr db'"
      using assms(2) inst by (auto simp: advance_instance_def bind_res_Inr)
    have mid: "rt_mid (we_uuid env) db" "rt_mid (we_uuid env) db'" using assms(1) inv'(1) by (simp_all add: rt_inv_def)
    have "in_id inst \<in> in_id ` set (wd_instances db)" using r by simp
    note dm = drive_mid [OF dr mid(1) this running_live [OF mid(1) r(1)]]
    have live: "live_rows (in_id inst') db' \<noteq> []"
      using running_live [OF mid(2) rt_require_Inr(1) [OF inst'(1)]] True by simp
    have "wf_graph g" using g by (auto simp: rt_graph_def lift_err_Inr' simp del: find_first_None split: option.split_asm intro: derive_index_wf)
    then have "drive env' g inst' db' = Inr db'"
      using dm True r(2) inst'(2) by (intro drive_settled live) simp_all
    then show ?thesis
      using inst' g rt_graph_frame [OF inv'(2) assms(3)] by (simp add: advance_instance_def)
  next
    case False
    then show ?thesis
    proof (cases "in_status inst = Running")
      case True
      then show ?thesis using False inst'(1) by (simp add: advance_instance_def)
    next
      case False
      then have "db' = db" using assms(2) inst by (auto simp: advance_instance_def)
      then show ?thesis using inst False by (simp add: advance_instance_def)
    qed
  qed
qed

lemma complete_step_replay:
  assumes "rt_inv (we_uuid env) db" "complete_step env i k result actor db = Inr db'"
  shows "complete_step env' i k result' actor' db' = Inr db'"
proof -
  note inv = complete_step_inv [OF assms(2,1)]
  obtain inst where "rt_require i db = Inr inst" using assms(2) by (auto simp: complete_step_def bind_res_Inr)
  from rt_require_frame [OF _ this] inv obtain inst' where "rt_require i db' = Inr inst'" by blast
  then show ?thesis using inv by (simp add: complete_step_def)
qed

lemma decide_replay:
  assumes "rt_inv (we_uuid env) db" "decide env i k keys actor db = Inr db'" "we_schema env' = we_schema env"
  shows "decide env' i k keys' actor' db' = Inr db'"
proof -
  note inv = decide_inv [OF assms(2,1)]
  then have fr: "rt_frame db db'" by blast
  obtain inst g where inst: "rt_require i db = Inr inst" "rt_graph env (in_version inst) db = Inr g"
    using assms(2) by (auto simp: decide_def bind_res_Inr)
  obtain node where node: "graph_node g k = Some node" "n_type node = ''connector''" "n_connector_direction node = Some ''split''"
    using assms(2) inst by (auto simp: decide_def split: option.split_asm if_split_asm)
  obtain inst' where inst': "rt_require i db' = Inr inst'" "in_id inst' = i" "in_version inst' = in_version inst"
    using rt_require_frame [OF fr inst(1)] .
  have "rt_graph env' (in_version inst') db' = Inr g" using inst(2) inst'(3) rt_graph_frame [OF fr assms(3)] by simp
  then show ?thesis using inst'(1) node inv by (simp add: decide_def)
qed

section \<open>Properties\<close>

text \<open>
  C2. Whatever requests, timer runs and lifecycle changes happen in whatever order, between them no token is active, a
  running instance has a live token and a completed one has none, a step has at most one result, and the outbox holds at most one
  action per step and only for steps with a result.
\<close>

theorem runtime_invariant:
  assumes "(rt_step us)\<^sup>*\<^sup>* (empty_workflow_db evs) db"
  shows "(\<forall>inst\<in>set (wd_instances db). in_status inst = (if live_rows (in_id inst) db = [] then Completed else Running))
    \<and> (\<forall>i. \<forall>r\<in>set (live_rows i db). tk_state r = ''waiting'')
    \<and> distinct (map (\<lambda>r. (rs_instance r, rs_node r)) (wd_results db))
    \<and> distinct (map ob_dedupe (wd_outbox db))
    \<and> (\<forall>o1\<in>set (wd_outbox db). \<exists>r\<in>set (wd_results db). ob_dedupe o1 = step_dedupe_key us (rs_instance r) (rs_node r))"
proof -
  have inv: "rt_inv us db" using assms by (rule rt_inv_reachable)
  have "in_status inst = (if live_rows (in_id inst) db = [] then Completed else Running)" if "inst \<in> set (wd_instances db)" for inst
  proof -
    have "completion_ok (in_id inst) db" using inv by (simp add: rt_inv_def rt_mid_def)
    then have "in_status inst = Completed \<longleftrightarrow> live_rows (in_id inst) db = []" using that unfolding completion_ok_def by blast
    moreover have "in_status inst \<in> {Running, Completed}" using inv that by (auto simp: rt_inv_def rt_mid_def rt_wf_def)
    ultimately show ?thesis by auto
  qed
  then show ?thesis using inv unfolding rt_inv_def rt_mid_def quiet_def by simp
qed

text \<open>
  C4. Failover and replay are harmless: in any reachable state, running \<^verbatim>\<open>advance_instance\<close> again after it succeeded, later and on
  any node, completing a step again, and deciding a connector again change nothing at all.
\<close>

theorem runtime_idempotent:
  assumes "(rt_step (we_uuid env))\<^sup>*\<^sup>* (empty_workflow_db evs) db" "we_schema env' = we_schema env"
  shows "(advance_instance env i db = Inr db1 \<longrightarrow> advance_instance env' i db1 = Inr db1)
    \<and> (complete_step env i k result actor db = Inr db2 \<longrightarrow> complete_step env' i k result' actor' db2 = Inr db2)
    \<and> (decide env i k keys actor db = Inr db3 \<longrightarrow> decide env' i k keys' actor' db3 = Inr db3)"
proof -
  note inv = rt_inv_reachable [OF assms(1)]
  show ?thesis
    using advance_idempotent [OF inv _ assms(2)] complete_step_replay [OF inv] decide_replay [OF inv _ assms(2)]
    by (intro conjI impI; assumption?) blast+
qed

text \<open>
  \<^verbatim>\<open>complete_step\<close> does not look at the type of the node: on this publishable definition an instance waits at an XOR split
  for a decision, and completing the split as if it were a step sends tokens down both branches, without any decision.
\<close>

definition never :: pydict where
  "never = [(''op'', PStr ''eq''), (''left'', PInt 1), (''right'', PInt 2)]"

definition xor_def :: graph_def where
  "xor_def = \<lparr>d_start = ''s'',
     d_nodes = [mk_jnode ''s'' ''event'' None None, mk_jnode ''x'' ''connector'' (Some ''xor'') (Some ''split''),
       mk_jnode ''f1'' ''function'' None None, mk_jnode ''f2'' ''function'' None None],
     d_edges = [mk_gedge ''a'' ''s'' ''x'' None, mk_gedge ''b'' ''x'' ''f1'' (Some never), mk_gedge ''c'' ''x'' ''f2'' (Some never)]\<rparr>"

definition sample_row :: event_row where
  "sample_row = \<lparr>ew_id = 9, ew_title = ''fire'', ew_description = None, ew_priority = High, ew_status = New, ew_bbz = None,
     ew_workplace = None, ew_source = ''manual'', ew_version = 1\<rparr>"

definition xor_db :: workflow_db where
  "xor_db = (empty_workflow_db [sample_row])\<lparr>wd_versions := [\<lparr>wv_id = 1, wv_template = 1, wv_no = 1, wv_lifecycle = Published,
     wv_definition = xor_def, wv_changelog = None, wv_published_at = None, wv_published_by = None\<rparr>], wd_next := 2\<rparr>"

definition xor_started :: workflow_db where
  "xor_started = ok_of xor_db (map_sum id snd (start_instance sample_wf_env 9 1 None xor_db))"

theorem complete_step_skips_decision:
  "validate_publishable (\<lambda>_. []) None xor_def = []
   \<and> map (\<lambda>r. (tk_node r, tk_state r)) (live_rows 2 xor_started) = [(''x'', ''waiting'')]
   \<and> (\<exists>db. complete_step sample_wf_env 2 ''x'' None (Some 7) xor_started = Inr db
       \<and> map (\<lambda>r. (tk_node r, tk_state r)) (live_rows 2 db) = [(''f1'', ''waiting''), (''f2'', ''waiting'')] \<and> wd_decisions db = [])"
proof -
  have "is_ok (complete_step sample_wf_env 2 ''x'' None (Some 7) xor_started)" by code_simp
  note ok = ok_of_Inr [OF this, of xor_started]
  have pub: "validate_publishable (\<lambda>_. []) None xor_def = []" by code_simp
  have waits: "map (\<lambda>r. (tk_node r, tk_state r)) (live_rows 2 xor_started) = [(''x'', ''waiting'')]" by code_simp
  have both: "map (\<lambda>r. (tk_node r, tk_state r)) (live_rows 2 (ok_of xor_started (complete_step sample_wf_env 2 ''x'' None (Some 7) xor_started)))
      = [(''f1'', ''waiting''), (''f2'', ''waiting'')]" by code_simp
  have none: "wd_decisions (ok_of xor_started (complete_step sample_wf_env 2 ''x'' None (Some 7) xor_started)) = []" by code_simp
  show ?thesis by (intro conjI exI) (fact pub, fact waits, fact ok, fact both, fact none)
qed

section \<open>Witnesses\<close>

definition fork_db :: workflow_db where
  "fork_db = db_published\<lparr>wd_events := [sample_row]\<rparr>"

definition fork_started :: workflow_db where
  "fork_started = ok_of fork_db (map_sum id snd (start_instance sample_wf_env 9 2 None fork_db))"

lemma fork_started_reachable: "(rt_step nat_str)\<^sup>*\<^sup>* (empty_workflow_db []) fork_started"
proof -
  have "(rt_step nat_str)\<^sup>*\<^sup>* (empty_workflow_db []) db_published"
    using db_published_reachable by (rule mono_rtranclp [rule_format, rotated]) (rule rt_step.lifecycle)
  also have "rt_step nat_str db_published fork_db" unfolding fork_db_def by (rule rt_step.events)
  also have "rt_step nat_str fork_db fork_started"
  proof -
    have "is_ok (start_instance sample_wf_env 9 2 None fork_db)" by code_simp
    then obtain inst db where st: "start_instance sample_wf_env 9 2 None fork_db = Inr (inst, db)" by (auto simp: is_ok_iff)
    then have "fork_started = db" by (simp add: fork_started_def ok_of_def)
    with st show ?thesis by (intro rt_step.start [of sample_wf_env]) (simp_all add: sample_wf_env_def)
  qed
  finally show ?thesis .
qed

theorem runtime_invariant_witness:
  "(rt_step nat_str)\<^sup>*\<^sup>* (empty_workflow_db []) fork_started \<and> map in_status (wd_instances fork_started) = [Running]"
proof -
  have ids: "map in_id (wd_instances fork_started) = [3]" and live: "live_rows 3 fork_started \<noteq> []" by code_simp+
  obtain inst where inst: "wd_instances fork_started = [inst]" "in_id inst = 3" using ids by (auto simp: map_eq_Cons_conv)
  have "\<forall>inst\<in>set (wd_instances fork_started). in_status inst = (if live_rows (in_id inst) fork_started = [] then Completed else Running)"
    using runtime_invariant [OF fork_started_reachable] by (elim conjE)
  then have "in_status inst = Running" using inst live by simp
  then show ?thesis using fork_started_reachable inst by simp
qed

theorem runtime_idempotent_witness:
  "\<exists>db1. advance_instance sample_wf_env 3 fork_started = Inr db1 \<and> advance_instance sample_wf_env 3 db1 = Inr db1"
proof -
  have "is_ok (advance_instance sample_wf_env 3 fork_started)" by code_simp
  then obtain db1 where adv: "advance_instance sample_wf_env 3 fork_started = Inr db1" by (auto simp: is_ok_iff)
  have "(rt_step (we_uuid sample_wf_env))\<^sup>*\<^sup>* (empty_workflow_db []) fork_started"
    using fork_started_reachable by (simp add: sample_wf_env_def)
  from runtime_idempotent [OF this refl, of 3 db1] adv show ?thesis by blast
qed

end
