(* ===== verification/Telephony.thy ===== *)
theory Telephony
  imports Py_Value
begin

text \<open>
  The pure part of telephony: \<^verbatim>\<open>server/bbz_core/domain/telephony/state.py\<close> and \<^verbatim>\<open>call.py\<close> (call state machine and aggregate),
  \<^verbatim>\<open>domain/triggers/signals.py\<close> (the normalised inbound signal), and the two JSON schemas that decide what those functions are
  given, \<^verbatim>\<open>telephony_event.v1.json\<close> and \<^verbatim>\<open>inbound_signal.v1.json\<close>. A normalised event is the dictionary it is in the code. Whether
  a text is an RFC 3339 date-time is the parameter \<open>date_time\<close>.
\<close>

section \<open>Dictionaries of strings\<close>

text \<open>\<^verbatim>\<open>event.get(k)\<close> for a key whose value is a string or null, and \<^verbatim>\<open>event[k]\<close> for one the schema requires.\<close>

definition get_str :: "pydict \<Rightarrow> string \<Rightarrow> string option" where
  "get_str e k = (case dict_get e k of PStr s \<Rightarrow> Some s | _ \<Rightarrow> None)"

definition req_str :: "pydict \<Rightarrow> string \<Rightarrow> string" where
  "req_str e k = (case get_str e k of Some s \<Rightarrow> s | None \<Rightarrow> [])"

definition get_dict :: "pydict \<Rightarrow> string \<Rightarrow> pydict" where
  "get_dict e k = (case dict_get e k of PDict d \<Rightarrow> d | _ \<Rightarrow> [])"

text \<open>A string that counts as true: neither missing nor empty.\<close>

definition non_empty :: "string option \<Rightarrow> string option" where
  "non_empty s = (case s of Some (c # t) \<Rightarrow> Some (c # t) | _ \<Rightarrow> None)"

definition is_str :: "pyval \<Rightarrow> bool" where
  "is_str v = (case v of PStr _ \<Rightarrow> True | _ \<Rightarrow> False)"

definition str_or_null :: "pyval \<Rightarrow> bool" where
  "str_or_null v = (v = PNone \<or> is_str v)"

section \<open>Calls\<close>

datatype call_direction = Inbound | Outbound

fun direction_value :: "call_direction \<Rightarrow> string" where
  "direction_value Inbound = ''inbound''"
| "direction_value Outbound = ''outbound''"

definition direction_of :: "string \<Rightarrow> call_direction option" where
  "direction_of s = (if s = ''inbound'' then Some Inbound else if s = ''outbound'' then Some Outbound else None)"

datatype call_state =
    Offered | Ringing | Connected | OnHold | Transferring | Disconnected | CallFailed | EndedPendingDocumentation

fun call_state_value :: "call_state \<Rightarrow> string" where
  "call_state_value Offered = ''offered''"
| "call_state_value Ringing = ''ringing''"
| "call_state_value Connected = ''connected''"
| "call_state_value OnHold = ''held''"
| "call_state_value Transferring = ''transferring''"
| "call_state_value Disconnected = ''disconnected''"
| "call_state_value CallFailed = ''failed''"
| "call_state_value EndedPendingDocumentation = ''ended_pending_documentation''"

definition TERMINAL :: "call_state list" where
  "TERMINAL = [Disconnected, CallFailed, EndedPendingDocumentation]"

definition PROVIDER_TARGET :: "(string \<times> call_state) list" where
  "PROVIDER_TARGET =
     [(''CALL_OFFERED'', Offered), (''CALL_RINGING'', Ringing), (''CALL_ANSWERED'', Connected), (''CALL_CONNECTED'', Connected),
      (''CALL_HELD'', OnHold), (''CALL_RESUMED'', Connected), (''CALL_TRANSFER_INITIATED'', Transferring),
      (''CALL_TRANSFERRED'', Connected), (''CALL_CONFERENCED'', Connected), (''CALL_DISCONNECTED'', Disconnected),
      (''CALL_FAILED'', CallFailed)]"

definition provider_target_state :: "string \<Rightarrow> call_state option" where
  "provider_target_state t = map_of PROVIDER_TARGET t"

definition business_event_for :: "call_state \<Rightarrow> call_state \<Rightarrow> string option" where
  "business_event_for old new =
     (if old = new then None
      else if new = Ringing \<and> old \<in> set [Offered] then Some ''CALL_RINGING''
      else if new = Connected \<and> old \<in> set [Offered, Ringing] then Some ''CALL_ANSWERED''
      else if new \<in> set TERMINAL \<and> old \<notin> set TERMINAL then Some ''CALL_ENDED''
      else None)"

record call_domain_event =
  cde_type :: string
  cde_payload :: pydict

record call_aggregate =
  cg_bbz :: string
  cg_direction :: call_direction
  cg_state :: call_state
  cg_source :: "string option"
  cg_line :: "string option"
  cg_pending :: "call_domain_event list"

definition nullable :: "string option \<Rightarrow> pyval" where
  "nullable s = (case s of None \<Rightarrow> PNone | Some t \<Rightarrow> PStr t)"

definition call_start :: "string \<Rightarrow> call_direction \<Rightarrow> string option \<Rightarrow> string option \<Rightarrow> call_aggregate" where
  "call_start bbz dir source line =
     \<lparr>cg_bbz = bbz, cg_direction = dir, cg_state = Offered, cg_source = source, cg_line = line, cg_pending = []\<rparr>"

definition call_emit :: "string \<Rightarrow> pydict \<Rightarrow> call_aggregate \<Rightarrow> call_aggregate" where
  "call_emit ty extra a =
     a\<lparr>cg_pending := cg_pending a @ [\<lparr>cde_type = ty, cde_payload =
        [(''bbz_call_id'', PStr (cg_bbz a)), (''source_call_id'', nullable (cg_source a)),
         (''direction'', PStr (direction_value (cg_direction a))), (''line_id'', nullable (cg_line a))] @ extra\<rparr>]\<rparr>"

definition apply_provider_event :: "string \<Rightarrow> call_aggregate \<Rightarrow> call_aggregate" where
  "apply_provider_event ty a =
     (case provider_target_state ty of
        None \<Rightarrow> a
      | Some target \<Rightarrow>
          if cg_state a \<in> set TERMINAL then a
          else if target = cg_state a then a
          else (let old = cg_state a; a' = a\<lparr>cg_state := target\<rparr> in
                case business_event_for old target of
                  None \<Rightarrow> a'
                | Some be \<Rightarrow> call_emit be [(''from'', PStr (call_state_value old)), (''to'', PStr (call_state_value target))] a'))"

definition collect_call_events :: "call_aggregate \<Rightarrow> call_domain_event list \<times> call_aggregate" where
  "collect_call_events a = (cg_pending a, a\<lparr>cg_pending := []\<rparr>)"

section \<open>Schemas\<close>

definition EVENT_TYPES :: "string list" where
  "EVENT_TYPES = [''CALL_OFFERED'', ''CALL_RINGING'', ''CALL_ANSWERED'', ''CALL_CONNECTED'', ''CALL_HELD'', ''CALL_RESUMED'',
     ''CALL_TRANSFER_INITIATED'', ''CALL_TRANSFERRED'', ''CALL_CONFERENCED'', ''CALL_DISCONNECTED'', ''CALL_FAILED'',
     ''LINE_IN_SERVICE'', ''LINE_OUT_OF_SERVICE'', ''DEVICE_REGISTERED'', ''DEVICE_UNREGISTERED'', ''CTI_PROVIDER_IN_SERVICE'',
     ''CTI_PROVIDER_OUT_OF_SERVICE'']"

definition NULLABLE_FIELDS :: "string list" where
  "NULLABLE_FIELDS = [''provider_cluster_id'', ''source_call_id'', ''source_leg_id'', ''line_id'', ''device_id'', ''calling_number'',
     ''called_number'', ''redirecting_number'', ''display_name'', ''correlation_id'']"

text \<open>Required non-empty strings, required date-times, and no key beyond those the schema names.\<close>

definition filled :: "pydict \<Rightarrow> string \<Rightarrow> bool" where
  "filled d k = (non_empty (get_str d k) \<noteq> None)"

definition dated :: "(string \<Rightarrow> bool) \<Rightarrow> pydict \<Rightarrow> string \<Rightarrow> bool" where
  "dated date_time d k = (case get_str d k of Some s \<Rightarrow> date_time s | None \<Rightarrow> False)"

definition telephony_event_valid :: "(string \<Rightarrow> bool) \<Rightarrow> pydict \<Rightarrow> bool" where
  "telephony_event_valid date_time d =
     (set (map fst d) \<subseteq> set ([''telephony_event_id'', ''provider'', ''event_type'', ''raw_event_type'', ''occurred_at'', ''received_at'',
        ''gateway_node'', ''metadata''] @ NULLABLE_FIELDS) \<and>
      list_all (filled d) [''telephony_event_id'', ''provider'', ''gateway_node''] \<and>
      is_str (dict_get d ''raw_event_type'') \<and>
      (case get_str d ''event_type'' of Some t \<Rightarrow> t \<in> set EVENT_TYPES | None \<Rightarrow> False) \<and>
      list_all (dated date_time d) [''occurred_at'', ''received_at''] \<and>
      list_all (\<lambda>k. str_or_null (dict_get d k)) NULLABLE_FIELDS \<and>
      (has_key d ''metadata'' \<longrightarrow> (case dict_get d ''metadata'' of PDict _ \<Rightarrow> True | _ \<Rightarrow> False)))"

definition SIGNAL_TYPES :: "string list" where
  "SIGNAL_TYPES = [''CALL_RINGING'', ''CALL_ANSWERED'', ''CALL_ENDED'', ''TECHNICAL_ALARM_RAISED'', ''PANIC_ALARM_RAISED'',
     ''DOORBELL_RINGING'', ''BMA_ALARM_CALL'']"

definition SOURCE_TEXT_FIELDS :: "string list" where
  "SOURCE_TEXT_FIELDS = [''ani'', ''dnis'', ''source_call_id'', ''cti_route_point'', ''technical_endpoint_id'', ''external_source_id'',
     ''site'', ''call_state'', ''alarm_subtype'']"

definition source_valid :: "pydict \<Rightarrow> bool" where
  "source_valid src =
     (set (map fst src) \<subseteq> set ([''direction'', ''severity''] @ SOURCE_TEXT_FIELDS) \<and>
      list_all (\<lambda>k. str_or_null (dict_get src k)) SOURCE_TEXT_FIELDS \<and>
      dict_get src ''direction'' \<in> set [PNone, PStr ''inbound'', PStr ''outbound''] \<and>
      dict_get src ''severity'' \<in> set [PNone, PStr ''critical'', PStr ''high'', PStr ''medium'', PStr ''low''])"

definition validate_inbound_signal :: "(string \<Rightarrow> bool) \<Rightarrow> pydict \<Rightarrow> bool" where
  "validate_inbound_signal date_time d =
     (set (map fst d) \<subseteq> set [''signal_type'', ''provider'', ''occurred_at'', ''received_at'', ''gateway_node'', ''correlation_id'', ''source''] \<and>
      (case get_str d ''signal_type'' of Some t \<Rightarrow> t \<in> set SIGNAL_TYPES | None \<Rightarrow> False) \<and>
      list_all (filled d) [''provider'', ''gateway_node''] \<and>
      list_all (dated date_time d) [''occurred_at'', ''received_at''] \<and>
      str_or_null (dict_get d ''correlation_id'') \<and>
      (case dict_get d ''source'' of PDict src \<Rightarrow> source_valid src | _ \<Rightarrow> False))"

section \<open>Signals\<close>

datatype inbound_signal_type =
    SigCallRinging | SigCallAnswered | SigCallEnded | SigTechnicalAlarm | SigPanicAlarm | SigDoorbell | SigBmaAlarm

fun signal_type_value :: "inbound_signal_type \<Rightarrow> string" where
  "signal_type_value SigCallRinging = ''CALL_RINGING''"
| "signal_type_value SigCallAnswered = ''CALL_ANSWERED''"
| "signal_type_value SigCallEnded = ''CALL_ENDED''"
| "signal_type_value SigTechnicalAlarm = ''TECHNICAL_ALARM_RAISED''"
| "signal_type_value SigPanicAlarm = ''PANIC_ALARM_RAISED''"
| "signal_type_value SigDoorbell = ''DOORBELL_RINGING''"
| "signal_type_value SigBmaAlarm = ''BMA_ALARM_CALL''"

definition FROM_TELEPHONY :: "(string \<times> inbound_signal_type) list" where
  "FROM_TELEPHONY =
     [(''CALL_OFFERED'', SigCallRinging), (''CALL_RINGING'', SigCallRinging), (''CALL_ANSWERED'', SigCallAnswered),
      (''CALL_CONNECTED'', SigCallAnswered), (''CALL_DISCONNECTED'', SigCallEnded), (''CALL_FAILED'', SigCallEnded)]"

datatype signal_error = InboundSignalRejected

definition from_telephony_event :: "(string \<Rightarrow> bool) \<Rightarrow> pydict \<Rightarrow> (signal_error, pydict option) res" where
  "from_telephony_event date_time e =
     (case map_of FROM_TELEPHONY (req_str e ''event_type'') of
        None \<Rightarrow> Inr None
      | Some st \<Rightarrow>
          (let meta = get_dict e ''metadata'';
               direction = (if dict_get meta ''direction'' \<in> set [PStr ''inbound'', PStr ''outbound''] then dict_get meta ''direction'' else PNone);
               sig = [(''signal_type'', PStr (signal_type_value st)), (''provider'', dict_get e ''provider''),
                 (''occurred_at'', dict_get e ''occurred_at''), (''received_at'', dict_get e ''received_at''),
                 (''gateway_node'', dict_get e ''gateway_node''), (''correlation_id'', dict_get e ''correlation_id''),
                 (''source'', PDict [(''ani'', dict_get e ''calling_number''), (''dnis'', dict_get e ''called_number''),
                    (''source_call_id'', dict_get e ''source_call_id''), (''cti_route_point'', dict_get meta ''cti_route_point''),
                    (''technical_endpoint_id'', dict_get meta ''technical_endpoint_id''), (''direction'', direction)])]
           in if validate_inbound_signal date_time sig then Inr (Some sig) else Inl InboundSignalRejected))"

definition SIGNAL_SEVERITIES :: "string list" where
  "SIGNAL_SEVERITIES = [''critical'', ''high'', ''medium'', ''low'']"

text \<open>\<^verbatim>\<open>str(x or "").lower()\<close> for a text or null severity; \<^verbatim>\<open>a.get(k) or a[k']\<close> for the time.\<close>

definition from_incoming_alarm :: "(string \<Rightarrow> bool) \<Rightarrow> pydict \<Rightarrow> (signal_error, pydict) res" where
  "from_incoming_alarm date_time a =
     (let subtype = dict_get a ''alarm_subtype'';
          st = (if subtype = PStr ''panic_button'' then SigPanicAlarm else SigTechnicalAlarm);
          severity = py_lower (req_str a ''severity_external'');
          sig = [(''signal_type'', PStr (signal_type_value st)), (''provider'', dict_get a ''provider''),
            (''occurred_at'', if py_truthy (dict_get a ''occurred_at'') then dict_get a ''occurred_at'' else dict_get a ''received_at''),
            (''received_at'', dict_get a ''received_at''), (''gateway_node'', dict_get a ''provider_instance_id''), (''correlation_id'', PNone),
            (''source'', PDict [(''external_source_id'', dict_get a ''source_external_id''), (''site'', dict_get a ''site_external_id''),
               (''alarm_subtype'', subtype),
               (''severity'', if severity \<in> set SIGNAL_SEVERITIES then PStr severity else PNone)])]
      in if validate_inbound_signal date_time sig then Inr sig else Inl InboundSignalRejected)"

end
