(* ===== verification/Phone_Book.thy ===== *)
theory Phone_Book
  imports Py_Value
begin

text \<open>
  \<^verbatim>\<open>server/bbz_core/domain/contacts/phone_numbers.py\<close> (normalisation of a dialled number to E.164 or to an internal
  extension) and \<^verbatim>\<open>infra/repositories/contact_matching.py\<close> (the caller's contact by longest match, with the
  process-local cache). The phone book is the three tables the query joins, in the order the database returns the rows.
\<close>

section \<open>Normalisation\<close>

definition DEFAULT_REGION :: string where
  "DEFAULT_REGION = ''DE''"

text \<open>Region, country code, national trunk prefix, international call prefix.\<close>

definition REGIONS :: "(string \<times> string \<times> string \<times> string) list" where
  "REGIONS = [(''DE'', ''49'', ''0'', ''00'')]"

definition region_rules :: "string \<Rightarrow> string \<times> string \<times> string" where
  "region_rules region =
     (case map_of REGIONS region of Some r \<Rightarrow> r | None \<Rightarrow> the (map_of REGIONS DEFAULT_REGION))"

definition is_separator :: "char \<Rightarrow> bool" where
  "is_separator c = (py_isspace c \<or> c \<in> set ''()/.-'')"

text \<open>The end anchor \<^verbatim>\<open>$\<close> of a Python pattern also matches before one final newline.\<close>

definition at_end :: "(string \<Rightarrow> bool) \<Rightarrow> string \<Rightarrow> bool" where
  "at_end p s = (p s \<or> (s \<noteq> [] \<and> last s = CHR 0x0A \<and> p (butlast s)))"

definition DIGITS :: "string \<Rightarrow> bool" where
  "DIGITS s = at_end (\<lambda>t. t \<noteq> [] \<and> list_all py_isdigit t) s"

definition MAX_EXTENSION_LEN :: nat where
  "MAX_EXTENSION_LEN = 6"

definition MIN_E164_DIGITS :: nat where
  "MIN_E164_DIGITS = 8"

definition E164 :: "string \<Rightarrow> bool" where
  "E164 s = at_end (\<lambda>t. case t of
       sign # first # rest \<Rightarrow> sign = CHR ''+'' \<and> py_isdigit first \<and> first \<noteq> CHR ''0'' \<and> list_all py_isdigit rest \<and>
         MIN_E164_DIGITS - 1 \<le> length rest \<and> length rest \<le> 14
     | _ \<Rightarrow> False) s"

record number_parts =
  np_raw :: string
  np_e164 :: "string option"
  np_extension :: "string option"

definition valid_e164 :: "string \<Rightarrow> string option" where
  "valid_e164 candidate = (if E164 candidate then Some candidate else None)"

definition clean_number :: "string \<Rightarrow> string" where
  "clean_number raw =
     (let s = py_strip raw;
          s = (if py_lower (take 4 s) = ''tel:'' then drop 4 s else s)
      in filter (\<lambda>c. \<not> is_separator c) s)"

definition normalize_number :: "string \<Rightarrow> string \<Rightarrow> number_parts" where
  "normalize_number raw region =
     (let (country_code, trunk, intl) = region_rules region;
          cleaned = clean_number raw;
          parts = (\<lambda>e x. \<lparr>np_raw = raw, np_e164 = e, np_extension = x\<rparr>)
      in if str_starts cleaned ''+'' then parts (valid_e164 cleaned) None
         else if cleaned = [] \<or> \<not> DIGITS cleaned then parts None None
         else if str_starts cleaned intl then parts (valid_e164 (''+'' @ drop (length intl) cleaned)) None
         else if str_starts cleaned trunk then parts (valid_e164 (''+'' @ country_code @ drop (length trunk) cleaned)) None
         else if length cleaned \<le> MAX_EXTENSION_LEN then parts None (Some cleaned)
         else parts None None)"

section \<open>Matching\<close>

definition MIN_MATCH_DIGITS :: nat where
  "MIN_MATCH_DIGITS = 7"

definition MAX_EXTENSION_DIGITS :: nat where
  "MAX_EXTENSION_DIGITS = 6"

definition CACHE_TTL :: rat where
  "CACHE_TTL = 30"

record caller_match =
  cm_e164 :: "string option"
  cm_contact :: "uuid option"
  cm_name :: "string option"
  cm_priority :: "string option"
  cm_matched_on :: "string option"
  cm_extension :: "string option"
  cm_ambiguous :: bool

definition unknown_caller :: "string option \<Rightarrow> caller_match" where
  "unknown_caller e = \<lparr>cm_e164 = e, cm_contact = None, cm_name = None, cm_priority = None, cm_matched_on = None,
     cm_extension = None, cm_ambiguous = False\<rparr>"

definition cm_matched :: "caller_match \<Rightarrow> bool" where
  "cm_matched m = (cm_contact m \<noteq> None)"

fun common_prefix_len :: "string \<Rightarrow> string \<Rightarrow> nat" where
  "common_prefix_len (x # xs) (y # ys) = (if x \<noteq> y then 0 else Suc (common_prefix_len xs ys))"
| "common_prefix_len _ _ = 0"

definition common_suffix_len :: "string \<Rightarrow> string \<Rightarrow> nat" where
  "common_suffix_len a b = common_prefix_len (rev a) (rev b)"

definition match_score :: "string \<Rightarrow> string \<Rightarrow> nat" where
  "match_score query stored =
     (if query = stored then length stored
      else if str_starts query stored \<and> 1 \<le> int (length query) - int (length stored) \<and>
              int (length query) - int (length stored) \<le> int MAX_EXTENSION_DIGITS \<and> MIN_MATCH_DIGITS \<le> length stored
      then length stored
      else (let k = common_suffix_len query stored in
            if MIN_MATCH_DIGITS \<le> k \<and> (k = length query \<or> k = length stored) then k else 0))"

record contact =
  co_id :: uuid
  co_name :: string
  co_deleted :: "instant option"

record contact_number =
  cn_contact :: uuid
  cn_e164 :: string

record phone_book =
  pb_contacts :: "contact list"
  pb_numbers :: "contact_number list"
  pb_priorities :: "(uuid \<times> string) list"   \<comment> \<open>\<open>contact_id\<close> is the primary key\<close>

record book_row =
  br_e164 :: string
  br_contact :: uuid
  br_name :: string
  br_priority :: "string option"

definition book_rows :: "phone_book \<Rightarrow> book_row list" where
  "book_rows b = concat (map (\<lambda>n. map (\<lambda>c. \<lparr>br_e164 = cn_e164 n, br_contact = cn_contact n, br_name = co_name c,
       br_priority = map_of (pb_priorities b) (cn_contact n)\<rparr>)
     (filter (\<lambda>c. co_id c = cn_contact n \<and> co_deleted c = None) (pb_contacts b))) (pb_numbers b))"

definition lstrip_plus :: "string \<Rightarrow> string" where
  "lstrip_plus s = dropWhile (\<lambda>c. c = CHR ''+'') s"

definition row_score :: "string \<Rightarrow> book_row \<Rightarrow> nat" where
  "row_score qd r = match_score qd (lstrip_plus (br_e164 r))"

fun best_rows :: "string \<Rightarrow> nat \<times> book_row list \<Rightarrow> book_row list \<Rightarrow> nat \<times> book_row list" where
  "best_rows qd (best_score, best) [] = (best_score, best)"
| "best_rows qd (best_score, best) (r # rs) =
     (let score = row_score qd r in
      if score = 0 then best_rows qd (best_score, best) rs
      else if best_score < score then best_rows qd (score, [r]) rs
      else if score = best_score then best_rows qd (best_score, best @ [r]) rs
      else best_rows qd (best_score, best) rs)"

definition match_contact :: "phone_book \<Rightarrow> string \<Rightarrow> caller_match" where
  "match_contact b e164 =
     (let best = snd (best_rows (lstrip_plus e164) (0, []) (book_rows b)) in
      if best = [] then unknown_caller (Some e164)
      else if 1 < card (set (map br_contact best)) then (unknown_caller (Some e164))\<lparr>cm_ambiguous := True\<rparr>
      else (let r = hd best in (unknown_caller (Some e164))
        \<lparr>cm_contact := Some (br_contact r), cm_name := Some (br_name r), cm_priority := br_priority r,
         cm_matched_on := Some (br_e164 r)\<rparr>))"

text \<open>The cache maps a number to the instant its entry expires and the answer. The two readings of the clock are one.\<close>

type_synonym matcher_cache = "(string \<times> rat \<times> caller_match) list"

definition resolve_caller :: "phone_book \<Rightarrow> rat \<Rightarrow> string \<Rightarrow> matcher_cache \<Rightarrow> caller_match \<times> matcher_cache" where
  "resolve_caller b now raw cache =
     (let parts = normalize_number raw DEFAULT_REGION in
      case np_e164 parts of
        None \<Rightarrow> ((unknown_caller None)\<lparr>cm_extension := np_extension parts\<rparr>, cache)
      | Some e \<Rightarrow>
          (let fresh = (let result = match_contact b e in
                 (result, if cm_matched result \<or> cm_ambiguous result then dict_set e (now + CACHE_TTL, result) cache else cache))
           in case map_of cache e of
                Some (till, m) \<Rightarrow> if now < till then (m, cache) else fresh
              | None \<Rightarrow> fresh))"

definition clear_matcher_cache :: "matcher_cache \<Rightarrow> matcher_cache" where
  "clear_matcher_cache cache = []"

section \<open>What a normalised number looks like\<close>

text \<open>The shape the database and the matcher rely on, with no end-of-line exception.\<close>

definition e164_shape :: "string \<Rightarrow> bool" where
  "e164_shape n = (\<exists>ds. n = CHR ''+'' # ds \<and> list_all py_isdigit ds \<and> hd ds \<noteq> CHR ''0'' \<and> 8 \<le> length ds \<and> length ds \<le> 15)"

definition extension_shape :: "string \<Rightarrow> bool" where
  "extension_shape x = (list_all py_isdigit x \<and> hd x \<noteq> CHR ''0'' \<and> 1 \<le> length x \<and> length x \<le> 6)"

lemma digit_not_separator: "py_isdigit c \<Longrightarrow> \<not> is_separator c"
  by (auto simp: py_isdigit_def is_separator_def py_isspace_def ord_of_def Let_def)

lemma newline_separator: "is_separator (CHR 0x0A)"
  by (simp add: is_separator_def py_isspace_def ord_of_def)

lemma clean_no_separator: "c \<in> set (clean_number raw) \<Longrightarrow> \<not> is_separator c"
  by (auto simp: clean_number_def Let_def)

lemma at_end_clean: "(\<And>c. c \<in> set s \<Longrightarrow> \<not> is_separator c) \<Longrightarrow> at_end p s = p s"
  using newline_separator unfolding at_end_def by (metis last_in_set)

lemma E164_clean:
  assumes "\<And>c. c \<in> set s \<Longrightarrow> \<not> is_separator c"
  shows "E164 s \<longleftrightarrow> e164_shape s"
proof -
  have "E164 s \<longleftrightarrow> (case s of sign # first # rest \<Rightarrow> sign = CHR ''+'' \<and> py_isdigit first \<and> first \<noteq> CHR ''0'' \<and>
      list_all py_isdigit rest \<and> 7 \<le> length rest \<and> length rest \<le> 14 | _ \<Rightarrow> False)"
    unfolding E164_def by (subst at_end_clean) (use assms in \<open>auto simp: MIN_E164_DIGITS_def split: list.splits\<close>)
  then show ?thesis
    unfolding e164_shape_def by (cases s; cases "tl s") auto
qed

lemma DIGITS_clean:
  "(\<And>c. c \<in> set s \<Longrightarrow> \<not> is_separator c) \<Longrightarrow> DIGITS s \<longleftrightarrow> s \<noteq> [] \<and> list_all py_isdigit s"
  unfolding DIGITS_def by (simp add: at_end_clean)

lemma region_DE: "region_rules region = (''49'', ''0'', ''00'')"
  by (simp add: region_rules_def REGIONS_def DEFAULT_REGION_def)

lemma plus_digits_clean: "list_all py_isdigit ds \<Longrightarrow> c \<in> set (CHR ''+'' # ds) \<Longrightarrow> \<not> is_separator c"
  by (auto simp: list_all_iff digit_not_separator) (simp add: is_separator_def py_isspace_def ord_of_def)

text \<open>The whole function by the cases of the cleaned text, with the anchors gone.\<close>

lemma normalize_cases:
  defines "cl raw \<equiv> clean_number raw"
  shows "normalize_number raw region =
    \<lparr>np_raw = raw,
     np_e164 = (let n = (if str_starts (cl raw) ''+'' then cl raw
                         else if \<not> list_all py_isdigit (cl raw) then []
                         else if str_starts (cl raw) ''00'' then ''+'' @ drop 2 (cl raw)
                         else if str_starts (cl raw) ''0'' then ''+49'' @ drop 1 (cl raw) else [])
                in if e164_shape n then Some n else None),
     np_extension = (if extension_shape (cl raw) then Some (cl raw) else None)\<rparr>"
proof -
  have ds: "list_all py_isdigit (drop k (cl raw))" if "list_all py_isdigit (cl raw)" for k
    using that by (auto simp: list_all_iff dest: in_set_dropD)
  have shape: "E164 (CHR ''+'' # xs) \<longleftrightarrow> e164_shape (CHR ''+'' # xs)" if "list_all py_isdigit xs" for xs
    using that by (intro E164_clean plus_digits_clean)
  have no: "\<not> e164_shape []" by (simp add: e164_shape_def)
  have cl: "E164 (cl raw) \<longleftrightarrow> e164_shape (cl raw)" "DIGITS (cl raw) \<longleftrightarrow> cl raw \<noteq> [] \<and> list_all py_isdigit (cl raw)"
    unfolding cl_def by (auto intro!: E164_clean DIGITS_clean dest: clean_no_separator)
  have plus: "\<not> list_all py_isdigit s" if "str_starts s ''+''" for s
    using that by (cases s) (auto simp: str_starts_def py_isdigit_def ord_of_def)
  have zero: "str_starts s ''0'' \<longleftrightarrow> s \<noteq> [] \<and> hd s = CHR ''0''" "str_starts s ''00'' \<Longrightarrow> str_starts s ''0''" for s
    by (cases s; auto simp: str_starts_def)+
  have dig: "py_isdigit (CHR ''4'')" "py_isdigit (CHR ''9'')" by (simp_all add: py_isdigit_def ord_of_def)
  have len: "length s \<le> 6 \<and> s \<noteq> [] \<longleftrightarrow> 1 \<le> length s \<and> length s \<le> 6" for s :: string
    by (cases s) auto
  show ?thesis
    unfolding normalize_number_def region_DE valid_e164_def MAX_EXTENSION_LEN_def cl_def [symmetric]
    using ds [of 2] ds [of 1] plus [of "cl raw"] zero [of "cl raw"] len [of "cl raw"]
    by (auto simp: Let_def cl shape dig no extension_shape_def numeral_2_eq_2)
qed

text \<open>A normalised number is a plus sign and 8 to 15 digits of which the first is not 0, an extension is 1 to 6 digits
  of which the first is not 0, whatever text comes in (also with a final newline, which the end anchor of the pattern would
  let through); no input is read as both.\<close>

theorem normalize_number_bounds:
  "pred_option e164_shape (np_e164 (normalize_number raw region)) \<and>
   pred_option extension_shape (np_extension (normalize_number raw region)) \<and>
   (np_e164 (normalize_number raw region) = None \<or> np_extension (normalize_number raw region) = None)"
proof -
  have "\<not> e164_shape (''+'' @ xs) \<or> \<not> extension_shape (''+'' @ xs)" for xs
    by (simp add: extension_shape_def py_isdigit_def ord_of_def)
  then show ?thesis
    by (cases "clean_number raw") (auto simp: normalize_cases Let_def str_starts_def extension_shape_def e164_shape_def)
qed

lemma clean_e164: "e164_shape n \<Longrightarrow> clean_number n = n"
proof -
  assume "e164_shape n"
  then obtain ds where n: "n = CHR ''+'' # ds" and ds: "list_all py_isdigit ds"
    by (auto simp: e164_shape_def)
  have sep: "\<not> is_separator c" if "c \<in> set n" for c
    using plus_digits_clean [OF ds] that by (simp add: n)
  then have "\<forall>c\<in>set n. \<not> py_isspace c" by (auto simp: is_separator_def)
  then have "py_strip n = n" by (rule py_strip_id)
  moreover have "py_lower (take 4 n) \<noteq> ''tel:''"
    by (simp add: n py_lower_def py_lower_char_def ord_of_def)
  ultimately show ?thesis
    using sep by (simp add: clean_number_def filter_id_conv')
qed

lemma normalize_e164_id: "e164_shape n \<Longrightarrow> np_e164 (normalize_number n region) = Some n"
  by (auto simp: normalize_cases clean_e164 e164_shape_def str_starts_def Let_def)

text \<open>The three ways to write a German number (national, international with the call prefix, international with the plus
  sign), with any separators or a tel: prefix around them, normalise to the same E.164 number, and normalising that number
  again gives it back.\<close>

theorem german_spellings_roundtrip:
  assumes d: "list_all py_isdigit d" "hd d \<noteq> CHR ''0''" "6 \<le> length d" "length d \<le> 13"
    and raw: "clean_number raw \<in> {''0'' @ d, ''0049'' @ d, ''+49'' @ d}"
  shows "np_e164 (normalize_number raw region) = Some (''+49'' @ d) \<and>
         np_e164 (normalize_number (''+49'' @ d) region') = Some (''+49'' @ d)"
proof -
  have dig: "py_isdigit (CHR ''4'')" "py_isdigit (CHR ''9'')" "py_isdigit (CHR ''0'')"
    by (simp_all add: py_isdigit_def ord_of_def)
  have shape: "e164_shape (''+49'' @ d)"
    using d dig by (auto simp: e164_shape_def)
  have ne: "d \<noteq> []" using d by auto
  then have hd: "take (Suc 0) d \<noteq> ''0''" using d(2) by (cases d) auto
  have "np_e164 (normalize_number raw region) = Some (''+49'' @ d)"
    using raw shape d(1) dig hd by (auto simp: normalize_cases Let_def str_starts_def numeral_2_eq_2)
  then show ?thesis using normalize_e164_id [OF shape] by simp
qed

theorem german_spellings_roundtrip_witness:
  "np_e164 (normalize_number '' tel:(0)30/123-456 '' ''DE'') = Some (''+4930123456'') \<and>
   np_e164 (normalize_number (''+4930123456'') ''DE'') = Some (''+4930123456'')"
  using german_spellings_roundtrip [of "''30123456''" "'' tel:(0)30/123-456 ''" "''DE''" "''DE''"]
  by (simp add: py_isdigit_def ord_of_def clean_number_def py_strip_def py_isspace_def py_lower_def py_lower_char_def is_separator_def)

section \<open>Longest match\<close>

text \<open>The reference: the rows with a positive score that no other row exceeds.\<close>

definition best_matches :: "string \<Rightarrow> book_row list \<Rightarrow> book_row list" where
  "best_matches qd rows = filter (\<lambda>r. 0 < row_score qd r \<and> (\<forall>r'\<in>set rows. row_score qd r' \<le> row_score qd r)) rows"

text \<open>The loop keeps, of the rows seen, the best score and the rows that reach it.\<close>

definition best_so_far :: "string \<Rightarrow> book_row list \<Rightarrow> nat \<times> book_row list" where
  "best_so_far qd seen = (foldr (\<lambda>r m. max (row_score qd r) m) seen 0, best_matches qd seen)"

lemma score_max_ge: "r \<in> set rows \<Longrightarrow> row_score qd r \<le> foldr (\<lambda>r m. max (row_score qd r) m) rows 0"
  by (induction rows) auto

lemma score_max_in:
  "foldr (\<lambda>r m. max (row_score qd r) m) rows 0 = 0 \<or>
   (\<exists>r\<in>set rows. row_score qd r = foldr (\<lambda>r m. max (row_score qd r) m) rows 0)"
  by (induction rows) (auto simp: max_def)

lemma best_matches_max:
  "best_matches qd rows =
     filter (\<lambda>r. 0 < row_score qd r \<and> row_score qd r = foldr (\<lambda>r m. max (row_score qd r) m) rows 0) rows"
  unfolding best_matches_def
  using score_max_ge [of _ rows qd] score_max_in [of qd rows]
  by (intro filter_cong refl) (metis le_antisym le_zero_eq not_gr_zero)

lemma score_max_snoc:
  "foldr (\<lambda>r m. max (row_score qd r) m) (seen @ [r]) 0 = max (row_score qd r) (foldr (\<lambda>r m. max (row_score qd r) m) seen 0)"
  by (induction seen) (auto simp: max.left_commute)

lemma best_so_far_snoc:
  "best_so_far qd (seen @ [r]) =
     (let (m, best) = best_so_far qd seen; score = row_score qd r in
      if score = 0 then (m, best) else if m < score then (score, [r])
      else if score = m then (m, best @ [r]) else (m, best))"
proof -
  let ?m = "foldr (\<lambda>r m. max (row_score qd r) m) seen 0"
  have none: "filter (\<lambda>x. 0 < row_score qd x \<and> row_score qd x = s) seen = []" if "?m < s" for s
    using that by (auto simp: filter_empty_conv dest!: score_max_ge [of _ seen qd])
  show ?thesis
    unfolding best_so_far_def best_matches_max score_max_snoc
    using none [of "row_score qd r"] by (auto simp: Let_def max_absorb1 max_absorb2 not_less)
qed

lemma best_rows_Nil [simp]: "best_rows qd p [] = p"
  by (cases p) simp

lemma best_rows_eq: "best_rows qd (best_so_far qd seen) rows = best_so_far qd (seen @ rows)"
proof (induction rows arbitrary: seen)
  case (Cons r rows)
  obtain m best where s: "best_so_far qd seen = (m, best)" by fastforce
  have "best_rows qd (best_so_far qd seen) (r # rows) = best_rows qd (best_so_far qd (seen @ [r])) rows"
    unfolding s by (simp add: best_so_far_snoc s Let_def)
  then show ?case by (simp add: Cons.IH)
qed simp

lemma best_rows_spec: "snd (best_rows qd (0, []) rows) = best_matches qd rows"
  using best_rows_eq [of qd "[]" rows] by (simp add: best_so_far_def best_matches_def)

text \<open>C35. The caller is the contact \<open>c\<close> exactly when the rows with the highest positive score all belong to \<open>c\<close>; the answer is
  "ambiguous" exactly when they belong to different contacts, and "unknown" when no row scores. The loop computes the set of
  best rows, so the answer does not depend on the order in which the database returns the phone book.\<close>

theorem contact_match_is_longest:
  "(cm_contact (match_contact b e) = Some c \<longleftrightarrow> br_contact ` set (best_matches (lstrip_plus e) (book_rows b)) = {c}) \<and>
   (cm_ambiguous (match_contact b e) \<longleftrightarrow> (\<nexists>x. br_contact ` set (best_matches (lstrip_plus e) (book_rows b)) \<subseteq> {x})) \<and>
   (cm_matched_on (match_contact b e) = Some s \<longleftrightarrow>
      cm_matched (match_contact b e) \<and> s = br_e164 (hd (best_matches (lstrip_plus e) (book_rows b)))) \<and>
   cm_e164 (match_contact b e) = Some e"
proof -
  define w where "w = best_matches (lstrip_plus e) (book_rows b)"
  have m: "match_contact b e =
      (if w = [] then unknown_caller (Some e)
       else if 1 < card (br_contact ` set w) then (unknown_caller (Some e))\<lparr>cm_ambiguous := True\<rparr>
       else (unknown_caller (Some e))\<lparr>cm_contact := Some (br_contact (hd w)), cm_name := Some (br_name (hd w)),
              cm_priority := br_priority (hd w), cm_matched_on := Some (br_e164 (hd w))\<rparr>)"
    by (simp add: match_contact_def best_rows_spec w_def Let_def)
  have many: "(\<nexists>x. br_contact ` set w \<subseteq> {x}) \<longleftrightarrow> 1 < card (br_contact ` set w)"
  proof
    assume a: "1 < card (br_contact ` set w)"
    show "\<nexists>x. br_contact ` set w \<subseteq> {x}"
      using card_mono [of "{_}" "br_contact ` set w"] a by fastforce
  next
    assume "\<nexists>x. br_contact ` set w \<subseteq> {x}"
    then show "1 < card (br_contact ` set w)"
      by (metis One_nat_def card_1_singletonE card_eq_0_iff empty_subsetI finite_imageI finite_set less_one linorder_neqE_nat subset_refl)
  qed
  have one: "br_contact ` set w = {br_contact (hd w)}" if "w \<noteq> []" "\<not> 1 < card (br_contact ` set w)"
    using that by (metis hd_in_set image_eqI many singletonD subset_singletonD empty_iff subset_eq)
  show ?thesis
    unfolding w_def [symmetric] many m
    using one by (cases "w = []"; cases "1 < card (br_contact ` set w)") (auto simp: unknown_caller_def cm_matched_def)
qed

section \<open>The cache\<close>

text \<open>A process that answers a sequence of calls, each with the phone book and the clock of its time.\<close>

fun run_resolve :: "(phone_book \<times> rat \<times> string) list \<Rightarrow> matcher_cache \<Rightarrow> matcher_cache" where
  "run_resolve [] cache = cache"
| "run_resolve ((b, now, raw) # calls) cache = run_resolve calls (snd (resolve_caller b now raw cache))"

lemma run_resolve_snoc:
  "run_resolve (calls @ [(b, now, raw)]) cache = snd (resolve_caller b now raw (run_resolve calls cache))"
  by (induction calls arbitrary: cache) auto

lemma resolve_uncached:
  "fst (resolve_caller b now raw []) =
     (case np_e164 (normalize_number raw DEFAULT_REGION) of
        None \<Rightarrow> (unknown_caller None)\<lparr>cm_extension := np_extension (normalize_number raw DEFAULT_REGION)\<rparr>
      | Some e \<Rightarrow> match_contact b e)"
  by (simp add: resolve_caller_def Let_def split: option.split)

text \<open>Every entry is an answer that was computed at a call of the past, and expires thirty seconds after it.\<close>

lemma cache_entries:
  "map_of (run_resolve calls []) e = Some (till, m) \<Longrightarrow>
   \<exists>b t raw. (b, t, raw) \<in> set calls \<and> till = t + CACHE_TTL \<and> m = match_contact b e \<and>
     np_e164 (normalize_number raw DEFAULT_REGION) = Some e \<and> (cm_matched m \<or> cm_ambiguous m)"
proof (induction calls rule: rev_induct)
  case (snoc call calls)
  obtain b now raw where call: "call = (b, now, raw)" by (cases call)
  from snoc.prems have new: "map_of (snd (resolve_caller b now raw (run_resolve calls []))) e = Some (till, m)"
    by (simp add: call run_resolve_snoc)
  then have "map_of (run_resolve calls []) e = Some (till, m) \<or>
      till = now + CACHE_TTL \<and> m = match_contact b e \<and> np_e164 (normalize_number raw DEFAULT_REGION) = Some e \<and>
      (cm_matched m \<or> cm_ambiguous m)"
    by (auto simp: resolve_caller_def Let_def split: option.splits if_splits)
  then show ?case
    using snoc.IH unfolding call by (metis Un_iff list.set_intros(1) set_append)
qed simp

text \<open>An answer is the one the current phone book gives, or the one it gave at an earlier call with the same number less than
  thirty seconds ago; in the second case it named a contact or an ambiguity, so that "unknown" is never answered from the cache.\<close>

theorem caller_answer_fresh:
  "fst (resolve_caller b now raw (run_resolve calls [])) = fst (resolve_caller b now raw []) \<or>
   (\<exists>b' t raw'. (b', t, raw') \<in> set calls \<and> now < t + CACHE_TTL \<and>
      np_e164 (normalize_number raw' DEFAULT_REGION) = np_e164 (normalize_number raw DEFAULT_REGION) \<and>
      fst (resolve_caller b now raw (run_resolve calls [])) = fst (resolve_caller b' t raw' []) \<and>
      (cm_matched (fst (resolve_caller b' t raw' [])) \<or> cm_ambiguous (fst (resolve_caller b' t raw' []))))"
proof (cases "np_e164 (normalize_number raw DEFAULT_REGION)")
  case None
  then show ?thesis by (simp add: resolve_caller_def Let_def)
next
  case (Some e)
  show ?thesis
  proof (cases "\<exists>till m. map_of (run_resolve calls []) e = Some (till, m) \<and> now < till")
    case True
    then obtain till m where hit: "map_of (run_resolve calls []) e = Some (till, m)" "now < till" by blast
    then have "fst (resolve_caller b now raw (run_resolve calls [])) = m"
      by (simp add: resolve_caller_def Let_def Some)
    moreover obtain b' t raw' where "(b', t, raw') \<in> set calls" "till = t + CACHE_TTL" "m = match_contact b' e"
      "np_e164 (normalize_number raw' DEFAULT_REGION) = Some e" "cm_matched m \<or> cm_ambiguous m"
      using cache_entries [OF hit(1)] by blast
    ultimately show ?thesis
      using hit(2) Some by (intro disjI2 exI [of _ b'] exI [of _ t] exI [of _ raw']) (simp add: resolve_uncached)
  next
    case False
    then have "fst (resolve_caller b now raw (run_resolve calls [])) = match_contact b e"
      by (auto simp: resolve_caller_def Let_def Some split: option.split)
    then show ?thesis by (simp add: resolve_uncached Some)
  qed
qed

end
