(* ===== verification/Commands.thy ===== *)
theory Commands
  imports Dedupe
begin

text \<open>
  \<^verbatim>\<open>server/bbz_core/infra/inbox.py\<close> (provider-event inbox), \<^verbatim>\<open>infra/idempotency.py\<close> (command store and the guard
  \<^verbatim>\<open>idempotent\<close>) and \<^verbatim>\<open>infra/rate_limit.py\<close> (fixed-window counter). Each table is the list of its rows. SHA-256 and the
  text of a float are parameters. The guarded body is a function of the rest of the world.
\<close>

section \<open>Inbox\<close>

record inbox_row =
  ib_id :: nat
  ib_provider :: string
  ib_event_id :: "string option"
  ib_dedupe :: string
  ib_raw_ref :: "string option"
  ib_raw_hash :: "string option"
  ib_normalized :: pydict
  ib_correlation :: "string option"
  ib_processed_at :: "instant option"

datatype ingest_outcome = IngestNew | IngestDuplicate

record ingest_result =
  ig_outcome :: ingest_outcome
  ig_inbox_id :: nat
  ig_dedupe :: string

record ingest_request =
  iq_provider :: string
  iq_normalized :: pydict
  iq_event_id :: "string option"
  iq_raw_ref :: "string option"
  iq_raw_hash :: "string option"
  iq_dedupe :: "string option"
  iq_correlation :: "string option"

definition payload_hash :: "(string \<Rightarrow> string) \<Rightarrow> (rat \<Rightarrow> string) \<Rightarrow> pydict \<Rightarrow> string" where
  "payload_hash sha float_repr normalized = sha (json_dumps float_repr (PDict normalized))"

definition derive_dedupe_key ::
  "(string \<Rightarrow> string) \<Rightarrow> (rat \<Rightarrow> string) \<Rightarrow> string \<Rightarrow> string option \<Rightarrow> pydict \<Rightarrow> string" where
  "derive_dedupe_key sha float_repr provider event_id normalized =
     (case event_id of
        Some (c # i) \<Rightarrow> provider @ '':'' @ c # i
      | _ \<Rightarrow> provider @ '':sha256:'' @ payload_hash sha float_repr normalized)"

definition ingest_key :: "(string \<Rightarrow> string) \<Rightarrow> (rat \<Rightarrow> string) \<Rightarrow> ingest_request \<Rightarrow> string" where
  "ingest_key sha float_repr q =
     (case iq_dedupe q of
        Some (c # k) \<Rightarrow> c # k
      | _ \<Rightarrow> derive_dedupe_key sha float_repr (iq_provider q) (iq_event_id q) (iq_normalized q))"

definition inbox_put ::
  "(string \<Rightarrow> string) \<Rightarrow> (rat \<Rightarrow> string) \<Rightarrow> ingest_request \<Rightarrow> inbox_row list \<Rightarrow> bool \<times> inbox_row list" where
  "inbox_put sha float_repr q rows =
     (let k = ingest_key sha float_repr q in
      if k \<in> ib_dedupe ` set rows then (False, rows)
      else (True, rows @ [\<lparr>ib_id = length rows, ib_provider = iq_provider q, ib_event_id = iq_event_id q, ib_dedupe = k,
        ib_raw_ref = iq_raw_ref q, ib_raw_hash = iq_raw_hash q, ib_normalized = iq_normalized q, ib_correlation = iq_correlation q,
        ib_processed_at = None\<rparr>]))"

definition ingest_fitting ::
  "(string \<Rightarrow> string) \<Rightarrow> (rat \<Rightarrow> string) \<Rightarrow> ingest_request \<Rightarrow> inbox_row list \<Rightarrow> ingest_result \<times> inbox_row list" where
  "ingest_fitting sha float_repr q rows =
     (let k = ingest_key sha float_repr q; (inserted, rows') = inbox_put sha float_repr q rows in
      if inserted then (\<lparr>ig_outcome = IngestNew, ig_inbox_id = length rows, ig_dedupe = k\<rparr>, rows')
      else (case find_first (\<lambda>r. ib_dedupe r = k) rows of
              Some r \<Rightarrow> (\<lparr>ig_outcome = IngestDuplicate, ig_inbox_id = ib_id r, ig_dedupe = k\<rparr>, rows')
            | None \<Rightarrow> (\<lparr>ig_outcome = IngestDuplicate, ig_inbox_id = 0, ig_dedupe = k\<rparr>, rows')))"

text \<open>
  The columns of the table are limited. A value that is too long is refused by the database before a conflict is looked for, and nothing is
  written. (An excess that is all blanks PostgreSQL cuts off instead; that is not modelled.)
\<close>

definition fits_in :: "nat \<Rightarrow> string option \<Rightarrow> bool" where
  "fits_in n t = (case t of None \<Rightarrow> True | Some s \<Rightarrow> length s \<le> n)"

definition inbox_fits :: "(string \<Rightarrow> string) \<Rightarrow> (rat \<Rightarrow> string) \<Rightarrow> ingest_request \<Rightarrow> bool" where
  "inbox_fits sha float_repr q \<longleftrightarrow>
     length (iq_provider q) \<le> 64 \<and> fits_in 200 (iq_event_id q) \<and> length (ingest_key sha float_repr q) \<le> 200 \<and>
     fits_in 200 (iq_raw_ref q) \<and> fits_in 64 (iq_raw_hash q) \<and> fits_in 64 (iq_correlation q)"

datatype inbox_error = InboxDataError

definition ingest ::
  "(string \<Rightarrow> string) \<Rightarrow> (rat \<Rightarrow> string) \<Rightarrow> ingest_request \<Rightarrow> inbox_row list \<Rightarrow> (inbox_error, ingest_result \<times> inbox_row list) res" where
  "ingest sha float_repr q rows =
     (if inbox_fits sha float_repr q then Inr (ingest_fitting sha float_repr q rows) else Inl InboxDataError)"

definition mark_processed :: "instant \<Rightarrow> nat \<Rightarrow> inbox_row list \<Rightarrow> inbox_row list" where
  "mark_processed now i rows =
     map (\<lambda>r. if ib_id r = i \<and> ib_processed_at r = None then r\<lparr>ib_processed_at := Some now\<rparr> else r) rows"

interpretation inbox_store: dedupe_store "inbox_put sha float_repr" "ingest_key sha float_repr" "\<lambda>rows. ib_dedupe ` set rows"
  by unfold_locales (auto simp: inbox_put_def Let_def)

section \<open>Commands\<close>

record command_row =
  cm_id :: uuid
  cm_user :: "uuid option"
  cm_endpoint :: string
  cm_hash :: string
  cm_status :: "nat option"
  cm_body :: "pydict option"
  cm_created :: instant
  cm_completed :: "instant option"

record stored_result =
  sr_code :: nat
  sr_body :: "pydict option"

record command_request =
  cq_id :: uuid
  cq_endpoint :: string
  cq_hash :: string
  cq_user :: "uuid option"

datatype command_error = CommandConflict uuid | CommandInProgress uuid | CommandVanished uuid | NoResultSet | BodyFailed

definition request_hash :: "(string \<Rightarrow> string) \<Rightarrow> (rat \<Rightarrow> string) \<Rightarrow> pyval \<Rightarrow> string" where
  "request_hash sha float_repr payload = sha (json_dumps float_repr payload)"

definition command_put :: "instant \<Rightarrow> command_request \<Rightarrow> command_row list \<Rightarrow> bool \<times> command_row list" where
  "command_put now q rows =
     (if cq_id q \<in> cm_id ` set rows then (False, rows)
      else (True, rows @ [\<lparr>cm_id = cq_id q, cm_user = cq_user q, cm_endpoint = cq_endpoint q, cm_hash = cq_hash q,
        cm_status = None, cm_body = None, cm_created = now, cm_completed = None\<rparr>]))"

interpretation command_store: dedupe_store "command_put now" cq_id "\<lambda>rows. cm_id ` set rows"
  by unfold_locales (auto simp: command_put_def)

text \<open>\<^verbatim>\<open>claim\<close>: \<open>Inr None\<close> lets the caller run, \<open>Inr (Some r)\<close> replays.\<close>

definition claim ::
  "instant \<Rightarrow> command_request \<Rightarrow> command_row list \<Rightarrow> (command_error, stored_result option) res \<times> command_row list" where
  "claim now q rows =
     (let (inserted, rows') = command_put now q rows in
      if inserted then (Inr None, rows')
      else (case find_first (\<lambda>r. cm_id r = cq_id q) rows' of
              None \<Rightarrow> (Inl (CommandVanished (cq_id q)), rows')
            | Some r \<Rightarrow>
                if cm_hash r \<noteq> cq_hash q then (Inl (CommandConflict (cq_id q)), rows')
                else (case cm_status r of
                        None \<Rightarrow> (Inl (CommandInProgress (cq_id q)), rows')
                      | Some st \<Rightarrow> (Inr (Some \<lparr>sr_code = st, sr_body = cm_body r\<rparr>), rows'))))"

definition complete :: "instant \<Rightarrow> uuid \<Rightarrow> stored_result \<Rightarrow> command_row list \<Rightarrow> command_row list" where
  "complete now c res rows =
     map (\<lambda>r. if cm_id r = c then r\<lparr>cm_status := Some (sr_code res), cm_body := sr_body res, cm_completed := Some now\<rparr> else r) rows"

definition abandon :: "uuid \<Rightarrow> command_row list \<Rightarrow> command_row list" where
  "abandon c rows = filter (\<lambda>r. \<not> (cm_id r = c \<and> cm_status r = None)) rows"

definition purge_stale :: "instant \<Rightarrow> command_row list \<Rightarrow> nat \<times> command_row list" where
  "purge_stale cutoff rows =
     (let keep = filter (\<lambda>r. \<not> (cm_status r = None \<and> cm_created r < cutoff)) rows in (length rows - length keep, keep))"

definition purge_completed :: "instant \<Rightarrow> command_row list \<Rightarrow> nat \<times> command_row list" where
  "purge_completed cutoff rows =
     (let keep = filter (\<lambda>r. \<not> (cm_status r \<noteq> None \<and> (case cm_completed r of Some t \<Rightarrow> t < cutoff | None \<Rightarrow> False))) rows
      in (length rows - length keep, keep))"

text \<open>The guarded body raises, or returns with or without having set a result; either way it leaves a new world.\<close>

type_synonym 'w command_body = "'w \<Rightarrow> (unit, stored_result option) res \<times> 'w"

text \<open>Why the guard returned: it replayed a stored result, or the body ran.\<close>

datatype guard_outcome = Replayed stored_result | Executed stored_result

definition idempotent ::
  "instant \<Rightarrow> command_request \<Rightarrow> 'w command_body \<Rightarrow> command_row list \<times> 'w
    \<Rightarrow> (command_error, guard_outcome) res \<times> command_row list \<times> 'w" where
  "idempotent now q body sw =
     (case sw of (rows, w) \<Rightarrow>
        (case claim now q rows of
           (Inl e, rows') \<Rightarrow> (Inl e, rows', w)
         | (Inr (Some r), rows') \<Rightarrow> (Inr (Replayed r), rows', w)
         | (Inr None, rows') \<Rightarrow>
             (case body w of
                (Inl _, w') \<Rightarrow> (Inl BodyFailed, abandon (cq_id q) rows', w')
              | (Inr None, w') \<Rightarrow> (Inl NoResultSet, abandon (cq_id q) rows', w')
              | (Inr (Some r), w') \<Rightarrow> (Inr (Executed r), complete now (cq_id q) r rows', w'))))"

text \<open>
  Requests of concurrent clients and the two purges interleave between these steps. A claimed body first runs (\<open>cs_running\<close>), commits its
  effect (one entry of \<open>cs_effects\<close>) and then closes (\<open>cs_closing\<close>): the guard records the result, or the body raises after its commit and
  the guard drops the row, or the process dies and the row stays as it is. Completing a row that a purge took away raises and writes nothing.
  \<open>cs_removed\<close> lists the ids of the rows that were removed although a body may have run for them: purged rows, and rows dropped
  after a commit.
\<close>

record command_system =
  cs_rows :: "command_row list"
  cs_running :: "uuid list"
  cs_closing :: "uuid list"
  cs_effects :: "uuid list"
  cs_removed :: "uuid list"

definition no_commands :: command_system where
  "no_commands = \<lparr>cs_rows = [], cs_running = [], cs_closing = [], cs_effects = [], cs_removed = []\<rparr>"

definition removed_ids :: "command_row list \<Rightarrow> command_row list \<Rightarrow> uuid list" where
  "removed_ids rows rows' = map cm_id (filter (\<lambda>r. r \<notin> set rows') rows)"

inductive command_step :: "command_system \<Rightarrow> command_system \<Rightarrow> bool" where
  claimed: "claim now q (cs_rows s) = (Inr None, rows) \<Longrightarrow>
    command_step s (s\<lparr>cs_rows := rows, cs_running := cq_id q # cs_running s\<rparr>)"
| refused: "claim now q (cs_rows s) = (r, rows) \<Longrightarrow> r \<noteq> Inr None \<Longrightarrow> command_step s (s\<lparr>cs_rows := rows\<rparr>)"
| committed: "c \<in> set (cs_running s) \<Longrightarrow>
    command_step s (s\<lparr>cs_running := remove1 c (cs_running s), cs_closing := c # cs_closing s, cs_effects := c # cs_effects s\<rparr>)"
| finished: "c \<in> set (cs_closing s) \<Longrightarrow>
    command_step s (s\<lparr>cs_rows := complete now c res (cs_rows s), cs_closing := remove1 c (cs_closing s)\<rparr>)"
| failed: "c \<in> set (cs_running s) \<Longrightarrow>
    command_step s (s\<lparr>cs_rows := abandon c (cs_rows s), cs_running := remove1 c (cs_running s)\<rparr>)"
| failed_late: "c \<in> set (cs_closing s) \<Longrightarrow>
    command_step s (s\<lparr>cs_rows := abandon c (cs_rows s), cs_closing := remove1 c (cs_closing s), cs_removed := c # cs_removed s\<rparr>)"
| died: "c \<in> set (cs_running s) \<Longrightarrow> command_step s (s\<lparr>cs_running := remove1 c (cs_running s)\<rparr>)"
| died_late: "c \<in> set (cs_closing s) \<Longrightarrow> command_step s (s\<lparr>cs_closing := remove1 c (cs_closing s)\<rparr>)"
| purged_stale: "purge_stale cutoff (cs_rows s) = (n, rows) \<Longrightarrow>
    command_step s (s\<lparr>cs_rows := rows, cs_removed := removed_ids (cs_rows s) rows @ cs_removed s\<rparr>)"
| purged_completed: "purge_completed cutoff (cs_rows s) = (n, rows) \<Longrightarrow>
    command_step s (s\<lparr>cs_rows := rows, cs_removed := removed_ids (cs_rows s) rows @ cs_removed s\<rparr>)"

section \<open>Rate limiting\<close>

record rate_rule =
  rl_name :: string
  rl_limit :: nat
  rl_window :: nat         \<comment> \<open>seconds\<close>

record rate_row =
  rr_bucket :: string
  rr_start :: instant
  rr_count :: nat
  rr_expires :: instant

record rate_result =
  rs_allowed :: bool
  rs_count :: nat
  rs_retry_after :: int

definition window_start :: "rate_rule \<Rightarrow> instant \<Rightarrow> instant" where
  "window_start rule now = (now div (int (rl_window rule) * 1000000)) * (int (rl_window rule) * 1000000)"

definition rate_bucket :: "rate_rule \<Rightarrow> string \<Rightarrow> string" where
  "rate_bucket rule who = take 160 (rl_name rule @ '':'' @ who)"

definition rate_hit :: "rate_rule \<Rightarrow> string \<Rightarrow> instant \<Rightarrow> rate_row list \<Rightarrow> rate_result \<times> rate_row list" where
  "rate_hit rule who now rows =
     (let start = window_start rule now; expires = start + int (rl_window rule) * 1000000; b = rate_bucket rule who;
          (count, rows1) =
            (case index_of (\<lambda>r. rr_bucket r = b \<and> rr_start r = start) rows of
               Some i \<Rightarrow> (rr_count (rows ! i) + 1, rows[i := (rows ! i)\<lparr>rr_count := rr_count (rows ! i) + 1\<rparr>])
             | None \<Rightarrow> (1, rows @ [\<lparr>rr_bucket = b, rr_start = start, rr_count = 1, rr_expires = expires\<rparr>]));
          rows2 = (if count = 1 then filter (\<lambda>r. \<not> (rr_bucket r = b \<and> rr_expires r < now)) rows1 else rows1)
      in (\<lparr>rs_allowed = (count \<le> rl_limit rule), rs_count = count,
           rs_retry_after = max 1 (- ((- (expires - now)) div 1000000))\<rparr>, rows2))"

definition rate_prune :: "instant \<Rightarrow> rate_row list \<Rightarrow> nat \<times> rate_row list" where
  "rate_prune now rows = (let keep = filter (\<lambda>r. \<not> rr_expires r < now) rows in (length rows - length keep, keep))"

fun rate_hits :: "rate_rule \<Rightarrow> string \<Rightarrow> instant list \<Rightarrow> rate_row list \<Rightarrow> rate_result list" where
  "rate_hits rule who [] rows = []"
| "rate_hits rule who (t # ts) rows =
     (let (res, rows') = rate_hit rule who t rows in res # rate_hits rule who ts rows')"

section \<open>Facts\<close>

text \<open>Every body of an id that runs or has committed is accounted for by the row of the id or by one of its removals.\<close>

definition commands_inv :: "command_system \<Rightarrow> bool" where
  "commands_inv s \<longleftrightarrow> distinct (map cm_id (cs_rows s)) \<and>
     (\<forall>c. count_list (cs_running s) c + count_list (cs_effects s) c \<le> count_list (map cm_id (cs_rows s)) c + count_list (cs_removed s) c)"

lemma claim_None:
  assumes "claim now q rows = (Inr None, rows')"
  shows "cq_id q \<notin> cm_id ` set rows \<and> rows' = snd (command_put now q rows)"
proof -
  have "cq_id q \<in> cm_id ` set rows \<Longrightarrow> find_first (\<lambda>r. cm_id r = cq_id q) rows \<noteq> None" by auto
  then show ?thesis
    using assms by (auto simp: claim_def command_put_def Let_def split: if_splits option.splits)
qed

lemma claim_other: "claim now q rows = (r, rows') \<Longrightarrow> r \<noteq> Inr None \<Longrightarrow> rows' = rows"
  by (auto simp: claim_def command_put_def Let_def split: if_splits option.splits)

lemma complete_ids [simp]: "map cm_id (complete now c res rows) = map cm_id rows"
  by (simp add: complete_def)

lemma distinct_abandon: "distinct (map cm_id rows) \<Longrightarrow> distinct (map cm_id (abandon c rows))"
  by (simp add: abandon_def distinct_map_filter)

lemma count_remove1: "x \<in> set xs \<Longrightarrow> count_list (remove1 x xs) y = count_list xs y - (if x = y then 1 else 0)"
  by (induction xs) auto

lemma count_member: "x \<in> set xs \<Longrightarrow> 0 < count_list xs x"
  by (induction xs) auto

lemma count_distinct: "distinct xs \<Longrightarrow> count_list xs x \<le> 1"
  by (induction xs) auto

lemma count_abandon:
  assumes "distinct (map cm_id rows)"
  shows "count_list (map cm_id rows) x \<le> count_list (map cm_id (abandon c rows)) x + (if x = c then 1 else 0)"
  using assms by (induction rows) (auto simp: abandon_def)

lemma count_purged:
  "count_list (map cm_id (filter p rows)) c + count_list (removed_ids rows (filter p rows)) c = count_list (map cm_id rows) c"
proof -
  have "filter (\<lambda>r. r \<notin> set (filter p rows)) rows = filter (\<lambda>r. \<not> p r) rows" by (auto intro: filter_cong)
  moreover have "count_list (map cm_id (filter p rows)) c + count_list (map cm_id (filter (\<lambda>r. \<not> p r) rows)) c = count_list (map cm_id rows) c"
    by (induction rows) auto
  ultimately show ?thesis by (simp add: removed_ids_def)
qed

lemma purged_inv:
  assumes "commands_inv s"
  shows "commands_inv (s\<lparr>cs_rows := filter p (cs_rows s), cs_removed := removed_ids (cs_rows s) (filter p (cs_rows s)) @ cs_removed s\<rparr>)"
proof -
  have "count_list (cs_running s) c + count_list (cs_effects s) c \<le> count_list (map cm_id (filter p (cs_rows s))) c +
      count_list (removed_ids (cs_rows s) (filter p (cs_rows s)) @ cs_removed s) c" for c
    using assms count_purged [of p "cs_rows s" c] by (simp add: commands_inv_def) (metis add.assoc)
  then show ?thesis using assms by (simp add: commands_inv_def distinct_map_filter)
qed

lemma commands_claimed:
  assumes inv: "commands_inv s" and c: "claim now q (cs_rows s) = (Inr None, rows)"
  shows "commands_inv (s\<lparr>cs_rows := rows, cs_running := cq_id q # cs_running s\<rparr>)"
proof -
  note new = claim_None [OF c]
  then obtain r where "rows = cs_rows s @ [r]" "cm_id r = cq_id q" by (auto simp: command_put_def)
  then show ?thesis using inv new by (auto simp: commands_inv_def)
qed

lemma commands_dropped:
  assumes "commands_inv s" "c \<in> set (cs_running s)"
  shows "commands_inv (s\<lparr>cs_rows := abandon c (cs_rows s), cs_running := remove1 c (cs_running s)\<rparr>)"
    "commands_inv (s\<lparr>cs_running := remove1 c (cs_running s)\<rparr>)"
    "commands_inv (s\<lparr>cs_running := remove1 c (cs_running s), cs_closing := k, cs_effects := c # cs_effects s\<rparr>)"
proof -
  have inv: "count_list (cs_running s) x + count_list (cs_effects s) x \<le> count_list (map cm_id (cs_rows s)) x + count_list (cs_removed s) x"
    "distinct (map cm_id (cs_rows s))" for x using assms(1) by (simp_all add: commands_inv_def)
  have run: "count_list (remove1 c (cs_running s)) x + (if x = c then 1 else 0) = count_list (cs_running s) x" for x
    using count_remove1 [OF assms(2), of x] count_member [OF assms(2)] by auto
  have "count_list (remove1 c (cs_running s)) x + count_list (cs_effects s) x \<le>
      count_list (map cm_id (abandon c (cs_rows s))) x + count_list (cs_removed s) x" for x
    using inv(1) [of x] run [of x] count_abandon [OF inv(2), of x c] by linarith
  then show "commands_inv (s\<lparr>cs_rows := abandon c (cs_rows s), cs_running := remove1 c (cs_running s)\<rparr>)"
    using distinct_abandon [OF inv(2)] by (simp add: commands_inv_def)
  have "count_list (remove1 c (cs_running s)) x + count_list (c # cs_effects s) x \<le>
      count_list (map cm_id (cs_rows s)) x + count_list (cs_removed s) x" for x
    using inv(1) [of x] run [of x] by (cases "x = c") simp_all
  then show "commands_inv (s\<lparr>cs_running := remove1 c (cs_running s), cs_closing := k, cs_effects := c # cs_effects s\<rparr>)"
    using inv(2) by (simp add: commands_inv_def)
  have "count_list (remove1 c (cs_running s)) x + count_list (cs_effects s) x \<le>
      count_list (map cm_id (cs_rows s)) x + count_list (cs_removed s) x" for x
    using inv(1) [of x] run [of x] by linarith
  then show "commands_inv (s\<lparr>cs_running := remove1 c (cs_running s)\<rparr>)"
    using inv(2) by (simp add: commands_inv_def)
qed

lemma commands_closed:
  assumes "commands_inv s"
  shows "commands_inv (s\<lparr>cs_rows := abandon c (cs_rows s), cs_closing := k, cs_removed := c # cs_removed s\<rparr>)"
    "commands_inv (s\<lparr>cs_rows := complete now c res (cs_rows s), cs_closing := k\<rparr>)" "commands_inv (s\<lparr>cs_closing := k\<rparr>)"
proof -
  have inv: "count_list (cs_running s) x + count_list (cs_effects s) x \<le> count_list (map cm_id (cs_rows s)) x + count_list (cs_removed s) x"
    "distinct (map cm_id (cs_rows s))" for x using assms by (simp_all add: commands_inv_def)
  have "count_list (cs_running s) x + count_list (cs_effects s) x \<le>
      count_list (map cm_id (abandon c (cs_rows s))) x + count_list (c # cs_removed s) x" for x
    using inv(1) [of x] count_abandon [OF inv(2), of x c] by (cases "x = c") simp_all
  then show "commands_inv (s\<lparr>cs_rows := abandon c (cs_rows s), cs_closing := k, cs_removed := c # cs_removed s\<rparr>)"
    using distinct_abandon [OF inv(2)] by (simp add: commands_inv_def)
qed (use assms in \<open>simp_all add: commands_inv_def\<close>)

lemma command_step_inv: "command_step s t \<Longrightarrow> commands_inv s \<Longrightarrow> commands_inv t"
proof (induction rule: command_step.induct)
  case (refused now q s r rows)
  then show ?case using claim_other by fastforce
next
  case (purged_stale cutoff s n rows)
  then show ?case using purged_inv by (simp add: purge_stale_def Let_def) blast
next
  case (purged_completed cutoff s n rows)
  then show ?case using purged_inv by (simp add: purge_completed_def Let_def) blast
qed (simp_all only: commands_claimed commands_dropped commands_closed)

fun ingest_all ::
  "(string \<Rightarrow> string) \<Rightarrow> (rat \<Rightarrow> string) \<Rightarrow> ingest_request list \<Rightarrow> inbox_row list \<Rightarrow> ingest_result list" where
  "ingest_all sha float_repr [] rows = []"
| "ingest_all sha float_repr (q # qs) rows =
     (let (res, rows') = ingest_fitting sha float_repr q rows in res # ingest_all sha float_repr qs rows')"

lemma ingest_put:
  "fst (ingest_fitting sha f q rows) = (fst (ingest_fitting sha f q rows))\<lparr>ig_dedupe := ingest_key sha f q\<rparr>"
  "ig_outcome (fst (ingest_fitting sha f q rows)) = IngestNew \<longleftrightarrow> fst (inbox_put sha f q rows)"
  "snd (ingest_fitting sha f q rows) = snd (inbox_put sha f q rows)"
  by (auto simp: ingest_fitting_def Let_def split: prod.splits option.splits)

lemma ingest_all_accepted:
  "length (filter (\<lambda>r. ig_outcome r = IngestNew \<and> ig_dedupe r = k) (ingest_all sha f qs rows)) =
   length (filter (\<lambda>q. ingest_key sha f q = k) (accepted (inbox_put sha f) qs rows))"
proof (induction qs arbitrary: rows)
  case (Cons q qs)
  have "ig_dedupe (fst (ingest_fitting sha f q rows)) = ingest_key sha f q"
    using ingest_put(1) [of sha f q rows] by (metis ingest_result.select_convs(3) ingest_result.surjective ingest_result.update_convs(3))
  then show ?case
    using Cons.IH [of "snd (inbox_put sha f q rows)"] ingest_put(2,3) [of sha f q rows]
    by (auto simp: Let_def split: prod.splits)
qed simp

lemma ingest_existing:
  assumes "distinct (map ib_dedupe rows)" "r \<in> set rows" "ib_dedupe r = ingest_key sha f q"
  shows "ingest_fitting sha f q rows = (\<lparr>ig_outcome = IngestDuplicate, ig_inbox_id = ib_id r, ig_dedupe = ingest_key sha f q\<rparr>, rows)"
proof -
  have "find_first (\<lambda>x. ib_dedupe x = ib_dedupe r) rows = Some r"
    using assms(1,2) by (induction rows) (auto simp: find_first_def image_iff)
  moreover have "ingest_key sha f q \<in> ib_dedupe ` set rows"
    using assms(2,3) by (metis imageI)
  ultimately show ?thesis
    using assms(3) by (simp add: ingest_fitting_def inbox_put_def Let_def)
qed

definition hits_so_far :: "rate_rule \<Rightarrow> string \<Rightarrow> instant \<Rightarrow> rate_row list \<Rightarrow> nat" where
  "hits_so_far rule who start rows =
     (case find_first (\<lambda>r. rr_bucket r = rate_bucket rule who \<and> rr_start r = start) rows of None \<Rightarrow> 0 | Some r \<Rightarrow> rr_count r)"

lemma find_first_index:
  "find_first p xs = (case index_of p xs of None \<Rightarrow> None | Some i \<Rightarrow> Some (xs ! i))"
  by (induction xs) (auto simp: find_first_def simp del: index_of_None split: option.splits)

lemma find_first_update: "index_of p xs = Some i \<Longrightarrow> p y \<Longrightarrow> find_first p (xs[i := y]) = Some y"
  by (induction xs arbitrary: i) (auto simp: find_first_def split: if_splits)

lemma find_first_filter: "(\<And>x. x \<in> set xs \<Longrightarrow> p x \<Longrightarrow> q x) \<Longrightarrow> find_first p (filter q xs) = find_first p xs"
  by (induction xs) (auto simp: find_first_def)

lemma find_first_snoc: "\<forall>x\<in>set xs. \<not> p x \<Longrightarrow> p y \<Longrightarrow> find_first p (xs @ [y]) = Some y"
  by (induction xs) (auto simp: find_first_def)

lemma window_end: "0 < rl_window rule \<Longrightarrow> now < window_start rule now + int (rl_window rule) * 1000000"
  unfolding window_start_def by (smt (verit) mult_div_mod_eq pos_mod_bound mult.commute of_nat_0_less_iff zero_less_mult_iff)

lemma rate_hit_same_window:
  fixes rule who
  defines "p \<equiv> \<lambda>start r. rr_bucket r = rate_bucket rule who \<and> rr_start r = start"
  assumes rule: "0 < rl_window rule" and w: "window_start rule now = start"
    and live: "\<forall>r\<in>set rows. p start r \<longrightarrow> rr_expires r = start + int (rl_window rule) * 1000000"
  shows "rs_count (fst (rate_hit rule who now rows)) = Suc (hits_so_far rule who start rows)"
    and "rs_allowed (fst (rate_hit rule who now rows)) \<longleftrightarrow> Suc (hits_so_far rule who start rows) \<le> rl_limit rule"
    and "hits_so_far rule who start (snd (rate_hit rule who now rows)) = Suc (hits_so_far rule who start rows)"
    and "\<forall>r\<in>set (snd (rate_hit rule who now rows)). p start r \<longrightarrow> rr_expires r = start + int (rl_window rule) * 1000000"
proof -
  define b where "b = rate_bucket rule who"
  define expires where "expires = start + int (rl_window rule) * 1000000"
  have alive: "\<not> expires < now" using window_end [OF rule, of now] w by (simp add: expires_def)
  define n where "n = hits_so_far rule who start rows"
  have n: "n = (case find_first (p start) rows of None \<Rightarrow> 0 | Some r \<Rightarrow> rr_count r)"
    by (simp add: n_def hits_so_far_def p_def)
  obtain rows1 where hit: "rate_hit rule who now rows =
      (\<lparr>rs_allowed = (Suc n \<le> rl_limit rule), rs_count = Suc n, rs_retry_after = max 1 (- ((- (expires - now)) div 1000000))\<rparr>,
       if Suc n = 1 then filter (\<lambda>r. \<not> (rr_bucket r = b \<and> rr_expires r < now)) rows1 else rows1)"
    and found: "\<exists>r. find_first (p start) rows1 = Some r \<and> rr_count r = Suc n"
    and live1: "\<forall>r\<in>set rows1. p start r \<longrightarrow> rr_expires r = expires"
  proof (cases "index_of (p start) rows")
    case None
    let ?new = "\<lparr>rr_bucket = b, rr_start = start, rr_count = 1, rr_expires = expires\<rparr>"
    have no: "\<forall>r\<in>set rows. \<not> p start r" using None by simp
    then have "n = 0" using None unfolding n find_first_index by (simp del: index_of_None)
    moreover have "find_first (p start) (rows @ [?new]) = Some ?new"
      using no by (intro find_first_snoc) (simp_all add: p_def b_def)
    ultimately show thesis
      using None no w by (intro that [of "rows @ [?new]"])
        (auto simp: rate_hit_def Let_def p_def b_def expires_def simp del: index_of_None)
  next
    case (Some i)
    let ?new = "(rows ! i)\<lparr>rr_count := rr_count (rows ! i) + 1\<rparr>"
    have i: "i < length rows" "p start (rows ! i)" using index_of_Some [OF Some] by auto
    have "n = rr_count (rows ! i)" using Some unfolding n find_first_index by simp
    moreover have "find_first (p start) (rows[i := ?new]) = Some ?new"
      using Some i(2) by (intro find_first_update) (simp_all add: p_def)
    moreover have "\<forall>r\<in>set (rows[i := ?new]). p start r \<longrightarrow> rr_expires r = expires"
      using live i set_update_subset_insert [of rows i ?new] by (auto simp: expires_def p_def)
    ultimately show thesis
      using Some w by (intro that [of "rows[i := ?new]"])
        (auto simp: rate_hit_def Let_def p_def b_def expires_def)
  qed
  let ?rows2 = "if Suc n = 1 then filter (\<lambda>r. \<not> (rr_bucket r = b \<and> rr_expires r < now)) rows1 else rows1"
  have "find_first (p start) ?rows2 = find_first (p start) rows1"
    using live1 alive by (auto intro!: find_first_filter)
  with found hit show "hits_so_far rule who start (snd (rate_hit rule who now rows)) = Suc (hits_so_far rule who start rows)"
    by (auto simp: hits_so_far_def p_def n_def)
  show "rs_count (fst (rate_hit rule who now rows)) = Suc (hits_so_far rule who start rows)"
    "rs_allowed (fst (rate_hit rule who now rows)) \<longleftrightarrow> Suc (hits_so_far rule who start rows) \<le> rl_limit rule"
    using hit by (simp_all add: n_def)
  show "\<forall>r\<in>set (snd (rate_hit rule who now rows)). p start r \<longrightarrow> rr_expires r = start + int (rl_window rule) * 1000000"
    using live1 hit by (auto simp: expires_def)
qed

lemma rate_hits_window:
  assumes rule: "0 < rl_window rule"
  shows "\<forall>t\<in>set ts. window_start rule t = start \<Longrightarrow>
    \<forall>r\<in>set rows. rr_bucket r = rate_bucket rule who \<and> rr_start r = start \<longrightarrow> rr_expires r = start + int (rl_window rule) * 1000000 \<Longrightarrow>
    map (\<lambda>r. (rs_count r, rs_allowed r)) (rate_hits rule who ts rows)
      = map (\<lambda>i. (hits_so_far rule who start rows + i, hits_so_far rule who start rows + i \<le> rl_limit rule)) [1..<Suc (length ts)]"
proof (induction ts arbitrary: rows)
  case (Cons t ts)
  have w: "window_start rule t = start" using Cons.prems(1) by simp
  note hit = rate_hit_same_window [OF rule w Cons.prems(2)]
  have "map (\<lambda>r. (rs_count r, rs_allowed r)) (rate_hits rule who ts (snd (rate_hit rule who t rows)))
      = map (\<lambda>i. (Suc (hits_so_far rule who start rows) + i, Suc (hits_so_far rule who start rows) + i \<le> rl_limit rule)) [1..<Suc (length ts)]"
    using Cons.IH [of "snd (rate_hit rule who t rows)"] Cons.prems(1) hit(3,4) by simp
  also have "\<dots> = map (\<lambda>i. (hits_so_far rule who start rows + i, hits_so_far rule who start rows + i \<le> rl_limit rule)) (map Suc [1..<Suc (length ts)])"
    by simp
  also have "map Suc [1..<Suc (length ts)] = [2..<Suc (Suc (length ts))]" by (simp add: map_Suc_upt numeral_2_eq_2)
  finally have rest: "map (\<lambda>r. (rs_count r, rs_allowed r)) (rate_hits rule who ts (snd (rate_hit rule who t rows)))
      = map (\<lambda>i. (hits_so_far rule who start rows + i, hits_so_far rule who start rows + i \<le> rl_limit rule)) [2..<Suc (Suc (length ts))]" .
  have "rate_hits rule who (t # ts) rows = fst (rate_hit rule who t rows) # rate_hits rule who ts (snd (rate_hit rule who t rows))"
    by (simp add: case_prod_beta Let_def)
  moreover have "[1..<Suc (length (t # ts))] = 1 # [2..<Suc (Suc (length ts))]"
    by (simp add: upt_conv_Cons numeral_2_eq_2 del: upt_Suc)
  ultimately show ?case
    using rest hit(1,2) by (simp del: upt_Suc)
qed simp

section \<open>Properties\<close>

text \<open>
  The inbox lets an external event through once: of any sequence of ingests of values that fit the columns exactly one result per new
  dedupe key says \<^verbatim>\<open>new\<close>, and none if the key was there before. A replay of an event that is in the
  inbox, even with its payload keys in another order, is a duplicate that names the stored row and changes nothing.
\<close>

theorem inbox_exactly_one_new:
  assumes "distinct (map ib_dedupe rows)" "r \<in> set rows" "ib_dedupe r = ingest_key sha f q"
    and "iq_provider q' = iq_provider q" "iq_event_id q' = iq_event_id q" "iq_dedupe q' = iq_dedupe q"
    and "distinct (map fst (iq_normalized q))" "mset (iq_normalized q') = mset (iq_normalized q)"
  shows "length (filter (\<lambda>res. ig_outcome res = IngestNew \<and> ig_dedupe res = k) (ingest_all sha f qs rows))
      = (if k \<in> ingest_key sha f ` set qs \<and> k \<notin> ib_dedupe ` set rows then 1 else 0)
    \<and> ingest_fitting sha f q' rows = (\<lparr>ig_outcome = IngestDuplicate, ig_inbox_id = ib_id r, ig_dedupe = ib_dedupe r\<rparr>, rows)"
proof -
  have "json_dumps f (PDict (iq_normalized q)) = json_dumps f (PDict (iq_normalized q'))"
    using assms(7,8) by (intro json_dumps_key_order) simp_all
  then have "ingest_key sha f q' = ingest_key sha f q"
    by (simp only: ingest_key_def derive_dedupe_key_def payload_hash_def assms(4-6))
  then show ?thesis
    unfolding ingest_all_accepted inbox_store.accepted_once
    using ingest_existing [OF assms(1,2), of sha f q'] assms(3) by simp
qed

text \<open>
  A command runs once: after a guarded body has completed, every later request with the same command id and the
  same request hash replays the stored result, one with another hash is refused as a conflict, and neither
  runs its body or changes the table.
\<close>

theorem idempotent_replays:
  assumes "idempotent now q body (rows, w) = (Inr (Executed res), rows', w')" "distinct (map cm_id rows)"
    and "cq_id q' = cq_id q"
  shows "idempotent now' q' body' (rows', v) =
    (if cq_hash q' = cq_hash q then (Inr (Replayed res), rows', v) else (Inl (CommandConflict (cq_id q)), rows', v))"
proof -
  have c: "claim now q rows = (Inr None, snd (command_put now q rows))" "cq_id q \<notin> cm_id ` set rows"
    and rows': "rows' = complete now (cq_id q) res (snd (command_put now q rows))"
    using assms(1) claim_None by (fastforce simp: idempotent_def split: prod.splits sum.splits option.splits)+
  let ?r = "\<lparr>cm_id = cq_id q, cm_user = cq_user q, cm_endpoint = cq_endpoint q, cm_hash = cq_hash q,
    cm_status = Some (sr_code res), cm_body = sr_body res, cm_created = now, cm_completed = Some now\<rparr>"
  have "rows' = rows @ [?r]"
  proof -
    have "complete now (cq_id q) res rows = rows"
      using c(2) by (induction rows) (auto simp: complete_def)
    then show ?thesis using c(2) unfolding rows' by (simp add: command_put_def complete_def)
  qed
  moreover from this have "find_first (\<lambda>x. cm_id x = cq_id q) rows' = Some ?r"
    using find_first_key [of ?r rows' cm_id] assms(2) c(2) by auto
  ultimately show ?thesis
    using assms(3) by (simp add: idempotent_def claim_def command_put_def)
qed

text \<open>
  C25. Commands take effect once. Over any interleaving of claims, commits, completions, failures before and after the commit, crashes and
  the two purges, the bodies of a command id that run or have committed are at most one more than the removals of its row by a purge or
  after a commit: while its row is kept a command runs and takes effect at most once.
\<close>

theorem command_runs_once:
  assumes "command_step\<^sup>*\<^sup>* no_commands s"
  shows "count_list (cs_running s) c + count_list (cs_effects s) c \<le> 1 + count_list (cs_removed s) c"
proof -
  have "commands_inv s"
    using assms
  proof (induction rule: rtranclp_induct)
    case (step s t)
    then show ?case using command_step_inv by blast
  qed (simp add: commands_inv_def no_commands_def)
  then have "count_list (cs_running s) c + count_list (cs_effects s) c \<le> count_list (map cm_id (cs_rows s)) c + count_list (cs_removed s) c"
    "count_list (map cm_id (cs_rows s)) c \<le> 1"
    using count_distinct by (auto simp: commands_inv_def)
  then show ?thesis by linarith
qed

text \<open>
  Within one window the n-th hit of a caller is counted as n-th and allowed exactly if n is within the limit, whatever
  else the table holds about earlier windows and other callers.
\<close>

theorem rate_limit_window:
  assumes "0 < rl_window rule" "\<forall>t\<in>set ts. window_start rule t = start"
    and "\<forall>r\<in>set rows. rr_bucket r = rate_bucket rule who \<longrightarrow> rr_start r \<noteq> start"
  shows "map (\<lambda>r. (rs_count r, rs_allowed r)) (rate_hits rule who ts rows)
      = map (\<lambda>n. (n, n \<le> rl_limit rule)) [1..<Suc (length ts)]"
proof -
  have "hits_so_far rule who start rows = 0"
    using assms(3) by (auto simp: hits_so_far_def split: option.splits dest: find_first_Some)
  moreover have "\<forall>r\<in>set rows. rr_bucket r = rate_bucket rule who \<and> rr_start r = start
      \<longrightarrow> rr_expires r = start + int (rl_window rule) * 1000000"
    using assms(3) by auto
  ultimately show ?thesis
    using rate_hits_window [OF assms(1,2), of rows who] by (simp del: upt_Suc)
qed

section \<open>Witnesses\<close>

definition sample_ingest :: ingest_request where
  "sample_ingest = \<lparr>iq_provider = ''cti'', iq_normalized = [(''a'', PInt 1), (''b'', PInt 2)], iq_event_id = None,
     iq_raw_ref = None, iq_raw_hash = None, iq_dedupe = None, iq_correlation = None\<rparr>"

theorem inbox_exactly_one_new_witness:
  "ig_outcome (fst (ingest_fitting (\<lambda>t. t) (\<lambda>_. []) (sample_ingest\<lparr>iq_normalized := [(''b'', PInt 2), (''a'', PInt 1)]\<rparr>)
     (snd (ingest_fitting (\<lambda>t. t) (\<lambda>_. []) sample_ingest [])))) = IngestDuplicate"
proof -
  let ?rows = "snd (ingest_fitting (\<lambda>t. t) (\<lambda>_. []) sample_ingest [])"
  have 1: "distinct (map ib_dedupe ?rows)" "hd ?rows \<in> set ?rows" "ib_dedupe (hd ?rows) = ingest_key (\<lambda>t. t) (\<lambda>_. []) sample_ingest"
    by (simp_all add: ingest_fitting_def inbox_put_def)
  have 2: "distinct (map fst (iq_normalized sample_ingest))" by (simp add: sample_ingest_def)
  show ?thesis
    using inbox_exactly_one_new [OF 1 _ _ _ 2, of "sample_ingest\<lparr>iq_normalized := [(''b'', PInt 2), (''a'', PInt 1)]\<rparr>" "''''" "[]"]
    by (simp add: sample_ingest_def)
qed

definition sample_command :: command_request where
  "sample_command = \<lparr>cq_id = 5, cq_endpoint = ''POST /x'', cq_hash = ''h'', cq_user = None\<rparr>"

definition counting_body :: "nat command_body" where
  "counting_body w = (Inr (Some \<lparr>sr_code = 200, sr_body = None\<rparr>), Suc w)"

theorem idempotent_replays_witness:
  "\<exists>rows'. idempotent 0 sample_command counting_body ([], 0) = (Inr (Executed \<lparr>sr_code = 200, sr_body = None\<rparr>), rows', 1)
    \<and> idempotent 9 sample_command counting_body (rows', 1) = (Inr (Replayed \<lparr>sr_code = 200, sr_body = None\<rparr>), rows', 1)"
proof -
  let ?rows = "[\<lparr>cm_id = 5, cm_user = None, cm_endpoint = ''POST /x'', cm_hash = ''h'', cm_status = Some 200, cm_body = None,
    cm_created = 0, cm_completed = Some 0\<rparr>]"
  have 1: "idempotent 0 sample_command counting_body ([], 0) = (Inr (Executed \<lparr>sr_code = 200, sr_body = None\<rparr>), ?rows, 1)"
    by (simp add: idempotent_def claim_def command_put_def sample_command_def counting_body_def complete_def)
  show ?thesis
    using 1 idempotent_replays [OF 1, of sample_command 9 counting_body 1] by (intro exI [of _ ?rows]) simp
qed

theorem command_runs_once_witness:
  "\<exists>s. command_step\<^sup>*\<^sup>* no_commands s \<and> cs_effects s = [5] \<and> cs_removed s = [] \<and> count_list (cs_effects s) 5 \<le> 1"
proof -
  let ?s = no_commands and ?q = sample_command
  have "claim 0 ?q (cs_rows ?s) = (Inr None, snd (command_put 0 ?q []))" by (simp add: claim_def command_put_def no_commands_def)
  from command_step.claimed [OF this] have
    1: "command_step ?s (?s\<lparr>cs_rows := snd (command_put 0 ?q []), cs_running := cq_id ?q # cs_running ?s\<rparr>)" (is "command_step _ ?t") .
  have "5 \<in> set (cs_running ?t)" by (simp add: sample_command_def)
  note 2 = command_step.committed [OF this]
  from 1 2 have reach: "command_step\<^sup>*\<^sup>* ?s (?t\<lparr>cs_running := remove1 5 (cs_running ?t), cs_closing := 5 # cs_closing ?t, cs_effects := 5 # cs_effects ?t\<rparr>)"
    by (meson r_into_rtranclp rtranclp.rtrancl_into_rtrancl)
  show ?thesis by (rule exI, rule conjI, rule reach) (use command_runs_once [OF reach, of 5] in \<open>simp add: no_commands_def\<close>)
qed

theorem rate_limit_window_witness:
  "map (\<lambda>r. (rs_count r, rs_allowed r)) (rate_hits \<lparr>rl_name = ''login'', rl_limit = 2, rl_window = 60\<rparr> ''u'' [1, 2, 3] [])
     = [(1, True), (2, True), (3, False)]"
proof -
  let ?rule = "\<lparr>rl_name = ''login'', rl_limit = 2, rl_window = 60\<rparr>"
  have "map (\<lambda>r. (rs_count r, rs_allowed r)) (rate_hits ?rule ''u'' [1, 2, 3] [])
      = map (\<lambda>n. (n, n \<le> rl_limit ?rule)) [1..<Suc (length [1, 2, 3 :: int])]"
    by (rule rate_limit_window [where start = 0]) (simp_all add: window_start_def)
  then show ?thesis by (simp add: upt_conv_Cons)
qed

end
