(* ===== verification/Call_Service.thy ===== *)
theory Call_Service
  imports Telephony Phone_Book Commands Outbox
begin

text \<open>
  The stateful part of telephony: \<^verbatim>\<open>infra/repositories/call_lifecycle.py\<close>, \<^verbatim>\<open>line_status.py\<close>, \<^verbatim>\<open>endpoint_matcher.py\<close>,
  \<^verbatim>\<open>infra/inbound_signals.py\<close>, \<^verbatim>\<open>infra/telephony_ingest.py\<close> and, of \<^verbatim>\<open>api/v1/calls.py\<close>, the call control and the mandatory
  documentation. The tables are one record, with the domain-event log, the audit log, the inbox and the process-local caller
  cache. An operation runs in one transaction: it gives the new tables or an error, after which nothing of it is kept.
\<close>

section \<open>Tables\<close>

record call_row =
  call_id :: uuid
  call_bbz :: string
  call_provider :: string
  call_source :: "string option"
  call_direction :: call_direction
  call_state :: call_state
  call_line :: "uuid option"
  call_created :: instant
  call_started :: "instant option"
  call_ended :: "instant option"
  call_caller :: "uuid option"
  call_priority :: "string option"

record call_participant =
  pt_call :: uuid
  pt_number :: string
  pt_display :: "string option"
  pt_role :: string

record call_documentation =
  cd_call :: uuid
  cd_category :: "string option"
  cd_free_text :: "string option"
  cd_by :: "uuid option"
  cd_at :: "instant option"
  cd_done :: bool

record line_row =
  ln_id :: uuid
  ln_provider :: string
  ln_external :: string
  ln_state :: string

record technical_endpoint =
  ep_id :: uuid
  ep_type :: string
  ep_enabled :: bool

record endpoint_number =
  en_endpoint :: uuid
  en_called :: "string option"
  en_calling :: "string option"
  en_route_point :: "string option"

record tel_db =
  td_calls :: "call_row list"
  td_participants :: "call_participant list"
  td_docs :: "call_documentation list"
  td_lines :: "line_row list"
  td_endpoints :: "technical_endpoint list"
  td_endpoint_numbers :: "endpoint_number list"
  td_inbox :: "inbox_row list"
  td_log :: event_log
  td_audit :: audit_db
  td_book :: phone_book
  td_cache :: matcher_cache
  td_next :: uuid

text \<open>What an operation finds around it: the clocks, the node, the validators of the event log, the minting of call ids (date and
  random digits), the text of a UUID, the hash and the date-time format.\<close>

record tel_env =
  tn_events :: event_env
  tn_audit :: audit_env
  tn_validators :: validators
  tn_mono :: rat
  tn_mint :: "uuid \<Rightarrow> string"
  tn_uuid :: "uuid \<Rightarrow> string"
  tn_sha :: "string \<Rightarrow> string"
  tn_float :: "rat \<Rightarrow> string"
  tn_date_time :: "string \<Rightarrow> bool"

definition tn_now :: "tel_env \<Rightarrow> instant" where
  "tn_now env = ee_now (tn_events env)"

datatype tel_error =
    TelephonyEventRejected | MultipleCallsFound string | CallIdTaken string | SignalRejected signal_error
  | TelLog event_log_error | TelAudit audit_error
  | CallNotFound | NoProviderCallId | NoActiveProvider | CallVanished | InboxRefused

section \<open>The call lifecycle\<close>

definition INBOUND_FIRST :: "string list" where
  "INBOUND_FIRST = [''CALL_OFFERED'', ''CALL_RINGING'']"

definition call_at :: "uuid \<Rightarrow> tel_db \<Rightarrow> call_row option" where
  "call_at c db = find_first (\<lambda>r. call_id r = c) (td_calls db)"

definition set_call :: "call_row \<Rightarrow> tel_db \<Rightarrow> tel_db" where
  "set_call row db = db\<lparr>td_calls := map (\<lambda>r. if call_id r = call_id row then row else r) (td_calls db)\<rparr>"

definition infer_direction :: "pydict \<Rightarrow> call_direction" where
  "infer_direction e =
     (case (case get_str (get_dict e ''metadata'') ''direction'' of Some s \<Rightarrow> direction_of s | None \<Rightarrow> None) of
        Some d \<Rightarrow> d
      | None \<Rightarrow> if req_str e ''event_type'' \<in> set INBOUND_FIRST then Inbound else Outbound)"

definition resolve_line_id :: "string \<Rightarrow> string option \<Rightarrow> tel_db \<Rightarrow> uuid option" where
  "resolve_line_id provider external db =
     (case non_empty external of
        None \<Rightarrow> None
      | Some x \<Rightarrow> map_option ln_id (find_first (\<lambda>l. ln_provider l = provider \<and> ln_external l = x) (td_lines db)))"

definition resolve_call_contact :: "tel_env \<Rightarrow> uuid \<Rightarrow> pydict \<Rightarrow> tel_db \<Rightarrow> tel_db" where
  "resolve_call_contact env c e db =
     (case call_at c db of
        None \<Rightarrow> db
      | Some call \<Rightarrow>
          if call_caller call \<noteq> None then db
          else (case non_empty (get_str e ''calling_number'') of
                  None \<Rightarrow> db
                | Some number \<Rightarrow>
                    if call_direction call \<noteq> Inbound then db
                    else (let (m, cache) = resolve_caller (td_book db) (tn_mono env) number (td_cache db);
                              db' = db\<lparr>td_cache := cache\<rparr>
                          in if cm_matched m then set_call (call\<lparr>call_caller := cm_contact m, call_priority := cm_priority m\<rparr>) db'
                             else db')))"

definition record_participants :: "uuid \<Rightarrow> pydict \<Rightarrow> tel_db \<Rightarrow> tel_db" where
  "record_participants c e db =
     (let existing = map (\<lambda>p. (pt_number p, pt_role p)) (filter (\<lambda>p. pt_call p = c) (td_participants db));
          add = (\<lambda>(number, role, display). case non_empty number of
             Some n \<Rightarrow> if (n, role) \<notin> set existing
                       then [\<lparr>pt_call = c, pt_number = n, pt_display = display, pt_role = role\<rparr>] else []
           | None \<Rightarrow> [])
      in db\<lparr>td_participants := td_participants db @
           add (get_str e ''calling_number'', ''caller'', get_str e ''display_name'') @ add (get_str e ''called_number'', ''callee'', None)\<rparr>)"

text \<open>A domain event of a call, appended and audited.\<close>

definition log_event :: "tel_env \<Rightarrow> string \<Rightarrow> uuid \<Rightarrow> string \<Rightarrow> pydict \<Rightarrow> uuid option \<Rightarrow> tel_db \<Rightarrow> (tel_error, nat \<times> tel_db) res" where
  "log_event env aggregate i ty payload user db =
     (case append_event (tn_validators env) (tn_events env)
        \<lparr>er_aggregate_type = aggregate, er_aggregate_id = tn_uuid env i, er_event_type = ty, er_payload = payload,
          er_schema_version = 1, er_user = user, er_client = None, er_command = None, er_local = None\<rparr> (td_log db) of
        (Inl err, _) \<Rightarrow> Inl (TelLog err)
      | (Inr seq, elog) \<Rightarrow> Inr (seq, db\<lparr>td_log := elog\<rparr>))"

definition audit_call ::
  "tel_env \<Rightarrow> string \<Rightarrow> uuid option \<Rightarrow> string option \<Rightarrow> pydict \<Rightarrow> nat option \<Rightarrow> tel_db \<Rightarrow> (tel_error, tel_db) res" where
  "audit_call env action actor target after seq db =
     (case audit_write (tn_audit env) True
        \<lparr>rq_action = action, rq_actor = actor, rq_client = None, rq_workplace = None, rq_target_type = Some ''call'',
          rq_target_id = target, rq_before = None, rq_after = Some after, rq_reason = None, rq_event_seq = seq\<rparr> (td_audit db) of
        Inl err \<Rightarrow> Inl (TelAudit err)
      | Inr a \<Rightarrow> Inr (db\<lparr>td_audit := a\<rparr>))"

definition publish_call_event :: "tel_env \<Rightarrow> uuid \<Rightarrow> call_domain_event \<Rightarrow> tel_db \<Rightarrow> (tel_error, tel_db) res" where
  "publish_call_event env c de db =
     bind_res (log_event env ''call'' c (cde_type de) (cde_payload de) None db) (\<lambda>(seq, db').
       audit_call env (cde_type de) None (Some (tn_uuid env c)) (cde_payload de) (Some seq) db')"

text \<open>The call of the event, created on first sight.\<close>

definition find_or_create_call :: "tel_env \<Rightarrow> string \<Rightarrow> pydict \<Rightarrow> tel_db \<Rightarrow> (tel_error, call_row \<times> tel_db) res" where
  "find_or_create_call env source e db =
     (let provider = req_str e ''provider'' in
      case filter (\<lambda>r. call_provider r = provider \<and> call_source r = Some source) (td_calls db) of
        [] \<Rightarrow>
          (let i = td_next db; bbz = tn_mint env i;
               row = \<lparr>call_id = i, call_bbz = bbz, call_provider = provider, call_source = Some source,
                 call_direction = infer_direction e, call_state = Offered,
                 call_line = resolve_line_id provider (get_str e ''line_id'') db, call_created = tn_now env,
                 call_started = None, call_ended = None, call_caller = None, call_priority = None\<rparr>
           in if bbz \<in> call_bbz ` set (td_calls db) then Inl (CallIdTaken bbz)
              else Inr (row, db\<lparr>td_calls := td_calls db @ [row], td_next := Suc i\<rparr>))
      | [row] \<Rightarrow> Inr (row, db)
      | _ \<Rightarrow> Inl (MultipleCallsFound source))"

definition move_call :: "instant \<Rightarrow> call_state \<Rightarrow> call_row \<Rightarrow> call_row" where
  "move_call now st call =
     (if st = call_state call then call
      else (let call1 = call\<lparr>call_state := st\<rparr>;
                call2 = (if st = Connected \<and> call_started call1 = None then call1\<lparr>call_started := Some now\<rparr> else call1)
            in if st \<in> set TERMINAL \<and> call_ended call2 = None then call2\<lparr>call_ended := Some now\<rparr> else call2))"

text \<open>The event on the call it belongs to, and the whole handler.\<close>

definition provider_event_on :: "tel_env \<Rightarrow> pydict \<Rightarrow> string \<Rightarrow> call_row \<Rightarrow> tel_db \<Rightarrow> (tel_error, tel_db) res" where
  "provider_event_on env e source call db1 =
     (let agg = apply_provider_event (req_str e ''event_type'')
            \<lparr>cg_bbz = call_bbz call, cg_direction = call_direction call, cg_state = call_state call,
              cg_source = Some source, cg_line = map_option (tn_uuid env) (call_line call), cg_pending = []\<rparr>;
          db2 = set_call (move_call (tn_now env) (cg_state agg) call) db1;
          db3 = record_participants (call_id call) e db2;
          db4 = resolve_call_contact env (call_id call) e db3
      in fold_res (publish_call_event env (call_id call)) (fst (collect_call_events agg)) db4)"

definition on_provider_event :: "tel_env \<Rightarrow> pydict \<Rightarrow> tel_db \<Rightarrow> (tel_error, tel_db) res" where
  "on_provider_event env e db =
     (case non_empty (get_str e ''source_call_id'') of
        None \<Rightarrow> Inr db
      | Some source \<Rightarrow> bind_res (find_or_create_call env source e db) (\<lambda>(call, db1). provider_event_on env e source call db1))"

section \<open>Line status\<close>

definition LINE_EVENTS :: "(string \<times> string) list" where
  "LINE_EVENTS = [(''LINE_IN_SERVICE'', ''in_service''), (''LINE_OUT_OF_SERVICE'', ''out_of_service'')]"

definition on_line_event :: "tel_env \<Rightarrow> pydict \<Rightarrow> tel_db \<Rightarrow> (tel_error, tel_db) res" where
  "on_line_event env e db =
     (case (map_of LINE_EVENTS (req_str e ''event_type''), non_empty (get_str e ''line_id'')) of
        (Some st, Some external) \<Rightarrow>
          (let provider = req_str e ''provider'';
               emit = (\<lambda>i db'. bind_res (log_event env ''line'' i (req_str e ''event_type'')
                 [(''provider'', PStr provider), (''external_id'', PStr external), (''state'', PStr st)] None db') (\<lambda>(_, db''). Inr db''))
           in case find_first (\<lambda>l. ln_provider l = provider \<and> ln_external l = external) (td_lines db) of
                None \<Rightarrow>
                  (let i = td_next db in
                   emit i (db\<lparr>td_lines := td_lines db @ [\<lparr>ln_id = i, ln_provider = provider, ln_external = external, ln_state = st\<rparr>],
                     td_next := Suc i\<rparr>))
              | Some l \<Rightarrow>
                  if ln_state l = st then Inr db
                  else emit (ln_id l) (db\<lparr>td_lines := map (\<lambda>x. if ln_id x = ln_id l then x\<lparr>ln_state := st\<rparr> else x) (td_lines db)\<rparr>))
      | _ \<Rightarrow> Inr db)"

text \<open>What \<^verbatim>\<open>register_call_dispatch\<close> hands to the ingestion.\<close>

definition call_dispatch :: "tel_env \<Rightarrow> pydict \<Rightarrow> tel_db \<Rightarrow> (tel_error, tel_db) res" where
  "call_dispatch env e db = bind_res (on_provider_event env e db) (on_line_event env e)"

section \<open>Ingestion\<close>

definition CALL_EVENT_TYPES :: "string list" where
  "CALL_EVENT_TYPES = [''CALL_OFFERED'', ''CALL_RINGING'', ''CALL_ANSWERED'', ''CALL_CONNECTED'', ''CALL_HELD'', ''CALL_RESUMED'',
     ''CALL_TRANSFER_INITIATED'', ''CALL_TRANSFERRED'', ''CALL_CONFERENCED'', ''CALL_DISCONNECTED'', ''CALL_FAILED'']"

definition telephony_dedupe_key :: "pydict \<Rightarrow> string" where
  "telephony_dedupe_key e =
     (let provider = req_str e ''provider''; ty = req_str e ''event_type''
      in case non_empty (get_str e ''source_call_id'') of
           Some source \<Rightarrow>
             if ty \<in> set CALL_EVENT_TYPES then ''telephony:'' @ provider @ '':call:'' @ source @ '':'' @ ty
             else ''telephony:'' @ provider @ '':evt:'' @ req_str e ''telephony_event_id''
         | None \<Rightarrow> ''telephony:'' @ provider @ '':evt:'' @ req_str e ''telephony_event_id'')"

definition match_technical_endpoint ::
  "string option \<Rightarrow> string option \<Rightarrow> string option \<Rightarrow> string list \<Rightarrow> tel_db \<Rightarrow> uuid option" where
  "match_technical_endpoint calling called route types db =
     (let hit = (\<lambda>n. (non_empty called \<noteq> None \<and> en_called n = called) \<or> (non_empty calling \<noteq> None \<and> en_calling n = calling) \<or>
               (non_empty route \<noteq> None \<and> en_route_point n = route));
          ids = concat (map (\<lambda>p. map (\<lambda>n. ep_id p) (filter (\<lambda>n. en_endpoint n = ep_id p \<and> hit n) (td_endpoint_numbers db)))
                  (filter (\<lambda>p. ep_enabled p \<and> (types = [] \<or> ep_type p \<in> set types)) (td_endpoints db)))
      in if non_empty called = None \<and> non_empty calling = None \<and> non_empty route = None then None
         else (case sort ids of [] \<Rightarrow> None | i # _ \<Rightarrow> Some i))"

definition DOORBELL_TYPES :: "string list" where
  "DOORBELL_TYPES = [''door_station'']"

definition resolve_doorbell :: "tel_env \<Rightarrow> tel_db \<Rightarrow> pydict \<Rightarrow> (signal_error, pydict) res" where
  "resolve_doorbell env db sig =
     (let src = get_dict sig ''source'' in
      if get_str sig ''signal_type'' \<noteq> Some ''CALL_RINGING'' \<or> py_truthy (dict_get src ''technical_endpoint_id'') then Inr sig
      else (case match_technical_endpoint (get_str src ''ani'') (get_str src ''dnis'') (get_str src ''cti_route_point'') DOORBELL_TYPES db of
              None \<Rightarrow> Inr sig
            | Some i \<Rightarrow>
                (let sig' = dict_set ''source'' (PDict (dict_set ''technical_endpoint_id'' (PStr (tn_uuid env i)) src))
                       (dict_set ''signal_type'' (PStr ''DOORBELL_RINGING'') sig)
                 in if validate_inbound_signal (tn_date_time env) sig' then Inr sig' else Inl InboundSignalRejected)))"

definition record_inbound_signal ::
  "tel_env \<Rightarrow> pydict \<Rightarrow> string option \<Rightarrow> string option \<Rightarrow> tel_db \<Rightarrow> (tel_error, ingest_result \<times> tel_db) res" where
  "record_inbound_signal env sig event_id dedupe db =
     (if \<not> validate_inbound_signal (tn_date_time env) sig then Inl (SignalRejected InboundSignalRejected)
      else (case ingest (tn_sha env) (tn_float env)
                  \<lparr>iq_provider = req_str sig ''provider'', iq_normalized = sig, iq_event_id = event_id, iq_raw_ref = None,
                    iq_raw_hash = None, iq_dedupe = dedupe, iq_correlation = env_correlation (tn_audit env)\<rparr> (td_inbox db) of
              Inl _ \<Rightarrow> Inl InboxRefused
            | Inr (res, rows) \<Rightarrow> Inr (res, db\<lparr>td_inbox := rows\<rparr>)))"

definition queue_signal :: "tel_env \<Rightarrow> pydict \<Rightarrow> tel_db \<Rightarrow> (tel_error, tel_db) res" where
  "queue_signal env raw db =
     (case from_telephony_event (tn_date_time env) raw of
        Inl _ \<Rightarrow> Inr db
      | Inr None \<Rightarrow> Inr db
      | Inr (Some sig) \<Rightarrow>
          (case resolve_doorbell env db sig of
             Inl e \<Rightarrow> Inl (SignalRejected e)
           | Inr sig' \<Rightarrow>
               (case record_inbound_signal env sig' (get_str raw ''telephony_event_id'')
                  (Some (''signal:'' @ telephony_dedupe_key raw)) db of
                  Inl e \<Rightarrow> Inl e
                | Inr (_, db') \<Rightarrow> Inr db')))"

definition telephony_request :: "tel_env \<Rightarrow> pydict \<Rightarrow> ingest_request" where
  "telephony_request env raw = \<lparr>iq_provider = req_str raw ''provider'', iq_normalized = raw, iq_event_id = get_str raw ''telephony_event_id'',
     iq_raw_ref = None, iq_raw_hash = None, iq_dedupe = Some (telephony_dedupe_key raw), iq_correlation = env_correlation (tn_audit env)\<rparr>"

definition ingest_telephony_event :: "tel_env \<Rightarrow> pydict \<Rightarrow> tel_db \<Rightarrow> (tel_error, ingest_result \<times> tel_db) res" where
  "ingest_telephony_event env raw db =
     (if \<not> telephony_event_valid (tn_date_time env) raw then Inl TelephonyEventRejected
      else (case ingest (tn_sha env) (tn_float env) (telephony_request env raw) (td_inbox db) of
              Inl _ \<Rightarrow> Inl InboxRefused
            | Inr (res, rows) \<Rightarrow>
                (let db1 = db\<lparr>td_inbox := rows\<rparr> in
                 if ig_outcome res = IngestNew
                 then bind_res (call_dispatch env raw db1) (\<lambda>db2.
                      bind_res (queue_signal env raw (db2\<lparr>td_inbox := mark_processed (tn_now env) (ig_inbox_id res) (td_inbox db2)\<rparr>)) (\<lambda>db3.
                        Inr (res, db3)))
                 else Inr (res, db1))))"

section \<open>Call control and documentation\<close>

definition FINAL_STATES :: "call_state list" where
  "FINAL_STATES = [Disconnected, CallFailed]"

definition finalize_ended :: "tel_env \<Rightarrow> uuid option \<Rightarrow> call_row \<Rightarrow> tel_db \<Rightarrow> (tel_error, tel_db) res" where
  "finalize_ended env actor call db =
     (if call_state call \<in> set FINAL_STATES then Inr db
      else (let old = call_state call;
                call' = call\<lparr>call_state := Disconnected,
                  call_ended := (case call_ended call of None \<Rightarrow> Some (tn_now env) | Some t \<Rightarrow> Some t)\<rparr>
            in bind_res (log_event env ''call'' (call_id call) ''CALL_ENDED''
                 [(''bbz_call_id'', PStr (call_bbz call)), (''source_call_id'', nullable (call_source call)),
                  (''direction'', PStr (direction_value (call_direction call))), (''from'', PStr (call_state_value old)),
                  (''to'', PStr (call_state_value Disconnected))] actor (set_call call' db)) (\<lambda>(seq, db').
               audit_call env ''CALL_ENDED'' actor (Some (tn_uuid env (call_id call)))
                 [(''bbz_call_id'', PStr (call_bbz call)), (''from'', PStr (call_state_value old)), (''to'', PStr ''disconnected'')]
                 (Some seq) db')))"

definition doc_at :: "uuid \<Rightarrow> tel_db \<Rightarrow> call_documentation option" where
  "doc_at c db = find_first (\<lambda>d. cd_call d = c) (td_docs db)"

text \<open>The guard of \<^verbatim>\<open>hangup_call\<close>: the note for the answer and the tables after it.\<close>

definition hangup_guard :: "tel_env \<Rightarrow> uuid option \<Rightarrow> call_row \<Rightarrow> tel_db \<Rightarrow> (tel_error, string option \<times> tel_db) res" where
  "hangup_guard env actor call db =
     (if (case doc_at (call_id call) db of Some d \<Rightarrow> cd_done d | None \<Rightarrow> False)
      then bind_res (finalize_ended env actor call db) (\<lambda>db'. Inr (Some ''closed'', db'))
      else Inr (Some ''pending documentation'',
        set_call (call\<lparr>call_state := EndedPendingDocumentation,
          call_ended := (case call_ended call of None \<Rightarrow> Some (tn_now env) | Some t \<Rightarrow> Some t)\<rparr>) db))"

text \<open>A provider is what it answers (the acknowledgement: accepted, detail) and what it emits, which is drained and ingested only
  for the mock; \<open>None\<close> when no provider is active.\<close>

record provider_ack =
  pa_accepted :: bool
  pa_detail :: "string option"
  pa_mock :: bool
  pa_events :: "pydict list"

type_synonym provider_call = "(string \<Rightarrow> provider_ack) option"

record control_out =
  ct_call :: uuid
  ct_action :: string
  ct_accepted :: bool
  ct_detail :: "string option"

type_synonym finalizer = "call_row \<Rightarrow> tel_db \<Rightarrow> (tel_error, string option \<times> tel_db) res"

text \<open>
  A control action is several transactions: one for each event the mock provider emitted, which stay committed when a later one fails, then
  one that runs the guard and writes the audit row. Other requests may come between them.
\<close>

fun drain_events :: "tel_env \<Rightarrow> pydict list \<Rightarrow> tel_db \<Rightarrow> (tel_error, unit) res \<times> tel_db" where
  "drain_events env [] db = (Inr (), db)"
| "drain_events env (e # es) db =
     (case ingest_telephony_event env e db of
        Inl err \<Rightarrow> (Inl err, db)
      | Inr (_, db') \<Rightarrow> drain_events env es db')"

definition control_tx ::
  "tel_env \<Rightarrow> uuid option \<Rightarrow> provider_ack \<Rightarrow> uuid \<Rightarrow> string \<Rightarrow> string \<Rightarrow> finalizer option \<Rightarrow> tel_db \<Rightarrow> (tel_error, control_out \<times> tel_db) res" where
  "control_tx env actor ack c action bbz finalize db =
     (case call_at c db of
        None \<Rightarrow> Inl CallVanished
      | Some fresh \<Rightarrow>
          bind_res (case finalize of
              None \<Rightarrow> Inr (pa_detail ack, db)
            | Some f \<Rightarrow> bind_res (f fresh db) (\<lambda>(note, db1).
                Inr (case non_empty note of Some n \<Rightarrow> Some n | None \<Rightarrow> pa_detail ack, db1))) (\<lambda>(note, db1).
            bind_res (audit_call env ''CALL_CONTROL_ACTION'' actor (Some (tn_uuid env c))
              [(''action'', PStr action), (''bbz_call_id'', PStr bbz), (''accepted'', PBool (pa_accepted ack)),
               (''detail'', nullable note)] None db1) (\<lambda>db2.
              Inr (\<lparr>ct_call = c, ct_action = action, ct_accepted = pa_accepted ack, ct_detail = note\<rparr>, db2))))"

definition call_control ::
  "tel_env \<Rightarrow> uuid option \<Rightarrow> provider_call \<Rightarrow> uuid \<Rightarrow> string \<Rightarrow> finalizer option \<Rightarrow> tel_db \<Rightarrow> (tel_error, control_out) res \<times> tel_db" where
  "call_control env actor provider c action finalize db =
     (case call_at c db of
        None \<Rightarrow> (Inl CallNotFound, db)
      | Some call \<Rightarrow>
          (case (non_empty (call_source call), provider) of
             (None, _) \<Rightarrow> (Inl NoProviderCallId, db)
           | (Some _, None) \<Rightarrow> (Inl NoActiveProvider, db)
           | (Some source, Some invoke) \<Rightarrow>
               (let ack = invoke source in
                case (if finalize = None \<and> pa_mock ack then drain_events env (pa_events ack) db else (Inr (), db)) of
                  (Inl err, db1) \<Rightarrow> (Inl err, db1)
                | (Inr _, db1) \<Rightarrow>
                    (case control_tx env actor ack c action (call_bbz call) finalize db1 of
                       Inl err \<Rightarrow> (Inl err, db1)
                     | Inr (out, db2) \<Rightarrow> (Inr out, db2)))))"

definition answer_call :: "tel_env \<Rightarrow> uuid option \<Rightarrow> provider_call \<Rightarrow> uuid \<Rightarrow> tel_db \<Rightarrow> (tel_error, control_out) res \<times> tel_db" where
  "answer_call env actor provider c db = call_control env actor provider c ''answer'' None db"

definition hold_call :: "tel_env \<Rightarrow> uuid option \<Rightarrow> provider_call \<Rightarrow> uuid \<Rightarrow> tel_db \<Rightarrow> (tel_error, control_out) res \<times> tel_db" where
  "hold_call env actor provider c db = call_control env actor provider c ''hold'' None db"

definition resume_call :: "tel_env \<Rightarrow> uuid option \<Rightarrow> provider_call \<Rightarrow> uuid \<Rightarrow> tel_db \<Rightarrow> (tel_error, control_out) res \<times> tel_db" where
  "resume_call env actor provider c db = call_control env actor provider c ''resume'' None db"

definition transfer_call :: "tel_env \<Rightarrow> uuid option \<Rightarrow> provider_call \<Rightarrow> uuid \<Rightarrow> tel_db \<Rightarrow> (tel_error, control_out) res \<times> tel_db" where
  "transfer_call env actor provider c db = call_control env actor provider c ''transfer'' None db"

definition hangup_call :: "tel_env \<Rightarrow> uuid option \<Rightarrow> provider_call \<Rightarrow> uuid \<Rightarrow> tel_db \<Rightarrow> (tel_error, control_out) res \<times> tel_db" where
  "hangup_call env actor provider c db = call_control env actor provider c ''hangup'' (Some (hangup_guard env actor)) db"

definition put_documentation ::
  "tel_env \<Rightarrow> uuid \<Rightarrow> uuid \<Rightarrow> string option \<Rightarrow> string option \<Rightarrow> tel_db \<Rightarrow> (tel_error, call_documentation \<times> tel_db) res" where
  "put_documentation env actor c category text db =
     (let free_text = non_empty (map_option py_strip text) in
      case call_at c db of
        None \<Rightarrow> Inl CallNotFound
      | Some call \<Rightarrow>
          (let known = doc_at c db;
               doc0 = (case known of Some d \<Rightarrow> d | None \<Rightarrow> \<lparr>cd_call = c, cd_category = None, cd_free_text = None, cd_by = None, cd_at = None,
                 cd_done = False\<rparr>);
               doc1 = doc0\<lparr>cd_category := category, cd_free_text := free_text, cd_done := (category \<noteq> None)\<rparr>;
               doc2 = (if category \<noteq> None then doc1\<lparr>cd_by := Some actor, cd_at := Some (tn_now env)\<rparr> else doc1);
               db1 = db\<lparr>td_docs := (if known = None then td_docs db @ [doc2]
                                   else map (\<lambda>d. if cd_call d = c then doc2 else d) (td_docs db))\<rparr>
           in case category of
                None \<Rightarrow> Inr (doc2, db1)
              | Some cat \<Rightarrow>
                  bind_res (log_event env ''call'' c ''CALL_DOCUMENTED''
                    [(''bbz_call_id'', PStr (call_bbz call)), (''category'', PStr cat), (''has_free_text'', PBool (free_text \<noteq> None)),
                     (''actor_id'', PStr (tn_uuid env actor))] (Some actor) db1) (\<lambda>(seq, db2).
                  bind_res (audit_call env ''CALL_DOCUMENTED'' (Some actor) (Some (tn_uuid env c))
                    [(''category'', PStr cat), (''has_free_text'', PBool (free_text \<noteq> None))] (Some seq) db2) (\<lambda>db3.
                  bind_res (if call_state call = EndedPendingDocumentation then finalize_ended env (Some actor) call db3 else Inr db3) (\<lambda>db4.
                    Inr (doc2, db4))))))"

text \<open>Oldest first; a null \<^verbatim>\<open>ended_at\<close> sorts last.\<close>

definition pending_documentation :: "tel_db \<Rightarrow> call_row list" where
  "pending_documentation db =
     (let rows = filter (\<lambda>c. call_state c = EndedPendingDocumentation) (td_calls db) in
      sort_key (\<lambda>c. the (call_ended c)) (filter (\<lambda>c. call_ended c \<noteq> None) rows) @ filter (\<lambda>c. call_ended c = None) rows)"

section \<open>What an operation leaves alone\<close>

text \<open>The calls, the log and the key counter: the part of the tables the life of a call is told by.\<close>

definition call_part :: "tel_db \<Rightarrow> call_row list \<times> domain_event list \<times> uuid" where
  "call_part db = (td_calls db, el_rows (td_log db), td_next db)"

lemma call_part_audit: "audit_call env action actor target after seq db = Inr db' \<Longrightarrow> call_part db' = call_part db"
  by (auto simp: audit_call_def call_part_def split: sum.splits)

lemma call_part_participants [simp]: "call_part (record_participants c e db) = call_part db"
  by (simp add: record_participants_def call_part_def Let_def)

lemma call_part_queue: "queue_signal env raw db = Inr db' \<Longrightarrow> call_part db' = call_part db"
  by (auto simp: queue_signal_def record_inbound_signal_def call_part_def Let_def split: sum.splits option.splits prod.splits if_splits)

lemma call_part_inbox [simp]: "call_part (db\<lparr>td_inbox := rows\<rparr>) = call_part db"
  by (simp add: call_part_def)

lemma log_event_Inr:
  assumes "log_event env aggregate i ty payload user db = Inr (seq, db')"
  obtains row where "db' = db\<lparr>td_log := \<lparr>el_rows = el_rows (td_log db) @ [row], el_next_seq = Suc (el_next_seq (td_log db))\<rparr>\<rparr>"
    "de_aggregate_type row = aggregate" "de_aggregate_id row = tn_uuid env i" "de_event_type row = ty"
  using assms
  by (auto simp: log_event_def append_event_def Let_def split: sum.splits prod.splits if_splits option.splits)

section \<open>The end of a call\<close>

text \<open>How often the log says that a call has ended.\<close>

definition ended_rows :: "(uuid \<Rightarrow> string) \<Rightarrow> uuid \<Rightarrow> domain_event list \<Rightarrow> nat" where
  "ended_rows us i rows =
     length (filter (\<lambda>r. de_aggregate_type r = ''call'' \<and> de_aggregate_id r = us i \<and> de_event_type r = ''CALL_ENDED'') rows)"

definition call_final :: "call_row \<Rightarrow> bool" where
  "call_final r = (call_state r \<in> set FINAL_STATES)"

definition call_inv :: "(uuid \<Rightarrow> string) \<Rightarrow> tel_db \<Rightarrow> bool" where
  "call_inv us db \<longleftrightarrow>
     distinct (map call_id (td_calls db)) \<and> distinct (map (\<lambda>r. (call_provider r, call_source r)) (td_calls db)) \<and>
     (\<forall>r\<in>set (td_calls db). call_id r < td_next db \<and> (call_ended r \<noteq> None \<longleftrightarrow> call_state r \<in> set TERMINAL) \<and>
        ended_rows us (call_id r) (el_rows (td_log db)) = of_bool (call_final r)) \<and>
     (\<forall>i\<ge>td_next db. ended_rows us i (el_rows (td_log db)) = 0)"

lemma call_inv_part: "call_part db' = call_part db \<Longrightarrow> call_inv us db' = call_inv us db"
  by (simp add: call_inv_def call_part_def)

lemma distinct_map_replace:
  assumes "distinct (map key xs)" "\<And>r. r \<in> set xs \<Longrightarrow> p r \<Longrightarrow> key y = key r"
  shows "distinct (map key (map (\<lambda>r. if p r then y else r) xs))"
proof -
  have "map key (map (\<lambda>r. if p r then y else r) xs) = map key xs"
    using assms(2) by auto
  with assms(1) show ?thesis by (simp only:)
qed

text \<open>One call moves on, and the log gains an ending for it exactly when it becomes final.\<close>

lemma call_inv_update:
  assumes inv: "call_inv us db" and call: "call \<in> set (td_calls db)"
    and key: "call_id call' = call_id call" "call_provider call' = call_provider call" "call_source call' = call_source call"
    and ended: "call_ended call' \<noteq> None \<longleftrightarrow> call_state call' \<in> set TERMINAL"
    and calls: "td_calls db' = map (\<lambda>r. if call_id r = call_id call then call' else r) (td_calls db)" and nxt: "td_next db' = td_next db"
    and rows: "\<And>i. ended_rows us i (el_rows (td_log db')) =
      ended_rows us i (el_rows (td_log db)) + of_bool (i = call_id call \<and> call_final call' \<and> \<not> call_final call)"
    and final: "call_final call \<Longrightarrow> call_final call'"
  shows "call_inv us db'"
proof -
  have dist: "distinct (map call_id (td_calls db))" "distinct (map (\<lambda>r. (call_provider r, call_source r)) (td_calls db))"
    and each: "\<And>r. r \<in> set (td_calls db) \<Longrightarrow> call_id r < td_next db \<and> (call_ended r \<noteq> None \<longleftrightarrow> call_state r \<in> set TERMINAL) \<and>
        ended_rows us (call_id r) (el_rows (td_log db)) = of_bool (call_final r)"
    and later: "\<And>i. td_next db \<le> i \<Longrightarrow> ended_rows us i (el_rows (td_log db)) = 0"
    using inv unfolding call_inv_def by auto
  have same: "r = call" if "r \<in> set (td_calls db)" "call_id r = call_id call" for r
    using dist(1) call that by (auto simp: distinct_map inj_on_def)
  have "distinct (map call_id (td_calls db'))" "distinct (map (\<lambda>r. (call_provider r, call_source r)) (td_calls db'))"
    unfolding calls by (intro distinct_map_replace dist; auto dest: same simp: key)+
  moreover have "call_id r < td_next db' \<and> (call_ended r \<noteq> None \<longleftrightarrow> call_state r \<in> set TERMINAL) \<and>
      ended_rows us (call_id r) (el_rows (td_log db')) = of_bool (call_final r)" if "r \<in> set (td_calls db')" for r
  proof (cases "call_id r = call_id call")
    case True
    with that key have "r = call'" by (auto simp: calls split: if_splits)
    then show ?thesis using each [OF call] ended final by (auto simp: nxt rows key)
  next
    case False
    with that have "r \<in> set (td_calls db)" using key by (auto simp: calls split: if_splits)
    then show ?thesis using each [of r] False by (simp add: nxt rows)
  qed
  moreover have "ended_rows us i (el_rows (td_log db')) = 0" if "td_next db' \<le> i" for i
    using later [of i] each [OF call] that by (auto simp: nxt rows)
  ultimately show ?thesis unfolding call_inv_def by auto
qed

lemma ended_rows_snoc:
  assumes "inj us" "de_aggregate_id row = us c"
  shows "ended_rows us i (rows @ [row]) =
    ended_rows us i rows + of_bool (i = c \<and> de_aggregate_type row = ''call'' \<and> de_event_type row = ''CALL_ENDED'')"
  using assms by (auto simp: ended_rows_def inj_def)

text \<open>What the aggregate does to the state, and that it announces the end exactly when the call becomes terminal.\<close>

lemma provider_target_final:
  "provider_target_state ty = Some t \<Longrightarrow> t \<in> set TERMINAL \<longleftrightarrow> t \<in> set FINAL_STATES"
  by (auto simp: provider_target_state_def PROVIDER_TARGET_def TERMINAL_def FINAL_STATES_def split: if_splits)

lemma final_terminal: "st \<in> set FINAL_STATES \<Longrightarrow> st \<in> set TERMINAL"
  by (auto simp: FINAL_STATES_def TERMINAL_def)

lemma business_event_end: "business_event_for old new = Some ''CALL_ENDED'' \<longleftrightarrow> old \<notin> set TERMINAL \<and> new \<in> set TERMINAL"
  unfolding business_event_for_def TERMINAL_def by (cases new; simp)

lemma apply_provider_event_end:
  fixes a :: call_aggregate and ty :: string
  assumes "cg_pending a = []"
  defines "b \<equiv> apply_provider_event ty a"
  shows "cg_state a \<in> set TERMINAL \<Longrightarrow> b = a"
    and "cg_state a \<notin> set TERMINAL \<Longrightarrow> cg_state b \<in> set TERMINAL \<longleftrightarrow> cg_state b \<in> set FINAL_STATES"
    and "length (filter (\<lambda>d. cde_type d = ''CALL_ENDED'') (cg_pending b)) =
      of_bool (cg_state a \<notin> set TERMINAL \<and> cg_state b \<in> set TERMINAL)"
proof -
  show "cg_state a \<in> set TERMINAL \<Longrightarrow> b = a"
    by (auto simp: b_def apply_provider_event_def split: option.split)
  show "cg_state a \<notin> set TERMINAL \<Longrightarrow> cg_state b \<in> set TERMINAL \<longleftrightarrow> cg_state b \<in> set FINAL_STATES"
    using provider_target_final [of ty] final_terminal
    by (auto simp: b_def apply_provider_event_def call_emit_def Let_def split: option.split)
  show "length (filter (\<lambda>d. cde_type d = ''CALL_ENDED'') (cg_pending b)) =
      of_bool (cg_state a \<notin> set TERMINAL \<and> cg_state b \<in> set TERMINAL)"
  proof (cases "provider_target_state ty")
    case (Some t)
    show ?thesis
    proof (cases "cg_state a \<in> set TERMINAL \<or> t = cg_state a")
      case True
      then show ?thesis by (auto simp: b_def apply_provider_event_def Some assms(1))
    next
      case False
      then have b: "b = (case business_event_for (cg_state a) t of None \<Rightarrow> a\<lparr>cg_state := t\<rparr>
        | Some be \<Rightarrow> call_emit be [(''from'', PStr (call_state_value (cg_state a))), (''to'', PStr (call_state_value t))] (a\<lparr>cg_state := t\<rparr>))"
        by (simp add: b_def apply_provider_event_def Some Let_def)
      then have "cg_state b = t" by (simp add: call_emit_def split: option.split)
      moreover have "map cde_type (cg_pending b) = (case business_event_for (cg_state a) t of None \<Rightarrow> [] | Some be \<Rightarrow> [be])"
        using b assms(1) by (simp add: call_emit_def split: option.split)
      then have "length (filter (\<lambda>d. cde_type d = ''CALL_ENDED'') (cg_pending b)) =
          of_bool (business_event_for (cg_state a) t = Some ''CALL_ENDED'')"
        by (auto split: option.splits)
      ultimately show ?thesis by (simp only: business_event_end)
    qed
  qed (simp add: b_def apply_provider_event_def assms(1))
qed

lemma publish_call_event_Inr:
  assumes "publish_call_event env c de db = Inr db'" "inj us" "tn_uuid env = us"
  shows "td_calls db' = td_calls db" "td_next db' = td_next db"
    "ended_rows us i (el_rows (td_log db')) = ended_rows us i (el_rows (td_log db)) + of_bool (i = c \<and> cde_type de = ''CALL_ENDED'')"
proof -
  obtain seq db1 where lg: "log_event env ''call'' c (cde_type de) (cde_payload de) None db = Inr (seq, db1)"
    and au: "call_part db' = call_part db1"
    using assms(1) by (auto simp: publish_call_event_def bind_res_Inr dest: call_part_audit)
  obtain row where "db1 = db\<lparr>td_log := \<lparr>el_rows = el_rows (td_log db) @ [row], el_next_seq = Suc (el_next_seq (td_log db))\<rparr>\<rparr>"
    "de_aggregate_type row = ''call''" "de_aggregate_id row = tn_uuid env c" "de_event_type row = cde_type de"
    using log_event_Inr [OF lg] by metis
  then show "td_calls db' = td_calls db" "td_next db' = td_next db"
    "ended_rows us i (el_rows (td_log db')) = ended_rows us i (el_rows (td_log db)) + of_bool (i = c \<and> cde_type de = ''CALL_ENDED'')"
    using au assms(2,3) ended_rows_snoc [of us row c i] by (auto simp: call_part_def)
qed

lemma publish_all_Inr:
  assumes "inj us" "tn_uuid env = us"
  shows "fold_res (publish_call_event env c) des db = Inr db' \<Longrightarrow>
    td_calls db' = td_calls db \<and> td_next db' = td_next db \<and>
    ended_rows us i (el_rows (td_log db')) =
      ended_rows us i (el_rows (td_log db)) + (if i = c then length (filter (\<lambda>d. cde_type d = ''CALL_ENDED'') des) else 0)"
proof (induction des arbitrary: db)
  case (Cons de des)
  then obtain u where "publish_call_event env c de db = Inr u" and "fold_res (publish_call_event env c) des u = Inr db'"
    by (auto simp: bind_res_Inr)
  then show ?case
    using Cons.IH [of u] publish_call_event_Inr [OF _ assms, where c = c and de = de and db = db and db' = u] by auto
qed simp

lemma call_at_Some: "call_at c db = Some r \<Longrightarrow> r \<in> set (td_calls db) \<and> call_id r = c"
  by (auto simp: call_at_def dest: find_first_Some)

lemma resolve_call_contact_calls:
  assumes "distinct (map call_id (td_calls db))" "call \<in> set (td_calls db)"
  shows "\<exists>x p. call_part (resolve_call_contact env (call_id call) e db) =
    call_part (set_call (call\<lparr>call_caller := x, call_priority := p\<rparr>) db)"
proof -
  have at: "call_at (call_id call) db = Some call"
    using assms unfolding call_at_def by (intro find_first_key)
  have same: "call_part (set_call (call\<lparr>call_caller := call_caller call, call_priority := call_priority call\<rparr>) db) = call_part db"
    using assms by (auto simp: call_part_def set_call_def map_idI distinct_map inj_on_def intro!: map_idI)
  define m where "m = resolve_caller (td_book db) (tn_mono env) (the (non_empty (get_str e ''calling_number''))) (td_cache db)"
  have "resolve_call_contact env (call_id call) e db =
      (if call_caller call \<noteq> None \<or> non_empty (get_str e ''calling_number'') = None \<or> call_direction call \<noteq> Inbound then db
       else if cm_matched (fst m)
       then set_call (call\<lparr>call_caller := cm_contact (fst m), call_priority := cm_priority (fst m)\<rparr>) (db\<lparr>td_cache := snd m\<rparr>)
       else db\<lparr>td_cache := snd m\<rparr>)"
    unfolding resolve_call_contact_def at m_def
    by (cases "non_empty (get_str e ''calling_number'')") (simp_all add: Let_def split: prod.split)
  moreover have "call_part (db\<lparr>td_cache := z\<rparr>) = call_part db" "call_part (set_call r (db\<lparr>td_cache := z\<rparr>)) = call_part (set_call r db)" for z r
    by (simp_all add: call_part_def set_call_def)
  ultimately show ?thesis using same by metis
qed

lemma move_call_facts:
  assumes "call_ended call \<noteq> None \<longleftrightarrow> call_state call \<in> set TERMINAL" "call_state call \<in> set TERMINAL \<Longrightarrow> st = call_state call"
  shows "call_id (move_call now st call) = call_id call" "call_provider (move_call now st call) = call_provider call"
    "call_source (move_call now st call) = call_source call" "call_state (move_call now st call) = st"
    "call_ended (move_call now st call) \<noteq> None \<longleftrightarrow> st \<in> set TERMINAL"
  using assms by (auto simp: move_call_def Let_def)

lemma set_call_twice:
  "call_id a = call_id b \<Longrightarrow> call_part (set_call a (set_call b db)) = call_part (set_call a db)"
  by (auto simp: set_call_def call_part_def)

lemma set_call_part_cong: "call_part db = call_part db' \<Longrightarrow> call_part (set_call a db) = call_part (set_call a db')"
  by (simp add: set_call_def call_part_def)

lemma provider_event_on_inv:
  assumes inv: "call_inv us db" and call: "call \<in> set (td_calls db)" and us: "inj us" "tn_uuid env = us"
    and run: "provider_event_on env e source call db = Inr db'"
  shows "call_inv us db'"
proof -
  define a where "a = \<lparr>cg_bbz = call_bbz call, cg_direction = call_direction call, cg_state = call_state call,
    cg_source = Some source, cg_line = map_option (tn_uuid env) (call_line call), cg_pending = []\<rparr>"
  define b where "b = apply_provider_event (req_str e ''event_type'') a"
  define moved where "moved = move_call (tn_now env) (cg_state b) call"
  define db3 where "db3 = record_participants (call_id call) e (set_call moved db)"
  have agg: "cg_pending a = []" "cg_state a = call_state call" by (simp_all add: a_def)
  note ends = apply_provider_event_end [OF agg(1), of "req_str e ''event_type''", folded b_def, unfolded agg(2)]
  have consistent: "call_ended call \<noteq> None \<longleftrightarrow> call_state call \<in> set TERMINAL" and dist: "distinct (map call_id (td_calls db))"
    using inv call by (auto simp: call_inv_def)
  note mv = move_call_facts [OF consistent, of "cg_state b" "tn_now env", folded moved_def]
  have keep: "call_state call \<in> set TERMINAL \<Longrightarrow> cg_state b = call_state call" using ends(1) agg(2) by simp
  note mv = mv [OF keep]
  have part3: "call_part db3 = call_part (set_call moved db)" by (simp add: db3_def)
  then have calls3: "td_calls db3 = map (\<lambda>r. if call_id r = call_id call then moved else r) (td_calls db)"
    using mv(1) by (simp add: call_part_def set_call_def)
  have "map call_id (td_calls db3) = map call_id (td_calls db)" by (auto simp: calls3 mv(1))
  with dist have "distinct (map call_id (td_calls db3))" by (simp only:)
  moreover have "moved \<in> set (td_calls db3)"
    using call by (auto simp: calls3)
  ultimately obtain x p where part4: "call_part (resolve_call_contact env (call_id call) e db3) =
      call_part (set_call (moved\<lparr>call_caller := x, call_priority := p\<rparr>) db3)"
    using resolve_call_contact_calls [of db3 moved env e] by (auto simp: mv(1))
  let ?new = "moved\<lparr>call_caller := x, call_priority := p\<rparr>"
  have part: "call_part (resolve_call_contact env (call_id call) e db3) = call_part (set_call ?new db)"
    unfolding part4 set_call_part_cong [OF part3] by (rule set_call_twice) simp
  have fold: "fold_res (publish_call_event env (call_id call)) (cg_pending b) (resolve_call_contact env (call_id call) e db3) = Inr db'"
    using run by (simp add: provider_event_on_def a_def b_def moved_def db3_def collect_call_events_def Let_def)
  note pub = publish_all_Inr [OF us fold]
  have final: "call_final ?new \<longleftrightarrow> cg_state b \<in> set FINAL_STATES" by (simp add: call_final_def mv(4))
  have becomes: "call_state call \<notin> set TERMINAL \<and> cg_state b \<in> set TERMINAL \<longleftrightarrow> call_final ?new \<and> \<not> call_final call"
  proof (cases "call_state call \<in> set TERMINAL")
    case True
    then show ?thesis using keep final by (simp add: call_final_def)
  next
    case False
    then show ?thesis using ends(2) final final_terminal by (auto simp: call_final_def)
  qed
  show ?thesis
  proof (rule call_inv_update [OF inv call, of ?new])
    show "td_calls db' = map (\<lambda>r. if call_id r = call_id call then ?new else r) (td_calls db)" "td_next db' = td_next db"
      using pub part mv(1) by (auto simp: call_part_def set_call_def)
    show "ended_rows us i (el_rows (td_log db')) =
        ended_rows us i (el_rows (td_log db)) + of_bool (i = call_id call \<and> call_final ?new \<and> \<not> call_final call)" for i
      using pub [of i] part unfolding ends(3) becomes by (auto simp: call_part_def set_call_def)
    show "call_final call \<Longrightarrow> call_final ?new"
      using keep final_terminal unfolding final by (auto simp: call_final_def)
  qed (use mv in simp_all)
qed

lemma find_or_create_inv:
  assumes inv: "call_inv us db" and run: "find_or_create_call env source e db = Inr (call, db1)"
  shows "call_inv us db1 \<and> call \<in> set (td_calls db1)"
proof (cases "filter (\<lambda>r. call_provider r = req_str e ''provider'' \<and> call_source r = Some source) (td_calls db)")
  case Nil
  then have none: "(req_str e ''provider'', Some source) \<notin> (\<lambda>r. (call_provider r, call_source r)) ` set (td_calls db)"
    by (auto simp: filter_empty_conv)
  have new: "db1 = db\<lparr>td_calls := td_calls db @ [call], td_next := Suc (td_next db)\<rparr>" "call_id call = td_next db"
    "call_provider call = req_str e ''provider''" "call_source call = Some source" "call_state call = Offered" "call_ended call = None"
    using run Nil by (simp_all add: find_or_create_call_def Let_def split: if_splits) auto
  have "call_final call = False" by (simp add: call_final_def new FINAL_STATES_def)
  with inv none show ?thesis
    unfolding call_inv_def new(1) by (auto simp: new(2-) TERMINAL_def less_Suc_eq)
next
  case (Cons row rows)
  then have "rows = [] \<and> call = row \<and> db1 = db"
    using run by (cases rows) (simp_all add: find_or_create_call_def)
  moreover have "row \<in> set (td_calls db)"
    using arg_cong [OF Cons, of set] by auto
  ultimately show ?thesis using inv by simp
qed

lemma on_provider_event_inv:
  assumes "call_inv us db" "inj us" "tn_uuid env = us" "on_provider_event env e db = Inr db'"
  shows "call_inv us db'"
  using assms find_or_create_inv [OF assms(1), of env _ e] provider_event_on_inv [OF _ _ assms(2,3)]
  by (fastforce simp: on_provider_event_def bind_res_Inr split: option.splits)

lemma other_row_inv:
  assumes "call_inv us db" "td_calls db' = td_calls db" "td_next db \<le> td_next db'"
    and "\<And>i. ended_rows us i (el_rows (td_log db')) = ended_rows us i (el_rows (td_log db))"
  shows "call_inv us db'"
  using assms unfolding call_inv_def by fastforce

lemma log_other_inv:
  assumes inv: "call_inv us db" and us: "inj us" "tn_uuid env = us" and run: "log_event env aggregate i ty payload user db = Inr (seq, db')"
    and other: "aggregate \<noteq> ''call'' \<or> ty \<noteq> ''CALL_ENDED''"
  shows "call_inv us db'" "td_calls db' = td_calls db"
proof -
  obtain row where row: "db' = db\<lparr>td_log := \<lparr>el_rows = el_rows (td_log db) @ [row], el_next_seq = Suc (el_next_seq (td_log db))\<rparr>\<rparr>"
    "de_aggregate_type row = aggregate" "de_aggregate_id row = tn_uuid env i" "de_event_type row = ty"
    by (rule log_event_Inr [OF run])
  show "td_calls db' = td_calls db" by (simp add: row(1))
  show "call_inv us db'"
    by (rule other_row_inv [OF inv])
      (use row us other in \<open>auto simp: ended_rows_snoc [OF us(1), of row i]\<close>)
qed

lemma on_line_event_inv:
  assumes inv: "call_inv us db" and us: "inj us" "tn_uuid env = us" and run: "on_line_event env e db = Inr db'"
  shows "call_inv us db'"
proof -
  have step: "call_inv us db'" if "log_event env ''line'' i ty payload None d = Inr (seq, db')" "td_calls d = td_calls db"
      "td_next db \<le> td_next d" "td_log d = td_log db" for i ty payload d seq
    using log_other_inv(1) [OF other_row_inv [OF inv that(2,3)] us that(1)] that(4) by simp
  show ?thesis
    using run inv
    by (auto simp: on_line_event_def Let_def bind_res_Inr simp del: find_first_None
        split: option.splits if_splits intro: step)
qed

lemma ingest_telephony_inv:
  assumes inv: "call_inv us db" and us: "inj us" "tn_uuid env = us" and run: "ingest_telephony_event env e db = Inr (r, db')"
  shows "call_inv us db'"
proof -
  have inv1: "call_inv us (db\<lparr>td_inbox := rows\<rparr>)" for rows
    using inv call_inv_part [of "db\<lparr>td_inbox := rows\<rparr>" db us] by simp
  consider rows where "db' = db\<lparr>td_inbox := rows\<rparr>"
    | rows d1 d2 where "on_provider_event env e (db\<lparr>td_inbox := rows\<rparr>) = Inr d1" "on_line_event env e d1 = Inr d2"
      "call_part db' = call_part d2"
    using run
    by (auto simp: ingest_telephony_event_def call_dispatch_def Let_def bind_res_Inr split: if_splits prod.splits sum.splits dest: call_part_queue)
  then show ?thesis
    using inv1 on_provider_event_inv [OF inv1 us] on_line_event_inv [OF _ us] call_inv_part by cases metis+
qed

lemma ended_stamp: "(case call_ended c of None \<Rightarrow> Some t | Some u \<Rightarrow> Some u) \<noteq> None"
  by (simp split: option.split)

lemma finalize_ended_inv:
  assumes inv: "call_inv us db" and us: "inj us" "tn_uuid env = us" and call: "call \<in> set (td_calls db)"
    and run: "finalize_ended env actor call db = Inr db'"
  shows "call_inv us db'"
proof (cases "call_state call \<in> set FINAL_STATES")
  case True
  with run inv show ?thesis by (simp add: finalize_ended_def)
next
  case False
  define call' where "call' = call\<lparr>call_state := Disconnected,
    call_ended := (case call_ended call of None \<Rightarrow> Some (tn_now env) | Some t \<Rightarrow> Some t)\<rparr>"
  obtain payload seq d where lg: "log_event env ''call'' (call_id call) ''CALL_ENDED'' payload actor (set_call call' db) = Inr (seq, d)"
    and au: "call_part db' = call_part d"
    using run False by (auto simp: finalize_ended_def call'_def Let_def bind_res_Inr dest: call_part_audit)
  obtain row where row: "d = (set_call call' db)\<lparr>td_log := \<lparr>el_rows = el_rows (td_log (set_call call' db)) @ [row],
      el_next_seq = Suc (el_next_seq (td_log (set_call call' db)))\<rparr>\<rparr>"
    "de_aggregate_type row = ''call''" "de_aggregate_id row = tn_uuid env (call_id call)" "de_event_type row = ''CALL_ENDED''"
    by (rule log_event_Inr [OF lg])
  have final: "call_final call'" "\<not> call_final call" using False by (simp_all add: call_final_def call'_def FINAL_STATES_def)
  show ?thesis
  proof (rule call_inv_update [OF inv call, of call'])
    show "td_calls db' = map (\<lambda>r. if call_id r = call_id call then call' else r) (td_calls db)" "td_next db' = td_next db"
      using au by (simp_all add: call_part_def row(1) set_call_def call'_def)
    show "ended_rows us i (el_rows (td_log db')) =
        ended_rows us i (el_rows (td_log db)) + of_bool (i = call_id call \<and> call_final call' \<and> \<not> call_final call)" for i
      using au final row us by (simp add: call_part_def set_call_def ended_rows_snoc [OF us(1), of row "call_id call"])
    show "call_ended call' \<noteq> None \<longleftrightarrow> call_state call' \<in> set TERMINAL"
      by (simp add: call'_def TERMINAL_def split: option.split)
  qed (use final in \<open>simp_all add: call'_def\<close>)
qed

lemma pending_inv:
  assumes inv: "call_inv us db" and call: "call \<in> set (td_calls db)" and live: "\<not> call_final call"
  shows "call_inv us (set_call (call\<lparr>call_state := EndedPendingDocumentation,
    call_ended := (case call_ended call of None \<Rightarrow> Some t | Some u \<Rightarrow> Some u)\<rparr>) db)"
proof -
  define call' where "call' = call\<lparr>call_state := EndedPendingDocumentation,
    call_ended := (case call_ended call of None \<Rightarrow> Some t | Some u \<Rightarrow> Some u)\<rparr>"
  have "call_inv us (set_call call' db)"
  proof (rule call_inv_update [OF inv call, of call'])
    show "ended_rows us i (el_rows (td_log (set_call call' db))) =
        ended_rows us i (el_rows (td_log db)) + of_bool (i = call_id call \<and> call_final call' \<and> \<not> call_final call)" for i
      by (simp add: set_call_def call_final_def call'_def FINAL_STATES_def)
    show "call_ended call' \<noteq> None \<longleftrightarrow> call_state call' \<in> set TERMINAL"
      by (simp add: call'_def TERMINAL_def split: option.split)
  qed (use live in \<open>simp_all add: set_call_def call'_def\<close>)
  then show ?thesis by (simp add: call'_def)
qed

lemma hangup_guard_inv:
  assumes "call_inv us db" "inj us" "tn_uuid env = us" "call \<in> set (td_calls db)" "\<not> call_final call"
    "hangup_guard env actor call db = Inr (note, db')"
  shows "call_inv us db'"
  using assms pending_inv [OF assms(1,4,5)] finalize_ended_inv [OF assms(1-4)]
  by (auto simp: hangup_guard_def bind_res_Inr split: if_splits)

text \<open>The last transaction of a control action without a guard of its own writes the audit row; that of \<^verbatim>\<open>hangup\<close> runs the guard.\<close>

lemma control_inv:
  assumes inv: "call_inv us db" and run: "control_tx env actor ack c action bbz None db = Inr (out, db')"
  shows "call_inv us db'"
proof -
  have "call_part db' = call_part db"
    using run by (auto simp: control_tx_def bind_res_Inr split: option.splits dest: call_part_audit)
  then show ?thesis using inv call_inv_part by metis
qed

lemma hangup_inv:
  assumes inv: "call_inv us db" and us: "inj us" "tn_uuid env = us" and at: "call_at c db = Some call" and live: "\<not> call_final call"
    and run: "control_tx env actor ack c action bbz (Some (hangup_guard env actor)) db = Inr (out, db')"
  shows "call_inv us db'"
proof -
  have call: "call \<in> set (td_calls db)" using call_at_Some [OF at] by simp
  obtain nt d where "hangup_guard env actor call db = Inr (nt, d)" "call_part db' = call_part d"
    using run at by (fastforce simp: control_tx_def bind_res_Inr dest: call_part_audit)
  then show ?thesis using hangup_guard_inv [OF inv us call live] call_inv_part by metis
qed

lemma documentation_inv:
  assumes inv: "call_inv us db" and us: "inj us" "tn_uuid env = us"
    and run: "put_documentation env actor c category text db = Inr (doc, db')"
  shows "call_inv us db'"
proof -
  have docs: "call_inv us (db\<lparr>td_docs := ds\<rparr>)" for ds
    using inv call_inv_part [of "db\<lparr>td_docs := ds\<rparr>" db us] by (simp add: call_part_def)
  consider ds where "db' = db\<lparr>td_docs := ds\<rparr>"
    | ds i payload user seq d1 d2 call where
        "log_event env ''call'' i ''CALL_DOCUMENTED'' payload user (db\<lparr>td_docs := ds\<rparr>) = Inr (seq, d1)" "call_part d2 = call_part d1"
        "call \<in> set (td_calls db)" "finalize_ended env (Some actor) call d2 = Inr db' \<or> db' = d2"
    using run unfolding put_documentation_def Let_def
    by (fastforce simp: bind_res_Inr split: option.splits if_splits dest: call_part_audit call_at_Some)
  then show ?thesis
  proof cases
    case 1
    then show ?thesis using docs by simp
  next
    case 2
    then have "call_inv us d1" "td_calls d1 = td_calls db"
      using log_other_inv [OF docs us 2(1)] by simp_all
    then have "call_inv us d2" "call \<in> set (td_calls d2)"
      using 2(2,3) call_inv_part [OF 2(2), of us] by (simp_all add: call_part_def)
    then show ?thesis using 2(4) finalize_ended_inv [OF _ us] by blast
  qed
qed

section \<open>Histories\<close>

text \<open>One transaction of the system: an event from a provider, the last transaction of a control action, that of a hang-up of a call that is
  not yet final, a saved documentation. The environment (clocks, identities) may differ at each, the text of a UUID may not.\<close>

inductive tel_step :: "(uuid \<Rightarrow> string) \<Rightarrow> tel_db \<Rightarrow> tel_db \<Rightarrow> bool" for us where
  ingested: "tn_uuid env = us \<Longrightarrow> ingest_telephony_event env e db = Inr (r, db') \<Longrightarrow> tel_step us db db'"
| controlled: "tn_uuid env = us \<Longrightarrow> control_tx env actor ack c action bbz None db = Inr (out, db') \<Longrightarrow> tel_step us db db'"
| hung_up: "tn_uuid env = us \<Longrightarrow> call_at c db = Some call \<Longrightarrow> \<not> call_final call \<Longrightarrow>
    control_tx env actor ack c action bbz (Some (hangup_guard env actor)) db = Inr (out, db') \<Longrightarrow> tel_step us db db'"
| documented: "tn_uuid env = us \<Longrightarrow> put_documentation env user c category text db = Inr (doc, db') \<Longrightarrow> tel_step us db db'"

text \<open>A whole control action, failed or not, is a sequence of such transactions; so is a hang-up of a call that is not yet final.\<close>

lemma drain_steps: "tn_uuid env = us \<Longrightarrow> drain_events env es db = (r, db') \<Longrightarrow> (tel_step us)\<^sup>*\<^sup>* db db'"
proof (induction es arbitrary: db)
  case (Cons e es)
  show ?case
  proof (cases "ingest_telephony_event env e db")
    case (Inr p)
    then have "tel_step us db (snd p)" using tel_step.ingested [OF Cons.prems(1)] by (metis prod.collapse)
    moreover have "(tel_step us)\<^sup>*\<^sup>* (snd p) db'" using Cons Inr by (simp add: split_beta)
    ultimately show ?thesis by (rule converse_rtranclp_into_rtranclp)
  qed (use Cons.prems(2) in simp)
qed simp

lemma control_steps:
  assumes us: "tn_uuid env = us" and run: "call_control env actor provider c action None db = (r, db')"
  shows "(tel_step us)\<^sup>*\<^sup>* db db'"
proof -
  consider "db' = db" | ack x bbz d where "drain_events env (pa_events ack) db = (x, d) \<or> d = db"
      "db' = d \<or> (\<exists>out. control_tx env actor ack c action bbz None d = Inr (out, db'))"
    using run by (fastforce simp: call_control_def Let_def split: option.splits if_splits sum.splits prod.splits)
  then show ?thesis
  proof cases
    case 2
    then have "(tel_step us)\<^sup>*\<^sup>* db d" using drain_steps [OF us] by blast
    then show ?thesis using 2(2) us by (auto intro: rtranclp.rtrancl_into_rtrancl tel_step.controlled)
  qed simp
qed

lemma hangup_steps:
  assumes us: "tn_uuid env = us" and run: "hangup_call env actor provider c db = (r, db')"
    and live: "call_at c db = Some call" "\<not> call_final call"
  shows "(tel_step us)\<^sup>*\<^sup>* db db'"
proof -
  consider "db' = db" | ack action bbz out where "control_tx env actor ack c action bbz (Some (hangup_guard env actor)) db = Inr (out, db')"
    using run by (fastforce simp: hangup_call_def call_control_def Let_def split: option.splits if_splits sum.splits prod.splits)
  then show ?thesis using tel_step.hung_up [OF us live] by cases blast+
qed

inductive tel_reach :: "(uuid \<Rightarrow> string) \<Rightarrow> tel_db \<Rightarrow> bool" for us where
  start: "td_calls db = [] \<Longrightarrow> el_rows (td_log db) = [] \<Longrightarrow> tel_reach us db"
| step: "tel_reach us db \<Longrightarrow> tel_step us db db' \<Longrightarrow> tel_reach us db'"

lemma tel_step_inv: "tel_step us db db' \<Longrightarrow> inj us \<Longrightarrow> call_inv us db \<Longrightarrow> call_inv us db'"
  by (induction rule: tel_step.induct)
    (auto intro: ingest_telephony_inv control_inv hangup_inv documentation_inv)

lemma tel_reach_inv: "tel_reach us db \<Longrightarrow> inj us \<Longrightarrow> call_inv us db"
proof (induction rule: tel_reach.induct)
  case (start db)
  then show ?case by (simp add: call_inv_def ended_rows_def)
qed (auto intro: tel_step_inv)

lemma publish_error:
  assumes "fold_res (publish_call_event env c) des db = Inl x"
  shows "(\<exists>y. x = TelLog y) \<or> (\<exists>y. x = TelAudit y)"
proof -
  have "\<exists>y. x = TelLog y" if "log_event env aggregate i ty payload user d = Inl x" for aggregate i ty payload user d
    using that by (auto simp: log_event_def split: sum.splits prod.splits)
  moreover have "\<exists>y. x = TelAudit y" if "audit_call env action actor target after seq d = Inl x" for action actor target after seq d
    using that by (auto simp: audit_call_def split: sum.splits)
  ultimately show ?thesis
    using fold_res_error [OF assms] by (fastforce simp: publish_call_event_def bind_res_Inl)
qed

lemma filter_key_le1: "distinct (map key xs) \<Longrightarrow> length (filter (\<lambda>x. key x = k) xs) \<le> 1"
proof (induction xs)
  case (Cons x xs)
  then show ?case by (cases "key x = k") (auto simp: filter_empty_conv image_iff)
qed simp

text \<open>C13. In every history of provider events, control actions, hang-ups of calls that are not final and documentations: the log
  says of a call that it ended once if the call is disconnected or failed, and never otherwise; \<^verbatim>\<open>ended_at\<close> is set exactly in
  the terminal states; and a provider's call id belongs to one call, so that the lookup of the next event never finds two.\<close>

theorem call_ends_once:
  assumes "inj us" "tel_reach us db" "tn_uuid env = us" "r \<in> set (td_calls db)"
  shows "ended_rows us (call_id r) (el_rows (td_log db)) = of_bool (call_state r \<in> {Disconnected, CallFailed}) \<and>
    (call_ended r \<noteq> None \<longleftrightarrow> call_state r \<in> set TERMINAL) \<and>
    on_provider_event env e db \<noteq> Inl (MultipleCallsFound source)"
proof -
  have inv: "call_inv us db" using assms(1,2) by (rule tel_reach_inv [rotated])
  have "find_or_create_call env s e db \<noteq> Inl (MultipleCallsFound source)" for s
  proof -
    have "length (filter (\<lambda>x. call_provider x = req_str e ''provider'' \<and> call_source x = Some s) (td_calls db)) \<le> 1"
      using filter_key_le1 [of "\<lambda>x. (call_provider x, call_source x)" "td_calls db" "(req_str e ''provider'', Some s)"] inv by (simp add: call_inv_def)
    then show ?thesis
      unfolding find_or_create_call_def Let_def by (auto split: list.split)
  qed
  moreover have "fold_res (publish_call_event env c) des d \<noteq> Inl (MultipleCallsFound source)" for c des d
    by (auto dest!: publish_error)
  ultimately have "on_provider_event env e db \<noteq> Inl (MultipleCallsFound source)"
    by (auto simp: on_provider_event_def provider_event_on_def Let_def bind_res_Inl split: option.split)
  then show ?thesis
    using inv assms(4) by (auto simp: call_inv_def call_final_def FINAL_STATES_def)
qed

section \<open>Concrete histories\<close>

definition sample_us :: "uuid \<Rightarrow> string" where
  "sample_us n = replicate n (CHR ''x'')"

lemma inj_sample_us: "inj sample_us"
  by (auto simp: inj_def sample_us_def)

definition sample_tel_env :: tel_env where
  "sample_tel_env = \<lparr>tn_events = \<lparr>ee_node = ''a'', ee_correlation = None, ee_now = 5, ee_secrets = [], ee_in_transaction = True\<rparr>,
     tn_audit = \<lparr>env_node = ''a'', env_correlation = None, env_now = 5, env_secrets = []\<rparr>,
     tn_validators = \<lparr>envelope_errors = (\<lambda>_. []), payload_errors = (\<lambda>_ _. Some (\<lambda>_. []))\<rparr>, tn_mono = 0, tn_mint = sample_us,
     tn_uuid = sample_us, tn_sha = (\<lambda>s. s), tn_float = (\<lambda>_. []), tn_date_time = (\<lambda>_. True)\<rparr>"

definition empty_tel_db :: tel_db where
  "empty_tel_db = \<lparr>td_calls = [], td_participants = [], td_docs = [], td_lines = [], td_endpoints = [], td_endpoint_numbers = [],
     td_inbox = [], td_log = \<lparr>el_rows = [], el_next_seq = 1\<rparr>, td_audit = \<lparr>audit_events = [], audit_next_seq = 1\<rparr>,
     td_book = \<lparr>pb_contacts = [], pb_numbers = [], pb_priorities = []\<rparr>, td_cache = [], td_next = 1\<rparr>"

definition sample_call_event :: "string \<Rightarrow> string \<Rightarrow> pydict" where
  "sample_call_event i ty = [(''telephony_event_id'', PStr i), (''provider'', PStr ''p''), (''event_type'', PStr ty), (''raw_event_type'', PStr ''r''),
     (''source_call_id'', PStr ''7''), (''occurred_at'', PStr ''t''), (''received_at'', PStr ''t''), (''gateway_node'', PStr ''g'')]"

definition sample_provider :: provider_call where
  "sample_provider = Some (\<lambda>_. \<lparr>pa_accepted = True, pa_detail = None, pa_mock = False, pa_events = []\<rparr>)"

definition feed_calls :: "(string \<times> string) list \<Rightarrow> tel_db \<Rightarrow> (tel_error, tel_db) res" where
  "feed_calls evs db = fold_res (\<lambda>(i, ty) d. bind_res (ingest_telephony_event sample_tel_env (sample_call_event i ty) d) (\<lambda>(_, d'). Inr d')) evs db"

definition call_view :: "(tel_error, tel_db) res \<Rightarrow> (call_state \<times> nat \<times> string list) list" where
  "call_view m = (case m of Inl _ \<Rightarrow> [] | Inr db \<Rightarrow>
     map (\<lambda>r. (call_state r, ended_rows sample_us (call_id r) (el_rows (td_log db)), map de_event_type (el_rows (td_log db)))) (td_calls db))"

text \<open>The caller hangs up first, the operator presses "hang up" afterwards and documents the call: the call, which had ended, is
  reopened as pending and ends a second time.\<close>

theorem remote_end_then_hangup_ends_twice:
  "call_view (bind_res (feed_calls [(''1'', ''CALL_RINGING''), (''2'', ''CALL_CONNECTED''), (''3'', ''CALL_DISCONNECTED'')] empty_tel_db) (\<lambda>d.
     bind_res (put_documentation sample_tel_env 9 1 (Some ''other'') None (snd (hangup_call sample_tel_env (Some 9) sample_provider 1 d)))
       (\<lambda>(_, d'). Inr d'))) =
   [(Disconnected, 2, [''CALL_RINGING'', ''CALL_ANSWERED'', ''CALL_ENDED'', ''CALL_DOCUMENTED'', ''CALL_ENDED''])]"
  by code_simp

text \<open>A ringing event that arrives after the answer puts the connected call back into the waiting state, and the next connect
  announces it as answered a second time.\<close>

theorem late_ringing_reopens_call:
  "call_view (feed_calls [(''1'', ''CALL_ANSWERED''), (''2'', ''CALL_RINGING''), (''3'', ''CALL_CONNECTED'')] empty_tel_db) =
     [(Connected, 0, [''CALL_ANSWERED'', ''CALL_ANSWERED''])]"
  by code_simp

text \<open>A call whose first event is its end.\<close>

definition ended_at_once :: "ingest_result \<times> tel_db" where
  "ended_at_once = ok_of (\<lparr>ig_outcome = IngestDuplicate, ig_inbox_id = 0, ig_dedupe = []\<rparr>, empty_tel_db)
     (ingest_telephony_event sample_tel_env (sample_call_event ''1'' ''CALL_DISCONNECTED'') empty_tel_db)"

lemma ended_at_once_reach: "tel_reach sample_us (snd ended_at_once)"
proof -
  have "is_ok (ingest_telephony_event sample_tel_env (sample_call_event ''1'' ''CALL_DISCONNECTED'') empty_tel_db)"
    by code_simp
  then have "ingest_telephony_event sample_tel_env (sample_call_event ''1'' ''CALL_DISCONNECTED'') empty_tel_db =
      Inr (fst ended_at_once, snd ended_at_once)"
    unfolding ended_at_once_def by (subst prod.collapse) (rule ok_of_Inr)
  moreover have "tn_uuid sample_tel_env = sample_us" by (simp add: sample_tel_env_def)
  moreover have "tel_reach sample_us empty_tel_db" by (rule tel_reach.start) (simp_all add: empty_tel_db_def)
  ultimately show ?thesis by (blast intro: tel_reach.step tel_step.ingested)
qed

theorem call_ends_once_witness:
  "map (\<lambda>r. (call_id r, call_state r)) (td_calls (snd ended_at_once)) = [(1, Disconnected)] \<and>
   ended_rows sample_us (call_id (hd (td_calls (snd ended_at_once)))) (el_rows (td_log (snd ended_at_once))) = 1"
proof -
  have calls: "map (\<lambda>r. (call_id r, call_state r)) (td_calls (snd ended_at_once)) = [(1, Disconnected)]" by code_simp
  then have "hd (td_calls (snd ended_at_once)) \<in> set (td_calls (snd ended_at_once))"
    "call_state (hd (td_calls (snd ended_at_once))) = Disconnected"
    by (cases "td_calls (snd ended_at_once)"; simp)+
  with call_ends_once [OF inj_sample_us ended_at_once_reach, of sample_tel_env "hd (td_calls (snd ended_at_once))" "[]" "[]"] calls
  show ?thesis by (simp add: sample_tel_env_def)
qed

section \<open>Ingestion happens once\<close>

lemma inbox_processed: "ib_dedupe ` set (mark_processed now i rows) = ib_dedupe ` set rows"
proof -
  have "map ib_dedupe (mark_processed now i rows) = map ib_dedupe rows"
    by (simp add: mark_processed_def)
  then show ?thesis by (metis image_set)
qed

lemma telephony_key_nonempty: "ingest_key sha float (telephony_request env e) = telephony_dedupe_key e"
  by (simp add: ingest_key_def telephony_request_def telephony_dedupe_key_def Let_def split: option.split)

lemma ingest_keeps_keys: "ingest sha float q rows = Inr (r, rows') \<Longrightarrow> ib_dedupe ` set rows' = insert (ingest_key sha float q) (ib_dedupe ` set rows)"
  using ingest_put(3) [of sha float q rows] inbox_store.put_keys [of sha float q rows] by (auto simp: ingest_def split: if_splits)

text \<open>The lifecycle of calls and lines does not touch the inbox.\<close>

lemma inbox_log: "log_event env aggregate i ty payload user db = Inr (seq, db') \<Longrightarrow> td_inbox db' = td_inbox db"
  by (erule log_event_Inr) simp

lemma inbox_audit: "audit_call env action actor target after seq db = Inr db' \<Longrightarrow> td_inbox db' = td_inbox db"
  by (auto simp: audit_call_def split: sum.splits)

lemma inbox_publish: "fold_res (publish_call_event env c) des db = Inr db' \<Longrightarrow> td_inbox db' = td_inbox db"
  by (erule fold_res_invariant [where P = "\<lambda>d. td_inbox d = td_inbox db"])
    (auto simp: publish_call_event_def bind_res_Inr dest!: inbox_log inbox_audit)

lemma inbox_participants [simp]: "td_inbox (record_participants c e db) = td_inbox db"
  by (simp add: record_participants_def Let_def)

lemma inbox_contact [simp]: "td_inbox (resolve_call_contact env c e db) = td_inbox db"
  by (auto simp: resolve_call_contact_def set_call_def Let_def split: option.split prod.split)

lemma inbox_find: "find_or_create_call env source e db = Inr (call, db') \<Longrightarrow> td_inbox db' = td_inbox db"
  by (auto simp: find_or_create_call_def Let_def split: list.splits if_splits)

lemma inbox_call_event: "on_provider_event env e db = Inr db' \<Longrightarrow> td_inbox db' = td_inbox db"
proof (cases "non_empty (get_str e ''source_call_id'')")
  case (Some source)
  assume "on_provider_event env e db = Inr db'"
  then obtain call db1 where new: "find_or_create_call env source e db = Inr (call, db1)" and "provider_event_on env e source call db1 = Inr db'"
    by (auto simp: on_provider_event_def Some bind_res_Inr)
  then obtain des db4 where "fold_res (publish_call_event env (call_id call)) des db4 = Inr db'" "td_inbox db4 = td_inbox db1"
    by (auto simp: provider_event_on_def Let_def set_call_def)
  then show ?thesis using inbox_find [OF new] inbox_publish by simp
qed (simp add: on_provider_event_def)

lemma inbox_line_event: "on_line_event env e db = Inr db' \<Longrightarrow> td_inbox db' = td_inbox db"
  by (auto simp: on_line_event_def Let_def bind_res_Inr simp del: find_first_None split: option.splits if_splits dest!: inbox_log)

lemma inbox_dispatch: "call_dispatch env e db = Inr db' \<Longrightarrow> td_inbox db' = td_inbox db"
  by (auto simp: call_dispatch_def bind_res_Inr dest!: inbox_call_event inbox_line_event)

lemma queue_keeps_keys:
  "queue_signal env raw db = Inr db' \<Longrightarrow> ib_dedupe ` set (td_inbox db) \<subseteq> ib_dedupe ` set (td_inbox db')"
  by (auto simp: queue_signal_def record_inbound_signal_def Let_def split: sum.splits option.splits prod.splits if_splits
      dest!: ingest_keeps_keys)

lemma ingest_event_keys:
  assumes "ingest_telephony_event env e db = Inr (r, db')"
  shows "insert (telephony_dedupe_key e) (ib_dedupe ` set (td_inbox db)) \<subseteq> ib_dedupe ` set (td_inbox db')"
proof -
  obtain res rows where i: "ingest (tn_sha env) (tn_float env) (telephony_request env e) (td_inbox db) = Inr (res, rows)"
    using assms by (auto simp: ingest_telephony_event_def split: if_splits sum.splits)
  consider "db' = db\<lparr>td_inbox := rows\<rparr>"
    | d2 where "call_dispatch env e (db\<lparr>td_inbox := rows\<rparr>) = Inr d2"
      "queue_signal env e (d2\<lparr>td_inbox := mark_processed (tn_now env) (ig_inbox_id res) (td_inbox d2)\<rparr>) = Inr db'"
    using assms by (auto simp: ingest_telephony_event_def i Let_def bind_res_Inr split: if_splits)
  then have "ib_dedupe ` set rows \<subseteq> ib_dedupe ` set (td_inbox db')"
  proof cases
    case 2
    then show ?thesis using inbox_dispatch [OF 2(1)] queue_keeps_keys [OF 2(2)] by (simp add: inbox_processed)
  qed simp
  then show ?thesis using ingest_keeps_keys [OF i] by (auto simp: telephony_key_nonempty)
qed

lemma inbox_finalize: "finalize_ended env actor call db = Inr db' \<Longrightarrow> td_inbox db' = td_inbox db"
  by (auto simp: finalize_ended_def set_call_def Let_def bind_res_Inr split: if_splits dest!: inbox_log inbox_audit)

lemma inbox_guard: "hangup_guard env actor call db = Inr (nt, db') \<Longrightarrow> td_inbox db' = td_inbox db"
  by (auto simp: hangup_guard_def set_call_def bind_res_Inr split: if_splits dest!: inbox_finalize)

lemma tel_step_keys: "tel_step us db db' \<Longrightarrow> ib_dedupe ` set (td_inbox db) \<subseteq> ib_dedupe ` set (td_inbox db')"
proof (induction rule: tel_step.induct)
  case (ingested env e db r db')
  then show ?case using ingest_event_keys by blast
next
  case (controlled env actor ack c action bbz db out db')
  then show ?case by (auto simp: control_tx_def bind_res_Inr split: option.splits dest!: inbox_audit)
next
  case (hung_up env c db call actor ack action bbz out db')
  then show ?case by (auto simp: control_tx_def bind_res_Inr dest!: inbox_audit inbox_guard)
next
  case (documented env user c category body db doc db')
  then show ?case
    by (auto simp: put_documentation_def Let_def bind_res_Inr split: option.splits if_splits dest!: inbox_log inbox_audit inbox_finalize)
qed

text \<open>C18. Once an event is in, every later event with its key (for a call: the same provider, call and type) is answered as a
  duplicate and changes nothing, however much happened in between: a replayed backlog, or the same event seen by both nodes,
  is processed once. A repetition that does not fit the columns of the inbox is refused instead.\<close>

theorem ingest_exactly_once:
  assumes "ingest_telephony_event env e db = Inr (r, db1)" "(tel_step us)\<^sup>*\<^sup>* db1 db2"
    "telephony_event_valid (tn_date_time env') e'" "telephony_dedupe_key e' = telephony_dedupe_key e"
  shows "if inbox_fits (tn_sha env') (tn_float env') (telephony_request env' e')
    then \<exists>r'. ingest_telephony_event env' e' db2 = Inr (r', db2) \<and> ig_outcome r' = IngestDuplicate
    else ingest_telephony_event env' e' db2 = Inl InboxRefused"
proof -
  let ?in = "ingest_fitting (tn_sha env') (tn_float env') (telephony_request env' e') (td_inbox db2)"
  have "ib_dedupe ` set (td_inbox db1) \<subseteq> ib_dedupe ` set (td_inbox db2)"
    using assms(2) by induction (auto dest!: tel_step_keys)
  then have "telephony_dedupe_key e' \<in> ib_dedupe ` set (td_inbox db2)"
    using ingest_event_keys [OF assms(1)] assms(4) by auto
  then have "inbox_put (tn_sha env') (tn_float env') (telephony_request env' e') (td_inbox db2) = (False, td_inbox db2)"
    by (simp add: inbox_put_def telephony_key_nonempty)
  then have "ig_outcome (fst ?in) = IngestDuplicate" "snd ?in = td_inbox db2"
    using ingest_put(2,3) [of "tn_sha env'" "tn_float env'" "telephony_request env' e'" "td_inbox db2"]
    by (simp_all add: ingest_outcome.exhaust) (metis ingest_outcome.exhaust)
  then obtain r' where "?in = (r', td_inbox db2)" "ig_outcome r' = IngestDuplicate"
    by (metis prod.collapse)
  then show ?thesis
    using assms(3) by (simp add: ingest_telephony_event_def ingest_def)
qed

theorem ingest_exactly_once_witness:
  "\<exists>r'. ingest_telephony_event sample_tel_env (sample_call_event ''2'' ''CALL_DISCONNECTED'') (snd ended_at_once) = Inr (r', snd ended_at_once) \<and>
     ig_outcome r' = IngestDuplicate"
proof -
  let ?e1 = "sample_call_event ''1'' ''CALL_DISCONNECTED''" and ?e2 = "sample_call_event ''2'' ''CALL_DISCONNECTED''"
  have "is_ok (ingest_telephony_event sample_tel_env ?e1 empty_tel_db)" by code_simp
  then have 1: "ingest_telephony_event sample_tel_env ?e1 empty_tel_db = Inr (fst ended_at_once, snd ended_at_once)"
    unfolding ended_at_once_def by (subst prod.collapse) (rule ok_of_Inr)
  have 2: "telephony_event_valid (tn_date_time sample_tel_env) ?e2" by code_simp
  have 3: "telephony_dedupe_key ?e2 = telephony_dedupe_key ?e1" by code_simp
  have "inbox_fits (tn_sha sample_tel_env) (tn_float sample_tel_env) (telephony_request sample_tel_env ?e2)" by code_simp
  then show ?thesis using ingest_exactly_once [OF 1 rtranclp.rtrancl_refl 2 3] by (simp only: if_True)
qed

text \<open>The same rule drops an event that is not a repetition: a call that is put on hold, resumed and put on hold again stays
  "connected", as the second hold has the key of the first.\<close>

theorem second_hold_dropped:
  "call_view (feed_calls [(''1'', ''CALL_CONNECTED''), (''2'', ''CALL_HELD''), (''3'', ''CALL_RESUMED''), (''4'', ''CALL_HELD'')] empty_tel_db) =
     [(Connected, 0, [''CALL_ANSWERED''])]"
  by code_simp

section \<open>What makes ingestion fail\<close>

lemma doorbell_valid:
  assumes sig: "from_telephony_event date_time raw = Inr (Some sig)"
  shows "validate_inbound_signal date_time sig"
    and "validate_inbound_signal date_time (dict_set ''source'' (PDict (dict_set ''technical_endpoint_id'' (PStr x) (get_dict sig ''source'')))
      (dict_set ''signal_type'' (PStr ''DOORBELL_RINGING'') sig))"
proof -
  show valid: "validate_inbound_signal date_time sig"
    using sig by (auto simp: from_telephony_event_def Let_def split: option.splits if_splits)
  obtain st p oc r g c a d s ct te dir where shape: "sig = [(''signal_type'', st), (''provider'', p), (''occurred_at'', oc), (''received_at'', r),
      (''gateway_node'', g), (''correlation_id'', c), (''source'', PDict [(''ani'', a), (''dnis'', d), (''source_call_id'', s),
        (''cti_route_point'', ct), (''technical_endpoint_id'', te), (''direction'', dir)])]"
    using sig by (auto simp: from_telephony_event_def Let_def split: option.splits if_splits)
  let ?src = "[(''ani'', a), (''dnis'', d), (''source_call_id'', s), (''cti_route_point'', ct), (''technical_endpoint_id'', te), (''direction'', dir)]"
  have "source_valid ?src" using valid by (simp add: shape validate_inbound_signal_def dict_get_def)
  then have "source_valid (dict_set ''technical_endpoint_id'' (PStr x) ?src)"
    by (simp add: source_valid_def SOURCE_TEXT_FIELDS_def dict_get_def str_or_null_def is_str_def)
  with valid show "validate_inbound_signal date_time (dict_set ''source'' (PDict (dict_set ''technical_endpoint_id'' (PStr x) (get_dict sig ''source'')))
      (dict_set ''signal_type'' (PStr ''DOORBELL_RINGING'') sig))"
    by (simp add: shape validate_inbound_signal_def get_dict_def dict_get_def get_str_def filled_def dated_def SIGNAL_TYPES_def)
qed

text \<open>What the row of the signal needs: its key is that of the event with \<^verbatim>\<open>signal:\<close> before it.\<close>

definition signal_fits :: "tel_env \<Rightarrow> pydict \<Rightarrow> bool" where
  "signal_fits env raw \<longleftrightarrow> length (req_str raw ''provider'') \<le> 64 \<and> fits_in 200 (get_str raw ''telephony_event_id'') \<and>
     length (telephony_dedupe_key raw) \<le> 193 \<and> fits_in 64 (env_correlation (tn_audit env))"

lemma dict_get_set: "dict_get (dict_set k v d) k' = (if k = k' then v else dict_get d k')"
  by (induction d) (auto simp: dict_get_def)

lemma signal_provider:
  assumes "from_telephony_event date_time raw = Inr (Some sig)" "resolve_doorbell env db sig = Inr sig'"
  shows "req_str sig' ''provider'' = req_str raw ''provider''"
proof -
  obtain st rest where "sig = (''signal_type'', st) # (''provider'', dict_get raw ''provider'') # rest"
    using assms(1) unfolding from_telephony_event_def Let_def by (auto split: option.splits if_splits)
  then have "dict_get sig ''provider'' = dict_get raw ''provider''" by (simp add: dict_get_def)
  moreover have "dict_get sig' ''provider'' = dict_get sig ''provider''"
    using assms(2) unfolding resolve_doorbell_def Let_def by (auto simp: dict_get_set split: option.splits if_splits)
  ultimately show ?thesis by (simp add: req_str_def get_str_def)
qed

lemma queue_signal_ok:
  "is_ok (queue_signal env raw db) \<longleftrightarrow>
     (case from_telephony_event (tn_date_time env) raw of Inr (Some _) \<Rightarrow> signal_fits env raw | _ \<Rightarrow> True)"
  "queue_signal env raw db = Inl err \<Longrightarrow> err = InboxRefused"
proof -
  have "(if is_ok (queue_signal env raw db) then P else queue_signal env raw db = Inl InboxRefused \<and> \<not> P)"
    if "P = (case from_telephony_event (tn_date_time env) raw of Inr (Some _) \<Rightarrow> signal_fits env raw | _ \<Rightarrow> True)" for P
  proof (cases "from_telephony_event (tn_date_time env) raw")
    case (Inr s)
    show ?thesis
    proof (cases s)
      case (Some sig)
      note ok = doorbell_valid [OF Inr [unfolded Some]]
      have "case resolve_doorbell env db sig of Inl _ \<Rightarrow> False | Inr s \<Rightarrow> validate_inbound_signal (tn_date_time env) s"
        unfolding resolve_doorbell_def Let_def by (simp add: ok split: option.split)
      then obtain sig' where sig': "resolve_doorbell env db sig = Inr sig'" "validate_inbound_signal (tn_date_time env) sig'"
        by (simp split: sum.splits)
      have "inbox_fits (tn_sha env) (tn_float env) \<lparr>iq_provider = req_str sig' ''provider'', iq_normalized = sig',
          iq_event_id = get_str raw ''telephony_event_id'', iq_raw_ref = None, iq_raw_hash = None,
          iq_dedupe = Some (''signal:'' @ telephony_dedupe_key raw), iq_correlation = env_correlation (tn_audit env)\<rparr> = signal_fits env raw"
        using signal_provider [OF Inr [unfolded Some] sig'(1)]
        by (auto simp: inbox_fits_def signal_fits_def ingest_key_def fits_in_def)
      then show ?thesis
        using that sig' by (simp add: queue_signal_def Inr Some record_inbound_signal_def ingest_def is_ok_iff split_beta)
    qed (simp add: that queue_signal_def Inr is_ok_iff)
  qed (simp add: that queue_signal_def is_ok_iff)
  then show "is_ok (queue_signal env raw db) \<longleftrightarrow>
       (case from_telephony_event (tn_date_time env) raw of Inr (Some _) \<Rightarrow> signal_fits env raw | _ \<Rightarrow> True)"
    "queue_signal env raw db = Inl err \<Longrightarrow> err = InboxRefused"
    by (auto simp: is_ok_iff split: if_splits) 
qed


text \<open>An event whose key has between 194 and 200 characters fits the inbox itself; the row of its signal does not, which undoes its ingestion.\<close>

definition long_call_event :: pydict where
  "long_call_event = [(''telephony_event_id'', PStr ''1''), (''provider'', PStr ''p''), (''event_type'', PStr ''CALL_RINGING''), (''raw_event_type'', PStr ''r''),
     (''source_call_id'', PStr (replicate 165 (CHR ''7''))), (''occurred_at'', PStr ''t''), (''received_at'', PStr ''t''), (''gateway_node'', PStr ''g'')]"


end
