(* ===== verification/Paging.thy ===== *)
theory Paging
  imports Py_Value "HOL-Library.Product_Lexorder"
begin

text \<open>
  Keyset pagination, as the read models of calls, events and audit rows share it (\<^verbatim>\<open>_cursor\<close>, \<^verbatim>\<open>_parse_cursor\<close> and the cursor
  clause of \<^verbatim>\<open>infra/repositories/call_queries.py\<close>, \<^verbatim>\<open>audit_queries.py\<close>, \<^verbatim>\<open>event_queries.py\<close>, which repeat it word for word). A
  timestamp is an exact number of microseconds; the binary float it passes through in the code has the precision to carry it. Of
  \<^verbatim>\<open>float()\<close> the plain decimal notation is modelled, the parameter \<open>other\<close> stands for its further notations; the text of a
  UUID and its parser are parameters.
\<close>

section \<open>Cursor text\<close>

fun pad :: "nat \<Rightarrow> nat \<Rightarrow> string" where
  "pad 0 n = []"
| "pad (Suc k) n = pad k (n div 10) @ [digit_char (n mod 10)]"

definition timestamp_text :: "instant \<Rightarrow> string" where
  "timestamp_text t =
     (let m = nat \<bar>t\<bar> in (if t < 0 then ''-'' else []) @ nat_str (m div 1000000) @ ''.'' @ pad 6 (m mod 1000000))"

definition cursor_text :: "(uuid \<Rightarrow> string) \<Rightarrow> instant \<times> uuid \<Rightarrow> string" where
  "cursor_text us k = timestamp_text (fst k) @ ''|'' @ us (snd k)"

definition digits_value :: "string \<Rightarrow> nat" where
  "digits_value s = foldl (\<lambda>n c. 10 * n + (ord_of c - 48)) 0 s"

definition parse_digits :: "string \<Rightarrow> nat option" where
  "parse_digits s = (if s \<noteq> [] \<and> list_all py_isdigit s then Some (digits_value s) else None)"

definition parse_decimal :: "string \<Rightarrow> rat option" where
  "parse_decimal s =
     (let neg = (s \<noteq> [] \<and> hd s = CHR ''-''); body = (if neg then tl s else s);
          whole = takeWhile (\<lambda>c. c \<noteq> CHR ''.'') body; frac = drop (Suc (length whole)) body
      in case (parse_digits whole, parse_digits frac) of
           (Some w, Some f) \<Rightarrow> (let q = of_nat w + of_nat f / 10 ^ length frac in Some (if neg then - q else q))
         | _ \<Rightarrow> None)"

definition py_float :: "(string \<Rightarrow> rat option) \<Rightarrow> string \<Rightarrow> rat option" where
  "py_float other s = (case parse_decimal s of Some q \<Rightarrow> Some q | None \<Rightarrow> other s)"

text \<open>\<^verbatim>\<open>datetime.fromtimestamp\<close> rounds to the nearest microsecond, half to even.\<close>

definition round_half_even :: "rat \<Rightarrow> int" where
  "round_half_even q =
     (let f = \<lfloor>q\<rfloor>; d = q - of_int f in
      if d < 1 / 2 then f else if 1 / 2 < d then f + 1 else if even f then f else f + 1)"

definition from_timestamp :: "rat \<Rightarrow> instant" where
  "from_timestamp q = round_half_even (q * 1000000)"

definition parse_cursor :: "(string \<Rightarrow> rat option) \<Rightarrow> (string \<Rightarrow> uuid option) \<Rightarrow> string \<Rightarrow> (instant \<times> uuid) option" where
  "parse_cursor other parse_uuid raw =
     (let ts = takeWhile (\<lambda>c. c \<noteq> CHR ''|'') raw; rid = drop (Suc (length ts)) raw
      in case (py_float other ts, parse_uuid rid) of
           (Some q, Some u) \<Rightarrow> Some (from_timestamp q, u)
         | _ \<Rightarrow> None)"

section \<open>Pages\<close>

definition newest_first :: "('r \<Rightarrow> instant) \<Rightarrow> ('r \<Rightarrow> uuid) \<Rightarrow> 'r list \<Rightarrow> 'r list" where
  "newest_first stamp rid rows = rev (sort_key (\<lambda>r. (stamp r, rid r)) rows)"

definition before_cursor :: "('r \<Rightarrow> instant) \<Rightarrow> ('r \<Rightarrow> uuid) \<Rightarrow> (instant \<times> uuid) option \<Rightarrow> 'r \<Rightarrow> bool" where
  "before_cursor stamp rid c r =
     (case c of None \<Rightarrow> True | Some (c_at, c_id) \<Rightarrow> stamp r < c_at \<or> (stamp r = c_at \<and> rid r < c_id))"

datatype query_error = InvalidCursor | EmptyPage

definition keyset_page ::
  "('r \<Rightarrow> instant) \<Rightarrow> ('r \<Rightarrow> uuid) \<Rightarrow> nat \<Rightarrow> (instant \<times> uuid) option \<Rightarrow> 'r list \<Rightarrow> (query_error, 'r list \<times> (instant \<times> uuid) option) res" where
  "keyset_page stamp rid limit c rows =
     (let got = take (limit + 1) (newest_first stamp rid (filter (before_cursor stamp rid c) rows))
      in if limit < length got
         then (let items = take limit got in if items = [] then Inl EmptyPage else Inr (items, Some (stamp (last items), rid (last items))))
         else Inr (got, None))"

text \<open>The page of a request: the cursor comes as text and the next one goes out as text.\<close>

definition text_page ::
  "(string \<Rightarrow> rat option) \<Rightarrow> (uuid \<Rightarrow> string) \<Rightarrow> (string \<Rightarrow> uuid option) \<Rightarrow> ('r \<Rightarrow> instant) \<Rightarrow> ('r \<Rightarrow> uuid) \<Rightarrow> nat \<Rightarrow> 'r list
    \<Rightarrow> string option \<Rightarrow> (query_error, 'r list \<times> string option) res" where
  "text_page other us parse_uuid stamp rid limit rows cursor =
     bind_res (case cursor of
         None \<Rightarrow> Inr None
       | Some s \<Rightarrow> (case parse_cursor other parse_uuid s of None \<Rightarrow> Inl InvalidCursor | Some c \<Rightarrow> Inr (Some c))) (\<lambda>c.
     bind_res (keyset_page stamp rid limit c rows) (\<lambda>(items, nxt). Inr (items, map_option (cursor_text us) nxt)))"

text \<open>A client that follows \<^verbatim>\<open>next_cursor\<close>; \<open>None\<close> when the fuel is used up before the last page.\<close>

fun walk :: "('c option \<Rightarrow> ('e, 'r list \<times> 'c option) res) \<Rightarrow> nat \<Rightarrow> 'c option \<Rightarrow> ('e, 'r list) res option" where
  "walk page 0 c = None"
| "walk page (Suc n) c =
     (case page c of
        Inl e \<Rightarrow> Some (Inl e)
      | Inr (items, None) \<Rightarrow> Some (Inr items)
      | Inr (items, Some d) \<Rightarrow> map_option (\<lambda>r. bind_res r (\<lambda>more. Inr (items @ more))) (walk page n (Some d)))"

section \<open>The contract of a paged query\<close>

text \<open>Every page is a piece of what is left at its cursor, and its next cursor is a good one for the rest.\<close>

locale paged_query =
  fixes page :: "'c option \<Rightarrow> ('e, 'r list \<times> 'c option) res"
    and good :: "'c option \<Rightarrow> bool"
    and rest :: "'c option \<Rightarrow> 'r list"
  assumes page_law: "good c \<Longrightarrow> \<exists>items nxt. page c = Inr (items, nxt) \<and>
      rest c = items @ (case nxt of None \<Rightarrow> [] | Some d \<Rightarrow> rest (Some d)) \<and>
      (\<forall>d. nxt = Some d \<longrightarrow> good (Some d) \<and> items \<noteq> [])"
begin

lemma walk_complete: "good c \<Longrightarrow> length (rest c) < n \<Longrightarrow> walk page n c = Some (Inr (rest c))"
proof (induction n arbitrary: c)
  case (Suc n)
  obtain items nxt where page: "page c = Inr (items, nxt)"
    and rest: "rest c = items @ (case nxt of None \<Rightarrow> [] | Some d \<Rightarrow> rest (Some d))"
    and good: "\<forall>d. nxt = Some d \<longrightarrow> good (Some d) \<and> items \<noteq> []"
    using page_law [OF Suc.prems(1)] by blast
  show ?case
  proof (cases nxt)
    case (Some d)
    then have "good (Some d)" "length (rest (Some d)) < n"
      using good Suc.prems(2) rest by (auto simp: neq_Nil_conv)
    then show ?thesis using Suc.IH [of "Some d"] page rest Some by simp
  qed (simp add: page rest)
qed simp

end

section \<open>A cursor comes back as it went out\<close>

lemma digit_char_facts: "d < 10 \<Longrightarrow> py_isdigit (digit_char d) \<and> ord_of (digit_char d) = 48 + d"
  by (simp add: digit_char_def py_isdigit_def ord_of_def)

lemma digits_value_snoc: "digits_value (s @ [c]) = 10 * digits_value s + (ord_of c - 48)"
  by (simp add: digits_value_def)

lemma nat_str_digits: "nat_str n \<noteq> [] \<and> list_all py_isdigit (nat_str n) \<and> digits_value (nat_str n) = n"
proof (induction n rule: nat_str.induct)
  case (1 n)
  show ?case
  proof (cases "n < 10")
    case True
    then show ?thesis using digit_char_facts [OF True] by (subst (1 2 3) nat_str.simps) (simp add: digits_value_def)
  next
    case False
    then have "nat_str n = nat_str (n div 10) @ [digit_char (n mod 10)]" by (simp add: nat_str.simps [of n])
    then show ?thesis using 1 [OF False] digit_char_facts [of "n mod 10"] by (simp add: digits_value_snoc)
  qed
qed

lemma pad_digits: "length (pad k n) = k \<and> list_all py_isdigit (pad k n) \<and> digits_value (pad k n) = n mod 10 ^ k"
proof (induction k arbitrary: n)
  case (Suc k)
  have "n mod 10 ^ Suc k = 10 * (n div 10 mod 10 ^ k) + n mod 10"
    by (metis mod_mult2_eq power_Suc add.commute)
  then show ?case using Suc.IH [of "n div 10"] digit_char_facts [of "n mod 10"] by (simp add: digits_value_snoc)
qed (simp add: digits_value_def)

lemma digit_not_mark: "list_all py_isdigit s \<Longrightarrow> c \<in> set s \<Longrightarrow> c \<noteq> CHR ''.'' \<and> c \<noteq> CHR ''|'' \<and> c \<noteq> CHR ''-''"
  by (auto simp: list_all_iff py_isdigit_def ord_of_def)

lemma takeWhile_until: "\<forall>c\<in>set a. p c \<Longrightarrow> \<not> p x \<Longrightarrow> takeWhile p (a @ x # b) = a"
  by (induction a) auto

lemma parse_timestamp: "parse_decimal (timestamp_text t) = Some (of_int t / 1000000)"
proof -
  define m where "m = nat \<bar>t\<bar>"
  define w where "w = nat_str (m div 1000000)"
  define f where "f = pad 6 (m mod 1000000)"
  have w: "w \<noteq> []" "list_all py_isdigit w" "digits_value w = m div 1000000" using nat_str_digits by (auto simp: w_def)
  have f: "length f = 6" "list_all py_isdigit f" "digits_value f = m mod 1000000"
    using pad_digits [of 6 "m mod 1000000"] by (auto simp: f_def)
  have whole: "takeWhile (\<lambda>c. c \<noteq> CHR ''.'') (w @ CHR ''.'' # f) = w"
    using digit_not_mark [OF w(2)] by (intro takeWhile_until) auto
  have sign: "hd (w @ CHR ''.'' # f) \<noteq> CHR ''-''" using digit_not_mark [OF w(2), of "hd w"] w(1) by simp
  have sum: "of_nat (m div 1000000) + of_nat (m mod 1000000) / (10 ^ 6 :: rat) = of_nat m / 1000000"
  proof -
    have "of_nat m = (of_nat (m div 1000000 * 1000000 + m mod 1000000) :: rat)" by (simp only: div_mult_mod_eq)
    also have "\<dots> = of_nat (m div 1000000) * 1000000 + of_nat (m mod 1000000)" by (simp only: of_nat_add of_nat_mult of_nat_numeral)
    finally show ?thesis by simp
  qed
  have "f \<noteq> []" using f(1) by auto
  then have body: "parse_digits w = Some (m div 1000000)" "parse_digits f = Some (m mod 1000000)"
    using w f by (simp_all add: parse_digits_def)
  have shape: "timestamp_text t = (if t < 0 then ''-'' else []) @ w @ CHR ''.'' # f"
    by (simp add: timestamp_text_def m_def w_def f_def Let_def)
  show ?thesis
  proof (cases "t < 0")
    case True
    then have "of_int t = - (of_nat m :: rat)" by (simp add: m_def)
    then show ?thesis
      using True sum by (simp add: shape parse_decimal_def whole body f(1) Let_def)
  next
    case False
    then have "of_int t = (of_nat m :: rat)" by (simp add: m_def)
    then show ?thesis
      using False sum sign w(1) by (simp add: shape parse_decimal_def whole body f(1) Let_def)
  qed
qed

lemma from_timestamp_exact: "from_timestamp (of_int t / 1000000) = t"
  by (simp add: from_timestamp_def round_half_even_def)

lemma timestamp_no_bar: "\<forall>c\<in>set (timestamp_text t). c \<noteq> CHR ''|''"
  using nat_str_digits [of "nat \<bar>t\<bar> div 1000000"] pad_digits [of 6 "nat \<bar>t\<bar> mod 1000000"]
  by (auto simp: timestamp_text_def Let_def dest: digit_not_mark)

lemma parse_cursor_text: "parse_uuid (us u) = Some u \<Longrightarrow> parse_cursor other parse_uuid (cursor_text us (t, u)) = Some (t, u)"
proof -
  assume u: "parse_uuid (us u) = Some u"
  have "takeWhile (\<lambda>c. c \<noteq> CHR ''|'') (timestamp_text t @ CHR ''|'' # us u) = timestamp_text t"
    using timestamp_no_bar by (intro takeWhile_until) auto
  then show ?thesis
    by (simp add: parse_cursor_def cursor_text_def py_float_def parse_timestamp from_timestamp_exact u)
qed

section \<open>Pages partition the list\<close>

lemma newest_first_filter: "newest_first stamp rid (filter p rows) = filter p (newest_first stamp rid rows)"
  by (simp add: newest_first_def rev_filter [symmetric] filter_sort)

lemma set_newest_first [simp]: "set (newest_first stamp rid rows) = set rows"
  by (simp add: newest_first_def)

lemma length_newest_first [simp]: "length (newest_first stamp rid rows) = length rows"
  by (simp add: newest_first_def)

lemma newest_first_strict:
  assumes "distinct (map rid rows)"
  shows "sorted_wrt (\<lambda>a b. (stamp b, rid b) < (stamp a, rid a)) (newest_first stamp rid rows)"
proof -
  let ?key = "\<lambda>r. (stamp r, rid r)"
  have "distinct (map rid (sort_key ?key rows))"
    using assms by (simp add: distinct_map)
  moreover have "sorted (map ?key (sort_key ?key rows))" by simp
  moreover have "sorted_wrt (\<lambda>a b. ?key a < ?key b) xs" if "sorted (map ?key xs)" "distinct (map rid xs)" for xs
    using that by (induction xs) (auto simp: less_le)
  ultimately show ?thesis
    unfolding newest_first_def by (simp add: sorted_wrt_rev)
qed

lemma before_cursor_less: "before_cursor stamp rid (Some k) r \<longleftrightarrow> (stamp r, rid r) < k"
  by (cases k) (auto simp: before_cursor_def)

lemma filter_below_nth:
  fixes key :: "'r \<Rightarrow> 'k::order"
  assumes "sorted_wrt (\<lambda>a b. key b < key a) xs" "n < length xs"
  shows "filter (\<lambda>r. key r < key (xs ! n)) xs = drop (Suc n) xs"
proof -
  have xs: "xs = take n xs @ xs ! n # drop (Suc n) xs" using assms(2) by (rule id_take_nth_drop)
  have *: "sorted_wrt (\<lambda>a b. key b < key a) (take n xs @ xs ! n # drop (Suc n) xs)" using assms(1) xs by simp
  then have "\<forall>a\<in>set (take n xs). key (xs ! n) < key a" "\<forall>b\<in>set (drop (Suc n) xs). key b < key (xs ! n)"
    by (auto simp: sorted_wrt_append)
  then have "filter (\<lambda>r. key r < key (xs ! n)) (take n xs) = []" "filter (\<lambda>r. key r < key (xs ! n)) (drop (Suc n) xs) = drop (Suc n) xs"
    by (fastforce simp: filter_empty_conv dest: less_asym, auto simp: filter_id_conv)
  then show ?thesis by (subst xs) simp
qed

lemma keyset_page_rest:
  fixes stamp :: "'r \<Rightarrow> instant"
  assumes dist: "distinct (map rid rows)" and limit: "0 < limit"
  defines "left \<equiv> \<lambda>c. newest_first stamp rid (filter (before_cursor stamp rid c) rows)"
  shows "\<exists>items nxt. keyset_page stamp rid limit c rows = Inr (items, nxt) \<and>
    left c = items @ (case nxt of None \<Rightarrow> [] | Some k \<Rightarrow> left (Some k)) \<and> (nxt \<noteq> None \<longrightarrow> items \<noteq> [])"
proof (cases "limit < length (left c)")
  case False
  then show ?thesis by (auto simp: keyset_page_def left_def Let_def)
next
  case True
  let ?xs = "left c"
  define k where "k = (stamp (?xs ! (limit - 1)), rid (?xs ! (limit - 1)))"
  have ne: "take limit ?xs \<noteq> []" using True limit by auto
  have last: "last (take limit ?xs) = ?xs ! (limit - 1)" using True limit ne by (subst last_conv_nth) (simp_all add: min_def)
  have page: "keyset_page stamp rid limit c rows = Inr (take limit ?xs, Some k)"
  proof -
    have "newest_first stamp rid (filter (before_cursor stamp rid c) rows) = ?xs" by (simp add: left_def)
    then show ?thesis unfolding keyset_page_def using True ne last by (simp add: Let_def min_def k_def)
  qed
  have strict: "sorted_wrt (\<lambda>a b. (stamp b, rid b) < (stamp a, rid a)) ?xs"
    unfolding left_def using dist by (intro newest_first_strict distinct_map_filter)
  have mem: "?xs ! (limit - 1) \<in> set ?xs" using True by (intro nth_mem) simp
  have "before_cursor stamp rid c r" if "(stamp r, rid r) < k" for r
    using mem that unfolding left_def k_def by (cases c) (auto simp: before_cursor_def)
  then have "left (Some k) = filter (\<lambda>r. (stamp r, rid r) < k) ?xs"
    unfolding left_def newest_first_filter by (auto simp: before_cursor_less intro!: filter_cong)
  also have "\<dots> = drop (Suc (limit - 1)) ?xs"
    unfolding k_def using True by (intro filter_below_nth [OF strict]) simp
  finally have "?xs = take limit ?xs @ left (Some k)" using limit by simp
  with page ne show ?thesis by auto
qed

text \<open>The repositories' pages satisfy the contract: a cursor is good when it is absent or names a row's position, the limit is positive and
  the text of a UUID reads back.\<close>

definition cursor_good ::
  "(string \<Rightarrow> rat option) \<Rightarrow> (uuid \<Rightarrow> string) \<Rightarrow> (string \<Rightarrow> uuid option) \<Rightarrow> ('r \<Rightarrow> uuid) \<Rightarrow> nat \<Rightarrow> 'r list \<Rightarrow> string option \<Rightarrow> bool" where
  "cursor_good other us parse_uuid rid limit rows c \<longleftrightarrow>
     distinct (map rid rows) \<and> 0 < limit \<and> (\<forall>u. parse_uuid (us u) = Some u) \<and>
     (case c of None \<Rightarrow> True | Some s \<Rightarrow> parse_cursor other parse_uuid s \<noteq> None)"

definition rows_left ::
  "(string \<Rightarrow> rat option) \<Rightarrow> (string \<Rightarrow> uuid option) \<Rightarrow> ('r \<Rightarrow> instant) \<Rightarrow> ('r \<Rightarrow> uuid) \<Rightarrow> 'r list \<Rightarrow> string option \<Rightarrow> 'r list" where
  "rows_left other parse_uuid stamp rid rows c =
     newest_first stamp rid (filter (before_cursor stamp rid (Option.bind c (parse_cursor other parse_uuid))) rows)"

interpretation text_pages: paged_query "text_page other us parse_uuid stamp rid limit rows"
  "cursor_good other us parse_uuid rid limit rows" "rows_left other parse_uuid stamp rid rows"
proof
  fix c assume good: "cursor_good other us parse_uuid rid limit rows c"
  define k where "k = Option.bind c (parse_cursor other parse_uuid)"
  have dist: "distinct (map rid rows)" and limit: "0 < limit" and ids: "\<And>u. parse_uuid (us u) = Some u"
    using good by (auto simp: cursor_good_def)
  obtain items nxt where page: "keyset_page stamp rid limit k rows = Inr (items, nxt)"
    and left: "newest_first stamp rid (filter (before_cursor stamp rid k) rows) =
      items @ (case nxt of None \<Rightarrow> [] | Some d \<Rightarrow> newest_first stamp rid (filter (before_cursor stamp rid (Some d)) rows))"
    and ne: "nxt \<noteq> None \<longrightarrow> items \<noteq> []"
    using keyset_page_rest [OF dist limit, of stamp k] by blast
  have "text_page other us parse_uuid stamp rid limit rows c = Inr (items, map_option (cursor_text us) nxt)"
    using good page by (auto simp: text_page_def cursor_good_def k_def split: option.splits)
  moreover have "parse_cursor other parse_uuid (cursor_text us d) = Some d" for d
    using parse_cursor_text [of parse_uuid us "snd d" other "fst d"] ids by simp
  ultimately show "\<exists>items nxt. text_page other us parse_uuid stamp rid limit rows c = Inr (items, nxt) \<and>
      rows_left other parse_uuid stamp rid rows c =
        items @ (case nxt of None \<Rightarrow> [] | Some d \<Rightarrow> rows_left other parse_uuid stamp rid rows (Some d)) \<and>
      (\<forall>d. nxt = Some d \<longrightarrow> cursor_good other us parse_uuid rid limit rows (Some d) \<and> items \<noteq> [])"
    using left ne good
    by (intro exI [of _ items] exI [of _ "map_option (cursor_text us) nxt"])
      (auto simp: rows_left_def k_def cursor_good_def split: option.splits)
qed

text \<open>A row that is inserted while the client is between two pages, newer than the cursor, does not change the pages that follow.\<close>

lemma page_ignores_newer:
  assumes "parse_cursor other parse_uuid s = Some k" "\<not> (stamp r, rid r) < k"
  shows "text_page other us parse_uuid stamp rid limit (as @ r # bs) (Some s) = text_page other us parse_uuid stamp rid limit (as @ bs) (Some s)"
  using assms by (simp add: text_page_def keyset_page_def before_cursor_less)

end
