(* ===== verification/Queries.thy ===== *)
theory Queries
  imports Call_Service Paging Events
begin

text \<open>
  The read models: \<^verbatim>\<open>infra/repositories/call_queries.py\<close> (call history and the waiting queue), \<^verbatim>\<open>audit_queries.py\<close> and the lists of
  \<^verbatim>\<open>event_queries.py\<close> (chronological list, work queue, priority alert, detail). A list is a filter over the table, ordered and cut
  by the keyset pages of \<^verbatim>\<open>Paging\<close>. The scope filters of the code are the identity. Participants and history rows of the same
  instant keep the order they were written in.
\<close>

section \<open>Calls\<close>

record cursor_codec =
  cc_float :: "string \<Rightarrow> rat option"
  cc_uuid :: "uuid \<Rightarrow> string"
  cc_parse :: "string \<Rightarrow> uuid option"

record call_query =
  hq_direction :: "call_direction option"
  hq_state :: "call_state option"
  hq_number :: "string option"
  hq_category :: "string option"
  hq_since :: "instant option"
  hq_until :: "instant option"

definition holds_for :: "'a option \<Rightarrow> ('a \<Rightarrow> bool) \<Rightarrow> bool" where
  "holds_for v p = (case v of None \<Rightarrow> True | Some x \<Rightarrow> p x)"

definition call_matches :: "tel_db \<Rightarrow> call_query \<Rightarrow> call_row \<Rightarrow> bool" where
  "call_matches db q c \<longleftrightarrow>
     holds_for (hq_direction q) (\<lambda>d. call_direction c = d) \<and>
     holds_for (hq_state q) (\<lambda>s. call_state c = s) \<and>
     holds_for (hq_since q) (\<lambda>t. t \<le> call_created c) \<and>
     holds_for (hq_until q) (\<lambda>t. call_created c \<le> t) \<and>
     holds_for (hq_number q) (\<lambda>n. call_id c \<in> pt_call ` set (filter (\<lambda>p. pt_number p = n) (td_participants db))) \<and>
     holds_for (hq_category q) (\<lambda>k. call_id c \<in> cd_call ` set (filter (\<lambda>d. cd_category d = Some k) (td_docs db)))"

record call_item =
  ci_call :: call_row
  ci_category :: "string option"
  ci_has_text :: bool
  ci_participants :: "(string \<times> string option \<times> string) list"

definition build_item :: "tel_db \<Rightarrow> call_row \<Rightarrow> call_item" where
  "build_item db c =
     (let doc = doc_at (call_id c) db in
      \<lparr>ci_call = c, ci_category = Option.bind doc cd_category,
       ci_has_text = (case doc of None \<Rightarrow> False | Some d \<Rightarrow> non_empty (cd_free_text d) \<noteq> None),
       ci_participants = map (\<lambda>p. (pt_number p, pt_display p, pt_role p)) (filter (\<lambda>p. pt_call p = call_id c) (td_participants db))\<rparr>)"

definition call_history ::
  "cursor_codec \<Rightarrow> call_query \<Rightarrow> nat \<Rightarrow> tel_db \<Rightarrow> string option \<Rightarrow> (query_error, call_item list \<times> string option) res" where
  "call_history cc q limit db cursor =
     bind_res (text_page (cc_float cc) (cc_uuid cc) (cc_parse cc) call_created call_id limit (filter (call_matches db q) (td_calls db)) cursor)
       (\<lambda>(calls, nxt). Inr (map (build_item db) calls, nxt))"

definition caller_rank :: "call_row \<Rightarrow> nat" where
  "caller_rank c =
     (if call_priority c = Some ''high'' then 0 else if call_priority c = Some ''medium'' then 1
      else if call_priority c = Some ''low'' then 2 else 3)"

definition waiting_since :: "call_row \<Rightarrow> instant" where
  "waiting_since c = (case call_started c of None \<Rightarrow> call_created c | Some t \<Rightarrow> t)"

definition ringing_queue :: "tel_db \<Rightarrow> call_item list" where
  "ringing_queue db = map (build_item db) (sort_key (\<lambda>c. (caller_rank c, waiting_since c, call_id c))
     (filter (\<lambda>c. call_state c \<in> set [Offered, Ringing] \<and> call_direction c = Inbound) (td_calls db)))"

section \<open>Audit rows\<close>

record audit_query =
  aq_action :: "string option"
  aq_actor :: "uuid option"
  aq_target_type :: "string option"
  aq_target_id :: "string option"
  aq_correlation :: "string option"
  aq_since :: "instant option"
  aq_until :: "instant option"

definition audit_matches :: "audit_query \<Rightarrow> audit_row \<Rightarrow> bool" where
  "audit_matches q r \<longleftrightarrow>
     holds_for (aq_action q) (\<lambda>a. au_action r = a) \<and>
     holds_for (aq_actor q) (\<lambda>a. au_actor r = Some a) \<and>
     holds_for (aq_target_type q) (\<lambda>t. au_target_type r = Some t) \<and>
     holds_for (aq_target_id q) (\<lambda>t. au_target_id r = Some t) \<and>
     holds_for (aq_correlation q) (\<lambda>t. au_correlation r = Some t) \<and>
     holds_for (aq_since q) (\<lambda>t. t \<le> au_occurred r) \<and>
     holds_for (aq_until q) (\<lambda>t. au_occurred r \<le> t)"

definition audit_list ::
  "cursor_codec \<Rightarrow> audit_query \<Rightarrow> nat \<Rightarrow> audit_db \<Rightarrow> string option \<Rightarrow> (query_error, audit_row list \<times> string option) res" where
  "audit_list cc q limit db cursor =
     text_page (cc_float cc) (cc_uuid cc) (cc_parse cc) au_occurred au_id limit (filter (audit_matches q) (audit_events db)) cursor"

section \<open>Events\<close>

text \<open>An event row with the two timestamps of \<^verbatim>\<open>TimestampMixin\<close>.\<close>

record dated_event = event_row +
  ew_created :: instant
  ew_updated :: instant

record event_query =
  eq_archived :: bool
  eq_status :: "event_status option"
  eq_priority :: "event_priority list"
  eq_bbz :: "uuid option"
  eq_assignee :: "uuid option"
  eq_from :: "instant option"
  eq_to :: "instant option"

record event_item =
  ei_event :: dated_event
  ei_assignee :: "uuid option"

definition active_assignee :: "assignment_row list \<Rightarrow> uuid \<Rightarrow> uuid option" where
  "active_assignee asg e = map_of (rev (map (\<lambda>a. (as_event a, as_user a)) (filter as_active asg))) e"

definition event_item_of :: "assignment_row list \<Rightarrow> dated_event \<Rightarrow> event_item" where
  "event_item_of asg e = \<lparr>ei_event = e, ei_assignee = active_assignee asg (ew_id e)\<rparr>"

definition priority_rank :: "event_priority \<Rightarrow> nat" where
  "priority_rank p = (if p = Critical then 0 else if p = High then 1 else if p = Medium then 2 else 3)"

definition queue_key :: "dated_event \<Rightarrow> nat \<times> instant \<times> uuid" where
  "queue_key e = (priority_rank (ew_priority e), ew_created e, ew_id e)"

definition priority_alert :: "assignment_row list \<Rightarrow> dated_event list \<Rightarrow> event_item list" where
  "priority_alert asg evs = map (event_item_of asg)
     (sort_key queue_key (filter (\<lambda>e. ew_status e = New \<and> ew_priority e \<in> set [Critical, High]) evs))"

definition work_queue :: "assignment_row list \<Rightarrow> nat \<Rightarrow> dated_event list \<Rightarrow> event_item list" where
  "work_queue asg limit evs = map (event_item_of asg) (take limit (sort_key queue_key (filter (\<lambda>e. ew_status e \<noteq> Archived) evs)))"

definition event_matches :: "assignment_row list \<Rightarrow> event_query \<Rightarrow> dated_event \<Rightarrow> bool" where
  "event_matches asg q e \<longleftrightarrow>
     (eq_archived q \<or> ew_status e \<noteq> Archived) \<and>
     holds_for (eq_status q) (\<lambda>s. ew_status e = s) \<and>
     (eq_priority q = [] \<or> ew_priority e \<in> set (eq_priority q)) \<and>
     holds_for (eq_bbz q) (\<lambda>b. ew_bbz e = Some b) \<and>
     holds_for (eq_from q) (\<lambda>t. t \<le> ew_created e) \<and>
     holds_for (eq_to q) (\<lambda>t. ew_created e \<le> t) \<and>
     holds_for (eq_assignee q) (\<lambda>u. ew_id e \<in> as_event ` set (filter (\<lambda>a. as_active a \<and> as_user a = u) asg))"

definition list_events ::
  "cursor_codec \<Rightarrow> event_query \<Rightarrow> nat \<Rightarrow> assignment_row list \<Rightarrow> dated_event list \<Rightarrow> string option
    \<Rightarrow> (query_error, event_item list \<times> string option) res" where
  "list_events cc q limit asg evs cursor =
     bind_res (text_page (cc_float cc) (cc_uuid cc) (cc_parse cc) ew_created ew_id limit (filter (event_matches asg q) evs) cursor)
       (\<lambda>(rows, nxt). Inr (map (event_item_of asg) rows, nxt))"

section \<open>Every list is complete\<close>

lemma walk_map:
  "walk (\<lambda>c. bind_res (page c) (\<lambda>(xs, nxt). Inr (map f xs, nxt))) n c = map_option (\<lambda>r. bind_res r (\<lambda>xs. Inr (map f xs))) (walk page n c)"
proof (induction n arbitrary: c)
  case (Suc n)
  show ?case
  proof (cases "page c")
    case (Inr p)
    obtain items nxt where p: "p = (items, nxt)" by (cases p)
    show ?thesis
    proof (cases nxt)
      case (Some d)
      show ?thesis
        by (cases "walk page n (Some d)"; cases "the (walk page n (Some d))") (simp_all add: Inr p Some Suc.IH)
    qed (simp add: Inr p)
  qed simp
qed simp

lemma walk_pages:
  assumes "distinct (map rid rows)" "0 < limit" "\<And>u. parse_uuid (us u) = Some u"
  shows "walk (text_page other us parse_uuid stamp rid limit rows) (Suc (length rows)) None = Some (Inr (newest_first stamp rid rows))"
  using assms by (subst text_pages.walk_complete) (simp_all add: cursor_good_def rows_left_def before_cursor_def)

text \<open>C33. A client that follows the cursors of the call history, of the audit list or of the event list to the end gets every matching
  row exactly once, newest first, whatever the page size, in at most one request per row and one more; no page raises.\<close>

theorem paged_lists_complete:
  assumes "\<And>u. cc_parse cc (cc_uuid cc u) = Some u" "0 < limit"
    and "distinct (map call_id (td_calls db))" "distinct (map au_id (audit_events adb))" "distinct (map ew_id evs)"
  shows "walk (call_history cc hq limit db) (Suc (length (filter (call_matches db hq) (td_calls db)))) None =
      Some (Inr (map (build_item db) (newest_first call_created call_id (filter (call_matches db hq) (td_calls db))))) \<and>
    walk (audit_list cc aq limit adb) (Suc (length (filter (audit_matches aq) (audit_events adb)))) None =
      Some (Inr (newest_first au_occurred au_id (filter (audit_matches aq) (audit_events adb)))) \<and>
    walk (list_events cc eq limit asg evs) (Suc (length (filter (event_matches asg eq) evs))) None =
      Some (Inr (map (event_item_of asg) (newest_first ew_created ew_id (filter (event_matches asg eq) evs))))"
proof -
  note pages = walk_pages [OF distinct_map_filter assms(2,1)]
  show ?thesis
    unfolding call_history_def [abs_def] audit_list_def [abs_def] list_events_def [abs_def] walk_map
    by (simp add: pages [OF assms(3)] pages [OF assms(4)] pages [OF assms(5)] del: walk.simps)
qed

text \<open>A codec whose UUID text reads back, and two calls of the same instant read one per page.\<close>

definition sample_codec :: cursor_codec where
  "sample_codec = \<lparr>cc_float = (\<lambda>_. None), cc_uuid = nat_str, cc_parse = parse_digits\<rparr>"

definition sample_call :: "uuid \<Rightarrow> call_row" where
  "sample_call i = \<lparr>call_id = i, call_bbz = ''b'', call_provider = ''p'', call_source = None, call_direction = Inbound, call_state = Ringing,
     call_line = None, call_created = 5, call_started = None, call_ended = None, call_caller = None, call_priority = None\<rparr>"

definition any_call :: call_query where
  "any_call = \<lparr>hq_direction = None, hq_state = None, hq_number = None, hq_category = None, hq_since = None, hq_until = None\<rparr>"

definition any_audit :: audit_query where
  "any_audit = \<lparr>aq_action = None, aq_actor = None, aq_target_type = None, aq_target_id = None, aq_correlation = None, aq_since = None,
     aq_until = None\<rparr>"

definition any_event :: event_query where
  "any_event = \<lparr>eq_archived = True, eq_status = None, eq_priority = [], eq_bbz = None, eq_assignee = None, eq_from = None, eq_to = None\<rparr>"

lemma any_simps: "call_matches db any_call = (\<lambda>_. True)" "audit_matches any_audit = (\<lambda>_. True)" "event_matches asg any_event = (\<lambda>_. True)"
  by (simp_all add: fun_eq_iff call_matches_def audit_matches_def event_matches_def holds_for_def any_call_def any_audit_def any_event_def)

theorem paged_lists_complete_witness:
  "walk (call_history sample_codec any_call 1 (empty_tel_db\<lparr>td_calls := [sample_call 2, sample_call 4]\<rparr>)) 3 None =
     Some (Inr (map (build_item (empty_tel_db\<lparr>td_calls := [sample_call 2, sample_call 4]\<rparr>)) [sample_call 4, sample_call 2]))"
proof -
  let ?db = "empty_tel_db\<lparr>td_calls := [sample_call 2, sample_call 4]\<rparr>"
  have codec: "cc_parse sample_codec (cc_uuid sample_codec u) = Some u" for u
    using nat_str_digits [of u] by (simp add: sample_codec_def parse_digits_def)
  have order: "newest_first call_created call_id [sample_call 2, sample_call 4] = [sample_call 4, sample_call 2]"
    by (simp add: newest_first_def sample_call_def)
  have ids: "call_id (sample_call i) = i" for i by (simp add: sample_call_def)
  show ?thesis
    using paged_lists_complete [of sample_codec 1 ?db "\<lparr>audit_events = [], audit_next_seq = 1\<rparr>" "[]" any_call any_audit any_event "[]"] codec
    by (simp add: any_simps order ids numeral_3_eq_3 del: walk.simps)
qed

end
