(* ===== verification/Notes.thy ===== *)
theory Notes
  imports Event_Log Audit_Trail "HOL-Library.Product_Lexorder"
begin

text \<open>
  The notes of an event: \<^verbatim>\<open>add_note\<close> and \<^verbatim>\<open>edit_note\<close> of \<^verbatim>\<open>api/v1/events.py\<close> (inside the command guard, which
  \<^verbatim>\<open>Commands\<close> models) and \<^verbatim>\<open>note_threads\<close> of \<^verbatim>\<open>infra/repositories/event_queries.py\<close>. A note is never changed: an edit writes a new
  version and marks the previous one superseded. The table is the list of its rows in the order they were inserted. The locking read of an edit may wait for another edit of
  the thread: it takes its candidates from the rows it saw before (the snapshot of its statement) and keeps those that are still live once it
  has the lock. \<open>edit_note_waited\<close> has that snapshot as an argument, \<open>edit_note\<close> is the edit that waits for nobody.
\<close>

section \<open>Rows\<close>

record note_row =
  nt_id :: uuid
  nt_event :: uuid
  nt_kind :: string
  nt_body :: string
  nt_created_by :: "uuid option"
  nt_created :: instant
  nt_version :: nat
  nt_thread :: "uuid option"
  nt_superseded :: "uuid option"
  nt_edited_by :: "uuid option"
  nt_edited :: "instant option"

record notes_db =
  nd_events :: "uuid list"
  nd_notes :: "note_row list"
  nd_log :: event_log
  nd_audit :: audit_db
  nd_next :: uuid

record notes_env =
  ne_events :: event_env
  ne_audit :: audit_env
  ne_validators :: validators
  ne_uuid :: "uuid \<Rightarrow> string"

datatype note_error =
    NoteBodyEmpty | NoteEventNotFound | NoteNotFound | NoteUnchanged | NoLiveVersion | ManyLiveVersions
  | NoteLog event_log_error | NoteAudit audit_error

definition note_log :: "notes_env \<Rightarrow> uuid \<Rightarrow> string \<Rightarrow> pydict \<Rightarrow> uuid \<Rightarrow> uuid \<Rightarrow> notes_db \<Rightarrow> (note_error, nat \<times> notes_db) res" where
  "note_log env e ty payload actor command db =
     (case append_event (ne_validators env) (ne_events env)
        \<lparr>er_aggregate_type = ''event'', er_aggregate_id = ne_uuid env e, er_event_type = ty, er_payload = payload,
          er_schema_version = 1, er_user = Some actor, er_client = None, er_command = Some command, er_local = None\<rparr> (nd_log db) of
        (Inl err, _) \<Rightarrow> Inl (NoteLog err)
      | (Inr seq, elog) \<Rightarrow> Inr (seq, db\<lparr>nd_log := elog\<rparr>))"

definition note_audit ::
  "notes_env \<Rightarrow> uuid \<Rightarrow> string \<Rightarrow> pydict option \<Rightarrow> pydict \<Rightarrow> uuid \<Rightarrow> notes_db \<Rightarrow> (note_error, notes_db) res" where
  "note_audit env e action before after actor db =
     (case audit_write (ne_audit env) True
        \<lparr>rq_action = action, rq_actor = Some actor, rq_client = None, rq_workplace = None, rq_target_type = Some ''event'',
          rq_target_id = Some (ne_uuid env e), rq_before = before, rq_after = Some after, rq_reason = None, rq_event_seq = None\<rparr>
        (nd_audit db) of
        Inl err \<Rightarrow> Inl (NoteAudit err)
      | Inr a \<Rightarrow> Inr (db\<lparr>nd_audit := a\<rparr>))"

section \<open>Operations\<close>

definition first_version :: "notes_env \<Rightarrow> uuid \<Rightarrow> uuid \<Rightarrow> string \<Rightarrow> string \<Rightarrow> uuid \<Rightarrow> note_row" where
  "first_version env e i kind body actor =
     \<lparr>nt_id = i, nt_event = e, nt_kind = kind, nt_body = body, nt_created_by = Some actor,
       nt_created = ee_now (ne_events env), nt_version = 1, nt_thread = None, nt_superseded = None, nt_edited_by = None,
       nt_edited = None\<rparr>"

definition add_note ::
  "notes_env \<Rightarrow> uuid \<Rightarrow> string \<Rightarrow> string \<Rightarrow> uuid \<Rightarrow> uuid \<Rightarrow> notes_db \<Rightarrow> (note_error, (uuid \<times> nat) \<times> notes_db) res" where
  "add_note env e kind raw actor command db =
     (let body = py_strip raw in
      if body = [] then Inl NoteBodyEmpty
      else if e \<notin> set (nd_events db) then Inl NoteEventNotFound
      else (let i = nd_next db;
                row = first_version env e i kind body actor;
                db1 = db\<lparr>nd_notes := nd_notes db @ [row], nd_next := Suc i\<rparr>
            in bind_res (note_log env e ''EVENT_NOTE_ADDED''
                 [(''note_id'', PStr (ne_uuid env i)), (''kind'', PStr kind), (''body'', PStr body), (''actor_id'', PStr (ne_uuid env actor))]
                 actor command db1) (\<lambda>(seq, db2).
               bind_res (note_audit env e ''EVENT_NOTE_ADDED'' None
                 [(''note_id'', PStr (ne_uuid env i)), (''kind'', PStr kind), (''version'', PInt 1)] actor db2) (\<lambda>db3.
                 Inr ((i, seq), db3)))))"

text \<open>\<^verbatim>\<open>referenced.thread_id or referenced.id\<close>, and the live versions of a thread.\<close>

definition thread_of :: "note_row \<Rightarrow> uuid" where
  "thread_of n = (case nt_thread n of None \<Rightarrow> nt_id n | Some t \<Rightarrow> t)"

definition live_versions :: "uuid \<Rightarrow> uuid \<Rightarrow> note_row list \<Rightarrow> note_row list" where
  "live_versions e t rows = filter (\<lambda>n. nt_event n = e \<and> nt_superseded n = None \<and> (nt_id n = t \<or> nt_thread n = Some t)) rows"

definition locked_versions :: "uuid \<Rightarrow> uuid \<Rightarrow> note_row list \<Rightarrow> note_row list \<Rightarrow> note_row list" where
  "locked_versions e t seen rows = filter (\<lambda>n. nt_id n \<in> nt_id ` set (live_versions e t seen)) (live_versions e t rows)"

definition supersede :: "uuid \<Rightarrow> uuid \<Rightarrow> note_row list \<Rightarrow> note_row list" where
  "supersede old new rows = map (\<lambda>n. if nt_id n = old then n\<lparr>nt_superseded := Some new\<rparr> else n) rows"

definition next_version :: "notes_env \<Rightarrow> uuid \<Rightarrow> uuid \<Rightarrow> note_row \<Rightarrow> uuid \<Rightarrow> string \<Rightarrow> uuid \<Rightarrow> note_row" where
  "next_version env e i old t body actor =
     \<lparr>nt_id = i, nt_event = e, nt_kind = nt_kind old, nt_body = body, nt_created_by = nt_created_by old,
       nt_created = ee_now (ne_events env), nt_version = nt_version old + 1, nt_thread = Some t, nt_superseded = None,
       nt_edited_by = Some actor, nt_edited = Some (ee_now (ne_events env))\<rparr>"

definition edit_note_waited ::
  "notes_env \<Rightarrow> note_row list \<Rightarrow> uuid \<Rightarrow> uuid \<Rightarrow> string \<Rightarrow> uuid \<Rightarrow> uuid \<Rightarrow> notes_db \<Rightarrow> (note_error, (uuid \<times> nat) \<times> notes_db) res" where
  "edit_note_waited env seen e note raw actor command db =
     (let body = py_strip raw in
      if body = [] then Inl NoteBodyEmpty
      else if e \<notin> set (nd_events db) then Inl NoteEventNotFound
      else (case find_first (\<lambda>n. nt_id n = note) (nd_notes db) of
              None \<Rightarrow> Inl NoteNotFound
            | Some ref \<Rightarrow>
                if nt_event ref \<noteq> e then Inl NoteNotFound
                else (let t = thread_of ref in
                      case locked_versions e t seen (nd_notes db) of
                        [] \<Rightarrow> Inl NoLiveVersion
                      | [old] \<Rightarrow>
                          if body = nt_body old then Inl NoteUnchanged
                          else (let i = nd_next db; new = next_version env e i old t body actor;
                                    db1 = db\<lparr>nd_notes := supersede (nt_id old) i (nd_notes db @ [new]), nd_next := Suc i\<rparr>
                                in bind_res (note_log env e ''EVENT_NOTE_UPDATED''
                                     [(''note_id'', PStr (ne_uuid env i)), (''thread_id'', PStr (ne_uuid env t)),
                                      (''supersedes_note_id'', PStr (ne_uuid env (nt_id old))), (''version'', PInt (int (nt_version new))),
                                      (''kind'', PStr (nt_kind old)), (''body'', PStr body), (''actor_id'', PStr (ne_uuid env actor))]
                                     actor command db1) (\<lambda>(seq, db2).
                                   bind_res (note_audit env e ''EVENT_NOTE_UPDATED''
                                     (Some [(''note_id'', PStr (ne_uuid env (nt_id old))), (''version'', PInt (int (nt_version old))),
                                       (''body'', PStr (nt_body old))])
                                     [(''note_id'', PStr (ne_uuid env i)), (''version'', PInt (int (nt_version new))), (''body'', PStr body)]
                                     actor db2) (\<lambda>db3. Inr ((i, seq), db3))))
                      | _ \<Rightarrow> Inl ManyLiveVersions)))"

definition edit_note ::
  "notes_env \<Rightarrow> uuid \<Rightarrow> uuid \<Rightarrow> string \<Rightarrow> uuid \<Rightarrow> uuid \<Rightarrow> notes_db \<Rightarrow> (note_error, (uuid \<times> nat) \<times> notes_db) res" where
  "edit_note env e note raw actor command db = edit_note_waited env (nd_notes db) e note raw actor command db"

section \<open>Threads\<close>

record note_version =
  nv_id :: uuid
  nv_version :: nat
  nv_body :: string
  nv_author :: "uuid option"
  nv_written :: instant

record note_thread =
  th_id :: uuid
  th_thread :: uuid
  th_kind :: string
  th_body :: string
  th_version :: nat
  th_created_by :: "uuid option"
  th_created :: instant
  th_edited_by :: "uuid option"
  th_edited :: "instant option"
  th_history :: "note_version list"

text \<open>\<^verbatim>\<open>by_thread.setdefault(...).append(n)\<close> over the rows.\<close>

definition group_threads :: "note_row list \<Rightarrow> (uuid \<times> note_row list) list" where
  "group_threads rows = group_by thread_of rows"

definition version_of :: "note_row \<Rightarrow> note_version" where
  "version_of n = \<lparr>nv_id = nt_id n, nv_version = nt_version n, nv_body = nt_body n,
     nv_author = (if 1 < nt_version n then nt_edited_by n else nt_created_by n),
     nv_written = (case nt_edited n of Some t \<Rightarrow> t | None \<Rightarrow> nt_created n)\<rparr>"

definition thread_view :: "note_row list \<Rightarrow> note_thread" where
  "thread_view ns =
     (let versions = sort_key nt_version ns;
          current = (case find_first (\<lambda>n. nt_superseded n = None) versions of Some n \<Rightarrow> n | None \<Rightarrow> last versions);
          first = hd versions
      in \<lparr>th_id = nt_id current, th_thread = nt_id first, th_kind = nt_kind current, th_body = nt_body current,
          th_version = nt_version current, th_created_by = nt_created_by first, th_created = nt_created first,
          th_edited_by = nt_edited_by current, th_edited = nt_edited current,
          th_history = map version_of (filter (\<lambda>n. nt_superseded n \<noteq> None) versions)\<rparr>)"

definition note_threads :: "uuid \<Rightarrow> note_row list \<Rightarrow> note_thread list" where
  "note_threads e rows =
     (let sorted_rows = sort_key (\<lambda>n. (nt_version n, nt_created n)) (filter (\<lambda>n. nt_event n = e) rows)
      in sort_key th_created (map (\<lambda>p. thread_view (snd p)) (group_threads sorted_rows)))"

section \<open>Threads are chains\<close>

definition members :: "uuid \<Rightarrow> note_row list \<Rightarrow> note_row list" where
  "members t rows = filter (\<lambda>n. thread_of n = t) rows"

fun chained :: "note_row list \<Rightarrow> bool" where
  "chained (n # m # ns) \<longleftrightarrow> nt_superseded n = Some (nt_id m) \<and> nt_version m = Suc (nt_version n) \<and> chained (m # ns)"
| "chained ns \<longleftrightarrow> list_all (\<lambda>n. nt_superseded n = None) ns"

definition thread_ok :: "uuid \<Rightarrow> note_row list \<Rightarrow> bool" where
  "thread_ok t ms \<longleftrightarrow> ms \<noteq> [] \<and> chained ms \<and> nt_id (hd ms) = t \<and> nt_thread (hd ms) = None \<and> nt_version (hd ms) = 1 \<and>
     (\<forall>m\<in>set ms. nt_event m = nt_event (hd ms))"

definition notes_inv :: "notes_db \<Rightarrow> bool" where
  "notes_inv db \<longleftrightarrow> distinct (map nt_id (nd_notes db)) \<and>
     (\<forall>n\<in>set (nd_notes db). nt_id n < nd_next db \<and> thread_ok (thread_of n) (members (thread_of n) (nd_notes db)))"

lemma members_simps [simp]:
  "members t (rows @ rows') = members t rows @ members t rows'"
  "members t [n] = (if thread_of n = t then [n] else [])"
  "set (members t rows) = {n \<in> set rows. thread_of n = t}"
  by (auto simp: members_def)

lemma thread_of_superseded [simp]: "thread_of (n\<lparr>nt_superseded := x\<rparr>) = thread_of n"
  by (simp add: thread_of_def split: option.split)

lemma members_supersede: "members t (supersede i j rows) = supersede i j (members t rows)"
  by (induction rows) (simp_all add: members_def supersede_def)

lemma supersede_other: "i \<notin> nt_id ` set rows \<Longrightarrow> supersede i j rows = rows"
  unfolding supersede_def by (intro map_idI) auto

lemma chained_versions: "chained ms \<Longrightarrow> ms \<noteq> [] \<Longrightarrow> map nt_version ms = [nt_version (hd ms)..<nt_version (hd ms) + length ms]"
proof (induction ms rule: chained.induct)
  case (1 n m ns)
  then show ?case by (simp add: upt_conv_Cons del: upt_Suc)
qed auto

lemma chained_live: "chained ms \<Longrightarrow> ms \<noteq> [] \<Longrightarrow> filter (\<lambda>n. nt_superseded n = None) ms = [last ms] \<and>
    filter (\<lambda>n. nt_superseded n \<noteq> None) ms = butlast ms"
  by (induction ms rule: chained.induct) auto

lemma chained_current: "chained ms \<Longrightarrow> ms \<noteq> [] \<Longrightarrow> find_first (\<lambda>n. nt_superseded n = None) ms = Some (last ms)"
  by (induction ms rule: chained.induct) (auto simp: find_first_def)

lemma chained_extend:
  "chained ms \<Longrightarrow> ms \<noteq> [] \<Longrightarrow> distinct (map nt_id (ms @ [new])) \<Longrightarrow> nt_superseded new = None \<Longrightarrow> nt_version new = Suc (nt_version (last ms)) \<Longrightarrow>
   chained (supersede (nt_id (last ms)) (nt_id new) (ms @ [new]))"
proof (induction ms rule: chained.induct)
  case (1 n m ns)
  have "last (m # ns) \<in> set (m # ns)" by (rule last_in_set) simp
  moreover have "nt_id n \<notin> nt_id ` set (m # ns)" using 1(4) by auto
  ultimately have ne: "nt_id n \<noteq> nt_id (last (m # ns))" by (metis imageI)
  have "chained (supersede (nt_id (last (m # ns))) (nt_id new) ((m # ns) @ [new]))" using 1 by simp
  then show ?case using 1(2) ne by (auto simp: supersede_def)
qed (auto simp: supersede_def)

lemma thread_cond:
  assumes "notes_inv db" "n \<in> set (nd_notes db)" "m \<in> set (nd_notes db)"
  shows "nt_id m = thread_of n \<or> nt_thread m = Some (thread_of n) \<longleftrightarrow> thread_of m = thread_of n"
proof -
  let ?ms = "members (thread_of n) (nd_notes db)"
  have ok: "thread_ok (thread_of n) ?ms" and dist: "distinct (map nt_id (nd_notes db))"
    using assms by (auto simp: notes_inv_def)
  then have hd: "hd ?ms \<in> set ?ms" "nt_id (hd ?ms) = thread_of n" "nt_thread (hd ?ms) = None"
    unfolding thread_ok_def by (blast intro: hd_in_set)+
  then have "m = hd ?ms" if "nt_id m = thread_of n"
    using that dist assms(3) by (auto simp: distinct_map inj_on_def)
  then show ?thesis using hd(2,3) by (auto simp: thread_of_def split: option.splits)
qed

lemma live_versions_last:
  assumes inv: "notes_inv db" and n: "n \<in> set (nd_notes db)"
  shows "live_versions (nt_event n) (thread_of n) (nd_notes db) = [last (members (thread_of n) (nd_notes db))]"
proof -
  let ?ms = "members (thread_of n) (nd_notes db)"
  have ok: "thread_ok (thread_of n) ?ms" using inv n by (auto simp: notes_inv_def)
  have "\<forall>m\<in>set ?ms. nt_event m = nt_event n"
    using ok n by (auto simp: thread_ok_def)
  then have "live_versions (nt_event n) (thread_of n) (nd_notes db) = filter (\<lambda>m. nt_superseded m = None) ?ms"
    using thread_cond [OF inv n] unfolding live_versions_def members_def by (auto intro!: filter_cong simp: filter_filter)
  then show ?thesis using ok chained_live by (simp add: thread_ok_def)
qed

lemma note_log_fields: "note_log env e ty payload actor command db = Inr (seq, db') \<Longrightarrow> nd_notes db' = nd_notes db \<and> nd_next db' = nd_next db"
  by (auto simp: note_log_def split: prod.splits sum.splits)

lemma note_audit_fields: "note_audit env e action before after actor db = Inr db' \<Longrightarrow> nd_notes db' = nd_notes db \<and> nd_next db' = nd_next db"
  by (auto simp: note_audit_def split: sum.splits)

lemma note_log_error: "note_log env e ty payload actor command db = Inl x \<Longrightarrow> \<exists>y. x = NoteLog y"
  by (auto simp: note_log_def split: prod.splits sum.splits)

lemma note_audit_error: "note_audit env e action before after actor db = Inl x \<Longrightarrow> \<exists>y. x = NoteAudit y"
  by (auto simp: note_audit_def split: sum.splits)

lemma notes_inv_cong: "nd_notes db' = nd_notes db \<Longrightarrow> nd_next db' = nd_next db \<Longrightarrow> notes_inv db' = notes_inv db"
  by (simp add: notes_inv_def)

text \<open>A new row that starts a thread, and a new row at the end of one.\<close>

lemma add_row_inv:
  assumes inv: "notes_inv db" and new: "nt_id row = nd_next db" "nt_thread row = None" "nt_superseded row = None" "nt_version row = 1"
  shows "notes_inv (db\<lparr>nd_notes := nd_notes db @ [row], nd_next := Suc (nd_next db)\<rparr>)"
proof -
  have ids: "\<And>n. n \<in> set (nd_notes db) \<Longrightarrow> nt_id n < nd_next db" "distinct (map nt_id (nd_notes db))"
    and ok: "\<And>n. n \<in> set (nd_notes db) \<Longrightarrow> thread_ok (thread_of n) (members (thread_of n) (nd_notes db))"
    using inv by (auto simp: notes_inv_def)
  have t: "thread_of row = nd_next db" by (simp add: thread_of_def new)
  have old: "thread_of n \<noteq> nd_next db" if "n \<in> set (nd_notes db)" for n
  proof -
    have "hd (members (thread_of n) (nd_notes db)) \<in> set (members (thread_of n) (nd_notes db))"
      using ok [OF that] unfolding thread_ok_def by (intro hd_in_set) simp
    then have "nt_id (hd (members (thread_of n) (nd_notes db))) < nd_next db" using ids by simp
    then show ?thesis using ok [OF that] by (auto simp: thread_ok_def)
  qed
  then have "members (nd_next db) (nd_notes db) = []" by (auto simp: members_def filter_empty_conv)
  moreover have "nd_next db \<notin> nt_id ` set (nd_notes db)" using ids(1) by fastforce
  ultimately show ?thesis
    using ids ok old new t by (auto simp: notes_inv_def thread_ok_def less_Suc_eq)
qed

lemma edit_row_inv:
  assumes inv: "notes_inv db" and n: "n \<in> set (nd_notes db)" and old: "old = last (members (thread_of n) (nd_notes db))"
    and new: "nt_id row = nd_next db" "nt_thread row = Some (thread_of n)" "nt_superseded row = None" "nt_version row = Suc (nt_version old)"
      "nt_event row = nt_event n"
  shows "notes_inv (db\<lparr>nd_notes := supersede (nt_id old) (nd_next db) (nd_notes db @ [row]), nd_next := Suc (nd_next db)\<rparr>)"
proof -
  let ?t = "thread_of n" and ?rows = "nd_notes db"
  let ?ms = "members ?t ?rows" and ?rows' = "supersede (nt_id old) (nd_next db) (?rows @ [row])"
  have ids: "\<And>n. n \<in> set ?rows \<Longrightarrow> nt_id n < nd_next db" and dist: "distinct (map nt_id ?rows)"
    and ok: "\<And>n. n \<in> set ?rows \<Longrightarrow> thread_ok (thread_of n) (members (thread_of n) ?rows)"
    using inv by (auto simp: notes_inv_def)
  note okn = ok [OF n, unfolded thread_ok_def]
  have ne: "?ms \<noteq> []" using okn by blast
  have oldin: "old \<in> set ?rows" "thread_of old = ?t" using last_in_set [OF ne] by (auto simp: old)
  have t: "thread_of row = ?t" by (simp add: thread_of_def new)
  have map: "map f (supersede a b xs) = map f xs" if "\<And>m x. f (m\<lparr>nt_superseded := x\<rparr>) = f m" for f :: "note_row \<Rightarrow> 'z" and a b xs
    using that by (simp add: supersede_def)
  have "nd_next db \<notin> nt_id ` set ?rows" using ids by fastforce
  then have dist': "distinct (map nt_id (?rows @ [row]))" using dist new(1) by auto
  have same: "members u ?rows' = members u ?rows" if "u \<noteq> ?t" for u
  proof -
    have "nt_id old \<notin> nt_id ` set (members u ?rows)"
      using oldin that dist by (auto simp: distinct_map inj_on_def)
    then show ?thesis using that t by (simp add: members_supersede supersede_other)
  qed
  have chain: "members ?t ?rows' = supersede (nt_id (last ?ms)) (nt_id row) (?ms @ [row])"
    by (simp add: members_supersede t old new(1))
  have dm: "distinct (map nt_id (?ms @ [row]))"
    using dist' by (auto simp: members_def distinct_map inj_on_def)
  have okt: "thread_ok ?t (members ?t ?rows')"
    unfolding thread_ok_def chain
  proof (intro conjI)
    show "chained (supersede (nt_id (last ?ms)) (nt_id row) (?ms @ [row]))"
      using okn dm new old by (intro chained_extend) auto
    obtain m ms where ms: "?ms = m # ms" using ne by (cases ?ms) auto
    then show "nt_id (hd (supersede (nt_id (last ?ms)) (nt_id row) (?ms @ [row]))) = ?t"
      "nt_thread (hd (supersede (nt_id (last ?ms)) (nt_id row) (?ms @ [row]))) = None"
      "nt_version (hd (supersede (nt_id (last ?ms)) (nt_id row) (?ms @ [row]))) = 1"
      using okn by (auto simp: supersede_def)
    let ?s = "supersede (nt_id (last ?ms)) (nt_id row) (?ms @ [row])"
    have "\<forall>m\<in>set ?ms. nt_event m = nt_event n" using okn n by simp
    then have "\<forall>x\<in>set (map nt_event (?ms @ [row])). x = nt_event n" using new(5) by auto
    then have "\<forall>x\<in>set (map nt_event ?s). x = nt_event n" by (subst map) simp_all
    moreover have "hd ?s \<in> set ?s" by (rule hd_in_set) (simp add: supersede_def)
    ultimately show "\<forall>m\<in>set ?s. nt_event m = nt_event (hd ?s)" by (metis image_eqI list.set_map)
  qed (simp add: supersede_def)
  have "thread_ok (thread_of x) (members (thread_of x) ?rows')" if "x \<in> set ?rows'" for x
  proof (cases "thread_of x = ?t")
    case False
    have "thread_of x \<in> set (map thread_of ?rows')" using that by simp
    then have "thread_of x \<in> set (map thread_of (?rows @ [row]))" unfolding map [of thread_of, OF thread_of_superseded] .
    with False t obtain y where "y \<in> set ?rows" "thread_of y = thread_of x" by auto
    then show ?thesis using same [OF False] ok [of y] by simp
  qed (use okt in simp)
  moreover have "distinct (map nt_id ?rows')" using dist' map [of nt_id] by simp
  moreover have "nt_id x < Suc (nd_next db)" if "x \<in> set ?rows'" for x
  proof -
    have "nt_id x \<in> set (map nt_id ?rows')" using that by simp
    then have "nt_id x \<in> set (map nt_id (?rows @ [row]))" by (subst (asm) map) simp_all
    then show ?thesis using ids new(1) by (auto simp: less_Suc_eq)
  qed
  ultimately show ?thesis by (simp add: notes_inv_def)
qed

lemma add_note_inv:
  assumes "notes_inv db" "add_note env e kind raw actor command db = Inr (out, db')"
  shows "notes_inv db'"
proof -
  define row where "row = first_version env e (nd_next db) kind (py_strip raw) actor"
  have row: "nt_id row = nd_next db" "nt_thread row = None" "nt_superseded row = None" "nt_version row = 1"
    by (simp_all add: row_def first_version_def)
  have db': "nd_notes db' = nd_notes db @ [row]" "nd_next db' = Suc (nd_next db)"
    using assms(2) unfolding row_def
    by (auto simp: add_note_def Let_def bind_res_Inr split: if_splits dest!: note_log_fields note_audit_fields)
  show ?thesis
    using add_row_inv [OF assms(1) row] notes_inv_cong [of db' "db\<lparr>nd_notes := nd_notes db @ [row], nd_next := Suc (nd_next db)\<rparr>"] db'
    by simp
qed

text \<open>An edit finds the one live version, or the body is not a change.\<close>

lemma locked_self [simp]: "locked_versions e t rows rows = live_versions e t rows"
  by (simp add: locked_versions_def filter_id_conv)

lemmas edit_note_simp = edit_note_def edit_note_waited_def

lemma edit_note_unfold:
  assumes inv: "notes_inv db" and body: "py_strip raw \<noteq> []" "e \<in> set (nd_events db)"
    and ref: "find_first (\<lambda>n. nt_id n = note) (nd_notes db) = Some n" "nt_event n = e"
  defines "old \<equiv> last (members (thread_of n) (nd_notes db))"
  shows "edit_note env e note raw actor command db =
    (if py_strip raw = nt_body old then Inl NoteUnchanged
     else (let i = nd_next db; t = thread_of n; body = py_strip raw; new = next_version env e i old t body actor;
               db1 = db\<lparr>nd_notes := supersede (nt_id old) i (nd_notes db @ [new]), nd_next := Suc i\<rparr>
           in bind_res (note_log env e ''EVENT_NOTE_UPDATED''
                [(''note_id'', PStr (ne_uuid env i)), (''thread_id'', PStr (ne_uuid env t)),
                 (''supersedes_note_id'', PStr (ne_uuid env (nt_id old))), (''version'', PInt (int (nt_version new))),
                 (''kind'', PStr (nt_kind old)), (''body'', PStr body), (''actor_id'', PStr (ne_uuid env actor))]
                actor command db1) (\<lambda>(seq, db2).
              bind_res (note_audit env e ''EVENT_NOTE_UPDATED''
                (Some [(''note_id'', PStr (ne_uuid env (nt_id old))), (''version'', PInt (int (nt_version old))), (''body'', PStr (nt_body old))])
                [(''note_id'', PStr (ne_uuid env i)), (''version'', PInt (int (nt_version new))), (''body'', PStr body)]
                actor db2) (\<lambda>db3. Inr ((i, seq), db3)))))"
proof -
  have "n \<in> set (nd_notes db)" using find_first_Some [OF ref(1)] by simp
  then have "live_versions e (thread_of n) (nd_notes db) = [old]"
    using live_versions_last [OF inv, of n] ref(2) by (simp add: old_def)
  then show ?thesis
    using body ref by (simp add: edit_note_simp Let_def)
qed

lemma edit_note_inv:
  assumes inv: "notes_inv db" and run: "edit_note env e note raw actor command db = Inr (out, db')"
  shows "notes_inv db'"
proof -
  obtain n where n: "find_first (\<lambda>n. nt_id n = note) (nd_notes db) = Some n" "nt_event n = e" "py_strip raw \<noteq> []" "e \<in> set (nd_events db)"
    using run by (auto simp: edit_note_simp Let_def simp del: find_first_None split: if_splits option.splits)
  define old where "old = last (members (thread_of n) (nd_notes db))"
  define new where "new = next_version env e (nd_next db) old (thread_of n) (py_strip raw) actor"
  have db': "nd_notes db' = supersede (nt_id old) (nd_next db) (nd_notes db @ [new])" "nd_next db' = Suc (nd_next db)"
    using run unfolding edit_note_unfold [OF inv n(3,4,1,2)] old_def new_def
    by (auto simp: Let_def bind_res_Inr split: if_splits dest!: note_log_fields note_audit_fields)
  have new: "nt_id new = nd_next db" "nt_thread new = Some (thread_of n)" "nt_superseded new = None"
      "nt_version new = Suc (nt_version old)" "nt_event new = nt_event n"
    using n(2) by (simp_all add: new_def next_version_def)
  show ?thesis
    using edit_row_inv [OF inv _ old_def new] find_first_Some [OF n(1)] db'
      notes_inv_cong [of db' "db\<lparr>nd_notes := supersede (nt_id old) (nd_next db) (nd_notes db @ [new]), nd_next := Suc (nd_next db)\<rparr>"]
    by simp
qed

text \<open>An edit that waited does what it would do alone, or finds no row: the version it saw was superseded meanwhile.\<close>

lemma edit_note_waited_outcome:
  assumes inv: "notes_inv db"
  shows "edit_note_waited env seen e note raw actor command db \<in> {edit_note env e note raw actor command db, Inl NoLiveVersion}"
proof (cases "find_first (\<lambda>n. nt_id n = note) (nd_notes db)")
  case (Some n)
  show ?thesis
  proof (cases "nt_event n = e")
    case True
    obtain old where old: "live_versions e (thread_of n) (nd_notes db) = [old]"
      using live_versions_last [OF inv, of n] find_first_Some [OF Some] True by auto
    then have "locked_versions e (thread_of n) seen (nd_notes db) \<in> {[old], []}" by (simp add: locked_versions_def)
    then show ?thesis using Some old by (auto simp: edit_note_simp Let_def)
  qed (simp add: edit_note_simp Some Let_def)
next
  case None
  then show ?thesis by (simp add: edit_note_simp Let_def del: find_first_None)
qed

inductive notes_reach :: "notes_db \<Rightarrow> bool" where
  no_notes: "nd_notes db = [] \<Longrightarrow> notes_reach db"
| note_added: "notes_reach db \<Longrightarrow> add_note env e kind raw actor command db = Inr (out, db') \<Longrightarrow> notes_reach db'"
| note_edited: "notes_reach db \<Longrightarrow> edit_note env e note raw actor command db = Inr (out, db') \<Longrightarrow> notes_reach db'"
| note_edited_late: "notes_reach db \<Longrightarrow> edit_note_waited env seen e note raw actor command db = Inr (out, db') \<Longrightarrow> notes_reach db'"

lemma notes_reach_inv: "notes_reach db \<Longrightarrow> notes_inv db"
proof (induction rule: notes_reach.induct)
  case (no_notes db)
  then show ?case by (simp add: notes_inv_def)
next
  case (note_edited_late db env seen e ref raw actor command out db')
  then show ?case
    using edit_note_waited_outcome [of db env seen e ref raw actor command] edit_note_inv by (metis insertE singletonD sum.distinct(1))
qed (blast intro: add_note_inv edit_note_inv)+

section \<open>What a reader of the threads sees\<close>

lemma group_threads_map:
  "map_of (group_threads rows) t = (if t \<in> thread_of ` set rows then Some (members t rows) else None) \<and>
   fst ` set (group_threads rows) = thread_of ` set rows \<and> distinct (map fst (group_threads rows))"
  using group_by_map [of thread_of rows t] by (simp add: group_threads_def members_def)

text \<open>A thread as it should be shown: the last version, and the earlier ones in order.\<close>

definition thread_spec :: "note_row list \<Rightarrow> note_thread" where
  "thread_spec ms =
     \<lparr>th_id = nt_id (last ms), th_thread = nt_id (hd ms), th_kind = nt_kind (last ms), th_body = nt_body (last ms),
      th_version = nt_version (last ms), th_created_by = nt_created_by (hd ms), th_created = nt_created (hd ms),
      th_edited_by = nt_edited_by (last ms), th_edited = nt_edited (last ms), th_history = map version_of (butlast ms)\<rparr>"

lemma thread_view_spec:
  assumes ok: "thread_ok t ms" and perm: "mset ns = mset ms"
  shows "thread_view ns = thread_spec ms"
proof -
  have chain: "chained ms" "ms \<noteq> []" "map nt_version ms = [1..<1 + length ms]"
    using ok chained_versions by (auto simp: thread_ok_def)
  have sorted: "sorted (map nt_version ms)" "distinct (map nt_version ms)" unfolding chain(3) by (simp_all del: upt_Suc)
  have same: "mset (map nt_version (sort_key nt_version ns)) = mset (map nt_version ms)" using perm by simp
  have "map nt_version (sort_key nt_version ns) = sort (map nt_version ms)"
    using properties_for_sort [OF same] by simp
  also have "\<dots> = map nt_version ms" using sorted(1) by (rule sorted_sort_id)
  finally have "sort_key nt_version ns = ms"
    using sorted(2) mset_eq_setD [OF perm] by (auto simp: distinct_map intro: map_inj_on)
  moreover have "find_first (\<lambda>n. nt_superseded n = None) ms = Some (last ms)"
    using chain by (intro chained_current)
  ultimately show ?thesis
    using chained_live [OF chain(1,2)] by (simp add: thread_view_def thread_spec_def Let_def)
qed

lemma note_threads_set:
  assumes inv: "notes_inv db"
  shows "set (note_threads e (nd_notes db)) =
    (\<lambda>t. thread_spec (members t (nd_notes db))) ` thread_of ` {n \<in> set (nd_notes db). nt_event n = e}"
proof -
  let ?rows = "sort_key (\<lambda>n. (nt_version n, nt_created n)) (filter (\<lambda>n. nt_event n = e) (nd_notes db))"
  have view: "thread_view (members t ?rows) = thread_spec (members t (nd_notes db))"
    if "n \<in> set (nd_notes db)" "nt_event n = e" "thread_of n = t" for n t
  proof (rule thread_view_spec)
    show ok: "thread_ok t (members t (nd_notes db))" using inv that by (auto simp: notes_inv_def)
    have "\<forall>m\<in>set (members t (nd_notes db)). nt_event m = nt_event (hd (members t (nd_notes db)))"
      using ok unfolding thread_ok_def by blast
    then have "filter (\<lambda>m. nt_event m = e) (members t (nd_notes db)) = members t (nd_notes db)"
      using that by (intro filter_id_conv') auto
    then show "mset (members t ?rows) = mset (members t (nd_notes db))"
      by (metis (no_types, lifting) filter_filter members_def mset_filter mset_sort conj_commute filter_cong)
  qed
  have grp: "snd p = members (fst p) ?rows" if "p \<in> set (group_threads ?rows)" for p
  proof -
    have "map_of (group_threads ?rows) (fst p) = Some (snd p)"
      using that group_threads_map [of ?rows undefined] by (intro map_of_is_SomeI) (blast, simp)
    then show ?thesis using group_threads_map [of ?rows "fst p"] by (auto split: if_splits)
  qed
  have "set (note_threads e (nd_notes db)) = (\<lambda>p. thread_view (members (fst p) ?rows)) ` set (group_threads ?rows)"
    by (auto simp: note_threads_def Let_def grp intro!: image_cong)
  also have "\<dots> = (\<lambda>t. thread_view (members t ?rows)) ` thread_of ` set ?rows"
    using arg_cong [OF conjunct1 [OF conjunct2 [OF group_threads_map [of ?rows undefined]]], of "\<lambda>S. (\<lambda>t. thread_view (members t ?rows)) ` S"]
    by (simp only: image_image)
  also have "\<dots> = (\<lambda>t. thread_spec (members t (nd_notes db))) ` thread_of ` {n \<in> set (nd_notes db). nt_event n = e}"
    using view by (auto intro!: image_cong)
  finally show ?thesis .
qed

text \<open>C29. After any sequence of added and edited notes (an edit may name any version of a thread and may have waited for another): a thread is
  the versions 1, 2, ... in order, of which the last and no other is live, so that no edit that did not wait finds none or several live
  versions, and one that waited does the same or fails without a change; and the threads a reader gets are exactly the last versions, each with the
  earlier ones as its history.\<close>

theorem note_threads_linear:
  assumes "notes_reach db" "n \<in> set (nd_notes db)"
  shows "map nt_version (members (thread_of n) (nd_notes db)) = [1..<Suc (length (members (thread_of n) (nd_notes db)))] \<and>
    filter (\<lambda>m. nt_superseded m = None) (members (thread_of n) (nd_notes db)) = [last (members (thread_of n) (nd_notes db))] \<and>
    edit_note env e note raw actor command db \<notin> {Inl NoLiveVersion, Inl ManyLiveVersions} \<and>
    edit_note_waited env seen e note raw actor command db \<in> {edit_note env e note raw actor command db, Inl NoLiveVersion} \<and>
    set (note_threads e (nd_notes db)) =
      (\<lambda>t. thread_spec (members t (nd_notes db))) ` thread_of ` {m \<in> set (nd_notes db). nt_event m = e}"
proof -
  have inv: "notes_inv db" using assms(1) by (rule notes_reach_inv)
  then have ok: "thread_ok (thread_of n) (members (thread_of n) (nd_notes db))" using assms(2) by (auto simp: notes_inv_def)
  have "edit_note env e note raw actor command db \<notin> {Inl NoLiveVersion, Inl ManyLiveVersions}"
  proof (cases "find_first (\<lambda>n. nt_id n = note) (nd_notes db)")
    case (Some m)
    show ?thesis
    proof (cases "py_strip raw \<noteq> [] \<and> e \<in> set (nd_events db) \<and> nt_event m = e")
      case True
      then show ?thesis
        using edit_note_unfold [OF inv _ _ Some, of raw e env actor command]
        by (auto simp: Let_def bind_res_Inl dest!: note_log_error note_audit_error)
    qed (auto simp: edit_note_simp Some Let_def)
  qed (auto simp: edit_note_simp Let_def simp del: find_first_None)
  then show ?thesis
    using ok chained_versions chained_live note_threads_set [OF inv] edit_note_waited_outcome [OF inv] by (auto simp: thread_ok_def)
qed

text \<open>A note and its first edit.\<close>

definition sample_notes_env :: notes_env where
  "sample_notes_env = \<lparr>ne_events = \<lparr>ee_node = ''a'', ee_correlation = None, ee_now = 5, ee_secrets = [], ee_in_transaction = True\<rparr>,
     ne_audit = \<lparr>env_node = ''a'', env_correlation = None, env_now = 5, env_secrets = []\<rparr>,
     ne_validators = \<lparr>envelope_errors = (\<lambda>_. []), payload_errors = (\<lambda>_ _. Some (\<lambda>_. []))\<rparr>, ne_uuid = nat_str\<rparr>"

definition no_notes_db :: notes_db where
  "no_notes_db = \<lparr>nd_events = [7], nd_notes = [], nd_log = \<lparr>el_rows = [], el_next_seq = 1\<rparr>,
     nd_audit = \<lparr>audit_events = [], audit_next_seq = 1\<rparr>, nd_next = 1\<rparr>"

definition one_note :: "(note_error, (uuid \<times> nat) \<times> notes_db) res" where
  "one_note = add_note sample_notes_env 7 ''work'' '' first '' 9 20 no_notes_db"

definition edited_note :: "(note_error, (uuid \<times> nat) \<times> notes_db) res" where
  "edited_note = bind_res one_note (\<lambda>(_, db). edit_note sample_notes_env 7 1 ''second'' 9 21 db)"

definition edited_db :: notes_db where
  "edited_db = snd (ok_of ((0, 0), no_notes_db) edited_note)"

lemma edited_db_reach: "notes_reach edited_db"
proof -
  have "is_ok edited_note" by code_simp
  then have "bind_res one_note (\<lambda>(_, db). edit_note sample_notes_env 7 1 ''second'' 9 21 db) =
      Inr (fst (ok_of ((0, 0), no_notes_db) edited_note), edited_db)"
    unfolding edited_db_def prod.collapse by (subst edited_note_def [symmetric]) (rule ok_of_Inr)
  then obtain o1 db1 where one: "one_note = Inr (o1, db1)" and two: "edit_note sample_notes_env 7 1 ''second'' 9 21 db1 =
      Inr (fst (ok_of ((0, 0), no_notes_db) edited_note), edited_db)"
    unfolding bind_res_Inr by auto
  have "notes_reach no_notes_db" by (rule notes_reach.no_notes) (simp add: no_notes_db_def)
  then show ?thesis using one two by (auto simp: one_note_def intro: notes_reach.note_added notes_reach.note_edited)
qed

theorem note_threads_linear_witness:
  "map (\<lambda>n. (nt_id n, nt_version n, nt_superseded n)) (members 1 (nd_notes edited_db)) = [(1, 1, Some 2), (2, 2, None)] \<and>
   map nt_version (members 1 (nd_notes edited_db)) = [1..<Suc (length (members 1 (nd_notes edited_db)))] \<and>
   set (note_threads 7 (nd_notes edited_db)) = {thread_spec (members 1 (nd_notes edited_db))}"
proof -
  have rows: "map (\<lambda>n. (nt_id n, nt_version n, nt_superseded n)) (members 1 (nd_notes edited_db)) = [(1, 1, Some 2), (2, 2, None)]"
    "map (\<lambda>n. (nt_event n, thread_of n)) (nd_notes edited_db) = [(7, 1), (7, 1)]"
    by code_simp+
  obtain a b where ab: "nd_notes edited_db = [a, b]" "nt_event a = 7" "nt_event b = 7" "thread_of a = 1" "thread_of b = 1"
    using rows(2) by (auto simp: Cons_eq_map_conv map_eq_Cons_conv)
  have "{m \<in> set (nd_notes edited_db). nt_event m = 7} = {a, b}" using ab by auto
  then show ?thesis
    using note_threads_linear [OF edited_db_reach, of a sample_notes_env 7 1 "[]" 9 1 "[]"] rows(1) ab by (simp del: upt_Suc)
qed

text \<open>
  Of two edits of one note at the same time, both of which saw the first version, the one that waits finds no row to edit, and the
  \<^verbatim>\<open>scalar_one\<close> of the endpoint raises.
\<close>

theorem concurrent_edit_fails:
  "map_sum id (\<lambda>(_, db). edit_note_waited sample_notes_env (nd_notes db) 7 1 ''third'' 9 22 edited_db) one_note = Inr (Inl NoLiveVersion)"
  by code_simp

end
