(* ===== verification/Trigger_Rules.thy ===== *)
theory Trigger_Rules
  imports Rule_Dsl Audit_Trail "HOL-Library.Product_Lexorder"
begin

text \<open>
  Trigger rules: the typed actions and the publish gate (\<^verbatim>\<open>domain/triggers/actions.py\<close>, \<^verbatim>\<open>domain/triggers/rules.py\<close>), the deterministic
  selection of the rules a signal matches, and the versioned lifecycle of a rule (\<^verbatim>\<open>infra/repositories/trigger_rules.py\<close> over
  \<^verbatim>\<open>infra/models/trigger_rules.py\<close>). Every method of the service is one transaction; one that raises changes nothing.
\<close>

section \<open>Python's \<^verbatim>\<open>str\<close>\<close>

text \<open>\<^verbatim>\<open>str\<close> of a JSON value: the text of a scalar; the text of a float, a list or a dictionary is a parameter.\<close>

definition py_str :: "(pyval \<Rightarrow> string) \<Rightarrow> pyval \<Rightarrow> string" where
  "py_str other v =
     (case v of PStr s \<Rightarrow> s | PNone \<Rightarrow> ''None'' | PBool b \<Rightarrow> (if b then ''True'' else ''False'') | PInt i \<Rightarrow> int_str i | _ \<Rightarrow> other v)"

section \<open>Actions\<close>

definition TRIGGER_ACTION_TYPES :: "string list" where
  "TRIGGER_ACTION_TYPES = [''create_event'', ''attach_workflow'', ''show_client_popup'', ''notify'', ''integration_action'', ''open_camera'',
     ''open_camera_group'', ''answer_call'', ''send_dtmf_profile'', ''hangup_call'', ''launch_catalog_app'']"

definition TRANSACTIONAL_ACTION_TYPES :: "string list" where
  "TRANSACTIONAL_ACTION_TYPES = [''create_event'', ''attach_workflow'']"

definition OUTBOX_ACTION_TYPES :: "string list" where
  "OUTBOX_ACTION_TYPES = filter (\<lambda>t. t \<notin> set TRANSACTIONAL_ACTION_TYPES) TRIGGER_ACTION_TYPES"

definition SUPPORTED_ACTION_TYPES :: "string list" where
  "SUPPORTED_ACTION_TYPES = [''create_event'', ''attach_workflow'', ''show_client_popup'', ''notify'', ''integration_action'', ''open_camera'',
     ''open_camera_group'', ''answer_call'', ''send_dtmf_profile'', ''hangup_call'']"

datatype action_type_error = UnknownActionType string | NotViaOutbox string

definition outbox_action_type :: "string \<Rightarrow> (action_type_error, string) res" where
  "outbox_action_type raw =
     (if raw \<notin> set TRIGGER_ACTION_TYPES then Inl (UnknownActionType raw)
      else if raw \<notin> set OUTBOX_ACTION_TYPES then Inl (NotViaOutbox raw)
      else Inr raw)"

section \<open>The publish gate\<close>

definition EVENT_PRIORITIES :: "string list" where
  "EVENT_PRIORITIES = [''critical'', ''high'', ''medium'', ''low'']"

definition SEVERITY_RANK :: "(string \<times> int) list" where
  "SEVERITY_RANK = [(''low'', 1), (''medium'', 2), (''high'', 3), (''critical'', 4)]"

text \<open>The result of the check: a condition error is returned, Python's own \<^verbatim>\<open>TypeError\<close> is not caught.\<close>

definition validate_conditions :: "pydict \<Rightarrow> (dsl_error, dsl_error option) res" where
  "validate_conditions c =
     (if c = [] then Inr None
      else (case schema_validate TRIGGER_CONTEXT (PDict c) of
              Inr _ \<Rightarrow> Inr None
            | Inl UnhashableOp \<Rightarrow> Inl UnhashableOp
            | Inl e \<Rightarrow> Inr (Some e)))"

datatype action_problem = ActionNotObject nat | ActionUnknown nat string | ActionUnavailable nat string | ActionConfig nat string

record text_env =
  tx_str :: "pyval \<Rightarrow> string"
  tx_parse :: "string \<Rightarrow> uuid option"

definition is_uuid :: "text_env \<Rightarrow> pyval \<Rightarrow> bool" where
  "is_uuid tx v \<longleftrightarrow> tx_parse tx (py_str (tx_str tx) v) \<noteq> None"

definition blank :: "text_env \<Rightarrow> pyval \<Rightarrow> bool" where
  "blank tx v \<longleftrightarrow> py_strip (py_str (tx_str tx) v) = []"

definition action_config_problems :: "text_env \<Rightarrow> string \<Rightarrow> pydict \<Rightarrow> string list" where
  "action_config_problems tx t a =
     (if t = ''attach_workflow'' \<and> blank tx (get_default a ''template_key'' (PStr [])) then [''attach_workflow requires template_key''] else []) @
     (if t = ''show_client_popup'' \<and> \<not> is_uuid tx (dict_get a ''workplace_id'')
      then [''show_client_popup requires a workplace_id (uuid)''] else []) @
     (if t = ''create_event'' \<and> has_key a ''priority'' \<and> py_str (tx_str tx) (dict_get a ''priority'') \<notin> set EVENT_PRIORITIES
      then [''invalid priority''] else []) @
     (if t = ''send_dtmf_profile''
      then (if blank tx (get_default a ''dtmf_profile_id'' (PStr [])) then [''send_dtmf_profile requires dtmf_profile_id''] else []) @
           (if has_key a ''code'' \<or> has_key a ''dtmf'' then [''a DTMF code must never appear in a rule action''] else [])
      else []) @
     (if t = ''open_camera'' \<and> blank tx (py_or (py_or (dict_get a ''camera_ref'') (dict_get a ''camera_id'')) (PStr []))
      then [''open_camera requires camera_ref''] else []) @
     (if t = ''open_camera_group'' \<and>
         \<not> (case dict_get a ''camera_refs'' of PList rs \<Rightarrow> list_ex (\<lambda>r. \<not> blank tx r) rs | _ \<Rightarrow> False) \<and>
         blank tx (py_or (dict_get a ''camera_group_ref'') (PStr []))
      then [''open_camera_group requires camera_refs or camera_group_ref''] else []) @
     (if t = ''integration_action'' \<and> blank tx (py_or (dict_get a ''capability'') (PStr []))
      then [''integration_action requires capability''] else [])"

fun action_problems :: "text_env \<Rightarrow> nat \<Rightarrow> pyval \<Rightarrow> action_problem list" where
  "action_problems tx i (PDict a) =
     (let t = py_str (tx_str tx) (get_default a ''type'' (PStr [])) in
      if t \<notin> set TRIGGER_ACTION_TYPES then [ActionUnknown i t]
      else if t \<notin> set SUPPORTED_ACTION_TYPES then [ActionUnavailable i t]
      else map (ActionConfig i) (action_config_problems tx t a))"
| "action_problems tx i _ = [ActionNotObject i]"

definition validate_actions :: "text_env \<Rightarrow> pyval list \<Rightarrow> action_problem list" where
  "validate_actions tx actions = concat (map (\<lambda>(i, a). action_problems tx i a) (zip [0..<length actions] actions))"

datatype blocker = BadCondition dsl_error | NoAction | BadAction action_problem

definition publish_blockers :: "text_env \<Rightarrow> pydict \<Rightarrow> pyval list \<Rightarrow> (dsl_error, blocker list) res" where
  "publish_blockers tx conditions actions =
     bind_res (validate_conditions conditions) (\<lambda>problem.
       Inr ((case problem of None \<Rightarrow> [] | Some e \<Rightarrow> [BadCondition e]) @ (if actions = [] then [NoAction] else []) @
            map BadAction (validate_actions tx actions)))"

section \<open>Matching\<close>

definition as_dict :: "pyval \<Rightarrow> pydict" where
  "as_dict v = (case v of PDict d \<Rightarrow> d | _ \<Rightarrow> [])"

definition signal_to_context :: "pydict \<Rightarrow> pydict" where
  "signal_to_context sig =
     (let src = as_dict (dict_get sig ''source'') in
      [(''provider'', dict_get sig ''provider''), (''signal_type'', dict_get sig ''signal_type''),
       (''calling_number'', dict_get src ''ani''), (''called_number'', dict_get src ''dnis''),
       (''cti_route_point'', dict_get src ''cti_route_point''), (''technical_endpoint_id'', dict_get src ''technical_endpoint_id''),
       (''external_source_id'', dict_get src ''external_source_id''), (''site'', dict_get src ''site''),
       (''call_direction'', dict_get src ''direction''), (''call_state'', dict_get src ''call_state''),
       (''alarm_subtype'', dict_get src ''alarm_subtype''),
       (''severity'', case dict_get src ''severity'' of
          PStr s \<Rightarrow> (case map_of SEVERITY_RANK s of Some r \<Rightarrow> PInt r | None \<Rightarrow> PNone) | _ \<Rightarrow> PNone)])"

definition rule_matches :: "pydict \<Rightarrow> pydict \<Rightarrow> (dsl_error, bool) res" where
  "rule_matches conditions sig =
     (if conditions = [] then Inr True
      else bind_res (parse_tree (PDict conditions)) (\<lambda>e. evaluate e (signal_to_context sig)))"

record candidate_rule =
  cr_rule :: uuid
  cr_priority :: int
  cr_conditions :: pydict

text \<open>The list comprehension tests the rules in order and raises at the first error; the sort key is \<^verbatim>\<open>(priority, str(rule_id))\<close>.\<close>

fun filter_res :: "('a \<Rightarrow> ('e, bool) res) \<Rightarrow> 'a list \<Rightarrow> ('e, 'a list) res" where
  "filter_res p [] = Inr []"
| "filter_res p (x # xs) = bind_res (p x) (\<lambda>b. bind_res (filter_res p xs) (\<lambda>ys. Inr (if b then x # ys else ys)))"

definition select_matching_rules ::
  "(uuid \<Rightarrow> string) \<Rightarrow> candidate_rule list \<Rightarrow> pydict \<Rightarrow> (dsl_error, candidate_rule list) res" where
  "select_matching_rules us rules sig =
     bind_res (filter_res (\<lambda>r. rule_matches (cr_conditions r) sig) rules) (\<lambda>matched.
       Inr (sort_key (\<lambda>r. (cr_priority r, us (cr_rule r))) matched))"

section \<open>Rules and versions\<close>

datatype trigger_lifecycle = TDraft | TValidated | TPublished | TRetired

record trigger_rule =
  tl_id :: uuid
  tl_name :: string
  tl_endpoint :: "uuid option"
  tl_lifecycle :: trigger_lifecycle
  tl_priority :: int

record trigger_version =
  tv_id :: uuid
  tv_rule :: uuid
  tv_no :: nat
  tv_lifecycle :: trigger_lifecycle
  tv_conditions :: pydict
  tv_actions :: "pyval list"
  tv_changelog :: "string option"
  tv_published_at :: "instant option"
  tv_published_by :: "uuid option"

record rule_store =
  ts_rules :: "trigger_rule list"
  ts_versions :: "trigger_version list"
  ts_endpoints :: "uuid list"
  ts_audit :: audit_db
  ts_next :: uuid

record rule_env =
  rn_audit :: audit_env
  rn_uuid :: "uuid \<Rightarrow> string"
  rn_text :: text_env

definition rn_now :: "rule_env \<Rightarrow> instant" where
  "rn_now env = env_now (rn_audit env)"

datatype rule_error =
    RuleNotFound uuid | RuleVersionNotFound uuid | EndpointNotFound uuid | InvalidRuleTransition | RuleNotValidated trigger_lifecycle
  | RulePublishBlocked "blocker list" | RuleHasPublished uuid | ConditionTypeError dsl_error | RuleAudit audit_error

section \<open>Reads\<close>

definition list_rules :: "rule_store \<Rightarrow> trigger_rule list" where
  "list_rules st = sort_key (\<lambda>r. (tl_priority r, tl_name r)) (ts_rules st)"

definition get_rule :: "uuid \<Rightarrow> rule_store \<Rightarrow> (rule_error, trigger_rule) res" where
  "get_rule r st = (case find_first (\<lambda>x. tl_id x = r) (ts_rules st) of None \<Rightarrow> Inl (RuleNotFound r) | Some x \<Rightarrow> Inr x)"

definition versions_for :: "uuid \<Rightarrow> rule_store \<Rightarrow> trigger_version list" where
  "versions_for r st = sort_key tv_no (filter (\<lambda>v. tv_rule v = r) (ts_versions st))"

definition get_version :: "uuid \<Rightarrow> rule_store \<Rightarrow> (rule_error, trigger_version) res" where
  "get_version v st = (case find_first (\<lambda>x. tv_id x = v) (ts_versions st) of None \<Rightarrow> Inl (RuleVersionNotFound v) | Some x \<Rightarrow> Inr x)"

definition published_version_id :: "uuid \<Rightarrow> uuid option \<Rightarrow> rule_store \<Rightarrow> uuid option" where
  "published_version_id r exclude st =
     map_option tv_id (find_first (\<lambda>v. tv_rule v = r \<and> tv_lifecycle v = TPublished \<and> Some (tv_id v) \<noteq> exclude) (ts_versions st))"

section \<open>Writes\<close>

definition rule_audit ::
  "rule_env \<Rightarrow> string \<Rightarrow> uuid \<Rightarrow> uuid option \<Rightarrow> pydict \<Rightarrow> string option \<Rightarrow> rule_store \<Rightarrow> (rule_error, rule_store) res" where
  "rule_audit env action r actor after reason st =
     (case audit_write (rn_audit env) True
        \<lparr>rq_action = action, rq_actor = actor, rq_client = None, rq_workplace = None, rq_target_type = Some ''trigger_rule'',
          rq_target_id = Some (rn_uuid env r), rq_before = None, rq_after = Some after, rq_reason = reason, rq_event_seq = None\<rparr>
        (ts_audit st) of
        Inl e \<Rightarrow> Inl (RuleAudit e)
      | Inr a \<Rightarrow> Inr (st\<lparr>ts_audit := a\<rparr>))"

definition require_endpoint :: "uuid option \<Rightarrow> rule_store \<Rightarrow> (rule_error, unit) res" where
  "require_endpoint e st =
     (case e of None \<Rightarrow> Inr () | Some i \<Rightarrow> if i \<in> set (ts_endpoints st) then Inr () else Inl (EndpointNotFound i))"

record rule_input =
  ri_name :: string
  ri_conditions :: pydict
  ri_actions :: "pyval list"
  ri_priority :: int
  ri_endpoint :: "uuid option"
  ri_changelog :: "string option"

definition draft_version :: "uuid \<Rightarrow> uuid \<Rightarrow> nat \<Rightarrow> pydict \<Rightarrow> pyval list \<Rightarrow> string option \<Rightarrow> trigger_version" where
  "draft_version i r n conditions actions changelog =
     \<lparr>tv_id = i, tv_rule = r, tv_no = n, tv_lifecycle = TDraft, tv_conditions = conditions, tv_actions = actions,
       tv_changelog = changelog, tv_published_at = None, tv_published_by = None\<rparr>"

definition create_rule :: "rule_env \<Rightarrow> rule_input \<Rightarrow> uuid option \<Rightarrow> rule_store \<Rightarrow> (rule_error, (uuid \<times> uuid) \<times> rule_store) res" where
  "create_rule env d actor st =
     bind_res (require_endpoint (ri_endpoint d) st) (\<lambda>_.
       let r = ts_next st; v = Suc r;
           st1 = st\<lparr>ts_rules := ts_rules st @ [\<lparr>tl_id = r, tl_name = ri_name d, tl_endpoint = ri_endpoint d, tl_lifecycle = TDraft,
                      tl_priority = ri_priority d\<rparr>],
                    ts_versions := ts_versions st @ [draft_version v r 1 (ri_conditions d) (ri_actions d) (ri_changelog d)],
                    ts_next := Suc v\<rparr>
       in bind_res (rule_audit env ''TRIGGER_RULE_CREATED'' r actor
            [(''name'', PStr (ri_name d)), (''priority'', PInt (ri_priority d)), (''version_id'', PStr (rn_uuid env v))] None st1) (\<lambda>st2.
            Inr ((r, v), st2)))"

text \<open>The changes of a rule's own fields, in the order of the request's dictionary; any other key is refused.\<close>

datatype rule_change = SetName string | SetPriority int | SetEndpoint "uuid option" | SetOther string

fun apply_change :: "rule_change \<Rightarrow> trigger_rule \<Rightarrow> trigger_rule" where
  "apply_change (SetName n) r = r\<lparr>tl_name := n\<rparr>"
| "apply_change (SetPriority p) r = r\<lparr>tl_priority := p\<rparr>"
| "apply_change (SetEndpoint e) r = r\<lparr>tl_endpoint := e\<rparr>"
| "apply_change (SetOther _) r = r"

fun is_other :: "rule_change \<Rightarrow> bool" where
  "is_other (SetOther _) = True"
| "is_other _ = False"

definition endpoint_text :: "rule_env \<Rightarrow> uuid option \<Rightarrow> pyval" where
  "endpoint_text env e = (case e of None \<Rightarrow> PNone | Some i \<Rightarrow> PStr (rn_uuid env i))"

fun change_entry :: "rule_env \<Rightarrow> rule_change \<Rightarrow> string \<times> pyval" where
  "change_entry env (SetName n) = (''name'', PStr n)"
| "change_entry env (SetPriority p) = (''priority'', PInt p)"
| "change_entry env (SetEndpoint e) = (''endpoint_id'', endpoint_text env e)"
| "change_entry env (SetOther k) = (k, PNone)"

fun current_entry :: "rule_env \<Rightarrow> trigger_rule \<Rightarrow> rule_change \<Rightarrow> string \<times> pyval" where
  "current_entry env r (SetName _) = (''name'', PStr (tl_name r))"
| "current_entry env r (SetPriority _) = (''priority'', PInt (tl_priority r))"
| "current_entry env r (SetEndpoint _) = (''endpoint_id'', endpoint_text env (tl_endpoint r))"
| "current_entry env r (SetOther k) = (k, PNone)"

definition check_endpoints :: "rule_change list \<Rightarrow> rule_store \<Rightarrow> (rule_error, unit) res" where
  "check_endpoints changes st =
     fold_res (\<lambda>c _. case c of SetEndpoint e \<Rightarrow> require_endpoint e st | _ \<Rightarrow> Inr ()) changes ()"

definition update_rule :: "rule_env \<Rightarrow> uuid \<Rightarrow> rule_change list \<Rightarrow> uuid option \<Rightarrow> rule_store \<Rightarrow> (rule_error, rule_store) res" where
  "update_rule env r changes actor st =
     (if list_ex is_other changes then Inl InvalidRuleTransition
      else bind_res (get_rule r st) (\<lambda>rule.
        bind_res (check_endpoints changes st) (\<lambda>_.
        let before = map (current_entry env rule) changes; after = map (change_entry env) changes in
        if before = after then Inr st
        else rule_audit env ''TRIGGER_RULE_UPDATED'' r actor [(''before'', PDict before), (''after'', PDict after)] None
               (st\<lparr>ts_rules := map (\<lambda>x. if tl_id x = r then fold apply_change changes x else x) (ts_rules st)\<rparr>))))"

definition delete_rule :: "rule_env \<Rightarrow> uuid \<Rightarrow> uuid option \<Rightarrow> rule_store \<Rightarrow> (rule_error, rule_store) res" where
  "delete_rule env r actor st =
     bind_res (get_rule r st) (\<lambda>rule.
       if published_version_id r None st \<noteq> None then Inl (RuleHasPublished r)
       else bind_res (rule_audit env ''TRIGGER_RULE_UPDATED'' r actor [(''deleted'', PStr (tl_name rule))] None st) (\<lambda>st1.
         Inr (st1\<lparr>ts_rules := filter (\<lambda>x. tl_id x \<noteq> r) (ts_rules st1), ts_versions := filter (\<lambda>v. tv_rule v \<noteq> r) (ts_versions st1)\<rparr>)))"

definition next_no :: "uuid \<Rightarrow> rule_store \<Rightarrow> nat" where
  "next_no r st = Suc (fold max (map tv_no (filter (\<lambda>v. tv_rule v = r) (ts_versions st))) 0)"

definition add_version ::
  "rule_env \<Rightarrow> uuid \<Rightarrow> pydict \<Rightarrow> pyval list \<Rightarrow> string option \<Rightarrow> uuid option \<Rightarrow> rule_store \<Rightarrow> (rule_error, uuid \<times> rule_store) res" where
  "add_version env r conditions actions changelog actor st =
     bind_res (get_rule r st) (\<lambda>_.
       let v = ts_next st; n = next_no r st;
           st1 = st\<lparr>ts_versions := ts_versions st @ [draft_version v r n conditions actions changelog], ts_next := Suc v\<rparr>
       in bind_res (rule_audit env ''TRIGGER_RULE_UPDATED'' r actor
            [(''new_version_no'', PInt (int n)), (''version_id'', PStr (rn_uuid env v))] None st1) (\<lambda>st2. Inr (v, st2)))"

definition rule_set_version :: "uuid \<Rightarrow> (trigger_version \<Rightarrow> trigger_version) \<Rightarrow> rule_store \<Rightarrow> rule_store" where
  "rule_set_version v f st = st\<lparr>ts_versions := map (\<lambda>x. if tv_id x = v then f x else x) (ts_versions st)\<rparr>"

definition edit_rule_draft ::
  "rule_env \<Rightarrow> uuid \<Rightarrow> pydict \<Rightarrow> pyval list \<Rightarrow> string option \<Rightarrow> uuid option \<Rightarrow> rule_store \<Rightarrow> (rule_error, rule_store) res" where
  "edit_rule_draft env v conditions actions changelog actor st =
     bind_res (get_version v st) (\<lambda>row.
       if tv_lifecycle row \<noteq> TDraft then Inl InvalidRuleTransition
       else rule_audit env ''TRIGGER_RULE_UPDATED'' (tv_rule row) actor [(''version_id'', PStr (rn_uuid env v)), (''edited'', PBool True)] None
              (rule_set_version v (\<lambda>x. x\<lparr>tv_conditions := conditions, tv_actions := actions,
                 tv_changelog := (case changelog of None \<Rightarrow> tv_changelog x | c \<Rightarrow> c)\<rparr>) st))"

definition delete_rule_draft :: "rule_env \<Rightarrow> uuid \<Rightarrow> uuid option \<Rightarrow> rule_store \<Rightarrow> (rule_error, rule_store) res" where
  "delete_rule_draft env v actor st =
     bind_res (get_version v st) (\<lambda>row.
       if tv_lifecycle row \<noteq> TDraft then Inl InvalidRuleTransition
       else bind_res (rule_audit env ''TRIGGER_RULE_UPDATED'' (tv_rule row) actor [(''deleted_version_id'', PStr (rn_uuid env v))] None st)
         (\<lambda>st1. Inr (st1\<lparr>ts_versions := filter (\<lambda>x. tv_id x \<noteq> v) (ts_versions st1)\<rparr>)))"

section \<open>Lifecycle\<close>

definition lift_blockers :: "text_env \<Rightarrow> trigger_version \<Rightarrow> (rule_error, blocker list) res" where
  "lift_blockers tx row =
     (case publish_blockers tx (tv_conditions row) (tv_actions row) of Inl e \<Rightarrow> Inl (ConditionTypeError e) | Inr bs \<Rightarrow> Inr bs)"

definition version_entry :: "rule_env \<Rightarrow> trigger_version \<Rightarrow> pydict" where
  "version_entry env row = [(''version_id'', PStr (rn_uuid env (tv_id row))), (''version_no'', PInt (int (tv_no row)))]"

definition rule_validate_version :: "rule_env \<Rightarrow> uuid \<Rightarrow> uuid option \<Rightarrow> rule_store \<Rightarrow> (rule_error, blocker list \<times> rule_store) res" where
  "rule_validate_version env v actor st =
     bind_res (get_version v st) (\<lambda>row.
       if tv_lifecycle row \<notin> {TDraft, TValidated} then Inl InvalidRuleTransition
       else bind_res (lift_blockers (rn_text env) row) (\<lambda>issues.
         if issues \<noteq> [] then Inr (issues, st)
         else bind_res (rule_audit env ''TRIGGER_RULE_VALIDATED'' (tv_rule row) actor (version_entry env row) None
                (rule_set_version v (\<lambda>x. x\<lparr>tv_lifecycle := TValidated\<rparr>) st)) (\<lambda>st1. Inr ([], st1))))"

definition retire_current :: "uuid \<Rightarrow> uuid \<Rightarrow> rule_store \<Rightarrow> uuid option \<times> rule_store" where
  "retire_current r keep st =
     (let current = filter (\<lambda>v. tv_rule v = r \<and> tv_lifecycle v = TPublished \<and> tv_id v \<noteq> keep) (ts_versions st)
      in (if current = [] then None else Some (tv_id (last current)),
          st\<lparr>ts_versions := map (\<lambda>v. if tv_rule v = r \<and> tv_lifecycle v = TPublished \<and> tv_id v \<noteq> keep
               then v\<lparr>tv_lifecycle := TRetired\<rparr> else v) (ts_versions st)\<rparr>))"

definition set_rule_lifecycle :: "uuid \<Rightarrow> trigger_lifecycle \<Rightarrow> rule_store \<Rightarrow> rule_store" where
  "set_rule_lifecycle r l st = st\<lparr>ts_rules := map (\<lambda>x. if tl_id x = r then x\<lparr>tl_lifecycle := l\<rparr> else x) (ts_rules st)\<rparr>"

definition mark_published :: "rule_env \<Rightarrow> uuid option \<Rightarrow> string option \<Rightarrow> trigger_version \<Rightarrow> trigger_version" where
  "mark_published env actor changelog x =
     x\<lparr>tv_lifecycle := TPublished, tv_published_at := Some (rn_now env), tv_published_by := actor,
       tv_changelog := (case changelog of Some c \<Rightarrow> if py_strip c \<noteq> [] then Some (py_strip c) else tv_changelog x | None \<Rightarrow> tv_changelog x)\<rparr>"

definition rule_publish_version ::
  "rule_env \<Rightarrow> uuid \<Rightarrow> uuid option \<Rightarrow> string option \<Rightarrow> rule_store \<Rightarrow> (rule_error, rule_store) res" where
  "rule_publish_version env v actor changelog st =
     bind_res (get_version v st) (\<lambda>row.
       if tv_lifecycle row \<noteq> TValidated then Inl (RuleNotValidated (tv_lifecycle row))
       else bind_res (lift_blockers (rn_text env) row) (\<lambda>issues.
         if issues \<noteq> [] then Inl (RulePublishBlocked issues)
         else (let (superseded, st1) = retire_current (tv_rule row) v st;
                   st2 = set_rule_lifecycle (tv_rule row) TPublished (rule_set_version v (mark_published env actor changelog) st1)
               in rule_audit env ''TRIGGER_RULE_PUBLISHED'' (tv_rule row) actor
                    (version_entry env row @ [(''superseded_version_id'', endpoint_text env superseded)]) changelog st2)))"

definition retire_version :: "rule_env \<Rightarrow> uuid \<Rightarrow> uuid option \<Rightarrow> rule_store \<Rightarrow> (rule_error, rule_store) res" where
  "retire_version env v actor st =
     bind_res (get_version v st) (\<lambda>row.
       if tv_lifecycle row \<noteq> TPublished then Inl InvalidRuleTransition
       else (let st1 = rule_set_version v (\<lambda>x. x\<lparr>tv_lifecycle := TRetired\<rparr>) st;
                 st2 = (if published_version_id (tv_rule row) (Some v) st1 = None then set_rule_lifecycle (tv_rule row) TRetired st1 else st1)
             in rule_audit env ''TRIGGER_RULE_RETIRED'' (tv_rule row) actor (version_entry env row) None st2))"

section \<open>What the engine reads\<close>

text \<open>The join is ordered by version number, highest first, and the first row of each rule is kept.\<close>

fun first_per :: "('a \<Rightarrow> 'k) \<Rightarrow> 'k set \<Rightarrow> 'a list \<Rightarrow> 'a list" where
  "first_per key seen [] = []"
| "first_per key seen (x # xs) = (if key x \<in> seen then first_per key seen xs else x # first_per key (insert (key x) seen) xs)"

definition published_rows :: "rule_store \<Rightarrow> (trigger_rule \<times> trigger_version) list" where
  "published_rows st =
     concat (map (\<lambda>v. map (\<lambda>r. (r, v)) (filter (\<lambda>r. tl_id r = tv_rule v \<and> tl_lifecycle r = TPublished) (ts_rules st)))
       (sort_key (\<lambda>v. - int (tv_no v)) (filter (\<lambda>v. tv_lifecycle v = TPublished) (ts_versions st))))"

definition candidates :: "rule_store \<Rightarrow> candidate_rule list" where
  "candidates st = first_per cr_rule {}
     (map (\<lambda>(r, v). \<lparr>cr_rule = tl_id r, cr_priority = tl_priority r, cr_conditions = tv_conditions v\<rparr>) (published_rows st))"

definition published_version :: "uuid \<Rightarrow> rule_store \<Rightarrow> trigger_version option" where
  "published_version r st =
     (case sort_key (\<lambda>v. - int (tv_no v)) (filter (\<lambda>v. tv_rule v = r \<and> tv_lifecycle v = TPublished) (ts_versions st)) of
        [] \<Rightarrow> None | v # _ \<Rightarrow> Some v)"

section \<open>Invariant of the store\<close>

definition ids_inv :: "rule_store \<Rightarrow> bool" where
  "ids_inv st \<longleftrightarrow> distinct (map tl_id (ts_rules st)) \<and> distinct (map tv_id (ts_versions st)) \<and>
     (\<forall>i\<in>tl_id ` set (ts_rules st) \<union> tv_id ` set (ts_versions st). i < ts_next st) \<and>
     tv_rule ` set (ts_versions st) \<subseteq> tl_id ` set (ts_rules st) \<and>
     distinct (map (\<lambda>v. (tv_rule v, tv_no v)) (ts_versions st))"

definition published_of :: "uuid \<Rightarrow> trigger_version list \<Rightarrow> trigger_version list" where
  "published_of r vs = filter (\<lambda>v. tv_rule v = r \<and> tv_lifecycle v = TPublished) vs"

definition pub_inv :: "text_env \<Rightarrow> rule_store \<Rightarrow> bool" where
  "pub_inv tx st \<longleftrightarrow>
     (\<forall>r\<in>set (ts_rules st). tl_lifecycle r = TPublished \<longrightarrow> (\<exists>v. published_of (tl_id r) (ts_versions st) = [v])) \<and>
     (\<forall>r\<in>set (ts_rules st). tl_lifecycle r \<noteq> TPublished \<longrightarrow> published_of (tl_id r) (ts_versions st) = []) \<and>
     (\<forall>v\<in>set (ts_versions st). tv_lifecycle v = TPublished \<longrightarrow> publish_blockers tx (tv_conditions v) (tv_actions v) = Inr [])"

definition rules_inv :: "text_env \<Rightarrow> rule_store \<Rightarrow> bool" where
  "rules_inv tx st \<longleftrightarrow> ids_inv st \<and> pub_inv tx st"

text \<open>What a step leaves of the versions that have been published: their conditions and actions, while they exist.\<close>

definition frozen :: "rule_store \<Rightarrow> rule_store \<Rightarrow> bool" where
  "frozen st st' \<longleftrightarrow> ts_next st \<le> ts_next st' \<and>
     (\<forall>v\<in>set (ts_versions st). \<forall>w\<in>set (ts_versions st'). tv_id w = tv_id v \<longrightarrow> tv_lifecycle v \<in> {TPublished, TRetired} \<longrightarrow>
        tv_conditions w = tv_conditions v \<and> tv_actions w = tv_actions v \<and> tv_lifecycle w \<in> {TPublished, TRetired}) \<and>
     (\<forall>w\<in>set (ts_versions st'). tv_id w < ts_next st \<longrightarrow> tv_id w \<in> tv_id ` set (ts_versions st))"

datatype rule_op =
    CreateRule rule_input | UpdateRule uuid "rule_change list" | DeleteRule uuid
  | AddVersion uuid pydict "pyval list" "string option" | EditDraft uuid pydict "pyval list" "string option" | DeleteDraft uuid
  | ValidateVersion uuid | PublishVersion uuid "string option" | RetireVersion uuid

fun rule_exec :: "rule_env \<Rightarrow> uuid option \<Rightarrow> rule_op \<Rightarrow> rule_store \<Rightarrow> (rule_error, rule_store) res" where
  "rule_exec env actor (CreateRule d) st = bind_res (create_rule env d actor st) (\<lambda>x. Inr (snd x))"
| "rule_exec env actor (UpdateRule r cs) st = update_rule env r cs actor st"
| "rule_exec env actor (DeleteRule r) st = delete_rule env r actor st"
| "rule_exec env actor (AddVersion r c a l) st = bind_res (add_version env r c a l actor st) (\<lambda>x. Inr (snd x))"
| "rule_exec env actor (EditDraft v c a l) st = edit_rule_draft env v c a l actor st"
| "rule_exec env actor (DeleteDraft v) st = delete_rule_draft env v actor st"
| "rule_exec env actor (ValidateVersion v) st = bind_res (rule_validate_version env v actor st) (\<lambda>x. Inr (snd x))"
| "rule_exec env actor (PublishVersion v l) st = rule_publish_version env v actor l st"
| "rule_exec env actor (RetireVersion v) st = retire_version env v actor st"

lemma rule_audit_Inr: "rule_audit env action r actor after reason st = Inr st' \<Longrightarrow> \<exists>a. st' = st\<lparr>ts_audit := a\<rparr>"
  by (auto simp: rule_audit_def split: sum.splits)

lemma rules_inv_audit [simp]: "rules_inv tx (st\<lparr>ts_audit := a\<rparr>) = rules_inv tx st"
  by (simp add: rules_inv_def ids_inv_def pub_inv_def)

lemma frozen_audit [simp]: "frozen st (st'\<lparr>ts_audit := a\<rparr>) = frozen st st'"
  by (simp add: frozen_def)

lemma frozen_refl:
  assumes "ids_inv st"
  shows "frozen st st"
  using assms by (auto simp: frozen_def ids_inv_def distinct_map inj_on_eq_iff)

lemma frozen_origin: "frozen st st' \<Longrightarrow> w \<in> set (ts_versions st') \<Longrightarrow> tv_id w < ts_next st \<Longrightarrow> \<exists>x\<in>set (ts_versions st). tv_id x = tv_id w"
  unfolding frozen_def by (metis imageE)

lemma frozenD:
  assumes "frozen st st'" "v \<in> set (ts_versions st)" "w \<in> set (ts_versions st')" "tv_id w = tv_id v" "tv_lifecycle v \<in> {TPublished, TRetired}"
  shows "tv_conditions w = tv_conditions v \<and> tv_actions w = tv_actions v \<and> tv_lifecycle w \<in> {TPublished, TRetired}"
  using assms unfolding frozen_def by blast

lemma frozenI:
  assumes "ts_next st \<le> ts_next st'"
    and "\<And>v w. v \<in> set (ts_versions st) \<Longrightarrow> w \<in> set (ts_versions st') \<Longrightarrow> tv_id w = tv_id v \<Longrightarrow> tv_lifecycle v \<in> {TPublished, TRetired} \<Longrightarrow>
      tv_conditions w = tv_conditions v \<and> tv_actions w = tv_actions v \<and> tv_lifecycle w \<in> {TPublished, TRetired}"
    and "\<And>w. w \<in> set (ts_versions st') \<Longrightarrow> tv_id w < ts_next st \<Longrightarrow> tv_id w \<in> tv_id ` set (ts_versions st)"
  shows "frozen st st'"
  unfolding frozen_def using assms by blast

lemma frozen_trans:
  assumes inv: "ids_inv a" and ab: "frozen a b" and bc: "frozen b c"
  shows "frozen a c"
proof -
  have nx: "ts_next a \<le> ts_next b" "ts_next b \<le> ts_next c" using ab bc by (simp_all add: frozen_def)
  have same: "tv_conditions w = tv_conditions v \<and> tv_actions w = tv_actions v \<and> tv_lifecycle w \<in> {TPublished, TRetired}"
    if v: "v \<in> set (ts_versions a)" "tv_lifecycle v \<in> {TPublished, TRetired}" and w: "w \<in> set (ts_versions c)" "tv_id w = tv_id v" for v w
  proof -
    have "tv_id v < ts_next a" using v(1) inv by (simp add: ids_inv_def)
    then have "tv_id w < ts_next b" using w(2) nx by simp
    then obtain x where x: "x \<in> set (ts_versions b)" "tv_id x = tv_id w" using frozen_origin [OF bc w(1)] by blast
    have "tv_conditions x = tv_conditions v \<and> tv_actions x = tv_actions v \<and> tv_lifecycle x \<in> {TPublished, TRetired}"
      using frozenD [OF ab v(1) x(1)] v(2) x(2) w(2) by simp
    moreover from this have "tv_conditions w = tv_conditions x \<and> tv_actions w = tv_actions x \<and> tv_lifecycle w \<in> {TPublished, TRetired}"
      using frozenD [OF bc x(1) w(1)] x(2) by simp
    ultimately show ?thesis by simp
  qed
  have "tv_id w \<in> tv_id ` set (ts_versions a)" if "w \<in> set (ts_versions c)" "tv_id w < ts_next a" for w
  proof -
    have "tv_id w < ts_next b" using that(2) nx by simp
    from frozen_origin [OF bc that(1) this] show ?thesis using frozen_origin [OF ab] that(2) by (metis imageI)
  qed
  then show ?thesis using same nx by (intro frozenI) auto
qed

lemma get_version_Inr: "get_version v st = Inr row \<Longrightarrow> row \<in> set (ts_versions st) \<and> tv_id row = v"
  unfolding get_version_def using find_first_Some by (fastforce split: option.splits simp del: find_first_None)

lemma get_rule_Inr: "get_rule r st = Inr rule \<Longrightarrow> rule \<in> set (ts_rules st) \<and> tl_id rule = r"
  unfolding get_rule_def using find_first_Some by (fastforce split: option.splits simp del: find_first_None)

text \<open>Changing one version by a function that keeps its identity.\<close>

definition keeps_id :: "(trigger_version \<Rightarrow> trigger_version) \<Rightarrow> bool" where
  "keeps_id f \<longleftrightarrow> (\<forall>x. tv_id (f x) = tv_id x \<and> tv_rule (f x) = tv_rule x \<and> tv_no (f x) = tv_no x)"

lemma map_version_ids:
  assumes "keeps_id f"
  shows "map tv_id (map (\<lambda>x. if P x then f x else x) vs) = map tv_id vs"
    "map (\<lambda>v. (tv_rule v, tv_no v)) (map (\<lambda>x. if P x then f x else x) vs) = map (\<lambda>v. (tv_rule v, tv_no v)) vs"
    "tv_rule ` set (map (\<lambda>x. if P x then f x else x) vs) = tv_rule ` set vs"
    "tv_id ` set (map (\<lambda>x. if P x then f x else x) vs) = tv_id ` set vs"
proof -
  show 1: "map tv_id (map (\<lambda>x. if P x then f x else x) vs) = map tv_id vs"
    "map (\<lambda>v. (tv_rule v, tv_no v)) (map (\<lambda>x. if P x then f x else x) vs) = map (\<lambda>v. (tv_rule v, tv_no v)) vs"
    using assms by (simp_all add: keeps_id_def)
  have "map tv_rule (map (\<lambda>x. if P x then f x else x) vs) = map tv_rule vs" using assms by (simp add: keeps_id_def)
  then show "tv_rule ` set (map (\<lambda>x. if P x then f x else x) vs) = tv_rule ` set vs" by (metis set_map)
  show "tv_id ` set (map (\<lambda>x. if P x then f x else x) vs) = tv_id ` set vs" using 1(1) by (metis set_map)
qed

lemma ids_inv_same:
  assumes "ids_inv st" "map tv_id vs = map tv_id (ts_versions st)"
    "map (\<lambda>v. (tv_rule v, tv_no v)) vs = map (\<lambda>v. (tv_rule v, tv_no v)) (ts_versions st)"
    "tv_rule ` set vs = tv_rule ` set (ts_versions st)" "tv_id ` set vs = tv_id ` set (ts_versions st)"
  shows "ids_inv (st\<lparr>ts_versions := vs\<rparr>)"
  using assms by (simp add: ids_inv_def)

lemma ids_inv_map:
  assumes "ids_inv st" "keeps_id f"
  shows "ids_inv (st\<lparr>ts_versions := map (\<lambda>x. if P x then f x else x) (ts_versions st)\<rparr>)"
  by (rule ids_inv_same [OF assms(1)]) (rule map_version_ids [OF assms(2)])+

lemma frozen_map:
  assumes inv: "ids_inv st" and id: "keeps_id f"
    and keep: "\<And>x. x \<in> set (ts_versions st) \<Longrightarrow> P x \<Longrightarrow> tv_lifecycle x \<in> {TPublished, TRetired} \<Longrightarrow>
      tv_conditions (f x) = tv_conditions x \<and> tv_actions (f x) = tv_actions x \<and> tv_lifecycle (f x) \<in> {TPublished, TRetired}"
  shows "frozen st (st\<lparr>ts_versions := map (\<lambda>x. if P x then f x else x) (ts_versions st)\<rparr>)"
proof -
  define vs where "vs = map (\<lambda>x. if P x then f x else x) (ts_versions st)"
  have "tv_conditions w = tv_conditions v \<and> tv_actions w = tv_actions v \<and> tv_lifecycle w \<in> {TPublished, TRetired}"
    if v: "v \<in> set (ts_versions st)" "tv_lifecycle v \<in> {TPublished, TRetired}" and w: "w \<in> set vs" "tv_id w = tv_id v" for v w
  proof -
    from w(1) obtain x where x: "x \<in> set (ts_versions st)" "w = (if P x then f x else x)" by (auto simp: vs_def)
    then have "tv_id x = tv_id v" using id w(2) by (simp add: keeps_id_def split: if_splits)
    then have "x = v" using inv x(1) v(1) by (auto simp: ids_inv_def distinct_map inj_on_def)
    then show ?thesis using x v keep by simp
  qed
  moreover have "tv_id ` set vs = tv_id ` set (ts_versions st)" unfolding vs_def by (rule map_version_ids(4) [OF id])
  ultimately show ?thesis unfolding vs_def [symmetric] frozen_def by simp (metis imageI)
qed

section \<open>Every operation keeps it\<close>

lemma published_of_map:
  assumes "\<forall>x\<in>set vs. P x \<longrightarrow> tv_lifecycle x \<noteq> TPublished \<and> tv_lifecycle (f x) \<noteq> TPublished"
  shows "published_of r (map (\<lambda>x. if P x then f x else x) vs) = published_of r vs"
  using assms by (induction vs) (simp_all add: published_of_def)

lemma pub_inv_unpublished:
  assumes "pub_inv tx st" "\<forall>x\<in>set (ts_versions st). P x \<longrightarrow> tv_lifecycle x \<noteq> TPublished \<and> tv_lifecycle (f x) \<noteq> TPublished"
  shows "pub_inv tx (st\<lparr>ts_versions := map (\<lambda>x. if P x then f x else x) (ts_versions st)\<rparr>)"
  using assms(1) published_of_map [OF assms(2)] assms(2) unfolding pub_inv_def by (auto split: if_splits)

lemma version_unique:
  assumes "ids_inv st" "x \<in> set (ts_versions st)" "y \<in> set (ts_versions st)" "tv_id x = tv_id y"
  shows "x = y"
  using assms by (auto simp: ids_inv_def distinct_map inj_on_def)

lemma set_version_keeps:
  assumes inv: "rules_inv tx st" and row: "row \<in> set (ts_versions st)" "tv_id row = v" "tv_lifecycle row \<in> {TDraft, TValidated}"
    and f: "keeps_id f" "tv_lifecycle (f row) \<noteq> TPublished"
  shows "rules_inv tx (rule_set_version v f st)" "frozen st (rule_set_version v f st)"
proof -
  have ids: "ids_inv st" using inv by (simp add: rules_inv_def)
  have only: "x = row" if "x \<in> set (ts_versions st)" "tv_id x = v" for x using version_unique [OF ids that(1) row(1)] that(2) row(2) by simp
  have "tv_lifecycle x \<noteq> TPublished \<and> tv_lifecycle (f x) \<noteq> TPublished" if "x \<in> set (ts_versions st)" "tv_id x = v" for x
    using only [OF that] row(3) f(2) by auto
  then have "pub_inv tx (rule_set_version v f st)"
    unfolding rule_set_version_def using inv by (intro pub_inv_unpublished) (simp_all add: rules_inv_def)
  then show "rules_inv tx (rule_set_version v f st)" using ids_inv_map [OF ids f(1)] by (simp add: rules_inv_def rule_set_version_def)
  show "frozen st (rule_set_version v f st)"
    unfolding rule_set_version_def
  proof (rule frozen_map [OF ids f(1)])
    fix x
    assume "x \<in> set (ts_versions st)" "tv_id x = v" "tv_lifecycle x \<in> {TPublished, TRetired}"
    then show "tv_conditions (f x) = tv_conditions x \<and> tv_actions (f x) = tv_actions x \<and> tv_lifecycle (f x) \<in> {TPublished, TRetired}"
      using only [of x] row(3) by auto
  qed
qed

lemma edit_draft_keeps:
  assumes inv: "rules_inv tx st" and ok: "edit_rule_draft env v c a l actor st = Inr st'"
  shows "rules_inv tx st' \<and> frozen st st'"
proof -
  define f where "f = (\<lambda>x::trigger_version. x\<lparr>tv_conditions := c, tv_actions := a, tv_changelog := (case l of None \<Rightarrow> tv_changelog x | c \<Rightarrow> c)\<rparr>)"
  from ok obtain row where row: "get_version v st = Inr row" "tv_lifecycle row = TDraft" and "\<exists>au. st' = (rule_set_version v f st)\<lparr>ts_audit := au\<rparr>"
    by (auto simp: edit_rule_draft_def bind_res_Inr f_def dest!: rule_audit_Inr split: if_splits)
  moreover have "keeps_id f" "tv_lifecycle (f row) \<noteq> TPublished" using row by (simp_all add: keeps_id_def f_def)
  ultimately show ?thesis using set_version_keeps [OF inv, of row v f] get_version_Inr [OF row(1)] by auto
qed

lemma validate_keeps:
  assumes inv: "rules_inv tx st" and ok: "rule_validate_version env v actor st = Inr (issues, st')"
  shows "rules_inv tx st' \<and> frozen st st'"
proof -
  from ok obtain row where row: "get_version v st = Inr row" "tv_lifecycle row \<in> {TDraft, TValidated}"
    and st': "st' = st \<or> (\<exists>au. st' = (rule_set_version v (\<lambda>x. x\<lparr>tv_lifecycle := TValidated\<rparr>) st)\<lparr>ts_audit := au\<rparr>)"
    by (auto simp: rule_validate_version_def bind_res_Inr dest!: rule_audit_Inr split: if_splits)
  have "keeps_id (\<lambda>x. x\<lparr>tv_lifecycle := TValidated\<rparr>)" by (simp add: keeps_id_def)
  from set_version_keeps [OF inv _ _ row(2) this] get_version_Inr [OF row(1)]
  have "rules_inv tx (rule_set_version v (\<lambda>x. x\<lparr>tv_lifecycle := TValidated\<rparr>) st)" "frozen st (rule_set_version v (\<lambda>x. x\<lparr>tv_lifecycle := TValidated\<rparr>) st)"
    by simp_all
  moreover have "frozen st st" using inv by (simp add: rules_inv_def frozen_refl)
  ultimately show ?thesis using st' inv by (elim disjE exE) simp_all
qed

lemma frozen_append:
  assumes ids: "ids_inv st" and new: "ts_next st \<le> tv_id new" "ts_next st \<le> n" and st': "ts_versions st' = ts_versions st @ [new]" "ts_next st' = n"
  shows "frozen st st'"
proof -
  have "tv_conditions w = tv_conditions v \<and> tv_actions w = tv_actions v \<and> tv_lifecycle w \<in> {TPublished, TRetired}"
    if "v \<in> set (ts_versions st)" "w \<in> set (ts_versions st')" "tv_id w = tv_id v" "tv_lifecycle v \<in> {TPublished, TRetired}" for v w
  proof -
    have "tv_id v < ts_next st" using that(1) ids by (simp add: ids_inv_def)
    then have "w \<noteq> new" using new(1) that(3) by auto
    then have "w \<in> set (ts_versions st)" using that(2) st' by simp
    then show ?thesis using frozenD [OF frozen_refl [OF ids] that(1)] that(3,4) by blast
  qed
  moreover have "tv_id w \<in> tv_id ` set (ts_versions st)" if "w \<in> set (ts_versions st')" "tv_id w < ts_next st" for w
    using that new(1) st'(1) by auto
  ultimately show ?thesis using new(2) st'(2) by (intro frozenI) blast+
qed

lemma published_of_append: "published_of r (vs @ [x]) = published_of r vs @ (if tv_rule x = r \<and> tv_lifecycle x = TPublished then [x] else [])"
  by (simp add: published_of_def)

lemma add_version_keeps:
  assumes inv: "rules_inv tx st" and ok: "add_version env r c a l actor st = Inr (v, st')"
  shows "rules_inv tx st' \<and> frozen st st'"
proof -
  define new where "new = draft_version (ts_next st) r (next_no r st) c a l"
  define st1 where "st1 = st\<lparr>ts_versions := ts_versions st @ [new], ts_next := Suc (ts_next st)\<rparr>"
  from ok obtain rule where rule: "get_rule r st = Inr rule" and st': "\<exists>au. st' = st1\<lparr>ts_audit := au\<rparr>"
    by (auto simp: add_version_def bind_res_Inr Let_def new_def st1_def dest!: rule_audit_Inr)
  have ids: "ids_inv st" and pub: "pub_inv tx st" using inv by (simp_all add: rules_inv_def)
  have no: "tv_no x < next_no r st" if "x \<in> set (ts_versions st)" "tv_rule x = r" for x
  proof -
    have "n \<le> fold max ns (k::nat)" if "n \<in> set ns \<or> n \<le> k" for n ns k
      using that by (induction ns arbitrary: k) (simp, fastforce simp: le_max_iff_disj)
    then show ?thesis using that by (auto simp: next_no_def less_Suc_eq_le)
  qed
  have fields: "tv_id new = ts_next st" "tv_rule new = r" "tv_no new = next_no r st" "tv_lifecycle new = TDraft"
    by (simp_all add: new_def draft_version_def)
  have "(r, next_no r st) \<notin> (\<lambda>v. (tv_rule v, tv_no v)) ` set (ts_versions st)" using no by fastforce
  moreover have "r \<in> tl_id ` set (ts_rules st)" using get_rule_Inr [OF rule] by blast
  moreover have "ts_next st \<notin> tv_id ` set (ts_versions st)" using ids by (auto simp: ids_inv_def)
  ultimately have "ids_inv st1" using ids fields by (auto simp: ids_inv_def st1_def less_Suc_eq)
  moreover have "pub_inv tx st1" using pub fields unfolding pub_inv_def by (auto simp: st1_def published_of_append)
  moreover have "frozen st st1"
    by (rule frozen_append [OF ids, of new "Suc (ts_next st)"]) (simp_all add: fields st1_def)
  ultimately have "rules_inv tx st1 \<and> frozen st st1" by (simp add: rules_inv_def)
  then show ?thesis using st' by auto
qed

lemma create_rule_keeps:
  assumes inv: "rules_inv tx st" and ok: "create_rule env d actor st = Inr (rv, st')"
  shows "rules_inv tx st' \<and> frozen st st'"
proof -
  define rule where "rule = \<lparr>tl_id = ts_next st, tl_name = ri_name d, tl_endpoint = ri_endpoint d, tl_lifecycle = TDraft, tl_priority = ri_priority d\<rparr>"
  define new where "new = draft_version (Suc (ts_next st)) (ts_next st) 1 (ri_conditions d) (ri_actions d) (ri_changelog d)"
  define st1 where "st1 = st\<lparr>ts_rules := ts_rules st @ [rule], ts_versions := ts_versions st @ [new], ts_next := Suc (Suc (ts_next st))\<rparr>"
  from ok have st': "\<exists>au. st' = st1\<lparr>ts_audit := au\<rparr>"
    by (auto simp: create_rule_def bind_res_Inr Let_def new_def rule_def st1_def dest!: rule_audit_Inr)
  have ids: "ids_inv st" and pub: "pub_inv tx st" using inv by (simp_all add: rules_inv_def)
  have fields: "tv_id new = Suc (ts_next st)" "tv_rule new = ts_next st" "tv_no new = 1" "tv_lifecycle new = TDraft"
    "tl_id rule = ts_next st" "tl_lifecycle rule = TDraft"
    by (simp_all add: new_def draft_version_def rule_def)
  have fresh: "ts_next st \<notin> tl_id ` set (ts_rules st)" "ts_next st \<notin> tv_rule ` set (ts_versions st)" "Suc (ts_next st) \<notin> tv_id ` set (ts_versions st)"
  proof -
    have lt: "i < ts_next st" if "i \<in> tl_id ` set (ts_rules st) \<union> tv_id ` set (ts_versions st)" for i
      using ids that by (simp add: ids_inv_def)
    show 1: "ts_next st \<notin> tl_id ` set (ts_rules st)" using lt by blast
    then show "ts_next st \<notin> tv_rule ` set (ts_versions st)" using ids by (auto simp: ids_inv_def)
    show "Suc (ts_next st) \<notin> tv_id ` set (ts_versions st)" using lt [of "Suc (ts_next st)"] by auto
  qed
  then have "(ts_next st, 1) \<notin> (\<lambda>v. (tv_rule v, tv_no v)) ` set (ts_versions st)" by force
  then have "ids_inv st1" using ids fields fresh by (auto simp: ids_inv_def st1_def less_Suc_eq)
  moreover have "published_of (ts_next st) (ts_versions st) = []" 
    using fresh(2) unfolding published_of_def filter_empty_conv by (metis imageI)
  then have "pub_inv tx st1" using pub fields unfolding pub_inv_def by (auto simp: st1_def published_of_append)
  moreover have "frozen st st1" by (rule frozen_append [OF ids, of new "Suc (Suc (ts_next st))"]) (simp_all add: fields st1_def)
  ultimately have "rules_inv tx st1 \<and> frozen st st1" by (simp add: rules_inv_def)
  then show ?thesis using st' by auto
qed

lemma frozen_filter: "ids_inv st \<Longrightarrow> ts_versions st' = filter P (ts_versions st) \<Longrightarrow> ts_next st' = ts_next st \<Longrightarrow> frozen st st'"
  using frozenD [OF frozen_refl] by (intro frozenI) (simp, metis filter_is_subset subsetD, simp)

lemma published_of_filter: "(\<And>v. v \<in> set vs \<Longrightarrow> tv_rule v = r \<Longrightarrow> tv_lifecycle v = TPublished \<Longrightarrow> P v) \<Longrightarrow> published_of r (filter P vs) = published_of r vs"
  by (induction vs) (auto simp: published_of_def)

lemma delete_draft_keeps:
  assumes inv: "rules_inv tx st" and ok: "delete_rule_draft env v actor st = Inr st'"
  shows "rules_inv tx st' \<and> frozen st st'"
proof -
  define st1 where "st1 = st\<lparr>ts_versions := filter (\<lambda>x. tv_id x \<noteq> v) (ts_versions st)\<rparr>"
  from ok obtain row au where row: "get_version v st = Inr row" "tv_lifecycle row = TDraft"
    and "st' = st\<lparr>ts_audit := au, ts_versions := filter (\<lambda>x. tv_id x \<noteq> v) (ts_versions st)\<rparr>"
    by (auto simp: delete_rule_draft_def bind_res_Inr dest!: rule_audit_Inr split: if_splits)
  then have st': "st' = st1\<lparr>ts_audit := au\<rparr>" by (simp add: st1_def)
  have ids: "ids_inv st" and pub: "pub_inv tx st" using inv by (simp_all add: rules_inv_def)
  have "tv_id x \<noteq> v" if "x \<in> set (ts_versions st)" "tv_lifecycle x = TPublished" for x
    using version_unique [OF ids that(1), of row] get_version_Inr [OF row(1)] row(2) that(2) by auto
  then have "published_of r (ts_versions st1) = published_of r (ts_versions st)" for r
    unfolding st1_def by (simp add: published_of_filter)
  then have "pub_inv tx st1" using pub by (simp add: pub_inv_def st1_def)
  moreover have "ids_inv st1" using ids by (auto simp: ids_inv_def st1_def distinct_map_filter)
  moreover have "frozen st st1" by (rule frozen_filter [OF ids]) (simp_all add: st1_def)
  ultimately have "rules_inv tx st1 \<and> frozen st st1" by (simp add: rules_inv_def)
  then show ?thesis using st' by auto
qed

lemma delete_rule_keeps:
  assumes inv: "rules_inv tx st" and ok: "delete_rule env r actor st = Inr st'"
  shows "rules_inv tx st' \<and> frozen st st'"
proof -
  define st1 where "st1 = st\<lparr>ts_rules := filter (\<lambda>x. tl_id x \<noteq> r) (ts_rules st), ts_versions := filter (\<lambda>v. tv_rule v \<noteq> r) (ts_versions st)\<rparr>"
  from ok obtain au where
    "st' = st\<lparr>ts_audit := au, ts_rules := filter (\<lambda>x. tl_id x \<noteq> r) (ts_rules st), ts_versions := filter (\<lambda>v. tv_rule v \<noteq> r) (ts_versions st)\<rparr>"
    by (auto simp: delete_rule_def bind_res_Inr dest!: rule_audit_Inr split: if_splits)
  then have st': "st' = st1\<lparr>ts_audit := au\<rparr>" by (simp add: st1_def)
  have ids: "ids_inv st" and pub: "pub_inv tx st" using inv by (simp_all add: rules_inv_def)
  have "published_of q (ts_versions st1) = published_of q (ts_versions st)" if "q \<noteq> r" for q
    using that unfolding st1_def by (simp add: published_of_filter)
  then have "pub_inv tx st1" using pub by (auto simp: pub_inv_def st1_def)
  moreover have "ids_inv st1" using ids by (auto simp: ids_inv_def st1_def distinct_map_filter)
  moreover have "frozen st st1" by (rule frozen_filter [OF ids]) (simp_all add: st1_def)
  ultimately have "rules_inv tx st1 \<and> frozen st st1" by (simp add: rules_inv_def)
  then show ?thesis using st' by auto
qed

lemma apply_changes_fields: "tl_id (fold apply_change cs r) = tl_id r \<and> tl_lifecycle (fold apply_change cs r) = tl_lifecycle r"
proof (induction cs arbitrary: r)
  case (Cons c cs)
  have "tl_id (apply_change c r) = tl_id r \<and> tl_lifecycle (apply_change c r) = tl_lifecycle r" by (cases c) simp_all
  then show ?case using Cons.IH by simp
qed simp

lemma pub_invI:
  assumes "\<And>r. r \<in> set (ts_rules st) \<Longrightarrow> tl_lifecycle r = TPublished \<Longrightarrow> \<exists>v. published_of (tl_id r) (ts_versions st) = [v]"
    and "\<And>r. r \<in> set (ts_rules st) \<Longrightarrow> tl_lifecycle r \<noteq> TPublished \<Longrightarrow> published_of (tl_id r) (ts_versions st) = []"
    and "\<And>v. v \<in> set (ts_versions st) \<Longrightarrow> tv_lifecycle v = TPublished \<Longrightarrow> publish_blockers tx (tv_conditions v) (tv_actions v) = Inr []"
  shows "pub_inv tx st"
  unfolding pub_inv_def using assms by blast

lemma pub_invD:
  assumes "pub_inv tx st"
  shows "r \<in> set (ts_rules st) \<Longrightarrow> tl_lifecycle r = TPublished \<Longrightarrow> \<exists>v. published_of (tl_id r) (ts_versions st) = [v]"
    "r \<in> set (ts_rules st) \<Longrightarrow> tl_lifecycle r \<noteq> TPublished \<Longrightarrow> published_of (tl_id r) (ts_versions st) = []"
    "v \<in> set (ts_versions st) \<Longrightarrow> tv_lifecycle v = TPublished \<Longrightarrow> publish_blockers tx (tv_conditions v) (tv_actions v) = Inr []"
  using assms unfolding pub_inv_def by blast+

lemma rules_same:
  assumes inv: "rules_inv tx st" and id: "map tl_id rs = map tl_id (ts_rules st)"
    and life: "map (\<lambda>r. (tl_id r, tl_lifecycle r)) rs = map (\<lambda>r. (tl_id r, tl_lifecycle r)) (ts_rules st)"
  shows "rules_inv tx (st\<lparr>ts_rules := rs\<rparr>)"
proof -
  have "tl_id ` set rs = tl_id ` set (ts_rules st)" using id by (metis set_map)
  have "(\<lambda>r. (tl_id r, tl_lifecycle r)) ` set rs = (\<lambda>r. (tl_id r, tl_lifecycle r)) ` set (ts_rules st)" using life by (metis set_map)
  then have "\<exists>r'\<in>set (ts_rules st). tl_id r' = tl_id r \<and> tl_lifecycle r' = tl_lifecycle r" if "r \<in> set rs" for r
    using that by (metis (mono_tags, lifting) image_iff prod.inject)
  note life' = this
  have pub: "pub_inv tx st" using inv by (simp add: rules_inv_def)
  have "pub_inv tx (st\<lparr>ts_rules := rs\<rparr>)"
  proof (rule pub_invI)
    fix r
    assume "r \<in> set (ts_rules (st\<lparr>ts_rules := rs\<rparr>))"
    then obtain r' where r': "r' \<in> set (ts_rules st)" "tl_id r' = tl_id r" "tl_lifecycle r' = tl_lifecycle r" using life' by auto
    show "\<exists>v. published_of (tl_id r) (ts_versions (st\<lparr>ts_rules := rs\<rparr>)) = [v]" if "tl_lifecycle r = TPublished"
      using that r' pub_invD(1) [OF pub r'(1)] by simp
    show "published_of (tl_id r) (ts_versions (st\<lparr>ts_rules := rs\<rparr>)) = []" if "tl_lifecycle r \<noteq> TPublished"
      using that r' pub_invD(2) [OF pub r'(1)] by simp
  qed (use pub_invD(3) [OF pub] in simp)
  moreover have "ids_inv (st\<lparr>ts_rules := rs\<rparr>)" using inv id \<open>tl_id ` set rs = tl_id ` set (ts_rules st)\<close> by (simp add: rules_inv_def ids_inv_def)
  ultimately show ?thesis by (simp add: rules_inv_def)
qed

lemma frozen_rules: "ids_inv st \<Longrightarrow> frozen st (st\<lparr>ts_rules := rs\<rparr>)"
proof -
  assume "ids_inv st"
  moreover have "ts_versions (st\<lparr>ts_rules := rs\<rparr>) = ts_versions st" "ts_next (st\<lparr>ts_rules := rs\<rparr>) = ts_next st" by simp_all
  then have "frozen st (st\<lparr>ts_rules := rs\<rparr>) = frozen st st" by (simp only: frozen_def)
  ultimately show ?thesis using frozen_refl by blast
qed

lemma update_rule_keeps:
  assumes inv: "rules_inv tx st" and ok: "update_rule env r cs actor st = Inr st'"
  shows "rules_inv tx st' \<and> frozen st st'"
proof -
  define rs where "rs = map (\<lambda>x. if tl_id x = r then fold apply_change cs x else x) (ts_rules st)"
  have "map tl_id rs = map tl_id (ts_rules st)" "map (\<lambda>r. (tl_id r, tl_lifecycle r)) rs = map (\<lambda>r. (tl_id r, tl_lifecycle r)) (ts_rules st)"
    by (simp_all add: rs_def apply_changes_fields)
  from rules_same [OF inv this] have keep: "rules_inv tx (st\<lparr>ts_rules := rs\<rparr>)" .
  have ids: "ids_inv st" using inv by (simp add: rules_inv_def)
  from ok have "st' = st \<or> (\<exists>au. st' = st\<lparr>ts_rules := rs, ts_audit := au\<rparr>)"
    by (auto simp: update_rule_def bind_res_Inr Let_def rs_def dest!: rule_audit_Inr split: if_splits)
  then show ?thesis using inv keep frozen_refl [OF ids] frozen_rules [OF ids] by (elim disjE exE) simp_all
qed

text \<open>Publishing a version of a rule retires the one published before; retiring a version leaves its rule with none.\<close>

definition publish_vs :: "rule_env \<Rightarrow> uuid option \<Rightarrow> string option \<Rightarrow> uuid \<Rightarrow> uuid \<Rightarrow> trigger_version \<Rightarrow> trigger_version" where
  "publish_vs env actor changelog r v x =
     (if tv_id x = v then mark_published env actor changelog x
      else if tv_rule x = r \<and> tv_lifecycle x = TPublished then x\<lparr>tv_lifecycle := TRetired\<rparr> else x)"

lemma mark_published_fields [simp]:
  "tv_id (mark_published env actor l x) = tv_id x" "tv_rule (mark_published env actor l x) = tv_rule x" "tv_no (mark_published env actor l x) = tv_no x"
  "tv_conditions (mark_published env actor l x) = tv_conditions x" "tv_actions (mark_published env actor l x) = tv_actions x"
  "tv_lifecycle (mark_published env actor l x) = TPublished"
  by (simp_all add: mark_published_def)

lemma publish_vs_map:
  "ts_versions (rule_set_version v (mark_published env actor l) (snd (retire_current r v st))) = map (publish_vs env actor l r v) (ts_versions st)"
  by (simp add: rule_set_version_def retire_current_def Let_def publish_vs_def)

lemma publish_vs_fields [simp]:
  "tv_id (publish_vs env actor l r v x) = tv_id x" "tv_rule (publish_vs env actor l r v x) = tv_rule x" "tv_no (publish_vs env actor l r v x) = tv_no x"
  "tv_conditions (publish_vs env actor l r v x) = tv_conditions x" "tv_actions (publish_vs env actor l r v x) = tv_actions x"
  by (simp_all add: publish_vs_def)

lemma publish_vs_lifecycle:
  "tv_lifecycle (publish_vs env actor l r v x) = TPublished \<longleftrightarrow> tv_id x = v \<or> tv_lifecycle x = TPublished \<and> tv_rule x \<noteq> r"
  by (auto simp: publish_vs_def)

lemma published_of_publish_other:
  assumes "\<forall>x\<in>set vs. tv_id x = v \<longrightarrow> tv_rule x = r" "q \<noteq> r"
  shows "published_of q (map (publish_vs env actor l r v) vs) = published_of q vs"
  using assms by (induction vs) (auto simp: published_of_def publish_vs_def)

lemma published_of_publish:
  assumes "distinct (map tv_id vs)" "row \<in> set vs" "tv_id row = v" "tv_rule row = r"
  shows "\<exists>w. published_of r (map (publish_vs env actor l r v) vs) = [w]"
proof -
  have "filter (\<lambda>x. tv_id x = v) vs = [row]"
    using assms by (induction vs) (auto simp: filter_empty_conv image_iff)
  moreover have "published_of r (map (publish_vs env actor l r v) xs) = map (publish_vs env actor l r v) (filter (\<lambda>x. tv_id x = v \<and> tv_rule x = r) xs)" for xs
    by (induction xs) (auto simp: published_of_def publish_vs_lifecycle)
  moreover have "filter (\<lambda>x. tv_id x = v \<and> tv_rule x = r) vs = filter (\<lambda>x. tv_rule x = r) (filter (\<lambda>x. tv_id x = v) vs)"
    by (simp add: conj_commute)
  ultimately show ?thesis using assms(4) by simp
qed

lemma set_rule_lifecycle_in:
  assumes "r \<in> set (ts_rules (set_rule_lifecycle q l st))"
  obtains r' where "r' \<in> set (ts_rules st)" "tl_id r = tl_id r'" "tl_lifecycle r = (if tl_id r' = q then l else tl_lifecycle r')"
  using assms by (auto simp: set_rule_lifecycle_def split: if_splits)

lemma set_rule_lifecycle_ids: "ids_inv (set_rule_lifecycle q l st) = ids_inv st"
proof -
  have ids: "map tl_id (ts_rules (set_rule_lifecycle q l st)) = map tl_id (ts_rules st)" by (simp add: set_rule_lifecycle_def)
  then have "tl_id ` set (ts_rules (set_rule_lifecycle q l st)) = tl_id ` set (ts_rules st)" by (metis set_map)
  moreover have "ts_versions (set_rule_lifecycle q l st) = ts_versions st" "ts_next (set_rule_lifecycle q l st) = ts_next st"
    by (simp_all add: set_rule_lifecycle_def)
  ultimately show ?thesis by (simp only: ids_inv_def ids)
qed

lemma publish_keeps:
  assumes inv: "rules_inv tx st" and ok: "rule_publish_version env v actor l st = Inr st'" and tx: "rn_text env = tx"
  shows "rules_inv tx st' \<and> frozen st st'"
proof -
  have ids: "ids_inv st" and pub: "pub_inv tx st" using inv by (simp_all add: rules_inv_def)
  from ok obtain row au where row: "get_version v st = Inr row" "tv_lifecycle row = TValidated" "lift_blockers tx row = Inr []"
    and "st' = (set_rule_lifecycle (tv_rule row) TPublished (rule_set_version v (mark_published env actor l) (snd (retire_current (tv_rule row) v st))))\<lparr>ts_audit := au\<rparr>"
    by (auto simp: rule_publish_version_def bind_res_Inr tx Let_def split: if_splits prod.splits dest!: rule_audit_Inr)
  define r where "r = tv_rule row"
  define vs where "vs = map (publish_vs env actor l r v) (ts_versions st)"
  define st1 where "st1 = set_rule_lifecycle r TPublished (st\<lparr>ts_versions := vs\<rparr>)"
  have "rule_set_version v (mark_published env actor l) (snd (retire_current r v st)) = st\<lparr>ts_versions := vs\<rparr>"
    unfolding vs_def publish_vs_map [symmetric] by (simp add: rule_set_version_def retire_current_def Let_def)
  with \<open>st' = _\<close> have st': "st' = st1\<lparr>ts_audit := au\<rparr>" by (simp add: st1_def r_def)
  have rowin: "row \<in> set (ts_versions st)" "tv_id row = v" using get_version_Inr [OF row(1)] by simp_all
  have only: "x = row" if "x \<in> set (ts_versions st)" "tv_id x = v" for x using version_unique [OF ids that(1) rowin(1)] that(2) rowin(2) by simp
  have bl: "publish_blockers tx (tv_conditions row) (tv_actions row) = Inr []" using row(3) by (simp add: lift_blockers_def split: sum.splits)
  have "pub_inv tx st1"
  proof (rule pub_invI)
    fix q
    assume q: "q \<in> set (ts_rules st1)"
    then obtain q' where q': "q' \<in> set (ts_rules st)" "tl_id q = tl_id q'" "tl_lifecycle q = (if tl_id q' = r then TPublished else tl_lifecycle q')"
      unfolding st1_def by (rule set_rule_lifecycle_in) simp
    have vs1: "ts_versions st1 = vs" by (simp add: st1_def set_rule_lifecycle_def)
    have mine: "\<exists>w. published_of r vs = [w]"
      unfolding vs_def by (rule published_of_publish [OF _ rowin]) (use ids in \<open>simp_all add: ids_inv_def r_def\<close>)
    have other: "published_of (tl_id q') vs = published_of (tl_id q') (ts_versions st)" if "tl_id q' \<noteq> r"
      unfolding vs_def by (rule published_of_publish_other [OF _ that]) (use only in \<open>auto simp: r_def\<close>)
    show "\<exists>v. published_of (tl_id q) (ts_versions st1) = [v]" if "tl_lifecycle q = TPublished"
      using that q' mine other pub_invD(1) [OF pub q'(1)] by (cases "tl_id q' = r") (simp_all add: vs1)
    show "published_of (tl_id q) (ts_versions st1) = []" if "tl_lifecycle q \<noteq> TPublished"
      using that q' other pub_invD(2) [OF pub q'(1)] by (cases "tl_id q' = r") (simp_all add: vs1)
  next
    fix w
    assume "w \<in> set (ts_versions st1)" "tv_lifecycle w = TPublished"
    then obtain x where x: "x \<in> set (ts_versions st)" "w = publish_vs env actor l r v x" "tv_id x = v \<or> tv_lifecycle x = TPublished"
      by (auto simp: st1_def set_rule_lifecycle_def vs_def publish_vs_lifecycle)
    then show "publish_blockers tx (tv_conditions w) (tv_actions w) = Inr []"
      using bl only [OF x(1)] pub_invD(3) [OF pub x(1)] by auto
  qed
  moreover have "ids_inv (st\<lparr>ts_versions := vs\<rparr>)"
    by (rule ids_inv_same [OF ids]) (simp_all add: vs_def image_image)
  then have "ids_inv st1" by (simp add: st1_def set_rule_lifecycle_ids)
  ultimately have "rules_inv tx st1" by (simp add: rules_inv_def)
  moreover have "frozen st st1"
  proof (rule frozenI)
    fix x w
    assume x: "x \<in> set (ts_versions st)" "tv_lifecycle x \<in> {TPublished, TRetired}" and w: "w \<in> set (ts_versions st1)" "tv_id w = tv_id x"
    then obtain y where y: "y \<in> set (ts_versions st)" "w = publish_vs env actor l r v y" by (auto simp: st1_def set_rule_lifecycle_def vs_def)
    then have "y = x" using version_unique [OF ids y(1) x(1)] w(2) by simp
    moreover have "x \<noteq> row" using x(2) row(2) by auto
    ultimately show "tv_conditions w = tv_conditions x \<and> tv_actions w = tv_actions x \<and> tv_lifecycle w \<in> {TPublished, TRetired}"
      using y(2) x only by (auto simp: publish_vs_def)
  qed (auto simp: st1_def set_rule_lifecycle_def vs_def)
  ultimately show ?thesis using st' by simp
qed

lemma frozen_lifecycle [simp]: "frozen st (set_rule_lifecycle q l st') = frozen st st'"
proof -
  have "ts_versions (set_rule_lifecycle q l st') = ts_versions st'" "ts_next (set_rule_lifecycle q l st') = ts_next st'"
    by (simp_all add: set_rule_lifecycle_def)
  then show ?thesis by (simp only: frozen_def)
qed

lemma published_of_retired:
  "published_of q (map (\<lambda>x. if tv_id x = v then x\<lparr>tv_lifecycle := TRetired\<rparr> else x) vs) = filter (\<lambda>x. tv_id x \<noteq> v) (published_of q vs)"
  by (induction vs) (simp_all add: published_of_def)

lemma retire_keeps:
  assumes inv: "rules_inv tx st" and ok: "retire_version env v actor st = Inr st'"
  shows "rules_inv tx st' \<and> frozen st st'"
proof -
  have ids: "ids_inv st" and pub: "pub_inv tx st" using inv by (simp_all add: rules_inv_def)
  define f where "f = (\<lambda>x::trigger_version. x\<lparr>tv_lifecycle := TRetired\<rparr>)"
  define st1 where "st1 = rule_set_version v f st"
  from ok obtain row au where row: "get_version v st = Inr row" "tv_lifecycle row = TPublished"
    and st': "st' = (if published_version_id (tv_rule row) (Some v) st1 = None then set_rule_lifecycle (tv_rule row) TRetired st1 else st1)\<lparr>ts_audit := au\<rparr>"
    by (auto simp: retire_version_def bind_res_Inr Let_def st1_def f_def split: if_splits dest!: rule_audit_Inr)
  define r where "r = tv_rule row"
  have rowin: "row \<in> set (ts_versions st)" "tv_id row = v" using get_version_Inr [OF row(1)] by simp_all
  have only: "x = row" if "x \<in> set (ts_versions st)" "tv_id x = v" for x using version_unique [OF ids that(1) rowin(1)] that(2) rowin(2) by simp
  have row_pub: "row \<in> set (published_of r (ts_versions st))" using rowin row(2) by (simp add: published_of_def r_def)
  have "tl_lifecycle q = TPublished" if "q \<in> set (ts_rules st)" "tl_id q = r" for q
    using pub_invD(2) [OF pub that(1)] row_pub that(2) by (cases "tl_lifecycle q = TPublished") auto
  then have single: "published_of r (ts_versions st) = [row]"
  proof -
    have "r \<in> tl_id ` set (ts_rules st)" using ids rowin(1) by (auto simp: ids_inv_def r_def)
    then obtain q where q: "q \<in> set (ts_rules st)" "tl_id q = r" by blast
    with \<open>\<And>q. q \<in> set (ts_rules st) \<Longrightarrow> tl_id q = r \<Longrightarrow> tl_lifecycle q = TPublished\<close> pub_invD(1) [OF pub q(1)]
    obtain w where "published_of r (ts_versions st) = [w]" by auto
    then show ?thesis using row_pub by auto
  qed
  have vs1: "ts_versions st1 = map (\<lambda>x. if tv_id x = v then f x else x) (ts_versions st)" by (simp add: st1_def rule_set_version_def)
  have pubs: "published_of q (ts_versions st1) = filter (\<lambda>x. tv_id x \<noteq> v) (published_of q (ts_versions st))" for q
    unfolding vs1 f_def by (rule published_of_retired)
  have none: "published_of r (ts_versions st1) = []" by (simp add: pubs single rowin(2))
  have other: "published_of q (ts_versions st1) = published_of q (ts_versions st)" if "q \<noteq> r" for q
    unfolding pubs filter_id_conv using that only by (auto simp: published_of_def r_def)
  have "published_version_id r (Some v) st1 = None"
  proof -
    have "\<not> (tv_rule x = r \<and> tv_lifecycle x = TPublished)" if "x \<in> set (ts_versions st1)" for x
      using none that by (auto simp: published_of_def filter_empty_conv)
    then show ?thesis by (auto simp: published_version_id_def)
  qed
  then have st': "st' = (set_rule_lifecycle r TRetired st1)\<lparr>ts_audit := au\<rparr>" using st' by (simp add: r_def)
  have "pub_inv tx (set_rule_lifecycle r TRetired st1)"
  proof (rule pub_invI)
    fix q
    assume "q \<in> set (ts_rules (set_rule_lifecycle r TRetired st1))"
    then obtain q' where q': "q' \<in> set (ts_rules st)" "tl_id q = tl_id q'" "tl_lifecycle q = (if tl_id q' = r then TRetired else tl_lifecycle q')"
      by (rule set_rule_lifecycle_in) (simp add: st1_def rule_set_version_def)
    have vs: "ts_versions (set_rule_lifecycle r TRetired st1) = ts_versions st1" by (simp add: set_rule_lifecycle_def)
    show "\<exists>v. published_of (tl_id q) (ts_versions (set_rule_lifecycle r TRetired st1)) = [v]" if "tl_lifecycle q = TPublished"
      using that q' other pub_invD(1) [OF pub q'(1)] unfolding vs by (cases "tl_id q' = r") simp_all
    show "published_of (tl_id q) (ts_versions (set_rule_lifecycle r TRetired st1)) = []" if "tl_lifecycle q \<noteq> TPublished"
      using that q' none other pub_invD(2) [OF pub q'(1)] unfolding vs by (cases "tl_id q' = r") simp_all
  next
    fix w
    assume "w \<in> set (ts_versions (set_rule_lifecycle r TRetired st1))" "tv_lifecycle w = TPublished"
    then have "w \<in> set (ts_versions st)" by (auto simp: set_rule_lifecycle_def vs1 f_def split: if_splits)
    then show "publish_blockers tx (tv_conditions w) (tv_actions w) = Inr []"
      using pub_invD(3) [OF pub] \<open>tv_lifecycle w = TPublished\<close> by blast
  qed
  moreover have kid: "keeps_id f" by (simp add: keeps_id_def f_def)
  then have "ids_inv (set_rule_lifecycle r TRetired st1)"
    using ids_inv_map [OF ids kid] by (simp add: set_rule_lifecycle_ids st1_def rule_set_version_def)
  moreover have "frozen st st1"
    unfolding st1_def rule_set_version_def by (rule frozen_map [OF ids kid]) (simp add: f_def)
  then have "frozen st (set_rule_lifecycle r TRetired st1)" by simp
  ultimately have "rules_inv tx (set_rule_lifecycle r TRetired st1) \<and> frozen st (set_rule_lifecycle r TRetired st1)" by (simp add: rules_inv_def)
  then show ?thesis using st' by simp
qed

lemma rule_exec_keeps:
  assumes "rules_inv tx st" "rule_exec env actor op st = Inr st'" "rn_text env = tx"
  shows "rules_inv tx st' \<and> frozen st st'"
proof (cases op)
  case (CreateRule d)
  then obtain rv where "create_rule env d actor st = Inr (rv, st')" using assms(2) by (auto simp: bind_res_Inr)
  then show ?thesis by (rule create_rule_keeps [OF assms(1)])
next
  case (AddVersion r c a l)
  then obtain v where "add_version env r c a l actor st = Inr (v, st')" using assms(2) by (auto simp: bind_res_Inr)
  then show ?thesis by (rule add_version_keeps [OF assms(1)])
next
  case (ValidateVersion v)
  then obtain issues where "rule_validate_version env v actor st = Inr (issues, st')" using assms(2) by (auto simp: bind_res_Inr)
  then show ?thesis by (rule validate_keeps [OF assms(1)])
next
  case (PublishVersion v l)
  then show ?thesis using publish_keeps [OF assms(1) _ assms(3)] assms(2) by simp
qed (use assms(2) update_rule_keeps [OF assms(1)] delete_rule_keeps [OF assms(1)] edit_draft_keeps [OF assms(1)]
      delete_draft_keeps [OF assms(1)] retire_keeps [OF assms(1)] in simp_all)

text \<open>A history of administration calls; one that raises leaves the store as it was.\<close>

definition rules_run :: "(rule_env \<times> uuid option \<times> rule_op) list \<Rightarrow> rule_store \<Rightarrow> rule_store" where
  "rules_run calls st = fold (\<lambda>(env, actor, op) st. ok_of st (rule_exec env actor op st)) calls st"

lemma rules_run_keeps:
  assumes "rules_inv tx st" "\<forall>(env, actor, op)\<in>set calls. rn_text env = tx"
  shows "rules_inv tx (rules_run calls st) \<and> frozen st (rules_run calls st)"
  using assms unfolding rules_run_def
proof (induction calls arbitrary: st)
  case Nil
  then show ?case by (simp add: rules_inv_def frozen_refl)
next
  case (Cons q calls)
  obtain env actor op where q: "q = (env, actor, op)" by (cases q)
  define st1 where "st1 = ok_of st (rule_exec env actor op st)"
  have 1: "rules_inv tx st1 \<and> frozen st st1"
  proof (cases "rule_exec env actor op st")
    case (Inl e)
    then show ?thesis using Cons.prems(1) by (simp add: st1_def ok_of_def rules_inv_def frozen_refl)
  next
    case (Inr st')
    then show ?thesis using rule_exec_keeps [OF Cons.prems(1) Inr] Cons.prems(2) by (simp add: st1_def ok_of_def q)
  qed
  from Cons.IH [of st1] 1 Cons.prems(2)
  have 2: "rules_inv tx (fold (\<lambda>(env, actor, op) st. ok_of st (rule_exec env actor op st)) calls st1) \<and>
      frozen st1 (fold (\<lambda>(env, actor, op) st. ok_of st (rule_exec env actor op st)) calls st1)" by simp
  then show ?case
    using frozen_trans [of st st1] 1 Cons.prems(1) by (simp add: q rules_inv_def flip: st1_def)
qed

section \<open>What the engine selects from\<close>

lemma first_per_set: "x \<in> set (first_per key seen xs) \<Longrightarrow> x \<in> set xs \<and> key x \<notin> seen"
  by (induction xs arbitrary: seen) (auto split: if_splits)

lemma first_per_distinct: "distinct (map key (first_per key seen xs))"
proof (induction xs arbitrary: seen)
  case (Cons x xs)
  have "key x \<notin> key ` set (first_per key (insert (key x) seen) xs)" using first_per_set by fastforce
  then show ?case using Cons.IH by simp
qed simp

lemma first_per_keys: "key ` set (first_per key seen xs) = key ` set xs - seen"
  by (induction xs arbitrary: seen) auto

lemma published_rows_in:
  "(r, v) \<in> set (published_rows st) \<longleftrightarrow> v \<in> set (ts_versions st) \<and> tv_lifecycle v = TPublished \<and> r \<in> set (ts_rules st) \<and>
     tl_id r = tv_rule v \<and> tl_lifecycle r = TPublished"
  by (auto simp: published_rows_def)

lemma candidates_published:
  assumes inv: "rules_inv tx st" and c: "c \<in> set (candidates st)"
  shows "\<exists>v. published_version (cr_rule c) st = Some v \<and> cr_conditions c = tv_conditions v \<and>
    publish_blockers tx (tv_conditions v) (tv_actions v) = Inr []"
proof -
  have pub: "pub_inv tx st" using inv by (simp add: rules_inv_def)
  from first_per_set [OF c [unfolded candidates_def]] obtain r v where rv: "(r, v) \<in> set (published_rows st)"
    and eq: "c = \<lparr>cr_rule = tl_id r, cr_priority = tl_priority r, cr_conditions = tv_conditions v\<rparr>" by auto
  then have v: "v \<in> set (published_of (tl_id r) (ts_versions st))" by (simp add: published_rows_in published_of_def)
  moreover obtain w where "published_of (tl_id r) (ts_versions st) = [w]"
    using pub_invD(1) [OF pub, of r] rv unfolding published_rows_in by blast
  ultimately have "published_of (tl_id r) (ts_versions st) = [v]" by simp
  then have "published_version (tl_id r) st = Some v" by (simp add: published_version_def published_of_def)
  moreover have "publish_blockers tx (tv_conditions v) (tv_actions v) = Inr []"
    using rv pub_invD(3) [OF pub] unfolding published_rows_in by blast
  ultimately show ?thesis using eq by simp
qed

lemma candidates_complete:
  assumes inv: "rules_inv tx st" and r: "r \<in> set (ts_rules st)"
  shows "tl_id r \<in> cr_rule ` set (candidates st) \<longleftrightarrow> tl_lifecycle r = TPublished"
proof -
  have pub: "pub_inv tx st" and ids: "ids_inv st" using inv by (simp_all add: rules_inv_def)
  have uniq: "q = r" if "q \<in> set (ts_rules st)" "tl_id q = tl_id r" for q
    using ids r that by (auto simp: ids_inv_def distinct_map inj_on_def)
  have "cr_rule ` set (candidates st) = (\<lambda>(r, v). tl_id r) ` set (published_rows st)"
    by (force simp: candidates_def first_per_keys)
  moreover have "tl_id r \<in> (\<lambda>(r, v). tl_id r) ` set (published_rows st) \<longleftrightarrow> tl_lifecycle r = TPublished"
  proof
    assume "tl_lifecycle r = TPublished"
    then obtain w where "published_of (tl_id r) (ts_versions st) = [w]" using pub_invD(1) [OF pub r] by blast
    then have "w \<in> set (published_of (tl_id r) (ts_versions st))" by simp
    then have "(r, w) \<in> set (published_rows st)"
      using r \<open>tl_lifecycle r = TPublished\<close> by (simp add: published_rows_in published_of_def)
    then show "tl_id r \<in> (\<lambda>(r, v). tl_id r) ` set (published_rows st)" by force
  next
    assume "tl_id r \<in> (\<lambda>(r, v). tl_id r) ` set (published_rows st)"
    then obtain q v where "(q, v) \<in> set (published_rows st)" "tl_id q = tl_id r" by force
    then show "tl_lifecycle r = TPublished" using uniq [of q] by (auto simp: published_rows_in)
  qed
  ultimately show ?thesis by simp
qed

text \<open>
  C22. Only what passed the gate is ever run. After any history of rule administration every published rule is a candidate of the engine,
  exactly once, and no other rule is; the conditions the candidate is matched on and the actions the engine then loads belong to one
  version, which has no blocker of the publish gate; and a version that was once published keeps its conditions and actions for ever.
\<close>

theorem published_rules_sound:
  assumes "rules_inv tx st" and "\<forall>(env, actor, op)\<in>set calls. rn_text env = tx"
  shows "distinct (map cr_rule (candidates (rules_run calls st))) \<and>
    (\<forall>r\<in>set (ts_rules (rules_run calls st)). tl_id r \<in> cr_rule ` set (candidates (rules_run calls st)) \<longleftrightarrow> tl_lifecycle r = TPublished) \<and>
    (\<forall>c\<in>set (candidates (rules_run calls st)). \<exists>v. published_version (cr_rule c) (rules_run calls st) = Some v \<and>
       cr_conditions c = tv_conditions v \<and> publish_blockers tx (tv_conditions v) (tv_actions v) = Inr []) \<and>
    (\<forall>v\<in>set (ts_versions st). \<forall>w\<in>set (ts_versions (rules_run calls st)). tv_id w = tv_id v \<longrightarrow> tv_lifecycle v \<in> {TPublished, TRetired} \<longrightarrow>
       tv_conditions w = tv_conditions v \<and> tv_actions w = tv_actions v)"
proof -
  from rules_run_keeps [OF assms] have inv: "rules_inv tx (rules_run calls st)" and fr: "frozen st (rules_run calls st)" by blast+
  show ?thesis
    using candidates_published [OF inv] candidates_complete [OF inv] frozenD [OF fr] first_per_distinct
    unfolding candidates_def by (intro conjI ballI impI) blast+
qed

text \<open>The order of the rows of the table does not matter to what is selected, and with distinct rule ids the order is total.\<close>

lemma filter_res_Inr:
  "filter_res p xs = Inr ys \<longleftrightarrow> (\<forall>x\<in>set xs. is_ok (p x)) \<and> ys = filter (\<lambda>x. p x = Inr True) xs"
proof (induction xs arbitrary: ys)
  case (Cons x xs)
  show ?case
  proof (cases "p x")
    case (Inr b)
    have "filter_res p (x # xs) = Inr ys \<longleftrightarrow> (\<exists>zs. filter_res p xs = Inr zs \<and> ys = (if b then x # zs else zs))"
      by (auto simp: Inr bind_res_Inr)
    also have "\<dots> \<longleftrightarrow> (\<forall>x\<in>set (x # xs). is_ok (p x)) \<and> ys = filter (\<lambda>x. p x = Inr True) (x # xs)"
      unfolding Cons.IH by (simp add: Inr)
    finally show ?thesis .
  qed simp
qed auto

definition select_key :: "(uuid \<Rightarrow> string) \<Rightarrow> candidate_rule \<Rightarrow> int \<times> string" where
  "select_key us r = (cr_priority r, us (cr_rule r))"

text \<open>
  Rule selection is deterministic. When matching does not fail, the rules selected are exactly those that match, in ascending order of
  priority and then of the text of the rule's id, and any other order of the same candidates gives the same list.
\<close>

theorem selection_deterministic:
  assumes "select_matching_rules us rules sig = Inr sel" and "distinct (map cr_rule rules)" and "inj us" and "mset rules' = mset rules"
  shows "select_matching_rules us rules' sig = Inr sel \<and> sorted (map (select_key us) sel) \<and> distinct sel \<and>
    set sel = {r \<in> set rules. rule_matches (cr_conditions r) sig = Inr True}"
proof -
  have same: "set rules' = set rules" using assms(4) by (metis mset_eq_setD)
  have ok: "\<forall>r\<in>set rules. is_ok (rule_matches (cr_conditions r) sig)"
    and sel: "sel = sort_key (select_key us) (filter (\<lambda>r. rule_matches (cr_conditions r) sig = Inr True) rules)"
    using assms(1) unfolding select_matching_rules_def select_key_def [abs_def] bind_res_Inr filter_res_Inr by blast+
  have "filter_res (\<lambda>r. rule_matches (cr_conditions r) sig) rules' = Inr (filter (\<lambda>r. rule_matches (cr_conditions r) sig = Inr True) rules')"
    using ok same by (simp add: filter_res_Inr)
  moreover have "sort_key (select_key us) (filter p rules') = sort_key (select_key us) (filter p rules)" for p
  proof (rule map_sorted_distinct_set_unique)
    have inj: "inj_on (select_key us) (set rules)"
      using assms(2,3) by (auto simp: select_key_def inj_on_def distinct_map dest: injD)
    then show "inj_on (select_key us) (set (sort_key (select_key us) (filter p rules')) \<union> set (sort_key (select_key us) (filter p rules)))"
      using same by (simp add: inj_on_subset)
    have "distinct rules" using assms(2) by (simp add: distinct_map)
    moreover from this have "distinct rules'" using assms(4) by (metis mset_eq_imp_distinct_iff)
    ultimately show "distinct (map (select_key us) (sort_key (select_key us) (filter p rules')))"
      "distinct (map (select_key us) (sort_key (select_key us) (filter p rules)))"
      using inj same by (simp_all add: distinct_map inj_on_subset)
  qed (simp_all add: same)
  moreover have "distinct rules" using assms(2) by (simp add: distinct_map)
  ultimately show ?thesis
    using sel unfolding select_matching_rules_def by (simp add: select_key_def [abs_def])
qed

section \<open>Samples and limits\<close>

definition sample_text_env :: text_env where
  "sample_text_env = \<lparr>tx_str = (\<lambda>_. ''...''), tx_parse = (\<lambda>s. if s = ''w1'' then Some 1 else None)\<rparr>"

definition sample_rule_env :: rule_env where
  "sample_rule_env = \<lparr>rn_audit = sample_env, rn_uuid = nat_str, rn_text = sample_text_env\<rparr>"

definition empty_rules :: rule_store where
  "empty_rules = \<lparr>ts_rules = [], ts_versions = [], ts_endpoints = [], ts_audit = \<lparr>audit_events = [], audit_next_seq = 1\<rparr>, ts_next = 0\<rparr>"

text \<open>A rule on a severity of at least \<^verbatim>\<open>high\<close> that creates an event and attaches a workflow to it.\<close>

definition severity_rule :: rule_input where
  "severity_rule = \<lparr>ri_name = ''alarm'',
     ri_conditions = [(''op'', PStr ''gte''), (''args'', PList [PDict [(''field'', PStr ''severity'')], PInt 3])],
     ri_actions = [PDict [(''type'', PStr ''create_event'')], PDict [(''type'', PStr ''attach_workflow''), (''template_key'', PStr ''fire'')]],
     ri_priority = 100, ri_endpoint = None, ri_changelog = None\<rparr>"

definition sample_calls :: "(rule_env \<times> uuid option \<times> rule_op) list" where
  "sample_calls = [(sample_rule_env, None, CreateRule severity_rule), (sample_rule_env, None, ValidateVersion 1),
     (sample_rule_env, None, PublishVersion 1 None)]"

lemma empty_rules_inv: "rules_inv tx empty_rules"
  by (simp add: rules_inv_def ids_inv_def pub_inv_def empty_rules_def)

theorem published_rules_sound_witness:
  "(\<exists>v. published_version 0 (rules_run sample_calls empty_rules) = Some v \<and> cr_conditions (hd (candidates (rules_run sample_calls empty_rules))) = tv_conditions v \<and>
     publish_blockers sample_text_env (tv_conditions v) (tv_actions v) = Inr [])"
proof -
  have "map cr_rule (candidates (rules_run sample_calls empty_rules)) = [0]" by code_simp
  then have "hd (candidates (rules_run sample_calls empty_rules)) \<in> set (candidates (rules_run sample_calls empty_rules))"
    "cr_rule (hd (candidates (rules_run sample_calls empty_rules))) = 0" by auto
  moreover have "\<forall>(env, actor, op)\<in>set sample_calls. rn_text env = sample_text_env" by (simp add: sample_calls_def sample_rule_env_def)
  ultimately show ?thesis using published_rules_sound [OF empty_rules_inv, of sample_calls sample_text_env] by metis
qed

definition ringing_signal :: pydict where
  "ringing_signal = [(''signal_type'', PStr ''CALL_RINGING''), (''provider'', PStr ''mock''), (''source'', PDict [(''ani'', PStr ''+491''), (''dnis'', PStr ''+492'')])]"

theorem selection_deterministic_witness:
  "select_matching_rules (\<lambda>n. replicate n (CHR ''a'')) [\<lparr>cr_rule = 1, cr_priority = 5, cr_conditions = []\<rparr>, \<lparr>cr_rule = 2, cr_priority = 1, cr_conditions = []\<rparr>]
     ringing_signal = Inr [\<lparr>cr_rule = 2, cr_priority = 1, cr_conditions = []\<rparr>, \<lparr>cr_rule = 1, cr_priority = 5, cr_conditions = []\<rparr>]"
proof -
  let ?a = "\<lparr>cr_rule = 1, cr_priority = 5, cr_conditions = []\<rparr>" and ?b = "\<lparr>cr_rule = 2, cr_priority = 1, cr_conditions = []\<rparr>"
  have "select_matching_rules (\<lambda>n. replicate n (CHR ''a'')) [?b, ?a] ringing_signal = Inr [?b, ?a]" by code_simp
  moreover have "inj (\<lambda>n. replicate n (CHR ''a''))" by (rule injI) (metis length_replicate)
  ultimately show ?thesis using selection_deterministic [of _ "[?b, ?a]" ringing_signal "[?b, ?a]" "[?a, ?b]"] by simp
qed

text \<open>
  \<^verbatim>\<open>rule_matches\<close> is documented as total, but an ordering on a field the signal does not carry raises: the rule above passes the gate, and
  matching it against a call raises instead of answering no.
\<close>

theorem published_rule_raises_on_match:
  "publish_blockers sample_text_env (ri_conditions severity_rule) (ri_actions severity_rule) = Inr [] \<and>
   \<not> is_ok (rule_matches (ri_conditions severity_rule) ringing_signal)"
  by code_simp

text \<open>
  Three fields the publish gate accepts are never filled from a signal, whatever the signal is: a condition on them is published and
  compares with \<^verbatim>\<open>None\<close> for ever.
\<close>

theorem never_filled_fields:
  "filter (\<lambda>f. f \<notin> set (map fst (signal_to_context sig))) (map fst (schema_fields TRIGGER_CONTEXT)) = [''workplace'', ''station'', ''alarm_type'']"
  by (simp add: signal_to_context_def TRIGGER_CONTEXT_def Let_def)

end
