(* ===== verification/Trigger_Engine.thy ===== *)
theory Trigger_Engine
  imports Trigger_Rules Workflow_Runtime Telephony Commands
begin

text \<open>
  The trigger engine: the typed actions with their exactly-once ledger (\<^verbatim>\<open>infra/repositories/trigger_actions.py\<close>), the engine that runs the
  matching rules of an inbox row (\<^verbatim>\<open>infra/repositories/trigger_engine.py\<close>), the queue of unmapped signals
  (\<^verbatim>\<open>infra/repositories/unmapped_signals.py\<close>) and the operator popups (\<^verbatim>\<open>infra/repositories/client_popups.py\<close>). An action is one
  transaction (three for \<^verbatim>\<open>attach_workflow\<close>): its steps are whole transactions, and a call that raises returns the error together with
  the database it leaves. Every action of a signal is run against the tables of the components it uses: the event repository, the workflow
  runtime, the outbox and the domain-event log.
\<close>

section \<open>Python conversions\<close>

text \<open>\<^verbatim>\<open>int(text)\<close>: surrounding space, a sign, decimal digits with single underscores between them.\<close>

fun digits_value :: "nat \<Rightarrow> string \<Rightarrow> nat option" where
  "digits_value acc [] = Some acc"
| "digits_value acc (c # cs) =
     (if py_isdigit c then digits_value (10 * acc + (ord_of c - 48)) cs
      else if c = CHR ''_'' then (case cs of d # _ \<Rightarrow> if py_isdigit d then digits_value acc cs else None | [] \<Rightarrow> None)
      else None)"

definition parse_int :: "string \<Rightarrow> int option" where
  "parse_int raw =
     (case py_strip raw of
        [] \<Rightarrow> None
      | c # cs \<Rightarrow>
          (let body = (if c \<in> {CHR ''+'', CHR ''-''} then cs else c # cs) in
           case body of
             [] \<Rightarrow> None
           | d # _ \<Rightarrow> if \<not> py_isdigit d then None
                      else map_option (\<lambda>n. if c = CHR ''-'' then - int n else int n) (digits_value 0 body)))"

definition py_int :: "pyval \<Rightarrow> int option" where
  "py_int v =
     (case v of
        PInt i \<Rightarrow> Some i
      | PBool b \<Rightarrow> Some (if b then 1 else 0)
      | PFloat q \<Rightarrow> Some (if q < 0 then \<lceil>q\<rceil> else \<lfloor>q\<rfloor>)
      | PStr s \<Rightarrow> parse_int s
      | _ \<Rightarrow> None)"

text \<open>\<^verbatim>\<open>dict(value)\<close>: a dictionary, or a list of pairs with a string in front.\<close>

fun py_pair :: "pyval \<Rightarrow> (string \<times> pyval) option" where
  "py_pair (PList [PStr k, v]) = Some (k, v)"
| "py_pair (PStr [a, b]) = Some ([a], PStr [b])"
| "py_pair _ = None"

definition py_dict :: "pyval \<Rightarrow> pydict option" where
  "py_dict v =
     (case v of
        PDict d \<Rightarrow> Some d
      | PList xs \<Rightarrow> if list_all (\<lambda>x. py_pair x \<noteq> None) xs then Some (dict_of (map (\<lambda>x. case py_pair x of Some p \<Rightarrow> p | None \<Rightarrow> ([], PNone)) xs)) else None
      | PStr [] \<Rightarrow> Some []
      | _ \<Rightarrow> None)"

section \<open>Tables\<close>

datatype exec_status = ExecPending | ExecSucceeded | ExecFailed | ExecSkipped

record trigger_execution =
  te_event :: nat
  te_version :: uuid
  te_index :: nat
  te_status :: exec_status
  te_result :: "pydict option"
  te_completed :: "instant option"

record popup_row =
  pu_id :: uuid
  pu_workplace :: uuid
  pu_kind :: string
  pu_payload :: pydict
  pu_created :: instant
  pu_expires :: instant
  pu_delivered :: "instant option"
  pu_dismissed :: "instant option"

record unmapped_row =
  um_id :: uuid
  um_dedupe :: string
  um_provider :: string
  um_signal_type :: string
  um_source :: pydict
  um_sample :: pydict
  um_occurrences :: nat
  um_first :: instant
  um_last :: instant
  um_resolved :: "instant option"
  um_resolved_by :: "uuid option"
  um_endpoint :: "uuid option"
  um_note :: "string option"

text \<open>The endpoints are their ids with the popup text of each; the audit trail, the outbox and the workflow tables are those of \<open>tg_wf\<close>.\<close>

record trig_db =
  tg_inbox :: "inbox_row list"
  tg_rules :: rule_store
  tg_execs :: "trigger_execution list"
  tg_events :: event_db
  tg_wf :: workflow_db
  tg_popups :: "popup_row list"
  tg_unmapped :: "unmapped_row list"
  tg_endpoints :: "(uuid \<times> string option) list"
  tg_next :: uuid

record trig_env =
  gn_wf :: wf_env
  gn_repo :: repo_env
  gn_text :: text_env
  gn_sha :: "string \<Rightarrow> string"
  gn_float :: "rat \<Rightarrow> string"
  gn_date_time :: "string \<Rightarrow> bool"

definition gn_now :: "trig_env \<Rightarrow> instant" where
  "gn_now env = we_now (gn_wf env)"

definition gn_uuid :: "trig_env \<Rightarrow> uuid \<Rightarrow> string" where
  "gn_uuid env = we_uuid (gn_wf env)"

text \<open>Errors: a malformed action (caught and recorded), and whatever else an action or the matching raises (not caught).\<close>

datatype trig_error =
    ActionError string
  | PyRaises string | EventRaises event_error | RepoRaises repo_error | LogRaises event_log_error | OutboxRaises outbox_error
  | WorkflowRaises wf_error | AuditRaises audit_error | MatchRaises dsl_error | SignalRejectedError

record run_state =
  st_event :: nat
  st_version :: uuid
  st_signal :: pydict
  st_actor :: "uuid option"
  st_results :: "(nat \<times> pydict) list"

record action_outcome =
  ao_index :: nat
  ao_type :: string
  ao_status :: exec_status
  ao_result :: pydict

section \<open>The ledger\<close>

definition exec_key :: "trigger_execution \<Rightarrow> nat \<times> uuid \<times> nat" where
  "exec_key x = (te_event x, te_version x, te_index x)"

definition state_key :: "run_state \<Rightarrow> nat \<Rightarrow> nat \<times> uuid \<times> nat" where
  "state_key st i = (st_event st, st_version st, i)"

definition claim_exec :: "run_state \<Rightarrow> nat \<Rightarrow> trig_db \<Rightarrow> bool \<times> trig_db" where
  "claim_exec st i db =
     (if state_key st i \<in> exec_key ` set (tg_execs db) then (False, db)
      else (True, db\<lparr>tg_execs := tg_execs db @ [\<lparr>te_event = st_event st, te_version = st_version st, te_index = i, te_status = ExecPending,
             te_result = None, te_completed = None\<rparr>]\<rparr>))"

definition finish_exec :: "trig_env \<Rightarrow> run_state \<Rightarrow> nat \<Rightarrow> exec_status \<Rightarrow> pydict \<Rightarrow> trig_db \<Rightarrow> trig_db" where
  "finish_exec env st i status result db =
     db\<lparr>tg_execs := map (\<lambda>x. if exec_key x = state_key st i
          then x\<lparr>te_status := status, te_result := Some result, te_completed := Some (gn_now env)\<rparr> else x) (tg_execs db)\<rparr>"

fun exec_status_value :: "exec_status \<Rightarrow> string" where
  "exec_status_value ExecPending = ''pending''"
| "exec_status_value ExecSucceeded = ''succeeded''"
| "exec_status_value ExecFailed = ''failed''"
| "exec_status_value ExecSkipped = ''skipped''"

definition trig_audit ::
  "trig_env \<Rightarrow> string \<Rightarrow> uuid option \<Rightarrow> string \<Rightarrow> string \<Rightarrow> pydict \<Rightarrow> trig_db \<Rightarrow> (trig_error, trig_db) res" where
  "trig_audit env action actor ttype tid after db =
     (case wf_write_audit (gn_wf env) action actor ttype tid after None (tg_wf db) of
        Inl (WfAudit e) \<Rightarrow> Inl (AuditRaises e)
      | Inl e \<Rightarrow> Inl (WorkflowRaises e)
      | Inr wdb \<Rightarrow> Inr (db\<lparr>tg_wf := wdb\<rparr>))"

definition exec_audit ::
  "trig_env \<Rightarrow> run_state \<Rightarrow> nat \<Rightarrow> string \<Rightarrow> exec_status \<Rightarrow> pydict \<Rightarrow> trig_db \<Rightarrow> (trig_error, trig_db) res" where
  "exec_audit env st i ty status result db =
     trig_audit env ''TRIGGER_EXECUTED'' (st_actor st) ''trigger_rule_version'' (gn_uuid env (st_version st))
       [(''action_index'', PInt (int i)), (''action_type'', PStr ty), (''status'', PStr (exec_status_value status)),
        (''provider_event_id'', PStr (gn_uuid env (st_event st))), (''result'', PDict result)] db"

section \<open>Action handlers\<close>

definition as_uuid :: "trig_env \<Rightarrow> pyval \<Rightarrow> (trig_error, uuid option) res" where
  "as_uuid env v =
     (if v = PNone \<or> v = PStr [] then Inr None
      else (case tx_parse (gn_text env) (py_str (tx_str (gn_text env)) v) of
              None \<Rightarrow> Inl (ActionError ''not a uuid'')
            | Some u \<Rightarrow> Inr (Some u)))"

text \<open>The last event an action of this run reported; its id was printed by the run itself.\<close>

definition last_event_id :: "trig_env \<Rightarrow> run_state \<Rightarrow> (trig_error, uuid option) res" where
  "last_event_id env st =
     (case find_first (\<lambda>r. py_truthy (dict_get r ''event_id'')) (rev (map snd (st_results st))) of
        None \<Rightarrow> Inr None
      | Some r \<Rightarrow>
          (case tx_parse (gn_text env) (py_str (tx_str (gn_text env)) (dict_get r ''event_id'')) of
             None \<Rightarrow> Inl (PyRaises ''ValueError'')
           | Some u \<Rightarrow> Inr (Some u)))"

definition trigger_dedupe :: "trig_env \<Rightarrow> run_state \<Rightarrow> nat \<Rightarrow> string" where
  "trigger_dedupe env st i = ''trigger:'' @ gn_uuid env (st_event st) @ '':'' @ gn_uuid env (st_version st) @ '':'' @ nat_str i"

definition trig_enqueue :: "trig_env \<Rightarrow> string \<Rightarrow> string \<Rightarrow> pydict \<Rightarrow> trig_db \<Rightarrow> (trig_error, bool \<times> trig_db) res" where
  "trig_enqueue env dedupe ty payload db =
     (case enqueue (env_secrets (we_audit (gn_wf env))) (gn_now env) True (dedupe, ty, payload) (wd_outbox (tg_wf db)) of
        Inl e \<Rightarrow> Inl (OutboxRaises e)
      | Inr (new, rows) \<Rightarrow> Inr (new, db\<lparr>tg_wf := (tg_wf db)\<lparr>wd_outbox := rows\<rparr>\<rparr>))"

definition signal_source :: "run_state \<Rightarrow> pydict" where
  "signal_source st = as_dict (dict_get (st_signal st) ''source'')"

definition call_action :: "trig_env \<Rightarrow> run_state \<Rightarrow> nat \<Rightarrow> string \<Rightarrow> pydict \<Rightarrow> trig_db \<Rightarrow> (trig_error, pydict \<times> trig_db) res" where
  "call_action env st i ty a db =
     (let str = py_str (tx_str (gn_text env)); call = py_or (dict_get a ''call_id'') (dict_get (signal_source st) ''source_call_id'') in
      if \<not> py_truthy call then Inl (ActionError ''needs a call_id / source_call_id'')
      else bind_res
        (if ty \<noteq> ''send_dtmf_profile'' then Inr []
         else if \<not> py_truthy (dict_get a ''dtmf_profile_id'') then Inl (ActionError ''send_dtmf_profile requires dtmf_profile_id'')
         else if has_key a ''code'' \<or> has_key a ''dtmf'' then Inl (ActionError ''a DTMF code must not appear in a rule action'')
         else Inr [(''dtmf_profile_id'', PStr (str (dict_get a ''dtmf_profile_id'')))]) (\<lambda>extra.
        bind_res (trig_enqueue env (trigger_dedupe env st i) ty ((''call_id'', PStr (str call)) # extra) db) (\<lambda>(new, db').
          Inr ([(''enqueued'', PBool new), (''call_id'', PStr (str call))], db'))))"

definition camera_payload :: "trig_env \<Rightarrow> string \<Rightarrow> pydict \<Rightarrow> (trig_error, pydict) res" where
  "camera_payload env ty a =
     (let str = py_str (tx_str (gn_text env)) in
      if ty = ''open_camera''
      then (let ref = py_or (dict_get a ''camera_ref'') (dict_get a ''camera_id'') in
            if \<not> py_truthy ref then Inl (ActionError ''open_camera requires camera_ref'') else Inr [(''camera_ref'', PStr (str ref))])
      else if ty = ''open_camera_group''
      then (case py_or (dict_get a ''camera_refs'') (PList []) of
              PList rs \<Rightarrow>
                (let refs = map (\<lambda>r. PStr (str r)) (filter (\<lambda>r. \<not> blank (gn_text env) r) rs); grp = dict_get a ''camera_group_ref'' in
                 if refs = [] \<and> \<not> py_truthy grp then Inl (ActionError ''open_camera_group requires camera_refs or camera_group_ref'')
                 else Inr ((if refs \<noteq> [] then [(''camera_refs'', PList refs)] else []) @
                           (if py_truthy grp then [(''camera_group_ref'', PStr (str grp))] else [])))
            | _ \<Rightarrow> Inl (PyRaises ''TypeError''))
      else (let cap = dict_get a ''capability'' in
            if \<not> py_truthy cap then Inl (ActionError ''integration_action requires capability'')
            else (case py_dict (py_or (dict_get a ''params'') (PDict [])) of
                    None \<Rightarrow> Inl (PyRaises ''TypeError'')
                  | Some params \<Rightarrow> Inr [(''capability'', PStr (str cap)), (''params'', PDict params)])))"

definition integration_action :: "trig_env \<Rightarrow> run_state \<Rightarrow> nat \<Rightarrow> string \<Rightarrow> pydict \<Rightarrow> trig_db \<Rightarrow> (trig_error, pydict \<times> trig_db) res" where
  "integration_action env st i ty a db =
     bind_res (camera_payload env ty a) (\<lambda>base.
     bind_res (as_uuid env (dict_get a ''workplace_id'')) (\<lambda>wp.
     bind_res (last_event_id env st) (\<lambda>ev.
       let dedupe = trigger_dedupe env st i;
           payload = base @ (case wp of None \<Rightarrow> [] | Some w \<Rightarrow> [(''workplace_id'', PStr (gn_uuid env w))]) @ [(''command_id'', PStr dedupe)] @
             (case ev of None \<Rightarrow> [] | Some e \<Rightarrow> [(''event_id'', PStr (gn_uuid env e))])
       in bind_res (trig_enqueue env dedupe ty payload db) (\<lambda>(new, db'). Inr ((''enqueued'', PBool new) # payload, db')))))"

definition parse_priority :: "pyval \<Rightarrow> event_priority option" where
  "parse_priority v =
     (if v = PStr ''critical'' then Some Critical else if v = PStr ''high'' then Some High else if v = PStr ''medium'' then Some Medium
      else if v = PStr ''low'' then Some Low else None)"

definition create_event_action :: "trig_env \<Rightarrow> run_state \<Rightarrow> pydict \<Rightarrow> trig_db \<Rightarrow> (trig_error, pydict \<times> trig_db) res" where
  "create_event_action env st a db =
     (case parse_priority (get_default a ''priority'' (PStr ''high'')) of
        None \<Rightarrow> Inl (ActionError ''invalid priority'')
      | Some prio \<Rightarrow>
          (let str = py_str (tx_str (gn_text env));
               title = str (py_or (dict_get a ''title'') (PStr (''Trigger: '' @ str (get_default (st_signal st) ''signal_type'' (PStr ''signal'')))));
               e = tg_next db
           in bind_res (as_uuid env (dict_get a ''bbz_id'')) (\<lambda>bbz.
              bind_res (as_uuid env (dict_get a ''workplace_id'')) (\<lambda>wp.
              bind_res (case dict_get a ''description'' of PNone \<Rightarrow> Inr None | PStr s \<Rightarrow> Inr (Some s) | _ \<Rightarrow> Inl (PyRaises ''AttributeError'')) (\<lambda>desc.
                (case create_event (gn_uuid env) \<lparr>ca_id = e, ca_title = title, ca_priority = prio, ca_actor = st_actor st, ca_description = desc,
                         ca_bbz = bbz, ca_workplace = wp, ca_source = ''trigger''\<rparr> of
                   Inl err \<Rightarrow> Inl (EventRaises err)
                 | Inr agg \<Rightarrow>
                     (case event_add (gn_repo env) agg (st_actor st) None (tg_events db) of
                        Inl err \<Rightarrow> Inl (RepoRaises err)
                      | Inr evs \<Rightarrow> Inr ([(''event_id'', PStr (gn_uuid env e)), (''priority'', PStr (priority_value prio))],
                          db\<lparr>tg_events := evs, tg_next := Suc e\<rparr>))))))))"

definition DEFAULT_POPUP_TTL :: int where
  "DEFAULT_POPUP_TTL = 120"

definition fill_doorbell_text :: "trig_env \<Rightarrow> run_state \<Rightarrow> pydict \<Rightarrow> trig_db \<Rightarrow> (trig_error, pydict) res" where
  "fill_doorbell_text env st payload db =
     (let ep = dict_get (signal_source st) ''technical_endpoint_id'' in
      if dict_get (st_signal st) ''signal_type'' \<noteq> PStr ''DOORBELL_RINGING'' \<or> py_truthy (dict_get payload ''text'') \<or> \<not> py_truthy ep then Inr payload
      else bind_res (as_uuid env ep) (\<lambda>u.
        (case u of
           None \<Rightarrow> Inr payload
         | Some i \<Rightarrow>
             (case map_of (tg_endpoints db) i of
                Some (Some (c # cs)) \<Rightarrow> Inr (dict_set ''text'' (PStr (c # cs)) payload)
              | _ \<Rightarrow> Inr payload))))"

definition show_client_popup :: "trig_env \<Rightarrow> run_state \<Rightarrow> pydict \<Rightarrow> trig_db \<Rightarrow> (trig_error, pydict \<times> trig_db) res" where
  "show_client_popup env st a db =
     bind_res (as_uuid env (dict_get a ''workplace_id'')) (\<lambda>wp.
       case wp of
         None \<Rightarrow> Inl (ActionError ''show_client_popup requires workplace_id'')
       | Some w \<Rightarrow>
           (case py_int (get_default a ''ttl_seconds'' (PInt DEFAULT_POPUP_TTL)) of
              None \<Rightarrow> Inl (PyRaises ''ValueError'')
            | Some ttl \<Rightarrow>
                (case py_dict (py_or (dict_get a ''payload'') (PDict [])) of
                   None \<Rightarrow> Inl (PyRaises ''TypeError'')
                 | Some payload0 \<Rightarrow>
                     bind_res (fill_doorbell_text env st payload0 db) (\<lambda>payload.
                       let expires = gn_now env + ttl * 1000000; kind = py_str (tx_str (gn_text env)) (get_default a ''kind'' (PStr ''trigger''));
                           p = tg_next db;
                           row = \<lparr>pu_id = p, pu_workplace = w, pu_kind = kind, pu_payload = payload, pu_created = gn_now env, pu_expires = expires,
                                   pu_delivered = None, pu_dismissed = None\<rparr>
                       in (case append_event (re_validators (gn_repo env)) (re_env (gn_repo env))
                             \<lparr>er_aggregate_type = ''client_popup'', er_aggregate_id = gn_uuid env p, er_event_type = ''CLIENT_POPUP_RAISED'',
                               er_payload = [(''popup_id'', PStr (gn_uuid env p)), (''workplace_id'', PStr (gn_uuid env w)), (''kind'', PStr kind),
                                 (''expires_at'', PStr (we_iso (gn_wf env) expires)), (''actor_id'', uuid_or_none (gn_uuid env) (st_actor st))],
                               er_schema_version = 1, er_user = st_actor st, er_client = None, er_command = None, er_local = None\<rparr>
                             (eb_log (tg_events db)) of
                             (Inl e, _) \<Rightarrow> Inl (LogRaises e)
                           | (Inr _, elog) \<Rightarrow>
                               Inr ([(''popup_id'', PStr (gn_uuid env p)), (''workplace_id'', PStr (gn_uuid env w))],
                                 db\<lparr>tg_popups := tg_popups db @ [row], tg_events := (tg_events db)\<lparr>eb_log := elog\<rparr>, tg_next := Suc p\<rparr>))))))"

definition notify_action :: "trig_env \<Rightarrow> run_state \<Rightarrow> nat \<Rightarrow> pydict \<Rightarrow> trig_db \<Rightarrow> (trig_error, pydict \<times> trig_db) res" where
  "notify_action env st i a db =
     (case py_or (dict_get a ''payload'') (PDict []) of
        PDict d \<Rightarrow>
          bind_res (trig_enqueue env (trigger_dedupe env st i) ''notify''
              (foldl (\<lambda>acc (k, v). dict_set k v acc) [(''signal_type'', dict_get (st_signal st) ''signal_type'')] d) db) (\<lambda>(new, db').
            Inr ([(''enqueued'', PBool new)], db'))
      | _ \<Rightarrow> Inl (PyRaises ''TypeError''))"

definition CALL_ACTIONS :: "string list" where
  "CALL_ACTIONS = [''answer_call'', ''send_dtmf_profile'', ''hangup_call'']"

definition INTEGRATION_ACTIONS :: "string list" where
  "INTEGRATION_ACTIONS = [''open_camera'', ''open_camera_group'', ''integration_action'']"

definition dispatch_action :: "trig_env \<Rightarrow> run_state \<Rightarrow> nat \<Rightarrow> string \<Rightarrow> pydict \<Rightarrow> trig_db \<Rightarrow> (trig_error, pydict \<times> trig_db) res" where
  "dispatch_action env st i ty a db =
     (if ty = ''create_event'' then create_event_action env st a db
      else if ty = ''show_client_popup'' then show_client_popup env st a db
      else if ty = ''notify'' then notify_action env st i a db
      else if ty \<in> set CALL_ACTIONS then call_action env st i ty a db
      else if ty \<in> set INTEGRATION_ACTIONS then integration_action env st i ty a db
      else Inl (ActionError ''action type not supported here''))"

section \<open>Running an action\<close>

definition record_failure ::
  "trig_env \<Rightarrow> run_state \<Rightarrow> nat \<Rightarrow> string \<Rightarrow> string \<Rightarrow> trig_db \<Rightarrow> (trig_error, action_outcome option) res \<times> trig_db" where
  "record_failure env st i ty err db =
     (let result = [(''error'', PStr err)]; outcome = \<lparr>ao_index = i, ao_type = ty, ao_status = ExecFailed, ao_result = result\<rparr>;
          db1 = snd (claim_exec st i db) in
      if list_ex (\<lambda>x. exec_key x = state_key st i \<and> te_status x = ExecPending) (tg_execs db1)
      then (case exec_audit env st i ty ExecFailed result (finish_exec env st i ExecFailed result db1) of
              Inl e \<Rightarrow> (Inl e, db)
            | Inr db2 \<Rightarrow> (Inr (Some outcome), db2))
      else (Inr (Some outcome), db1))"

definition finish_audited ::
  "trig_env \<Rightarrow> run_state \<Rightarrow> nat \<Rightarrow> string \<Rightarrow> pydict \<Rightarrow> trig_db \<Rightarrow> (trig_error, trig_db) res" where
  "finish_audited env st i ty result db = exec_audit env st i ty ExecSucceeded result (finish_exec env st i ExecSucceeded result db)"

definition run_atomic ::
  "trig_env \<Rightarrow> run_state \<Rightarrow> nat \<Rightarrow> string \<Rightarrow> pydict \<Rightarrow> trig_db \<Rightarrow> (trig_error, action_outcome option) res \<times> trig_db" where
  "run_atomic env st i ty a db =
     (case claim_exec st i db of
        (False, _) \<Rightarrow> (Inr None, db)
      | (True, db1) \<Rightarrow>
          (case bind_res (dispatch_action env st i ty a db1) (\<lambda>(result, db2).
                  bind_res (finish_audited env st i ty result db2) (\<lambda>db3. Inr (result, db3))) of
             Inl (ActionError err) \<Rightarrow> record_failure env st i ty err db
           | Inl e \<Rightarrow> (Inl e, db)
           | Inr (result, db3) \<Rightarrow> (Inr (Some \<lparr>ao_index = i, ao_type = ty, ao_status = ExecSucceeded, ao_result = result\<rparr>), db3)))"

text \<open>\<^verbatim>\<open>start_for_event\<close> commits its own transaction; the events it may refer to are those of the repository.\<close>

definition attach_workflow :: "trig_env \<Rightarrow> run_state \<Rightarrow> pydict \<Rightarrow> trig_db \<Rightarrow> (trig_error, pydict \<times> trig_db) res" where
  "attach_workflow env st a db =
     (if \<not> py_truthy (dict_get a ''template_key'') then Inl (ActionError ''attach_workflow requires template_key'')
      else bind_res (as_uuid env (dict_get a ''event_id'')) (\<lambda>given.
        bind_res (case given of Some e \<Rightarrow> Inr (Some e) | None \<Rightarrow> last_event_id env st) (\<lambda>ev.
          (case ev of
             None \<Rightarrow> Inl (ActionError ''attach_workflow has no event to attach to'')
           | Some e \<Rightarrow>
               (case start_for_event (gn_wf env) e (py_str (tx_str (gn_text env)) (dict_get a ''template_key'')) (st_actor st)
                       ((tg_wf db)\<lparr>wd_events := eb_events (tg_events db)\<rparr>) of
                  Inl err \<Rightarrow> Inl (WorkflowRaises err)
                | Inr (inst, wdb) \<Rightarrow>
                    Inr ([(''event_id'', PStr (gn_uuid env e)), (''workflow_instance_id'', PStr (gn_uuid env (in_id inst)))], db\<lparr>tg_wf := wdb\<rparr>))))))"

fun known_failure :: "trig_error \<Rightarrow> string option" where
  "known_failure (ActionError err) = Some err"
| "known_failure (WorkflowRaises (TemplateNotFound key)) = Some key"
| "known_failure (WorkflowRaises (NoPublishedVersion key)) = Some key"
| "known_failure _ = None"

definition run_attach_workflow ::
  "trig_env \<Rightarrow> run_state \<Rightarrow> nat \<Rightarrow> pydict \<Rightarrow> trig_db \<Rightarrow> (trig_error, action_outcome option) res \<times> trig_db" where
  "run_attach_workflow env st i a db =
     (case claim_exec st i db of
        (False, _) \<Rightarrow> (Inr None, db)
      | (True, db1) \<Rightarrow>
          (case attach_workflow env st a db1 of
             Inl e \<Rightarrow> (case known_failure e of Some err \<Rightarrow> record_failure env st i ''attach_workflow'' err db1 | None \<Rightarrow> (Inl e, db1))
           | Inr (result, db2) \<Rightarrow>
               (case finish_audited env st i ''attach_workflow'' result db2 of
                  Inl e \<Rightarrow> (Inl e, db2)
                | Inr db3 \<Rightarrow> (Inr (Some \<lparr>ao_index = i, ao_type = ''attach_workflow'', ao_status = ExecSucceeded, ao_result = result\<rparr>), db3))))"

definition run_one ::
  "trig_env \<Rightarrow> run_state \<Rightarrow> nat \<Rightarrow> pydict \<Rightarrow> trig_db \<Rightarrow> (trig_error, action_outcome option) res \<times> trig_db" where
  "run_one env st i a db =
     (let ty = py_str (tx_str (gn_text env)) (get_default a ''type'' (PStr [])) in
      if ty = ''attach_workflow'' then run_attach_workflow env st i a db else run_atomic env st i ty a db)"

fun run_actions ::
  "trig_env \<Rightarrow> run_state \<Rightarrow> nat \<Rightarrow> pyval list \<Rightarrow> trig_db \<Rightarrow> (trig_error, action_outcome list) res \<times> trig_db" where
  "run_actions env st i [] db = (Inr [], db)"
| "run_actions env st i (raw # raws) db =
     (case py_dict raw of
        None \<Rightarrow> (Inl (PyRaises ''TypeError''), db)
      | Some a \<Rightarrow>
          (case run_one env st i a db of
             (Inl e, db1) \<Rightarrow> (Inl e, db1)
           | (Inr None, db1) \<Rightarrow> run_actions env st (Suc i) raws db1
           | (Inr (Some o1), db1) \<Rightarrow>
               (case run_actions env (st\<lparr>st_results := st_results st @ [(i, ao_result o1)]\<rparr>) (Suc i) raws db1 of
                  (Inl e, db2) \<Rightarrow> (Inl e, db2)
                | (Inr os, db2) \<Rightarrow> (Inr (o1 # os), db2))))"

definition run_rule_version ::
  "trig_env \<Rightarrow> nat \<Rightarrow> trigger_version \<Rightarrow> pydict \<Rightarrow> uuid option \<Rightarrow> trig_db \<Rightarrow> (trig_error, action_outcome list) res \<times> trig_db" where
  "run_rule_version env inbox v sig actor db =
     run_actions env \<lparr>st_event = inbox, st_version = tv_id v, st_signal = sig, st_actor = actor, st_results = []\<rparr> 0 (tv_actions v) db"

section \<open>Unmapped signals\<close>

definition IDENT_FIELDS :: "string list" where
  "IDENT_FIELDS = [''ani'', ''dnis'', ''external_source_id'', ''technical_endpoint_id'', ''cti_route_point'', ''site'']"

definition or_text :: "trig_env \<Rightarrow> pyval \<Rightarrow> string \<Rightarrow> string" where
  "or_text env v d = py_str (tx_str (gn_text env)) (py_or v (PStr d))"

definition unmapped_dedupe_key :: "trig_env \<Rightarrow> pydict \<Rightarrow> string" where
  "unmapped_dedupe_key env sig =
     (let src = as_dict (dict_get sig ''source'') in
      take 200 (or_text env (dict_get sig ''provider'') [] @ '':'' @ or_text env (dict_get sig ''signal_type'') [] @ '':'' @
        join_with ''|'' (map (\<lambda>k. or_text env (dict_get src k) []) IDENT_FIELDS)))"

definition record_unmapped :: "trig_env \<Rightarrow> pydict \<Rightarrow> trig_db \<Rightarrow> trig_db" where
  "record_unmapped env sig db =
     (let k = unmapped_dedupe_key env sig in
      if k \<in> um_dedupe ` set (tg_unmapped db)
      then db\<lparr>tg_unmapped := map (\<lambda>u. if um_dedupe u = k
             then u\<lparr>um_occurrences := um_occurrences u + 1, um_last := gn_now env, um_sample := sig\<rparr> else u) (tg_unmapped db)\<rparr>
      else db\<lparr>tg_unmapped := tg_unmapped db @ [\<lparr>um_id = tg_next db, um_dedupe = k, um_provider = or_text env (dict_get sig ''provider'') ''unknown'',
             um_signal_type = or_text env (dict_get sig ''signal_type'') ''unknown'', um_source = as_dict (dict_get sig ''source''), um_sample = sig,
             um_occurrences = 1, um_first = gn_now env, um_last = gn_now env, um_resolved = None, um_resolved_by = None, um_endpoint = None,
             um_note = None\<rparr>], tg_next := Suc (tg_next db)\<rparr>)"

definition unmapped_queue :: "bool \<Rightarrow> nat \<Rightarrow> trig_db \<Rightarrow> unmapped_row list" where
  "unmapped_queue include_resolved limit db =
     take limit (sort_key (\<lambda>u. - um_last u) (filter (\<lambda>u. include_resolved \<or> um_resolved u = None) (tg_unmapped db)))"

datatype unmapped_error = UnmappedNotFound uuid | MappingEndpointNotFound uuid | UnmappedRaises trig_error

definition resolve_unmapped ::
  "trig_env \<Rightarrow> uuid \<Rightarrow> uuid option \<Rightarrow> string option \<Rightarrow> uuid option \<Rightarrow> trig_db \<Rightarrow> (unmapped_error, trig_db) res" where
  "resolve_unmapped env i endpoint remark actor db =
     (case find_first (\<lambda>u. um_id u = i) (tg_unmapped db) of
        None \<Rightarrow> Inl (UnmappedNotFound i)
      | Some u \<Rightarrow>
          (if (case endpoint of Some e \<Rightarrow> map_of (tg_endpoints db) e = None | None \<Rightarrow> False)
           then Inl (MappingEndpointNotFound (case endpoint of Some e \<Rightarrow> e | None \<Rightarrow> 0))
           else (case trig_audit env ''TECHNICAL_ENDPOINT_MAPPED'' actor ''unmapped_signal'' (gn_uuid env i)
                [(''dedupe_key'', PStr (um_dedupe u)), (''signal_type'', PStr (um_signal_type u)),
                 (''endpoint_id'', uuid_or_none (gn_uuid env) endpoint), (''occurrences'', PInt (int (um_occurrences u)))]
                (db\<lparr>tg_unmapped := map (\<lambda>x. if um_id x = i then x\<lparr>um_resolved := Some (gn_now env), um_resolved_by := actor,
                   um_endpoint := endpoint, um_note := (case remark of None \<Rightarrow> um_note x | t \<Rightarrow> t)\<rparr> else x) (tg_unmapped db)\<rparr>) of
              Inl e \<Rightarrow> Inl (UnmappedRaises e)
            | Inr db' \<Rightarrow> Inr db')))"

record diagnostics_summary =
  dg_open :: nat
  dg_resolved :: nat
  dg_occurrences :: nat
  dg_by_type :: "(string \<times> nat) list"

definition unmapped_diagnostics :: "trig_db \<Rightarrow> diagnostics_summary" where
  "unmapped_diagnostics db =
     (let open_rows = filter (\<lambda>u. um_resolved u = None) (tg_unmapped db) in
      \<lparr>dg_open = length open_rows, dg_resolved = length (filter (\<lambda>u. um_resolved u \<noteq> None) (tg_unmapped db)),
        dg_occurrences = sum_list (map um_occurrences (tg_unmapped db)),
        dg_by_type = map (\<lambda>(t, us). (t, length us)) (group_by um_signal_type open_rows)\<rparr>)"

section \<open>Popups\<close>

datatype popup_error = PopupNotFound uuid | PopupWorkplaceMismatch uuid | PopupRaises trig_error

definition pending_for :: "instant \<Rightarrow> uuid \<Rightarrow> trig_db \<Rightarrow> popup_row list" where
  "pending_for now w db =
     sort_key pu_created (filter (\<lambda>p. pu_workplace p = w \<and> pu_dismissed p = None \<and> now < pu_expires p) (tg_popups db))"

definition require_popup :: "uuid \<Rightarrow> uuid option \<Rightarrow> trig_db \<Rightarrow> (popup_error, popup_row) res" where
  "require_popup i w db =
     (case find_first (\<lambda>p. pu_id p = i) (tg_popups db) of
        None \<Rightarrow> Inl (PopupNotFound i)
      | Some p \<Rightarrow> if w \<noteq> None \<and> w \<noteq> Some (pu_workplace p) then Inl (PopupWorkplaceMismatch i) else Inr p)"

definition mark_delivered :: "trig_env \<Rightarrow> uuid \<Rightarrow> uuid option \<Rightarrow> uuid option \<Rightarrow> trig_db \<Rightarrow> (popup_error, trig_db) res" where
  "mark_delivered env i w actor db =
     bind_res (require_popup i w db) (\<lambda>p.
       if pu_delivered p \<noteq> None then Inr db
       else (case trig_audit env ''CLIENT_POPUP_DELIVERED'' actor ''client_popup_event'' (gn_uuid env i)
               [(''workplace_id'', PStr (gn_uuid env (pu_workplace p))), (''kind'', PStr (pu_kind p))]
               (db\<lparr>tg_popups := map (\<lambda>x. if pu_id x = i then x\<lparr>pu_delivered := Some (gn_now env)\<rparr> else x) (tg_popups db)\<rparr>) of
               Inl e \<Rightarrow> Inl (PopupRaises e)
             | Inr db' \<Rightarrow> Inr db'))"

definition dismiss_popup :: "trig_env \<Rightarrow> uuid \<Rightarrow> uuid option \<Rightarrow> trig_db \<Rightarrow> (popup_error, trig_db) res" where
  "dismiss_popup env i w db =
     bind_res (require_popup i w db) (\<lambda>p.
       Inr (if pu_dismissed p \<noteq> None then db
            else db\<lparr>tg_popups := map (\<lambda>x. if pu_id x = i then x\<lparr>pu_dismissed := Some (gn_now env)\<rparr> else x) (tg_popups db)\<rparr>))"

section \<open>The engine\<close>

record signal_run =
  eg_inbox :: nat
  eg_signal :: "string option"
  eg_matched :: nat
  eg_processed :: bool
  eg_actions :: "action_outcome list"

definition mark_inbox :: "trig_env \<Rightarrow> nat \<Rightarrow> trig_db \<Rightarrow> trig_db" where
  "mark_inbox env i db = db\<lparr>tg_inbox := mark_processed (gn_now env) i (tg_inbox db)\<rparr>"

fun run_matched ::
  "trig_env \<Rightarrow> nat \<Rightarrow> pydict \<Rightarrow> uuid option \<Rightarrow> candidate_rule list \<Rightarrow> trig_db \<Rightarrow> (trig_error, action_outcome list) res \<times> trig_db" where
  "run_matched env inbox sig actor [] db = (Inr [], db)"
| "run_matched env inbox sig actor (c # cs) db =
     (case published_version (cr_rule c) (tg_rules db) of
        None \<Rightarrow> run_matched env inbox sig actor cs db
      | Some v \<Rightarrow>
          (case run_rule_version env inbox v sig actor db of
             (Inl e, db1) \<Rightarrow> (Inl e, db1)
           | (Inr os, db1) \<Rightarrow>
               (case run_matched env inbox sig actor cs db1 of
                  (Inl e, db2) \<Rightarrow> (Inl e, db2)
                | (Inr os', db2) \<Rightarrow> (Inr (os @ os'), db2))))"

definition process_inbox_event :: "trig_env \<Rightarrow> nat \<Rightarrow> uuid option \<Rightarrow> trig_db \<Rightarrow> (trig_error, signal_run) res \<times> trig_db" where
  "process_inbox_event env i actor db =
     (case find_first (\<lambda>r. ib_id r = i) (tg_inbox db) of
        None \<Rightarrow> (Inr \<lparr>eg_inbox = i, eg_signal = None, eg_matched = 0, eg_processed = False, eg_actions = []\<rparr>, db)
      | Some row \<Rightarrow>
          if ib_processed_at row \<noteq> None
          then (Inr \<lparr>eg_inbox = i, eg_signal = None, eg_matched = 0, eg_processed = True, eg_actions = []\<rparr>, db)
          else (let sig = ib_normalized row in
            if \<not> py_truthy (dict_get sig ''signal_type'')
            then (Inr \<lparr>eg_inbox = i, eg_signal = None, eg_matched = 0, eg_processed = True, eg_actions = []\<rparr>, mark_inbox env i db)
            else (case select_matching_rules (gn_uuid env) (candidates (tg_rules db)) sig of
                    Inl e \<Rightarrow> (Inl (MatchRaises e), db)
                  | Inr matched \<Rightarrow>
                      (let db1 = (if matched = [] then record_unmapped env sig db else db) in
                       case run_matched env i sig actor matched db1 of
                         (Inl e, db2) \<Rightarrow> (Inl e, db2)
                       | (Inr os, db2) \<Rightarrow>
                           (Inr \<lparr>eg_inbox = i, eg_signal = Some (py_str (tx_str (gn_text env)) (dict_get sig ''signal_type'')),
                              eg_matched = length matched, eg_processed = True, eg_actions = os\<rparr>, mark_inbox env i db2)))))"

fun process_all :: "trig_env \<Rightarrow> uuid option \<Rightarrow> nat list \<Rightarrow> trig_db \<Rightarrow> (trig_error, signal_run list) res \<times> trig_db" where
  "process_all env actor [] db = (Inr [], db)"
| "process_all env actor (i # is) db =
     (case process_inbox_event env i actor db of
        (Inl e, db1) \<Rightarrow> (Inl e, db1)
      | (Inr r, db1) \<Rightarrow>
          (case process_all env actor is db1 of (Inl e, db2) \<Rightarrow> (Inl e, db2) | (Inr rs, db2) \<Rightarrow> (Inr (r # rs), db2)))"

text \<open>The rows in the order they were received, which is the order of the table.\<close>

definition resume_unprocessed :: "trig_env \<Rightarrow> nat \<Rightarrow> uuid option \<Rightarrow> trig_db \<Rightarrow> (trig_error, signal_run list) res \<times> trig_db" where
  "resume_unprocessed env limit actor db =
     process_all env actor (map ib_id (take limit (filter (\<lambda>r. ib_processed_at r = None) (tg_inbox db)))) db"

definition process_signal ::
  "trig_env \<Rightarrow> pydict \<Rightarrow> string option \<Rightarrow> string option \<Rightarrow> uuid option \<Rightarrow> trig_db \<Rightarrow> (trig_error, signal_run) res \<times> trig_db" where
  "process_signal env sig event_id dedupe actor db =
     (if \<not> validate_inbound_signal (gn_date_time env) sig then (Inl SignalRejectedError, db)
      else (case ingest (gn_sha env) (gn_float env)
                  \<lparr>iq_provider = (case dict_get sig ''provider'' of PStr p \<Rightarrow> p | _ \<Rightarrow> []), iq_normalized = sig, iq_event_id = event_id, iq_raw_ref = None,
                    iq_raw_hash = None, iq_dedupe = dedupe, iq_correlation = env_correlation (we_audit (gn_wf env))\<rparr> (tg_inbox db) of
              Inl _ \<Rightarrow> (Inl (PyRaises ''DBAPIError''), db)
            | Inr (res, rows) \<Rightarrow> process_inbox_event env (ig_inbox_id res) actor (db\<lparr>tg_inbox := rows\<rparr>)))"

section \<open>Dry runs\<close>

record simulated_rule =
  sr_rule :: uuid
  sr_name :: string
  sr_priority :: int
  sr_version :: uuid
  sr_no :: nat
  sr_actions :: "pydict list"

definition scrub_action :: "pydict \<Rightarrow> pydict" where
  "scrub_action a = dict_pop ''dtmf'' (dict_pop ''code'' a)"

fun opt_list :: "'a option list \<Rightarrow> 'a list option" where
  "opt_list [] = Some []"
| "opt_list (x # xs) = (case x of None \<Rightarrow> None | Some y \<Rightarrow> map_option (Cons y) (opt_list xs))"

fun simulate_rules :: "rule_store \<Rightarrow> candidate_rule list \<Rightarrow> (trig_error, simulated_rule list) res" where
  "simulate_rules rs [] = Inr []"
| "simulate_rules rs (c # cs) =
     (case (published_version (cr_rule c) rs, find_first (\<lambda>r. tl_id r = cr_rule c) (ts_rules rs)) of
        (Some v, Some r) \<Rightarrow>
          (case opt_list (map py_dict (tv_actions v)) of
             None \<Rightarrow> Inl (PyRaises ''TypeError'')
           | Some as \<Rightarrow> bind_res (simulate_rules rs cs) (\<lambda>rest. Inr (\<lparr>sr_rule = cr_rule c, sr_name = tl_name r, sr_priority = cr_priority c,
               sr_version = tv_id v, sr_no = tv_no v, sr_actions = map scrub_action as\<rparr> # rest)))
      | _ \<Rightarrow> simulate_rules rs cs)"

definition simulate_signal :: "trig_env \<Rightarrow> pydict \<Rightarrow> uuid option \<Rightarrow> trig_db \<Rightarrow> (trig_error, simulated_rule list) res \<times> trig_db" where
  "simulate_signal env sig actor db =
     (if \<not> validate_inbound_signal (gn_date_time env) sig then (Inl SignalRejectedError, db)
      else (case select_matching_rules (gn_uuid env) (candidates (tg_rules db)) sig of
              Inl e \<Rightarrow> (Inl (MatchRaises e), db)
            | Inr sel \<Rightarrow>
                (case simulate_rules (tg_rules db) sel of
                   Inl e \<Rightarrow> (Inl e, db)
                 | Inr matched \<Rightarrow>
                     (let st = py_str (tx_str (gn_text env)) (get_default sig ''signal_type'' (PStr [])) in
                      case trig_audit env ''TRIGGER_SIMULATED'' actor ''trigger_simulation'' (if st = [] then ''unknown'' else st)
                        [(''signal_type'', PStr st), (''matched_rule_ids'', PList (map (\<lambda>r. PStr (gn_uuid env (sr_rule r))) matched)),
                         (''planned_action_count'', PInt (int (length (concat (map sr_actions matched)))))] db of
                        Inl e \<Rightarrow> (Inl e, db)
                      | Inr db' \<Rightarrow> (Inr matched, db')))))"

section \<open>The ledger only grows\<close>

text \<open>A computation that ends leaves the ledger, the inbox and the rules as it found them.\<close>

definition frame :: "trig_db \<Rightarrow> trig_db \<Rightarrow> bool" where
  "frame db db' \<longleftrightarrow> tg_execs db' = tg_execs db \<and> tg_inbox db' = tg_inbox db \<and> tg_rules db' = tg_rules db"

lemma frame_same [intro]:
  "tg_execs db' = tg_execs db \<Longrightarrow> tg_inbox db' = tg_inbox db \<Longrightarrow> tg_rules db' = tg_rules db \<Longrightarrow> frame db db'"
  by (simp add: frame_def)

lemma frame_trans: "frame db db1 \<Longrightarrow> frame db1 db2 \<Longrightarrow> frame db db2"
  by (simp add: frame_def)

lemma trig_audit_frame: "trig_audit env action actor ttype tid after db = Inr db' \<Longrightarrow> frame db db'"
  by (auto simp: trig_audit_def split: sum.splits wf_error.splits)

lemma trig_enqueue_frame: "trig_enqueue env dedupe ty payload db = Inr (new, db') \<Longrightarrow> frame db db'"
  by (auto simp: trig_enqueue_def split: sum.splits prod.splits)

definition keeps :: "trig_db \<Rightarrow> (trig_error, 'a \<times> trig_db) res \<Rightarrow> bool" where
  "keeps db m \<longleftrightarrow> (\<forall>x db'. m = Inr (x, db') \<longrightarrow> frame db db')"

lemma keepsD: "keeps db m \<Longrightarrow> m = Inr (x, db') \<Longrightarrow> frame db db'"
  by (simp add: keeps_def)

lemma keeps_rules:
  "keeps db (Inl e)"
  "frame db db' \<Longrightarrow> keeps db (Inr (x, db'))"
  by (simp_all add: keeps_def)

lemma keeps_bind: "(\<And>y. m = Inr y \<Longrightarrow> keeps db (f y)) \<Longrightarrow> keeps db (bind_res m f)"
  by (auto simp: keeps_def bind_res_Inr)

lemma keeps_cases:
  "(opt = None \<Longrightarrow> keeps db u) \<Longrightarrow> (\<And>y. opt = Some y \<Longrightarrow> keeps db (v y)) \<Longrightarrow> keeps db (case opt of None \<Rightarrow> u | Some y \<Rightarrow> v y)"
  "(\<And>e. s = Inl e \<Longrightarrow> keeps db (f e)) \<Longrightarrow> (\<And>y. s = Inr y \<Longrightarrow> keeps db (g y)) \<Longrightarrow> keeps db (case s of Inl e \<Rightarrow> f e | Inr y \<Rightarrow> g y)"
  "(\<And>y z. p = (y, z) \<Longrightarrow> keeps db (h y z)) \<Longrightarrow> keeps db (case p of (y, z) \<Rightarrow> h y z)"
  "(b \<Longrightarrow> keeps db u) \<Longrightarrow> (\<not> b \<Longrightarrow> keeps db w) \<Longrightarrow> keeps db (if b then u else w)"
  by (auto split: option.split sum.split prod.split)

lemmas keeps_intros = keeps_rules keeps_bind keeps_cases

lemma handlers_keep:
  "keeps db (create_event_action env st a db)" "keeps db (show_client_popup env st a db)" "keeps db (notify_action env st i a db)"
  "keeps db (call_action env st i ty a db)" "keeps db (integration_action env st i ty a db)" "keeps db (attach_workflow env st a db)"
proof -
  show "keeps db (create_event_action env st a db)"
    unfolding create_event_action_def Let_def by (intro keeps_intros) auto
  show "keeps db (show_client_popup env st a db)"
    unfolding show_client_popup_def Let_def by (intro keeps_intros) auto
  show "keeps db (notify_action env st i a db)"
  proof -
    have "keeps db (bind_res (trig_enqueue env key ty payload db) (\<lambda>(new, db'). Inr (res new, db')))" for key ty payload and res :: "bool \<Rightarrow> pydict"
      by (intro keeps_intros) (simp add: trig_enqueue_frame)
    then show ?thesis
      unfolding notify_action_def by (cases "py_or (dict_get a ''payload'') (PDict [])") (simp_all add: keeps_rules(1))
  qed
  show "keeps db (call_action env st i ty a db)"
    unfolding call_action_def Let_def by (intro keeps_intros) (simp add: trig_enqueue_frame)
  show "keeps db (integration_action env st i ty a db)"
    unfolding integration_action_def Let_def by (intro keeps_intros) (simp add: trig_enqueue_frame)
  show "keeps db (attach_workflow env st a db)"
    unfolding attach_workflow_def by (intro keeps_intros) auto
qed

lemma dispatch_frame: "dispatch_action env st i ty a db = Inr (r, db') \<Longrightarrow> frame db db'"
proof (rule keepsD)
  show "keeps db (dispatch_action env st i ty a db)" unfolding dispatch_action_def by (intro keeps_intros handlers_keep)
qed

lemma attach_frame: "attach_workflow env st a db = Inr (r, db') \<Longrightarrow> frame db db'"
  by (rule keepsD [OF handlers_keep(6)])

lemma dispatch_execs: "dispatch_action env st i ty a db = Inr (r, db') \<Longrightarrow> tg_execs db' = tg_execs db"
  and attach_execs: "attach_workflow env st a db = Inr (r, db') \<Longrightarrow> tg_execs db' = tg_execs db"
  using dispatch_frame attach_frame unfolding frame_def by blast+

definition ledger :: "trig_db \<Rightarrow> (nat \<times> uuid \<times> nat) set" where
  "ledger db = exec_key ` set (tg_execs db)"

lemma finish_ledger [simp]: "ledger (finish_exec env st i status result db) = ledger db"
proof -
  have "map exec_key (tg_execs (finish_exec env st i status result db)) = map exec_key (tg_execs db)"
    by (simp add: finish_exec_def exec_key_def)
  then show ?thesis unfolding ledger_def by (metis set_map)
qed

lemma exec_audit_ledger: "exec_audit env st i ty status result db = Inr db' \<Longrightarrow> ledger db' = ledger db"
  unfolding exec_audit_def ledger_def by (drule trig_audit_frame) (simp add: frame_def)

lemma finish_audited_ledger: "finish_audited env st i ty result db = Inr db' \<Longrightarrow> ledger db' = ledger db"
  unfolding finish_audited_def using exec_audit_ledger by fastforce

lemma claim_cases:
  obtains "claim_exec st i db = (False, db)" "state_key st i \<in> ledger db"
  | db1 where "claim_exec st i db = (True, db1)" "state_key st i \<notin> ledger db" "ledger db1 = insert (state_key st i) (ledger db)"
  by (cases "state_key st i \<in> ledger db") (auto simp: claim_exec_def ledger_def exec_key_def state_key_def)

lemma record_failure_ledger:
  assumes "record_failure env st i ty err db = (r, db')"
  shows "db' = db \<and> (\<exists>e. r = Inl e) \<or> ledger db' = insert (state_key st i) (ledger db)"
proof -
  define db1 where "db1 = snd (claim_exec st i db)"
  have "ledger db1 = insert (state_key st i) (ledger db)"
    by (rule claim_cases [of st i db]) (auto simp: db1_def)
  then show ?thesis
    using assms exec_audit_ledger unfolding record_failure_def Let_def db1_def [symmetric] by (fastforce split: if_splits sum.splits)
qed

text \<open>A call on a claimed key does nothing; a call that changes anything claims its key.\<close>

lemma run_one_claimed: "state_key st i \<in> ledger db \<Longrightarrow> run_one env st i a db = (Inr None, db)"
  by (simp add: run_one_def run_atomic_def run_attach_workflow_def claim_exec_def ledger_def Let_def)

lemma run_atomic_ledger:
  assumes "run_atomic env st i ty a db = (r, db')"
  shows "db' = db \<or> ledger db' = insert (state_key st i) (ledger db)"
proof (rule claim_cases [of st i db])
  assume "claim_exec st i db = (False, db)"
  then show ?thesis using assms by (simp add: run_atomic_def)
next
  fix db1
  assume cl: "claim_exec st i db = (True, db1)" "ledger db1 = insert (state_key st i) (ledger db)"
  define run where "run = bind_res (dispatch_action env st i ty a db1) (\<lambda>(result, db2).
    bind_res (finish_audited env st i ty result db2) (\<lambda>db3. Inr (result, db3)))"
  have eq: "run_atomic env st i ty a db = (case run of Inl (ActionError err) \<Rightarrow> record_failure env st i ty err db | Inl e \<Rightarrow> (Inl e, db)
      | Inr (result, db3) \<Rightarrow> (Inr (Some \<lparr>ao_index = i, ao_type = ty, ao_status = ExecSucceeded, ao_result = result\<rparr>), db3))"
    by (simp add: run_atomic_def cl(1) run_def)
  show ?thesis
  proof (cases run)
    case (Inl e)
    then show ?thesis using assms record_failure_ledger [of env st i ty] unfolding eq by (cases e) fastforce+
  next
    case (Inr p)
    obtain result db3 where p: "p = (result, db3)" by (cases p)
    then obtain db2 where "dispatch_action env st i ty a db1 = Inr (result, db2)" "finish_audited env st i ty result db2 = Inr db3"
      using Inr by (auto simp: run_def bind_res_Inr)
    then have "ledger db3 = ledger db1" using dispatch_execs finish_audited_ledger unfolding ledger_def by metis
    then show ?thesis using assms cl(2) Inr p unfolding eq by simp
  qed
qed

lemma run_attach_ledger:
  assumes "run_attach_workflow env st i a db = (r, db')"
  shows "db' = db \<or> ledger db' = insert (state_key st i) (ledger db)"
proof (rule claim_cases [of st i db])
  assume "claim_exec st i db = (False, db)"
  then show ?thesis using assms by (simp add: run_attach_workflow_def)
next
  fix db1
  assume cl: "claim_exec st i db = (True, db1)" "ledger db1 = insert (state_key st i) (ledger db)"
  show ?thesis
  proof (cases "attach_workflow env st a db1")
    case (Inl e)
    have "db' = db1 \<or> ledger db' = insert (state_key st i) (ledger db1)"
    proof (cases "known_failure e")
      case None
      then show ?thesis using assms Inl by (simp add: run_attach_workflow_def cl(1))
    next
      case (Some err)
      then have "record_failure env st i ''attach_workflow'' err db1 = (r, db')"
        using assms Inl by (simp add: run_attach_workflow_def cl(1))
      then show ?thesis using record_failure_ledger by blast
    qed
    then show ?thesis using cl(2) by auto
  next
    case (Inr p)
    obtain result db2 where p: "p = (result, db2)" by (cases p)
    then have "ledger db2 = ledger db1" using Inr attach_execs unfolding ledger_def by metis
    then show ?thesis
      using assms cl Inr p finish_audited_ledger by (fastforce simp: run_attach_workflow_def split: sum.splits)
  qed
qed

lemma run_one_ledger:
  assumes "run_one env st i a db = (r, db')"
  shows "db' = db \<or> ledger db' = insert (state_key st i) (ledger db)"
  using assms run_atomic_ledger run_attach_ledger unfolding run_one_def Let_def by (metis (full_types))

section \<open>At most once\<close>

text \<open>
  One call of an action: run to its end, or cut off by a crash of the node after the claim of an \<^verbatim>\<open>attach_workflow\<close> was committed, or
  after its workflow was started. (Cut off anywhere else, the open transaction is lost and the call has done nothing.)
\<close>

datatype call_end = RunsToEnd | CrashAfterClaim | CrashAfterStart

record action_call =
  ac_env :: trig_env
  ac_state :: run_state
  ac_index :: nat
  ac_action :: pydict
  ac_end :: call_end

definition call_key :: "action_call \<Rightarrow> nat \<times> uuid \<times> nat" where
  "call_key c = state_key (ac_state c) (ac_index c)"

definition do_call :: "action_call \<Rightarrow> trig_db \<Rightarrow> trig_db" where
  "do_call c db =
     (case ac_end c of
        RunsToEnd \<Rightarrow> snd (run_one (ac_env c) (ac_state c) (ac_index c) (ac_action c) db)
      | CrashAfterClaim \<Rightarrow> snd (claim_exec (ac_state c) (ac_index c) db)
      | CrashAfterStart \<Rightarrow>
          (case claim_exec (ac_state c) (ac_index c) db of
             (False, _) \<Rightarrow> db
           | (True, db1) \<Rightarrow> (case attach_workflow (ac_env c) (ac_state c) (ac_action c) db1 of Inl _ \<Rightarrow> db1 | Inr (_, db2) \<Rightarrow> db2)))"

text \<open>The calls of a history, by key, that changed anything.\<close>

fun effective_calls :: "nat \<times> uuid \<times> nat \<Rightarrow> action_call list \<Rightarrow> trig_db \<Rightarrow> action_call list" where
  "effective_calls k [] db = []"
| "effective_calls k (c # cs) db =
     (if call_key c = k \<and> do_call c db \<noteq> db then [c] else []) @ effective_calls k cs (do_call c db)"

lemma do_call_ledger: "do_call c db = db \<or> ledger (do_call c db) = insert (call_key c) (ledger db)"
proof (cases "ac_end c")
  case RunsToEnd
  then show ?thesis
    using run_one_ledger [of "ac_env c" "ac_state c" "ac_index c" "ac_action c" db]
    by (simp add: do_call_def call_key_def) (metis surjective_pairing)
next
  case CrashAfterClaim
  then show ?thesis by (rule_tac claim_cases [of "ac_state c" "ac_index c" db]) (auto simp: do_call_def call_key_def)
next
  case CrashAfterStart
  show ?thesis
  proof (rule claim_cases [of "ac_state c" "ac_index c" db])
    fix db1
    assume cl: "claim_exec (ac_state c) (ac_index c) db = (True, db1)" "ledger db1 = insert (state_key (ac_state c) (ac_index c)) (ledger db)"
    then show ?thesis
      using CrashAfterStart attach_execs [of "ac_env c" "ac_state c" "ac_action c" db1]
      by (auto simp: do_call_def call_key_def ledger_def split: sum.splits)
  qed (simp add: do_call_def CrashAfterStart)
qed

lemma do_call_claimed: "call_key c \<in> ledger db \<Longrightarrow> do_call c db = db"
  using run_one_claimed by (simp add: do_call_def call_key_def claim_exec_def ledger_def split: call_end.split)

lemma no_more_calls: "k \<in> ledger db \<Longrightarrow> effective_calls k cs db = []"
proof (induction cs arbitrary: db)
  case (Cons c cs)
  have "k \<in> ledger (do_call c db)" using do_call_ledger [of c db] Cons.prems by auto
  moreover have "do_call c db = db" if "call_key c = k" using do_call_claimed Cons.prems that by simp
  ultimately show ?case using Cons.IH by simp
qed simp

text \<open>
  C9. Every action of a signal takes effect at most once. In any history of action calls, on any number of nodes, for any signals and rule
  versions, with replays, failures and crashes, at most one call for each (signal, rule version, action index) changes anything in the
  event store, the workflow tables, the outbox, the popups or the ledger; once the key is in the ledger no call for it does.
\<close>

theorem trigger_action_at_most_once:
  "length (effective_calls k cs db) \<le> 1 \<and> (if k \<in> ledger db then effective_calls k cs db = [] else True)"
proof -
  have "length (effective_calls k cs db) \<le> 1"
  proof (induction cs arbitrary: db)
    case (Cons c cs)
    show ?case
    proof (cases "call_key c = k \<and> do_call c db \<noteq> db")
      case True
      then have "k \<in> ledger (do_call c db)" using do_call_ledger [of c db] by auto
      then show ?thesis by (simp add: no_more_calls)
    next
      case False
      then show ?thesis using Cons.IH by auto
    qed
  qed simp
  then show ?thesis using no_more_calls by simp
qed

section \<open>Processing the inbox\<close>

text \<open>Running actions, whatever the outcome, leaves the inbox and the rules alone.\<close>

definition same_sources :: "trig_db \<Rightarrow> trig_db \<Rightarrow> bool" where
  "same_sources db db' \<longleftrightarrow> tg_inbox db' = tg_inbox db \<and> tg_rules db' = tg_rules db"

lemma same_refl [simp, intro]: "same_sources db db"
  by (simp add: same_sources_def)

lemma same_trans: "same_sources db db1 \<Longrightarrow> same_sources db1 db2 \<Longrightarrow> same_sources db db2"
  by (simp add: same_sources_def)

lemma same_frame: "frame db db' \<Longrightarrow> same_sources db db'"
  by (simp add: frame_def same_sources_def)

lemma same_claim [simp]: "same_sources db (snd (claim_exec st i db))"
  by (simp add: claim_exec_def same_sources_def)

lemma same_finish [simp]: "same_sources db (finish_exec env st i status result db)"
  by (simp add: finish_exec_def same_sources_def)

lemma same_exec_audit: "exec_audit env st i ty status result db = Inr db' \<Longrightarrow> same_sources db db'"
  unfolding exec_audit_def using trig_audit_frame same_frame by blast

lemma same_finish_audited: "finish_audited env st i ty result db = Inr db' \<Longrightarrow> same_sources db db'"
  unfolding finish_audited_def using same_exec_audit same_finish same_trans by blast

text \<open>The cases of a computation that returns the tables it leaves, error or not.\<close>

lemma same_pair: "same_sources db db' \<Longrightarrow> same_sources db (snd (x, db'))"
  by simp

lemma same_cases:
  "(opt = None \<Longrightarrow> same_sources db (snd u)) \<Longrightarrow> (\<And>y. opt = Some y \<Longrightarrow> same_sources db (snd (v y))) \<Longrightarrow>
     same_sources db (snd (case opt of None \<Rightarrow> u | Some y \<Rightarrow> v y))"
  "(\<And>e. s = Inl e \<Longrightarrow> same_sources db (snd (f e))) \<Longrightarrow> (\<And>y. s = Inr y \<Longrightarrow> same_sources db (snd (g y))) \<Longrightarrow>
     same_sources db (snd (case s of Inl e \<Rightarrow> f e | Inr y \<Rightarrow> g y))"
  "(\<And>y z. p = (y, z) \<Longrightarrow> same_sources db (snd (h y z))) \<Longrightarrow> same_sources db (snd (case p of (y, z) \<Rightarrow> h y z))"
  "(b \<Longrightarrow> same_sources db (snd u)) \<Longrightarrow> (\<not> b \<Longrightarrow> same_sources db (snd w)) \<Longrightarrow> same_sources db (snd (if b then u else w))"
  by (auto split: option.split sum.split prod.split)

lemma same_record_failure: "same_sources db (snd (record_failure env st i ty err db))"
  unfolding record_failure_def Let_def
  by (intro same_cases same_pair same_refl same_claim) (rule same_trans [OF same_claim same_trans [OF same_finish same_exec_audit]])

lemma same_claimed: "claim_exec st i db = (b, db1) \<Longrightarrow> same_sources db db1"
  using same_claim [of db st i] by simp

lemma same_run_atomic: "same_sources db (snd (run_atomic env st i ty a db))"
proof (cases "claim_exec st i db")
  case (Pair b db1)
  define run where "run = bind_res (dispatch_action env st i ty a db1) (\<lambda>(result, db2).
    bind_res (finish_audited env st i ty result db2) (\<lambda>db3. Inr (result, db3)))"
  have "same_sources db db3" if ended: "run = Inr (result, db3)" for result db3
  proof -
    obtain db2 where "dispatch_action env st i ty a db1 = Inr (result, db2)" "finish_audited env st i ty result db2 = Inr db3"
      using ended unfolding run_def by (auto simp: bind_res_Inr)
    then show ?thesis using same_claimed [OF Pair] dispatch_frame same_frame same_finish_audited same_trans by meson
  qed
  moreover have "same_sources db (snd (case e of ActionError err \<Rightarrow> record_failure env st i ty err db | e \<Rightarrow> (Inl e, db)))" for e
    by (cases e) (simp_all add: same_record_failure)
  ultimately show ?thesis
    by (cases b; cases run) (auto simp: run_atomic_def Pair run_def [symmetric])
qed

lemma same_run_attach: "same_sources db (snd (run_attach_workflow env st i a db))"
proof (cases "claim_exec st i db")
  case (Pair b db1)
  have fail: "same_sources db (snd (case known_failure e of Some err \<Rightarrow> record_failure env st i ''attach_workflow'' err db1 | None \<Rightarrow> (Inl e, db1)))" for e
    using same_trans [OF same_claimed [OF Pair] same_record_failure] same_claimed [OF Pair] by (simp split: option.split)
  have att: "same_sources db db2" if "attach_workflow env st a db1 = Inr (result, db2)" for result db2
    using same_trans [OF same_claimed [OF Pair] same_frame [OF attach_frame [OF that]]] .
  have fin: "same_sources db (snd (case finish_audited env st i ''attach_workflow'' result db2 of Inl e \<Rightarrow> (Inl e, db2) | Inr db3 \<Rightarrow> (Inr (Some out), db3)))"
    if "attach_workflow env st a db1 = Inr (result, db2)" for result db2 and out :: action_outcome
    using att [OF that] same_trans [OF att [OF that] same_finish_audited] by (simp split: sum.split)
  show ?thesis
    unfolding run_attach_workflow_def Pair
    using fail fin by (cases b; cases "attach_workflow env st a db1") auto
qed

lemma same_run_one: "same_sources db (snd (run_one env st i a db))"
  by (simp add: run_one_def Let_def same_run_atomic same_run_attach)

lemma same_run_actions: "same_sources db (snd (run_actions env st i raws db))"
proof (induction raws arbitrary: st i db)
  case (Cons raw raws)
  show ?case
  proof (cases "py_dict raw")
    case (Some a)
    obtain r db1 where one: "run_one env st i a db = (r, db1)" by (cases "run_one env st i a db")
    then have "same_sources db db1" using same_run_one [of db env st i a] by simp
    then have "same_sources db (snd (run_actions env st' j raws db1))" for st' j using Cons.IH same_trans by blast
    then show ?thesis
      using \<open>same_sources db db1\<close> unfolding run_actions.simps Some one option.case prod.case
      by (intro same_cases same_pair) (metis snd_conv)+
  qed simp
qed simp

lemma same_run_matched: "same_sources db (snd (run_matched env i sig actor cs db))"
proof (induction cs arbitrary: db)
  case (Cons c cs)
  show ?case
  proof (cases "published_version (cr_rule c) (tg_rules db)")
    case (Some v)
    obtain r db1 where run: "run_rule_version env i v sig actor db = (r, db1)" by (cases "run_rule_version env i v sig actor db")
    then have "same_sources db db1" using same_run_actions unfolding run_rule_version_def by (metis snd_conv)
    then have "same_sources db (snd (run_matched env i sig actor cs db1))" using Cons.IH same_trans by blast
    then show ?thesis
      using \<open>same_sources db db1\<close> unfolding run_matched.simps Some run option.case prod.case
      by (intro same_cases same_pair) (metis snd_conv)+
  qed (simp add: Cons.IH)
qed simp

lemma record_unmapped_inbox [simp]: "tg_inbox (record_unmapped env sig db) = tg_inbox db"
  by (simp add: record_unmapped_def Let_def)

text \<open>A row that is processed without an error is marked, and only that row is.\<close>

lemma process_marks:
  assumes "process_inbox_event env i actor db = (Inr r, db')" "distinct (map ib_id (tg_inbox db))"
  shows "tg_inbox db' = mark_processed (gn_now env) i (tg_inbox db)"
proof -
  have none: "mark_processed (gn_now env) i (tg_inbox db) = tg_inbox db"
    if "\<And>row. row \<in> set (tg_inbox db) \<Longrightarrow> ib_id row = i \<Longrightarrow> ib_processed_at row \<noteq> None"
    using that by (auto simp: mark_processed_def intro: map_idI)
  show ?thesis
  proof (cases "find_first (\<lambda>r. ib_id r = i) (tg_inbox db)")
    case None
    then have "\<And>row. row \<in> set (tg_inbox db) \<Longrightarrow> ib_id row \<noteq> i" by simp
    then have "mark_processed (gn_now env) i (tg_inbox db) = tg_inbox db" by (intro none) blast
    then show ?thesis using assms(1) None by (simp add: process_inbox_event_def del: find_first_None)
  next
    case (Some row)
    then have row: "row \<in> set (tg_inbox db)" "ib_id row = i" using find_first_Some by fast+
    show ?thesis
    proof (cases "ib_processed_at row = None")
      case False
      have "ib_processed_at x \<noteq> None" if "x \<in> set (tg_inbox db)" "ib_id x = i" for x
        using that row assms(2) False by (metis distinct_map inj_onD)
      then show ?thesis using assms(1) Some False none by (simp add: process_inbox_event_def)
    next
      case True
      have "tg_inbox db2 = tg_inbox db0" if "run_matched env i sig actor cs db0 = (q, db2)" for sig cs q db0 db2
        using same_run_matched [of db0 env i sig actor cs] that by (simp add: same_sources_def)
      then show ?thesis using assms(1) Some True
        by (auto simp: process_inbox_event_def Let_def mark_inbox_def split: if_splits sum.splits prod.splits)
    qed
  qed
qed

lemma mark_processed_ids [simp]: "map ib_id (mark_processed now i rows) = map ib_id rows"
  by (simp add: mark_processed_def)

lemma process_all_marks:
  assumes "process_all env actor is db = (Inr rs, db')" "distinct (map ib_id (tg_inbox db))"
  shows "tg_inbox db' = foldl (\<lambda>rows i. mark_processed (gn_now env) i rows) (tg_inbox db) is"
  using assms
proof (induction "is" arbitrary: db rs)
  case (Cons i "is")
  obtain r db1 rs' where "process_inbox_event env i actor db = (Inr r, db1)" "process_all env actor is db1 = (Inr rs', db')"
    using Cons.prems(1) by (auto split: sum.splits prod.splits)
  then show ?case using Cons.IH [of db1 rs'] Cons.prems(2) process_marks [of env i actor db r db1] by simp
qed simp

text \<open>The rows that wait, oldest first, and passes one after another until one raises.\<close>

definition waiting_rows :: "trig_db \<Rightarrow> inbox_row list" where
  "waiting_rows db = filter (\<lambda>r. ib_processed_at r = None) (tg_inbox db)"

fun resume_passes :: "(trig_env \<times> nat \<times> uuid option) list \<Rightarrow> trig_db \<Rightarrow> (trig_error, signal_run list) res \<times> trig_db" where
  "resume_passes [] db = (Inr [], db)"
| "resume_passes ((env, limit, actor) # ps) db =
     (case resume_unprocessed env limit actor db of
        (Inl e, db1) \<Rightarrow> (Inl e, db1)
      | (Inr rs, db1) \<Rightarrow> (case resume_passes ps db1 of (Inl e, db2) \<Rightarrow> (Inl e, db2) | (Inr rss, db2) \<Rightarrow> (Inr (rs @ rss), db2)))"

lemma marked_waiting:
  "filter (\<lambda>r. ib_processed_at r = None) (foldl (\<lambda>rows i. mark_processed now i rows) rows is) =
   filter (\<lambda>r. ib_processed_at r = None \<and> ib_id r \<notin> set is) rows"
proof (induction "is" arbitrary: rows)
  case (Cons i "is")
  have "filter (\<lambda>r. ib_processed_at r = None \<and> ib_id r \<notin> set is) (mark_processed now i rows) =
      filter (\<lambda>r. ib_processed_at r = None \<and> ib_id r \<notin> set (i # is)) rows"
    by (induction rows) (auto simp: mark_processed_def)
  then show ?case using Cons.IH [of "mark_processed now i rows"] by simp
qed simp

lemma filter_not_taken: "distinct (map f xs) \<Longrightarrow> filter (\<lambda>x. f x \<notin> f ` set (take n xs)) xs = drop n xs"
proof (induction xs arbitrary: n)
  case (Cons x xs)
  show ?case
  proof (cases n)
    case (Suc m)
    have "filter (\<lambda>y. f y \<notin> f ` set (take n (x # xs))) xs = filter (\<lambda>y. f y \<notin> f ` set (take m xs)) xs"
      using Cons.prems Suc by (intro filter_cong) (auto simp: image_iff)
    then show ?thesis using Cons Suc by simp
  qed simp
qed simp

lemma marked_ids: "map ib_id (foldl (\<lambda>rows i. mark_processed now i rows) rows is) = map ib_id rows"
  by (induction "is" arbitrary: rows) (simp_all add: mark_processed_def comp_def if_distrib cong: if_cong)

lemma process_all_length: "process_all env actor is db = (Inr rs, db') \<Longrightarrow> length rs = length is"
  by (induction "is" arbitrary: db rs) (auto split: sum.splits prod.splits)

lemma resume_pass:
  assumes "distinct (map ib_id (tg_inbox db))" "resume_unprocessed env limit actor db = (Inr rs, db')"
  shows "waiting_rows db' = drop limit (waiting_rows db)" "distinct (map ib_id (tg_inbox db'))"
    "length rs = min limit (length (waiting_rows db))"
proof -
  have run: "process_all env actor (map ib_id (take limit (waiting_rows db))) db = (Inr rs, db')"
    using assms(2) by (simp add: resume_unprocessed_def waiting_rows_def)
  have eq: "tg_inbox db' = foldl (\<lambda>rows i. mark_processed (gn_now env) i rows) (tg_inbox db) (map ib_id (take limit (waiting_rows db)))"
    using process_all_marks [OF run assms(1)] .
  have "waiting_rows db' = filter (\<lambda>r. ib_id r \<notin> ib_id ` set (take limit (waiting_rows db))) (waiting_rows db)"
    unfolding waiting_rows_def [of db'] eq marked_waiting by (simp add: waiting_rows_def conj_commute)
  also have "\<dots> = drop limit (waiting_rows db)"
    using assms(1) by (intro filter_not_taken) (simp add: waiting_rows_def distinct_map_filter)
  finally show "waiting_rows db' = drop limit (waiting_rows db)" .
  show "distinct (map ib_id (tg_inbox db'))" using assms(1) by (simp add: eq marked_ids)
  show "length rs = min limit (length (waiting_rows db))" using process_all_length [OF run] by (simp add: min.commute)
qed

lemma resume_passes_drop:
  "distinct (map ib_id (tg_inbox db)) \<Longrightarrow> resume_passes ps db = (Inr rs, db') \<Longrightarrow>
    waiting_rows db' = drop (sum_list (map (fst \<circ> snd) ps)) (waiting_rows db) \<and>
    length rs = min (sum_list (map (fst \<circ> snd) ps)) (length (waiting_rows db))"
proof (induction ps arbitrary: db rs)
  case (Cons p ps)
  obtain env limit actor where p: "p = (env, limit, actor)" by (cases p)
  obtain r1 db1 r2 where run: "resume_unprocessed env limit actor db = (Inr r1, db1)" "resume_passes ps db1 = (Inr r2, db')" "rs = r1 @ r2"
    using Cons.prems(2) p by (auto split: sum.splits prod.splits)
  note one = resume_pass [OF Cons.prems(1) run(1)]
  show ?case using Cons.IH [OF one(2) run(2)] one(1,3) run(3) by (simp add: p add.commute)
qed simp

text \<open>
  C36. Recovery of the inbox makes progress and is complete. Passes over the unprocessed rows that no error interrupts handle, between them, as many rows
  as their limits add up to, the oldest first, and leave exactly the rest, whatever rules are published and whatever their actions did; once
  nothing is left a further pass finds nothing to do and changes nothing. (No rows arrive between the passes.)
\<close>

theorem resume_drains_inbox:
  assumes "distinct (map ib_id (tg_inbox db))" "resume_passes ps db = (Inr rs, db')"
  shows "waiting_rows db' = drop (sum_list (map (fst \<circ> snd) ps)) (waiting_rows db) \<and>
    length rs = min (sum_list (map (fst \<circ> snd) ps)) (length (waiting_rows db)) \<and>
    (length (waiting_rows db) \<le> sum_list (map (fst \<circ> snd) ps) \<longrightarrow> resume_unprocessed env limit actor db' = (Inr [], db'))"
  using resume_passes_drop [OF assms] by (auto simp: resume_unprocessed_def waiting_rows_def)

section \<open>Dry runs change nothing\<close>

lemma simulate_rules_scrubbed:
  "simulate_rules rs cs = Inr sims \<Longrightarrow> sim \<in> set sims \<Longrightarrow> a \<in> set (sr_actions sim) \<Longrightarrow> \<not> has_key a ''code'' \<and> \<not> has_key a ''dtmf''"
proof (induction cs arbitrary: sims)
  case (Cons c cs)
  have scrubbed: "\<not> has_key (scrub_action d) ''code'' \<and> \<not> has_key (scrub_action d) ''dtmf''" for d
    by (auto simp: scrub_action_def has_key_def dict_pop_def map_of_eq_None_iff)
  show ?case using Cons scrubbed by (auto simp: bind_res_Inr split: option.splits)
qed simp

text \<open>
  A dry run opens nothing. Simulating any signal, with any outcome, changes nothing but the audit log: not the inbox, the ledger, the
  event store and its log, the outbox, the workflow tables, the popups or the unmapped queue; and no action of the report carries a
  door code.
\<close>

theorem dry_run_changes_only_audit:
  "(\<exists>audit. snd (simulate_signal env sig actor db) = db\<lparr>tg_wf := (tg_wf db)\<lparr>wd_audit := audit\<rparr>\<rparr>) \<and>
   (case fst (simulate_signal env sig actor db) of
      Inl _ \<Rightarrow> snd (simulate_signal env sig actor db) = db
    | Inr sims \<Rightarrow> list_all (\<lambda>a. \<not> has_key a ''code'' \<and> \<not> has_key a ''dtmf'') (concat (map sr_actions sims)))"
proof -
  have audit: "\<exists>audit. db' = db\<lparr>tg_wf := (tg_wf db)\<lparr>wd_audit := audit\<rparr>\<rparr>"
    if "trig_audit env act actor ttype tid after db = Inr db'" for act ttype tid after db'
    using that by (auto simp: trig_audit_def split: sum.splits wf_error.splits elim: wf_write_audit_Inr)
  have same: "\<exists>audit. db = db\<lparr>tg_wf := (tg_wf db)\<lparr>wd_audit := audit\<rparr>\<rparr>" by (intro exI [of _ "wd_audit (tg_wf db)"]) simp
  have "\<exists>audit. snd (simulate_signal env sig actor db) = db\<lparr>tg_wf := (tg_wf db)\<lparr>wd_audit := audit\<rparr>\<rparr>"
    using audit same by (simp add: simulate_signal_def Let_def split: sum.split)
  moreover have "list_all (\<lambda>a. \<not> has_key a ''code'' \<and> \<not> has_key a ''dtmf'') (concat (map sr_actions sims))"
    if "fst (simulate_signal env sig actor db) = Inr sims" for sims
    using that simulate_rules_scrubbed
    by (auto simp: simulate_signal_def Let_def list_all_iff split: if_splits sum.splits)
  moreover have "snd (simulate_signal env sig actor db) = db" if "fst (simulate_signal env sig actor db) = Inl e" for e
    using that by (auto simp: simulate_signal_def Let_def split: if_splits sum.splits)
  ultimately show ?thesis by (auto split: sum.split)
qed

section \<open>Two limits of recovery\<close>

text \<open>
  A row whose matching raises stops every pass at its place: the pass ends with the error and has changed nothing, so the rows behind it are
  never reached.
\<close>

theorem poison_row_blocks_recovery:
  assumes "filter (\<lambda>r. ib_processed_at r = None) (tg_inbox db) = row # rest" "distinct (map ib_id (tg_inbox db))"
    and "py_truthy (dict_get (ib_normalized row) ''signal_type'')"
    and "select_matching_rules (gn_uuid env) (candidates (tg_rules db)) (ib_normalized row) = Inl e"
  shows "resume_unprocessed env (Suc n) actor db = (Inl (MatchRaises e), db)"
proof -
  have row: "row \<in> set (tg_inbox db)" "ib_processed_at row = None"
    using assms(1) by (auto dest!: filter_eq_ConsD)
  then have "find_first (\<lambda>r. ib_id r = ib_id row) (tg_inbox db) = Some row" using find_first_key assms(2) by fast
  then have "process_inbox_event env (ib_id row) actor db = (Inl (MatchRaises e), db)"
    using row assms(3,4) by (simp add: process_inbox_event_def)
  then show ?thesis by (simp add: resume_unprocessed_def assms(1))
qed

text \<open>
  A run cut off between \<^verbatim>\<open>create_event\<close> and \<^verbatim>\<open>attach_workflow\<close> is not completed by the next one: the event was created, its
  outcome is not read back, and the workflow action is recorded as failed for want of an event.
\<close>

theorem attach_after_crash_fails:
  assumes "state_key st 0 \<in> ledger db" "state_key st 1 \<notin> ledger db" "st_results st = []"
    and "py_dict raw0 = Some a0" "py_dict raw1 = Some a1"
    and "dict_get a1 ''type'' = PStr ''attach_workflow''" "has_key a1 ''type''"
    and "py_truthy (dict_get a1 ''template_key'')" "dict_get a1 ''event_id'' = PNone"
    and "run_actions env st 0 [raw0, raw1] db = (Inr os, db')"
  shows "map ao_status os = [ExecFailed] \<and> wd_instances (tg_wf db') = wd_instances (tg_wf db)"
proof -
  define err where "err = ''attach_workflow has no event to attach to''"
  define db1 where "db1 = snd (claim_exec st 1 db)"
  have claim: "claim_exec st 1 db = (True, db1)" using assms(2) by (simp add: db1_def claim_exec_def ledger_def)
  have ty: "py_str (tx_str (gn_text env)) (get_default a1 ''type'' (PStr [])) = ''attach_workflow''"
    using assms(6,7) by (auto simp: get_default_def dict_get_def has_key_def py_str_def split: option.splits)
  have "last_event_id env st = Inr None" by (simp add: last_event_id_def assms(3) find_first_def)
  then have "attach_workflow env st a1 db1 = Inl (ActionError err)"
    using assms(8,9) by (simp add: attach_workflow_def as_uuid_def bind_res_def err_def)
  then have one: "run_one env st 1 a1 db = record_failure env st 1 ''attach_workflow'' err db1"
    unfolding run_one_def Let_def ty run_attach_workflow_def claim by simp
  have "run_actions env st 0 [raw0, raw1] db = run_actions env st 1 [raw1] db"
    using assms(1,4) run_one_claimed by simp
  then have run: "run_actions env st 1 [raw1] db = (Inr os, db')" using assms(10) by simp
  obtain r where rec: "record_failure env st 1 ''attach_workflow'' err db1 = (Inr r, db')" "os = (case r of None \<Rightarrow> [] | Some o1 \<Rightarrow> [o1])"
    using run by (auto simp: assms(5) one [unfolded One_nat_def] split: sum.splits option.splits prod.splits)
  have "wd_instances (tg_wf db1) = wd_instances (tg_wf db)" by (simp add: db1_def claim_exec_def)
  then have "wd_instances (tg_wf db') = wd_instances (tg_wf db) \<and> (\<exists>o1. r = Some o1 \<and> ao_status o1 = ExecFailed)"
    using rec(1) by (auto simp: record_failure_def Let_def exec_audit_def trig_audit_def finish_exec_def claim_exec_def
        split: if_splits sum.splits wf_error.splits elim!: wf_write_audit_Inr)
  then show ?thesis using rec(2) by auto
qed

section \<open>Samples\<close>

definition sample_trig_env :: trig_env where
  "sample_trig_env = \<lparr>gn_wf = sample_wf_env, gn_repo = sample_repo_env, gn_text = sample_text_env, gn_sha = id, gn_float = (\<lambda>_. ''''),
     gn_date_time = (\<lambda>_. True)\<rparr>"

text \<open>Two rows wait in the inbox: a raw telephony event, and a doorbell that no rule handles.\<close>

definition waiting_row :: "nat \<Rightarrow> pydict \<Rightarrow> inbox_row" where
  "waiting_row i d = \<lparr>ib_id = i, ib_provider = ''sip'', ib_event_id = None, ib_dedupe = nat_str i, ib_raw_ref = None, ib_raw_hash = None,
     ib_normalized = d, ib_correlation = None, ib_processed_at = None\<rparr>"

definition waiting_db :: trig_db where
  "waiting_db = \<lparr>tg_inbox = [waiting_row 0 [(''type'', PStr ''call'')], waiting_row 1 [(''signal_type'', PStr ''DOORBELL_RINGING'')]],
     tg_rules = empty_rules, tg_execs = [], tg_events = empty_event_db, tg_wf = empty_workflow_db [], tg_popups = [], tg_unmapped = [],
     tg_endpoints = [], tg_next = 0\<rparr>"

text \<open>Two passes that each take one row.\<close>

definition drained :: "signal_run list \<times> trig_db" where
  "drained = (let (r, db) = resume_passes [(sample_trig_env, 1, None), (sample_trig_env, 1, None)] waiting_db in (ok_of [] r, db))"

theorem resume_drains_inbox_witness:
  "map eg_matched (fst drained) = [0, 0] \<and> map um_occurrences (tg_unmapped (snd drained)) = [1] \<and>
   map ib_processed_at (tg_inbox (snd drained)) = [Some 0, Some 0] \<and>
   resume_unprocessed sample_trig_env 9 None (snd drained) = (Inr [], snd drained)"
proof -
  have run: "resume_passes [(sample_trig_env, 1, None), (sample_trig_env, 1, None)] waiting_db = (Inr (fst drained), snd drained)" by code_simp
  have ids: "distinct (map ib_id (tg_inbox waiting_db))" by (simp add: waiting_db_def waiting_row_def)
  have "length (waiting_rows waiting_db) = 2" by (simp add: waiting_rows_def waiting_db_def waiting_row_def)
  then have "resume_unprocessed sample_trig_env 9 None (snd drained) = (Inr [], snd drained)"
    using resume_drains_inbox [OF ids run] by simp
  moreover have "map eg_matched (fst drained) = [0, 0] \<and> map um_occurrences (tg_unmapped (snd drained)) = [1] \<and>
    map ib_processed_at (tg_inbox (snd drained)) = [Some 0, Some 0]" by code_simp
  ultimately show ?thesis by blast
qed

end
