(* ===== verification/Authorization.thy ===== *)
theory Authorization
  imports Rule_Dsl Audit_Trail
begin

text \<open>
  Authorization: the permission catalog and built-in roles (\<^verbatim>\<open>authorization/keys.py\<close>, \<^verbatim>\<open>builtin_roles.py\<close>), grants, scopes and
  conditions (\<^verbatim>\<open>model.py\<close>, \<^verbatim>\<open>scopes.py\<close>, \<^verbatim>\<open>resolver.py\<close>), the permission service with its request-local cache (\<^verbatim>\<open>service.py\<close>), the
  tables behind it and the query that collects a user's grants (\<^verbatim>\<open>infra/models/rbac.py\<close>, \<^verbatim>\<open>infra/repositories/authorization.py\<close>), and
  the declarative endpoint guard (\<^verbatim>\<open>api/authz.py\<close>). \<^verbatim>\<open>Rbac_Admin\<close> holds the operations that change the tables.
\<close>

section \<open>The clock's fields\<close>

text \<open>
  What the condition context reads of a UTC \<^verbatim>\<open>datetime\<close>, an instant in microseconds since 1970-01-01: \<^verbatim>\<open>.hour\<close>, \<^verbatim>\<open>.weekday()\<close>
  (Monday is 0) and \<^verbatim>\<open>.isoformat(timespec="seconds")\<close>; the date comes from the day number by the proleptic Gregorian calendar.
\<close>

definition day_of :: "instant \<Rightarrow> int" where
  "day_of t = t div 86400000000"

definition dt_hour :: "instant \<Rightarrow> int" where
  "dt_hour t = (t div 3600000000) mod 24"

definition dt_weekday :: "instant \<Rightarrow> int" where
  "dt_weekday t = (day_of t + 3) mod 7"

definition civil_of_day :: "int \<Rightarrow> int \<times> int \<times> int" where
  "civil_of_day n =
     (let z = n + 719468; era = z div 146097; doe = z mod 146097;
          yoe = (doe - doe div 1460 + doe div 36524 - doe div 146096) div 365;
          doy = doe - (365 * yoe + yoe div 4 - yoe div 100);
          mp = (5 * doy + 2) div 153;
          d = doy - (153 * mp + 2) div 5 + 1;
          mth = (if mp < 10 then mp + 3 else mp - 9)
      in (yoe + era * 400 + (if mth \<le> 2 then 1 else 0), mth, d))"

definition zero_pad :: "nat \<Rightarrow> int \<Rightarrow> string" where
  "zero_pad w n = (let s = nat_str (nat n) in replicate (w - length s) (CHR ''0'') @ s)"

definition iso_seconds :: "instant \<Rightarrow> string" where
  "iso_seconds t =
     (let (y, mth, d) = civil_of_day (day_of t)
      in zero_pad 4 y @ ''-'' @ zero_pad 2 mth @ ''-'' @ zero_pad 2 d @ ''T'' @ zero_pad 2 (dt_hour t) @ '':'' @
         zero_pad 2 ((t div 60000000) mod 60) @ '':'' @ zero_pad 2 ((t div 1000000) mod 60) @ ''+00:00'')"

section \<open>Catalog, scopes, built-in roles\<close>

definition SCOPES :: "string list" where
  "SCOPES = [''global'', ''region'', ''bbz'', ''workplace'', ''own_events'', ''assigned_events'']"

definition CATALOG :: "(string \<times> string list) list" where
  "CATALOG =
    [(''events'', [''events.view'', ''events.create'', ''events.accept'', ''events.acknowledge'', ''events.open'', ''events.edit'',
        ''events.assign'', ''events.takeover'', ''events.close'', ''events.archive'', ''events.reactivate'', ''events.postprocess'',
        ''events.export'']),
     (''workflows'', [''workflows.view'', ''workflows.execute'', ''workflows.override'', ''workflows.manage_templates'']),
     (''calls'', [''calls.view'', ''calls.answer'', ''calls.dial'', ''calls.hangup'', ''calls.hold'', ''calls.transfer'',
        ''calls.document'', ''calls.view_history'', ''calls.ingest_provider_events'', ''calls.simulate_mock_scenario'']),
     (''contacts'', [''contacts.view'', ''contacts.create'', ''contacts.edit'', ''contacts.delete'', ''contacts.assign_priority'']),
     (''monitor'', [''monitor.view'', ''monitor.route'', ''monitor.reset_standard'', ''monitor.manage_profiles'']),
     (''weather'', [''weather.view'', ''weather.create_event'']),
     (''users_roles'', [''users.view'', ''users.manage'', ''roles.view'', ''roles.manage'', ''permissions.manage'']),
     (''integrations'', [''integrations.view'', ''integrations.configure'', ''integrations.enable_disable'',
        ''integrations.diagnostics'']),
     (''system'', [''system.audit.view'', ''system.cluster.view'', ''system.cluster.manage'', ''system.settings.manage'']),
     (''bku'', [''bku.status.view'', ''bku.apps.launch'', ''bku.apps.close'', ''bku.session.logout'', ''bku.device.restart'',
        ''bku.catalog.view'', ''bku.catalog.manage'', ''bku.agent.manage'']),
     (''agents'', [''agents.manage'']),
     (''door_technical'', [''door.view'', ''door.answer'', ''door.open'', ''door.configure'', ''technical_endpoints.view'',
        ''technical_endpoints.manage''])]"

definition PERMISSION_KEYS :: "string list" where
  "PERMISSION_KEYS = concat (map snd CATALOG)"

definition MACHINE_KEYS :: "string list" where
  "MACHINE_KEYS = [''calls.ingest_provider_events'', ''calls.simulate_mock_scenario'']"

datatype authz_error =
    PermissionKeyError string
  | UnknownKeys "string list" | InvalidCondition dsl_error | BuiltinRole | LastAdminError | BadWindow
  | UnknownScope string | UnknownScopes "string list" | ExpiryInPast | SelfDelegation | NotDelegatorsToGive string
  | DelegationNotFound | RoleNotFound | BodyInvalid | IntegrityError
  | ForbiddenError string | StepUpRequired string | AuthzAudit audit_error

definition assert_known :: "string \<Rightarrow> (authz_error, unit) res" where
  "assert_known key = (if key \<notin> set PERMISSION_KEYS then Inl (PermissionKeyError key) else Inr ())"

text \<open>\<^verbatim>\<open>key.split(".", 1)[0]\<close> is the text before the first dot; \<^verbatim>\<open>key.rsplit(".", 1)[-1]\<close> the text after the last.\<close>

definition area_of :: "string \<Rightarrow> string option" where
  "area_of key = (if key \<in> set PERMISSION_KEYS then Some (takeWhile (\<lambda>c. c \<noteq> CHR ''.'') key) else None)"

definition last_part :: "string \<Rightarrow> string" where
  "last_part key = rev (takeWhile (\<lambda>c. c \<noteq> CHR ''.'') (rev key))"

definition HUMAN_KEYS :: "string list" where
  "HUMAN_KEYS = filter (\<lambda>k. k \<notin> set MACHINE_KEYS) PERMISSION_KEYS"

definition VIEW_ONLY :: "string list" where
  "VIEW_ONLY = filter (\<lambda>k. last_part k = ''view'') HUMAN_KEYS"

definition SICHTLEITER :: "string list" where
  "SICHTLEITER =
     filter (\<lambda>k. str_starts k ''events.'') HUMAN_KEYS @ [''workflows.view'', ''workflows.execute'', ''workflows.override''] @
     filter (\<lambda>k. str_starts k ''calls.'') HUMAN_KEYS @ filter (\<lambda>k. str_starts k ''contacts.'') PERMISSION_KEYS @
     filter (\<lambda>k. str_starts k ''monitor.'') PERMISSION_KEYS @ [''weather.view'', ''weather.create_event''] @
     filter (\<lambda>k. str_starts k ''bku.'') HUMAN_KEYS @ filter (\<lambda>k. str_starts k ''door.'') HUMAN_KEYS @
     [''technical_endpoints.view'', ''integrations.view'', ''integrations.diagnostics'', ''system.audit.view'',
      ''system.cluster.view'', ''users.view'', ''roles.view'']"

definition DISPONENT :: "string list" where
  "DISPONENT =
     [''events.view'', ''events.create'', ''events.accept'', ''events.acknowledge'', ''events.open'', ''events.edit'', ''events.assign'',
      ''events.takeover'', ''events.close'', ''events.postprocess'', ''workflows.view'', ''workflows.execute'', ''calls.view'',
      ''calls.answer'', ''calls.dial'', ''calls.hangup'', ''calls.hold'', ''calls.transfer'', ''calls.document'', ''calls.view_history'',
      ''contacts.view'', ''contacts.create'', ''contacts.edit'', ''contacts.assign_priority'', ''monitor.view'', ''monitor.route'',
      ''weather.view'', ''weather.create_event'', ''door.view'', ''door.answer'', ''door.open'', ''bku.status.view'',
      ''bku.apps.launch'', ''bku.apps.close'', ''technical_endpoints.view'']"

definition NACHBEARBEITUNG :: "string list" where
  "NACHBEARBEITUNG =
     [''events.view'', ''events.postprocess'', ''events.export'', ''workflows.view'', ''calls.view_history'', ''contacts.view'',
      ''weather.view'', ''system.audit.view'']"

definition BUILTIN_ROLES :: "(string \<times> string \<times> string list) list" where
  "BUILTIN_ROLES =
     [(''administrator'', ''Administrator'', HUMAN_KEYS), (''sichtleiter'', ''Sichtleiter'', SICHTLEITER),
      (''disponent'', ''Disponent'', DISPONENT), (''nachbearbeitung'', ''Nachbearbeitung'', NACHBEARBEITUNG),
      (''nur_lesen'', ''Nur Lesen'', VIEW_ONLY)]"

section \<open>Grants and their resolution\<close>

record grant =
  g_key :: string
  g_scope :: string
  g_condition :: "pydict option"

type_synonym effective_permissions = "(string \<times> grant list) list"

definition effective_of :: "grant list \<Rightarrow> effective_permissions" where
  "effective_of gs = group_by g_key gs"

definition grants_for :: "effective_permissions \<Rightarrow> string \<Rightarrow> grant list" where
  "grants_for eff key = (case map_of eff key of None \<Rightarrow> [] | Some gs \<Rightarrow> gs)"

definition has_permission :: "effective_permissions \<Rightarrow> string \<Rightarrow> bool" where
  "has_permission eff key \<longleftrightarrow> key \<in> set (map fst eff)"

definition scopes_for :: "effective_permissions \<Rightarrow> string \<Rightarrow> string set" where
  "scopes_for eff key = g_scope ` set (grants_for eff key)"

record scope_context =
  sc_acting_user :: uuid
  sc_user_region :: "uuid option"
  sc_user_bbz :: "uuid option"
  sc_user_workplace :: "uuid option"
  sc_target_region :: "uuid option"
  sc_target_bbz :: "uuid option"
  sc_target_workplace :: "uuid option"
  sc_target_owner :: "uuid option"
  sc_target_assignee :: "uuid option"

definition both :: "uuid option \<Rightarrow> uuid option \<Rightarrow> bool" where
  "both a b \<longleftrightarrow> a \<noteq> None \<and> b \<noteq> None \<and> a = b"

definition scope_covers :: "string \<Rightarrow> scope_context \<Rightarrow> bool" where
  "scope_covers scope ctx \<longleftrightarrow>
     (if scope = ''global'' then True
      else if scope = ''region'' then both (sc_user_region ctx) (sc_target_region ctx)
      else if scope = ''bbz'' then both (sc_user_bbz ctx) (sc_target_bbz ctx)
      else if scope = ''workplace'' then both (sc_user_workplace ctx) (sc_target_workplace ctx)
      else if scope = ''own_events'' then both (Some (sc_acting_user ctx)) (sc_target_owner ctx)
      else if scope = ''assigned_events'' then both (Some (sc_acting_user ctx)) (sc_target_assignee ctx)
      else False)"

text \<open>The settings and the clock of one request.\<close>

record authz_env =
  az_now :: instant
  az_conditions_enabled :: bool
  az_stepup_permissions :: "string list"
  az_stepup_max_age :: int
  az_audit :: audit_env
  az_uuid :: "uuid \<Rightarrow> string"
  az_iso :: "instant \<Rightarrow> string"

definition condition_context :: "instant \<Rightarrow> grant \<Rightarrow> pydict" where
  "condition_context now g =
     [(''now.hour'', PInt (dt_hour now)), (''now.weekday'', PInt (dt_weekday now)), (''now.iso'', PStr (iso_seconds now)),
      (''scope'', PStr (g_scope g))]"

definition condition_allows :: "authz_env \<Rightarrow> grant \<Rightarrow> bool" where
  "condition_allows env g \<longleftrightarrow>
     (case g_condition g of
        None \<Rightarrow> True
      | Some c \<Rightarrow>
          if \<not> az_conditions_enabled env then False
          else (case bind_res (parse_tree (PDict c)) (\<lambda>e. evaluate e (condition_context (az_now env) g)) of
                  Inr b \<Rightarrow> b | Inl _ \<Rightarrow> False))"

definition grant_resolves :: "authz_env \<Rightarrow> grant \<Rightarrow> scope_context \<Rightarrow> bool" where
  "grant_resolves env g ctx \<longleftrightarrow> scope_covers (g_scope g) ctx \<and> condition_allows env g"

section \<open>The permission service\<close>

text \<open>The service reads the store through the protocol's one operation and keeps what it read for the rest of the request.\<close>

type_synonym grant_store = "uuid \<Rightarrow> grant list"
type_synonym permission_cache = "(uuid \<times> effective_permissions) list"

definition effective :: "grant_store \<Rightarrow> uuid \<Rightarrow> permission_cache \<Rightarrow> effective_permissions \<times> permission_cache" where
  "effective store u cache =
     (case map_of cache u of
        Some eff \<Rightarrow> (eff, cache)
      | None \<Rightarrow> (let eff = effective_of (store u) in (eff, dict_set u eff cache)))"

definition authorize ::
  "authz_env \<Rightarrow> grant_store \<Rightarrow> uuid \<Rightarrow> string \<Rightarrow> permission_cache \<Rightarrow> (authz_error, bool \<times> permission_cache) res" where
  "authorize env store u key cache =
     bind_res (assert_known key) (\<lambda>_.
       let (eff, cache') = effective store u cache
       in Inr (list_ex (condition_allows env) (grants_for eff key), cache'))"

definition authorize_scoped ::
  "authz_env \<Rightarrow> grant_store \<Rightarrow> uuid \<Rightarrow> string \<Rightarrow> scope_context \<Rightarrow> permission_cache \<Rightarrow> (authz_error, bool \<times> permission_cache) res" where
  "authorize_scoped env store u key ctx cache =
     bind_res (assert_known key) (\<lambda>_.
       let (eff, cache') = effective store u cache
       in Inr (list_ex (\<lambda>g. grant_resolves env g ctx) (grants_for eff key), cache'))"

section \<open>The tables and the grant query\<close>

record permission_row =
  pm_id :: uuid
  pm_key :: string
  pm_area :: string

record role_row =
  ro_id :: uuid
  ro_key :: string
  ro_name :: string
  ro_builtin :: bool

record group_row =
  gp_id :: uuid
  gp_key :: string
  gp_name :: string

record role_permission =
  rp_id :: uuid
  rp_role :: uuid
  rp_permission :: uuid
  rp_scope :: string
  rp_condition :: "pydict option"

record user_role =
  ur_user :: uuid
  ur_role :: uuid
  ur_granted_at :: instant
  ur_granted_by :: "uuid option"
  ur_from :: "instant option"
  ur_to :: "instant option"

record delegation =
  dl_id :: uuid
  dl_from :: uuid
  dl_to :: uuid
  dl_key :: string
  dl_scope :: string
  dl_granted :: instant
  dl_expires :: instant
  dl_revoked :: "instant option"

text \<open>\<^verbatim>\<open>group_roles\<close> and \<^verbatim>\<open>user_groups\<close> rows are their primary keys: (group, role) and (user, group).\<close>

record rbac_db =
  rb_users :: "uuid list"
  rb_permissions :: "permission_row list"
  rb_roles :: "role_row list"
  rb_groups :: "group_row list"
  rb_role_permissions :: "role_permission list"
  rb_user_roles :: "user_role list"
  rb_group_roles :: "(uuid \<times> uuid) list"
  rb_user_groups :: "(uuid \<times> uuid) list"
  rb_delegations :: "delegation list"
  rb_audit :: audit_db
  rb_next :: uuid

definition in_window :: "instant \<Rightarrow> user_role \<Rightarrow> bool" where
  "in_window now ur \<longleftrightarrow>
     (case ur_from ur of None \<Rightarrow> True | Some f \<Rightarrow> f \<le> now) \<and> (case ur_to ur of None \<Rightarrow> True | Some t \<Rightarrow> now \<le> t)"

definition role_ids_of :: "instant \<Rightarrow> rbac_db \<Rightarrow> uuid \<Rightarrow> uuid list" where
  "role_ids_of now db u = remdups
     (map ur_role (filter (\<lambda>ur. ur_user ur = u \<and> in_window now ur) (rb_user_roles db)) @
      map snd (filter (\<lambda>(gp, _). (u, gp) \<in> set (rb_user_groups db)) (rb_group_roles db)))"

definition join_permissions :: "rbac_db \<Rightarrow> role_permission list \<Rightarrow> grant list" where
  "join_permissions db rps =
     concat (map (\<lambda>rp. map (\<lambda>pm. \<lparr>g_key = pm_key pm, g_scope = rp_scope rp, g_condition = rp_condition rp\<rparr>)
       (filter (\<lambda>pm. pm_id pm = rp_permission rp) (rb_permissions db))) rps)"

definition delegation_active :: "instant \<Rightarrow> delegation \<Rightarrow> bool" where
  "delegation_active now d \<longleftrightarrow> dl_revoked d = None \<and> now < dl_expires d"

definition grants_for_user :: "instant \<Rightarrow> rbac_db \<Rightarrow> grant_store" where
  "grants_for_user now db u =
     join_permissions db (filter (\<lambda>rp. rp_role rp \<in> set (role_ids_of now db u)) (rb_role_permissions db)) @
     map (\<lambda>d. \<lparr>g_key = dl_key d, g_scope = dl_scope d, g_condition = None\<rparr>)
       (filter (\<lambda>d. dl_to d = u \<and> delegation_active now d) (rb_delegations db))"

section \<open>The endpoint guard\<close>

text \<open>
  Who calls: the authenticated user and when the session behind the request was last verified by a second factor
  (\<^verbatim>\<open>mfa_verified_at\<close> of the active session; \<open>None\<close> when there is no such session or no such verification).
\<close>

record auth_context =
  ax_user :: uuid
  ax_mfa_verified :: "instant option"

definition require :: "authz_env \<Rightarrow> string \<Rightarrow> scope_context option \<Rightarrow> auth_context \<Rightarrow> rbac_db \<Rightarrow> (authz_error, auth_context) res" where
  "require env permission scope ctx db =
     bind_res (case scope of
         None \<Rightarrow> authorize env (grants_for_user (az_now env) db) (ax_user ctx) permission []
       | Some sc \<Rightarrow> authorize_scoped env (grants_for_user (az_now env) db) (ax_user ctx) permission sc []) (\<lambda>(allowed, _).
       if \<not> allowed then Inl (ForbiddenError permission) else Inr ctx)"

text \<open>The age is in seconds, a rational; the comparison with the whole-second limit is made in microseconds.\<close>

definition mfa_fresh :: "authz_env \<Rightarrow> auth_context \<Rightarrow> bool" where
  "mfa_fresh env ctx \<longleftrightarrow>
     (case ax_mfa_verified ctx of None \<Rightarrow> False | Some t \<Rightarrow> az_now env - t \<le> az_stepup_max_age env * 1000000)"

definition require_stepup ::
  "authz_env \<Rightarrow> string \<Rightarrow> scope_context option \<Rightarrow> auth_context \<Rightarrow> rbac_db \<Rightarrow> (authz_error, auth_context) res \<times> rbac_db" where
  "require_stepup env permission scope ctx db =
     (case require env permission scope ctx db of
        Inl e \<Rightarrow> (Inl e, db)
      | Inr _ \<Rightarrow>
          if permission \<notin> set (az_stepup_permissions env) then (Inr ctx, db)
          else if mfa_fresh env ctx then (Inr ctx, db)
          else (case audit_write (az_audit env) True
                  \<lparr>rq_action = ''MFA_STEPUP_REQUIRED'', rq_actor = Some (ax_user ctx), rq_client = None, rq_workplace = None,
                    rq_target_type = Some ''permission'', rq_target_id = Some permission, rq_before = None, rq_after = None,
                    rq_reason = None, rq_event_seq = None\<rparr> (rb_audit db) of
                  Inl e \<Rightarrow> (Inl (AuthzAudit e), db)
                | Inr a \<Rightarrow> (Inl (StepUpRequired permission), db\<lparr>rb_audit := a\<rparr>)))"

section \<open>What a decision rests on\<close>

lemma grants_for_effective_of [simp]: "grants_for (effective_of gs) key = filter (\<lambda>g. g_key g = key) gs"
proof -
  have "filter (\<lambda>g. g_key g = key) gs = []" if "key \<notin> g_key ` set gs"
    using that by (auto simp: filter_empty_conv)
  then show ?thesis
    using group_by_map [of g_key gs key] by (auto simp: grants_for_def effective_of_def)
qed

text \<open>The cache holds what the store would answer; then a cached decision is the decision of a fresh service.\<close>

definition cache_ok :: "grant_store \<Rightarrow> permission_cache \<Rightarrow> bool" where
  "cache_ok store cache \<longleftrightarrow> (\<forall>u eff. map_of cache u = Some eff \<longrightarrow> eff = effective_of (store u))"

lemma effective_cached:
  assumes "cache_ok store cache"
  shows "fst (effective store u cache) = effective_of (store u)" "cache_ok store (snd (effective store u cache))"
  using assms by (auto simp: effective_def cache_ok_def Let_def split: option.split)

lemma cache_ok_Nil [simp]: "cache_ok store []"
  by (simp add: cache_ok_def)

lemma authorize_cached:
  assumes "cache_ok store cache"
  obtains cache' where "cache_ok store cache'"
    "authorize env store u key cache =
       (if key \<in> set PERMISSION_KEYS then Inr (\<exists>g\<in>set (store u). g_key g = key \<and> condition_allows env g, cache')
        else Inl (PermissionKeyError key))"
    "authorize_scoped env store u key sc cache =
       (if key \<in> set PERMISSION_KEYS then Inr (\<exists>g\<in>set (store u). g_key g = key \<and> grant_resolves env g sc, cache')
        else Inl (PermissionKeyError key))"
proof
  show "cache_ok store (snd (effective store u cache))" using assms by (rule effective_cached(2))
qed (use effective_cached(1) [OF assms, of u] in
     \<open>auto simp: authorize_def authorize_scoped_def assert_known_def list_ex_iff Let_def split: prod.split\<close>)

text \<open>
  The policy the tables state, rule by rule: a user holds a grant through a role assigned directly and inside its validity window,
  through a role of one of the user's groups, or by an unrevoked, unexpired delegation, which carries no condition.
\<close>

inductive holds :: "instant \<Rightarrow> rbac_db \<Rightarrow> uuid \<Rightarrow> grant \<Rightarrow> bool" for now db where
  direct: "ur \<in> set (rb_user_roles db) \<Longrightarrow> in_window now ur \<Longrightarrow> rp \<in> set (rb_role_permissions db) \<Longrightarrow> rp_role rp = ur_role ur \<Longrightarrow>
    pm \<in> set (rb_permissions db) \<Longrightarrow> pm_id pm = rp_permission rp \<Longrightarrow>
    holds now db (ur_user ur) \<lparr>g_key = pm_key pm, g_scope = rp_scope rp, g_condition = rp_condition rp\<rparr>"
| by_group: "(u, gp) \<in> set (rb_user_groups db) \<Longrightarrow> (gp, r) \<in> set (rb_group_roles db) \<Longrightarrow> rp \<in> set (rb_role_permissions db) \<Longrightarrow>
    rp_role rp = r \<Longrightarrow> pm \<in> set (rb_permissions db) \<Longrightarrow> pm_id pm = rp_permission rp \<Longrightarrow>
    holds now db u \<lparr>g_key = pm_key pm, g_scope = rp_scope rp, g_condition = rp_condition rp\<rparr>"
| delegated: "d \<in> set (rb_delegations db) \<Longrightarrow> delegation_active now d \<Longrightarrow>
    holds now db (dl_to d) \<lparr>g_key = dl_key d, g_scope = dl_scope d, g_condition = None\<rparr>"

inductive_cases holds_cases: "holds now db u g"

lemma role_ids_of_iff:
  "r \<in> set (role_ids_of now db u) \<longleftrightarrow>
     (\<exists>ur\<in>set (rb_user_roles db). ur_user ur = u \<and> in_window now ur \<and> ur_role ur = r) \<or>
     (\<exists>gp. (u, gp) \<in> set (rb_user_groups db) \<and> (gp, r) \<in> set (rb_group_roles db))"
  by (force simp: role_ids_of_def)

lemma join_permissions_iff:
  "g \<in> set (join_permissions db rps) \<longleftrightarrow>
     (\<exists>rp\<in>set rps. \<exists>pm\<in>set (rb_permissions db). pm_id pm = rp_permission rp \<and>
        g = \<lparr>g_key = pm_key pm, g_scope = rp_scope rp, g_condition = rp_condition rp\<rparr>)"
  by (auto simp: join_permissions_def)

lemma grants_for_user_iff: "g \<in> set (grants_for_user now db u) \<longleftrightarrow> holds now db u g"
proof
  assume "g \<in> set (grants_for_user now db u)"
  then show "holds now db u g"
    by (auto simp: grants_for_user_def join_permissions_iff role_ids_of_iff intro: holds.intros)
next
  have role: "\<lparr>g_key = pm_key pm, g_scope = rp_scope rp, g_condition = rp_condition rp\<rparr> \<in> set (grants_for_user now db u)"
    if "rp \<in> set (rb_role_permissions db)" "rp_role rp \<in> set (role_ids_of now db u)" "pm \<in> set (rb_permissions db)"
      "pm_id pm = rp_permission rp" for u rp pm
    unfolding grants_for_user_def set_append
    by (rule UnI1, unfold join_permissions_iff, intro bexI [of _ rp] bexI [of _ pm]) (simp_all add: that)
  assume "holds now db u g"
  then show "g \<in> set (grants_for_user now db u)"
  proof (induction rule: holds.induct)
    case (direct ur rp pm)
    then show ?case by (intro role) (auto simp: role_ids_of_iff)
  next
    case (by_group u gp r rp pm)
    then show ?case by (intro role) (auto simp: role_ids_of_iff)
  next
    case (delegated d)
    then show ?case by (simp add: grants_for_user_def)
  qed
qed

definition policy_allows :: "authz_env \<Rightarrow> rbac_db \<Rightarrow> uuid \<Rightarrow> string \<Rightarrow> scope_context option \<Rightarrow> bool" where
  "policy_allows env db u key scope \<longleftrightarrow>
     (\<exists>g. holds (az_now env) db u g \<and> g_key g = key \<and> condition_allows env g \<and>
        (case scope of None \<Rightarrow> True | Some sc \<Rightarrow> scope_covers (g_scope g) sc))"

text \<open>The checks one service instance makes during a request, in order, each with or without a scope context.\<close>

definition service_check ::
  "authz_env \<Rightarrow> grant_store \<Rightarrow> uuid \<times> string \<times> scope_context option \<Rightarrow> permission_cache \<Rightarrow> (authz_error, bool \<times> permission_cache) res" where
  "service_check env store q cache =
     (case q of (u, key, None) \<Rightarrow> authorize env store u key cache | (u, key, Some sc) \<Rightarrow> authorize_scoped env store u key sc cache)"

fun service_checks ::
  "authz_env \<Rightarrow> grant_store \<Rightarrow> (uuid \<times> string \<times> scope_context option) list \<Rightarrow> permission_cache \<Rightarrow> (authz_error, bool) res list" where
  "service_checks env store [] cache = []"
| "service_checks env store (q # qs) cache =
     (case service_check env store q cache of
        Inl e \<Rightarrow> Inl e # service_checks env store qs cache
      | Inr (b, cache') \<Rightarrow> Inr b # service_checks env store qs cache')"

lemma service_check_decides:
  assumes "cache_ok (grants_for_user (az_now env) db) cache"
  obtains cache' where "cache_ok (grants_for_user (az_now env) db) cache'"
    "service_check env (grants_for_user (az_now env) db) (u, key, scope) cache =
       (if key \<in> set PERMISSION_KEYS then Inr (policy_allows env db u key scope, cache') else Inl (PermissionKeyError key))"
proof -
  let ?store = "grants_for_user (az_now env) db"
  have rs: "(\<exists>g\<in>set (?store u). g_key g = key \<and> condition_allows env g) = policy_allows env db u key None"
    "(\<exists>g\<in>set (?store u). g_key g = key \<and> grant_resolves env g sc) = policy_allows env db u key (Some sc)" for sc
    by (auto simp: policy_allows_def grants_for_user_iff grant_resolves_def)
  show thesis
  proof (cases scope)
    case None
    obtain cache' where c: "cache_ok ?store cache'" "authorize env ?store u key cache =
        (if key \<in> set PERMISSION_KEYS then Inr (\<exists>g\<in>set (?store u). g_key g = key \<and> condition_allows env g, cache')
         else Inl (PermissionKeyError key))"
      by (rule authorize_cached [OF assms])
    show thesis by (rule that [OF c(1)]) (simp only: None service_check_def prod.case option.case c(2) rs(1))
  next
    case (Some sc)
    obtain cache' where c: "cache_ok ?store cache'" "authorize_scoped env ?store u key sc cache =
        (if key \<in> set PERMISSION_KEYS then Inr (\<exists>g\<in>set (?store u). g_key g = key \<and> grant_resolves env g sc, cache')
         else Inl (PermissionKeyError key))"
      by (rule authorize_cached [OF assms])
    show thesis by (rule that [OF c(1)]) (simp only: Some service_check_def prod.case option.case c(2) rs(2))
  qed
qed

lemma service_checks_decide:
  assumes "cache_ok (grants_for_user (az_now env) db) cache"
  shows "service_checks env (grants_for_user (az_now env) db) qs cache =
     map (\<lambda>(u, key, scope). if key \<in> set PERMISSION_KEYS then Inr (policy_allows env db u key scope) else Inl (PermissionKeyError key)) qs"
  using assms
proof (induction qs arbitrary: cache)
  case (Cons q qs)
  obtain u key scope where q: "q = (u, key, scope)" by (cases q)
  obtain cache' where "cache_ok (grants_for_user (az_now env) db) cache'"
    "service_check env (grants_for_user (az_now env) db) q cache =
       (if key \<in> set PERMISSION_KEYS then Inr (policy_allows env db u key scope, cache') else Inl (PermissionKeyError key))"
    using service_check_decides [OF Cons.prems] q by metis
  then show ?case using Cons.IH Cons.prems q by simp
qed simp

lemma require_eq:
  "require env permission scope ctx db =
     (if permission \<notin> set PERMISSION_KEYS then Inl (PermissionKeyError permission)
      else if policy_allows env db (ax_user ctx) permission scope then Inr ctx else Inl (ForbiddenError permission))"
proof -
  have "require env permission scope ctx db =
      bind_res (service_check env (grants_for_user (az_now env) db) (ax_user ctx, permission, scope) []) (\<lambda>(allowed, _).
        if \<not> allowed then Inl (ForbiddenError permission) else Inr ctx)"
    by (simp add: require_def service_check_def split: option.split)
  moreover obtain cache' where "service_check env (grants_for_user (az_now env) db) (ax_user ctx, permission, scope) [] =
       (if permission \<in> set PERMISSION_KEYS then Inr (policy_allows env db (ax_user ctx) permission scope, cache')
        else Inl (PermissionKeyError permission))"
    by (rule service_check_decides [OF cache_ok_Nil])
  ultimately show ?thesis by simp
qed

text \<open>
  C8. The permission service decides by the policy of the tables. Whatever checks one service instance makes during a request, with
  its cache filling on the way, each answer is the one of the policy: allowed exactly when some grant the user holds (directly inside its
  window, by a group, by an active delegation) has the key, covers the scope context, where there is one, and has a condition that
  allows it; an unknown key is an error, never an answer. The endpoint guard answers 403 or passes the caller through accordingly.
\<close>

theorem service_decides_policy:
  "service_checks env (grants_for_user (az_now env) db) qs [] =
     map (\<lambda>(u, key, scope). if key \<in> set PERMISSION_KEYS then Inr (policy_allows env db u key scope) else Inl (PermissionKeyError key)) qs \<and>
   require env permission scope ctx db =
     (if permission \<notin> set PERMISSION_KEYS then Inl (PermissionKeyError permission)
      else if policy_allows env db (ax_user ctx) permission scope then Inr ctx else Inl (ForbiddenError permission))"
  using service_checks_decide [OF cache_ok_Nil] require_eq by blast

section \<open>Deny by default\<close>

text \<open>What a scope asks of the context: a value on both sides, and the same one.\<close>

inductive placed :: "string \<Rightarrow> scope_context \<Rightarrow> bool" where
  everywhere: "placed ''global'' ctx"
| same_region: "sc_user_region ctx = Some r \<Longrightarrow> sc_target_region ctx = Some r \<Longrightarrow> placed ''region'' ctx"
| same_bbz: "sc_user_bbz ctx = Some b \<Longrightarrow> sc_target_bbz ctx = Some b \<Longrightarrow> placed ''bbz'' ctx"
| same_workplace: "sc_user_workplace ctx = Some w \<Longrightarrow> sc_target_workplace ctx = Some w \<Longrightarrow> placed ''workplace'' ctx"
| owner: "sc_target_owner ctx = Some (sc_acting_user ctx) \<Longrightarrow> placed ''own_events'' ctx"
| assignee: "sc_target_assignee ctx = Some (sc_acting_user ctx) \<Longrightarrow> placed ''assigned_events'' ctx"

lemma scope_covers_placed: "scope_covers scope ctx \<longleftrightarrow> placed scope ctx"
proof
  show "placed scope ctx" if "scope_covers scope ctx"
    using that unfolding scope_covers_def both_def by (auto split: if_splits intro: placed.intros)
  show "scope_covers scope ctx" if "placed scope ctx"
    using that by (induction rule: placed.induct) (simp_all add: scope_covers_def both_def)
qed

lemma scope_covers_known: "scope_covers scope ctx \<Longrightarrow> scope \<in> set SCOPES"
  by (auto simp: scope_covers_def SCOPES_def split: if_splits)

definition condition_true :: "authz_env \<Rightarrow> grant \<Rightarrow> bool" where
  "condition_true env g \<longleftrightarrow> (\<forall>c. g_condition g = Some c \<longrightarrow> az_conditions_enabled env \<and>
     (\<exists>e. parse_tree (PDict c) = Inr e \<and> evaluate e (condition_context (az_now env) g) = Inr True))"

lemma condition_allows_true: "condition_allows env g \<longleftrightarrow> condition_true env g"
  by (auto simp: condition_allows_def condition_true_def bind_res_Inr bind_res_Inl split: option.split sum.splits)

definition without_conditions :: "rbac_db \<Rightarrow> rbac_db" where
  "without_conditions db = db\<lparr>rb_role_permissions := map (\<lambda>rp. rp\<lparr>rp_condition := None\<rparr>) (rb_role_permissions db)\<rparr>"

lemma holds_without_conditions:
  assumes "holds now db u g"
  shows "holds now (without_conditions db) u (g\<lparr>g_condition := None\<rparr>)"
  using assms
proof (induction rule: holds.induct)
  case (direct ur rp pm)
  then show ?case
    using holds.direct [of ur "without_conditions db" now "rp\<lparr>rp_condition := None\<rparr>" pm] by (simp add: without_conditions_def)
next
  case (by_group u gp r rp pm)
  then show ?case
    using holds.by_group [of u gp "without_conditions db" r "rp\<lparr>rp_condition := None\<rparr>" pm now] by (simp add: without_conditions_def)
next
  case (delegated d)
  then show ?case using holds.delegated [of d "without_conditions db" now] by (simp add: without_conditions_def)
qed

text \<open>
  Nothing is allowed by accident. When a scoped check passes, the caller holds a grant of that key whose scope has equal values on
  both sides of the context (a missing placement never matches, and no scope outside the vocabulary ever does), and whose
  condition, if it has one, is enabled by the operator, parses and evaluates to true. The check without a scope context passes
  as well, and so does the same check on the tables with every condition removed: scopes and conditions only narrow.
\<close>

theorem scopes_and_conditions_narrow:
  assumes "require env permission (Some sc) ctx db = Inr ctx'"
  shows "(\<exists>g. holds (az_now env) db (ax_user ctx) g \<and> g_key g = permission \<and> placed (g_scope g) sc \<and> g_scope g \<in> set SCOPES \<and>
      condition_true env g) \<and>
    require env permission None ctx db = Inr ctx' \<and>
    require env permission (Some sc) ctx (without_conditions db) = Inr ctx'"
proof -
  from assms have ctx: "ctx' = ctx" and key: "permission \<in> set PERMISSION_KEYS"
    and pol: "policy_allows env db (ax_user ctx) permission (Some sc)"
    by (auto simp: require_eq split: if_splits)
  then obtain g where g: "holds (az_now env) db (ax_user ctx) g" "g_key g = permission" "condition_allows env g" "scope_covers (g_scope g) sc"
    by (auto simp: policy_allows_def)
  have "policy_allows env db (ax_user ctx) permission None" using g by (auto simp: policy_allows_def)
  moreover have "policy_allows env (without_conditions db) (ax_user ctx) permission (Some sc)"
    using g(2,4) holds_without_conditions [OF g(1)]
    by (auto simp: policy_allows_def condition_allows_def intro!: exI [of _ "g\<lparr>g_condition := None\<rparr>"])
  ultimately show ?thesis
    using g key ctx scope_covers_known scope_covers_placed condition_allows_true by (fastforce simp: require_eq)
qed

definition sample_authz_env :: authz_env where
  "sample_authz_env = \<lparr>az_now = 1767268800000000, az_conditions_enabled = True, az_stepup_permissions = [''permissions.manage''],
     az_stepup_max_age = 300, az_audit = sample_env,
     az_uuid = nat_str, az_iso = iso_seconds\<rparr>"

definition sample_rbac :: rbac_db where
  "sample_rbac = \<lparr>rb_users = [1, 5], rb_permissions = [\<lparr>pm_id = 2, pm_key = ''events.view'', pm_area = ''events''\<rparr>],
     rb_roles = [\<lparr>ro_id = 3, ro_key = ''dispo'', ro_name = ''Dispo'', ro_builtin = False\<rparr>], rb_groups = [],
     rb_role_permissions = [\<lparr>rp_id = 4, rp_role = 3, rp_permission = 2, rp_scope = ''bbz'',
       rp_condition = Some [(''op'', PStr ''gte''), (''args'', PList [PDict [(''field'', PStr ''now.hour'')], PInt 6])]\<rparr>],
     rb_user_roles = [\<lparr>ur_user = 1, ur_role = 3, ur_granted_at = 0, ur_granted_by = None, ur_from = None, ur_to = None\<rparr>],
     rb_group_roles = [], rb_user_groups = [], rb_delegations = [], rb_audit = \<lparr>audit_events = [], audit_next_seq = 1\<rparr>, rb_next = 6\<rparr>"

definition sample_scope :: scope_context where
  "sample_scope = \<lparr>sc_acting_user = 1, sc_user_region = None, sc_user_bbz = Some 9, sc_user_workplace = None, sc_target_region = None,
     sc_target_bbz = Some 9, sc_target_workplace = None, sc_target_owner = None, sc_target_assignee = None\<rparr>"

theorem scopes_and_conditions_narrow_witness:
  "require sample_authz_env ''events.view'' None \<lparr>ax_user = 1, ax_mfa_verified = None\<rparr> sample_rbac =
     Inr \<lparr>ax_user = 1, ax_mfa_verified = None\<rparr>"
proof -
  have "require sample_authz_env ''events.view'' (Some sample_scope) \<lparr>ax_user = 1, ax_mfa_verified = None\<rparr> sample_rbac =
     Inr \<lparr>ax_user = 1, ax_mfa_verified = None\<rparr>" by code_simp
  from scopes_and_conditions_narrow [OF this] show ?thesis by blast
qed

end
