(* ===== verification/Accounts.thy ===== *)
theory Accounts
  imports Authorization
begin

text \<open>
  Accounts and sessions: the identity tables (\<^verbatim>\<open>infra/models/identity.py\<close>, \<^verbatim>\<open>session.py\<close>), the password policy (\<^verbatim>\<open>auth/policy.py\<close>),
  local sign-in with lockout (\<^verbatim>\<open>auth/local.py\<close>, \<^verbatim>\<open>infra/repositories/local_credentials.py\<close>), time-based codes and recovery codes
  (\<^verbatim>\<open>auth/totp.py\<close>, \<^verbatim>\<open>auth/mfa.py\<close>, \<^verbatim>\<open>infra/repositories/totp.py\<close>), sessions and access tokens (\<^verbatim>\<open>auth/sessions.py\<close>,
  \<^verbatim>\<open>infra/repositories/sessions.py\<close>, \<^verbatim>\<open>auth/tokens.py\<close>, \<^verbatim>\<open>api/deps.py\<close>). The cryptographic libraries (Argon2, Fernet, pyotp, PyJWT)
  and the sources of randomness are fields of the environment: a request carries the values its calls would draw. Each call of a store
  commits, so a function that fails returns the tables it leaves together with its error.
\<close>

section \<open>Tables\<close>

record user_account =
  us_id :: uuid
  us_name :: string
  us_active :: bool
  us_external :: "string option"

record identity_row =
  ai_id :: uuid
  ai_user :: uuid
  ai_provider :: string
  ai_subject :: string

record credential_row =
  cd_identity :: uuid
  cd_hash :: string
  cd_must_change :: bool
  cd_failed :: nat
  cd_locked :: "instant option"
  cd_changed :: instant

record totp_row =
  tt_identity :: uuid
  tt_secret :: string
  tt_activated :: bool
  tt_last_step :: "int option"

record recovery_row =
  rc_identity :: uuid
  rc_hash :: string
  rc_used :: "instant option"

record session_row =
  se_id :: uuid
  se_user :: uuid
  se_refresh :: string
  se_created :: instant
  se_last_used :: instant
  se_expires :: instant
  se_revoked :: "instant option"
  se_client :: "string option"
  se_workplace :: "string option"
  se_agent :: "string option"
  se_mfa :: "instant option"

record webauthn_row =
  wk_id :: uuid
  wk_identity :: uuid
  wk_credential :: string
  wk_public :: string
  wk_count :: nat
  wk_transports :: string
  wk_aaguid :: string
  wk_name :: string
  wk_created :: instant
  wk_last_used :: "instant option"

record challenge_row =
  ch_kind :: string
  ch_identity :: "uuid option"
  ch_user :: "uuid option"
  ch_challenge :: string
  ch_expires :: instant

record flow_row =
  fl_state :: string
  fl_provider :: string
  fl_nonce :: string
  fl_verifier :: string
  fl_link :: "uuid option"
  fl_expires :: instant

record group_mapping =
  gm_id :: uuid
  gm_provider :: string
  gm_group :: string
  gm_role :: string

text \<open>The external role assignments are their primary keys: (user, role, provider). An MFA policy is a role key with its days of grace.\<close>

record account_db =
  ad_users :: "user_account list"
  ad_identities :: "identity_row list"
  ad_creds :: "credential_row list"
  ad_totp :: "totp_row list"
  ad_recovery :: "recovery_row list"
  ad_sessions :: "session_row list"
  ad_keys :: "webauthn_row list"
  ad_challenges :: "challenge_row list"
  ad_flows :: "flow_row list"
  ad_mappings :: "group_mapping list"
  ad_external :: "(uuid \<times> uuid \<times> string) list"
  ad_policies :: "(string \<times> nat) list"
  ad_rbac :: rbac_db
  ad_next :: uuid

text \<open>
  What a request finds around it: the clock and the audit environment, the settings, the libraries, and the random values it would draw.
  \<open>en_decrypt\<close> is \<open>None\<close> without a key or for a foreign ciphertext; \<open>en_jwt_decode\<close> is \<open>None\<close> when PyJWT raises; \<open>en_totp\<close> is the code
  of a secret at a time step; \<open>en_added\<close> is the column \<^verbatim>\<open>added_at\<close> of \<^verbatim>\<open>user_groups\<close>;
  \<open>en_sign\<close> is HMAC-SHA256 under the JWT secret.
\<close>

record account_env =
  en_now :: instant
  en_audit :: audit_env
  en_uuid :: "uuid \<Rightarrow> string"
  en_parse :: "string \<Rightarrow> uuid option"
  en_max_failed :: nat
  en_lockout :: int
  en_min_length :: nat
  en_min_classes :: nat
  en_access_ttl :: int
  en_refresh_ttl :: int
  en_enforce_external :: bool
  en_providers :: "string list"
  en_hash :: "string \<Rightarrow> string"
  en_verify :: "string \<Rightarrow> string \<Rightarrow> bool"
  en_needs_rehash :: "string \<Rightarrow> bool"
  en_sha :: "string \<Rightarrow> string"
  en_encrypt :: "string \<Rightarrow> string option"
  en_decrypt :: "string \<Rightarrow> string option"
  en_totp :: "string \<Rightarrow> int \<Rightarrow> string"
  en_new_secret :: string
  en_new_codes :: "string list"
  en_new_refresh :: string
  en_jwt_encode :: "pydict \<Rightarrow> string"
  en_jwt_decode :: "string \<Rightarrow> pydict option"
  en_added :: "uuid \<Rightarrow> uuid \<Rightarrow> instant"
  en_sign :: "nat list \<Rightarrow> nat list"

datatype auth_error =
    Unauthorized string | MfaRequired | TotpRequired | WebauthnRequired | NeedsStepUp | Invalid string | Missing string | Unavailable
  | Conflict string | UnknownProvider string | CryptoUnavailable | WebauthnUnavailable | PyTypeError | ManyRows | DuplicateKey | AuthAudit audit_error

section \<open>Audit rows of the writer\<close>

text \<open>\<^verbatim>\<open>AuditWriter.record\<close> adds the row as it is given: nothing is scrubbed and no reason is required.\<close>

definition audit_record :: "audit_env \<Rightarrow> audit_request \<Rightarrow> audit_db \<Rightarrow> audit_db" where
  "audit_record env rq db =
     \<lparr>audit_events = audit_events db @
        [\<lparr>au_id = audit_next_seq db, au_seq = audit_next_seq db, au_occurred = env_now env, au_node = env_node env,
          au_action = rq_action rq, au_actor = rq_actor rq, au_client = rq_client rq, au_workplace = rq_workplace rq,
          au_target_type = rq_target_type rq, au_target_id = rq_target_id rq, au_before = rq_before rq, au_after = rq_after rq,
          au_reason = rq_reason rq, au_correlation = env_correlation env, au_event_seq = None\<rparr>],
      audit_next_seq = Suc (audit_next_seq db)\<rparr>"

definition blank_request :: "string \<Rightarrow> audit_request" where
  "blank_request action = \<lparr>rq_action = action, rq_actor = None, rq_client = None, rq_workplace = None, rq_target_type = None,
     rq_target_id = None, rq_before = None, rq_after = None, rq_reason = None, rq_event_seq = None\<rparr>"

definition note_audit_row :: "account_env \<Rightarrow> audit_request \<Rightarrow> account_db \<Rightarrow> account_db" where
  "note_audit_row env rq db = db\<lparr>ad_rbac := (ad_rbac db)\<lparr>rb_audit := audit_record (en_audit env) rq (rb_audit (ad_rbac db))\<rparr>\<rparr>"

definition service_audit :: "account_env \<Rightarrow> audit_request \<Rightarrow> account_db \<Rightarrow> (auth_error, account_db) res" where
  "service_audit env rq db =
     (case audit_write (en_audit env) True rq (rb_audit (ad_rbac db)) of
        Inl e \<Rightarrow> Inl (AuthAudit e)
      | Inr a \<Rightarrow> Inr (db\<lparr>ad_rbac := (ad_rbac db)\<lparr>rb_audit := a\<rparr>\<rparr>))"

section \<open>Password policy\<close>

text \<open>The character classes of Python's \<^verbatim>\<open>str\<close> methods on the range of \<open>char\<close>.\<close>

definition is_lower_char :: "char \<Rightarrow> bool" where
  "is_lower_char c = (let n = ord_of c in 97 \<le> n \<and> n \<le> 122 \<or> n = 170 \<or> n = 181 \<or> n = 186 \<or> 223 \<le> n \<and> n \<noteq> 247)"

definition is_upper_char :: "char \<Rightarrow> bool" where
  "is_upper_char c = (let n = ord_of c in 65 \<le> n \<and> n \<le> 90 \<or> 192 \<le> n \<and> n \<le> 222 \<and> n \<noteq> 215)"

definition is_digit_char :: "char \<Rightarrow> bool" where
  "is_digit_char c = (py_isdigit c \<or> ord_of c \<in> {178, 179, 185})"

definition is_alnum_char :: "char \<Rightarrow> bool" where
  "is_alnum_char c = (is_lower_char c \<or> is_upper_char c \<or> is_digit_char c \<or> ord_of c \<in> {188, 189, 190})"

definition PUNCTUATION :: "char \<Rightarrow> bool" where
  "PUNCTUATION c = (let n = ord_of c in 33 \<le> n \<and> n \<le> 47 \<or> 58 \<le> n \<and> n \<le> 64 \<or> 91 \<le> n \<and> n \<le> 96 \<or> 123 \<le> n \<and> n \<le> 126)"

definition COMMON_PASSWORDS :: "string list" where
  "COMMON_PASSWORDS = [''password'', ''passwort'', ''12345678'', ''123456789'', ''1234567890'', ''qwertzuiop'', ''qwertyuiop'', ''letmein'',
     ''changeme'', ''admin123'', ''welcome1'', ''bahnhof1'', ''leitstelle'']"

definition char_classes :: "string \<Rightarrow> nat" where
  "char_classes pw = of_bool (list_ex is_lower_char pw) + of_bool (list_ex is_upper_char pw) + of_bool (list_ex is_digit_char pw) +
     of_bool (list_ex (\<lambda>c. PUNCTUATION c \<or> \<not> is_alnum_char c) pw)"

datatype policy_reason = TooShort nat | TooFewClasses nat | TooCommon | ContainsUsername

definition policy_reasons :: "account_env \<Rightarrow> string \<Rightarrow> string option \<Rightarrow> policy_reason list" where
  "policy_reasons env pw username =
     (if length pw < en_min_length env then [TooShort (en_min_length env)] else []) @
     (if char_classes pw < en_min_classes env then [TooFewClasses (en_min_classes env)] else []) @
     (if py_lower pw \<in> set COMMON_PASSWORDS then [TooCommon] else []) @
     (case username of
        Some u \<Rightarrow> if 3 \<le> length u \<and> is_substr (py_lower u) (py_lower pw) then [ContainsUsername] else []
      | None \<Rightarrow> [])"

section \<open>Local sign-in\<close>

record credential_record =
  cr_user :: uuid
  cr_identity :: uuid
  cr_hash :: string
  cr_must_change :: bool
  cr_failed :: nat
  cr_locked :: "instant option"
  cr_active :: bool

datatype local_result = LocalSuccess | BadCredentials | LocalLocked | LocalDisabled

record auth_outcome =
  oc_result :: local_result
  oc_user :: "uuid option"
  oc_must_change :: bool

definition find_user :: "uuid \<Rightarrow> account_db \<Rightarrow> user_account option" where
  "find_user u db = find_first (\<lambda>x. us_id x = u) (ad_users db)"

definition find_identity :: "string \<Rightarrow> string \<Rightarrow> account_db \<Rightarrow> identity_row option" where
  "find_identity provider subject db = find_first (\<lambda>a. ai_provider a = provider \<and> ai_subject a = subject) (ad_identities db)"

definition find_cred :: "uuid \<Rightarrow> account_db \<Rightarrow> credential_row option" where
  "find_cred i db = find_first (\<lambda>c. cd_identity c = i) (ad_creds db)"

definition get_by_username :: "string \<Rightarrow> account_db \<Rightarrow> credential_record option" where
  "get_by_username name db =
     (case find_identity ''local'' name db of
        None \<Rightarrow> None
      | Some a \<Rightarrow>
          (case (find_user (ai_user a) db, find_cred (ai_id a) db) of
             (Some u, Some c) \<Rightarrow> Some \<lparr>cr_user = us_id u, cr_identity = ai_id a, cr_hash = cd_hash c, cr_must_change = cd_must_change c,
               cr_failed = cd_failed c, cr_locked = cd_locked c, cr_active = us_active u\<rparr>
           | _ \<Rightarrow> None))"

definition update_cred :: "uuid \<Rightarrow> (credential_row \<Rightarrow> credential_row) \<Rightarrow> account_db \<Rightarrow> account_db" where
  "update_cred i f db = db\<lparr>ad_creds := map (\<lambda>c. if cd_identity c = i then f c else c) (ad_creds db)\<rparr>"

definition cred_record_failure :: "uuid \<Rightarrow> instant option \<Rightarrow> account_db \<Rightarrow> account_db" where
  "cred_record_failure i locked = update_cred i (\<lambda>c. c\<lparr>cd_failed := cd_failed c + 1, cd_locked := locked\<rparr>)"

definition cred_reset_failures :: "uuid \<Rightarrow> account_db \<Rightarrow> account_db" where
  "cred_reset_failures i = update_cred i (\<lambda>c. c\<lparr>cd_failed := 0, cd_locked := None\<rparr>)"

definition cred_update_hash :: "uuid \<Rightarrow> string \<Rightarrow> account_db \<Rightarrow> account_db" where
  "cred_update_hash i h = update_cred i (\<lambda>c. c\<lparr>cd_hash := h\<rparr>)"

definition cred_set_password :: "account_env \<Rightarrow> uuid \<Rightarrow> string \<Rightarrow> bool \<Rightarrow> account_db \<Rightarrow> account_db" where
  "cred_set_password env i h must_change db =
     (if i \<in> cd_identity ` set (ad_creds db)
      then update_cred i (\<lambda>c. c\<lparr>cd_hash := h, cd_must_change := must_change, cd_failed := 0, cd_locked := None, cd_changed := en_now env\<rparr>) db
      else db\<lparr>ad_creds := ad_creds db @ [\<lparr>cd_identity = i, cd_hash = h, cd_must_change = must_change, cd_failed = 0, cd_locked = None,
             cd_changed = en_now env\<rparr>]\<rparr>)"

text \<open>
  \<^verbatim>\<open>authenticate\<close> reads the record, then judges it, then writes: another request may write between the read and the write, so the judgement
  and the write are definitions of their own.
\<close>

datatype verdict = VLocked | VDisabled | VWrong "instant option" | VRight

definition judge :: "account_env \<Rightarrow> credential_record \<Rightarrow> string \<Rightarrow> verdict" where
  "judge env r password =
     (if (case cr_locked r of None \<Rightarrow> False | Some t \<Rightarrow> en_now env < t) then VLocked
      else if \<not> cr_active r then VDisabled
      else if \<not> en_verify env (cr_hash r) password
      then VWrong (if en_max_failed env \<le> cr_failed r + 1 then Some (en_now env + en_lockout env * 1000000) else None)
      else VRight)"

definition carry_out :: "account_env \<Rightarrow> credential_record \<Rightarrow> string \<Rightarrow> verdict \<Rightarrow> account_db \<Rightarrow> auth_outcome \<times> account_db" where
  "carry_out env r password v db =
     (case v of
        VLocked \<Rightarrow> (\<lparr>oc_result = LocalLocked, oc_user = None, oc_must_change = False\<rparr>, db)
      | VDisabled \<Rightarrow> (\<lparr>oc_result = LocalDisabled, oc_user = None, oc_must_change = False\<rparr>, db)
      | VWrong locked \<Rightarrow>
          (\<lparr>oc_result = (if locked = None then BadCredentials else LocalLocked), oc_user = None, oc_must_change = False\<rparr>,
           cred_record_failure (cr_identity r) locked db)
      | VRight \<Rightarrow>
          (\<lparr>oc_result = LocalSuccess, oc_user = Some (cr_user r), oc_must_change = cr_must_change r\<rparr>,
           (let db1 = cred_reset_failures (cr_identity r) db in
            if en_needs_rehash env (cr_hash r) then cred_update_hash (cr_identity r) (en_hash env password) db1 else db1)))"

definition authenticate :: "account_env \<Rightarrow> string \<Rightarrow> string \<Rightarrow> account_db \<Rightarrow> auth_outcome \<times> account_db" where
  "authenticate env username password db =
     (case get_by_username username db of
        None \<Rightarrow> (\<lparr>oc_result = BadCredentials, oc_user = None, oc_must_change = False\<rparr>, db)
      | Some r \<Rightarrow> carry_out env r password (judge env r password) db)"

definition set_password :: "account_env \<Rightarrow> uuid \<Rightarrow> string \<Rightarrow> string option \<Rightarrow> bool \<Rightarrow> account_db \<Rightarrow> (policy_reason list, account_db) res" where
  "set_password env i pw username must_change db =
     (let reasons = policy_reasons env pw username in
      if reasons \<noteq> [] then Inl reasons else Inr (cred_set_password env i (en_hash env pw) must_change db))"

section \<open>Time-based codes\<close>

text \<open>
  \<^verbatim>\<open>verify_code\<close>. A code of digits that are not ASCII reaches \<^verbatim>\<open>hmac.compare_digest\<close>, which raises a \<^verbatim>\<open>TypeError\<close> for it unless every
  candidate step was skipped.
\<close>

definition ascii :: "string \<Rightarrow> bool" where
  "ascii s = list_all (\<lambda>c. ord_of c < 128) s"

fun match_step :: "(int \<Rightarrow> string) \<Rightarrow> string \<Rightarrow> int option \<Rightarrow> int list \<Rightarrow> (auth_error, int option) res" where
  "match_step code_at code last_step [] = Inr None"
| "match_step code_at code last_step (c # cs) =
     (if (case last_step of None \<Rightarrow> False | Some l \<Rightarrow> c \<le> l) then match_step code_at code last_step cs
      else if \<not> ascii code then Inl PyTypeError
      else if code_at c = code then Inr (Some c) else match_step code_at code last_step cs)"

definition verify_code :: "account_env \<Rightarrow> string \<Rightarrow> string \<Rightarrow> int option \<Rightarrow> (auth_error, int option) res" where
  "verify_code env secret raw last_step =
     (let code = filter (\<lambda>c. c \<noteq> CHR '' '') (py_strip raw); step = en_now env div 30000000 in
      if code = [] \<or> \<not> list_all is_digit_char code then Inr None
      else match_step (en_totp env secret) code last_step [step - 1, step, step + 1])"

definition hash_recovery_code :: "account_env \<Rightarrow> string \<Rightarrow> string" where
  "hash_recovery_code env code = en_sha env (py_lower (py_strip code))"

definition totp_row_at :: "uuid \<Rightarrow> account_db \<Rightarrow> totp_row option" where
  "totp_row_at i db = find_first (\<lambda>t. tt_identity t = i) (ad_totp db)"

definition totp_active :: "uuid \<Rightarrow> account_db \<Rightarrow> bool" where
  "totp_active i db = (case totp_row_at i db of None \<Rightarrow> False | Some t \<Rightarrow> tt_activated t)"

text \<open>The recovery codes of an enrolment are unique per identity (a constraint of the table).\<close>

definition start_enrolment :: "uuid \<Rightarrow> string \<Rightarrow> string list \<Rightarrow> account_db \<Rightarrow> (auth_error, account_db) res" where
  "start_enrolment i secret hashes db =
     (if \<not> distinct hashes then Inl DuplicateKey
      else Inr (db\<lparr>ad_totp := (if i \<in> tt_identity ` set (ad_totp db)
           then map (\<lambda>t. if tt_identity t = i then t\<lparr>tt_secret := secret, tt_activated := False, tt_last_step := None\<rparr> else t) (ad_totp db)
           else ad_totp db @ [\<lparr>tt_identity = i, tt_secret = secret, tt_activated = False, tt_last_step = None\<rparr>]),
         ad_recovery := filter (\<lambda>r. rc_identity r \<noteq> i) (ad_recovery db) @ map (\<lambda>h. \<lparr>rc_identity = i, rc_hash = h, rc_used = None\<rparr>) hashes\<rparr>))"

definition totp_record_step :: "uuid \<Rightarrow> int \<Rightarrow> account_db \<Rightarrow> account_db" where
  "totp_record_step i s db = db\<lparr>ad_totp := map (\<lambda>t. if tt_identity t = i then t\<lparr>tt_last_step := Some s\<rparr> else t) (ad_totp db)\<rparr>"

definition activate_row :: "uuid \<Rightarrow> int \<Rightarrow> account_db \<Rightarrow> account_db" where
  "activate_row i s db =
     db\<lparr>ad_totp := map (\<lambda>t. if tt_identity t = i then t\<lparr>tt_activated := True, tt_last_step := Some s\<rparr> else t) (ad_totp db)\<rparr>"

definition consume_recovery :: "account_env \<Rightarrow> uuid \<Rightarrow> string \<Rightarrow> account_db \<Rightarrow> bool \<times> account_db" where
  "consume_recovery env i h db =
     (if \<exists>r\<in>set (ad_recovery db). rc_identity r = i \<and> rc_hash r = h \<and> rc_used r = None
      then (True, db\<lparr>ad_recovery := map (\<lambda>r. if rc_identity r = i \<and> rc_hash r = h \<and> rc_used r = None
              then r\<lparr>rc_used := Some (en_now env)\<rparr> else r) (ad_recovery db)\<rparr>)
      else (False, db))"

definition totp_disable :: "uuid \<Rightarrow> account_db \<Rightarrow> account_db" where
  "totp_disable i db = db\<lparr>ad_totp := filter (\<lambda>t. tt_identity t \<noteq> i) (ad_totp db),
     ad_recovery := filter (\<lambda>r. rc_identity r \<noteq> i) (ad_recovery db)\<rparr>"

definition begin_enrolment :: "account_env \<Rightarrow> uuid \<Rightarrow> account_db \<Rightarrow> (auth_error, account_db) res" where
  "begin_enrolment env i db =
     (case en_encrypt env (en_new_secret env) of
        None \<Rightarrow> Inl CryptoUnavailable
      | Some c \<Rightarrow> start_enrolment i c (map (hash_recovery_code env) (en_new_codes env)) db)"

definition totp_activate :: "account_env \<Rightarrow> uuid \<Rightarrow> string \<Rightarrow> account_db \<Rightarrow> (auth_error, bool \<times> account_db) res" where
  "totp_activate env i code db =
     (case totp_row_at i db of
        None \<Rightarrow> Inr (False, db)
      | Some t \<Rightarrow>
          if tt_activated t then Inr (False, db)
          else (case en_decrypt env (tt_secret t) of
                  None \<Rightarrow> Inl CryptoUnavailable
                | Some secret \<Rightarrow>
                    bind_res (verify_code env secret code None) (\<lambda>m.
                      Inr (case m of None \<Rightarrow> (False, db) | Some s \<Rightarrow> (True, activate_row i s db)))))"

datatype challenge_result = ChallengeOk | ChallengeBad | RecoveryUsed

definition totp_challenge :: "account_env \<Rightarrow> uuid \<Rightarrow> string \<Rightarrow> account_db \<Rightarrow> (auth_error, challenge_result \<times> account_db) res" where
  "totp_challenge env i code db =
     (case totp_row_at i db of
        None \<Rightarrow> Inr (ChallengeBad, db)
      | Some t \<Rightarrow>
          if \<not> tt_activated t then Inr (ChallengeBad, db)
          else (case en_decrypt env (tt_secret t) of
                  None \<Rightarrow> Inl CryptoUnavailable
                | Some secret \<Rightarrow>
                    bind_res (verify_code env secret code (tt_last_step t)) (\<lambda>m.
                      Inr (case m of
                             Some s \<Rightarrow> (ChallengeOk, totp_record_step i s db)
                           | None \<Rightarrow> (case consume_recovery env i (hash_recovery_code env code) db of
                                       (used, db') \<Rightarrow> (if used then RecoveryUsed else ChallengeBad, db'))))))"

section \<open>Sessions and access tokens\<close>

record issued_tokens =
  it_access :: string
  it_refresh :: string
  it_session :: uuid

definition issue_access_token :: "account_env \<Rightarrow> uuid \<Rightarrow> uuid \<Rightarrow> string" where
  "issue_access_token env u s =
     en_jwt_encode env [(''sub'', PStr (en_uuid env u)), (''sid'', PStr (en_uuid env s)), (''typ'', PStr ''access''),
       (''iat'', PInt (en_now env div 1000000)), (''exp'', PInt ((en_now env + en_access_ttl env * 1000000) div 1000000))]"

text \<open>A claim that is not a string makes \<^verbatim>\<open>uuid.UUID\<close> raise an error that is not caught.\<close>

definition claim_uuid :: "account_env \<Rightarrow> pydict \<Rightarrow> string \<Rightarrow> (auth_error, uuid) res" where
  "claim_uuid env payload key =
     (case map_of payload key of
        None \<Rightarrow> Inl (Unauthorized ''malformed claims'')
      | Some (PStr s) \<Rightarrow> (case en_parse env s of None \<Rightarrow> Inl (Unauthorized ''malformed claims'') | Some u \<Rightarrow> Inr u)
      | Some _ \<Rightarrow> Inl PyTypeError)"

definition decode_access_token :: "account_env \<Rightarrow> string \<Rightarrow> (auth_error, uuid \<times> uuid) res" where
  "decode_access_token env token =
     (case en_jwt_decode env token of
        None \<Rightarrow> Inl (Unauthorized ''invalid or expired token'')
      | Some payload \<Rightarrow>
          if dict_get payload ''typ'' \<noteq> PStr ''access'' then Inl (Unauthorized ''not an access token'')
          else bind_res (claim_uuid env payload ''sub'') (\<lambda>u. bind_res (claim_uuid env payload ''sid'') (\<lambda>s. Inr (u, s))))"

definition session_create ::
  "account_env \<Rightarrow> uuid \<Rightarrow> string \<Rightarrow> instant \<Rightarrow> string option \<Rightarrow> string option \<Rightarrow> string option \<Rightarrow> bool \<Rightarrow> account_db \<Rightarrow> (auth_error, uuid \<times> account_db) res" where
  "session_create env u refresh expires client workplace agent mfa db =
     (if refresh \<in> se_refresh ` set (ad_sessions db) then Inl DuplicateKey
      else Inr (ad_next db, db\<lparr>ad_sessions := ad_sessions db @ [\<lparr>se_id = ad_next db, se_user = u, se_refresh = refresh, se_created = en_now env,
             se_last_used = en_now env, se_expires = expires, se_revoked = None, se_client = client, se_workplace = workplace,
             se_agent = agent, se_mfa = (if mfa then Some (en_now env) else None)\<rparr>], ad_next := Suc (ad_next db)\<rparr>))"

definition live_session :: "(session_row \<Rightarrow> bool) \<Rightarrow> account_db \<Rightarrow> session_row option" where
  "live_session p db = find_first (\<lambda>s. p s \<and> se_revoked s = None) (ad_sessions db)"

definition get_active_by_refresh :: "string \<Rightarrow> account_db \<Rightarrow> session_row option" where
  "get_active_by_refresh h db = live_session (\<lambda>s. se_refresh s = h) db"

definition get_active :: "uuid \<Rightarrow> account_db \<Rightarrow> session_row option" where
  "get_active i db = live_session (\<lambda>s. se_id s = i) db"

definition update_sessions :: "(session_row \<Rightarrow> bool) \<Rightarrow> (session_row \<Rightarrow> session_row) \<Rightarrow> account_db \<Rightarrow> account_db" where
  "update_sessions p f db = db\<lparr>ad_sessions := map (\<lambda>s. if p s then f s else s) (ad_sessions db)\<rparr>"

definition session_touch :: "account_env \<Rightarrow> uuid \<Rightarrow> account_db \<Rightarrow> account_db" where
  "session_touch env i = update_sessions (\<lambda>s. se_id s = i) (\<lambda>s. s\<lparr>se_last_used := en_now env\<rparr>)"

definition mark_mfa_verified :: "account_env \<Rightarrow> uuid \<Rightarrow> account_db \<Rightarrow> account_db" where
  "mark_mfa_verified env i = update_sessions (\<lambda>s. se_id s = i) (\<lambda>s. s\<lparr>se_mfa := Some (en_now env)\<rparr>)"

definition revoke_where :: "account_env \<Rightarrow> (session_row \<Rightarrow> bool) \<Rightarrow> account_db \<Rightarrow> nat \<times> account_db" where
  "revoke_where env p db =
     (length (filter (\<lambda>s. p s \<and> se_revoked s = None) (ad_sessions db)),
      update_sessions (\<lambda>s. p s \<and> se_revoked s = None) (\<lambda>s. s\<lparr>se_revoked := Some (en_now env)\<rparr>) db)"

definition revoke_session :: "account_env \<Rightarrow> uuid \<Rightarrow> account_db \<Rightarrow> account_db" where
  "revoke_session env i db = snd (revoke_where env (\<lambda>s. se_id s = i) db)"

definition revoke_by_refresh :: "account_env \<Rightarrow> string \<Rightarrow> account_db \<Rightarrow> account_db" where
  "revoke_by_refresh env token db = snd (revoke_where env (\<lambda>s. se_refresh s = en_sha env token) db)"

definition revoke_all_for_user :: "account_env \<Rightarrow> uuid \<Rightarrow> account_db \<Rightarrow> nat \<times> account_db" where
  "revoke_all_for_user env u db = revoke_where env (\<lambda>s. se_user s = u) db"

definition session_start ::
  "account_env \<Rightarrow> uuid \<Rightarrow> string option \<Rightarrow> string option \<Rightarrow> string option \<Rightarrow> bool \<Rightarrow> account_db \<Rightarrow> (auth_error, issued_tokens \<times> account_db) res" where
  "session_start env u client workplace agent mfa db =
     bind_res (session_create env u (en_sha env (en_new_refresh env)) (en_now env + en_refresh_ttl env * 1000000) client workplace agent mfa db)
       (\<lambda>(s, db'). Inr (\<lparr>it_access = issue_access_token env u s, it_refresh = en_new_refresh env, it_session = s\<rparr>, db'))"

definition session_refresh :: "account_env \<Rightarrow> string \<Rightarrow> account_db \<Rightarrow> (auth_error, (string \<times> uuid) \<times> account_db) res" where
  "session_refresh env token db =
     (case get_active_by_refresh (en_sha env token) db of
        None \<Rightarrow> Inl (Unauthorized ''refresh token is invalid or expired'')
      | Some s \<Rightarrow>
          if se_expires s \<le> en_now env then Inl (Unauthorized ''refresh token is invalid or expired'')
          else Inr ((issue_access_token env (se_user s) (se_id s), se_id s), session_touch env (se_id s) db))"

definition session_is_active :: "account_env \<Rightarrow> uuid \<Rightarrow> account_db \<Rightarrow> bool" where
  "session_is_active env i db = (case get_active i db of None \<Rightarrow> False | Some s \<Rightarrow> en_now env < se_expires s)"

text \<open>A request is authenticated by the bearer token of its header or, without one, by the access cookie.\<close>

record web_request =
  wr_authorization :: "string option"
  wr_access :: "string option"
  wr_refresh :: "string option"
  wr_client :: "string option"
  wr_workplace :: "string option"
  wr_agent :: "string option"

definition bearer_or_cookie :: "web_request \<Rightarrow> string option" where
  "bearer_or_cookie q =
     (case wr_authorization q of
        Some a \<Rightarrow> if str_starts (py_lower a) ''bearer '' then Some (py_strip (drop 7 a)) else wr_access q
      | None \<Rightarrow> wr_access q)"

definition current_auth :: "account_env \<Rightarrow> web_request \<Rightarrow> account_db \<Rightarrow> (auth_error, uuid \<times> uuid) res" where
  "current_auth env q db =
     (case bearer_or_cookie q of
        None \<Rightarrow> Inl (Unauthorized ''authentication required'')
      | Some [] \<Rightarrow> Inl (Unauthorized ''authentication required'')
      | Some token \<Rightarrow>
          bind_res (decode_access_token env token) (\<lambda>(u, s).
            if session_is_active env s db then Inr (u, s) else Inl (Unauthorized ''session is no longer active'')))"

section \<open>A second factor is used once\<close>

datatype totp_call = CallChallenge string | CallActivate string | CallEnrol | CallDisable

datatype factor_use = StepUsed int | CodeUsed string

fun totp_do :: "account_env \<times> uuid \<times> totp_call \<Rightarrow> account_db \<Rightarrow> account_db" where
  "totp_do (env, i, CallChallenge code) db = (case totp_challenge env i code db of Inl _ \<Rightarrow> db | Inr (_, db') \<Rightarrow> db')"
| "totp_do (env, i, CallActivate code) db = (case totp_activate env i code db of Inl _ \<Rightarrow> db | Inr (_, db') \<Rightarrow> db')"
| "totp_do (env, i, CallEnrol) db = (case begin_enrolment env i db of Inl _ \<Rightarrow> db | Inr db' \<Rightarrow> db')"
| "totp_do (env, i, CallDisable) db = totp_disable i db"

text \<open>
  What a code was accepted for: a challenge for the time step it recorded or the recovery code it consumed, an activation for the time step
  its code stands for, whether or not that step is recorded.
\<close>

definition code_step :: "account_env \<Rightarrow> uuid \<Rightarrow> string \<Rightarrow> account_db \<Rightarrow> int option" where
  "code_step env i code db =
     (case totp_row_at i db of
        None \<Rightarrow> None
      | Some t \<Rightarrow> (case en_decrypt env (tt_secret t) of
                    None \<Rightarrow> None
                  | Some secret \<Rightarrow> (case verify_code env secret code None of Inl _ \<Rightarrow> None | Inr m \<Rightarrow> m)))"

fun uses :: "uuid \<Rightarrow> account_env \<times> uuid \<times> totp_call \<Rightarrow> account_db \<Rightarrow> factor_use list" where
  "uses i (env, j, CallChallenge code) db =
     (if i \<noteq> j then []
      else (case totp_challenge env j code db of
              Inr (ChallengeOk, db') \<Rightarrow> (case totp_row_at j db' of Some t \<Rightarrow> (case tt_last_step t of Some s \<Rightarrow> [StepUsed s] | None \<Rightarrow> []) | None \<Rightarrow> [])
            | Inr (RecoveryUsed, _) \<Rightarrow> [CodeUsed (hash_recovery_code env code)]
            | _ \<Rightarrow> []))"
| "uses i (env, j, CallActivate code) db =
     (if i \<noteq> j then []
      else (case totp_activate env j code db of
              Inr (True, _) \<Rightarrow> (case code_step env j code db of Some s \<Rightarrow> [StepUsed s] | None \<Rightarrow> [])
            | _ \<Rightarrow> []))"
| "uses i _ db = []"

text \<open>A call that gives the account a new secret or takes its factor away starts a new enrolment: uses are numbered by enrolment.\<close>

fun renews :: "uuid \<Rightarrow> account_env \<times> uuid \<times> totp_call \<Rightarrow> account_db \<Rightarrow> bool" where
  "renews i (env, j, CallEnrol) db = (i = j \<and> (case begin_enrolment env j db of Inl _ \<Rightarrow> False | Inr _ \<Rightarrow> True))"
| "renews i (env, j, CallDisable) db = (i = j)"
| "renews i _ db = False"

fun all_uses :: "uuid \<Rightarrow> nat \<Rightarrow> (account_env \<times> uuid \<times> totp_call) list \<Rightarrow> account_db \<Rightarrow> (nat \<times> factor_use) list" where
  "all_uses i e [] db = []"
| "all_uses i e (c # cs) db =
     map (Pair e) (uses i c db) @ all_uses i (if renews i c db then Suc e else e) cs (totp_do c db)"

definition uses_in :: "nat \<Rightarrow> (nat \<times> factor_use) list \<Rightarrow> factor_use list" where
  "uses_in e us = map snd (filter (\<lambda>p. fst p = e) us)"

fun steps_of :: "factor_use list \<Rightarrow> int list" where
  "steps_of [] = []"
| "steps_of (StepUsed s # us) = s # steps_of us"
| "steps_of (CodeUsed _ # us) = steps_of us"

fun codes_of :: "factor_use list \<Rightarrow> string list" where
  "codes_of [] = []"
| "codes_of (StepUsed _ # us) = codes_of us"
| "codes_of (CodeUsed h # us) = h # codes_of us"

lemma match_step_later: "match_step f code last_step cs = Inr (Some s) \<Longrightarrow> (case last_step of None \<Rightarrow> True | Some l \<Rightarrow> l < s)"
  by (induction cs) (auto split: if_splits option.splits)

lemma verify_code_later: "verify_code env secret code last_step = Inr (Some s) \<Longrightarrow> (case last_step of None \<Rightarrow> True | Some l \<Rightarrow> l < s)"
  unfolding verify_code_def Let_def by (simp del: match_step.simps split: if_splits) (erule match_step_later)

lemma find_first_map:
  assumes "\<And>x. p (f x) = p x"
  shows "find_first p (map f xs) = map_option f (find_first p xs)"
  using assms by (induction xs) (simp_all add: find_first_def)

lemma totp_row_totp_record_step: "totp_row_at i (totp_record_step j s db) =
    map_option (\<lambda>t. if i = j then t\<lparr>tt_last_step := Some s\<rparr> else t) (totp_row_at i db)"
proof -
  have "find_first (\<lambda>t. tt_identity t = i) (map (\<lambda>t. if tt_identity t = j then t\<lparr>tt_last_step := Some s\<rparr> else t) (ad_totp db)) =
      map_option (\<lambda>t. if tt_identity t = j then t\<lparr>tt_last_step := Some s\<rparr> else t) (find_first (\<lambda>t. tt_identity t = i) (ad_totp db))"
    by (rule find_first_map) simp
  then show ?thesis
    by (auto simp: totp_row_at_def totp_record_step_def dest: find_first_Some intro!: option.map_cong)
qed

lemma totp_row_activate: "totp_row_at i (activate_row j s db) =
    map_option (\<lambda>t. if i = j then t\<lparr>tt_activated := True, tt_last_step := Some s\<rparr> else t) (totp_row_at i db)"
proof -
  have "find_first (\<lambda>t. tt_identity t = i) (map (\<lambda>t. if tt_identity t = j then t\<lparr>tt_activated := True, tt_last_step := Some s\<rparr> else t) (ad_totp db)) =
      map_option (\<lambda>t. if tt_identity t = j then t\<lparr>tt_activated := True, tt_last_step := Some s\<rparr> else t) (find_first (\<lambda>t. tt_identity t = i) (ad_totp db))"
    by (rule find_first_map) simp
  then show ?thesis
    by (auto simp: totp_row_at_def activate_row_def dest: find_first_Some intro!: option.map_cong)
qed

text \<open>What a challenge that is accepted for a step or for a code did.\<close>

lemma challenge_cases:
  assumes "totp_challenge env i code db = Inr (r, db')"
  obtains "r = ChallengeBad" "db' = db"
  | t s where "r = ChallengeOk" "totp_row_at i db = Some t" "tt_activated t" "case tt_last_step t of None \<Rightarrow> True | Some l \<Rightarrow> l < s"
      "db' = totp_record_step i s db"
  | t where "r = RecoveryUsed" "totp_row_at i db = Some t" "tt_activated t"
      "consume_recovery env i (hash_recovery_code env code) db = (True, db')"
proof (cases "totp_row_at i db")
  case None
  then show ?thesis using assms that(1) by (simp add: totp_challenge_def)
next
  case (Some t)
  show ?thesis
  proof (cases "tt_activated t")
    case False
    then show ?thesis using assms Some that(1) by (simp add: totp_challenge_def)
  next
    case True
    then obtain secret m where v: "verify_code env secret code (tt_last_step t) = Inr m"
      and eq: "(r, db') = (case m of Some s \<Rightarrow> (ChallengeOk, totp_record_step i s db)
        | None \<Rightarrow> (case consume_recovery env i (hash_recovery_code env code) db of (used, d) \<Rightarrow> (if used then RecoveryUsed else ChallengeBad, d)))"
      using assms Some by (auto simp: totp_challenge_def bind_res_Inr split: option.splits)
    show ?thesis
    proof (cases m)
      case None
      then show ?thesis using eq that(1,3) Some True by (auto simp: consume_recovery_def split: if_splits)
    next
      case (Some s)
      then have "case tt_last_step t of None \<Rightarrow> True | Some l \<Rightarrow> l < s" using v verify_code_later by blast
      then show ?thesis using eq Some that(2) \<open>totp_row_at i db = Some t\<close> True by simp
    qed
  qed
qed

lemma activate_cases:
  assumes "totp_activate env i code db = Inr (b, db')"
  obtains "\<not> b" "db' = db"
  | t s where "b" "totp_row_at i db = Some t" "\<not> tt_activated t" "code_step env i code db = Some s" "db' = activate_row i s db"
  using assms by (auto simp: totp_activate_def code_step_def bind_res_Inr split: option.splits if_splits)

text \<open>The step below which nothing is accepted any more, and the codes that are still good.\<close>

definition step_floor :: "uuid \<Rightarrow> account_db \<Rightarrow> int option" where
  "step_floor i db = (case totp_row_at i db of Some t \<Rightarrow> if tt_activated t then tt_last_step t else None | None \<Rightarrow> None)"

definition good_codes :: "uuid \<Rightarrow> account_db \<Rightarrow> string set" where
  "good_codes i db = rc_hash ` {r \<in> set (ad_recovery db). rc_identity r = i \<and> rc_used r = None}"

definition above_floor :: "int option \<Rightarrow> int \<Rightarrow> bool" where
  "above_floor l s = (case l of None \<Rightarrow> True | Some x \<Rightarrow> x < s)"

lemma good_codes_consume:
  assumes "consume_recovery env j h db = (b, db')"
  shows "good_codes i db' = (if i = j then good_codes i db - {h} else good_codes i db)" "b \<Longrightarrow> h \<in> good_codes j db"
    "totp_row_at i db' = totp_row_at i db"
  using assms by (auto simp: consume_recovery_def good_codes_def totp_row_at_def image_iff split: if_splits)

lemma totp_frames [simp]:
  "good_codes i (totp_record_step j s db) = good_codes i db" "good_codes i (activate_row j s db) = good_codes i db"
  by (simp_all add: good_codes_def totp_record_step_def activate_row_def)

lemma step_floor_frames:
  "i \<noteq> j \<Longrightarrow> step_floor i (totp_record_step j s db) = step_floor i db"
  "i \<noteq> j \<Longrightarrow> step_floor i (activate_row j s db) = step_floor i db"
  "totp_row_at j db = Some t \<Longrightarrow> tt_activated t \<Longrightarrow> step_floor j (totp_record_step j s db) = Some s"
  by (auto simp: step_floor_def totp_row_totp_record_step totp_row_activate split: option.split)

text \<open>One call: what it uses was above the floor or a good code, and afterwards no longer is; no call but a renewal lowers either.\<close>

definition later :: "uuid \<Rightarrow> account_db \<Rightarrow> account_db \<Rightarrow> bool" where
  "later i db db' \<longleftrightarrow> (\<forall>s. above_floor (step_floor i db') s \<longrightarrow> above_floor (step_floor i db) s) \<and> good_codes i db' \<subseteq> good_codes i db"

definition used_up :: "uuid \<Rightarrow> account_db \<Rightarrow> account_db \<Rightarrow> factor_use list \<Rightarrow> bool" where
  "used_up i db db' us \<longleftrightarrow>
     us = [] \<or> (\<exists>s. us = [StepUsed s] \<and> above_floor (step_floor i db) s \<and> step_floor i db' = Some s) \<or>
     (\<exists>h. us = [CodeUsed h] \<and> h \<in> good_codes i db \<and> h \<notin> good_codes i db')"

lemma later_refl [simp]: "later i db db"
  by (simp add: later_def)

lemma challenge_step_uses:
  assumes "totp_row_at j db = Some t" "tt_activated t" "above_floor (tt_last_step t) s"
  shows "later i db (totp_record_step j s db)" "i = j \<Longrightarrow> above_floor (step_floor i db) s \<and> step_floor i (totp_record_step j s db) = Some s"
proof -
  show 1: "i = j \<Longrightarrow> above_floor (step_floor i db) s \<and> step_floor i (totp_record_step j s db) = Some s"
    using assms step_floor_frames(3) by (simp add: step_floor_def)
  show "later i db (totp_record_step j s db)"
  proof (cases "i = j")
    case True
    then show ?thesis using 1 by (auto simp: later_def above_floor_def split: option.splits)
  next
    case False
    then show ?thesis by (simp add: later_def step_floor_frames)
  qed
qed

lemma challenge_uses: "later i db (totp_do (env, j, CallChallenge code) db) \<and>
    used_up i db (totp_do (env, j, CallChallenge code) db) (uses i (env, j, CallChallenge code) db)"
proof (cases "totp_challenge env j code db")
  case (Inl e)
  then show ?thesis by (simp add: used_up_def)
next
  case (Inr p)
  obtain r db' where p: "p = (r, db')" by (cases p)
  then have do: "totp_do (env, j, CallChallenge code) db = db'" using Inr by simp
  show ?thesis unfolding do
  proof (rule challenge_cases [OF Inr [unfolded p]])
    assume "r = ChallengeBad" "db' = db"
    then show "later i db db' \<and> used_up i db db' (uses i (env, j, CallChallenge code) db)"
      using Inr p by (simp add: used_up_def)
  next
    fix t s
    assume r: "r = ChallengeOk" "totp_row_at j db = Some t" "tt_activated t" "case tt_last_step t of None \<Rightarrow> True | Some l \<Rightarrow> l < s"
      "db' = totp_record_step j s db"
    have "uses i (env, j, CallChallenge code) db = (if i = j then [StepUsed s] else [])"
      using Inr p r by (simp add: totp_row_totp_record_step)
    then show "later i db db' \<and> used_up i db db' (uses i (env, j, CallChallenge code) db)"
      using challenge_step_uses [OF r(2,3)] r(4,5) by (simp add: used_up_def above_floor_def)
  next
    fix t
    assume r: "r = RecoveryUsed" "consume_recovery env j (hash_recovery_code env code) db = (True, db')"
    have "step_floor i db' = step_floor i db" by (simp add: step_floor_def good_codes_consume(3) [OF r(2)])
    then show "later i db db' \<and> used_up i db db' (uses i (env, j, CallChallenge code) db)"
      using Inr p r(1) good_codes_consume(1,2) [OF r(2)] by (auto simp: later_def used_up_def)
  qed
qed

lemma activate_uses: "later i db (totp_do (env, j, CallActivate code) db) \<and>
    used_up i db (totp_do (env, j, CallActivate code) db) (uses i (env, j, CallActivate code) db)"
proof (cases "totp_activate env j code db")
  case (Inl e)
  then show ?thesis by (simp add: used_up_def)
next
  case (Inr p)
  obtain b db' where p: "p = (b, db')" by (cases p)
  then have do: "totp_do (env, j, CallActivate code) db = db'" using Inr by simp
  show ?thesis unfolding do
  proof (rule activate_cases [OF Inr [unfolded p]])
    assume "\<not> b" "db' = db"
    then show "later i db db' \<and> used_up i db db' (uses i (env, j, CallActivate code) db)"
      using Inr p by (simp add: used_up_def)
  next
    fix t s
    assume t: "b" "totp_row_at j db = Some t" "\<not> tt_activated t" "code_step env j code db = Some s" "db' = activate_row j s db"
    have u: "uses i (env, j, CallActivate code) db = (if i = j then [StepUsed s] else [])" using Inr p t by simp
    have "later i db db' \<and> used_up i db db' (if i = j then [StepUsed s] else [])"
    proof (cases "i = j")
      case True
      then show ?thesis
        using t by (simp add: later_def used_up_def above_floor_def step_floor_def totp_row_activate)
    next
      case False
      then show ?thesis using t by (simp add: later_def used_up_def step_floor_frames)
    qed
    then show "later i db db' \<and> used_up i db db' (uses i (env, j, CallActivate code) db)" unfolding u .
  qed
qed

lemma renewal_later:
  assumes "i \<noteq> j"
  shows "later i db (totp_do (env, j, CallEnrol) db)" "later i db (totp_do (env, j, CallDisable) db)"
proof -
  have "totp_row_at i db' = totp_row_at i db \<and> good_codes i db' = good_codes i db" if "start_enrolment j sec hs db = Inr db'" for sec hs db'
  proof -
    define f :: "totp_row \<Rightarrow> totp_row" where "f = (\<lambda>t. t\<lparr>tt_secret := sec, tt_activated := False, tt_last_step := None\<rparr>)"
    define row where "row = \<lparr>tt_identity = j, tt_secret = sec, tt_activated = False, tt_last_step = None\<rparr>"
    have totp: "ad_totp db' \<in> {map (\<lambda>t. if tt_identity t = j then f t else t) (ad_totp db), ad_totp db @ [row]}"
      and codes: "ad_recovery db' = filter (\<lambda>r. rc_identity r \<noteq> j) (ad_recovery db) @ map (\<lambda>h. \<lparr>rc_identity = j, rc_hash = h, rc_used = None\<rparr>) hs"
      using that by (auto simp: start_enrolment_def f_def row_def split: if_splits)
    have "find_first (\<lambda>t. tt_identity t = i) (map (\<lambda>t. if tt_identity t = j then f t else t) xs) = find_first (\<lambda>t. tt_identity t = i) xs" for xs
      using assms by (induction xs) (auto simp: find_first_def f_def)
    moreover have "find_first (\<lambda>t. tt_identity t = i) (xs @ [row]) = find_first (\<lambda>t. tt_identity t = i) xs" for xs
      using assms by (induction xs) (auto simp: find_first_def row_def)
    ultimately show ?thesis using totp codes assms unfolding totp_row_at_def good_codes_def by auto
  qed
  then show "later i db (totp_do (env, j, CallEnrol) db)"
    by (auto simp: begin_enrolment_def later_def step_floor_def split: sum.split option.split)
  have "find_first (\<lambda>t. tt_identity t = i) (filter (\<lambda>t. tt_identity t \<noteq> j) xs) = find_first (\<lambda>t. tt_identity t = i) xs" for xs :: "totp_row list"
    using assms by (induction xs) (auto simp: find_first_def)
  then show "later i db (totp_do (env, j, CallDisable) db)"
    using assms by (auto simp: totp_disable_def later_def step_floor_def totp_row_at_def good_codes_def)
qed

lemma call_uses:
  assumes "\<not> renews i c db"
  shows "later i db (totp_do c db) \<and> used_up i db (totp_do c db) (uses i c db)"
proof -
  obtain env j k where c: "c = (env, j, k)" by (cases c)
  show ?thesis
  proof (cases k)
    case CallEnrol
    then have "i \<noteq> j \<or> totp_do c db = db" using assms c by (auto split: sum.splits)
    then show ?thesis using CallEnrol c renewal_later(1) by (fastforce simp: used_up_def)
  next
    case CallDisable
    then show ?thesis using assms c renewal_later(2) by (simp add: used_up_def)
  qed (simp_all only: c challenge_uses activate_uses)
qed

lemma renewal_uses_nothing: "renews i c db \<Longrightarrow> uses i c db = []"
  by (cases "(i, c, db)" rule: renews.cases) auto

lemma uses_in_simps [simp]:
  "uses_in e [] = []" "uses_in e (us @ vs) = uses_in e us @ uses_in e vs" "uses_in e (map (Pair e') ws) = (if e' = e then ws else [])"
  by (simp_all add: uses_in_def filter_map comp_def)

lemma uses_in_past: "e < e' \<Longrightarrow> uses_in e (all_uses i e' cs db) = []"
proof (induction cs arbitrary: e' db)
  case (Cons c cs)
  then show ?case by simp
qed simp

definition good_uses :: "uuid \<Rightarrow> account_db \<Rightarrow> factor_use list \<Rightarrow> bool" where
  "good_uses i db us \<longleftrightarrow> sorted_wrt (<) (steps_of us) \<and> distinct (codes_of us) \<and>
     list_all (above_floor (step_floor i db)) (steps_of us) \<and> set (codes_of us) \<subseteq> good_codes i db"

lemma good_uses_step:
  assumes "later i db db'" "used_up i db db' us" "good_uses i db' vs"
  shows "good_uses i db (us @ vs)"
proof -
  from assms(2) consider "us = []"
    | s where "us = [StepUsed s]" "above_floor (step_floor i db) s" "step_floor i db' = Some s"
    | h where "us = [CodeUsed h]" "h \<in> good_codes i db" "h \<notin> good_codes i db'"
    unfolding used_up_def by blast
  then show ?thesis
  proof cases
    case (2 s)
    then have "\<forall>s'\<in>set (steps_of vs). s < s'" using assms(3) by (simp add: good_uses_def list_all_iff above_floor_def)
    then show ?thesis using assms(1,3) 2 by (auto simp: good_uses_def later_def list_all_iff)
  qed (use assms(1,3) in \<open>auto simp: good_uses_def later_def list_all_iff\<close>)
qed

lemma all_uses_once:
  "good_uses i db (uses_in e (all_uses i e cs db)) \<and> (\<exists>db'. good_uses i db' (uses_in n (all_uses i e cs db)))"
proof (induction cs arbitrary: e db)
  case Nil
  then show ?case by (simp add: good_uses_def)
next
  case (Cons c cs)
  show ?case
  proof (cases "renews i c db")
    case True
    have "good_uses i db []" by (simp add: good_uses_def)
    then show ?thesis
      using Cons.IH [of "totp_do c db" "Suc e"] True by (simp add: renewal_uses_nothing uses_in_past)
  next
    case False
    then have step: "good_uses i db (uses i c db @ uses_in e (all_uses i e cs (totp_do c db)))"
      using good_uses_step call_uses Cons.IH by blast
    then show ?thesis
      using False Cons.IH [of "totp_do c db" e] by (cases "n = e") auto
  qed
qed

text \<open>
  C23. A second factor is good once per enrolment. In any sequence of challenges, activations, enrolments and removals of any accounts, take the
  codes accepted for an account between two renewals of its factor, the code that activated it included: their time steps strictly increase
  and no recovery code is accepted twice. Until the first renewal the steps are above the last step on record and the recovery codes
  are among the account's unused ones.
\<close>

theorem second_factor_single_use:
  "sorted_wrt (<) (steps_of (uses_in e (all_uses i 0 cs db))) \<and> distinct (codes_of (uses_in e (all_uses i 0 cs db))) \<and>
   list_all (above_floor (step_floor i db)) (steps_of (uses_in 0 (all_uses i 0 cs db))) \<and>
   set (codes_of (uses_in 0 (all_uses i 0 cs db))) \<subseteq> good_codes i db"
  using all_uses_once [of i db 0 cs e] all_uses_once [of i db 0 cs 0] by (auto simp: good_uses_def)

section \<open>Lockout\<close>

text \<open>The attempts of a sequence that reach the password comparison.\<close>

definition compared :: "account_env \<Rightarrow> string \<Rightarrow> string \<Rightarrow> account_db \<Rightarrow> bool" where
  "compared env username password db =
     (case get_by_username username db of None \<Rightarrow> False | Some r \<Rightarrow> judge env r password \<notin> {VLocked, VDisabled})"

fun compared_count :: "string \<Rightarrow> (account_env \<times> string) list \<Rightarrow> account_db \<Rightarrow> nat" where
  "compared_count u [] db = 0"
| "compared_count u ((env, pw) # as) db =
     (if compared env u pw db then 1 else 0) + compared_count u as (snd (authenticate env u pw db))"

fun all_wrong :: "string \<Rightarrow> (account_env \<times> string) list \<Rightarrow> account_db \<Rightarrow> bool" where
  "all_wrong u [] db = True"
| "all_wrong u ((env, pw) # as) db =
     ((case get_by_username u db of None \<Rightarrow> True | Some r \<Rightarrow> \<not> en_verify env (cr_hash r) pw) \<and> all_wrong u as (snd (authenticate env u pw db)))"

lemma find_cred_update: "(\<And>c. cd_identity (f c) = cd_identity c) \<Longrightarrow> find_cred i (update_cred i f db) = map_option f (find_cred i db)"
proof -
  assume f: "\<And>c. cd_identity (f c) = cd_identity c"
  have "find_first (\<lambda>c. cd_identity c = i) (map (\<lambda>c. if cd_identity c = i then f c else c) cs) =
      map_option f (find_first (\<lambda>c. cd_identity c = i) cs)" for cs
    using f by (induction cs) (auto simp: find_first_def)
  then show ?thesis by (simp add: find_cred_def update_cred_def)
qed

lemma record_after_failure:
  "get_by_username u db = Some r \<Longrightarrow>
   get_by_username u (cred_record_failure (cr_identity r) locked db) = Some (r\<lparr>cr_failed := cr_failed r + 1, cr_locked := locked\<rparr>)"
proof -
  assume r: "get_by_username u db = Some r"
  obtain a x c where a: "find_identity ''local'' u db = Some a" "find_user (ai_user a) db = Some x" "find_cred (ai_id a) db = Some c"
    "r = \<lparr>cr_user = us_id x, cr_identity = ai_id a, cr_hash = cd_hash c, cr_must_change = cd_must_change c,
       cr_failed = cd_failed c, cr_locked = cd_locked c, cr_active = us_active x\<rparr>"
    using r by (auto simp: get_by_username_def split: option.splits)
  have "find_cred (ai_id a) (cred_record_failure (ai_id a) locked db) = Some (c\<lparr>cd_failed := cd_failed c + 1, cd_locked := locked\<rparr>)"
    unfolding cred_record_failure_def by (subst find_cred_update) (simp_all add: a(3))
  moreover have "find_identity ''local'' u (cred_record_failure i l db) = find_identity ''local'' u db"
    "find_user v (cred_record_failure i l db) = find_user v db" for i l v
    by (simp_all add: find_identity_def find_user_def cred_record_failure_def update_cred_def)
  ultimately show ?thesis using a by (simp add: get_by_username_def)
qed

lemma compared_bound:
  assumes "list_all (\<lambda>(env, pw). en_max_failed env = n \<and> en_lockout env = w \<and> t0 \<le> en_now env \<and> en_now env < t0 + w * 1000000) as"
    and "all_wrong u as db" "get_by_username u db = Some r"
  shows "compared_count u as db \<le> (case cr_locked r of
    Some l \<Rightarrow> if t0 + w * 1000000 \<le> l then 0 else max 1 (n - cr_failed r) | None \<Rightarrow> max 1 (n - cr_failed r))"
  using assms
proof (induction as arbitrary: db r)
  case (Cons p as)
  obtain env pw where p: "p = (env, pw)" by (cases p)
  define horizon where "horizon = t0 + w * 1000000"
  have env: "en_max_failed env = n" "en_lockout env = w" "t0 \<le> en_now env" "en_now env < horizon"
    using Cons.prems(1) p by (auto simp: horizon_def)
  have wrong: "\<not> en_verify env (cr_hash r) pw" and rest: "all_wrong u as (snd (authenticate env u pw db))"
    using Cons.prems(2,3) p by auto
  have auth: "authenticate env u pw db = carry_out env r pw (judge env r pw) db" using Cons.prems(3) by (simp add: authenticate_def)
  show ?case
  proof (cases "judge env r pw \<in> {VLocked, VDisabled}")
    case True
    then have "snd (authenticate env u pw db) = db" using auth by (auto simp: carry_out_def)
    then show ?thesis
      using Cons.IH [of db r] Cons.prems rest True p by (simp add: compared_def)
  next
    case False
    define locked where "locked = (if n \<le> cr_failed r + 1 then Some (en_now env + w * 1000000) else None)"
    have nl: "case cr_locked r of None \<Rightarrow> True | Some l \<Rightarrow> l < horizon"
      using False env(4) by (auto simp: judge_def split: option.splits if_splits)
    have v: "judge env r pw = VWrong locked" using False wrong env by (auto simp: judge_def locked_def split: if_splits)
    define db' where "db' = snd (authenticate env u pw db)"
    have r': "get_by_username u db' = Some (r\<lparr>cr_failed := cr_failed r + 1, cr_locked := locked\<rparr>)"
      using record_after_failure [OF Cons.prems(3)] auth v by (simp add: db'_def carry_out_def)
    have "compared_count u as db' \<le> (case locked of Some l \<Rightarrow> if horizon \<le> l then 0 else max 1 (n - (cr_failed r + 1)) | None \<Rightarrow> max 1 (n - (cr_failed r + 1)))"
    proof -
      have "list_all (\<lambda>(env, pw). en_max_failed env = n \<and> en_lockout env = w \<and> t0 \<le> en_now env \<and> en_now env < t0 + w * 1000000) as"
        using Cons.prems(1) by (simp only: list.pred_inject)
      from Cons.IH [OF this rest [folded db'_def] r'] show ?thesis by (cases locked) (simp_all add: horizon_def split: if_splits)
    qed
    also have "\<dots> \<le> max 1 (n - cr_failed r) - 1" using env(3) by (auto simp: locked_def horizon_def)
    finally have "compared_count u (p # as) db \<le> max 1 (n - cr_failed r)" using p False Cons.prems(3) by (simp add: db'_def compared_def)
    then show ?thesis using nl by (auto simp: horizon_def split: option.splits)
  qed
qed simp

text \<open>
  C24. Lockout bounds the guesses of requests that run one after another. Take any sequence of wrong sign-ins for a name within one lockout
  period. With \<open>n\<close> the configured number and \<open>f\<close> the failures on record at its start, at most \<open>max 1 (n - f)\<close> of them reach the password
  comparison (an account whose lock has run out keeps its count and compares one more), and none does if the account is locked until
  the end of the period.
\<close>

theorem lockout_bounds_guesses:
  assumes "list_all (\<lambda>(env, pw). en_max_failed env = n \<and> en_lockout env = w \<and> t0 \<le> en_now env \<and> en_now env < t0 + w * 1000000) as"
    and "all_wrong u as db" "get_by_username u db = Some r"
  shows "compared_count u as db \<le> (case cr_locked r of
    Some l \<Rightarrow> if t0 + w * 1000000 \<le> l then 0 else max 1 (n - cr_failed r) | None \<Rightarrow> max 1 (n - cr_failed r))"
  using compared_bound [OF assms] .

text \<open>
  The bound is for requests one after another. Two requests that read the same record and write one after the other can undo a lock: the
  one that read the lower count writes \<open>None\<close> over the lock of the one that read the higher.
\<close>

theorem interleaved_failure_unlocks:
  assumes "get_by_username u db = Some r" "cr_failed r + 2 = en_max_failed env" "\<not> en_verify env (cr_hash r) pw" "cr_active r" "cr_locked r = None"
    and "en_max_failed env2 = en_max_failed env" "\<not> en_verify env2 (cr_hash r) pw2" "\<not> en_verify env2 (cr_hash r) pw3"
  shows "\<exists>r2 r3 db2 db3.
    \<comment> \<open>a first wrong attempt, then a second one that locks the account\<close>
    snd (authenticate env2 u pw2 db) = db2 \<and> get_by_username u db2 = Some r2 \<and>
    snd (authenticate env2 u pw3 db2) = db3 \<and> get_by_username u db3 = Some r3 \<and> cr_locked r3 \<noteq> None \<and>
    \<comment> \<open>a third request read the record before both and writes after them\<close>
    (\<exists>r4. get_by_username u (snd (carry_out env r pw (judge env r pw) db3)) = Some r4 \<and> cr_locked r4 = None)"
proof -
  have "judge env2 r pw2 = VWrong None" using assms by (simp add: judge_def)
  then have d2: "snd (authenticate env2 u pw2 db) = cred_record_failure (cr_identity r) None db"
    using assms(1) by (simp add: authenticate_def carry_out_def)
  define r2 where "r2 = r\<lparr>cr_failed := cr_failed r + 1, cr_locked := None\<rparr>"
  define db2 where "db2 = cred_record_failure (cr_identity r) None db"
  have r2: "get_by_username u db2 = Some r2" using record_after_failure [OF assms(1)] by (simp add: db2_def r2_def)
  define lock where "lock = Some (en_now env2 + en_lockout env2 * 1000000)"
  have "judge env2 r2 pw3 = VWrong lock" using assms by (simp add: judge_def r2_def lock_def)
  then have d3: "snd (authenticate env2 u pw3 db2) = cred_record_failure (cr_identity r2) lock db2"
    using r2 by (simp add: authenticate_def carry_out_def)
  define db3 where "db3 = cred_record_failure (cr_identity r2) lock db2"
  have r3: "get_by_username u db3 = Some (r2\<lparr>cr_failed := cr_failed r2 + 1, cr_locked := lock\<rparr>)"
    using record_after_failure [OF r2] by (simp add: db3_def)
  have "judge env r pw = VWrong None" using assms by (simp add: judge_def)
  moreover have "cr_identity r = cr_identity (r2\<lparr>cr_failed := cr_failed r2 + 1, cr_locked := lock\<rparr>)" by (simp add: r2_def)
  ultimately have "\<exists>r4. get_by_username u (snd (carry_out env r pw (judge env r pw) db3)) = Some r4 \<and> cr_locked r4 = None"
    using record_after_failure [OF r3, of None] by (simp add: carry_out_def)
  then show ?thesis using d2 d3 r2 r3 by (auto simp: db2_def db3_def lock_def)
qed

section \<open>Samples\<close>

definition sample_account_env :: account_env where
  "sample_account_env = \<lparr>en_now = 0, en_audit = sample_env, en_uuid = nat_str, en_parse = (\<lambda>s. if s = ''1'' then Some 1 else if s = ''7'' then Some 7 else None),
     en_max_failed = 3, en_lockout = 900, en_min_length = 12, en_min_classes = 3, en_access_ttl = 900, en_refresh_ttl = 604800,
     en_enforce_external = True, en_providers = [''ldap_ad''], en_hash = id, en_verify = (=), en_needs_rehash = (\<lambda>_. False), en_sha = id,
     en_encrypt = Some, en_decrypt = Some, en_totp = (\<lambda>s i. if i = 0 then ''000000'' else ''111111''), en_new_secret = ''s'',
     en_new_codes = [''aa'', ''bb''], en_new_refresh = ''r'', en_jwt_encode = (\<lambda>_. ''t''),
     en_jwt_decode = (\<lambda>s. if s = ''t'' then Some [(''sub'', PStr ''1''), (''sid'', PStr ''7''), (''typ'', PStr ''access'')] else None),
     en_added = (\<lambda>_ _. 0), en_sign = (\<lambda>bs. [length bs mod 256, 255])\<rparr>"

text \<open>One user with a local login, an active factor whose last step was 0, and an unused recovery code.\<close>

definition sample_accounts :: account_db where
  "sample_accounts = \<lparr>ad_users = [\<lparr>us_id = 1, us_name = ''Op'', us_active = True, us_external = None\<rparr>],
     ad_identities = [\<lparr>ai_id = 2, ai_user = 1, ai_provider = ''local'', ai_subject = ''op''\<rparr>],
     ad_creds = [\<lparr>cd_identity = 2, cd_hash = ''pw'', cd_must_change = False, cd_failed = 1, cd_locked = None, cd_changed = 0\<rparr>],
     ad_totp = [\<lparr>tt_identity = 2, tt_secret = ''s'', tt_activated = True, tt_last_step = Some 0\<rparr>],
     ad_recovery = [\<lparr>rc_identity = 2, rc_hash = ''aa'', rc_used = None\<rparr>],
     ad_sessions = [\<lparr>se_id = 7, se_user = 1, se_refresh = ''r7'', se_created = 0, se_last_used = 0, se_expires = 100, se_revoked = None,
       se_client = None, se_workplace = None, se_agent = None, se_mfa = None\<rparr>],
     ad_keys = [], ad_challenges = [], ad_flows = [], ad_mappings = [], ad_external = [], ad_policies = [],
     ad_rbac = \<lparr>rb_users = [1], rb_permissions = [], rb_roles = [], rb_groups = [], rb_role_permissions = [], rb_user_roles = [],
       rb_group_roles = [], rb_user_groups = [], rb_delegations = [], rb_audit = \<lparr>audit_events = [], audit_next_seq = 1\<rparr>, rb_next = 0\<rparr>,
     ad_next = 10\<rparr>"

text \<open>Codes of the first enrolment, a new one, its activation, and the activating code tried again at sign-in.\<close>

definition factor_calls :: "(account_env \<times> uuid \<times> totp_call) list" where
  "factor_calls = map (\<lambda>c. (sample_account_env, 2, c))
     [CallChallenge ''111111'', CallChallenge ''111111'', CallChallenge ''aa'', CallChallenge '' AA '', CallEnrol,
      CallActivate ''000000'', CallChallenge ''000000'', CallChallenge ''111111'', CallChallenge ''111111'', CallChallenge ''bb'']"

theorem second_factor_single_use_witness:
  "all_uses 2 0 factor_calls sample_accounts = [(0, StepUsed 1), (0, CodeUsed ''aa''), (1, StepUsed 0), (1, StepUsed 1), (1, CodeUsed ''bb'')]
    \<and> sorted_wrt (<) (steps_of (uses_in 1 (all_uses 2 0 factor_calls sample_accounts)))"
proof -
  have "all_uses 2 0 factor_calls sample_accounts = [(0, StepUsed 1), (0, CodeUsed ''aa''), (1, StepUsed 0), (1, StepUsed 1), (1, CodeUsed ''bb'')]"
    by code_simp
  then show ?thesis using second_factor_single_use [of 1 2 factor_calls sample_accounts] by blast
qed

definition guesses :: "(account_env \<times> string) list" where
  "guesses = map (\<lambda>g. (sample_account_env, g)) [''a'', ''b'', ''c'', ''d'']"

theorem lockout_bounds_guesses_witness:
  "map_option cr_failed (get_by_username ''op'' sample_accounts) = Some 1 \<and> compared_count ''op'' guesses sample_accounts \<le> 2"
proof -
  define r where "r = \<lparr>cr_user = 1, cr_identity = 2, cr_hash = ''pw'', cr_must_change = False, cr_failed = 1, cr_locked = None, cr_active = True\<rparr>"
  have r: "get_by_username ''op'' sample_accounts = Some r" unfolding r_def by code_simp
  moreover have "all_wrong ''op'' guesses sample_accounts" by code_simp
  moreover have "list_all (\<lambda>(env, pw). en_max_failed env = 3 \<and> en_lockout env = 900 \<and> 0 \<le> en_now env \<and> en_now env < 0 + 900 * 1000000) guesses"
    by (simp add: guesses_def sample_account_env_def)
  ultimately have "compared_count ''op'' guesses sample_accounts \<le> (case cr_locked r of
      Some l \<Rightarrow> if 0 + 900 * 1000000 \<le> l then 0 else max 1 (3 - cr_failed r) | None \<Rightarrow> max 1 (3 - cr_failed r))"
    using lockout_bounds_guesses by blast
  then show ?thesis using r by (simp add: r_def)
qed

end
