(* ===== verification/Csrf.thy ===== *)
theory Csrf
  imports Accounts
begin

text \<open>
  Cross-site request forgery: the session-bound double-submit token (\<^verbatim>\<open>auth/csrf.py\<close>) and the middleware that asks for it
  (\<^verbatim>\<open>api/csrf.py\<close>). The URL-safe base64 of the token and \<^verbatim>\<open>urlsplit\<close> are the standard library's; bytes are numbers below 256, a UUID is
  its 128-bit number.
\<close>

section \<open>URL-safe base64\<close>

definition B64_ALPHABET :: string where
  "B64_ALPHABET = ''ABCDEFGHIJKLMNOPQRSTUVWXYZabcdefghijklmnopqrstuvwxyz0123456789-_''"

definition b64_char :: "nat \<Rightarrow> char" where
  "b64_char i = B64_ALPHABET ! i"

fun sextets :: "nat list \<Rightarrow> nat list" where
  "sextets (a # b # c # xs) = [a div 4, a mod 4 * 16 + b div 16, b mod 16 * 4 + c div 64, c mod 64] @ sextets xs"
| "sextets [a, b] = [a div 4, a mod 4 * 16 + b div 16, b mod 16 * 4]"
| "sextets [a] = [a div 4, a mod 4 * 16]"
| "sextets [] = []"

definition b64 :: "nat list \<Rightarrow> string" where
  "b64 bs = map b64_char (sextets bs)"

text \<open>
  The decoder of the standard library: it accepts both alphabets, as \<^verbatim>\<open>urlsafe_b64decode\<close> maps one to the other, skips every other
  character, stops at a padding that completes a group, and raises when the input ends inside a group. The code appends the padding that
  the length of the text asks for.
\<close>

definition b64_value :: "char \<Rightarrow> nat option" where
  "b64_value c = (if c = CHR ''+'' then Some 62 else if c = CHR ''/'' then Some 63 else index_of (\<lambda>d. d = c) B64_ALPHABET)"

fun a2b :: "nat list \<Rightarrow> nat \<Rightarrow> string \<Rightarrow> nat list option" where
  "a2b vs pads [] = (if length vs mod 4 = 0 then Some vs else None)"
| "a2b vs pads (c # cs) =
     (if c = CHR ''=''
      then (if length vs mod 4 < 2 then a2b vs pads cs else if 4 \<le> length vs mod 4 + Suc pads then Some vs else a2b vs (Suc pads) cs)
      else (case b64_value c of None \<Rightarrow> a2b vs pads cs | Some v \<Rightarrow> a2b (vs @ [v]) 0 cs))"

fun bytes_of_sextets :: "nat list \<Rightarrow> nat list" where
  "bytes_of_sextets (p # q # r # s # xs) = [p * 4 + q div 16, q mod 16 * 16 + r div 4, r mod 4 * 64 + s] @ bytes_of_sextets xs"
| "bytes_of_sextets [p, q, r] = [p * 4 + q div 16, q mod 16 * 16 + r div 4]"
| "bytes_of_sextets [p, q] = [p * 4 + q div 16]"
| "bytes_of_sextets _ = []"

definition unb64 :: "string \<Rightarrow> nat list option" where
  "unb64 txt_value =
     (if \<not> ascii txt_value then None
      else map_option bytes_of_sextets (a2b [] 0 (txt_value @ replicate ((4 - length txt_value mod 4) mod 4) (CHR ''=''))))"

section \<open>The token\<close>

fun be_bytes :: "nat \<Rightarrow> nat \<Rightarrow> nat list" where
  "be_bytes 0 n = []"
| "be_bytes (Suc k) n = be_bytes k (n div 256) @ [n mod 256]"

definition uuid_bytes :: "uuid \<Rightarrow> nat list" where
  "uuid_bytes n = be_bytes 16 n"

definition uuid_of_bytes :: "nat list \<Rightarrow> uuid option" where
  "uuid_of_bytes bs = (if length bs = 16 then Some (foldl (\<lambda>acc b. acc * 256 + b) 0 bs) else None)"

definition issue_csrf_token :: "account_env \<Rightarrow> uuid \<Rightarrow> string" where
  "issue_csrf_token env s = b64 (uuid_bytes s) @ ''.'' @ b64 (en_sign env (uuid_bytes s))"

definition csrf_token_valid :: "account_env \<Rightarrow> string \<Rightarrow> uuid option \<Rightarrow> bool" where
  "csrf_token_valid env token session =
     (let sid_part = takeWhile (\<lambda>c. c \<noteq> CHR ''.'') token; rest = dropWhile (\<lambda>c. c \<noteq> CHR ''.'') token in
      rest \<noteq> [] \<and>
      (case (unb64 sid_part, unb64 (tl rest)) of
         (Some bs, Some signature) \<Rightarrow>
           (case uuid_of_bytes bs of
              None \<Rightarrow> False
            | Some sid \<Rightarrow> signature = en_sign env (uuid_bytes sid) \<and> (session = None \<or> session = Some sid))
       | _ \<Rightarrow> False))"

section \<open>Parsing a request\<close>

record http_scope =
  hs_method :: string
  hs_path :: string
  hs_root :: string
  hs_headers :: "(string \<times> string) list"

definition SAFE_METHODS :: "string list" where
  "SAFE_METHODS = [''GET'', ''HEAD'', ''OPTIONS'', ''TRACE'']"

definition py_upper_char :: "char \<Rightarrow> char" where
  "py_upper_char c = (let n = ord_of c in if 97 \<le> n \<and> n \<le> 122 then char_of (n - 32) else c)"

definition header_dict :: "(string \<times> string) list \<Rightarrow> (string \<times> string) list" where
  "header_dict hs = foldl (\<lambda>d (k, v). let key = py_lower k in
     dict_set key (case map_of d key of None \<Rightarrow> v | Some w \<Rightarrow> w @ '', '' @ v) d) [] hs"

fun split_at :: "char \<Rightarrow> string \<Rightarrow> string list" where
  "split_at sep [] = [[]]"
| "split_at sep (c # cs) = (if c = sep then [] # split_at sep cs else (case split_at sep cs of [] \<Rightarrow> [[c]] | p # ps \<Rightarrow> (c # p) # ps))"

definition cookie_dict :: "string \<Rightarrow> (string \<times> string) list" where
  "cookie_dict h = foldl (\<lambda>d chunk.
     let t = py_strip chunk; name = takeWhile (\<lambda>c. c \<noteq> CHR ''='') t; rest = dropWhile (\<lambda>c. c \<noteq> CHR ''='') t in
     if rest \<noteq> [] \<and> name \<noteq> [] \<and> map_of d name = None then d @ [(name, tl rest)] else d) [] (split_at (CHR '';'') h)"

text \<open>
  \<^verbatim>\<open>urlsplit\<close>: leading control characters and spaces are dropped, tabs and line breaks removed; the scheme ends at the first colon when it is
  made of the scheme characters and starts with a letter; the authority follows two slashes and ends at a slash, a question mark or a
  hash. \<open>None\<close> is the \<^verbatim>\<open>ValueError\<close> of unbalanced brackets.
\<close>

definition scheme_char :: "char \<Rightarrow> bool" where
  "scheme_char c = (let n = ord_of c in 97 \<le> n \<and> n \<le> 122 \<or> 65 \<le> n \<and> n \<le> 90 \<or> 48 \<le> n \<and> n \<le> 57 \<or> c \<in> set ''+-.'')"

definition url_parts :: "string \<Rightarrow> (string \<times> string) option" where
  "url_parts raw =
     (let url = filter (\<lambda>c. ord_of c \<notin> {9, 10, 13}) (dropWhile (\<lambda>c. ord_of c \<le> 32) raw);
          pre = takeWhile (\<lambda>c. c \<noteq> CHR '':'') url; rest = dropWhile (\<lambda>c. c \<noteq> CHR '':'') url;
          has = (rest \<noteq> [] \<and> pre \<noteq> [] \<and> list_all scheme_char pre \<and> (let n = ord_of (hd pre) in 97 \<le> n \<and> n \<le> 122 \<or> 65 \<le> n \<and> n \<le> 90));
          scheme = (if has then py_lower pre else []); body = (if has then tl rest else url);
          netloc = (if str_starts body ''//'' then takeWhile (\<lambda>c. c \<notin> set ''/?#'') (drop 2 body) else [])
      in if (CHR ''['' \<in> set netloc) \<noteq> (CHR '']'' \<in> set netloc) then None else Some (scheme, netloc))"

section \<open>The middleware\<close>

record csrf_settings =
  cs_enabled :: bool
  cs_origins :: "string list"

datatype reject_reason = OriginNotAllowed | TokenMissing | TokenMismatch | TokenInvalid

definition CSRF_COOKIE :: string where
  "CSRF_COOKIE = ''bbz_csrf''"

definition ACCESS_COOKIE :: string where
  "ACCESS_COOKIE = ''bbz_access''"

definition PROTECTED_PREFIX :: string where
  "PROTECTED_PREFIX = ''/api/v1''"

text \<open>The two exempt templates; \<^verbatim>\<open>$\<close> also matches before a final line break, and \<^verbatim>\<open>[^/]+\<close> takes any text without a slash.\<close>

definition is_token_exempt :: "string \<Rightarrow> bool" where
  "is_token_exempt path =
     (let p = ''/api/v1/auth/oidc/''; q = ''/callback''; t = (if path \<noteq> [] \<and> last path = CHR ''\<newline>'' then [path, butlast path] else [path]) in
      list_ex (\<lambda>s. s = ''/api/v1/auth/login'') t \<or>
      list_ex (\<lambda>s. str_starts s p \<and> length p + length q < length s \<and> drop (length s - length q) s = q \<and>
        CHR ''/'' \<notin> set (take (length s - length p - length q) (drop (length p) s))) t)"

definition csrf_guards :: "string \<Rightarrow> string \<Rightarrow> bool" where
  "csrf_guards verb path \<longleftrightarrow> map py_upper_char verb \<notin> set SAFE_METHODS \<and> str_starts path PROTECTED_PREFIX \<and> \<not> is_token_exempt path"

definition header_or :: "(string \<times> string) list \<Rightarrow> string \<Rightarrow> string" where
  "header_or hs k = (case map_of hs k of None \<Rightarrow> [] | Some v \<Rightarrow> v)"

definition referer_origin :: "string \<Rightarrow> string option" where
  "referer_origin r =
     (if r = [] then Some []
      else (case url_parts r of
              None \<Rightarrow> None
            | Some (scheme, netloc) \<Rightarrow> Some (if scheme \<noteq> [] \<and> netloc \<noteq> [] then scheme @ ''://'' @ netloc else [])))"

definition origin_allowed :: "csrf_settings \<Rightarrow> string \<Rightarrow> (string \<times> string) list \<Rightarrow> bool option" where
  "origin_allowed st origin hs =
     (if origin \<in> set (cs_origins st) then Some True
      else (case url_parts origin of
              None \<Rightarrow> None
            | Some (scheme, netloc) \<Rightarrow>
                if scheme \<notin> {''http'', ''https''} \<or> netloc = [] then Some False
                else (let fwd = py_strip (hd (split_at (CHR '','') (header_or hs ''x-forwarded-host'')));
                          host = (if fwd \<noteq> [] then fwd else header_or hs ''host'') in
                      Some (host \<noteq> [] \<and> netloc = host))))"

text \<open>
  The session of the access cookie. An expired or malformed token has none; the \<^verbatim>\<open>TypeError\<close> of a claim that is not a string is not a
  \<^verbatim>\<open>TokenError\<close> and leaves the middleware.
\<close>

definition cookie_session :: "account_env \<Rightarrow> (string \<times> string) list \<Rightarrow> (auth_error, uuid option) res" where
  "cookie_session env cookies =
     (case map_of cookies ACCESS_COOKIE of
        None \<Rightarrow> Inr None
      | Some [] \<Rightarrow> Inr None
      | Some token \<Rightarrow>
          (case decode_access_token env token of
             Inr (_, s) \<Rightarrow> Inr (Some s)
           | Inl PyTypeError \<Rightarrow> Inl PyTypeError
           | Inl _ \<Rightarrow> Inr None))"

text \<open>The \<^verbatim>\<open>Origin\<close> of a request, or that of its \<^verbatim>\<open>Referer\<close> when it has none.\<close>

definition sent_origin :: "(string \<times> string) list \<Rightarrow> string option" where
  "sent_origin hs = (if header_or hs ''origin'' \<noteq> [] then Some (header_or hs ''origin'') else referer_origin (header_or hs ''referer''))"

text \<open>\<open>Inl\<close> is an exception of the URL parser, of the comparison or of the token decoder; \<open>Inr None\<close> lets the request pass.\<close>

definition csrf_check :: "account_env \<Rightarrow> csrf_settings \<Rightarrow> http_scope \<Rightarrow> (auth_error, reject_reason option) res" where
  "csrf_check env st sc =
     (let path = (if hs_root sc \<noteq> [] \<and> str_starts (hs_path sc) (hs_root sc) then drop (length (hs_root sc)) (hs_path sc) else hs_path sc) in
      if map py_upper_char (hs_method sc) \<in> set SAFE_METHODS then Inr None
      else if \<not> str_starts path PROTECTED_PREFIX then Inr None
      else if \<not> cs_enabled st then Inr None
      else (let hs = header_dict (hs_headers sc) in
        if str_starts (py_lower (header_or hs ''authorization'')) ''bearer '' then Inr None
        else (let cookies = cookie_dict (header_or hs ''cookie'') in
          if map_of cookies CSRF_COOKIE = None \<and> map_of cookies ACCESS_COOKIE = None then Inr None
          else (case sent_origin hs of
                  None \<Rightarrow> Inl PyTypeError
                | Some origin \<Rightarrow>
                    (case (if origin = [] then Some True else origin_allowed st origin hs) of
                       None \<Rightarrow> Inl PyTypeError
                     | Some False \<Rightarrow> Inr (Some OriginNotAllowed)
                     | Some True \<Rightarrow>
                         if is_token_exempt path then Inr None
                         else (let h = header_or hs ''x-csrf-token''; c = header_or cookies CSRF_COOKIE in
                           if h = [] \<or> c = [] then Inr (Some TokenMissing)
                           else if \<not> ascii h \<or> \<not> ascii c then Inl PyTypeError
                           else if h \<noteq> c then Inr (Some TokenMismatch)
                           else bind_res (cookie_session env cookies) (\<lambda>session.
                             Inr (if csrf_token_valid env h session then None else Some TokenInvalid))))))))"

section \<open>Round trips\<close>

lemma b64_char_value: "v < 64 \<Longrightarrow> b64_value (b64_char v) = Some v \<and> b64_char v \<noteq> CHR ''='' \<and> ord_of (b64_char v) < 128 \<and> b64_char v \<noteq> CHR ''.''"
proof -
  have "list_all (\<lambda>v. b64_value (b64_char v) = Some v \<and> b64_char v \<noteq> CHR ''='' \<and> ord_of (b64_char v) < 128 \<and> b64_char v \<noteq> CHR ''.'') [0..<64]"
    by code_simp
  then show "v < 64 \<Longrightarrow> ?thesis" by (simp add: list_all_iff)
qed

lemma sextets_bound: "\<forall>x\<in>set xs. x < 256 \<Longrightarrow> \<forall>v\<in>set (sextets xs). v < 64"
  by (induction xs rule: sextets.induct) auto

lemma bytes_sextets: "\<forall>x\<in>set xs. x < 256 \<Longrightarrow> bytes_of_sextets (sextets xs) = xs"
proof (induction xs rule: sextets.induct)
  case (1 a b c xs)
  then have "a < 256" "b < 256" "c < 256" "bytes_of_sextets (sextets xs) = xs" by auto
  moreover have "(a mod 4 * 16 + b div 16) div 16 = a mod 4" "(a mod 4 * 16 + b div 16) mod 16 = b div 16"
    "(b mod 16 * 4 + c div 64) div 4 = b mod 16" "(b mod 16 * 4 + c div 64) mod 4 = c div 64"
    using calculation by (simp_all add: less_mult_imp_div_less)
  ultimately show ?case by (simp add: mult.commute)
next
  case (2 a b)
  then have "(a mod 4 * 16 + b div 16) div 16 = a mod 4" "(a mod 4 * 16 + b div 16) mod 16 = b div 16"
    by (simp_all add: less_mult_imp_div_less)
  then show ?case by (simp add: mult.commute)
qed (simp_all add: mult.commute)

lemma sextets_length: "length (sextets xs) mod 4 \<noteq> 1"
  by (induction xs rule: sextets.induct) auto

lemma a2b_chars: "\<forall>v\<in>set vs. v < 64 \<Longrightarrow> a2b acc 0 (map b64_char vs @ rest) = a2b (acc @ vs) 0 rest"
  by (induction vs arbitrary: acc) (auto simp: b64_char_value)

lemma a2b_pads:
  assumes "length vs mod 4 \<noteq> 1"
  shows "a2b vs 0 (replicate ((4 - length vs mod 4) mod 4) (CHR ''='')) = Some vs"
proof -
  have "length vs mod 4 \<in> {0, 2, 3}" using assms by auto
  then show ?thesis by (auto simp: numeral_2_eq_2)
qed

lemma unb64_b64: "\<forall>x\<in>set xs. x < 256 \<Longrightarrow> unb64 (b64 xs) = Some xs"
proof -
  assume x: "\<forall>x\<in>set xs. x < 256"
  have "ascii (b64 xs)" using sextets_bound [OF x] b64_char_value by (simp add: ascii_def b64_def list_all_iff)
  moreover have "a2b [] 0 (b64 xs @ replicate ((4 - length (b64 xs) mod 4) mod 4) (CHR ''='')) = Some (sextets xs)"
    using a2b_chars [OF sextets_bound [OF x], of "[]"] a2b_pads [OF sextets_length, of xs] by (simp add: b64_def)
  ultimately show ?thesis by (simp add: unb64_def bytes_sextets [OF x])
qed

lemma b64_no_dot: "\<forall>x\<in>set xs. x < 256 \<Longrightarrow> CHR ''.'' \<notin> set (b64 xs)"
  using sextets_bound b64_char_value by (fastforce simp: b64_def)

lemma be_bytes_bound: "\<forall>x\<in>set (be_bytes k n). x < 256" and be_bytes_length [simp]: "length (be_bytes k n) = k"
  by (induction k arbitrary: n) auto

lemma uuid_bytes_bound: "\<forall>x\<in>set (uuid_bytes n). x < 256"
  unfolding uuid_bytes_def by (rule be_bytes_bound)

lemma foldl_be_bytes: "foldl (\<lambda>acc b. acc * 256 + b) 0 (be_bytes k n) = n mod 256 ^ k"
proof (induction k arbitrary: n)
  case (Suc k)
  have "n mod 256 ^ Suc k = n div 256 mod 256 ^ k * 256 + n mod 256" by (simp add: mod_mult2_eq)
  then show ?case using Suc.IH by simp
qed simp

lemma uuid_roundtrip: "n < 2 ^ 128 \<Longrightarrow> uuid_of_bytes (uuid_bytes n) = Some n"
proof -
  assume "n < 2 ^ 128"
  then have "n < 256 ^ 16" by simp
  then show ?thesis by (simp add: uuid_of_bytes_def uuid_bytes_def foldl_be_bytes)
qed

definition signs_bytes :: "account_env \<Rightarrow> bool" where
  "signs_bytes env \<longleftrightarrow> (\<forall>bs. \<forall>x\<in>set (en_sign env bs). x < 256)"

lemma csrf_token_decodes:
  assumes "signs_bytes env" "s < 2 ^ 128"
  shows "csrf_token_valid env (issue_csrf_token env s) session \<longleftrightarrow> session = None \<or> session = Some s"
proof -
  have sig: "\<forall>x\<in>set (en_sign env (uuid_bytes s)). x < 256" using assms(1) by (simp add: signs_bytes_def)
  have "takeWhile (\<lambda>c. c \<noteq> CHR ''.'') (issue_csrf_token env s) = b64 (uuid_bytes s)"
    "dropWhile (\<lambda>c. c \<noteq> CHR ''.'') (issue_csrf_token env s) = CHR ''.'' # b64 (en_sign env (uuid_bytes s))"
    using b64_no_dot [OF uuid_bytes_bound, of s] by (auto simp: issue_csrf_token_def takeWhile_append dropWhile_append)
  then show ?thesis
    by (auto simp: csrf_token_valid_def unb64_b64 [OF uuid_bytes_bound] unb64_b64 [OF sig] uuid_roundtrip [OF assms(2)])
qed

section \<open>What the middleware guarantees\<close>

text \<open>
  A write that rides on a cookie: under the protected prefix, without a bearer token, with a session or CSRF cookie. Exempt paths are
  among them.
\<close>

definition scope_path :: "http_scope \<Rightarrow> string" where
  "scope_path sc = (if hs_root sc \<noteq> [] \<and> str_starts (hs_path sc) (hs_root sc) then drop (length (hs_root sc)) (hs_path sc) else hs_path sc)"

definition cookie_write :: "csrf_settings \<Rightarrow> http_scope \<Rightarrow> bool" where
  "cookie_write st sc \<longleftrightarrow>
     cs_enabled st \<and> map py_upper_char (hs_method sc) \<notin> set SAFE_METHODS \<and> str_starts (scope_path sc) PROTECTED_PREFIX \<and>
     \<not> str_starts (py_lower (header_or (header_dict (hs_headers sc)) ''authorization'')) ''bearer '' \<and>
     (let cookies = cookie_dict (header_or (header_dict (hs_headers sc)) ''cookie'') in
      map_of cookies CSRF_COOKIE \<noteq> None \<or> map_of cookies ACCESS_COOKIE \<noteq> None)"

text \<open>A token signed by the server for a session, which is that of the access cookie when the cookie names one.\<close>

definition session_token :: "account_env \<Rightarrow> string \<Rightarrow> uuid option \<Rightarrow> bool" where
  "session_token env token session \<longleftrightarrow>
     (\<exists>bs sid. unb64 (takeWhile (\<lambda>c. c \<noteq> CHR ''.'') token) = Some bs \<and> uuid_of_bytes bs = Some sid \<and>
        unb64 (tl (dropWhile (\<lambda>c. c \<noteq> CHR ''.'') token)) = Some (en_sign env (uuid_bytes sid)) \<and> (session = None \<or> session = Some sid))"

lemma token_valid_signed: "csrf_token_valid env token session \<Longrightarrow> session_token env token session"
  by (auto simp: csrf_token_valid_def session_token_def Let_def split: option.splits)

text \<open>
  C26. A write that rides on a cookie passes the middleware only if the origin it was sent from, taken from the \<^verbatim>\<open>Origin\<close> header or else from the
  \<^verbatim>\<open>Referer\<close>, is absent or allowed, whatever the path; and, unless the path is exempt, only if header and cookie carry the same token, which
  the server signed for a session id that is the session of the access cookie when that cookie is valid.
\<close>

theorem csrf_protects_writes:
  assumes "csrf_check env st sc = Inr None" "cookie_write st sc"
  shows "let hs = header_dict (hs_headers sc); cookies = cookie_dict (header_or hs ''cookie''); token = header_or hs ''x-csrf-token'' in
     (\<exists>origin. sent_origin hs = Some origin \<and> (origin = [] \<or> origin_allowed st origin hs = Some True)) \<and>
     (if is_token_exempt (scope_path sc) then True
      else token \<noteq> [] \<and> map_of cookies CSRF_COOKIE = Some token \<and>
        (\<exists>session. cookie_session env cookies = Inr session \<and> session_token env token session))"
proof -
  define hs where "hs = header_dict (hs_headers sc)"
  define cookies where "cookies = cookie_dict (header_or hs ''cookie'')"
  define token where "token = header_or hs ''x-csrf-token''"
  note folds = scope_path_def [symmetric] hs_def [symmetric] cookies_def [symmetric] token_def [symmetric]
  have guards: "map py_upper_char (hs_method sc) \<notin> set SAFE_METHODS" "str_starts (scope_path sc) PROTECTED_PREFIX" "cs_enabled st"
    "\<not> str_starts (py_lower (header_or hs ''authorization'')) ''bearer ''"
    "\<not> (map_of cookies CSRF_COOKIE = None \<and> map_of cookies ACCESS_COOKIE = None)"
    using assms(2) by (auto simp: cookie_write_def Let_def hs_def cookies_def)
  obtain og where og: "sent_origin hs = Some og" and ok: "(if og = [] then Some True else origin_allowed st og hs) = Some True"
    using assms(1) guards unfolding csrf_check_def Let_def folds by (auto split: option.splits bool.splits if_splits)
  have "token \<noteq> [] \<and> map_of cookies CSRF_COOKIE = Some token \<and>
      (\<exists>session. cookie_session env cookies = Inr session \<and> csrf_token_valid env token session)" if "\<not> is_token_exempt (scope_path sc)"
    using assms(1) guards og ok that unfolding csrf_check_def Let_def folds
    by (auto simp: bind_res_Inr header_or_def split: if_splits option.splits)
  then show ?thesis
    using og ok token_valid_signed unfolding Let_def folds by (auto split: if_splits)
qed

text \<open>
  C39. A token is good for its own session and for no other: what \<^verbatim>\<open>issue_csrf_token\<close> mints decodes to its session, so the check with a
  session id accepts it exactly for that id.
\<close>

theorem csrf_token_roundtrip:
  assumes "\<forall>bs. \<forall>x\<in>set (en_sign env bs). x < 256" "s < 2 ^ 128"
  shows "csrf_token_valid env (issue_csrf_token env s) session \<longleftrightarrow> session = None \<or> session = Some s"
  by (rule csrf_token_decodes) (use assms in \<open>simp_all add: signs_bytes_def\<close>)

theorem csrf_token_roundtrip_witness:
  "issue_csrf_token sample_account_env 7 = ''AAAAAAAAAAAAAAAAAAAABw.EP8'' \<and>
   csrf_token_valid sample_account_env ''AAAAAAAAAAAAAAAAAAAABw.EP8'' (Some 7) \<and>
   \<not> csrf_token_valid sample_account_env ''AAAAAAAAAAAAAAAAAAAABw.EP8'' (Some 8)"
proof -
  have "csrf_token_valid sample_account_env (issue_csrf_token sample_account_env 7) session \<longleftrightarrow> session = None \<or> session = Some 7" for session
    by (rule csrf_token_roundtrip) (simp_all add: sample_account_env_def)
  moreover have "issue_csrf_token sample_account_env 7 = ''AAAAAAAAAAAAAAAAAAAABw.EP8''" by code_simp
  ultimately show ?thesis by simp
qed

text \<open>A write whose browser sends only a \<^verbatim>\<open>Referer\<close>, and a sign-in with a left-over cookie from another site.\<close>

definition sample_write :: http_scope where
  "sample_write = \<lparr>hs_method = ''post'', hs_path = ''/api/v1/events'', hs_root = [],
     hs_headers = [(''Cookie'', ''bbz_access=t; bbz_csrf=AAAAAAAAAAAAAAAAAAAABw.EP8''), (''X-CSRF-Token'', ''AAAAAAAAAAAAAAAAAAAABw.EP8''),
       (''Host'', ''bbz.local''), (''Referer'', ''https://bbz.local/app'')]\<rparr>"

definition foreign_login :: http_scope where
  "foreign_login = \<lparr>hs_method = ''POST'', hs_path = ''/api/v1/auth/login'', hs_root = [],
     hs_headers = [(''Cookie'', ''bbz_access=t''), (''Host'', ''bbz.local''), (''Referer'', ''https://evil.test/x'')]\<rparr>"

theorem csrf_protects_writes_witness:
  "csrf_check sample_account_env \<lparr>cs_enabled = True, cs_origins = []\<rparr> sample_write = Inr None \<and>
   (\<exists>session. cookie_session sample_account_env [(''bbz_access'', ''t''), (''bbz_csrf'', ''AAAAAAAAAAAAAAAAAAAABw.EP8'')] = Inr session \<and>
      session_token sample_account_env ''AAAAAAAAAAAAAAAAAAAABw.EP8'' session) \<and>
   csrf_check sample_account_env \<lparr>cs_enabled = True, cs_origins = []\<rparr> foreign_login = Inr (Some OriginNotAllowed)"
proof -
  have ok: "csrf_check sample_account_env \<lparr>cs_enabled = True, cs_origins = []\<rparr> sample_write = Inr None" by code_simp
  have "cookie_write \<lparr>cs_enabled = True, cs_origins = []\<rparr> sample_write" by code_simp
  note passed = csrf_protects_writes [OF ok this]
  have exempt: "is_token_exempt (scope_path sample_write) = False" by code_simp
  have parts: "header_or (header_dict (hs_headers sample_write)) ''x-csrf-token'' = ''AAAAAAAAAAAAAAAAAAAABw.EP8''"
    "cookie_dict (header_or (header_dict (hs_headers sample_write)) ''cookie'') =
      [(''bbz_access'', ''t''), (''bbz_csrf'', ''AAAAAAAAAAAAAAAAAAAABw.EP8'')]" by code_simp+
  have "csrf_check sample_account_env \<lparr>cs_enabled = True, cs_origins = []\<rparr> foreign_login = Inr (Some OriginNotAllowed)" by code_simp
  with ok passed show ?thesis unfolding Let_def exempt parts if_False by blast
qed

end
