(* ===== verification/Rbac_Admin.thy ===== *)
theory Rbac_Admin
  imports Authorization
begin

text \<open>
  The operations that change who may do what: roles, role permissions and assignments (\<^verbatim>\<open>infra/repositories/rbac_admin.py\<close>) with the
  last-admin guard, temporary delegations (\<^verbatim>\<open>infra/repositories/delegation.py\<close>), the idempotent seed (\<^verbatim>\<open>authorization/seed.py\<close>), and the
  two groups of endpoints over them (\<^verbatim>\<open>api/v1/rbac.py\<close>, \<^verbatim>\<open>api/v1/delegations.py\<close>). An operation that raises leaves the tables as they were (its
  transaction is rolled back); foreign keys, unique constraints and the cascades of a delete are those of \<^verbatim>\<open>infra/models/rbac.py\<close>.
  Datetimes carry their offset.
\<close>

section \<open>Last-admin protection\<close>

definition manage_roles :: "rbac_db \<Rightarrow> uuid list" where
  "manage_roles db = concat (map (\<lambda>rp. map (\<lambda>_. rp_role rp)
     (filter (\<lambda>pm. pm_id pm = rp_permission rp \<and> pm_key pm = ''permissions.manage'') (rb_permissions db))) (rb_role_permissions db))"

definition any_admin :: "rbac_db \<Rightarrow> bool" where
  "any_admin db \<longleftrightarrow>
     list_ex (\<lambda>ur. ur_role ur \<in> set (manage_roles db)) (rb_user_roles db) \<or>
     list_ex (\<lambda>(_, gp). list_ex (\<lambda>(gp', r). gp' = gp \<and> r \<in> set (manage_roles db)) (rb_group_roles db)) (rb_user_groups db)"

definition guard_last_admin :: "bool \<Rightarrow> rbac_db \<Rightarrow> (authz_error, rbac_db) res" where
  "guard_last_admin had_admin db = (if had_admin \<and> \<not> any_admin db then Inl LastAdminError else Inr db)"

section \<open>Roles\<close>

definition get_role :: "uuid \<Rightarrow> rbac_db \<Rightarrow> role_row option" where
  "get_role r db = find_first (\<lambda>ro. ro_id ro = r) (rb_roles db)"

definition get_role_by_key :: "string \<Rightarrow> rbac_db \<Rightarrow> role_row option" where
  "get_role_by_key key db = find_first (\<lambda>ro. ro_key ro = key) (rb_roles db)"

definition list_roles :: "rbac_db \<Rightarrow> role_row list" where
  "list_roles db = sort_key ro_key (rb_roles db)"

definition create_role :: "string \<Rightarrow> string \<Rightarrow> rbac_db \<Rightarrow> role_row \<times> rbac_db" where
  "create_role key name db =
     (case get_role_by_key key db of
        Some existing \<Rightarrow> (existing, db)
      | None \<Rightarrow>
          (let role = \<lparr>ro_id = rb_next db, ro_key = key, ro_name = name, ro_builtin = False\<rparr>
           in (role, db\<lparr>rb_roles := rb_roles db @ [role], rb_next := Suc (rb_next db)\<rparr>)))"

definition rename_role :: "role_row \<Rightarrow> string \<Rightarrow> rbac_db \<Rightarrow> rbac_db" where
  "rename_role role name db =
     db\<lparr>rb_roles := map (\<lambda>ro. if ro_id ro = ro_id role then ro\<lparr>ro_name := name\<rparr> else ro) (rb_roles db)\<rparr>"

text \<open>Deleting a role takes its permissions and its assignments with it.\<close>

definition cascade_role :: "uuid \<Rightarrow> rbac_db \<Rightarrow> rbac_db" where
  "cascade_role r db =
     db\<lparr>rb_roles := filter (\<lambda>ro. ro_id ro \<noteq> r) (rb_roles db),
        rb_role_permissions := filter (\<lambda>rp. rp_role rp \<noteq> r) (rb_role_permissions db),
        rb_user_roles := filter (\<lambda>ur. ur_role ur \<noteq> r) (rb_user_roles db),
        rb_group_roles := filter (\<lambda>gr. snd gr \<noteq> r) (rb_group_roles db)\<rparr>"

definition delete_role :: "role_row \<Rightarrow> rbac_db \<Rightarrow> (authz_error, rbac_db) res" where
  "delete_role role db =
     (if ro_builtin role then Inl BuiltinRole
      else guard_last_admin (any_admin db) (cascade_role (ro_id role) db))"

section \<open>Role permissions\<close>

record assignment =
  as_key :: string
  as_scope :: string
  as_condition :: "pydict option"

definition get_role_permissions :: "uuid \<Rightarrow> rbac_db \<Rightarrow> assignment list" where
  "get_role_permissions r db =
     map (\<lambda>g. \<lparr>as_key = g_key g, as_scope = g_scope g, as_condition = g_condition g\<rparr>)
       (join_permissions db (filter (\<lambda>rp. rp_role rp = r) (rb_role_permissions db)))"

definition validate_condition :: "pydict \<Rightarrow> (authz_error, unit) res" where
  "validate_condition c =
     (case schema_validate RBAC_CONTEXT (PDict c) of Inl e \<Rightarrow> Inl (InvalidCondition e) | Inr _ \<Rightarrow> Inr ())"

definition permission_id :: "rbac_db \<Rightarrow> string \<Rightarrow> uuid option" where
  "permission_id db key = map_option pm_id (find_first (\<lambda>pm. pm_key pm = key) (rb_permissions db))"

fun new_role_permissions :: "rbac_db \<Rightarrow> uuid \<Rightarrow> uuid \<Rightarrow> assignment list \<Rightarrow> role_permission list" where
  "new_role_permissions db r i [] = []"
| "new_role_permissions db r i (a # as) =
     (case permission_id db (as_key a) of
        None \<Rightarrow> []
      | Some p \<Rightarrow> [\<lparr>rp_id = i, rp_role = r, rp_permission = p, rp_scope = as_scope a, rp_condition = as_condition a\<rparr>]) @
     new_role_permissions db r (Suc i) as"

text \<open>The unique key of a role permission and the check on its scope.\<close>

definition rp_key :: "role_permission \<Rightarrow> uuid \<times> uuid \<times> string" where
  "rp_key rp = (rp_role rp, rp_permission rp, rp_scope rp)"

definition set_role_permissions :: "role_row \<Rightarrow> assignment list \<Rightarrow> rbac_db \<Rightarrow> (authz_error, rbac_db) res" where
  "set_role_permissions role assignments db =
     (let missing = filter (\<lambda>k. permission_id db k = None) (remdups (map as_key assignments)) in
      if missing \<noteq> [] then Inl (UnknownKeys (sort missing))
      else bind_res (fold_res (\<lambda>a _. case as_condition a of None \<Rightarrow> Inr () | Some c \<Rightarrow> validate_condition c) assignments ()) (\<lambda>_.
        let new = new_role_permissions db (ro_id role) (rb_next db) assignments;
            db' = db\<lparr>rb_role_permissions := filter (\<lambda>rp. rp_role rp \<noteq> ro_id role) (rb_role_permissions db) @ new,
                     rb_next := rb_next db + length assignments\<rparr>
        in if \<not> distinct (map rp_key new) \<or> list_ex (\<lambda>rp. rp_scope rp \<notin> set SCOPES) new then Inl IntegrityError
           else guard_last_admin (any_admin db) db'))"

section \<open>Assignments\<close>

definition assign_user_role ::
  "authz_env \<Rightarrow> uuid \<Rightarrow> uuid \<Rightarrow> uuid option \<Rightarrow> instant option \<Rightarrow> instant option \<Rightarrow> rbac_db \<Rightarrow> (authz_error, rbac_db) res" where
  "assign_user_role env u r granted_by valid_from valid_to db =
     (if (case (valid_from, valid_to) of (Some f, Some t) \<Rightarrow> t \<le> f | _ \<Rightarrow> False) then Inl BadWindow
      else if list_ex (\<lambda>ur. ur_user ur = u \<and> ur_role ur = r) (rb_user_roles db)
        then Inr (db\<lparr>rb_user_roles := map (\<lambda>ur. if ur_user ur = u \<and> ur_role ur = r
               then ur\<lparr>ur_from := valid_from, ur_to := valid_to\<rparr> else ur) (rb_user_roles db)\<rparr>)
      else if u \<notin> set (rb_users db) \<or> get_role r db = None then Inl IntegrityError
      else Inr (db\<lparr>rb_user_roles := rb_user_roles db @ [\<lparr>ur_user = u, ur_role = r, ur_granted_at = az_now env,
             ur_granted_by = granted_by, ur_from = valid_from, ur_to = valid_to\<rparr>]\<rparr>))"

definition revoke_user_role :: "uuid \<Rightarrow> uuid \<Rightarrow> rbac_db \<Rightarrow> (authz_error, rbac_db) res" where
  "revoke_user_role u r db =
     guard_last_admin (any_admin db) (db\<lparr>rb_user_roles := filter (\<lambda>ur. \<not> (ur_user ur = u \<and> ur_role ur = r)) (rb_user_roles db)\<rparr>)"

definition list_groups :: "rbac_db \<Rightarrow> group_row list" where
  "list_groups db = sort_key gp_key (rb_groups db)"

definition create_group :: "string \<Rightarrow> string \<Rightarrow> rbac_db \<Rightarrow> group_row \<times> rbac_db" where
  "create_group key name db =
     (case find_first (\<lambda>gp. gp_key gp = key) (rb_groups db) of
        Some existing \<Rightarrow> (existing, db)
      | None \<Rightarrow>
          (let gp = \<lparr>gp_id = rb_next db, gp_key = key, gp_name = name\<rparr>
           in (gp, db\<lparr>rb_groups := rb_groups db @ [gp], rb_next := Suc (rb_next db)\<rparr>)))"

definition assign_group_role :: "uuid \<Rightarrow> uuid \<Rightarrow> rbac_db \<Rightarrow> (authz_error, rbac_db) res" where
  "assign_group_role gp r db =
     (if (gp, r) \<in> set (rb_group_roles db) then Inr db
      else if gp \<notin> gp_id ` set (rb_groups db) \<or> get_role r db = None then Inl IntegrityError
      else Inr (db\<lparr>rb_group_roles := rb_group_roles db @ [(gp, r)]\<rparr>))"

definition revoke_group_role :: "uuid \<Rightarrow> uuid \<Rightarrow> rbac_db \<Rightarrow> (authz_error, rbac_db) res" where
  "revoke_group_role gp r db =
     guard_last_admin (any_admin db) (db\<lparr>rb_group_roles := filter (\<lambda>gr. gr \<noteq> (gp, r)) (rb_group_roles db)\<rparr>)"

section \<open>Delegations\<close>

definition authz_audit ::
  "authz_env \<Rightarrow> string \<Rightarrow> uuid option \<Rightarrow> uuid \<Rightarrow> pydict option \<Rightarrow> pydict option \<Rightarrow> rbac_db \<Rightarrow> (authz_error, rbac_db) res" where
  "authz_audit env action actor target before after db =
     (case audit_write (az_audit env) True
        \<lparr>rq_action = action, rq_actor = actor, rq_client = None, rq_workplace = None, rq_target_type = Some ''user'',
          rq_target_id = Some (az_uuid env target), rq_before = before, rq_after = after, rq_reason = None, rq_event_seq = None\<rparr>
        (rb_audit db) of
        Inl e \<Rightarrow> Inl (AuthzAudit e)
      | Inr a \<Rightarrow> Inr (db\<lparr>rb_audit := a\<rparr>))"

definition delegate ::
  "authz_env \<Rightarrow> uuid \<Rightarrow> uuid \<Rightarrow> string \<Rightarrow> instant \<Rightarrow> string \<Rightarrow> uuid option \<Rightarrow> rbac_db \<Rightarrow> (authz_error, delegation \<times> rbac_db) res" where
  "delegate env from_user to_user key expires scope actor db =
     bind_res (assert_known key) (\<lambda>_.
       if scope \<notin> set SCOPES then Inl (UnknownScope scope)
       else if expires \<le> az_now env then Inl ExpiryInPast
       else if from_user = to_user then Inl SelfDelegation
       else bind_res (authorize env (grants_for_user (az_now env) db) from_user key []) (\<lambda>(holds_it, _).
         if \<not> holds_it then Inl (NotDelegatorsToGive key)
         else if from_user \<notin> set (rb_users db) \<or> to_user \<notin> set (rb_users db) then Inl IntegrityError
         else (let row = \<lparr>dl_id = rb_next db, dl_from = from_user, dl_to = to_user, dl_key = key, dl_scope = scope,
                           dl_granted = az_now env, dl_expires = expires, dl_revoked = None\<rparr>;
                   db1 = db\<lparr>rb_delegations := rb_delegations db @ [row], rb_next := Suc (rb_next db)\<rparr>
               in bind_res (authz_audit env ''PERMISSION_DELEGATED'' actor to_user None
                    (Some [(''permission'', PStr key), (''scope'', PStr scope), (''from'', PStr (az_uuid env from_user)),
                           (''expires_at'', PStr (az_iso env expires))]) db1) (\<lambda>db2. Inr (row, db2)))))"

definition revoke_delegation :: "authz_env \<Rightarrow> uuid \<Rightarrow> uuid option \<Rightarrow> rbac_db \<Rightarrow> (authz_error, rbac_db) res" where
  "revoke_delegation env i actor db =
     (case find_first (\<lambda>d. dl_id d = i) (rb_delegations db) of
        None \<Rightarrow> Inl DelegationNotFound
      | Some d \<Rightarrow>
          if dl_revoked d \<noteq> None then Inr db
          else authz_audit env ''PERMISSION_DELEGATION_REVOKED'' actor (dl_to d)
                 (Some [(''permission'', PStr (dl_key d)), (''from'', PStr (az_uuid env (dl_from d)))]) None
                 (db\<lparr>rb_delegations := map (\<lambda>x. if dl_id x = i then x\<lparr>dl_revoked := Some (az_now env)\<rparr> else x) (rb_delegations db)\<rparr>))"

definition get_delegation :: "uuid \<Rightarrow> rbac_db \<Rightarrow> delegation option" where
  "get_delegation i db = find_first (\<lambda>d. dl_id d = i) (rb_delegations db)"

definition list_involving :: "authz_env \<Rightarrow> uuid \<Rightarrow> bool \<Rightarrow> rbac_db \<Rightarrow> delegation list" where
  "list_involving env u active_only db =
     sort_key (\<lambda>d. - dl_granted d)
       (filter (\<lambda>d. (dl_from d = u \<or> dl_to d = u) \<and> (active_only \<longrightarrow> delegation_active (az_now env) d)) (rb_delegations db))"

section \<open>The endpoints\<close>

definition guarded ::
  "authz_env \<Rightarrow> string \<Rightarrow> auth_context \<Rightarrow> rbac_db \<Rightarrow> (authz_error, rbac_db) res \<Rightarrow> (authz_error, unit) res \<times> rbac_db" where
  "guarded env permission ctx db outcome =
     (case bind_res (require env permission None ctx db) (\<lambda>_. outcome) of Inl e \<Rightarrow> (Inl e, db) | Inr db' \<Rightarrow> (Inr (), db'))"

definition with_role :: "uuid \<Rightarrow> rbac_db \<Rightarrow> (role_row \<Rightarrow> (authz_error, rbac_db) res) \<Rightarrow> (authz_error, rbac_db) res" where
  "with_role r db k = (case get_role r db of None \<Rightarrow> Inl RoleNotFound | Some role \<Rightarrow> k role)"

definition key_name_ok :: "string \<Rightarrow> string \<Rightarrow> bool" where
  "key_name_ok key name \<longleftrightarrow> 2 \<le> length key \<and> length key \<le> 64 \<and> 1 \<le> length name \<and> length name \<le> 120"

datatype rbac_request =
    CreateRole string string | RenameRole uuid string | DeleteRole uuid | SetRolePermissions uuid "assignment list"
  | AssignUserRole uuid uuid "instant option" "instant option" | RevokeUserRole uuid uuid
  | CreateGroup string string | AssignGroupRole uuid uuid | RevokeGroupRole uuid uuid
  | CreateDelegation uuid string instant string | RevokeDelegation uuid

definition api_set_role_permissions ::
  "authz_env \<Rightarrow> auth_context \<Rightarrow> uuid \<Rightarrow> assignment list \<Rightarrow> rbac_db \<Rightarrow> (authz_error, unit) res \<times> rbac_db" where
  "api_set_role_permissions env ctx r body db =
     (case require_stepup env ''permissions.manage'' None ctx db of
        (Inl e, db1) \<Rightarrow> (Inl e, db1)
      | (Inr _, db1) \<Rightarrow>
          (case with_role r db1 (\<lambda>role.
              let bad = filter (\<lambda>s. s \<notin> set SCOPES) (remdups (map as_scope body))
              in if bad \<noteq> [] then Inl (UnknownScopes (sort bad)) else set_role_permissions role body db1) of
             Inl e \<Rightarrow> (Inl e, db1) | Inr db2 \<Rightarrow> (Inr (), db2)))"

definition api_create_delegation ::
  "authz_env \<Rightarrow> auth_context \<Rightarrow> uuid \<Rightarrow> string \<Rightarrow> instant \<Rightarrow> string \<Rightarrow> rbac_db \<Rightarrow> (authz_error, rbac_db) res" where
  "api_create_delegation env ctx to_user key expires scope db =
     (if key = [] \<or> 100 < length key then Inl BodyInvalid
      else bind_res (delegate env (ax_user ctx) to_user key expires scope (Some (ax_user ctx)) db) (\<lambda>(_, db'). Inr db'))"

fun rbac_api :: "authz_env \<Rightarrow> auth_context \<Rightarrow> rbac_request \<Rightarrow> rbac_db \<Rightarrow> (authz_error, unit) res \<times> rbac_db" where
  "rbac_api env ctx (CreateRole key name) db =
     guarded env ''roles.manage'' ctx db (if \<not> key_name_ok key name then Inl BodyInvalid else Inr (snd (create_role key name db)))"
| "rbac_api env ctx (RenameRole r name) db =
     guarded env ''roles.manage'' ctx db (if name = [] \<or> 120 < length name then Inl BodyInvalid
       else with_role r db (\<lambda>role. Inr (rename_role role name db)))"
| "rbac_api env ctx (DeleteRole r) db = guarded env ''roles.manage'' ctx db (with_role r db (\<lambda>role. delete_role role db))"
| "rbac_api env ctx (SetRolePermissions r body) db = api_set_role_permissions env ctx r body db"
| "rbac_api env ctx (AssignUserRole u r f t) db =
     guarded env ''roles.manage'' ctx db (assign_user_role env u r (Some (ax_user ctx)) f t db)"
| "rbac_api env ctx (RevokeUserRole u r) db = guarded env ''roles.manage'' ctx db (revoke_user_role u r db)"
| "rbac_api env ctx (CreateGroup key name) db =
     guarded env ''roles.manage'' ctx db (if \<not> key_name_ok key name then Inl BodyInvalid else Inr (snd (create_group key name db)))"
| "rbac_api env ctx (AssignGroupRole gp r) db = guarded env ''roles.manage'' ctx db (assign_group_role gp r db)"
| "rbac_api env ctx (RevokeGroupRole gp r) db = guarded env ''roles.manage'' ctx db (revoke_group_role gp r db)"
| "rbac_api env ctx (CreateDelegation u key expires scope) db =
     guarded env ''permissions.manage'' ctx db (api_create_delegation env ctx u key expires scope db)"
| "rbac_api env ctx (RevokeDelegation i) db =
     guarded env ''permissions.manage'' ctx db (revoke_delegation env i (Some (ax_user ctx)) db)"

section \<open>The seed\<close>

definition seed_permission :: "string \<Rightarrow> string \<Rightarrow> rbac_db \<Rightarrow> rbac_db" where
  "seed_permission area key db =
     (if key \<in> pm_key ` set (rb_permissions db) then db
      else db\<lparr>rb_permissions := rb_permissions db @ [\<lparr>pm_id = rb_next db, pm_key = key, pm_area = area\<rparr>], rb_next := Suc (rb_next db)\<rparr>)"

definition seed_role :: "string \<Rightarrow> string \<Rightarrow> rbac_db \<Rightarrow> rbac_db" where
  "seed_role key name db =
     (if key \<in> ro_key ` set (rb_roles db)
      then db\<lparr>rb_roles := map (\<lambda>ro. if ro_key ro = key then ro\<lparr>ro_builtin := True\<rparr> else ro) (rb_roles db)\<rparr>
      else db\<lparr>rb_roles := rb_roles db @ [\<lparr>ro_id = rb_next db, ro_key = key, ro_name = name, ro_builtin = True\<rparr>],
              rb_next := Suc (rb_next db)\<rparr>)"

definition seed_grant :: "uuid \<Rightarrow> string \<Rightarrow> rbac_db \<Rightarrow> rbac_db" where
  "seed_grant r key db =
     (case permission_id db key of
        None \<Rightarrow> db
      | Some p \<Rightarrow>
          if (r, p, ''global'') \<in> rp_key ` set (rb_role_permissions db) then db
          else db\<lparr>rb_role_permissions := rb_role_permissions db @
                   [\<lparr>rp_id = rb_next db, rp_role = r, rp_permission = p, rp_scope = ''global'', rp_condition = None\<rparr>],
                  rb_next := Suc (rb_next db)\<rparr>)"

definition seed_builtin :: "string \<Rightarrow> string \<Rightarrow> string list \<Rightarrow> rbac_db \<Rightarrow> rbac_db" where
  "seed_builtin key name grants db =
     (let db1 = seed_role key name db in
      case get_role_by_key key db1 of
        None \<Rightarrow> db1
      | Some role \<Rightarrow> fold (seed_grant (ro_id role)) (sort (remdups grants)) db1)"

definition seed_rbac :: "rbac_db \<Rightarrow> rbac_db" where
  "seed_rbac db =
     fold (\<lambda>(key, name, grants). seed_builtin key name grants) BUILTIN_ROLES
       (fold (\<lambda>(area, keys). fold (seed_permission area) keys) CATALOG db)"

section \<open>Integrity of the tables\<close>

definition rp_ok :: "rbac_db \<Rightarrow> role_permission \<Rightarrow> bool" where
  "rp_ok db rp \<longleftrightarrow> rp_role rp \<in> ro_id ` set (rb_roles db) \<and> rp_permission rp \<in> pm_id ` set (rb_permissions db) \<and>
     rp_scope rp \<in> set SCOPES \<and> (\<forall>c. rp_condition rp = Some c \<longrightarrow> schema_validate RBAC_CONTEXT (PDict c) = Inr ())"

definition dl_ok :: "rbac_db \<Rightarrow> delegation \<Rightarrow> bool" where
  "dl_ok db d \<longleftrightarrow> dl_from d \<in> set (rb_users db) \<and> dl_to d \<in> set (rb_users db) \<and> dl_from d \<noteq> dl_to d \<and>
     dl_key d \<in> set PERMISSION_KEYS \<and> dl_scope d \<in> set SCOPES \<and> dl_granted d < dl_expires d"

definition keys_inv :: "rbac_db \<Rightarrow> bool" where
  "keys_inv db \<longleftrightarrow> distinct (map pm_id (rb_permissions db)) \<and> distinct (map pm_key (rb_permissions db)) \<and>
     distinct (map ro_id (rb_roles db)) \<and> distinct (map ro_key (rb_roles db)) \<and>
     distinct (map gp_id (rb_groups db)) \<and> distinct (map gp_key (rb_groups db)) \<and>
     (\<forall>i\<in>pm_id ` set (rb_permissions db) \<union> ro_id ` set (rb_roles db) \<union> gp_id ` set (rb_groups db). i < rb_next db)"

definition grants_inv :: "rbac_db \<Rightarrow> bool" where
  "grants_inv db \<longleftrightarrow> distinct (map rp_key (rb_role_permissions db)) \<and> (\<forall>rp\<in>set (rb_role_permissions db). rp_ok db rp)"

definition assignments_inv :: "rbac_db \<Rightarrow> bool" where
  "assignments_inv db \<longleftrightarrow> distinct (map (\<lambda>ur. (ur_user ur, ur_role ur)) (rb_user_roles db)) \<and>
     (\<forall>ur\<in>set (rb_user_roles db). ur_user ur \<in> set (rb_users db) \<and> ur_role ur \<in> ro_id ` set (rb_roles db)) \<and>
     distinct (rb_group_roles db) \<and>
     (\<forall>gr\<in>set (rb_group_roles db). fst gr \<in> gp_id ` set (rb_groups db) \<and> snd gr \<in> ro_id ` set (rb_roles db))"

definition delegations_inv :: "rbac_db \<Rightarrow> bool" where
  "delegations_inv db \<longleftrightarrow> distinct (map dl_id (rb_delegations db)) \<and>
     (\<forall>d\<in>set (rb_delegations db). dl_id d < rb_next db \<and> dl_ok db d)"

definition rbac_inv :: "rbac_db \<Rightarrow> bool" where
  "rbac_inv db \<longleftrightarrow> keys_inv db \<and> grants_inv db \<and> assignments_inv db \<and> delegations_inv db"

lemmas rbac_inv_defs = rbac_inv_def keys_inv_def grants_inv_def assignments_inv_def delegations_inv_def

lemma get_role_Some: "get_role r db = Some role \<Longrightarrow> role \<in> set (rb_roles db) \<and> ro_id role = r"
  unfolding get_role_def by (rule find_first_Some)

lemma get_role_None: "get_role r db = None \<longleftrightarrow> r \<notin> ro_id ` set (rb_roles db)"
  by (auto simp: get_role_def)

text \<open>Each part of the invariant reads few tables: what it needs of a changed database.\<close>

lemma grants_inv_frame:
  assumes "grants_inv db" "rb_role_permissions db' = rb_role_permissions db" "ro_id ` set (rb_roles db) \<subseteq> ro_id ` set (rb_roles db')"
    "pm_id ` set (rb_permissions db) \<subseteq> pm_id ` set (rb_permissions db')"
  shows "grants_inv db'"
  using assms(1) subsetD [OF assms(3)] subsetD [OF assms(4)] unfolding grants_inv_def rp_ok_def assms(2) by simp

lemma assignments_inv_frame:
  assumes "assignments_inv db" "rb_user_roles db' = rb_user_roles db" "rb_group_roles db' = rb_group_roles db"
    "rb_users db' = rb_users db" "ro_id ` set (rb_roles db) \<subseteq> ro_id ` set (rb_roles db')"
    "gp_id ` set (rb_groups db) \<subseteq> gp_id ` set (rb_groups db')"
  shows "assignments_inv db'"
  using assms unfolding assignments_inv_def by auto

lemma delegations_inv_frame:
  assumes "delegations_inv db" "rb_delegations db' = rb_delegations db" "rb_users db' = rb_users db" "rb_next db \<le> rb_next db'"
  shows "delegations_inv db'"
  using assms unfolding delegations_inv_def dl_ok_def by (metis order.strict_trans2)

lemma keys_inv_next: "keys_inv db \<Longrightarrow> rb_next db \<le> n \<Longrightarrow> keys_inv (db\<lparr>rb_next := n\<rparr>)"
  unfolding keys_inv_def by (simp, meson order.strict_trans2)

lemma rbac_invI:
  assumes "keys_inv db" "grants_inv db" "assignments_inv db" "delegations_inv db"
  shows "rbac_inv db"
  using assms by (simp add: rbac_inv_def)

lemma rbac_invD:
  assumes "rbac_inv db"
  shows "keys_inv db" "grants_inv db" "assignments_inv db" "delegations_inv db"
  using assms by (simp_all add: rbac_inv_def)

lemma create_role_inv:
  assumes "rbac_inv db"
  shows "rbac_inv (snd (create_role key name db))"
proof (cases "get_role_by_key key db")
  case None
  define db' where "db' = snd (create_role key name db)"
  have db': "db' = db\<lparr>rb_roles := rb_roles db @ [\<lparr>ro_id = rb_next db, ro_key = key, ro_name = name, ro_builtin = False\<rparr>],
      rb_next := Suc (rb_next db)\<rparr>"
    unfolding db'_def create_role_def None by (simp add: Let_def)
  have "key \<notin> ro_key ` set (rb_roles db)" using None by (auto simp: get_role_by_key_def)
  moreover have "rb_next db \<notin> ro_id ` set (rb_roles db)" using assms by (auto simp: rbac_inv_defs)
  ultimately have "keys_inv db'"
    using rbac_invD(1) [OF assms] by (auto simp: db' keys_inv_def less_Suc_eq)
  moreover have "grants_inv db'" by (rule grants_inv_frame [OF rbac_invD(2) [OF assms]]) (auto simp: db')
  moreover have "assignments_inv db'"
    by (rule assignments_inv_frame [OF rbac_invD(3) [OF assms]]) (auto simp: db')
  moreover have "delegations_inv db'"
    by (rule delegations_inv_frame [OF rbac_invD(4) [OF assms]]) (auto simp: db')
  ultimately show ?thesis by (simp add: rbac_invI flip: db'_def)
qed (use assms in \<open>simp add: create_role_def\<close>)

lemma create_group_inv:
  assumes "rbac_inv db"
  shows "rbac_inv (snd (create_group key name db))"
proof (cases "find_first (\<lambda>gp. gp_key gp = key) (rb_groups db)")
  case None
  define db' where "db' = snd (create_group key name db)"
  have db': "db' = db\<lparr>rb_groups := rb_groups db @ [\<lparr>gp_id = rb_next db, gp_key = key, gp_name = name\<rparr>], rb_next := Suc (rb_next db)\<rparr>"
    unfolding db'_def create_group_def None by (simp add: Let_def)
  have "key \<notin> gp_key ` set (rb_groups db)" using None by auto
  moreover have "rb_next db \<notin> gp_id ` set (rb_groups db)" using assms by (auto simp: rbac_inv_defs)
  ultimately have "keys_inv db'"
    using rbac_invD(1) [OF assms] by (auto simp: db' keys_inv_def less_Suc_eq)
  moreover have "grants_inv db'" by (rule grants_inv_frame [OF rbac_invD(2) [OF assms]]) (auto simp: db')
  moreover have "assignments_inv db'" by (rule assignments_inv_frame [OF rbac_invD(3) [OF assms]]) (auto simp: db')
  moreover have "delegations_inv db'" by (rule delegations_inv_frame [OF rbac_invD(4) [OF assms]]) (auto simp: db')
  ultimately show ?thesis by (simp add: rbac_invI flip: db'_def)
qed (use assms in \<open>simp add: create_group_def\<close>)

lemma map_update_fields:
  assumes "\<And>x. f (g x) = f x"
  shows "map f (map (\<lambda>x. if P x then g x else x) xs) = map f xs"
    "f ` set (map (\<lambda>x. if P x then g x else x) xs) = f ` set xs"
proof -
  show eq: "map f (map (\<lambda>x. if P x then g x else x) xs) = map f xs" using assms by simp
  show "f ` set (map (\<lambda>x. if P x then g x else x) xs) = f ` set xs"
    using arg_cong [OF eq, of set] by (simp only: set_map)
qed

lemma rename_role_inv:
  assumes "rbac_inv db"
  shows "rbac_inv (rename_role role name db)"
proof -
  define rs where "rs = rb_roles (rename_role role name db)"
  have rs: "map ro_id rs = map ro_id (rb_roles db)" "map ro_key rs = map ro_key (rb_roles db)"
    "ro_id ` set rs = ro_id ` set (rb_roles db)"
    unfolding rs_def rename_role_def
    using map_update_fields [of ro_id "\<lambda>ro. ro\<lparr>ro_name := name\<rparr>" "\<lambda>ro. ro_id ro = ro_id role" "rb_roles db"]
      map_update_fields [of ro_key "\<lambda>ro. ro\<lparr>ro_name := name\<rparr>" "\<lambda>ro. ro_id ro = ro_id role" "rb_roles db"] by simp_all
  have "rename_role role name db = db\<lparr>rb_roles := rs\<rparr>" by (simp add: rs_def rename_role_def)
  then show ?thesis using assms rs by (simp add: rbac_inv_defs rp_ok_def dl_ok_def)
qed

lemma cascade_role_inv:
  assumes "rbac_inv db"
  shows "rbac_inv (cascade_role r db)"
  using assms unfolding rbac_inv_defs rp_ok_def dl_ok_def cascade_role_def
  by (auto simp: distinct_map intro: inj_on_subset)

lemma guard_last_admin_Inr: "guard_last_admin had db = Inr db' \<longleftrightarrow> db' = db \<and> (had \<longrightarrow> any_admin db)"
  by (auto simp: guard_last_admin_def)

lemma delete_role_inv: "rbac_inv db \<Longrightarrow> delete_role role db = Inr db' \<Longrightarrow> rbac_inv db'"
  using cascade_role_inv by (auto simp: delete_role_def guard_last_admin_Inr split: if_splits)

lemma permission_id_Some: "permission_id db key = Some p \<Longrightarrow> \<exists>pm\<in>set (rb_permissions db). pm_id pm = p \<and> pm_key pm = key"
  unfolding permission_id_def using find_first_Some by fastforce

lemma new_role_permissions_in:
  assumes "rp \<in> set (new_role_permissions db r i as)"
  shows "rp_role rp = r \<and> (\<exists>a\<in>set as. permission_id db (as_key a) = Some (rp_permission rp) \<and> rp_scope rp = as_scope a \<and>
     rp_condition rp = as_condition a)"
  using assms by (induction as arbitrary: i) (fastforce split: option.splits)+

lemma conditions_validated:
  assumes "fold_res (\<lambda>a _. case as_condition a of None \<Rightarrow> Inr () | Some c \<Rightarrow> validate_condition c) as () = Inr ()"
    and "a \<in> set as" and "as_condition a = Some c"
  shows "schema_validate RBAC_CONTEXT (PDict c) = Inr ()"
  using assms
proof (induction as)
  case (Cons b as)
  then show ?case by (auto simp: validate_condition_def bind_res_Inr split: sum.splits option.splits)
qed simp

lemma set_role_permissions_inv:
  assumes inv: "rbac_inv db" and role: "role \<in> set (rb_roles db)" and ok: "set_role_permissions role as db = Inr db'"
  shows "rbac_inv db'"
proof -
  define new where "new = new_role_permissions db (ro_id role) (rb_next db) as"
  define kept where "kept = filter (\<lambda>rp. rp_role rp \<noteq> ro_id role) (rb_role_permissions db)"
  from ok have db': "db' = db\<lparr>rb_role_permissions := kept @ new, rb_next := rb_next db + length as\<rparr>"
    and val: "fold_res (\<lambda>a _. case as_condition a of None \<Rightarrow> Inr () | Some c \<Rightarrow> validate_condition c) as () = Inr ()"
    and dist: "distinct (map rp_key new)" "\<forall>rp\<in>set new. rp_scope rp \<in> set SCOPES"
    by (auto simp: set_role_permissions_def Let_def bind_res_Inr guard_last_admin_Inr new_def kept_def list_ex_iff split: if_splits)
  have new: "rp_ok db rp" if "rp \<in> set new" for rp
  proof -
    from that obtain a where a: "a \<in> set as" "rp_role rp = ro_id role" "permission_id db (as_key a) = Some (rp_permission rp)"
      "rp_condition rp = as_condition a" unfolding new_def using new_role_permissions_in by blast
    then show ?thesis
      using permission_id_Some [OF a(3)] conditions_validated [OF val a(1)] that dist(2) role
      unfolding rp_ok_def by (metis imageI)
  qed
  have "rp_role rp = ro_id role" if "rp \<in> set new" for rp using that new_role_permissions_in unfolding new_def by blast
  then have "rp_key ` set kept \<inter> rp_key ` set new = {}" by (fastforce simp: kept_def rp_key_def)
  moreover have "distinct (map rp_key kept)" using inv by (auto simp: kept_def rbac_inv_defs distinct_map intro: inj_on_subset)
  ultimately have "distinct (map rp_key (kept @ new))" using dist(1) by simp
  moreover have "rp_ok db rp" if "rp \<in> set kept" for rp using that inv by (auto simp: kept_def rbac_inv_defs)
  ultimately have "grants_inv db'" using new by (auto simp: grants_inv_def rp_ok_def db')
  moreover have "keys_inv db'"
    using keys_inv_next [OF rbac_invD(1) [OF inv], of "rb_next db + length as"] by (simp add: db' keys_inv_def)
  moreover have "assignments_inv db'" by (rule assignments_inv_frame [OF rbac_invD(3) [OF inv]]) (auto simp: db')
  moreover have "delegations_inv db'" by (rule delegations_inv_frame [OF rbac_invD(4) [OF inv]]) (auto simp: db')
  ultimately show ?thesis by (intro rbac_invI)
qed

lemma assign_user_role_parts:
  assumes "assign_user_role env u r by_user f t db = Inr db'"
  shows "db' = db\<lparr>rb_user_roles := rb_user_roles db'\<rparr>"
    "map (\<lambda>ur. (ur_user ur, ur_role ur)) (rb_user_roles db') = map (\<lambda>ur. (ur_user ur, ur_role ur)) (rb_user_roles db) @
       (if (u, r) \<in> (\<lambda>ur. (ur_user ur, ur_role ur)) ` set (rb_user_roles db) then [] else [(u, r)])"
    "(u, r) \<notin> (\<lambda>ur. (ur_user ur, ur_role ur)) ` set (rb_user_roles db) \<Longrightarrow> u \<in> set (rb_users db) \<and> r \<in> ro_id ` set (rb_roles db)"
proof -
  have ex: "list_ex (\<lambda>ur. ur_user ur = u \<and> ur_role ur = r) (rb_user_roles db) \<longleftrightarrow>
      (u, r) \<in> (\<lambda>ur. (ur_user ur, ur_role ur)) ` set (rb_user_roles db)" by (auto simp: list_ex_iff)
  show "db' = db\<lparr>rb_user_roles := rb_user_roles db'\<rparr>"
    using assms by (auto simp: assign_user_role_def split: if_splits)
  show "map (\<lambda>ur. (ur_user ur, ur_role ur)) (rb_user_roles db') = map (\<lambda>ur. (ur_user ur, ur_role ur)) (rb_user_roles db) @
       (if (u, r) \<in> (\<lambda>ur. (ur_user ur, ur_role ur)) ` set (rb_user_roles db) then [] else [(u, r)])"
    using assms unfolding assign_user_role_def ex by (auto split: if_splits)
  show "u \<in> set (rb_users db) \<and> r \<in> ro_id ` set (rb_roles db)" if "(u, r) \<notin> (\<lambda>ur. (ur_user ur, ur_role ur)) ` set (rb_user_roles db)"
    using assms that unfolding assign_user_role_def ex get_role_None by (auto split: if_splits)
qed

lemma assign_user_role_inv:
  assumes inv: "rbac_inv db" and ok: "assign_user_role env u r by_user f t db = Inr db'"
  shows "rbac_inv db'"
proof -
  let ?pair = "\<lambda>ur. (ur_user ur, ur_role ur)"
  note db' = assign_user_role_parts(1) [OF ok]
  note pairs = assign_user_role_parts(2) [OF ok]
  have old: "distinct (map ?pair (rb_user_roles db))"
    "\<forall>p\<in>?pair ` set (rb_user_roles db). fst p \<in> set (rb_users db) \<and> snd p \<in> ro_id ` set (rb_roles db)"
    using inv by (auto simp: rbac_inv_defs)
  have "?pair ` set (rb_user_roles db') = set (map ?pair (rb_user_roles db'))" by simp
  then have new: "\<forall>p\<in>?pair ` set (rb_user_roles db'). fst p \<in> set (rb_users db) \<and> snd p \<in> ro_id ` set (rb_roles db)"
    unfolding pairs using old(2) assign_user_role_parts(3) [OF ok] by (auto simp del: image_iff split: if_splits)
  have "distinct (map ?pair (rb_user_roles db'))" unfolding pairs using old(1) by auto
  then have "assignments_inv (db\<lparr>rb_user_roles := rb_user_roles db'\<rparr>)"
    using rbac_invD(3) [OF inv] new by (auto simp: assignments_inv_def)
  moreover have "keys_inv (db\<lparr>rb_user_roles := x\<rparr>)" for x using rbac_invD(1) [OF inv] by (simp add: keys_inv_def)
  moreover have "grants_inv (db\<lparr>rb_user_roles := x\<rparr>)" for x by (rule grants_inv_frame [OF rbac_invD(2) [OF inv]]) auto
  moreover have "delegations_inv (db\<lparr>rb_user_roles := x\<rparr>)" for x by (rule delegations_inv_frame [OF rbac_invD(4) [OF inv]]) auto
  ultimately show ?thesis by (subst db') (intro rbac_invI)
qed

lemma revokes_inv:
  assumes "rbac_inv db"
  shows "revoke_user_role u r db = Inr db' \<Longrightarrow> rbac_inv db'" "revoke_group_role gp r db = Inr db' \<Longrightarrow> rbac_inv db'"
  using assms unfolding revoke_user_role_def revoke_group_role_def guard_last_admin_Inr rbac_inv_defs rp_ok_def dl_ok_def
  by (auto simp: distinct_map intro: inj_on_subset)

lemma assign_group_role_inv:
  assumes inv: "rbac_inv db" and ok: "assign_group_role gp r db = Inr db'"
  shows "rbac_inv db'"
proof (cases "(gp, r) \<in> set (rb_group_roles db)")
  case False
  with ok have ex: "gp \<in> gp_id ` set (rb_groups db)" "r \<in> ro_id ` set (rb_roles db)"
    and db': "db' = db\<lparr>rb_group_roles := rb_group_roles db @ [(gp, r)]\<rparr>"
    by (auto simp: assign_group_role_def get_role_None split: if_splits)
  have "assignments_inv db'" using rbac_invD(3) [OF inv] ex False by (simp add: assignments_inv_def db')
  moreover have "keys_inv db'" using rbac_invD(1) [OF inv] by (simp add: keys_inv_def db')
  moreover have "grants_inv db'" by (rule grants_inv_frame [OF rbac_invD(2) [OF inv]]) (simp_all add: db')
  moreover have "delegations_inv db'" by (rule delegations_inv_frame [OF rbac_invD(4) [OF inv]]) (simp_all add: db')
  ultimately show ?thesis by (intro rbac_invI)
qed (use assms in \<open>simp add: assign_group_role_def\<close>)

lemma authz_audit_Inr:
  "authz_audit env action actor target before after db = Inr db' \<Longrightarrow> \<exists>a. db' = db\<lparr>rb_audit := a\<rparr>"
  by (auto simp: authz_audit_def split: sum.splits)

lemma rbac_inv_audit [simp]: "rbac_inv (db\<lparr>rb_audit := a\<rparr>) = rbac_inv db"
  by (simp add: rbac_inv_defs rp_ok_def dl_ok_def)

lemma delegate_Inr:
  assumes "delegate env from_user to_user key expires scope actor db = Inr (row, db')"
  obtains a where "db' = db\<lparr>rb_delegations := rb_delegations db @ [row], rb_next := Suc (rb_next db), rb_audit := a\<rparr>"
    "row = \<lparr>dl_id = rb_next db, dl_from = from_user, dl_to = to_user, dl_key = key, dl_scope = scope, dl_granted = az_now env,
       dl_expires = expires, dl_revoked = None\<rparr>"
    "from_user \<in> set (rb_users db)" "to_user \<in> set (rb_users db)" "from_user \<noteq> to_user" "key \<in> set PERMISSION_KEYS" "scope \<in> set SCOPES"
    "az_now env < expires" "policy_allows env db from_user key None"
proof -
  obtain cache' where "service_check env (grants_for_user (az_now env) db) (from_user, key, None) [] =
      (if key \<in> set PERMISSION_KEYS then Inr (policy_allows env db from_user key None, cache') else Inl (PermissionKeyError key))"
    by (rule service_check_decides [OF cache_ok_Nil])
  then have az: "authorize env (grants_for_user (az_now env) db) from_user key [] =
      (if key \<in> set PERMISSION_KEYS then Inr (policy_allows env db from_user key None, cache') else Inl (PermissionKeyError key))"
    by (simp add: service_check_def)
  from assms have guards: "key \<in> set PERMISSION_KEYS" "scope \<in> set SCOPES" "az_now env < expires" "from_user \<noteq> to_user"
    "policy_allows env db from_user key None" "from_user \<in> set (rb_users db)" "to_user \<in> set (rb_users db)"
    unfolding delegate_def az by (auto simp: assert_known_def split: if_splits)
  define new where "new = \<lparr>dl_id = rb_next db, dl_from = from_user, dl_to = to_user, dl_key = key, dl_scope = scope,
    dl_granted = az_now env, dl_expires = expires, dl_revoked = None\<rparr>"
  define db1 where "db1 = db\<lparr>rb_delegations := rb_delegations db @ [new], rb_next := Suc (rb_next db)\<rparr>"
  have "row = new \<and> (\<exists>after. authz_audit env ''PERMISSION_DELEGATED'' actor to_user None after db1 = Inr db')"
    using assms guards unfolding delegate_def az by (auto simp: assert_known_def bind_res_Inr Let_def new_def db1_def)
  then obtain a where "row = new" "db' = db1\<lparr>rb_audit := a\<rparr>" using authz_audit_Inr by blast
  then show thesis by (intro that [of a] guards) (simp_all add: new_def db1_def)
qed

lemma delegate_inv:
  assumes inv: "rbac_inv db" and ok: "delegate env f t key expires scope actor db = Inr (row, db')"
  shows "rbac_inv db'"
  using ok
proof (rule delegate_Inr)
  fix a
  assume db': "db' = db\<lparr>rb_delegations := rb_delegations db @ [row], rb_next := Suc (rb_next db), rb_audit := a\<rparr>"
    and row: "row = \<lparr>dl_id = rb_next db, dl_from = f, dl_to = t, dl_key = key, dl_scope = scope, dl_granted = az_now env,
       dl_expires = expires, dl_revoked = None\<rparr>"
    and "f \<in> set (rb_users db)" "t \<in> set (rb_users db)" "f \<noteq> t" "key \<in> set PERMISSION_KEYS" "scope \<in> set SCOPES" "az_now env < expires"
  then have "dl_ok db row" by (simp add: dl_ok_def)
  moreover have "rb_next db \<notin> dl_id ` set (rb_delegations db)" using inv by (auto simp: rbac_inv_defs)
  ultimately have "delegations_inv db'"
    using rbac_invD(4) [OF inv] by (auto simp: delegations_inv_def dl_ok_def db' row less_Suc_eq)
  moreover have "keys_inv db'" using keys_inv_next [OF rbac_invD(1) [OF inv], of "Suc (rb_next db)"] by (simp add: db' keys_inv_def)
  moreover have "grants_inv db'" by (rule grants_inv_frame [OF rbac_invD(2) [OF inv]]) (simp_all add: db')
  moreover have "assignments_inv db'" by (rule assignments_inv_frame [OF rbac_invD(3) [OF inv]]) (simp_all add: db')
  ultimately show ?thesis by (intro rbac_invI)
qed

definition mark_revoked :: "authz_env \<Rightarrow> uuid \<Rightarrow> delegation list \<Rightarrow> delegation list" where
  "mark_revoked env i ds = map (\<lambda>x. if dl_id x = i then x\<lparr>dl_revoked := Some (az_now env)\<rparr> else x) ds"

lemma revoke_delegation_Inr:
  assumes "revoke_delegation env i actor db = Inr db'"
  obtains a where "db' = db\<lparr>rb_delegations := mark_revoked env i (rb_delegations db), rb_audit := a\<rparr>" | "db' = db"
  using assms unfolding revoke_delegation_def mark_revoked_def
  by (auto dest!: authz_audit_Inr split: option.splits if_splits)

lemma mark_revoked_inv:
  assumes inv: "rbac_inv db"
  shows "rbac_inv (db\<lparr>rb_delegations := mark_revoked env i (rb_delegations db)\<rparr>)" (is "rbac_inv ?db")
proof -
  have "map dl_id (mark_revoked env i ds) = map dl_id ds" for ds unfolding mark_revoked_def by (rule map_update_fields) simp
  moreover have "\<forall>d\<in>set (mark_revoked env i (rb_delegations db)). dl_id d < rb_next db \<and> dl_ok db d"
    using inv by (auto simp: mark_revoked_def rbac_inv_defs dl_ok_def)
  ultimately have "delegations_inv ?db"
    using rbac_invD(4) [OF inv] by (simp add: delegations_inv_def dl_ok_def)
  moreover have "keys_inv ?db" using rbac_invD(1) [OF inv] by (simp add: keys_inv_def)
  moreover have "grants_inv ?db" by (rule grants_inv_frame [OF rbac_invD(2) [OF inv]]) simp_all
  moreover have "assignments_inv ?db" by (rule assignments_inv_frame [OF rbac_invD(3) [OF inv]]) simp_all
  ultimately show ?thesis by (intro rbac_invI)
qed

section \<open>What an endpoint may do\<close>

text \<open>The tables apart from the audit trail.\<close>

definition same_tables :: "rbac_db \<Rightarrow> rbac_db \<Rightarrow> bool" where
  "same_tables db db' \<longleftrightarrow> (\<exists>a. db' = db\<lparr>rb_audit := a\<rparr>)"

definition required_permission :: "rbac_request \<Rightarrow> string" where
  "required_permission req =
     (case req of SetRolePermissions _ _ \<Rightarrow> ''permissions.manage'' | CreateDelegation _ _ _ _ \<Rightarrow> ''permissions.manage''
      | RevokeDelegation _ \<Rightarrow> ''permissions.manage'' | _ \<Rightarrow> ''roles.manage'')"

text \<open>What the repository makes of a request that has passed its guard.\<close>

fun rbac_effect :: "authz_env \<Rightarrow> auth_context \<Rightarrow> rbac_request \<Rightarrow> rbac_db \<Rightarrow> (authz_error, rbac_db) res" where
  "rbac_effect env ctx (CreateRole key name) db = Inr (snd (create_role key name db))"
| "rbac_effect env ctx (RenameRole r name) db = with_role r db (\<lambda>role. Inr (rename_role role name db))"
| "rbac_effect env ctx (DeleteRole r) db = with_role r db (\<lambda>role. delete_role role db)"
| "rbac_effect env ctx (SetRolePermissions r body) db = with_role r db (\<lambda>role. set_role_permissions role body db)"
| "rbac_effect env ctx (AssignUserRole u r f t) db = assign_user_role env u r (Some (ax_user ctx)) f t db"
| "rbac_effect env ctx (RevokeUserRole u r) db = revoke_user_role u r db"
| "rbac_effect env ctx (CreateGroup key name) db = Inr (snd (create_group key name db))"
| "rbac_effect env ctx (AssignGroupRole gp r) db = assign_group_role gp r db"
| "rbac_effect env ctx (RevokeGroupRole gp r) db = revoke_group_role gp r db"
| "rbac_effect env ctx (CreateDelegation u key expires scope) db =
     bind_res (delegate env (ax_user ctx) u key expires scope (Some (ax_user ctx)) db) (\<lambda>(_, db'). Inr db')"
| "rbac_effect env ctx (RevokeDelegation i) db = revoke_delegation env i (Some (ax_user ctx)) db"

lemma guarded_cases:
  assumes "guarded env permission ctx db outcome = (reply, db')"
  obtains "db' = db" "\<exists>e. reply = Inl e" | "outcome = Inr db'" "policy_allows env db (ax_user ctx) permission None" "reply = Inr ()"
  using assms unfolding guarded_def require_eq by (auto split: if_splits sum.splits)

lemma stepup_cases:
  assumes "require_stepup env permission None ctx db = (reply, db')"
  obtains "same_tables db db'" "\<exists>e. reply = Inl e"
  | "reply = Inr ctx" "db' = db" "policy_allows env db (ax_user ctx) permission None"
    "permission \<in> set (az_stepup_permissions env) \<Longrightarrow> mfa_fresh env ctx"
proof -
  have same: "same_tables db db" by (simp add: same_tables_def exI [of _ "rb_audit db"])
  show thesis
  proof (cases "require env permission None ctx db")
    case (Inl e)
    then have "reply = Inl e \<and> db' = db" using assms by (auto simp: require_stepup_def)
    then show thesis using same by (intro that(1)) blast+
  next
    case (Inr c)
    then have pol: "policy_allows env db (ax_user ctx) permission None" by (simp add: require_eq split: if_splits)
    show thesis
    proof (cases "permission \<in> set (az_stepup_permissions env) \<and> \<not> mfa_fresh env ctx")
      case True
      then show thesis
        using assms Inr same by (intro that(1)) (auto simp: require_stepup_def same_tables_def split: sum.splits)
    next
      case False
      then have "reply = Inr ctx \<and> db' = db" using assms Inr by (auto simp: require_stepup_def split: if_splits)
      then show thesis using False pol by (intro that(2)) simp_all
    qed
  qed
qed

lemma rbac_api_cases:
  assumes "rbac_api env ctx req db = (reply, db')"
  obtains "same_tables db db'" "\<exists>e. reply = Inl e"
  | "rbac_effect env ctx req db = Inr db'" "policy_allows env db (ax_user ctx) (required_permission req) None" "reply = Inr ()"
    "(\<exists>r body. req = SetRolePermissions r body) \<and> ''permissions.manage'' \<in> set (az_stepup_permissions env) \<Longrightarrow> mfa_fresh env ctx"
proof (cases "\<exists>r body. req = SetRolePermissions r body")
  case True
  then obtain r body where req: "req = SetRolePermissions r body" by blast
  obtain reply1 db1 where st: "require_stepup env ''permissions.manage'' None ctx db = (reply1, db1)" by fastforce
  from st show thesis
  proof (rule stepup_cases)
    assume "same_tables db db1" "\<exists>e. reply1 = Inl e"
    then show thesis using assms st that(1) by (auto simp: req api_set_role_permissions_def)
  next
    assume ok: "reply1 = Inr ctx" "db1 = db" "policy_allows env db (ax_user ctx) ''permissions.manage'' None"
      and fresh: "''permissions.manage'' \<in> set (az_stepup_permissions env) \<Longrightarrow> mfa_fresh env ctx"
    have same: "same_tables db db" by (simp add: same_tables_def exI [of _ "rb_audit db"])
    show thesis
      using assms st ok fresh that same
      by (auto simp: req api_set_role_permissions_def required_permission_def with_role_def Let_def
          split: sum.splits option.splits if_splits)
  qed
next
  case False
  have same: "same_tables db db" by (simp add: same_tables_def exI [of _ "rb_audit db"])
  show thesis
    using assms False that same
    by (cases req) (auto simp: required_permission_def with_role_def api_create_delegation_def elim!: guarded_cases split: if_splits option.splits)
qed

lemma effect_inv:
  assumes inv: "rbac_inv db" and ok: "rbac_effect env ctx req db = Inr db'"
  shows "rbac_inv db'"
proof (cases req)
  case (CreateDelegation u key expires scope)
  then obtain row where "delegate env (ax_user ctx) u key expires scope (Some (ax_user ctx)) db = Inr (row, db')"
    using ok by (auto simp: bind_res_Inr)
  then show ?thesis by (rule delegate_inv [OF inv])
next
  case (RevokeDelegation i)
  with ok have "revoke_delegation env i (Some (ax_user ctx)) db = Inr db'" by simp
  then show ?thesis by (rule revoke_delegation_Inr) (use inv mark_revoked_inv [OF inv] in simp_all)
next
  case (SetRolePermissions r body)
  then show ?thesis
    using ok set_role_permissions_inv [OF inv] by (auto simp: with_role_def dest: get_role_Some split: option.splits)
qed (use ok in \<open>auto simp: with_role_def split: option.splits
      intro: create_role_inv [OF inv] create_group_inv [OF inv] rename_role_inv [OF inv] delete_role_inv [OF inv]
        assign_user_role_inv [OF inv] revokes_inv [OF inv] assign_group_role_inv [OF inv]\<close>)

section \<open>There is always an administrator\<close>

lemma manage_roles_iff:
  "r \<in> set (manage_roles db) \<longleftrightarrow> (\<exists>rp\<in>set (rb_role_permissions db). rp_role rp = r \<and>
     (\<exists>pm\<in>set (rb_permissions db). pm_id pm = rp_permission rp \<and> pm_key pm = ''permissions.manage''))"
  by (auto simp: manage_roles_def)

lemma any_admin_iff:
  "any_admin db \<longleftrightarrow> (\<exists>r\<in>set (manage_roles db). r \<in> ur_role ` set (rb_user_roles db) \<or>
     (\<exists>u gp. (u, gp) \<in> set (rb_user_groups db) \<and> (gp, r) \<in> set (rb_group_roles db)))"
  by (fastforce simp: any_admin_def list_ex_iff)

lemma any_admin_frame:
  assumes "any_admin db" "rb_permissions db' = rb_permissions db" "rb_role_permissions db' = rb_role_permissions db"
    "ur_role ` set (rb_user_roles db) \<subseteq> ur_role ` set (rb_user_roles db')" "rb_user_groups db' = rb_user_groups db"
    "set (rb_group_roles db) \<subseteq> set (rb_group_roles db')"
  shows "any_admin db'"
proof -
  have "manage_roles db' = manage_roles db" by (simp add: manage_roles_def assms)
  then show ?thesis using assms unfolding any_admin_iff by (metis subsetD)
qed

lemma effect_admin:
  assumes adm: "any_admin db" and ok: "rbac_effect env ctx req db = Inr db'"
  shows "any_admin db'"
proof (cases req)
  case (CreateDelegation u key expires scope)
  then obtain row where "delegate env (ax_user ctx) u key expires scope (Some (ax_user ctx)) db = Inr (row, db')"
    using ok by (auto simp: bind_res_Inr)
  then show ?thesis by (rule delegate_Inr) (rule any_admin_frame [OF adm], simp_all)
next
  case (RevokeDelegation i)
  with ok have "revoke_delegation env i (Some (ax_user ctx)) db = Inr db'" by simp
  then show ?thesis by (rule revoke_delegation_Inr) (auto intro: any_admin_frame [OF adm] adm)
next
  case (AssignUserRole u r f t)
  with ok have ok: "assign_user_role env u r (Some (ax_user ctx)) f t db = Inr db'" by simp
  have "ur_role ` set (rb_user_roles db) = snd ` set (map (\<lambda>ur. (ur_user ur, ur_role ur)) (rb_user_roles db))" by force
  also have "\<dots> \<subseteq> snd ` set (map (\<lambda>ur. (ur_user ur, ur_role ur)) (rb_user_roles db'))"
    unfolding assign_user_role_parts(2) [OF ok] by auto
  finally have "ur_role ` set (rb_user_roles db) \<subseteq> ur_role ` set (rb_user_roles db')" by force
  moreover obtain urs where "db' = db\<lparr>rb_user_roles := urs\<rparr>" using assign_user_role_parts(1) [OF ok] by blast
  ultimately show ?thesis by (intro any_admin_frame [OF adm]) simp_all
next
  case (SetRolePermissions r body)
  then show ?thesis
    using ok adm by (auto simp: with_role_def set_role_permissions_def Let_def bind_res_Inr guard_last_admin_Inr split: option.splits if_splits)
qed (use ok adm in \<open>auto simp: with_role_def create_role_def create_group_def rename_role_def delete_role_def Let_def revoke_user_role_def
      assign_group_role_def revoke_group_role_def guard_last_admin_Inr split: option.splits if_splits
      intro: any_admin_frame [OF adm] simp del: find_first_None\<close>)

text \<open>A history of requests, each by some caller at some time.\<close>

definition rbac_run :: "(authz_env \<times> auth_context \<times> rbac_request) list \<Rightarrow> rbac_db \<Rightarrow> rbac_db" where
  "rbac_run reqs db = fold (\<lambda>(env, ctx, req) db. snd (rbac_api env ctx req db)) reqs db"

lemma any_admin_same: "same_tables db db' \<Longrightarrow> any_admin db \<Longrightarrow> any_admin db'"
  by (auto simp: same_tables_def intro: any_admin_frame)

lemma api_keeps:
  assumes "rbac_inv db"
  shows "rbac_inv (snd (rbac_api env ctx req db))" "any_admin db \<Longrightarrow> any_admin (snd (rbac_api env ctx req db))"
proof -
  obtain reply db' where api: "rbac_api env ctx req db = (reply, db')" by fastforce
  from api have "rbac_inv db' \<and> (any_admin db \<longrightarrow> any_admin db')"
  proof (rule rbac_api_cases)
    assume "same_tables db db'"
    then show ?thesis using assms any_admin_same by (auto simp: same_tables_def)
  next
    assume "rbac_effect env ctx req db = Inr db'"
    then show ?thesis using effect_inv [OF assms] effect_admin by blast
  qed
  then show "rbac_inv (snd (rbac_api env ctx req db))" "any_admin db \<Longrightarrow> any_admin (snd (rbac_api env ctx req db))"
    using api by simp_all
qed

text \<open>
  C19. No history of administration requests, whatever the callers and their times, breaks the tables or removes the last
  administrator: keys and (role, permission, scope) triples stay unique, every reference points to a row, scopes stay in the
  vocabulary, stored conditions stay valid, delegations stay bounded and between two users; and if some user was
  assigned \<^verbatim>\<open>permissions.manage\<close> before, some user is afterwards.
\<close>

theorem rbac_history_sound:
  assumes "rbac_inv db" and "any_admin db"
  shows "rbac_inv (rbac_run reqs db) \<and> any_admin (rbac_run reqs db)"
  unfolding rbac_run_def using assms
proof (induction reqs arbitrary: db)
  case (Cons q reqs)
  obtain env ctx req where q: "q = (env, ctx, req)" by (cases q)
  show ?case using Cons.IH api_keeps [OF Cons.prems(1), of env ctx req] Cons.prems(2) by (simp add: q)
qed simp


section \<open>Stored conditions are typed\<close>

lemma rbac_run_inv: "rbac_inv db \<Longrightarrow> rbac_inv (rbac_run reqs db)"
  unfolding rbac_run_def by (induction reqs arbitrary: db) (auto simp: api_keeps(1) split: prod.split)

lemma condition_context_typed: "typed_ctx RBAC_CONTEXT (condition_context now g)"
  by (simp add: typed_ctx_def RBAC_CONTEXT_def condition_context_def dict_get_def)

lemma holds_condition_valid:
  assumes "rbac_inv db" "holds now db u g" "g_condition g = Some c"
  shows "schema_validate RBAC_CONTEXT (PDict c) = Inr ()"
proof -
  from assms(2,3) obtain rp where "rp \<in> set (rb_role_permissions db)" "rp_condition rp = Some c"
    by (auto elim: holds_cases)
  then show ?thesis using rbac_invD(2) [OF assms(1)] by (auto simp: grants_inv_def rp_ok_def)
qed

text \<open>
  C30. Every stored condition passed the write-time check, and decides. After any history of administration requests, the condition of a grant
  somebody holds parses and is accepted for the RBAC context. At a permission check with conditions enabled the decision on the grant is its
  truth value, or a denial if evaluating it raises; and it does not raise if the condition leaves none of the gaps named by \<open>strict_expr\<close>
  (which the check does not look into) and is not nested deeper than the evaluator's limit (which the check does not test).
\<close>

theorem stored_conditions_typed:
  assumes "rbac_inv db" and "holds (az_now env) (rbac_run reqs db) u g" and "g_condition g = Some c"
  shows "\<exists>e. parse_tree (PDict c) = Inr e \<and> schema_validate RBAC_CONTEXT (PDict c) = Inr () \<and>
    (az_conditions_enabled env \<longrightarrow> condition_allows env g = (case evaluate e (condition_context (az_now env) g) of Inr b \<Rightarrow> b | Inl _ \<Rightarrow> False)) \<and>
    (strict_expr e \<and> expr_height e \<le> Suc MAX_DEPTH \<longrightarrow> (\<exists>b. evaluate e (condition_context (az_now env) g) = Inr b))"
proof -
  have valid: "schema_validate RBAC_CONTEXT (PDict c) = Inr ()"
    using holds_condition_valid [OF rbac_run_inv [OF assms(1)] assms(2,3)] .
  then obtain e where e: "parse_tree (PDict c) = Inr e" "check_expr RBAC_CONTEXT e = Inr ()"
    by (auto simp: schema_validate_def bind_res_Inr)
  have "no_datetime RBAC_CONTEXT" using registered_no_datetime by auto
  then have "is_ok (eval_expr e (condition_context (az_now env) g) 0)" if "strict_expr e" "expr_height e \<le> Suc MAX_DEPTH"
    using eval_sound(1) [OF condition_context_typed] e that by simp
  then have "strict_expr e \<and> expr_height e \<le> Suc MAX_DEPTH \<longrightarrow> (\<exists>b. evaluate e (condition_context (az_now env) g) = Inr b)"
    by (simp add: evaluate_def is_ok_iff)
  then show ?thesis using valid e(1) assms(3) by (simp add: condition_allows_def)
qed

section \<open>Seeding\<close>

definition grows :: "rbac_db \<Rightarrow> rbac_db \<Rightarrow> bool" where
  "grows db db' \<longleftrightarrow> set (rb_permissions db) \<subseteq> set (rb_permissions db') \<and>
     (\<forall>ro\<in>set (rb_roles db). \<exists>ro'\<in>set (rb_roles db'). ro_id ro' = ro_id ro \<and> ro_key ro' = ro_key ro \<and> (ro_builtin ro \<longrightarrow> ro_builtin ro')) \<and>
     set (rb_role_permissions db) \<subseteq> set (rb_role_permissions db')"

definition role_seeded :: "string \<Rightarrow> string list \<Rightarrow> rbac_db \<Rightarrow> bool" where
  "role_seeded key grants db \<longleftrightarrow>
     (\<exists>ro\<in>set (rb_roles db). ro_key ro = key \<and> ro_builtin ro \<and>
        (\<forall>k\<in>set grants. \<exists>pm\<in>set (rb_permissions db). pm_key pm = k \<and> (ro_id ro, pm_id pm, ''global'') \<in> rp_key ` set (rb_role_permissions db)))"

definition seeded :: "rbac_db \<Rightarrow> bool" where
  "seeded db \<longleftrightarrow> set PERMISSION_KEYS \<subseteq> pm_key ` set (rb_permissions db) \<and>
     (\<forall>(key, name, grants)\<in>set BUILTIN_ROLES. role_seeded key grants db)"

lemma grows_refl: "grows db db"
  by (auto simp: grows_def)

lemma grows_trans: "grows a b \<Longrightarrow> grows b c \<Longrightarrow> grows a c"
  unfolding grows_def by (intro conjI ballI; elim conjE) (metis subset_trans, metis, metis subset_trans)

lemma role_seeded_grows:
  assumes "grows db db'" "role_seeded key grants db"
  shows "role_seeded key grants db'"
proof -
  from assms(2) obtain ro where ro: "ro \<in> set (rb_roles db)" "ro_key ro = key" "ro_builtin ro"
    "\<forall>k\<in>set grants. \<exists>pm\<in>set (rb_permissions db). pm_key pm = k \<and> (ro_id ro, pm_id pm, ''global'') \<in> rp_key ` set (rb_role_permissions db)"
    unfolding role_seeded_def by blast
  from assms(1) ro obtain ro' where ro': "ro' \<in> set (rb_roles db')" "ro_id ro' = ro_id ro" "ro_key ro' = key" "ro_builtin ro'"
    unfolding grows_def by metis
  have "\<exists>pm\<in>set (rb_permissions db'). pm_key pm = k \<and> (ro_id ro, pm_id pm, ''global'') \<in> rp_key ` set (rb_role_permissions db')"
    if "k \<in> set grants" for k
    using that ro(4) assms(1) unfolding grows_def by (meson image_mono subsetD)
  then show ?thesis unfolding role_seeded_def using ro' by metis
qed

text \<open>The steps of the seed grow the tables and keep the integrity of its rows; so do their folds.\<close>

definition seed_step :: "(rbac_db \<Rightarrow> rbac_db) \<Rightarrow> bool" where
  "seed_step f \<longleftrightarrow> (\<forall>db. rbac_inv db \<longrightarrow> rbac_inv (f db) \<and> grows db (f db))"

lemma seed_step_fold: "\<forall>x\<in>set xs. seed_step (f x) \<Longrightarrow> seed_step (fold f xs)"
proof (induction xs)
  case (Cons x xs)
  then have "seed_step (f x)" "seed_step (fold f xs)" by simp_all
  then show ?case unfolding seed_step_def by (metis comp_apply fold_simps(2) grows_trans)
qed (simp add: seed_step_def grows_refl)

lemma rbac_inv_next: "rbac_inv db \<Longrightarrow> rb_next db \<le> n \<Longrightarrow> rbac_inv (db\<lparr>rb_next := n\<rparr>)"
  using keys_inv_next by (auto simp: rbac_inv_def grants_inv_def assignments_inv_def delegations_inv_def rp_ok_def dl_ok_def)

lemma seed_permission_step: "seed_step (seed_permission area key)"
proof -
  have "rbac_inv (seed_permission area key db) \<and> grows db (seed_permission area key db)" if inv: "rbac_inv db" for db
  proof (cases "key \<in> pm_key ` set (rb_permissions db)")
    case False
    define db' where "db' = seed_permission area key db"
    have db': "db' = db\<lparr>rb_permissions := rb_permissions db @ [\<lparr>pm_id = rb_next db, pm_key = key, pm_area = area\<rparr>],
        rb_next := Suc (rb_next db)\<rparr>" using False by (simp add: db'_def seed_permission_def)
    have "rb_next db \<notin> pm_id ` set (rb_permissions db)" using inv by (auto simp: rbac_inv_defs)
    then have "keys_inv db'" using rbac_invD(1) [OF inv] False by (auto simp: db' keys_inv_def less_Suc_eq)
    moreover have "grants_inv db'" by (rule grants_inv_frame [OF rbac_invD(2) [OF inv]]) (auto simp: db')
    moreover have "assignments_inv db'" by (rule assignments_inv_frame [OF rbac_invD(3) [OF inv]]) (simp_all add: db')
    moreover have "delegations_inv db'" by (rule delegations_inv_frame [OF rbac_invD(4) [OF inv]]) (simp_all add: db')
    moreover have "grows db db'" by (auto simp: db' grows_def)
    ultimately show ?thesis by (simp add: rbac_invI flip: db'_def)
  qed (use inv in \<open>simp add: seed_permission_def grows_refl\<close>)
  then show ?thesis by (simp add: seed_step_def)
qed

lemma seed_role_step: "seed_step (seed_role key name)"
proof -
  have "rbac_inv (seed_role key name db) \<and> grows db (seed_role key name db)" if inv: "rbac_inv db" for db
  proof (cases "key \<in> ro_key ` set (rb_roles db)")
    case False
    define db' where "db' = seed_role key name db"
    have db': "db' = db\<lparr>rb_roles := rb_roles db @ [\<lparr>ro_id = rb_next db, ro_key = key, ro_name = name, ro_builtin = True\<rparr>],
        rb_next := Suc (rb_next db)\<rparr>" using False by (simp add: db'_def seed_role_def)
    have "rb_next db \<notin> ro_id ` set (rb_roles db)" using inv by (auto simp: rbac_inv_defs)
    then have "keys_inv db'" using rbac_invD(1) [OF inv] False by (auto simp: db' keys_inv_def less_Suc_eq)
    moreover have "grants_inv db'" by (rule grants_inv_frame [OF rbac_invD(2) [OF inv]]) (auto simp: db')
    moreover have "assignments_inv db'" by (rule assignments_inv_frame [OF rbac_invD(3) [OF inv]]) (auto simp: db')
    moreover have "delegations_inv db'" by (rule delegations_inv_frame [OF rbac_invD(4) [OF inv]]) (simp_all add: db')
    moreover have "grows db db'" by (auto simp: db' grows_def)
    ultimately show ?thesis by (simp add: rbac_invI flip: db'_def)
  next
    case True
    define rs where "rs = map (\<lambda>ro. if ro_key ro = key then ro\<lparr>ro_builtin := True\<rparr> else ro) (rb_roles db)"
    have rs: "map ro_id rs = map ro_id (rb_roles db)" "map ro_key rs = map ro_key (rb_roles db)"
      "ro_id ` set rs = ro_id ` set (rb_roles db)"
      unfolding rs_def
      using map_update_fields [of ro_id "\<lambda>ro. ro\<lparr>ro_builtin := True\<rparr>" "\<lambda>ro. ro_key ro = key" "rb_roles db"]
        map_update_fields [of ro_key "\<lambda>ro. ro\<lparr>ro_builtin := True\<rparr>" "\<lambda>ro. ro_key ro = key" "rb_roles db"] by simp_all
    have "\<exists>ro'\<in>set rs. ro_id ro' = ro_id ro \<and> ro_key ro' = ro_key ro \<and> (ro_builtin ro \<longrightarrow> ro_builtin ro')" if "ro \<in> set (rb_roles db)" for ro
      using that unfolding rs_def by (intro bexI [of _ "if ro_key ro = key then ro\<lparr>ro_builtin := True\<rparr> else ro"]) auto
    then have "grows db (db\<lparr>rb_roles := rs\<rparr>)" by (simp add: grows_def)
    then show ?thesis using inv rs True by (simp add: seed_role_def rbac_inv_defs rp_ok_def dl_ok_def flip: rs_def)
  qed
  then show ?thesis by (simp add: seed_step_def)
qed

lemma permission_id_iff:
  assumes "keys_inv db"
  shows "permission_id db k = Some p \<longleftrightarrow> (\<exists>pm\<in>set (rb_permissions db). pm_key pm = k \<and> pm_id pm = p)"
proof
  assume "\<exists>pm\<in>set (rb_permissions db). pm_key pm = k \<and> pm_id pm = p"
  then obtain pm where "pm \<in> set (rb_permissions db)" "pm_key pm = k" "pm_id pm = p" by blast
  then show "permission_id db k = Some p"
    using find_first_key [of pm "rb_permissions db" pm_key] assms by (simp add: permission_id_def keys_inv_def)
qed (use permission_id_Some in blast)

definition has_grant :: "uuid \<Rightarrow> string \<Rightarrow> rbac_db \<Rightarrow> bool" where
  "has_grant r k db \<longleftrightarrow>
     (\<exists>pm\<in>set (rb_permissions db). pm_key pm = k \<and> (r, pm_id pm, ''global'') \<in> rp_key ` set (rb_role_permissions db))"

lemma has_grant_grows: "grows db db' \<Longrightarrow> has_grant r k db \<Longrightarrow> has_grant r k db'"
  unfolding has_grant_def grows_def by (meson image_mono subsetD)

lemma role_seeded_alt:
  "role_seeded key grants db \<longleftrightarrow> (\<exists>ro\<in>set (rb_roles db). ro_key ro = key \<and> ro_builtin ro \<and> (\<forall>k\<in>set grants. has_grant (ro_id ro) k db))"
  by (simp add: role_seeded_def has_grant_def)

lemma seed_grant_spec:
  assumes inv: "rbac_inv db" and r: "r \<in> ro_id ` set (rb_roles db)"
  shows "rbac_inv (seed_grant r k db) \<and> grows db (seed_grant r k db) \<and> rb_roles (seed_grant r k db) = rb_roles db \<and>
    rb_permissions (seed_grant r k db) = rb_permissions db \<and> (k \<in> pm_key ` set (rb_permissions db) \<longrightarrow> has_grant r k (seed_grant r k db))"
proof (cases "permission_id db k")
  case None
  then have "k \<notin> pm_key ` set (rb_permissions db)" by (auto simp: permission_id_def)
  then show ?thesis using None inv by (simp add: seed_grant_def grows_refl)
next
  case (Some p)
  then obtain pm where pm: "pm \<in> set (rb_permissions db)" "pm_key pm = k" "pm_id pm = p" using permission_id_Some by blast
  show ?thesis
  proof (cases "(r, p, ''global'') \<in> rp_key ` set (rb_role_permissions db)")
    case True
    then have "has_grant r k db" using pm by (auto simp: has_grant_def)
    then show ?thesis using True Some inv by (simp add: seed_grant_def grows_refl)
  next
    case False
    define new where "new = \<lparr>rp_id = rb_next db, rp_role = r, rp_permission = p, rp_scope = ''global'', rp_condition = None\<rparr>"
    define db' where "db' = db\<lparr>rb_role_permissions := rb_role_permissions db @ [new], rb_next := Suc (rb_next db)\<rparr>"
    have eq: "seed_grant r k db = db'" using Some False by (simp add: seed_grant_def db'_def new_def)
    have key: "rp_key new = (r, p, ''global'')" by (simp add: rp_key_def new_def)
    have "p \<in> pm_id ` set (rb_permissions db)" using pm by blast
    then have "rp_ok db new" using r by (simp add: rp_ok_def new_def SCOPES_def)
    then have "grants_inv db'" using rbac_invD(2) [OF inv] False by (simp add: grants_inv_def rp_ok_def db'_def key)
    moreover have "keys_inv db'" using keys_inv_next [OF rbac_invD(1) [OF inv], of "Suc (rb_next db)"] by (simp add: db'_def keys_inv_def)
    moreover have "assignments_inv db'" by (rule assignments_inv_frame [OF rbac_invD(3) [OF inv]]) (simp_all add: db'_def)
    moreover have "delegations_inv db'" by (rule delegations_inv_frame [OF rbac_invD(4) [OF inv]]) (simp_all add: db'_def)
    moreover have "has_grant r k db'" using pm key by (auto simp: has_grant_def db'_def)
    moreover have "grows db db'" by (auto simp: grows_def db'_def)
    ultimately show ?thesis by (simp add: eq rbac_invI) (simp add: db'_def)
  qed
qed

lemma seed_grants_spec:
  assumes "rbac_inv db" "r \<in> ro_id ` set (rb_roles db)" "set ks \<subseteq> pm_key ` set (rb_permissions db)"
  shows "rbac_inv (fold (seed_grant r) ks db) \<and> grows db (fold (seed_grant r) ks db) \<and> rb_roles (fold (seed_grant r) ks db) = rb_roles db \<and>
    rb_permissions (fold (seed_grant r) ks db) = rb_permissions db \<and> (\<forall>k\<in>set ks. has_grant r k (fold (seed_grant r) ks db))"
  using assms
proof (induction ks arbitrary: db)
  case (Cons k ks)
  define db1 where "db1 = seed_grant r k db"
  have 1: "rbac_inv db1" "grows db db1" "rb_roles db1 = rb_roles db" "rb_permissions db1 = rb_permissions db" "has_grant r k db1"
    using seed_grant_spec [OF Cons.prems(1,2), of k] Cons.prems(3) by (simp_all add: db1_def)
  note IH = Cons.IH [OF 1(1)]
  show ?case
    using IH 1 Cons.prems(2,3) grows_trans [OF 1(2)] has_grant_grows by (simp flip: db1_def) metis
qed (simp add: grows_refl)

lemma get_role_by_key_Some:
  assumes "get_role_by_key key db = Some ro"
  shows "ro \<in> set (rb_roles db)" "ro_key ro = key"
  using find_first_Some [OF assms [unfolded get_role_by_key_def]] by blast+

lemma seed_role_roles:
  "rb_roles (seed_role key name db) =
     (if key \<in> ro_key ` set (rb_roles db) then map (\<lambda>ro. if ro_key ro = key then ro\<lparr>ro_builtin := True\<rparr> else ro) (rb_roles db)
      else rb_roles db @ [\<lparr>ro_id = rb_next db, ro_key = key, ro_name = name, ro_builtin = True\<rparr>])"
  by (simp add: seed_role_def)

lemma seed_role_builtin:
  assumes "get_role_by_key key (seed_role key name db) = Some ro"
  shows "ro_builtin ro"
proof (cases "key \<in> ro_key ` set (rb_roles db)")
  case True
  then obtain x where "ro = (if ro_key x = key then x\<lparr>ro_builtin := True\<rparr> else x)"
    using get_role_by_key_Some(1) [OF assms] by (simp only: seed_role_roles if_True set_map) blast
  then show ?thesis using get_role_by_key_Some(2) [OF assms] by (cases "ro_key x = key") simp_all
next
  case False
  then have "ro \<notin> set (rb_roles db)" using get_role_by_key_Some(2) [OF assms] by blast
  then show ?thesis using get_role_by_key_Some(1) [OF assms] False by (simp add: seed_role_roles)
qed

lemma seed_role_present: "get_role_by_key key (seed_role key name db) \<noteq> None"
proof -
  have "key \<in> ro_key ` set (rb_roles (seed_role key name db))"
  proof (cases "key \<in> ro_key ` set (rb_roles db)")
    case True
    then have "ro_key ` set (rb_roles (seed_role key name db)) = ro_key ` set (rb_roles db)"
      unfolding seed_role_roles by (simp only: if_True, intro map_update_fields) simp
    then show ?thesis using True by simp
  qed (simp add: seed_role_roles)
  then show ?thesis by (auto simp: get_role_by_key_def)
qed

lemma seed_builtin_spec:
  assumes inv: "rbac_inv db" and ks: "set grants \<subseteq> pm_key ` set (rb_permissions db)"
  shows "rbac_inv (seed_builtin key name grants db) \<and> grows db (seed_builtin key name grants db) \<and>
    rb_permissions (seed_builtin key name grants db) = rb_permissions db \<and> role_seeded key grants (seed_builtin key name grants db)"
proof -
  define db1 where "db1 = seed_role key name db"
  have 1: "rbac_inv db1" "grows db db1" using seed_role_step inv unfolding seed_step_def db1_def by blast+
  have perms: "rb_permissions db1 = rb_permissions db" by (simp add: db1_def seed_role_def)
  obtain ro where ro: "get_role_by_key key db1 = Some ro" using seed_role_present unfolding db1_def by blast
  have eq: "seed_builtin key name grants db = fold (seed_grant (ro_id ro)) (sort (remdups grants)) db1"
    using ro by (simp add: seed_builtin_def Let_def flip: db1_def)
  have "ro_id ro \<in> ro_id ` set (rb_roles db1)" using get_role_by_key_Some [OF ro] by blast
  note spec = seed_grants_spec [OF 1(1) this, of "sort (remdups grants)"]
  have "role_seeded key grants (seed_builtin key name grants db)"
    using spec get_role_by_key_Some [OF ro] seed_role_builtin [of key name db ro] ro ks
    unfolding role_seeded_alt eq perms set_sort set_remdups by (metis db1_def)
  then show ?thesis using spec grows_trans [OF 1(2)] ks by (simp add: eq perms)
qed

lemma seed_builtins_spec:
  assumes "rbac_inv db" "\<forall>(key, name, grants)\<in>set roles. set grants \<subseteq> pm_key ` set (rb_permissions db)"
  defines "db' \<equiv> fold (\<lambda>(key, name, grants). seed_builtin key name grants) roles db"
  shows "rbac_inv db' \<and> grows db db' \<and> rb_permissions db' = rb_permissions db \<and>
    (\<forall>(key, name, grants)\<in>set roles. role_seeded key grants db')"
  using assms(1,2) unfolding db'_def
proof (induction roles arbitrary: db)
  case (Cons q roles)
  obtain key name grants where q: "q = (key, name, grants)" by (cases q)
  define db1 where "db1 = seed_builtin key name grants db"
  have 1: "rbac_inv db1" "grows db db1" "rb_permissions db1 = rb_permissions db" "role_seeded key grants db1"
    using seed_builtin_spec [OF Cons.prems(1), of grants key name] Cons.prems(2) by (simp_all add: q db1_def)
  have IH: "rbac_inv (fold (\<lambda>(key, name, grants). seed_builtin key name grants) roles db1) \<and>
      grows db1 (fold (\<lambda>(key, name, grants). seed_builtin key name grants) roles db1) \<and>
      rb_permissions (fold (\<lambda>(key, name, grants). seed_builtin key name grants) roles db1) = rb_permissions db1 \<and>
      (\<forall>(key, name, grants)\<in>set roles. role_seeded key grants (fold (\<lambda>(key, name, grants). seed_builtin key name grants) roles db1))"
    using Cons.IH [OF 1(1)] Cons.prems(2) 1(3) by simp
  then show ?case
    using 1(3) grows_trans [OF 1(2)] role_seeded_grows [OF _ 1(4)] by (simp add: q case_prod_unfold flip: db1_def)
qed (simp add: grows_refl)

lemma catalog_step: "seed_step (fold (\<lambda>(area, keys). fold (seed_permission area) keys) catalog)"
  by (intro seed_step_fold) (auto intro: seed_step_fold seed_permission_step)

lemma seed_permissions_present:
  "set keys \<union> pm_key ` set (rb_permissions db) \<subseteq> pm_key ` set (rb_permissions (fold (seed_permission area) keys db))"
proof (induction keys arbitrary: db)
  case (Cons k keys)
  have "insert k (pm_key ` set (rb_permissions db)) \<subseteq> pm_key ` set (rb_permissions (seed_permission area k db))"
    by (auto simp: seed_permission_def)
  then show ?case using Cons.IH [of "seed_permission area k db"] unfolding fold_simps list.set comp_apply by blast
qed simp

lemma catalog_present:
  "set (concat (map snd catalog)) \<union> pm_key ` set (rb_permissions db) \<subseteq>
     pm_key ` set (rb_permissions (fold (\<lambda>(area, keys). fold (seed_permission area) keys) catalog db))"
proof (induction catalog arbitrary: db)
  case (Cons q catalog)
  obtain area keys where q: "q = (area, keys)" by (cases q)
  show ?case
    using Cons.IH [of "fold (seed_permission area) keys db"] seed_permissions_present [of keys db area]
    by (simp only: q fold_simps prod.case comp_apply list.map concat.simps set_append snd_conv) blast
qed simp

lemma builtin_grants_known: "\<forall>(key, name, grants)\<in>set BUILTIN_ROLES. set grants \<subseteq> set HUMAN_KEYS"
  by code_simp

lemma human_keys_known: "set HUMAN_KEYS \<subseteq> set PERMISSION_KEYS"
  by (auto simp: HUMAN_KEYS_def)

lemma seed_rbac_seeds:
  assumes inv: "rbac_inv db"
  shows "rbac_inv (seed_rbac db)" "grows db (seed_rbac db)" "seeded (seed_rbac db)"
proof -
  define db1 where "db1 = fold (\<lambda>(area, keys). fold (seed_permission area) keys) CATALOG db"
  have 1: "rbac_inv db1" "grows db db1" using catalog_step inv unfolding seed_step_def db1_def by blast+
  have known: "set PERMISSION_KEYS \<subseteq> pm_key ` set (rb_permissions db1)"
    using catalog_present [of CATALOG db] by (simp add: PERMISSION_KEYS_def db1_def)
  have "\<forall>(key, name, grants)\<in>set BUILTIN_ROLES. set grants \<subseteq> pm_key ` set (rb_permissions db1)"
    using builtin_grants_known human_keys_known known by fastforce
  from seed_builtins_spec [OF 1(1) this] grows_trans [OF 1(2)] known
  show "rbac_inv (seed_rbac db)" "grows db (seed_rbac db)" "seeded (seed_rbac db)"
    unfolding seed_rbac_def seeded_def by (auto simp flip: db1_def)
qed

lemma fold_id: "\<forall>x\<in>set xs. f x s = s \<Longrightarrow> fold f xs s = s"
  by (induction xs) simp_all

lemma seed_builtin_id:
  assumes inv: "rbac_inv db" and sd: "role_seeded key grants db"
  shows "seed_builtin key name grants db = db"
proof -
  from sd obtain ro where ro: "ro \<in> set (rb_roles db)" "ro_key ro = key" "ro_builtin ro" "\<forall>k\<in>set grants. has_grant (ro_id ro) k db"
    unfolding role_seeded_alt by blast
  have dist: "distinct (map ro_key (rb_roles db))" using inv by (simp add: rbac_inv_defs)
  have found: "get_role_by_key key db = Some ro"
    using find_first_key [OF ro(1) dist] ro(2) by (simp add: get_role_by_key_def)
  have "(if ro_key x = key then x\<lparr>ro_builtin := True\<rparr> else x) = x" if "x \<in> set (rb_roles db)" for x
  proof (cases "ro_key x = key")
    case True
    then have "x = ro" using that ro(1,2) dist by (metis inj_onD distinct_map)
    then show ?thesis using ro(3) by simp
  qed simp
  then have "map (\<lambda>x. if ro_key x = key then x\<lparr>ro_builtin := True\<rparr> else x) (rb_roles db) = rb_roles db" by (intro map_idI)
  then have role: "seed_role key name db = db" using ro(1,2) by (auto simp: seed_role_def)
  have "seed_grant (ro_id ro) k db = db" if "k \<in> set grants" for k
  proof -
    from that ro(4) obtain pm where pm: "pm \<in> set (rb_permissions db)" "pm_key pm = k"
      "(ro_id ro, pm_id pm, ''global'') \<in> rp_key ` set (rb_role_permissions db)" by (auto simp: has_grant_def)
    then have "permission_id db k = Some (pm_id pm)" using permission_id_iff rbac_invD(1) [OF inv] by blast
    then show ?thesis using pm(3) by (simp add: seed_grant_def)
  qed
  then show ?thesis using role found by (simp add: seed_builtin_def fold_id)
qed

lemma seed_rbac_id:
  assumes inv: "rbac_inv db" and sd: "seeded db"
  shows "seed_rbac db = db"
proof -
  have "fold (seed_permission area) keys db = db" if "(area, keys) \<in> set CATALOG" for area keys
  proof -
    have "set keys \<subseteq> pm_key ` set (rb_permissions db)" using that sd by (force simp: seeded_def PERMISSION_KEYS_def)
    then show ?thesis by (intro fold_id) (auto simp: seed_permission_def)
  qed
  then have "fold (\<lambda>(area, keys). fold (seed_permission area) keys) CATALOG db = db" by (intro fold_id) auto
  moreover have "fold (\<lambda>(key, name, grants). seed_builtin key name grants) BUILTIN_ROLES db = db"
    using sd seed_builtin_id [OF inv] by (intro fold_id) (auto simp: seeded_def)
  ultimately show ?thesis by (simp add: seed_rbac_def)
qed

lemma admin_holds:
  assumes "seeded db" "get_role_by_key ''administrator'' db = Some ro" "rbac_inv db" "ur \<in> set (rb_user_roles db)" "ur_role ur = ro_id ro"
    "in_window now ur" "k \<in> set HUMAN_KEYS"
  shows "\<exists>g. holds now db (ur_user ur) g \<and> g_key g = k \<and> g_scope g = ''global''"
proof -
  have "role_seeded ''administrator'' HUMAN_KEYS db" using assms(1) by (simp add: seeded_def BUILTIN_ROLES_def)
  then obtain ro' where ro': "ro' \<in> set (rb_roles db)" "ro_key ro' = ''administrator''" "has_grant (ro_id ro') k db"
    using assms(7) unfolding role_seeded_alt by blast
  have "ro' = ro"
    using ro'(1,2) get_role_by_key_Some [OF assms(2)] assms(3) by (metis inj_onD distinct_map keys_inv_def rbac_invD(1))
  then obtain pm rp where pm: "pm \<in> set (rb_permissions db)" "pm_key pm = k" and rp: "rp \<in> set (rb_role_permissions db)"
    "rp_key rp = (ro_id ro, pm_id pm, ''global'')" using ro'(3) unfolding has_grant_def by force
  then have "holds now db (ur_user ur) \<lparr>g_key = pm_key pm, g_scope = rp_scope rp, g_condition = rp_condition rp\<rparr>"
    using assms(4-6) by (intro holds.direct) (simp_all add: rp_key_def)
  then show ?thesis using pm rp by (force simp: rp_key_def)
qed

text \<open>
  Seeding is idempotent and sufficient. It keeps the integrity of the tables, adds what is missing and removes nothing, and a second
  run changes nothing at all. Afterwards the \<^verbatim>\<open>administrator\<close> role exists, is built in, and whoever is assigned it inside the validity
  window holds every human permission globally; no built-in role grants a machine-to-machine key.
\<close>

theorem seed_idempotent:
  assumes "rbac_inv db"
  shows "rbac_inv (seed_rbac db) \<and> grows db (seed_rbac db) \<and> seed_rbac (seed_rbac db) = seed_rbac db \<and>
    (\<exists>ro. get_role_by_key ''administrator'' (seed_rbac db) = Some ro \<and> ro_builtin ro \<and>
       (\<forall>ur\<in>set (rb_user_roles (seed_rbac db)). \<forall>k\<in>set HUMAN_KEYS. ur_role ur = ro_id ro \<longrightarrow> in_window now ur \<longrightarrow>
          (\<exists>g. holds now (seed_rbac db) (ur_user ur) g \<and> g_key g = k \<and> g_scope g = ''global''))) \<and>
    (\<forall>(key, name, grants)\<in>set BUILTIN_ROLES. set grants \<inter> set MACHINE_KEYS = {})"
proof -
  note sd = seed_rbac_seeds [OF assms]
  have "role_seeded ''administrator'' HUMAN_KEYS (seed_rbac db)" using sd(3) by (simp add: seeded_def BUILTIN_ROLES_def)
  then obtain ro where ro: "ro \<in> set (rb_roles (seed_rbac db))" "ro_key ro = ''administrator''" "ro_builtin ro"
    unfolding role_seeded_alt by blast
  then have found: "get_role_by_key ''administrator'' (seed_rbac db) = Some ro"
    using find_first_key [of ro "rb_roles (seed_rbac db)" ro_key] sd(1) by (simp add: get_role_by_key_def rbac_inv_defs)
  have "set grants \<inter> set MACHINE_KEYS = {}" if "(key, name, grants) \<in> set BUILTIN_ROLES" for key name grants
    using that builtin_grants_known unfolding HUMAN_KEYS_def by fastforce
  then show ?thesis
    using sd seed_rbac_id [OF sd(1,3)] found ro(3) admin_holds [OF sd(3) found sd(1)] by blast
qed

section \<open>Samples\<close>

definition admin_rbac :: rbac_db where
  "admin_rbac = sample_rbac\<lparr>rb_permissions := [\<lparr>pm_id = 2, pm_key = ''events.view'', pm_area = ''events''\<rparr>,
       \<lparr>pm_id = 7, pm_key = ''permissions.manage'', pm_area = ''users_roles''\<rparr>, \<lparr>pm_id = 8, pm_key = ''roles.manage'', pm_area = ''users_roles''\<rparr>],
     rb_roles := rb_roles sample_rbac @ [\<lparr>ro_id = 9, ro_key = ''admins'', ro_name = ''Admins'', ro_builtin = False\<rparr>],
     rb_role_permissions := rb_role_permissions sample_rbac @
       [\<lparr>rp_id = 10, rp_role = 9, rp_permission = 7, rp_scope = ''global'', rp_condition = None\<rparr>,
        \<lparr>rp_id = 11, rp_role = 9, rp_permission = 8, rp_scope = ''global'', rp_condition = None\<rparr>],
     rb_user_roles := rb_user_roles sample_rbac @
       [\<lparr>ur_user = 5, ur_role = 9, ur_granted_at = 0, ur_granted_by = None, ur_from = None, ur_to = None\<rparr>],
     rb_next := 12\<rparr>"

definition admin_ctx :: auth_context where
  "admin_ctx = \<lparr>ax_user = 5, ax_mfa_verified = Some 1767268700000000\<rparr>"

lemma admin_rbac_inv: "rbac_inv admin_rbac"
proof -
  have "keys_inv admin_rbac" by code_simp
  moreover have "schema_validate RBAC_CONTEXT
     (PDict [(''op'', PStr ''gte''), (''args'', PList [PDict [(''field'', PStr ''now.hour'')], PInt 6])]) = Inr ()" by code_simp
  then have "grants_inv admin_rbac"
    by (simp add: grants_inv_def rp_ok_def rp_key_def admin_rbac_def sample_rbac_def SCOPES_def)
  moreover have "assignments_inv admin_rbac" by code_simp
  moreover have "delegations_inv admin_rbac" by code_simp
  ultimately show ?thesis by (rule rbac_invI)
qed

theorem rbac_history_sound_witness:
  "any_admin (rbac_run [(sample_authz_env, admin_ctx, DeleteRole 9), (sample_authz_env, admin_ctx, RevokeUserRole 5 9)] admin_rbac)"
proof -
  have "any_admin admin_rbac" by code_simp
  from rbac_history_sound [OF admin_rbac_inv this] show ?thesis by blast
qed


theorem stored_conditions_typed_witness:
  "\<exists>e b. parse_tree (PDict [(''op'', PStr ''gte''), (''args'', PList [PDict [(''field'', PStr ''now.hour'')], PInt 6])]) = Inr e \<and>
     evaluate e (condition_context (az_now sample_authz_env) \<lparr>g_key = ''events.view'', g_scope = ''bbz'',
       g_condition = Some [(''op'', PStr ''gte''), (''args'', PList [PDict [(''field'', PStr ''now.hour'')], PInt 6])]\<rparr>) = Inr b"
proof -
  let ?c = "[(''op'', PStr ''gte''), (''args'', PList [PDict [(''field'', PStr ''now.hour'')], PInt 6])]"
  let ?g = "\<lparr>g_key = ''events.view'', g_scope = ''bbz'', g_condition = Some ?c\<rparr>"
  have "?g \<in> set (grants_for_user (az_now sample_authz_env) (rbac_run [] admin_rbac) 1)"
    by (simp add: rbac_run_def grants_for_user_def role_ids_of_def join_permissions_def admin_rbac_def sample_rbac_def in_window_def)
  then have "holds (az_now sample_authz_env) (rbac_run [] admin_rbac) 1 ?g" by (simp add: grants_for_user_iff)
  from stored_conditions_typed [OF admin_rbac_inv this, of ?c] obtain e where e: "parse_tree (PDict ?c) = Inr e"
    "strict_expr e \<and> expr_height e \<le> Suc MAX_DEPTH \<longrightarrow> (\<exists>b. evaluate e (condition_context (az_now sample_authz_env) ?g) = Inr b)" by auto
  have "case parse_tree (PDict ?c) of Inl _ \<Rightarrow> False | Inr e \<Rightarrow> strict_expr e \<and> expr_height e \<le> Suc MAX_DEPTH" by code_simp
  then show ?thesis using e by auto
qed

theorem seed_idempotent_witness: "seed_rbac (seed_rbac admin_rbac) = seed_rbac admin_rbac"
  using seed_idempotent [OF admin_rbac_inv] by blast

section \<open>Where the guards stop short\<close>

text \<open>
  The last-admin guard counts assignments whatever their validity window, and re-assigning a role is not guarded: an administrator who
  sets the end of the only administrator's assignment to a past time is accepted, and afterwards no user passes the guard of
  \<^verbatim>\<open>permissions.manage\<close>, although \<^verbatim>\<open>_any_admin\<close> still answers yes.
\<close>

theorem last_admin_window_lockout:
  "fst (rbac_api sample_authz_env admin_ctx (AssignUserRole 5 9 None (Some 0)) admin_rbac) = Inr () \<and>
   any_admin (snd (rbac_api sample_authz_env admin_ctx (AssignUserRole 5 9 None (Some 0)) admin_rbac)) \<and>
   list_all (\<lambda>u. grants_for (effective_of (grants_for_user (az_now sample_authz_env)
       (snd (rbac_api sample_authz_env admin_ctx (AssignUserRole 5 9 None (Some 0)) admin_rbac)) u)) ''permissions.manage'' = [])
     (rb_users admin_rbac)"
  by code_simp

text \<open>
  A delegation is not bounded by what the delegator holds: the check asks for the permission under any scope, and the scope of the loan
  is the caller's choice. A user who holds \<^verbatim>\<open>events.view\<close> in their own BBZ, under a condition, lends it globally and without one, and
  the loan outlives the delegator's own grant.
\<close>

theorem delegation_widens_scope:
  "map g_scope (grants_for_user (az_now sample_authz_env) sample_rbac 1) = [''bbz''] \<and>
   (case delegate sample_authz_env 1 5 ''events.view'' (az_now sample_authz_env + 1) ''global'' None sample_rbac of
      Inl _ \<Rightarrow> False
    | Inr (_, db) \<Rightarrow> grants_for_user (az_now sample_authz_env) db 5 = [\<lparr>g_key = ''events.view'', g_scope = ''global'', g_condition = None\<rparr>] \<and>
        grants_for_user (az_now sample_authz_env) (ok_of db (revoke_user_role 1 3 db)) 1 = [] \<and>
        grants_for_user (az_now sample_authz_env) (ok_of db (revoke_user_role 1 3 db)) 5 =
          [\<lparr>g_key = ''events.view'', g_scope = ''global'', g_condition = None\<rparr>])"
  by code_simp

end
