(* ===== verification/Sign_In.thy ===== *)
theory Sign_In
  imports Csrf Rbac_Admin
begin

text \<open>
  Signing in and out: role-based MFA policies (\<^verbatim>\<open>infra/repositories/mfa_policy.py\<close>), security keys (\<^verbatim>\<open>infra/repositories/webauthn.py\<close>),
  group mappings (\<^verbatim>\<open>infra/repositories/auth_group_mapping.py\<close>), sign-in by OpenID Connect and by LDAP (\<^verbatim>\<open>infra/repositories/oidc_login.py\<close>,
  \<^verbatim>\<open>auth/oidc/idtoken.py\<close>, \<^verbatim>\<open>ldap_login.py\<close>) and the endpoints over them (\<^verbatim>\<open>api/v1/auth.py\<close>,
  \<^verbatim>\<open>totp.py\<close>, \<^verbatim>\<open>mfa_policies.py\<close>). The identity provider, the directory server and the WebAuthn library are fields of the
  environment.
\<close>

section \<open>Requests as state transformers\<close>

text \<open>A request commits as it goes: it ends with a value or an error, and with the tables it leaves in either case.\<close>

type_synonym 'a act = "account_db \<Rightarrow> (auth_error, 'a) res \<times> account_db"

definition act_ret :: "'a \<Rightarrow> 'a act" where
  "act_ret x db = (Inr x, db)"

definition act_fail :: "auth_error \<Rightarrow> 'a act" where
  "act_fail e db = (Inl e, db)"

definition act_bind :: "'a act \<Rightarrow> ('a \<Rightarrow> 'b act) \<Rightarrow> 'b act" where
  "act_bind m f db = (case m db of (Inl e, db') \<Rightarrow> (Inl e, db') | (Inr x, db') \<Rightarrow> f x db')"

definition act_get :: "(account_db \<Rightarrow> 'a) \<Rightarrow> 'a act" where
  "act_get f db = (Inr (f db), db)"

definition act_do :: "(account_db \<Rightarrow> account_db) \<Rightarrow> unit act" where
  "act_do f db = (Inr (), f db)"

text \<open>One transaction: an error rolls it back.\<close>

definition act_tx :: "(account_db \<Rightarrow> (auth_error, 'a \<times> account_db) res) \<Rightarrow> 'a act" where
  "act_tx f db = (case f db of Inl e \<Rightarrow> (Inl e, db) | Inr (x, db') \<Rightarrow> (Inr x, db'))"

definition act_run :: "(account_db \<Rightarrow> 'a \<times> account_db) \<Rightarrow> 'a act" where
  "act_run f db = (case f db of (x, db') \<Rightarrow> (Inr x, db'))"

section \<open>The world outside\<close>

record webauthn_proof =
  wp_credential :: string
  wp_public :: string
  wp_count :: nat
  wp_aaguid :: string

record ldap_principal =
  lp_uid :: string
  lp_display :: "string option"
  lp_email :: "string option"
  lp_groups :: "string list"

record id_claims =
  ic_subject :: string
  ic_email :: "string option"
  ic_name :: "string option"
  ic_username :: "string option"
  ic_groups :: "string list"

text \<open>
  \<open>sn_json\<close> and \<open>sn_rawid\<close> decode a browser's answer; \<open>sn_attest\<close> and \<open>sn_assert\<close> are the verification of the WebAuthn library;
  \<open>sn_reply\<close> is the token endpoint's answer to a code and a verifier; \<open>sn_header\<close>, \<open>sn_key\<close> and \<open>sn_id_token\<close> are PyJWT's reading of the
  header, of a key of the key set and of the token under a key and an algorithm, with audience, issuer and times checked; \<open>sn_directory\<close>
  is the bind with the directory, \<open>Inl\<close> the name of its error.
\<close>

record signin_env =
  sn_acc :: account_env
  sn_wa_configured :: bool
  sn_wa_ttl :: int
  sn_wa_challenge :: string
  sn_json :: "string \<Rightarrow> pyval option"
  sn_rawid :: "string \<Rightarrow> string option"
  sn_attest :: "string \<Rightarrow> string \<Rightarrow> webauthn_proof option"
  sn_assert :: "string \<Rightarrow> string \<Rightarrow> string \<Rightarrow> nat \<Rightarrow> nat option"
  sn_oidc_configured :: "string \<Rightarrow> bool"
  sn_metadata :: "string \<Rightarrow> bool"
  sn_flow_ttl :: int
  sn_state :: string
  sn_nonce :: string
  sn_verifier :: string
  sn_seal :: "string \<Rightarrow> string"
  sn_unseal :: "string \<Rightarrow> string option"
  sn_reply :: "string \<Rightarrow> string \<Rightarrow> pydict option"
  sn_jwks :: "pydict list option"
  sn_header :: "string \<Rightarrow> pydict option"
  sn_key :: "pydict \<Rightarrow> string option"
  sn_id_token :: "string \<Rightarrow> string \<Rightarrow> string \<Rightarrow> pydict option"
  sn_text :: "pyval \<Rightarrow> string"
  sn_oidc_jit :: bool
  sn_ldap_jit :: bool
  sn_default_role :: string
  sn_ldap_configured :: bool
  sn_directory :: "string \<Rightarrow> string \<Rightarrow> (string, ldap_principal) res"

section \<open>MFA policies\<close>

record mfa_requirement =
  mq_required :: bool
  mq_in_grace :: bool
  mq_grace_until :: "instant option"

definition mfa_blocks :: "mfa_requirement \<Rightarrow> bool \<Rightarrow> bool" where
  "mfa_blocks q satisfied \<longleftrightarrow> mq_required q \<and> \<not> satisfied \<and> \<not> mq_in_grace q"

definition list_policies :: "account_db \<Rightarrow> (string \<times> nat) list" where
  "list_policies db = sort_key fst (ad_policies db)"

definition days :: "nat \<Rightarrow> int" where
  "days n = int n * 86400000000"

definition policy_grants :: "account_env \<Rightarrow> uuid \<Rightarrow> account_db \<Rightarrow> (string \<times> instant) list" where
  "policy_grants env u db =
     (let rb = ad_rbac db; keyed = (\<lambda>r. map ro_key (filter (\<lambda>x. ro_id x = r \<and> ro_key x \<in> fst ` set (ad_policies db)) (rb_roles rb))) in
      concat (map (\<lambda>ur. map (\<lambda>k. (k, ur_granted_at ur)) (keyed (ur_role ur))) (filter (\<lambda>ur. ur_user ur = u) (rb_user_roles rb))) @
      concat (map (\<lambda>(v, g). concat (map (\<lambda>(h, r). map (\<lambda>k. (k, en_added env v g)) (keyed r)) (filter (\<lambda>(h, _). h = g) (rb_group_roles rb))))
        (filter (\<lambda>(v, _). v = u) (rb_user_groups rb))))"

definition mfa_evaluate :: "account_env \<Rightarrow> uuid \<Rightarrow> account_db \<Rightarrow> mfa_requirement" where
  "mfa_evaluate env u db =
     (let grants = policy_grants env u db in
      if ad_policies db = [] \<or> grants = [] then \<lparr>mq_required = False, mq_in_grace = False, mq_grace_until = None\<rparr>
      else (let ds = map (\<lambda>(k, t). t + days (case map_of (ad_policies db) k of Some n \<Rightarrow> n | None \<Rightarrow> 0)) grants;
                deadline = foldl min (hd ds) (tl ds)
            in \<lparr>mq_required = True, mq_in_grace = en_now env < deadline, mq_grace_until = Some deadline\<rparr>))"

definition set_policy :: "account_env \<Rightarrow> string \<Rightarrow> nat \<Rightarrow> uuid option \<Rightarrow> account_db \<Rightarrow> (auth_error, unit \<times> account_db) res" where
  "set_policy env key grace actor db =
     (if key \<notin> ro_key ` set (rb_roles (ad_rbac db)) then Inl (Invalid ''no such role'')
      else map_sum id (\<lambda>db'. ((), db')) (service_audit env ((blank_request ''MFA_POLICY_CHANGED'')\<lparr>rq_actor := actor, rq_target_type := Some ''mfa_policy'',
          rq_target_id := Some key, rq_before := map_option (\<lambda>n. [(''grace_period_days'', PInt (int n))]) (map_of (ad_policies db) key),
          rq_after := Some [(''grace_period_days'', PInt (int grace)), (''op'', PStr ''set'')]\<rparr>)
        (db\<lparr>ad_policies := dict_set key grace (ad_policies db)\<rparr>)))"

definition delete_policy :: "account_env \<Rightarrow> string \<Rightarrow> uuid option \<Rightarrow> account_db \<Rightarrow> (auth_error, unit \<times> account_db) res" where
  "delete_policy env key actor db =
     (case map_of (ad_policies db) key of
        None \<Rightarrow> Inl (Missing ''no MFA policy for that role'')
      | Some n \<Rightarrow>
          map_sum id (\<lambda>db'. ((), db')) (service_audit env ((blank_request ''MFA_POLICY_CHANGED'')\<lparr>rq_actor := actor, rq_target_type := Some ''mfa_policy'',
            rq_target_id := Some key, rq_before := Some [(''grace_period_days'', PInt (int n))], rq_after := Some [(''op'', PStr ''delete'')]\<rparr>)
          (db\<lparr>ad_policies := dict_pop key (ad_policies db)\<rparr>)))"

section \<open>Security keys\<close>

definition creds_for_user :: "uuid \<Rightarrow> account_db \<Rightarrow> webauthn_row list" where
  "creds_for_user u db =
     filter (\<lambda>w. \<exists>a\<in>set (ad_identities db). ai_id a = wk_identity w \<and> ai_user a = u \<and> ai_provider a = ''local'') (ad_keys db)"

definition has_active_key :: "uuid \<Rightarrow> account_db \<Rightarrow> bool" where
  "has_active_key u db = (creds_for_user u db \<noteq> [])"

text \<open>The subject of a challenge: an identity (registration) or a user (authentication).\<close>

definition challenge_for :: "string \<Rightarrow> uuid option \<Rightarrow> uuid option \<Rightarrow> challenge_row \<Rightarrow> bool" where
  "challenge_for kind identity user c \<longleftrightarrow> ch_kind c = kind \<and> (if identity \<noteq> None then ch_identity c = identity else user \<noteq> None \<and> ch_user c = user)"

definition stash_challenge :: "signin_env \<Rightarrow> string \<Rightarrow> uuid option \<Rightarrow> uuid option \<Rightarrow> account_db \<Rightarrow> account_db" where
  "stash_challenge env kind identity user db =
     db\<lparr>ad_challenges := filter (\<lambda>c. \<not> challenge_for kind identity user c) (ad_challenges db) @
       [\<lparr>ch_kind = kind, ch_identity = identity, ch_user = user, ch_challenge = sn_wa_challenge env,
         ch_expires = en_now (sn_acc env) + sn_wa_ttl env * 1000000\<rparr>]\<rparr>"

datatype consume_outcome = NoChallenge | ExpiredChallenge | TheChallenge string

definition consume_challenge :: "signin_env \<Rightarrow> string \<Rightarrow> uuid option \<Rightarrow> uuid option \<Rightarrow> consume_outcome act" where
  "consume_challenge env kind identity user db =
     (case filter (challenge_for kind identity user) (ad_challenges db) of
        [] \<Rightarrow> (Inr NoChallenge, db)
      | [c] \<Rightarrow> (Inr (if ch_expires c < en_now (sn_acc env) then ExpiredChallenge else TheChallenge (ch_challenge c)),
                 db\<lparr>ad_challenges := filter (\<lambda>x. \<not> challenge_for kind identity user x) (ad_challenges db)\<rparr>)
      | _ \<Rightarrow> (Inl ManyRows, db))"

definition begin_registration :: "signin_env \<Rightarrow> uuid \<Rightarrow> unit act" where
  "begin_registration env i =
     (if \<not> sn_wa_configured env then act_fail WebauthnUnavailable else act_do (stash_challenge env ''register'' (Some i) None))"

definition transports_from :: "signin_env \<Rightarrow> string \<Rightarrow> string list" where
  "transports_from env response =
     (case sn_json env response of
        Some (PDict d) \<Rightarrow>
          (case get_default d ''response'' (PDict []) of
             PDict r \<Rightarrow>
               (case py_or (dict_get r ''transports'') (PList []) of
                  PList ts \<Rightarrow> take 6 (concat (map (\<lambda>t. case t of PStr s \<Rightarrow> [s] | _ \<Rightarrow> []) ts))
                | PStr s \<Rightarrow> take 6 (map (\<lambda>c. [c]) s)
                | PDict ks \<Rightarrow> take 6 (map fst ks)
                | _ \<Rightarrow> [])
           | _ \<Rightarrow> [])
      | _ \<Rightarrow> [])"

definition complete_registration :: "signin_env \<Rightarrow> uuid \<Rightarrow> string \<Rightarrow> string \<Rightarrow> uuid \<Rightarrow> webauthn_row act" where
  "complete_registration env i response name actor =
     (if \<not> sn_wa_configured env then act_fail WebauthnUnavailable
      else act_bind (consume_challenge env ''register'' (Some i) None) (\<lambda>c.
        case c of
          TheChallenge ch \<Rightarrow>
            (case sn_attest env response ch of
               None \<Rightarrow> act_fail (Invalid ''registration could not be verified'')
             | Some v \<Rightarrow> act_tx (\<lambda>db.
                 let label = take 80 (py_strip name);
                     row = \<lparr>wk_id = ad_next db, wk_identity = i, wk_credential = wp_credential v, wk_public = wp_public v, wk_count = wp_count v,
                       wk_transports = join_with '','' (transports_from env response), wk_aaguid = wp_aaguid v,
                       wk_name = (if label = [] then ''security key'' else label), wk_created = en_now (sn_acc env), wk_last_used = None\<rparr> in
                 if wp_credential v \<in> wk_credential ` set (ad_keys db) then Inl DuplicateKey
                 else Inr (row, note_audit_row (sn_acc env) ((blank_request ''WEBAUTHN_REGISTERED'')\<lparr>rq_actor := Some actor,
                   rq_target_type := Some ''webauthn_credential'', rq_target_id := Some (en_uuid (sn_acc env) (ad_next db))\<rparr>)
                   (db\<lparr>ad_keys := ad_keys db @ [row], ad_next := Suc (ad_next db)\<rparr>))))
        | _ \<Rightarrow> act_fail (Invalid ''no pending WebAuthn challenge'')))"

definition begin_authentication :: "signin_env \<Rightarrow> uuid \<Rightarrow> unit act" where
  "begin_authentication env u db =
     (if \<not> sn_wa_configured env then (Inl WebauthnUnavailable, db)
      else if creds_for_user u db = [] then (Inl (Missing ''no WebAuthn credential for this account''), db)
      else (Inr (), stash_challenge env ''authenticate'' None (Some u) db))"

definition raw_id :: "signin_env \<Rightarrow> string \<Rightarrow> string option" where
  "raw_id env response =
     (case sn_json env response of
        Some (PDict d) \<Rightarrow> (case map_of d ''rawId'' of Some (PStr s) \<Rightarrow> sn_rawid env s | _ \<Rightarrow> None)
      | _ \<Rightarrow> None)"

definition verify_authentication :: "signin_env \<Rightarrow> uuid \<Rightarrow> string \<Rightarrow> bool act" where
  "verify_authentication env u response =
     (if \<not> sn_wa_configured env then act_fail WebauthnUnavailable
      else act_bind (consume_challenge env ''authenticate'' None (Some u)) (\<lambda>c.
        case c of
          TheChallenge ch \<Rightarrow>
            (case raw_id env response of
               None \<Rightarrow> act_ret False
             | Some rid \<Rightarrow>
                 act_bind (act_get (\<lambda>db. find_first (\<lambda>w. wk_credential w = rid) (creds_for_user u db))) (\<lambda>cred.
                   case cred of
                     None \<Rightarrow> act_ret False
                   | Some w \<Rightarrow>
                       (case sn_assert env response ch (wk_public w) (wk_count w) of
                          None \<Rightarrow> act_ret False
                        | Some n \<Rightarrow> act_bind (act_do (\<lambda>db. db\<lparr>ad_keys := map (\<lambda>x. if wk_id x = wk_id w
                            then x\<lparr>wk_count := n, wk_last_used := Some (en_now (sn_acc env))\<rparr> else x) (ad_keys db)\<rparr>)) (\<lambda>_. act_ret True))))
        | _ \<Rightarrow> act_ret False))"

definition list_credentials :: "uuid \<Rightarrow> account_db \<Rightarrow> webauthn_row list" where
  "list_credentials i db = sort_key wk_created (filter (\<lambda>w. wk_identity w = i) (ad_keys db))"

definition remove_credential :: "signin_env \<Rightarrow> uuid \<Rightarrow> uuid \<Rightarrow> uuid \<Rightarrow> unit act" where
  "remove_credential env k i actor = act_tx (\<lambda>db.
     (case find_first (\<lambda>w. wk_id w = k) (ad_keys db) of
        None \<Rightarrow> Inl (Missing ''credential not found'')
      | Some w \<Rightarrow>
          if wk_identity w \<noteq> i then Inl (Missing ''credential not found'')
          else Inr ((), note_audit_row (sn_acc env) ((blank_request ''WEBAUTHN_REMOVED'')\<lparr>rq_actor := Some actor,
            rq_target_type := Some ''webauthn_credential'', rq_target_id := Some (en_uuid (sn_acc env) k)\<rparr>)
            (db\<lparr>ad_keys := filter (\<lambda>x. wk_id x \<noteq> k) (ad_keys db)\<rparr>))))"

section \<open>Group mappings\<close>

definition list_mappings :: "string option \<Rightarrow> account_db \<Rightarrow> group_mapping list" where
  "list_mappings provider db =
     sort_key gm_provider (sort_key gm_group (sort_key gm_role
       (filter (\<lambda>m. case provider of Some (c # cs) \<Rightarrow> gm_provider m = c # cs | _ \<Rightarrow> True) (ad_mappings db))))"

definition create_mapping :: "account_env \<Rightarrow> string \<Rightarrow> string \<Rightarrow> string \<Rightarrow> uuid option \<Rightarrow> account_db \<Rightarrow> (auth_error, uuid \<times> account_db) res" where
  "create_mapping env provider grp key actor db =
     (let m = \<lparr>gm_id = ad_next db, gm_provider = provider, gm_group = py_strip grp, gm_role = key\<rparr> in
      if key \<notin> ro_key ` set (rb_roles (ad_rbac db)) then Inl (Invalid ''unknown role key'')
      else if \<exists>x\<in>set (ad_mappings db). gm_provider x = provider \<and> gm_group x = py_strip grp \<and> gm_role x = key then Inl DuplicateKey
      else map_sum id (\<lambda>db'. (gm_id m, db')) (service_audit env ((blank_request ''AUTH_MAPPING_CHANGED'')\<lparr>rq_actor := actor,
          rq_target_type := Some ''auth_group_mapping'', rq_target_id := Some (en_uuid env (gm_id m)),
          rq_after := Some [(''provider'', PStr provider), (''group'', PStr grp), (''role'', PStr key), (''op'', PStr ''create'')]\<rparr>)
        (db\<lparr>ad_mappings := ad_mappings db @ [m], ad_next := Suc (ad_next db)\<rparr>)))"

definition delete_mapping :: "account_env \<Rightarrow> uuid \<Rightarrow> uuid option \<Rightarrow> account_db \<Rightarrow> (auth_error, unit \<times> account_db) res" where
  "delete_mapping env i actor db =
     (case find_first (\<lambda>m. gm_id m = i) (ad_mappings db) of
        None \<Rightarrow> Inl (Missing ''mapping not found'')
      | Some m \<Rightarrow>
          map_sum id (\<lambda>db'. ((), db')) (service_audit env ((blank_request ''AUTH_MAPPING_CHANGED'')\<lparr>rq_actor := actor,
            rq_target_type := Some ''auth_group_mapping'', rq_target_id := Some (en_uuid env i),
            rq_before := Some [(''provider'', PStr (gm_provider m)), (''group'', PStr (gm_group m)), (''role'', PStr (gm_role m))],
            rq_after := Some [(''op'', PStr ''delete'')]\<rparr>)
          (db\<lparr>ad_mappings := filter (\<lambda>x. gm_id x \<noteq> i) (ad_mappings db)\<rparr>)))"

definition wanted_roles :: "string \<Rightarrow> string list \<Rightarrow> account_db \<Rightarrow> uuid list" where
  "wanted_roles provider groups db =
     (let keys = map gm_role (filter (\<lambda>m. gm_provider m = provider \<and> gm_group m \<in> set groups) (ad_mappings db)) in
      remdups (map ro_id (filter (\<lambda>r. ro_key r \<in> set keys) (rb_roles (ad_rbac db)))))"

definition mapped_roles :: "uuid \<Rightarrow> string \<Rightarrow> account_db \<Rightarrow> uuid list" where
  "mapped_roles u provider db = map (\<lambda>(_, r, _). r) (filter (\<lambda>(v, _, p). v = u \<and> p = provider) (ad_external db))"

text \<open>
  The synchronisation reads in one transaction what is to be added and removed (and the role keys for the audit rows), and writes in another
  what it then found, so that a mapping or an assignment may change in between: the plan and the write are definitions of their own.
  Recording a role a second time, or a role or user that is gone, violates a constraint of the table.
\<close>

record sync_plan =
  sp_add :: "uuid list"
  sp_remove :: "uuid list"
  sp_keys :: "(uuid \<times> string) list"

definition plan_sync :: "uuid \<Rightarrow> string \<Rightarrow> string list \<Rightarrow> account_db \<Rightarrow> sync_plan" where
  "plan_sync u provider groups db =
     (let wanted = wanted_roles provider groups db; current = mapped_roles u provider db in
      \<lparr>sp_add = filter (\<lambda>r. r \<notin> set current) wanted, sp_remove = remdups (filter (\<lambda>r. r \<notin> set wanted) current),
        sp_keys = map (\<lambda>r. (ro_id r, ro_key r)) (rb_roles (ad_rbac db))\<rparr>)"

definition role_key_value :: "uuid \<Rightarrow> (uuid \<times> string) list \<Rightarrow> pyval" where
  "role_key_value r keys = (case map_of (rev keys) r of Some k \<Rightarrow> PStr k | None \<Rightarrow> PNone)"

definition mapped_role :: "account_env \<Rightarrow> uuid \<Rightarrow> uuid \<Rightarrow> user_role" where
  "mapped_role env u r = \<lparr>ur_user = u, ur_role = r, ur_granted_at = en_now env, ur_granted_by = None, ur_from = None, ur_to = None\<rparr>"

definition sync_add :: "account_env \<Rightarrow> uuid \<Rightarrow> string \<Rightarrow> (uuid \<times> string) list \<Rightarrow> uuid \<Rightarrow> account_db \<Rightarrow> (auth_error, account_db) res" where
  "sync_add env u provider keys r db =
     (let rb = ad_rbac db;
          rb' = (if \<exists>ur\<in>set (rb_user_roles rb). ur_user ur = u \<and> ur_role ur = r then rb
                 else rb\<lparr>rb_user_roles := rb_user_roles rb @ [mapped_role env u r]\<rparr>) in
      if u \<notin> us_id ` set (ad_users db) \<or> r \<notin> ro_id ` set (rb_roles rb) \<or> (u, r, provider) \<in> set (ad_external db) then Inl DuplicateKey
      else service_audit env ((blank_request ''USER_ROLE_ASSIGNED'')\<lparr>rq_target_type := Some ''user'', rq_target_id := Some (en_uuid env u),
          rq_after := Some [(''role'', role_key_value r keys), (''source'', PStr provider)]\<rparr>)
        (db\<lparr>ad_rbac := rb', ad_external := ad_external db @ [(u, r, provider)]\<rparr>))"

definition sync_remove :: "account_env \<Rightarrow> uuid \<Rightarrow> string \<Rightarrow> (uuid \<times> string) list \<Rightarrow> uuid \<Rightarrow> account_db \<Rightarrow> (auth_error, account_db) res" where
  "sync_remove env u provider keys r db =
     service_audit env ((blank_request ''USER_ROLE_REVOKED'')\<lparr>rq_target_type := Some ''user'', rq_target_id := Some (en_uuid env u),
         rq_before := Some [(''role'', role_key_value r keys), (''source'', PStr provider)]\<rparr>)
       (db\<lparr>ad_external := filter (\<lambda>x. x \<noteq> (u, r, provider)) (ad_external db),
          ad_rbac := (ad_rbac db)\<lparr>rb_user_roles := filter (\<lambda>ur. \<not> (ur_user ur = u \<and> ur_role ur = r)) (rb_user_roles (ad_rbac db))\<rparr>\<rparr>)"

definition sync_write :: "account_env \<Rightarrow> uuid \<Rightarrow> string \<Rightarrow> sync_plan \<Rightarrow> account_db \<Rightarrow> (auth_error, account_db) res" where
  "sync_write env u provider plan db =
     bind_res (fold_res (sync_add env u provider (sp_keys plan)) (sp_add plan) db)
       (fold_res (sync_remove env u provider (sp_keys plan)) (sp_remove plan))"

definition sync_user_roles :: "account_env \<Rightarrow> uuid \<Rightarrow> string \<Rightarrow> string list \<Rightarrow> account_db \<Rightarrow> (auth_error, unit \<times> account_db) res" where
  "sync_user_roles env u provider groups db =
     (let plan = plan_sync u provider groups db in
      if sp_add plan = [] \<and> sp_remove plan = [] then Inr ((), db)
      else map_sum id (\<lambda>db'. ((), db')) (sync_write env u provider plan db))"

section \<open>Sign-in by OpenID Connect\<close>

datatype oidc_error = OidcNotConfigured | OidcStateError | OidcIdTokenInvalid | OidcNotProvisioned | OidcUnavailable

definition oidc_error_name :: "oidc_error \<Rightarrow> string" where
  "oidc_error_name e = (case e of OidcNotConfigured \<Rightarrow> ''OidcProviderNotConfigured'' | OidcStateError \<Rightarrow> ''OidcStateError''
     | OidcIdTokenInvalid \<Rightarrow> ''OidcIdTokenInvalid'' | OidcNotProvisioned \<Rightarrow> ''OidcUserNotProvisioned'' | OidcUnavailable \<Rightarrow> ''OidcError'')"

definition translate_oidc :: "oidc_error \<Rightarrow> auth_error" where
  "translate_oidc e = (case e of OidcNotConfigured \<Rightarrow> Missing ''no such OIDC provider'' | OidcUnavailable \<Rightarrow> Unavailable
     | _ \<Rightarrow> Unauthorized ''authentication failed'')"

definition oidc_begin :: "signin_env \<Rightarrow> string \<Rightarrow> uuid option \<Rightarrow> account_db \<Rightarrow> (auth_error, unit \<times> account_db) res" where
  "oidc_begin env provider link db =
     (if provider \<noteq> ''entra_oidc'' \<or> \<not> sn_oidc_configured env provider then Inl (translate_oidc OidcNotConfigured)
      else if \<not> sn_metadata env provider then Inl (translate_oidc OidcUnavailable)
      else if sn_state env \<in> fl_state ` set (ad_flows db) then Inl DuplicateKey
      else Inr ((), db\<lparr>ad_flows := ad_flows db @ [\<lparr>fl_state = sn_state env, fl_provider = provider, fl_nonce = sn_nonce env,
             fl_verifier = sn_seal env (sn_verifier env), fl_link = link, fl_expires = en_now (sn_acc env) + sn_flow_ttl env * 1000000\<rparr>]\<rparr>))"

definition consume_flow :: "signin_env \<Rightarrow> string \<Rightarrow> string \<Rightarrow> account_db \<Rightarrow> (oidc_error, flow_row) res \<times> account_db" where
  "consume_flow env provider st db =
     (case find_first (\<lambda>f. fl_state f = st) (ad_flows db) of
        None \<Rightarrow> (Inl OidcStateError, db)
      | Some f \<Rightarrow>
          if fl_provider f \<noteq> provider then (Inl OidcStateError, db)
          else (if fl_expires f < en_now (sn_acc env) then Inl OidcStateError else Inr f,
                db\<lparr>ad_flows := filter (\<lambda>x. fl_state x \<noteq> st) (ad_flows db)\<rparr>))"

definition ALLOWED_ALGS :: "string list" where
  "ALLOWED_ALGS = [''RS256'', ''RS384'', ''RS512'', ''ES256'', ''ES384'', ''ES512'', ''PS256'', ''PS384'', ''PS512'']"

definition select_jwk :: "signin_env \<Rightarrow> pydict list \<Rightarrow> pyval \<Rightarrow> string option" where
  "select_jwk env jwks kid =
     (let usable = filter (\<lambda>k. dict_get k ''use'' \<in> {PNone, PStr ''sig''}) jwks;
          named = filter (\<lambda>k. dict_get k ''kid'' = kid) usable;
          candidates = (if kid = PNone \<or> named = [] then usable else named)
      in find_first (\<lambda>_. True) (map the (filter (\<lambda>k. k \<noteq> None) (map (sn_key env) candidates))))"

definition claim_text :: "pyval \<Rightarrow> string option" where
  "claim_text v = (case v of PStr (c # cs) \<Rightarrow> Some (c # cs) | _ \<Rightarrow> None)"

definition validate_id_token :: "signin_env \<Rightarrow> string \<Rightarrow> pydict list \<Rightarrow> string \<Rightarrow> (oidc_error, id_claims) res" where
  "validate_id_token env token jwks nonce =
     (case sn_header env token of
        None \<Rightarrow> Inl OidcIdTokenInvalid
      | Some header \<Rightarrow>
          (case dict_get header ''alg'' of
             PStr alg \<Rightarrow>
               if alg \<notin> set ALLOWED_ALGS then Inl OidcIdTokenInvalid
               else (case select_jwk env jwks (dict_get header ''kid'') of
                       None \<Rightarrow> Inl OidcIdTokenInvalid
                     | Some key \<Rightarrow>
                         (case sn_id_token env token key alg of
                            None \<Rightarrow> Inl OidcIdTokenInvalid
                          | Some claims \<Rightarrow>
                              if dict_get claims ''nonce'' \<noteq> PStr nonce then Inl OidcIdTokenInvalid
                              else Inr \<lparr>ic_subject = sn_text env (dict_get claims ''sub''), ic_email = claim_text (dict_get claims ''email''),
                                ic_name = claim_text (dict_get claims ''name''),
                                ic_username = claim_text (dict_get claims ''preferred_username''),
                                ic_groups = (case py_or (dict_get claims ''groups'') (dict_get claims ''roles'') of
                                   PList gs \<Rightarrow> map (sn_text env) gs | _ \<Rightarrow> [])\<rparr>))
           | _ \<Rightarrow> Inl OidcIdTokenInvalid))"

definition exchange_code :: "signin_env \<Rightarrow> string \<Rightarrow> string \<Rightarrow> (oidc_error, string) res" where
  "exchange_code env code verifier =
     (case sn_reply env code verifier of
        None \<Rightarrow> Inl OidcUnavailable
      | Some body \<Rightarrow>
          if has_key body ''error'' then Inl OidcUnavailable
          else (case dict_get body ''id_token'' of PStr (c # cs) \<Rightarrow> Inr (c # cs) | _ \<Rightarrow> Inl OidcUnavailable))"

text \<open>A new user for an external principal, with the default role when it is set and exists.\<close>

definition provision_user :: "signin_env \<Rightarrow> string \<Rightarrow> string \<Rightarrow> string \<Rightarrow> account_db \<Rightarrow> uuid \<times> account_db" where
  "provision_user env provider subject display db =
     (let u = ad_next db; rb = ad_rbac db; role = py_strip (sn_default_role env);
          rb1 = rb\<lparr>rb_users := rb_users rb @ [u]\<rparr>;
          rb2 = (case (if role = [] then None else get_role_by_key role rb) of
                   None \<Rightarrow> rb1
                 | Some r \<Rightarrow> rb1\<lparr>rb_user_roles := rb_user_roles rb @ [\<lparr>ur_user = u, ur_role = ro_id r, ur_granted_at = en_now (sn_acc env),
                     ur_granted_by = None, ur_from = None, ur_to = None\<rparr>]\<rparr>)
      in (u, db\<lparr>ad_users := ad_users db @ [\<lparr>us_id = u, us_name = display, us_active = True, us_external = None\<rparr>],
           ad_identities := ad_identities db @ [\<lparr>ai_id = Suc u, ai_user = u, ai_provider = provider, ai_subject = subject\<rparr>],
           ad_rbac := rb2, ad_next := Suc (Suc u)\<rparr>))"

definition first_text :: "string option list \<Rightarrow> string" where
  "first_text ts = (case find_first (\<lambda>t. t \<noteq> None \<and> t \<noteq> Some []) ts of Some (Some s) \<Rightarrow> s | _ \<Rightarrow> [])"

definition oidc_resolve_user :: "signin_env \<Rightarrow> string \<Rightarrow> id_claims \<Rightarrow> account_db \<Rightarrow> (oidc_error, uuid) res \<times> account_db" where
  "oidc_resolve_user env provider claims db =
     (case find_identity provider (ic_subject claims) db of
        Some a \<Rightarrow> (Inr (ai_user a), db)
      | None \<Rightarrow>
          if \<not> sn_oidc_jit env then (Inl OidcNotProvisioned, db)
          else (case provision_user env provider (ic_subject claims) (first_text [ic_name claims, ic_username claims, ic_email claims]) db of
                  (u, db') \<Rightarrow> (Inr u, db')))"

text \<open>\<open>Inl (Inr e)\<close> is an OIDC error, audited and raised again; \<open>Inl (Inl e)\<close> any other error, raised as it is.\<close>

definition oidc_finish :: "signin_env \<Rightarrow> string \<Rightarrow> flow_row \<Rightarrow> string \<Rightarrow> account_db \<Rightarrow> (auth_error + oidc_error, uuid) res \<times> account_db" where
  "oidc_finish env provider flow code db =
     (case bind_res (if provider \<noteq> ''entra_oidc'' \<or> \<not> sn_oidc_configured env provider then Inl OidcNotConfigured
               else if \<not> sn_metadata env provider then Inl OidcUnavailable else Inr ()) (\<lambda>_.
           bind_res (case sn_unseal env (fl_verifier flow) of None \<Rightarrow> Inl OidcStateError | Some v \<Rightarrow> Inr v) (\<lambda>verifier.
           bind_res (exchange_code env code verifier) (\<lambda>token.
           bind_res (case sn_jwks env of None \<Rightarrow> Inl OidcUnavailable | Some ks \<Rightarrow> Inr ks) (\<lambda>ks.
             validate_id_token env token ks (fl_nonce flow))))) of
        Inl e \<Rightarrow> (Inl (Inr e), db)
      | Inr claims \<Rightarrow>
          (case oidc_resolve_user env provider claims db of
             (Inl e, db1) \<Rightarrow> (Inl (Inr e), db1)
           | (Inr u, db1) \<Rightarrow>
               (case sync_user_roles (sn_acc env) u provider (ic_groups claims) db1 of
                  Inl e \<Rightarrow> (Inl (Inl e), db1)
                | Inr (_, db2) \<Rightarrow> (Inr u, db2))))"

definition login_audit ::
  "account_env \<Rightarrow> string \<Rightarrow> uuid option \<Rightarrow> string option \<Rightarrow> string option \<Rightarrow> string option \<Rightarrow> pydict \<Rightarrow> account_db \<Rightarrow> (auth_error, unit \<times> account_db) res" where
  "login_audit env action actor client workplace target after db =
     map_sum id (\<lambda>db'. ((), db')) (service_audit env ((blank_request action)\<lparr>rq_actor := actor, rq_client := client, rq_workplace := workplace,
       rq_target_type := Some ''login_attempt'', rq_target_id := target, rq_after := Some after\<rparr>) db)"

definition oidc_complete :: "signin_env \<Rightarrow> string \<Rightarrow> string \<Rightarrow> string \<Rightarrow> web_request \<Rightarrow> uuid act" where
  "oidc_complete env provider code st q db =
     (case consume_flow env provider st db of
        (Inl e, db1) \<Rightarrow>
          act_bind (act_tx (login_audit (sn_acc env) ''LOGIN_FAILED'' None (wr_client q) None None
              [(''provider'', PStr provider), (''reason'', PStr (oidc_error_name e))])) (\<lambda>_. act_fail (translate_oidc e)) db1
      | (Inr flow, db1) \<Rightarrow>
          (case oidc_finish env provider flow code db1 of
             (Inl (Inl e), db2) \<Rightarrow> (Inl e, db2)
           | (Inl (Inr e), db2) \<Rightarrow>
               act_bind (act_tx (login_audit (sn_acc env) ''LOGIN_FAILED'' None (wr_client q) None None
                 [(''provider'', PStr provider), (''reason'', PStr (oidc_error_name e))])) (\<lambda>_. act_fail (translate_oidc e)) db2
           | (Inr u, db2) \<Rightarrow>
               act_bind (act_tx (login_audit (sn_acc env) ''LOGIN_SUCCEEDED'' (Some u) (wr_client q) (wr_workplace q) None
                 [(''provider'', PStr provider)])) (\<lambda>_. act_ret u) db2))"

section \<open>Sign-in by LDAP\<close>

definition ldap_resolve_user :: "signin_env \<Rightarrow> ldap_principal \<Rightarrow> account_db \<Rightarrow> (string, uuid) res \<times> account_db" where
  "ldap_resolve_user env p db =
     (case find_identity ''ldap_ad'' (lp_uid p) db of
        Some a \<Rightarrow> (Inr (ai_user a), db)
      | None \<Rightarrow>
          if \<not> sn_ldap_jit env then (Inl ''LdapAuthFailed'', db)
          else (case provision_user env ''ldap_ad'' (lp_uid p) (first_text [lp_display p, lp_email p, Some (lp_uid p)]) db of (u, db') \<Rightarrow> (Inr u, db')))"

text \<open>\<open>None\<close> is any failure of the directory: the caller reports invalid credentials.\<close>

definition ldap_authenticate :: "signin_env \<Rightarrow> string \<Rightarrow> string \<Rightarrow> web_request \<Rightarrow> uuid option act" where
  "ldap_authenticate env username password q db =
     (let failed = (\<lambda>reason. act_bind (act_tx (login_audit (sn_acc env) ''LOGIN_FAILED'' None (wr_client q) None (Some (take 64 username))
            [(''provider'', PStr ''ldap_ad''), (''reason'', PStr reason)])) (\<lambda>_. act_ret None)) in
      if \<not> sn_ldap_configured env then (Inr None, db)
      else (case sn_directory env username password of
              Inl reason \<Rightarrow> failed reason db
            | Inr p \<Rightarrow>
                (case ldap_resolve_user env p db of
                   (Inl reason, db1) \<Rightarrow> failed reason db1
                 | (Inr u, db1) \<Rightarrow>
                     (case sync_user_roles (sn_acc env) u ''ldap_ad'' (lp_groups p) db1 of
                        Inl e \<Rightarrow> (Inl e, db1)
                      | Inr (_, db2) \<Rightarrow>
                          act_bind (act_tx (login_audit (sn_acc env) ''LOGIN_SUCCEEDED'' (Some u) (wr_client q) (wr_workplace q) None
                            [(''provider'', PStr ''ldap_ad'')])) (\<lambda>_. act_ret (Some u)) db2))))"

section \<open>Signing in\<close>

definition local_identity :: "uuid \<Rightarrow> account_db \<Rightarrow> (auth_error, identity_row option) res" where
  "local_identity u db =
     (case filter (\<lambda>a. ai_user a = u \<and> ai_provider a = ''local'') (ad_identities db) of [] \<Rightarrow> Inr None | [a] \<Rightarrow> Inr (Some a) | _ \<Rightarrow> Inl ManyRows)"

definition act_check :: "(account_db \<Rightarrow> (auth_error, 'a) res) \<Rightarrow> 'a act" where
  "act_check f db = (f db, db)"

definition mfa_satisfied :: "uuid \<Rightarrow> account_db \<Rightarrow> (auth_error, bool) res" where
  "mfa_satisfied u db =
     bind_res (local_identity u db) (\<lambda>a.
       Inr (case a of None \<Rightarrow> False | Some i \<Rightarrow> totp_active (ai_id i) db \<or> has_active_key u db))"

record mfa_gate =
  mg_blocked :: bool
  mg_grace :: "instant option"

definition enforce_mfa_policy :: "account_env \<Rightarrow> uuid \<Rightarrow> bool \<Rightarrow> bool \<Rightarrow> account_db \<Rightarrow> mfa_gate" where
  "enforce_mfa_policy env u satisfied external db =
     (if external \<and> \<not> en_enforce_external env then \<lparr>mg_blocked = False, mg_grace = None\<rparr>
      else (let q = mfa_evaluate env u db in
        if mfa_blocks q satisfied then \<lparr>mg_blocked = True, mg_grace = None\<rparr>
        else \<lparr>mg_blocked = False, mg_grace = (if mq_required q \<and> mq_in_grace q \<and> \<not> satisfied then mq_grace_until q else None)\<rparr>))"

record login_response =
  lr_user :: uuid
  lr_name :: string
  lr_active :: bool
  lr_must_change :: bool
  lr_csrf :: string
  lr_grace :: "instant option"
  lr_tokens :: issued_tokens

definition issue_session :: "account_env \<Rightarrow> web_request \<Rightarrow> uuid \<Rightarrow> bool \<Rightarrow> issued_tokens act" where
  "issue_session env q u mfa =
     act_bind (act_tx (session_start env u (wr_client q) (wr_workplace q) (wr_agent q) mfa)) (\<lambda>t.
       act_bind (act_do (note_audit_row env ((blank_request ''SESSION_STARTED'')\<lparr>rq_actor := Some u, rq_client := wr_client q,
         rq_workplace := wr_workplace q, rq_target_type := Some ''session'', rq_target_id := Some (en_uuid env (it_session t))\<rparr>))) (\<lambda>_. act_ret t))"

definition respond :: "account_env \<Rightarrow> user_account \<Rightarrow> bool \<Rightarrow> mfa_gate \<Rightarrow> issued_tokens \<Rightarrow> login_response" where
  "respond env u must_change gate t = \<lparr>lr_user = us_id u, lr_name = us_name u, lr_active = us_active u, lr_must_change = must_change,
     lr_csrf = issue_csrf_token env (it_session t), lr_grace = mg_grace gate, lr_tokens = t\<rparr>"

text \<open>
  The end of an external sign-in (LDAP or OIDC): the role policy is checked against the factors the user has enrolled, and the session is
  marked as verified when there is one.
\<close>

definition external_session :: "account_env \<Rightarrow> web_request \<Rightarrow> user_account \<Rightarrow> audit_request \<Rightarrow> login_response act" where
  "external_session env q u failure =
     act_bind (act_check (mfa_satisfied (us_id u))) (\<lambda>satisfied.
     act_bind (act_get (enforce_mfa_policy env (us_id u) satisfied True)) (\<lambda>gate.
       if mg_blocked gate then act_bind (act_do (note_audit_row env failure)) (\<lambda>_. act_fail MfaRequired)
       else act_bind (issue_session env q (us_id u) satisfied) (\<lambda>t. act_ret (respond env u False gate t))))"

record login_request =
  lq_username :: string
  lq_password :: string
  lq_totp :: "string option"
  lq_webauthn :: "string option"

definition given :: "string option \<Rightarrow> bool" where
  "given s \<longleftrightarrow> s \<noteq> None \<and> s \<noteq> Some []"

definition login_failure :: "web_request \<Rightarrow> login_request \<Rightarrow> uuid option \<Rightarrow> audit_request" where
  "login_failure q body u = (blank_request ''LOGIN_FAILED'')\<lparr>rq_actor := u, rq_client := wr_client q, rq_workplace := wr_workplace q,
     rq_target_type := Some ''login_attempt'', rq_target_id := Some (take 64 (lq_username body))\<rparr>"

text \<open>The second factor of a local sign-in: \<open>True\<close> when one was verified, \<open>False\<close> when the account has none.\<close>

definition challenge_failed :: "account_env \<Rightarrow> web_request \<Rightarrow> uuid \<Rightarrow> 'a act" where
  "challenge_failed env q u =
     act_bind (act_do (note_audit_row env ((blank_request ''MFA_CHALLENGE_FAILED'')\<lparr>rq_actor := Some u, rq_client := wr_client q\<rparr>)))
       (\<lambda>_. act_fail (Unauthorized ''invalid credentials''))"

definition second_factor :: "signin_env \<Rightarrow> web_request \<Rightarrow> login_request \<Rightarrow> uuid \<Rightarrow> uuid option \<Rightarrow> bool \<Rightarrow> bool \<Rightarrow> bool act" where
  "second_factor env q body u aid has_totp has_key_factor =
     (if given (lq_webauthn body) \<and> has_key_factor
      then act_bind (verify_authentication env u (case lq_webauthn body of Some r \<Rightarrow> r | None \<Rightarrow> [])) (\<lambda>ok.
             if ok then act_ret True else challenge_failed (sn_acc env) q u)
      else if has_totp \<and> given (lq_totp body)
      then (case aid of
              None \<Rightarrow> act_fail PyTypeError
            | Some i \<Rightarrow>
                act_bind (act_tx (totp_challenge (sn_acc env) i (case lq_totp body of Some c \<Rightarrow> c | None \<Rightarrow> []))) (\<lambda>r.
                  case r of
                    ChallengeBad \<Rightarrow> challenge_failed (sn_acc env) q u
                  | ChallengeOk \<Rightarrow> act_ret True
                  | RecoveryUsed \<Rightarrow>
                      act_bind (act_do (note_audit_row (sn_acc env) ((blank_request ''MFA_RECOVERY_USED'')\<lparr>rq_actor := Some u\<rparr>))) (\<lambda>_. act_ret True)))
      else if has_key_factor \<or> has_totp
      then (if has_key_factor then act_bind (begin_authentication env u) (\<lambda>_. act_fail WebauthnRequired) else act_fail TotpRequired)
      else act_ret False)"

definition local_session :: "signin_env \<Rightarrow> web_request \<Rightarrow> login_request \<Rightarrow> auth_outcome \<Rightarrow> uuid \<Rightarrow> login_response act" where
  "local_session env q body outcome uid =
     act_bind (act_get (find_user uid)) (\<lambda>found.
       case found of
         None \<Rightarrow> act_fail (Unauthorized ''invalid credentials'')
       | Some u \<Rightarrow>
           act_bind (act_get (\<lambda>db. map_option ai_id (find_identity ''local'' (lq_username body) db))) (\<lambda>aid.
           act_bind (act_get (\<lambda>db. (case aid of None \<Rightarrow> False | Some i \<Rightarrow> totp_active i db, has_active_key (us_id u) db))) (\<lambda>(has_totp, has_key_factor).
           act_bind (act_get (enforce_mfa_policy (sn_acc env) (us_id u) (has_totp \<or> has_key_factor) False)) (\<lambda>gate.
             if mg_blocked gate
             then act_bind (act_do (note_audit_row (sn_acc env) (login_failure q body (Some (us_id u))))) (\<lambda>_. act_fail MfaRequired)
             else
               act_bind (second_factor env q body (us_id u) aid has_totp has_key_factor) (\<lambda>verified.
               act_bind (act_do (note_audit_row (sn_acc env) ((blank_request ''LOGIN_SUCCEEDED'')\<lparr>rq_actor := Some (us_id u), rq_client := wr_client q,
                   rq_workplace := wr_workplace q\<rparr>))) (\<lambda>_.
               act_bind (issue_session (sn_acc env) q (us_id u) verified) (\<lambda>t.
                 act_ret (respond (sn_acc env) u (oc_must_change outcome) gate t))))))))"

definition EXTERNAL_PROVIDERS :: "string list" where
  "EXTERNAL_PROVIDERS = [''entra_oidc'', ''ldap_ad'']"

definition registry_names :: "account_env \<Rightarrow> (auth_error, string list) res" where
  "registry_names env =
     (let wanted = dedupe_from {} (''local'' # en_providers env) in
      case find_first (\<lambda>n. n \<noteq> ''local'' \<and> n \<notin> set EXTERNAL_PROVIDERS) wanted of
        Some n \<Rightarrow> Inl (UnknownProvider n)
      | None \<Rightarrow> Inr wanted)"

definition login :: "signin_env \<Rightarrow> web_request \<Rightarrow> login_request \<Rightarrow> login_response act" where
  "login env q body =
     act_bind (act_check (\<lambda>_. registry_names (sn_acc env))) (\<lambda>names.
     act_bind (act_run (authenticate (sn_acc env) (lq_username body) (lq_password body))) (\<lambda>outcome.
     act_bind (if oc_result outcome = BadCredentials \<and> ''ldap_ad'' \<in> set names
               then act_bind (ldap_authenticate env (lq_username body) (lq_password body) q) (\<lambda>found.
                 (case found of None \<Rightarrow> act_ret None | Some uid \<Rightarrow> act_get (find_user uid)))
               else act_ret None) (\<lambda>ldap_user.
       case ldap_user of
         Some u \<Rightarrow> external_session (sn_acc env) q u (login_failure q body (Some (us_id u)))
       | None \<Rightarrow>
           (case (oc_result outcome, oc_user outcome) of
              (LocalSuccess, Some uid) \<Rightarrow> local_session env q body outcome uid
            | _ \<Rightarrow>
                act_bind (act_do (note_audit_row (sn_acc env)
                    ((login_failure q body None)\<lparr>rq_action := (if oc_result outcome = LocalLocked then ''ACCOUNT_LOCKED'' else ''LOGIN_FAILED'')\<rparr>)))
                  (\<lambda>_. act_fail (Unauthorized ''invalid credentials''))))))"

definition oidc_start :: "signin_env \<Rightarrow> string \<Rightarrow> unit act" where
  "oidc_start env provider = act_tx (oidc_begin env provider None)"

definition oidc_callback :: "signin_env \<Rightarrow> web_request \<Rightarrow> string \<Rightarrow> string \<Rightarrow> string \<Rightarrow> login_response act" where
  "oidc_callback env q provider code st =
     act_bind (oidc_complete env provider code st q) (\<lambda>uid.
     act_bind (act_get (find_user uid)) (\<lambda>found.
       case found of
         None \<Rightarrow> act_fail (Unauthorized ''authentication failed'')
       | Some u \<Rightarrow> external_session (sn_acc env) q u
           ((blank_request ''LOGIN_FAILED'')\<lparr>rq_actor := Some (us_id u), rq_client := wr_client q, rq_workplace := wr_workplace q\<rparr>)))"

section \<open>Staying and going\<close>

definition api_refresh :: "account_env \<Rightarrow> web_request \<Rightarrow> (string \<times> string) act" where
  "api_refresh env q =
     (case wr_refresh q of
        Some (c # cs) \<Rightarrow>
          act_bind (act_tx (session_refresh env (c # cs))) (\<lambda>(access, s). act_ret (access, issue_csrf_token env s))
      | _ \<Rightarrow> act_fail (Unauthorized ''no refresh token''))"

definition logout :: "account_env \<Rightarrow> web_request \<Rightarrow> unit act" where
  "logout env q =
     (case wr_refresh q of
        Some (c # cs) \<Rightarrow>
          act_bind (act_get (get_active_by_refresh (en_sha env (c # cs)))) (\<lambda>found.
          act_bind (act_do (revoke_by_refresh env (c # cs))) (\<lambda>_.
            case found of
              None \<Rightarrow> act_ret ()
            | Some s \<Rightarrow> act_do (note_audit_row env ((blank_request ''SESSION_ENDED'')\<lparr>rq_actor := Some (se_user s),
                rq_target_type := Some ''session'', rq_target_id := Some (en_uuid env (se_id s)), rq_reason := Some ''logout''\<rparr>))))
      | _ \<Rightarrow> act_ret ())"

definition change_password :: "account_env \<Rightarrow> uuid \<times> uuid \<Rightarrow> string \<Rightarrow> string \<Rightarrow> nat act" where
  "change_password env ctx current fresh =
     (if current = [] \<or> fresh = [] \<or> 1024 < length current \<or> 1024 < length fresh then act_fail (Invalid ''body'')
      else act_bind (act_check (local_identity (fst ctx))) (\<lambda>ident.
        act_bind (act_get (\<lambda>db. case ident of None \<Rightarrow> None | Some a \<Rightarrow> find_cred (ai_id a) db)) (\<lambda>cred.
          case (ident, cred) of
            (Some a, Some c) \<Rightarrow>
              if \<not> en_verify env (cd_hash c) current then act_fail (Unauthorized ''the current password is incorrect'')
              else if fresh = current then act_fail (Invalid ''the new password must differ from the current one'')
              else if policy_reasons env fresh (Some (ai_subject a)) \<noteq> [] then act_fail (Invalid ''password policy'')
              else act_run (\<lambda>db.
                (case revoke_where env (\<lambda>s. se_user s = fst ctx \<and> se_id s \<noteq> snd ctx)
                    (update_cred (ai_id a) (\<lambda>x. x\<lparr>cd_hash := en_hash env fresh, cd_must_change := False, cd_failed := 0, cd_locked := None,
                       cd_changed := en_now env\<rparr>) db) of
                   (n, db1) \<Rightarrow> (n, note_audit_row env ((blank_request ''PASSWORD_CHANGED'')\<lparr>rq_actor := Some (fst ctx), rq_target_type := Some ''user'',
                     rq_target_id := Some (en_uuid env (fst ctx))\<rparr>) db1)))
          | _ \<Rightarrow> act_fail (Invalid ''this account has no local password''))))"

definition require_local :: "uuid \<Rightarrow> account_db \<Rightarrow> (auth_error, identity_row) res" where
  "require_local u db =
     (case find_first (\<lambda>a. ai_user a = u \<and> ai_provider a = ''local'') (ad_identities db) of
        None \<Rightarrow> Inl (Missing ''no local login for this account'')
      | Some a \<Rightarrow> Inr a)"

definition api_totp_enrol :: "account_env \<Rightarrow> uuid \<times> uuid \<Rightarrow> unit act" where
  "api_totp_enrol env ctx =
     act_bind (act_check (require_local (fst ctx))) (\<lambda>a.
       act_tx (\<lambda>db. case begin_enrolment env (ai_id a) db of
         Inl CryptoUnavailable \<Rightarrow> Inl (Invalid ''TOTP is not available on this deployment'') | Inl e \<Rightarrow> Inl e | Inr db' \<Rightarrow> Inr ((), db')))"

definition api_totp_activate :: "account_env \<Rightarrow> uuid \<times> uuid \<Rightarrow> string \<Rightarrow> unit act" where
  "api_totp_activate env ctx code =
     act_bind (act_check (require_local (fst ctx))) (\<lambda>a.
     act_bind (act_tx (totp_activate env (ai_id a) code)) (\<lambda>ok.
       if ok then act_do (note_audit_row env ((blank_request ''MFA_ENROLLED'')\<lparr>rq_actor := Some (fst ctx)\<rparr>))
       else act_fail (Invalid ''code did not verify'')))"

definition api_totp_disable :: "account_env \<Rightarrow> uuid \<times> uuid \<Rightarrow> unit act" where
  "api_totp_disable env ctx =
     act_bind (act_check (require_local (fst ctx))) (\<lambda>a.
     act_bind (act_do (totp_disable (ai_id a))) (\<lambda>_.
       act_do (note_audit_row env ((blank_request ''MFA_DISABLED'')\<lparr>rq_actor := Some (fst ctx)\<rparr>))))"

definition step_up :: "signin_env \<Rightarrow> uuid \<times> uuid \<Rightarrow> string option \<Rightarrow> string option \<Rightarrow> unit act" where
  "step_up env ctx totp assertion =
     (let failed = (\<lambda>msg. act_bind (act_do (note_audit_row (sn_acc env) ((blank_request ''MFA_CHALLENGE_FAILED'')\<lparr>rq_actor := Some (fst ctx)\<rparr>)))
            (\<lambda>_. act_fail (Unauthorized msg)));
          fresh = act_do (mark_mfa_verified (sn_acc env) (snd ctx)) in
      if given assertion
      then act_bind (verify_authentication env (fst ctx) (case assertion of Some r \<Rightarrow> r | None \<Rightarrow> [])) (\<lambda>ok.
             if ok then fresh else failed ''invalid assertion'')
      else if \<not> given totp then act_fail (Invalid ''a totp or webauthn value is required'')
      else act_bind (act_check (local_identity (fst ctx))) (\<lambda>ident.
        case ident of
          None \<Rightarrow> act_fail (Invalid ''no local login with MFA for this account'')
        | Some a \<Rightarrow>
            act_bind (act_tx (totp_challenge (sn_acc env) (ai_id a) (case totp of Some c \<Rightarrow> c | None \<Rightarrow> []))) (\<lambda>r.
              case r of
                ChallengeBad \<Rightarrow> failed ''invalid code''
              | ChallengeOk \<Rightarrow> fresh
              | RecoveryUsed \<Rightarrow>
                  act_bind (act_do (note_audit_row (sn_acc env) ((blank_request ''MFA_RECOVERY_USED'')\<lparr>rq_actor := Some (fst ctx)\<rparr>))) (\<lambda>_. fresh))))"

end
