(* ===== verification/Users_Admin.thy ===== *)
theory Users_Admin
  imports Sign_In
begin

text \<open>
  User administration (\<^verbatim>\<open>infra/repositories/users_admin.py\<close>, \<^verbatim>\<open>api/v1/users.py\<close>): creating, renaming, activating and deactivating accounts,
  the administrative password reset, and the guard on the last active administrator. The theory then closes the account
  operations into one history: every call of the sign-in, session, factor and administration endpoints is a value of \<open>account_call\<close>.
\<close>

section \<open>Accounts\<close>

definition list_users :: "bool \<Rightarrow> account_db \<Rightarrow> user_account list" where
  "list_users include_disabled db = sort_key us_name (filter (\<lambda>u. include_disabled \<or> us_active u) (ad_users db))"

definition roles_by_user :: "uuid list option \<Rightarrow> account_db \<Rightarrow> (uuid \<times> string list) list" where
  "roles_by_user ids db =
     (let rows = concat (map (\<lambda>ur. map (\<lambda>r. (ur_user ur, ro_key r)) (filter (\<lambda>r. ro_id r = ur_role ur) (rb_roles (ad_rbac db))))
            (filter (\<lambda>ur. case ids of None \<Rightarrow> True | Some us \<Rightarrow> ur_user ur \<in> set us) (rb_user_roles (ad_rbac db))))
      in map (\<lambda>u. (u, sort (map snd (filter (\<lambda>(v, _). v = u) rows)))) (dedupe_from {} (map fst rows)))"

definition providers_by_user :: "uuid list option \<Rightarrow> account_db \<Rightarrow> (uuid \<times> string list) list" where
  "providers_by_user ids db =
     (let rows = remdups (map (\<lambda>a. (ai_user a, ai_provider a))
            (filter (\<lambda>a. case ids of None \<Rightarrow> True | Some us \<Rightarrow> ai_user a \<in> set us) (ad_identities db)))
      in map (\<lambda>u. (u, sort (map snd (filter (\<lambda>(v, _). v = u) rows)))) (dedupe_from {} (map fst rows)))"

record user_out =
  uo_user :: user_account
  uo_roles :: "string list"
  uo_providers :: "string list"

definition user_out_of :: "user_account \<Rightarrow> account_db \<Rightarrow> user_out" where
  "user_out_of u db = \<lparr>uo_user = u,
     uo_roles = (case map_of (roles_by_user (Some [us_id u]) db) (us_id u) of Some ks \<Rightarrow> ks | None \<Rightarrow> []),
     uo_providers = (case map_of (providers_by_user (Some [us_id u]) db) (us_id u) of Some ps \<Rightarrow> ps | None \<Rightarrow> [])\<rparr>"

definition api_list_users :: "bool \<Rightarrow> account_db \<Rightarrow> user_out list" where
  "api_list_users include_disabled db =
     (let users = list_users include_disabled db; ids = map us_id users;
          roles = roles_by_user (Some ids) db; providers = providers_by_user (Some ids) db in
      map (\<lambda>u. \<lparr>uo_user = u, uo_roles = (case map_of roles (us_id u) of Some ks \<Rightarrow> ks | None \<Rightarrow> []),
        uo_providers = (case map_of providers (us_id u) of Some ps \<Rightarrow> ps | None \<Rightarrow> [])\<rparr>) users)"

record new_user =
  nu_name :: string
  nu_external :: "string option"
  nu_username :: "string option"
  nu_password :: "string option"

datatype users_admin_error = LastActiveAdmin | UsernameTaken | NoLocalLogin | PolicyViolated "policy_reason list" | AdminAudit auth_error | AdminManyRows

definition translate_users_admin :: "users_admin_error \<Rightarrow> auth_error" where
  "translate_users_admin e =
     (case e of LastActiveAdmin \<Rightarrow> Conflict ''cannot deactivate the last user able to manage permissions''
      | UsernameTaken \<Rightarrow> Conflict ''username taken''
      | NoLocalLogin \<Rightarrow> Invalid ''user has no local login''
      | PolicyViolated _ \<Rightarrow> Invalid ''password policy''
      | AdminAudit a \<Rightarrow> a
      | AdminManyRows \<Rightarrow> ManyRows)"

definition local_username_taken :: "string \<Rightarrow> account_db \<Rightarrow> bool" where
  "local_username_taken name db = list_ex (\<lambda>a. ai_provider a = ''local'' \<and> ai_subject a = name) (ad_identities db)"

definition admin_create :: "account_env \<Rightarrow> new_user \<Rightarrow> account_db \<Rightarrow> (users_admin_error, user_account \<times> account_db) res" where
  "admin_create env spec db =
     (let u = \<lparr>us_id = ad_next db, us_name = nu_name spec, us_active = True, us_external = nu_external spec\<rparr>;
          db1 = db\<lparr>ad_users := ad_users db @ [u], ad_rbac := (ad_rbac db)\<lparr>rb_users := rb_users (ad_rbac db) @ [us_id u]\<rparr>, ad_next := Suc (us_id u)\<rparr> in
      case nu_username spec of
        Some (c # cs) \<Rightarrow>
          if local_username_taken (c # cs) db then Inl UsernameTaken
          else (let i = ad_next db1;
                    db2 = db1\<lparr>ad_identities := ad_identities db1 @ [\<lparr>ai_id = i, ai_user = us_id u, ai_provider = ''local'', ai_subject = c # cs\<rparr>],
                      ad_next := Suc i\<rparr> in
                case nu_password spec of
                  Some (d # ds) \<Rightarrow>
                    (case policy_reasons env (d # ds) (Some (c # cs)) of
                       [] \<Rightarrow> Inr (u, db2\<lparr>ad_creds := ad_creds db2 @ [\<lparr>cd_identity = i, cd_hash = en_hash env (d # ds), cd_must_change = True,
                              cd_failed = 0, cd_locked = None, cd_changed = en_now env\<rparr>]\<rparr>)
                     | rs \<Rightarrow> Inl (PolicyViolated rs))
                | _ \<Rightarrow> Inr (u, db2))
      | _ \<Rightarrow> Inr (u, db1))"

definition update_user_row :: "uuid \<Rightarrow> (user_account \<Rightarrow> user_account) \<Rightarrow> account_db \<Rightarrow> account_db" where
  "update_user_row i f db = db\<lparr>ad_users := map (\<lambda>u. if us_id u = i then f u else u) (ad_users db)\<rparr>"

definition admin_update :: "uuid \<Rightarrow> string option \<Rightarrow> string option \<Rightarrow> account_db \<Rightarrow> account_db" where
  "admin_update i name external = update_user_row i (\<lambda>u. u\<lparr>
     us_name := (case name of None \<Rightarrow> us_name u | Some n \<Rightarrow> n),
     us_external := (case external of None \<Rightarrow> us_external u | Some [] \<Rightarrow> None | Some x \<Rightarrow> Some x)\<rparr>)"

section \<open>The last active administrator\<close>

definition holds_admin :: "uuid \<Rightarrow> rbac_db \<Rightarrow> bool" where
  "holds_admin u db \<longleftrightarrow>
     list_ex (\<lambda>ur. ur_user ur = u \<and> ur_role ur \<in> set (manage_roles db)) (rb_user_roles db) \<or>
     list_ex (\<lambda>(v, gp). v = u \<and> list_ex (\<lambda>(gp', r). gp' = gp \<and> r \<in> set (manage_roles db)) (rb_group_roles db)) (rb_user_groups db)"

definition admin_ids :: "rbac_db \<Rightarrow> uuid list" where
  "admin_ids db = remdups
     (map ur_user (filter (\<lambda>ur. ur_role ur \<in> set (manage_roles db)) (rb_user_roles db)) @
      map fst (filter (\<lambda>(_, gp). list_ex (\<lambda>(gp', r). gp' = gp \<and> r \<in> set (manage_roles db)) (rb_group_roles db)) (rb_user_groups db)))"

definition is_last_active_admin :: "uuid \<Rightarrow> account_db \<Rightarrow> bool" where
  "is_last_active_admin u db \<longleftrightarrow> holds_admin u (ad_rbac db) \<and>
     length (remdups (map us_id (filter (\<lambda>x. us_id x \<in> set (admin_ids (ad_rbac db)) \<and> us_active x \<and> us_id x \<noteq> u) (ad_users db)))) = 0"

definition set_active :: "account_env \<Rightarrow> user_account \<Rightarrow> bool \<Rightarrow> uuid option \<Rightarrow> account_db \<Rightarrow> (users_admin_error, nat \<times> account_db) res" where
  "set_active env u active actor db =
     (if \<not> active \<and> is_last_active_admin (us_id u) db then Inl LastActiveAdmin
      else (let db1 = update_user_row (us_id u) (\<lambda>x. x\<lparr>us_active := active\<rparr>) db in
        if active then Inr (0, db1)
        else (let (revoked, db2) = revoke_all_for_user env (us_id u) db1 in
          if \<not> us_active u then Inr (revoked, db2)
          else (case service_audit env ((blank_request ''USER_DEACTIVATED'')\<lparr>rq_actor := actor, rq_target_type := Some ''user'',
                  rq_target_id := Some (en_uuid env (us_id u)), rq_before := Some [(''status'', PStr ''active'')],
                  rq_after := Some [(''status'', PStr ''disabled''), (''sessions_revoked'', PInt (int revoked))]\<rparr>) db2 of
                  Inl e \<Rightarrow> Inl (AdminAudit e)
                | Inr db3 \<Rightarrow> Inr (revoked, db3)))))"

definition admin_reset_password :: "account_env \<Rightarrow> user_account \<Rightarrow> string \<Rightarrow> account_db \<Rightarrow> (users_admin_error, nat \<times> account_db) res" where
  "admin_reset_password env u fresh db =
     (case local_identity (us_id u) db of
        Inl _ \<Rightarrow> Inl AdminManyRows
      | Inr None \<Rightarrow> Inl NoLocalLogin
      | Inr (Some a) \<Rightarrow>
          (case policy_reasons env fresh (Some (ai_subject a)) of
             [] \<Rightarrow>
               Inr (revoke_all_for_user env (us_id u)
                 (if find_cred (ai_id a) db = None
                  then db\<lparr>ad_creds := ad_creds db @ [\<lparr>cd_identity = ai_id a, cd_hash = en_hash env fresh, cd_must_change = True, cd_failed = 0,
                     cd_locked = None, cd_changed = en_now env\<rparr>]\<rparr>
                  else update_cred (ai_id a) (\<lambda>c. c\<lparr>cd_hash := en_hash env fresh, cd_must_change := True, cd_failed := 0, cd_locked := None\<rparr>) db))
           | rs \<Rightarrow> Inl (PolicyViolated rs)))"

section \<open>The endpoints\<close>

definition act_admin :: "(account_db \<Rightarrow> (users_admin_error, 'a \<times> account_db) res) \<Rightarrow> 'a act" where
  "act_admin f = act_tx (\<lambda>db. map_sum translate_users_admin id (f db))"

definition with_user :: "uuid \<Rightarrow> (user_account \<Rightarrow> 'a act) \<Rightarrow> 'a act" where
  "with_user i f = act_bind (act_get (find_user i)) (\<lambda>found. case found of None \<Rightarrow> act_fail (Missing ''user not found'') | Some u \<Rightarrow> f u)"

definition in_range :: "nat \<Rightarrow> nat \<Rightarrow> string option \<Rightarrow> bool" where
  "in_range lo hi s = (case s of None \<Rightarrow> True | Some x \<Rightarrow> lo \<le> length x \<and> length x \<le> hi)"

definition create_user :: "account_env \<Rightarrow> new_user \<Rightarrow> user_out act" where
  "create_user env body =
     (if \<not> (in_range 1 200 (Some (nu_name body)) \<and> in_range 0 255 (nu_external body) \<and> in_range 3 255 (nu_username body)) then act_fail (Invalid ''body'')
      else if given (nu_password body) \<and> \<not> given (nu_username body) then act_fail (Invalid ''initial_password requires local_username'')
      else act_bind (act_admin (admin_create env body)) (\<lambda>u. act_get (user_out_of u)))"

definition get_user :: "uuid \<Rightarrow> user_out act" where
  "get_user i = with_user i (\<lambda>u. act_get (user_out_of u))"

definition update_user :: "uuid \<Rightarrow> string option \<Rightarrow> string option \<Rightarrow> user_out act" where
  "update_user i name external =
     (if \<not> (in_range 1 200 name \<and> in_range 0 255 external) then act_fail (Invalid ''body'')
      else with_user i (\<lambda>u. act_bind (act_do (admin_update (us_id u) name external)) (\<lambda>_. get_user i)))"

definition deactivate_user :: "account_env \<Rightarrow> uuid \<Rightarrow> uuid \<Rightarrow> nat act" where
  "deactivate_user env actor i = with_user i (\<lambda>u. act_admin (set_active env u False (Some actor)))"

definition activate_user :: "account_env \<Rightarrow> uuid \<Rightarrow> user_out act" where
  "activate_user env i = with_user i (\<lambda>u. act_bind (act_admin (set_active env u True None)) (\<lambda>_. get_user i))"

definition reset_password :: "account_env \<Rightarrow> uuid \<Rightarrow> string \<Rightarrow> nat act" where
  "reset_password env i fresh = with_user i (\<lambda>u. act_admin (admin_reset_password env u fresh))"

section \<open>Every call on an account\<close>

datatype account_call =
    CallLogin web_request login_request | CallOidcStart string | CallOidcCallback web_request string string string
  | CallRefresh web_request | CallLogout web_request | CallChangePassword "uuid \<times> uuid" string string
  | CallStepUp "uuid \<times> uuid" "string option" "string option"
  | CallTotpEnrol "uuid \<times> uuid" | CallTotpActivate "uuid \<times> uuid" string | CallTotpDisable "uuid \<times> uuid"
  | CallKeyBegin uuid | CallKeyComplete uuid string string uuid | CallKeyRemove uuid uuid uuid
  | CallSetPolicy string nat uuid | CallDeletePolicy string uuid
  | CallCreateMapping string string string uuid | CallDeleteMapping uuid uuid
  | CallCreateUser new_user | CallUpdateUser uuid "string option" "string option"
  | CallDeactivate uuid uuid | CallActivate uuid | CallResetPassword uuid string

fun account_do :: "signin_env \<Rightarrow> account_call \<Rightarrow> account_db \<Rightarrow> account_db" where
  "account_do env (CallLogin q body) db = snd (login env q body db)"
| "account_do env (CallOidcStart p) db = snd (oidc_start env p db)"
| "account_do env (CallOidcCallback q p code st) db = snd (oidc_callback env q p code st db)"
| "account_do env (CallRefresh q) db = snd (api_refresh (sn_acc env) q db)"
| "account_do env (CallLogout q) db = snd (logout (sn_acc env) q db)"
| "account_do env (CallChangePassword ctx current fresh) db = snd (change_password (sn_acc env) ctx current fresh db)"
| "account_do env (CallStepUp ctx code assertion) db = snd (step_up env ctx code assertion db)"
| "account_do env (CallTotpEnrol ctx) db = snd (api_totp_enrol (sn_acc env) ctx db)"
| "account_do env (CallTotpActivate ctx code) db = snd (api_totp_activate (sn_acc env) ctx code db)"
| "account_do env (CallTotpDisable ctx) db = snd (api_totp_disable (sn_acc env) ctx db)"
| "account_do env (CallKeyBegin i) db = snd (begin_registration env i db)"
| "account_do env (CallKeyComplete i response name actor) db = snd (complete_registration env i response name actor db)"
| "account_do env (CallKeyRemove k i actor) db = snd (remove_credential env k i actor db)"
| "account_do env (CallSetPolicy key grace actor) db = snd (act_tx (set_policy (sn_acc env) key grace (Some actor)) db)"
| "account_do env (CallDeletePolicy key actor) db = snd (act_tx (delete_policy (sn_acc env) key (Some actor)) db)"
| "account_do env (CallCreateMapping p grp key actor) db = snd (act_tx (create_mapping (sn_acc env) p grp key (Some actor)) db)"
| "account_do env (CallDeleteMapping i actor) db = snd (act_tx (delete_mapping (sn_acc env) i (Some actor)) db)"
| "account_do env (CallCreateUser body) db = snd (create_user (sn_acc env) body db)"
| "account_do env (CallUpdateUser i name external) db = snd (update_user i name external db)"
| "account_do env (CallDeactivate actor i) db = snd (deactivate_user (sn_acc env) actor i db)"
| "account_do env (CallActivate i) db = snd (activate_user (sn_acc env) i db)"
| "account_do env (CallResetPassword i fresh) db = snd (reset_password (sn_acc env) i fresh db)"

fun account_run :: "(signin_env \<times> account_call) list \<Rightarrow> account_db \<Rightarrow> account_db" where
  "account_run [] db = db"
| "account_run ((env, c) # cs) db = account_run cs (account_do env c db)"

section \<open>What an operation may do to the sessions\<close>

text \<open>
  The session table only grows: an operation appends sessions under fresh identifiers and refresh tokens, and what it changes of the
  others keeps who they are and never takes a revocation back.
\<close>

definition session_later :: "session_row \<Rightarrow> session_row \<Rightarrow> bool" where
  "session_later s s' \<longleftrightarrow> se_id s' = se_id s \<and> se_user s' = se_user s \<and> se_refresh s' = se_refresh s \<and> (se_revoked s \<noteq> None \<longrightarrow> se_revoked s' \<noteq> None)"

definition sessions_kept :: "account_db \<Rightarrow> account_db \<Rightarrow> bool" where
  "sessions_kept db db' \<longleftrightarrow> ad_next db \<le> ad_next db' \<and> (\<exists>old new. ad_sessions db' = old @ new \<and> list_all2 session_later (ad_sessions db) old \<and>
     distinct (map se_id new) \<and> distinct (map se_refresh new) \<and>
     (\<forall>s\<in>set new. ad_next db \<le> se_id s \<and> se_id s < ad_next db' \<and> se_refresh s \<notin> se_refresh ` set (ad_sessions db)))"

named_theorems kept_intros

definition keeps_sessions :: "'a act \<Rightarrow> bool" where
  "keeps_sessions m \<longleftrightarrow> (\<forall>db. sessions_kept db (snd (m db)))"

lemma session_later_refl [simp]: "session_later s s"
  by (simp add: session_later_def)

lemma sessions_kept_frame: "ad_sessions db' = ad_sessions db \<Longrightarrow> ad_next db \<le> ad_next db' \<Longrightarrow> sessions_kept db db'"
  unfolding sessions_kept_def by (intro conjI exI[of _ "ad_sessions db"] exI[of _ "[]"]) (simp_all add: list.rel_refl)

lemma sessions_kept_refl [simp]: "sessions_kept db db"
  by (simp add: sessions_kept_frame)

lemma later_keys: "list_all2 session_later xs ys \<Longrightarrow> map se_refresh ys = map se_refresh xs \<and> map se_id ys = map se_id xs"
  by (induction rule: list_all2_induct) (simp_all add: session_later_def)

lemma list_all2_split:
  "list_all2 P (xs @ ys) zs \<Longrightarrow> \<exists>us vs. zs = us @ vs \<and> list_all2 P xs us \<and> list_all2 P ys vs"
  by (auto simp: list_all2_append1)

lemma list_all2_source: "list_all2 P xs ys \<Longrightarrow> y \<in> set ys \<Longrightarrow> \<exists>x\<in>set xs. P x y"
  by (induction rule: list_all2_induct) auto

lemma distinct_map_append:
  "distinct (map f xs) \<Longrightarrow> distinct (map f ys) \<Longrightarrow> (\<And>x y. x \<in> set xs \<Longrightarrow> y \<in> set ys \<Longrightarrow> f x \<noteq> f y) \<Longrightarrow> distinct (map f (xs @ ys))"
  by fastforce

lemma sessions_kept_trans:
  assumes "sessions_kept a b" "sessions_kept b c"
  shows "sessions_kept a c"
proof -
  obtain old new where b: "ad_sessions b = old @ new" "list_all2 session_later (ad_sessions a) old" "distinct (map se_id new)" "distinct (map se_refresh new)"
      "\<forall>s\<in>set new. ad_next a \<le> se_id s \<and> se_id s < ad_next b \<and> se_refresh s \<notin> se_refresh ` set (ad_sessions a)" "ad_next a \<le> ad_next b"
    using assms(1) unfolding sessions_kept_def by blast
  obtain old' new' where c: "ad_sessions c = old' @ new'" "list_all2 session_later (ad_sessions b) old'" "distinct (map se_id new')" "distinct (map se_refresh new')"
      "\<forall>s\<in>set new'. ad_next b \<le> se_id s \<and> se_id s < ad_next c \<and> se_refresh s \<notin> se_refresh ` set (ad_sessions b)" "ad_next b \<le> ad_next c"
    using assms(2) unfolding sessions_kept_def by blast
  obtain us vs where split: "old' = us @ vs" "list_all2 session_later old us" "list_all2 session_later new vs"
    using list_all2_split c(2) b(1) by metis
  have keys: "map se_id vs = map se_id new" "map se_refresh vs = map se_refresh new" "map se_refresh old = map se_refresh (ad_sessions a)"
    using later_keys[OF split(3)] later_keys[OF b(2)] by simp_all
  have vs: "ad_next a \<le> se_id s \<and> se_id s < ad_next b \<and> se_refresh s \<in> se_refresh ` set new \<and> se_refresh s \<notin> se_refresh ` set (ad_sessions a)"
    if s: "s \<in> set vs" for s
  proof -
    obtain x where "x \<in> set new" "session_later x s" using list_all2_source[OF split(3) s] by blast
    then show ?thesis using b(5) by (simp add: session_later_def)
  qed
  have new': "ad_next b \<le> se_id s \<and> se_id s < ad_next c \<and> se_refresh s \<notin> se_refresh ` set new \<and> se_refresh s \<notin> se_refresh ` set (ad_sessions a)"
    if "s \<in> set new'" for s
  proof -
    have "se_refresh ` set (ad_sessions a) = set (map se_refresh old)" using keys(3) by simp
    then show ?thesis using that c(5) b(1) by auto
  qed
  have "list_all2 session_later (ad_sessions a) us"
    by (rule list_all2_trans[OF _ b(2) split(2)]) (auto simp: session_later_def)
  moreover have "distinct (map se_id (vs @ new'))"
    using vs new' by (intro distinct_map_append) (auto simp: keys b(3) c(3) dest!: vs new')
  moreover have "distinct (map se_refresh (vs @ new'))"
    using vs new' by (intro distinct_map_append) (auto simp: keys b(4) c(4), metis image_eqI)
  ultimately show ?thesis
    unfolding sessions_kept_def using c(1,6) b(6) split(1) vs new'
    by (intro conjI exI[of _ us] exI[of _ "vs @ new'"]) (auto intro: order.trans order.strict_trans2)
qed

lemma keeps_sessionsD: "keeps_sessions m \<Longrightarrow> m db = (r, db') \<Longrightarrow> sessions_kept db db'"
  unfolding keeps_sessions_def by (metis snd_conv)

lemma keeps_basic [kept_intros]: "keeps_sessions (act_ret x)" "keeps_sessions (act_fail e)" "keeps_sessions (act_get g)" "keeps_sessions (act_check h)"
  by (simp_all add: keeps_sessions_def act_ret_def act_fail_def act_get_def act_check_def)

lemma keeps_act_bind [kept_intros]:
  assumes "keeps_sessions m" "\<And>x. keeps_sessions (f x)"
  shows "keeps_sessions (act_bind m f)"
  unfolding keeps_sessions_def act_bind_def
  using assms sessions_kept_trans by (auto simp: keeps_sessions_def split: prod.split sum.split) (metis snd_conv)+

lemma keeps_do: "(\<And>db. sessions_kept db (f db)) \<Longrightarrow> keeps_sessions (act_do f)"
  by (simp add: keeps_sessions_def act_do_def)

lemma keeps_run: "(\<And>db. sessions_kept db (snd (f db))) \<Longrightarrow> keeps_sessions (act_run f)"
  by (simp add: keeps_sessions_def act_run_def split: prod.split) (metis snd_conv)

lemma keeps_tx: "(\<And>db x db'. f db = Inr (x, db') \<Longrightarrow> sessions_kept db db') \<Longrightarrow> keeps_sessions (act_tx f)"
  by (auto simp: keeps_sessions_def act_tx_def split: sum.split)

lemma map_sum_id_Inr: "map_sum f id r = Inr y \<longleftrightarrow> r = Inr y"
  by (cases r) auto

lemma keeps_admin: "(\<And>db x db'. f db = Inr (x, db') \<Longrightarrow> sessions_kept db db') \<Longrightarrow> keeps_sessions (act_admin f)"
  unfolding act_admin_def by (rule keeps_tx) (auto simp: map_sum_id_Inr)

lemma keeps_with_user [kept_intros]: "(\<And>u. keeps_sessions (f u)) \<Longrightarrow> keeps_sessions (with_user i f)"
  unfolding with_user_def by (intro kept_intros) (auto intro: kept_intros split: option.split)

section \<open>Every operation keeps the sessions\<close>

lemma note_audit_frame [simp]: "ad_sessions (note_audit_row env rq db) = ad_sessions db" "ad_next (note_audit_row env rq db) = ad_next db"
  by (simp_all add: note_audit_row_def)

lemma service_audit_frame: "service_audit env rq db = Inr db' \<Longrightarrow> ad_sessions db' = ad_sessions db \<and> ad_next db' = ad_next db"
  by (auto simp: service_audit_def split: sum.splits)

lemma service_audit_kept: "service_audit env rq db1 = Inr db' \<Longrightarrow> sessions_kept db db1 \<Longrightarrow> sessions_kept db db'"
  using service_audit_frame[of env rq db1 db'] sessions_kept_trans sessions_kept_frame by fastforce

lemma update_cred_frame [simp]: "ad_sessions (update_cred i f db) = ad_sessions db" "ad_next (update_cred i f db) = ad_next db"
  by (simp_all add: update_cred_def)

lemma update_sessions_kept: "(\<And>s. p s \<Longrightarrow> session_later s (f s)) \<Longrightarrow> sessions_kept db (update_sessions p f db)"
  unfolding sessions_kept_def update_sessions_def
  by (intro conjI exI[of _ "map (\<lambda>s. if p s then f s else s) (ad_sessions db)"] exI[of _ "[]"]) (auto simp: list.rel_map intro: list.rel_refl_strong)

lemma session_moves_kept [simp]: "sessions_kept db (session_touch env i db)" "sessions_kept db (mark_mfa_verified env i db)"
  "sessions_kept db (snd (revoke_where env p db))" "sessions_kept db (revoke_by_refresh env h db)" "sessions_kept db (snd (revoke_all_for_user env u db))"
  by (auto simp: session_touch_def mark_mfa_verified_def revoke_where_def revoke_by_refresh_def revoke_all_for_user_def session_later_def
      intro!: update_sessions_kept)

lemma revoke_where_kept: "revoke_where env p db1 = (n, db2) \<Longrightarrow> sessions_kept db db1 \<Longrightarrow> sessions_kept db db2"
  using session_moves_kept(3)[of db1 env p] sessions_kept_trans by auto

lemma revoke_all_kept: "revoke_all_for_user env u db1 = (n, db2) \<Longrightarrow> sessions_kept db db1 \<Longrightarrow> sessions_kept db db2"
  unfolding revoke_all_for_user_def by (rule revoke_where_kept)

lemma note_audit_kept [simp]: "sessions_kept db db1 \<Longrightarrow> sessions_kept db (note_audit_row env rq db1)"
  by (erule sessions_kept_trans) (simp add: sessions_kept_frame)

lemma update_cred_kept [simp]: "sessions_kept db (update_cred i f db)"
  by (simp add: sessions_kept_frame)

lemma sessions_kept_append:
  "ad_sessions db' = ad_sessions db @ [r] \<Longrightarrow> ad_next db \<le> se_id r \<Longrightarrow> se_id r < ad_next db' \<Longrightarrow> se_refresh r \<notin> se_refresh ` set (ad_sessions db)
   \<Longrightarrow> sessions_kept db db'"
  unfolding sessions_kept_def by (intro conjI exI[of _ "ad_sessions db"] exI[of _ "[r]"]) (simp_all add: list.rel_refl)

lemma session_create_kept: "session_create env u h e c w a mfa db = Inr (s, db') \<Longrightarrow> sessions_kept db db'"
  by (auto simp: session_create_def split: if_splits intro!: sessions_kept_append)

lemma keeps_issue_session [kept_intros]: "keeps_sessions (issue_session env q u mfa)"
  unfolding issue_session_def
  by (intro kept_intros keeps_tx keeps_do) (auto simp: session_start_def bind_res_Inr sessions_kept_frame dest: session_create_kept)

lemma keeps_note [kept_intros]: "keeps_sessions (act_do (note_audit_row env rq))"
  by (intro keeps_do sessions_kept_frame) simp_all

lemma authenticate_frame: "authenticate env n p db = (r, db') \<Longrightarrow> ad_sessions db' = ad_sessions db \<and> ad_next db' = ad_next db"
  by (auto simp: authenticate_def carry_out_def Let_def cred_record_failure_def cred_reset_failures_def cred_update_hash_def
      split: option.splits verdict.splits if_splits prod.splits)

lemma keeps_authenticate [kept_intros]: "keeps_sessions (act_run (authenticate env n p))"
  by (rule keeps_run) (metis authenticate_frame order_refl prod.collapse sessions_kept_frame)

lemma challenge_frame: "totp_challenge env i code db = Inr (r, db') \<Longrightarrow> ad_sessions db' = ad_sessions db \<and> ad_next db' = ad_next db"
  by (auto simp: totp_challenge_def totp_record_step_def consume_recovery_def bind_res_Inr split: option.splits if_splits prod.splits)

lemma keeps_challenge [kept_intros]: "keeps_sessions (act_tx (totp_challenge env i code))"
  by (rule keeps_tx) (metis challenge_frame order_refl sessions_kept_frame)

lemma keeps_consume_challenge [kept_intros]: "keeps_sessions (consume_challenge env kind i u)"
  unfolding keeps_sessions_def consume_challenge_def by (auto intro!: sessions_kept_frame split: list.split)

lemma keeps_verify_authentication [kept_intros]: "keeps_sessions (verify_authentication env u response)"
  unfolding verify_authentication_def
  by (auto intro!: kept_intros keeps_do sessions_kept_frame split: consume_outcome.split option.split)

lemma keeps_begin_authentication [kept_intros]: "keeps_sessions (begin_authentication env u)"
  unfolding keeps_sessions_def begin_authentication_def by (auto simp: stash_challenge_def intro!: sessions_kept_frame)

lemma keeps_login_audit [kept_intros]: "keeps_sessions (act_tx (login_audit env action actor client workplace target after))"
  unfolding login_audit_def by (rule keeps_tx) (auto split: sum.splits simp: map_sum_def intro: service_audit_kept)

lemma map_sum_pair_Inr: "map_sum id (\<lambda>d. (x, d)) r = Inr (y, db) \<longleftrightarrow> y = x \<and> r = Inr db"
  by (cases r) auto

lemma audited_kept: "map_sum id (\<lambda>d. (x, d)) (service_audit env rq db1) = Inr (y, db') \<Longrightarrow> sessions_kept db db1 \<Longrightarrow> sessions_kept db db'"
  by (auto simp: map_sum_pair_Inr intro: service_audit_kept)

lemma sync_add_kept: "sync_add env u p ks r db = Inr db' \<Longrightarrow> sessions_kept db db'"
  unfolding sync_add_def Let_def by (split if_split_asm, simp, erule service_audit_kept) (rule sessions_kept_frame; simp)

lemma sync_remove_kept: "sync_remove env u p ks r db = Inr db' \<Longrightarrow> sessions_kept db db'"
  unfolding sync_remove_def Let_def by (erule service_audit_kept) (rule sessions_kept_frame; simp)

lemma fold_res_kept:
  assumes "\<And>x db db'. f x db = Inr db' \<Longrightarrow> sessions_kept db db'"
  shows "fold_res f xs db = Inr db' \<Longrightarrow> sessions_kept db db'"
proof (induction xs arbitrary: db)
  case (Cons x xs)
  then obtain db1 where "f x db = Inr db1" "fold_res f xs db1 = Inr db'" by (auto simp: bind_res_Inr)
  then show ?case using Cons.IH assms sessions_kept_trans by blast
qed simp

lemma sync_user_roles_kept:
  assumes "sync_user_roles env u p gs db = Inr (x, db')"
  shows "sessions_kept db db'"
proof -
  consider "db' = db" | add rm ks db1 where "fold_res (sync_add env u p ks) add db = Inr db1" "fold_res (sync_remove env u p ks) rm db1 = Inr db'"
    using assms by (auto simp: sync_user_roles_def sync_write_def Let_def bind_res_Inr map_sum_pair_Inr split: if_splits)
  then show ?thesis
  proof cases
    case 2
    then have "sessions_kept db db1" "sessions_kept db1 db'"
      by (meson fold_res_kept sync_add_kept sync_remove_kept)+
    then show ?thesis by (rule sessions_kept_trans)
  qed (simp add: sessions_kept_frame)
qed

lemma provision_frame: "provision_user env p sub d db = (u, db') \<Longrightarrow> sessions_kept db db'"
  by (auto simp: provision_user_def Let_def intro!: sessions_kept_frame)

lemma consume_flow_kept: "consume_flow env p st db = (r, db') \<Longrightarrow> sessions_kept db db'"
  by (auto simp: consume_flow_def intro!: sessions_kept_frame split: option.splits if_splits)

lemma oidc_resolve_kept: "oidc_resolve_user env p claims db = (r, db') \<Longrightarrow> sessions_kept db db'"
  by (auto simp: oidc_resolve_user_def split: option.splits if_splits prod.splits dest: provision_frame)

lemma ldap_resolve_kept: "ldap_resolve_user env p db = (r, db') \<Longrightarrow> sessions_kept db db'"
  by (auto simp: ldap_resolve_user_def split: option.splits if_splits prod.splits dest: provision_frame)

lemma oidc_finish_kept: "oidc_finish env p flow code db = (r, db') \<Longrightarrow> sessions_kept db db'"
  unfolding oidc_finish_def
  by (auto split: sum.splits prod.splits simp del: bind_res_Inr dest!: oidc_resolve_kept sync_user_roles_kept intro: sessions_kept_trans)

lemma keeps_after: "keeps_sessions m \<Longrightarrow> sessions_kept db db1 \<Longrightarrow> sessions_kept db (snd (m db1))"
  unfolding keeps_sessions_def using sessions_kept_trans by blast

lemma keeps_oidc_complete [kept_intros]: "keeps_sessions (oidc_complete env p code st q)"
proof -
  have audited: "sessions_kept db (snd (act_bind (act_tx (login_audit e a b c d f g)) (\<lambda>_. act_fail r) db1))"
    "sessions_kept db (snd (act_bind (act_tx (login_audit e a b c d f g)) (\<lambda>_. act_ret v) db1))" if "sessions_kept db db1" for e a b c d f g r v db db1
    by (rule keeps_after[OF _ that], intro kept_intros)+
  have "sessions_kept db (snd (oidc_complete env p code st q db))" for db
    unfolding oidc_complete_def
    by (auto split: prod.split sum.split intro!: audited dest!: consume_flow_kept oidc_finish_kept intro: sessions_kept_trans)
  then show ?thesis by (simp add: keeps_sessions_def)
qed

lemma keeps_ldap_authenticate [kept_intros]: "keeps_sessions (ldap_authenticate env n p q)"
proof -
  have audited: "sessions_kept db (snd (act_bind (act_tx (login_audit e a b c d f g)) (\<lambda>_. act_ret v) db1))" if "sessions_kept db db1"
    for e a b c d f g v db db1
    by (rule keeps_after[OF _ that], intro kept_intros)
  have "sessions_kept db (snd (ldap_authenticate env n p q db))" for db
    unfolding ldap_authenticate_def Let_def
    by (auto split: prod.split sum.split intro!: audited dest!: ldap_resolve_kept sync_user_roles_kept intro: sessions_kept_trans)
  then show ?thesis by (simp add: keeps_sessions_def)
qed

lemma keeps_external_session [kept_intros]: "keeps_sessions (external_session env q u failure)"
  unfolding external_session_def by (auto intro!: kept_intros)

lemma keeps_second_factor [kept_intros]: "keeps_sessions (second_factor env q body u aid t k)"
  unfolding second_factor_def challenge_failed_def by (auto intro!: kept_intros split: option.split challenge_result.split)

lemma keeps_local_session [kept_intros]: "keeps_sessions (local_session env q body outcome u)"
  unfolding local_session_def by (auto intro!: kept_intros split: option.split)

lemma keeps_login [kept_intros]: "keeps_sessions (login env q body)"
  unfolding login_def by (auto intro!: kept_intros split: option.split local_result.split)

lemma keeps_oidc_callback [kept_intros]: "keeps_sessions (oidc_callback env q p code st)"
  unfolding oidc_callback_def by (auto intro!: kept_intros split: option.split)

lemma keeps_oidc_start [kept_intros]: "keeps_sessions (oidc_start env p)"
  unfolding oidc_start_def by (rule keeps_tx) (auto simp: oidc_begin_def intro!: sessions_kept_frame split: if_splits)

lemma keeps_refresh [kept_intros]: "keeps_sessions (api_refresh env q)"
  unfolding api_refresh_def
  by (auto intro!: kept_intros keeps_tx simp: session_refresh_def split: option.splits list.split if_splits)

lemma keeps_logout [kept_intros]: "keeps_sessions (logout env q)"
  unfolding logout_def by (auto intro!: kept_intros keeps_do split: option.split list.split)

lemma keeps_change_password [kept_intros]: "keeps_sessions (change_password env ctx current fresh)"
proof -
  have "sessions_kept db (snd (case revoke_where env p (update_cred i f db) of (n, db1) \<Rightarrow> (n, note_audit_row env rq db1)))" for db p i f rq
    by (auto split: prod.split dest!: revoke_where_kept[where db = db])
  then show ?thesis
    unfolding change_password_def by (auto intro!: kept_intros keeps_run split: option.split)
qed

lemma keeps_totp [kept_intros]: "keeps_sessions (api_totp_enrol env ctx)" "keeps_sessions (api_totp_activate env ctx code)"
  "keeps_sessions (api_totp_disable env ctx)"
  unfolding api_totp_enrol_def api_totp_activate_def api_totp_disable_def
  by (auto intro!: kept_intros keeps_tx keeps_do sessions_kept_frame
      simp: begin_enrolment_def start_enrolment_def totp_activate_def activate_row_def totp_disable_def bind_res_Inr
      split: option.splits if_splits sum.splits auth_error.splits)

lemma keeps_step_up [kept_intros]: "keeps_sessions (step_up env ctx code assertion)"
  unfolding step_up_def Let_def by (auto intro!: kept_intros keeps_do split: option.split challenge_result.split)

lemma keeps_keys [kept_intros]: "keeps_sessions (begin_registration env i)" "keeps_sessions (complete_registration env i response name actor)"
  "keeps_sessions (remove_credential env k i actor)"
  unfolding begin_registration_def complete_registration_def remove_credential_def
  by (auto intro!: kept_intros keeps_tx keeps_do sessions_kept_frame simp: stash_challenge_def Let_def
      split: option.splits consume_outcome.split if_splits)

lemma keeps_policies [kept_intros]: "keeps_sessions (act_tx (set_policy env key grace actor))" "keeps_sessions (act_tx (delete_policy env key actor))"
  "keeps_sessions (act_tx (create_mapping env p grp key actor))" "keeps_sessions (act_tx (delete_mapping env i actor))"
  by (rule keeps_tx, auto simp: set_policy_def delete_policy_def create_mapping_def delete_mapping_def Let_def
      split: if_splits option.splits elim!: audited_kept intro!: sessions_kept_frame)+

lemma admin_create_kept: "admin_create env spec db = Inr (u, db') \<Longrightarrow> sessions_kept db db'"
  by (auto simp: admin_create_def Let_def intro!: sessions_kept_frame split: option.splits list.splits if_splits)

lemma user_row_kept [simp]: "sessions_kept db (update_user_row i f db)"
  by (auto simp: update_user_row_def intro!: sessions_kept_frame)

lemma set_active_kept: "set_active env u a actor db = Inr (n, db') \<Longrightarrow> sessions_kept db db'"
  unfolding set_active_def Let_def
  by (auto split: if_splits prod.splits sum.splits dest!: revoke_all_kept[where db = db] intro: service_audit_kept)

lemma reset_kept: "admin_reset_password env u fresh db = Inr (n, db') \<Longrightarrow> sessions_kept db db'"
  unfolding admin_reset_password_def
  by (auto split: sum.splits option.splits list.splits if_splits dest!: revoke_all_kept[where db = db] intro: sessions_kept_frame)

lemma keeps_users [kept_intros]: "keeps_sessions (create_user env body)" "keeps_sessions (get_user i)" "keeps_sessions (update_user i name external)"
  "keeps_sessions (deactivate_user env actor i)" "keeps_sessions (activate_user env i)" "keeps_sessions (reset_password env i fresh)"
  unfolding create_user_def get_user_def update_user_def deactivate_user_def activate_user_def reset_password_def admin_update_def
  by (auto intro!: kept_intros keeps_admin keeps_do dest: admin_create_kept set_active_kept reset_kept)

lemmas keeps_calls = keeps_login keeps_oidc_start keeps_oidc_callback keeps_refresh keeps_logout keeps_change_password keeps_step_up keeps_totp
  keeps_keys keeps_policies keeps_users

lemma account_do_kept: "sessions_kept db (account_do env c db)"
  by (cases c) (simp_all add: keeps_calls[unfolded keeps_sessions_def])

lemma account_run_kept: "sessions_kept db (account_run cs db)"
  by (induction cs db rule: account_run.induct) (auto intro: sessions_kept_trans account_do_kept)

section \<open>Signed out stays out\<close>

definition account_inv :: "account_db \<Rightarrow> bool" where
  "account_inv db \<longleftrightarrow> distinct (map se_id (ad_sessions db)) \<and> distinct (map se_refresh (ad_sessions db)) \<and> (\<forall>s\<in>set (ad_sessions db). se_id s < ad_next db)"

text \<open>The calls that end a session: signing out with its refresh token, changing the password in another one, and the administrator's two.\<close>

definition succeeds :: "(auth_error, 'a) res \<times> account_db \<Rightarrow> bool" where
  "succeeds r = (case fst r of Inl _ \<Rightarrow> False | Inr _ \<Rightarrow> True)"

fun ends_session :: "signin_env \<Rightarrow> account_call \<Rightarrow> session_row \<Rightarrow> account_db \<Rightarrow> bool" where
  "ends_session env (CallLogout q) r db = (given (wr_refresh q) \<and> wr_refresh q \<noteq> None \<and> se_refresh r = en_sha (sn_acc env) (the (wr_refresh q)))"
| "ends_session env (CallChangePassword ctx current fresh) r db =
     (se_user r = fst ctx \<and> se_id r \<noteq> snd ctx \<and> succeeds (change_password (sn_acc env) ctx current fresh db))"
| "ends_session env (CallDeactivate actor u) r db = (se_user r = u \<and> succeeds (deactivate_user (sn_acc env) actor u db))"
| "ends_session env (CallResetPassword u fresh) r db = (se_user r = u \<and> succeeds (reset_password (sn_acc env) u fresh db))"
| "ends_session env _ r db = False"

definition gone :: "session_row \<Rightarrow> account_db \<Rightarrow> bool" where
  "gone r db \<longleftrightarrow> (\<forall>x\<in>set (ad_sessions db). se_id x = se_id r \<or> se_refresh x = se_refresh r \<longrightarrow> se_revoked x \<noteq> None) \<and>
     se_id r < ad_next db \<and> se_refresh r \<in> se_refresh ` set (ad_sessions db)"

lemma account_inv_kept:
  assumes "account_inv db" "sessions_kept db db'"
  shows "account_inv db'"
proof -
  obtain old new where s: "ad_sessions db' = old @ new" "list_all2 session_later (ad_sessions db) old" "distinct (map se_id new)" "distinct (map se_refresh new)"
      "\<forall>s\<in>set new. ad_next db \<le> se_id s \<and> se_id s < ad_next db' \<and> se_refresh s \<notin> se_refresh ` set (ad_sessions db)" "ad_next db \<le> ad_next db'"
    using assms(2) unfolding sessions_kept_def by blast
  have keys: "map se_id old = map se_id (ad_sessions db)" "map se_refresh old = map se_refresh (ad_sessions db)"
    using later_keys[OF s(2)] by simp_all
  then have sets: "se_id ` set old = se_id ` set (ad_sessions db)" "se_refresh ` set old = se_refresh ` set (ad_sessions db)"
    by (metis list.set_map)+
  have old: "se_id x < ad_next db" if "x \<in> set old" for x
    using that sets(1) assms(1) by (auto simp: account_inv_def) (metis imageE image_eqI)
  then have "x \<in> set (old @ new) \<Longrightarrow> se_id x < ad_next db'" for x
    using s(5,6) by (auto intro: order.strict_trans2)
  moreover have "distinct (map se_id (old @ new))"
    using old s(5) assms(1) by (intro distinct_map_append) (auto simp: keys s(3) account_inv_def, fastforce)
  moreover have "distinct (map se_refresh (old @ new))"
  proof (rule distinct_map_append)
    show "distinct (map se_refresh old)" using assms(1) keys(2) by (simp add: account_inv_def)
    show "se_refresh x \<noteq> se_refresh y" if "x \<in> set old" "y \<in> set new" for x y
      using that s(5) sets(2) by (metis image_eqI)
  qed (rule s(4))
  ultimately show ?thesis unfolding account_inv_def s(1) by blast
qed

lemma gone_kept:
  assumes "gone r db" "sessions_kept db db'"
  shows "gone r db'"
proof -
  obtain old new where s: "ad_sessions db' = old @ new" "list_all2 session_later (ad_sessions db) old"
      "\<forall>s\<in>set new. ad_next db \<le> se_id s \<and> se_refresh s \<notin> se_refresh ` set (ad_sessions db)" "ad_next db \<le> ad_next db'"
    using assms(2) unfolding sessions_kept_def by blast
  have "se_refresh ` set old = se_refresh ` set (ad_sessions db)"
    using later_keys[OF s(2)] by (metis list.set_map)
  moreover have "se_revoked x \<noteq> None" if x: "x \<in> set old" "se_id x = se_id r \<or> se_refresh x = se_refresh r" for x
  proof -
    obtain y where "y \<in> set (ad_sessions db)" "session_later y x" using list_all2_source[OF s(2) x(1)] by blast
    then show ?thesis using x(2) assms(1) by (auto simp: gone_def session_later_def)
  qed
  moreover have "x \<in> set new \<Longrightarrow> se_id x \<noteq> se_id r \<and> se_refresh x \<noteq> se_refresh r" for x
    using assms(1) s(3) by (auto simp: gone_def)
  ultimately show ?thesis
    using assms(1) s(4) unfolding gone_def s(1) by (auto simp del: split_paired_All)
qed

lemma gone_if_revoked:
  assumes "account_inv db" "r \<in> set (ad_sessions db)" "sessions_kept db db'"
    and revoked: "\<And>x. x \<in> set (ad_sessions db') \<Longrightarrow> se_user x = se_user r \<Longrightarrow> se_id x = se_id r \<Longrightarrow> se_refresh x = se_refresh r \<Longrightarrow> se_revoked x \<noteq> None"
  shows "gone r db'"
proof -
  obtain old new where s: "ad_sessions db' = old @ new" "list_all2 session_later (ad_sessions db) old"
      "\<forall>s\<in>set new. ad_next db \<le> se_id s \<and> se_refresh s \<notin> se_refresh ` set (ad_sessions db)" "ad_next db \<le> ad_next db'"
    using assms(3) unfolding sessions_kept_def by blast
  have "se_revoked x \<noteq> None" if x: "x \<in> set old" "se_id x = se_id r \<or> se_refresh x = se_refresh r" for x
  proof -
    obtain y where y: "y \<in> set (ad_sessions db)" "session_later y x" using list_all2_source[OF s(2) x(1)] by blast
    then have "y = r" using x(2) assms(1,2) by (auto simp: account_inv_def session_later_def distinct_map dest: inj_onD)
    then show ?thesis using y(2) revoked x(1) s(1) by (auto simp: session_later_def)
  qed
  moreover have "se_id r < ad_next db" using assms(1,2) by (auto simp: account_inv_def)
  moreover have "se_refresh r \<in> se_refresh ` set old"
    using later_keys[OF s(2)] assms(2) by (metis image_eqI list.set_map)
  moreover have "x \<in> set new \<Longrightarrow> se_id x \<noteq> se_id r \<and> se_refresh x \<noteq> se_refresh r" for x
    using s(3) assms(2) \<open>se_id r < ad_next db\<close> by auto
  ultimately show ?thesis
    using s(4) unfolding gone_def s(1) by auto
qed

lemma revoked_by_where:
  assumes "revoke_where env p db = (n, db')" "x \<in> set (ad_sessions db')" "p x" "\<And>y v. p (y\<lparr>se_revoked := v\<rparr>) = p y"
  shows "se_revoked x \<noteq> None"
  using assms by (auto simp: revoke_where_def update_sessions_def split: if_splits)

lemma act_bind_succeeds: "succeeds (act_bind m f db) \<Longrightarrow> \<exists>x db'. m db = (Inr x, db') \<and> succeeds (f x db') \<and> act_bind m f db = f x db'"
  by (auto simp: succeeds_def act_bind_def split: prod.splits sum.splits)

lemma revoked_by_user:
  assumes "revoke_all_for_user env u db = (n, db')" "x \<in> set (ad_sessions db')" "se_user x = u"
  shows "se_revoked x \<noteq> None"
  using revoked_by_where[OF assms(1)[unfolded revoke_all_for_user_def] assms(2)] assms(3) by simp

lemma set_active_revokes:
  "set_active env u False actor db = Inr (n, db') \<Longrightarrow> x \<in> set (ad_sessions db') \<Longrightarrow> se_user x = us_id u \<Longrightarrow> se_revoked x \<noteq> None"
  by (auto simp: set_active_def Let_def split: if_splits prod.splits sum.splits dest!: service_audit_frame dest: revoked_by_user)

lemma reset_revokes:
  "admin_reset_password env u fresh db = Inr (n, db') \<Longrightarrow> x \<in> set (ad_sessions db') \<Longrightarrow> se_user x = us_id u \<Longrightarrow> se_revoked x \<noteq> None"
  by (auto simp: admin_reset_password_def split: sum.splits option.splits list.splits dest: revoked_by_user)

lemma with_user_admin_succeeds:
  assumes "succeeds (with_user i (\<lambda>u. act_admin (f u)) db)"
  shows "\<exists>u n db'. us_id u = i \<and> f u db = Inr (n, db') \<and> snd (with_user i (\<lambda>u. act_admin (f u)) db) = db'"
  using assms
  by (auto simp: with_user_def succeeds_def act_bind_def act_get_def act_fail_def act_admin_def act_tx_def find_user_def map_sum_id_Inr
      split: option.splits sum.splits dest!: find_first_Some)

lemma change_password_revokes:
  assumes "succeeds (change_password env ctx current fresh db)" "x \<in> set (ad_sessions (snd (change_password env ctx current fresh db)))"
    "se_user x = fst ctx" "se_id x \<noteq> snd ctx"
  shows "se_revoked x \<noteq> None"
  using assms
  by (auto simp: change_password_def succeeds_def act_fail_def act_bind_def act_check_def act_get_def act_run_def revoke_where_def update_sessions_def
      split: if_splits option.splits sum.splits prod.splits)

lemma logout_revokes:
  assumes "wr_refresh q = Some t" "t \<noteq> []" "x \<in> set (ad_sessions (snd (logout env q db)))" "se_refresh x = en_sha env t"
  shows "se_revoked x \<noteq> None"
  using assms
  by (auto simp: logout_def act_bind_def act_get_def act_do_def act_ret_def revoke_by_refresh_def revoke_where_def update_sessions_def
      split: list.splits option.splits if_splits)

lemma ended_is_gone:
  assumes inv: "account_inv db" and r: "r \<in> set (ad_sessions db)" and ends: "ends_session env c r db"
  shows "gone r (account_do env c db)"
proof (rule gone_if_revoked[OF inv r account_do_kept])
  fix x
  assume x: "x \<in> set (ad_sessions (account_do env c db))" "se_user x = se_user r" "se_id x = se_id r" "se_refresh x = se_refresh r"
  from ends consider
      (out) q t where "c = CallLogout q" "wr_refresh q = Some t" "t \<noteq> []" "se_refresh r = en_sha (sn_acc env) t"
    | (change) ctx current fresh where "c = CallChangePassword ctx current fresh" "se_user r = fst ctx" "se_id r \<noteq> snd ctx"
        "succeeds (change_password (sn_acc env) ctx current fresh db)"
    | (off) actor u where "c = CallDeactivate actor u" "se_user r = u" "succeeds (deactivate_user (sn_acc env) actor u db)"
    | (reset) u fresh where "c = CallResetPassword u fresh" "se_user r = u" "succeeds (reset_password (sn_acc env) u fresh db)"
    by (cases c) (auto simp: given_def)
  then show "se_revoked x \<noteq> None"
  proof cases
    case out
    then show ?thesis using logout_revokes[of q t x "sn_acc env" db] x by simp
  next
    case change
    then show ?thesis using change_password_revokes[of "sn_acc env" ctx current fresh db x] x by simp
  next
    case off
    then show ?thesis using with_user_admin_succeeds[of u "\<lambda>v. set_active (sn_acc env) v False (Some actor)" db] x set_active_revokes
      by (fastforce simp: deactivate_user_def)
  next
    case reset
    then show ?thesis using with_user_admin_succeeds[of u "\<lambda>v. admin_reset_password (sn_acc env) v fresh" db] x reset_revokes
      by (fastforce simp: reset_password_def)
  qed
qed

lemma gone_is_out:
  assumes "gone r db"
  shows "current_auth env q db \<noteq> Inr (u, se_id r)" "wr_refresh q = Some t \<Longrightarrow> en_sha env t = se_refresh r \<Longrightarrow> \<not> succeeds (api_refresh env q db)"
proof -
  have "get_active (se_id r) db = None" "get_active_by_refresh (se_refresh r) db = None"
    using assms by (auto simp: gone_def get_active_def get_active_by_refresh_def live_session_def)
  then show "current_auth env q db \<noteq> Inr (u, se_id r)"
    "wr_refresh q = Some t \<Longrightarrow> en_sha env t = se_refresh r \<Longrightarrow> \<not> succeeds (api_refresh env q db)"
    by (auto simp: current_auth_def session_is_active_def bind_res_Inr succeeds_def api_refresh_def act_fail_def act_bind_def act_tx_def session_refresh_def
        split: option.splits list.splits if_splits)
qed

text \<open>
  C15. Signed out stays out: a session that was ended by signing out with its refresh token, by a successful change of the password in
  another session, by a deactivation or by an administrative reset of its user, is never accepted again, whatever calls of the
  sign-in, session, factor, policy and administration endpoints came before and come afterwards and whenever they come: no access
  token for it passes the authentication of a request, and its refresh token buys no new one.
\<close>

theorem signed_out_stays_out:
  assumes "account_inv db0" and "db = account_run earlier db0" and "r \<in> set (ad_sessions db)" and "ends_session env c r db"
    and "after = account_run later_calls (account_do env c db)"
  shows "current_auth env' q after \<noteq> Inr (u, se_id r) \<and> \<not> (wr_refresh q = Some t \<and> en_sha env' t = se_refresh r \<and> succeeds (api_refresh env' q after))"
proof -
  have "account_inv db" using assms(1,2) account_inv_kept account_run_kept by blast
  then have "gone r after" using assms(3-5) ended_is_gone gone_kept account_run_kept by blast
  then show ?thesis using gone_is_out by blast
qed

definition sample_signin :: signin_env where
  "sample_signin = \<lparr>sn_acc = sample_account_env, sn_wa_configured = True, sn_wa_ttl = 300, sn_wa_challenge = ''ch'', sn_json = (\<lambda>_. None), sn_rawid = Some,
     sn_attest = (\<lambda>_ _. None), sn_assert = (\<lambda>_ _ _ _. None), sn_oidc_configured = (\<lambda>_. True), sn_metadata = (\<lambda>_. True), sn_flow_ttl = 600,
     sn_state = ''st'', sn_nonce = ''no'', sn_verifier = ''ve'', sn_seal = id, sn_unseal = Some,
     sn_reply = (\<lambda>code _. if code = ''code'' then Some [(''id_token'', PStr ''tok'')] else None), sn_jwks = Some [[(''kid'', PStr ''k'')]],
     sn_header = (\<lambda>_. Some [(''alg'', PStr ''RS256''), (''kid'', PStr ''k'')]), sn_key = (\<lambda>_. Some ''key''),
     sn_id_token = (\<lambda>_ _ _. Some [(''sub'', PStr ''ext''), (''nonce'', PStr ''no''), (''groups'', PList [PStr ''leads''])]),
     sn_text = (\<lambda>v. case v of PStr t \<Rightarrow> t | _ \<Rightarrow> []), sn_oidc_jit = True, sn_ldap_jit = True, sn_default_role = [], sn_ldap_configured = True,
     sn_directory = (\<lambda>n p. if p = ''dir'' then Inr \<lparr>lp_uid = ''ext'', lp_display = None, lp_email = None, lp_groups = [''leads'']\<rparr> else Inl ''LdapAuthFailed'')\<rparr>"

definition sample_web_request :: web_request where
  "sample_web_request = \<lparr>wr_authorization = Some ''Bearer t'', wr_access = None, wr_refresh = Some ''r7'', wr_client = None, wr_workplace = None, wr_agent = None\<rparr>"

definition sample_login :: login_request where
  "sample_login = \<lparr>lq_username = ''op'', lq_password = ''pw'', lq_totp = Some ''111111'', lq_webauthn = None\<rparr>"

theorem signed_out_stays_out_witness:
  "current_auth sample_account_env sample_web_request sample_accounts = Inr (1, 7) \<and>
   current_auth sample_account_env sample_web_request
     (account_run [(sample_signin, CallLogin sample_web_request sample_login)] (account_do sample_signin (CallLogout sample_web_request) sample_accounts)) \<noteq> Inr (1, 7)"
proof -
  define r where "r = hd (ad_sessions sample_accounts)"
  have "account_inv sample_accounts" by code_simp
  moreover have "r \<in> set (ad_sessions (account_run [] sample_accounts))" "se_id r = 7" unfolding r_def by code_simp+
  moreover have "ends_session sample_signin (CallLogout sample_web_request) r (account_run [] sample_accounts)" unfolding r_def by code_simp
  ultimately have "current_auth sample_account_env sample_web_request (account_run [(sample_signin, CallLogin sample_web_request sample_login)]
      (account_do sample_signin (CallLogout sample_web_request) (account_run [] sample_accounts))) \<noteq> Inr (1, se_id r)"
    using signed_out_stays_out by blast
  moreover have "current_auth sample_account_env sample_web_request sample_accounts = Inr (1, 7)" by code_simp
  ultimately show ?thesis using \<open>se_id r = 7\<close> by simp
qed

end
