(* ===== verification/Login_Safety.thy ===== *)
theory Login_Safety
  imports Users_Admin
begin

text \<open>
  What a successful sign-in proves about the caller (\<^verbatim>\<open>login\<close> of \<^verbatim>\<open>api/v1/auth.py\<close>), that the guard of the user administration keeps an
  active administrator, that the group synchronisation of external sign-ins reconciles the mapped roles, and the ways around
  these guarantees the code leaves open.
\<close>

section \<open>Running a request to its answer\<close>

named_theorems act_runs

lemma act_bind_Inr [act_runs]: "act_bind m f db = (Inr y, db') \<longleftrightarrow> (\<exists>x db1. m db = (Inr x, db1) \<and> f x db1 = (Inr y, db'))"
  by (auto simp: act_bind_def split: prod.splits sum.splits)

lemma act_steps [act_runs]:
  "act_ret x db = (Inr y, db') \<longleftrightarrow> y = x \<and> db' = db"
  "act_get g db = (Inr y, db') \<longleftrightarrow> y = g db \<and> db' = db"
  "act_do f db = (Inr z, db') \<longleftrightarrow> db' = f db"
  "act_check h db = (Inr y, db') \<longleftrightarrow> h db = Inr y \<and> db' = db"
  "act_run r db = (Inr y, db') \<longleftrightarrow> r db = (y, db')"
  by (auto simp: act_ret_def act_get_def act_do_def act_check_def act_run_def split: prod.splits)

lemma act_fail_Inr [act_runs]: "act_fail e db \<noteq> (Inr y, db')"
  by (simp add: act_fail_def)

lemma act_tx_Inr [act_runs]: "act_tx f db = (Inr y, db') \<longleftrightarrow> f db = Inr (y, db')"
  by (auto simp: act_tx_def split: sum.splits)

lemma challenge_failed_Inr [act_runs]: "challenge_failed env q u db \<noteq> (Inr y, db')"
  by (simp add: challenge_failed_def act_runs)

section \<open>What a sign-in proves\<close>

definition key_presented :: "signin_env \<Rightarrow> login_request \<Rightarrow> uuid \<Rightarrow> account_db \<Rightarrow> bool" where
  "key_presented env body u db \<longleftrightarrow> (\<exists>a. lq_webauthn body = Some a \<and> (\<exists>w\<in>set (creds_for_user u db). \<exists>c\<in>set (ad_challenges db).
     challenge_for ''authenticate'' None (Some u) c \<and> en_now (sn_acc env) \<le> ch_expires c \<and>
     sn_assert env a (ch_challenge c) (wk_public w) (wk_count w) \<noteq> None))"

definition code_presented :: "account_env \<Rightarrow> login_request \<Rightarrow> uuid \<Rightarrow> account_db \<Rightarrow> bool" where
  "code_presented env body i db \<longleftrightarrow> (\<exists>code r db'. lq_totp body = Some code \<and> totp_challenge env i code db = Inr (r, db') \<and> r \<noteq> ChallengeBad)"

lemma consumed_challenge:
  assumes "consume_challenge env kind i u db = (Inr (TheChallenge ch), db')"
  shows "\<exists>c\<in>set (ad_challenges db). challenge_for kind i u c \<and> en_now (sn_acc env) \<le> ch_expires c \<and> ch_challenge c = ch" "creds_for_user v db' = creds_for_user v db"
proof -
  obtain c where c: "filter (challenge_for kind i u) (ad_challenges db) = [c]" "\<not> ch_expires c < en_now (sn_acc env)" "ch = ch_challenge c"
      "db' = db\<lparr>ad_challenges := filter (\<lambda>x. \<not> challenge_for kind i u x) (ad_challenges db)\<rparr>"
    using assms by (auto simp: consume_challenge_def split: list.splits if_splits)
  then have "c \<in> set (filter (challenge_for kind i u) (ad_challenges db))" by simp
  then show "\<exists>c\<in>set (ad_challenges db). challenge_for kind i u c \<and> en_now (sn_acc env) \<le> ch_expires c \<and> ch_challenge c = ch"
    using c(2,3) by auto
  show "creds_for_user v db' = creds_for_user v db" using c(4) by (simp add: creds_for_user_def)
qed

lemma verified_assertion:
  assumes "verify_authentication env u response db = (Inr True, db')" "lq_webauthn body = Some response"
  shows "key_presented env body u db"
proof -
  have conf: "sn_wa_configured env" using assms(1) by (auto simp: verify_authentication_def act_runs split: if_splits)
  obtain c db1 where c: "consume_challenge env ''authenticate'' None (Some u) db = (Inr c, db1)"
    using assms(1) conf by (auto simp: verify_authentication_def act_runs)
  then obtain ch where ch: "c = TheChallenge ch"
    using assms(1) conf by (cases c) (simp_all add: verify_authentication_def act_bind_def act_ret_def)
  obtain rid where rid: "raw_id env response = Some rid"
    using assms(1) conf c ch by (cases "raw_id env response") (simp_all add: verify_authentication_def act_bind_def act_ret_def)
  obtain w where w: "find_first (\<lambda>w. wk_credential w = rid) (creds_for_user u db1) = Some w" "sn_assert env response ch (wk_public w) (wk_count w) \<noteq> None"
    using assms(1) conf c ch rid
    by (cases "find_first (\<lambda>w. wk_credential w = rid) (creds_for_user u db1)")
      (auto simp del: find_first_None simp: verify_authentication_def act_bind_def act_get_def act_ret_def split: option.splits)
  show ?thesis
    using consumed_challenge[OF c[unfolded ch]] find_first_Some[OF w(1)] w(2) assms(2) unfolding key_presented_def by metis
qed

lemma key_factor:
  assumes "act_bind (verify_authentication env u a) (\<lambda>ok. if ok then act_ret True else challenge_failed acc q u) db = (Inr v, db')"
  shows "v \<and> (\<exists>db1. verify_authentication env u a db = (Inr True, db1))"
  using assms by (auto simp: act_runs split: if_splits)

lemma code_factor:
  assumes "act_bind (act_tx (totp_challenge acc i code)) (\<lambda>r. case r of ChallengeBad \<Rightarrow> challenge_failed acc q u | ChallengeOk \<Rightarrow> act_ret True
      | RecoveryUsed \<Rightarrow> act_bind (act_do f) (\<lambda>_. act_ret True)) db = (Inr v, db')"
  shows "v \<and> (\<exists>r db1. totp_challenge acc i code db = Inr (r, db1) \<and> r \<noteq> ChallengeBad)"
proof -
  obtain r db1 where r: "totp_challenge acc i code db = Inr (r, db1)" using assms by (auto simp: act_runs)
  then show ?thesis using assms by (cases r) (auto simp: act_bind_def act_tx_def act_do_def act_ret_def challenge_failed_def act_fail_def)
qed

lemma second_factor_presented:
  assumes "second_factor env q body u aid t k db = (Inr v, db')"
  shows "(v \<longleftrightarrow> t \<or> k) \<and> (v \<longrightarrow> k \<and> key_presented env body u db \<or> t \<and> (\<exists>i. aid = Some i \<and> code_presented (sn_acc env) body i db))"
proof -
  consider (key) a where "lq_webauthn body = Some a" "given (lq_webauthn body)" "k"
    | (code) c where "lq_totp body = Some c" "given (lq_totp body)" "t" "\<not> (given (lq_webauthn body) \<and> k)"
    | (none) "\<not> (given (lq_webauthn body) \<and> k)" "\<not> (t \<and> given (lq_totp body))"
    by (fastforce simp: given_def)
  then show ?thesis
  proof cases
    case key
    then show ?thesis using assms key_factor[of env u a "sn_acc env" q db v db'] verified_assertion by (fastforce simp: second_factor_def)
  next
    case code
    then obtain i where i: "aid = Some i" using assms by (auto simp: second_factor_def act_runs split: option.splits)
    then show ?thesis using assms code code_factor[of "sn_acc env" i c q u _ db v db'] by (fastforce simp: second_factor_def code_presented_def)
  next
    case none
    then have "(if k \<or> t then (if k then act_bind (begin_authentication env u) (\<lambda>_. act_fail WebauthnRequired) else act_fail TotpRequired)
        else act_ret False) db = (Inr v, db')"
      using assms by (simp add: second_factor_def split: if_splits)
    then show ?thesis by (auto simp: act_runs split: if_splits)
  qed
qed

lemma authenticated:
  assumes "authenticate env name pw db = (outcome, db1)" "oc_result outcome = LocalSuccess"
  shows "\<exists>r cs. get_by_username name db = Some r \<and> judge env r pw = VRight \<and> oc_user outcome = Some (cr_user r) \<and> db1 = db\<lparr>ad_creds := cs\<rparr>"
proof -
  obtain r where r: "get_by_username name db = Some r" using assms by (cases "get_by_username name db") (auto simp: authenticate_def)
  then have v: "judge env r pw = VRight" "oc_user outcome = Some (cr_user r)"
    using assms by (auto simp: authenticate_def carry_out_def split: verdict.splits if_splits)
  have "\<exists>cs. db1 = db\<lparr>ad_creds := cs\<rparr>"
    using assms(1) r v(1) by (auto simp: authenticate_def carry_out_def Let_def cred_reset_failures_def cred_update_hash_def update_cred_def split: if_splits)
  then show ?thesis using r v by blast
qed

lemma issued_session:
  assumes "issue_session env q u mfa db = (Inr t, db')"
  shows "\<exists>s\<in>set (ad_sessions db'). se_id s = it_session t \<and> se_user s = u \<and> se_revoked s = None \<and> se_expires s = en_now env + en_refresh_ttl env * 1000000 \<and>
     se_mfa s = (if mfa then Some (en_now env) else None)"
  using assms by (auto simp: issue_session_def act_runs session_start_def session_create_def bind_res_Inr split: if_splits)

definition factors_of :: "login_request \<Rightarrow> uuid \<Rightarrow> account_db \<Rightarrow> bool \<times> bool" where
  "factors_of body u db = (case find_identity ''local'' (lq_username body) db of None \<Rightarrow> False | Some a \<Rightarrow> totp_active (ai_id a) db, has_active_key u db)"

lemma local_session_safe:
  assumes "local_session env q body outcome uid db = (Inr resp, db')"
  shows "\<exists>u t k. find_user uid db = Some u \<and> lr_user resp = us_id u \<and> factors_of body (us_id u) db = (t, k) \<and>
    \<not> mfa_blocks (mfa_evaluate (sn_acc env) (us_id u) db) (t \<or> k) \<and>
    (t \<or> k \<longrightarrow> k \<and> key_presented env body (us_id u) db \<or> t \<and> (\<exists>a. find_identity ''local'' (lq_username body) db = Some a \<and> code_presented (sn_acc env) body (ai_id a) db)) \<and>
    (\<exists>s\<in>set (ad_sessions db'). se_id s = it_session (lr_tokens resp) \<and> se_user s = us_id u \<and> se_revoked s = None \<and>
       se_expires s = en_now (sn_acc env) + en_refresh_ttl (sn_acc env) * 1000000 \<and> se_mfa s = (if t \<or> k then Some (en_now (sn_acc env)) else None))"
proof -
  obtain u where u: "find_user uid db = Some u"
    using assms by (cases "find_user uid db") (auto simp: local_session_def act_bind_def act_get_def act_fail_def)
  define aid where "aid = map_option ai_id (find_identity ''local'' (lq_username body) db)"
  obtain t k where tk: "factors_of body (us_id u) db = (t, k)" by fastforce
  then have tk': "(case aid of None \<Rightarrow> False | Some i \<Rightarrow> totp_active i db) = t" "has_active_key (us_id u) db = k"
    by (auto simp: factors_of_def aid_def split: option.splits)
  have open_gate: "\<not> mfa_blocks (mfa_evaluate (sn_acc env) (us_id u) db) (t \<or> k)"
  proof
    assume "mfa_blocks (mfa_evaluate (sn_acc env) (us_id u) db) (t \<or> k)"
    then have "fst (local_session env q body outcome uid db) = Inl MfaRequired"
      using u tk by (cases "find_identity ''local'' (lq_username body) db")
        (simp_all add: local_session_def factors_of_def act_bind_def act_get_def act_do_def act_fail_def enforce_mfa_policy_def Let_def)
    then show False using assms by simp
  qed
  then obtain v db1 gate tok where sf: "second_factor env q body (us_id u) aid t k db = (Inr v, db1)"
      and iss: "issue_session (sn_acc env) q (us_id u) v (note_audit_row (sn_acc env) ((blank_request ''LOGIN_SUCCEEDED'')\<lparr>rq_actor := Some (us_id u),
        rq_client := wr_client q, rq_workplace := wr_workplace q\<rparr>) db1) = (Inr tok, db')"
      and resp: "resp = respond (sn_acc env) u (oc_must_change outcome) gate tok"
    using assms u tk' by (auto simp: local_session_def act_runs enforce_mfa_policy_def Let_def aid_def[symmetric])
  have v: "v \<longleftrightarrow> t \<or> k" and pres: "v \<longrightarrow> k \<and> key_presented env body (us_id u) db \<or> t \<and> (\<exists>i. aid = Some i \<and> code_presented (sn_acc env) body i db)"
    using second_factor_presented[OF sf] by blast+
  have "t \<or> k \<longrightarrow> k \<and> key_presented env body (us_id u) db \<or>
      t \<and> (\<exists>a. find_identity ''local'' (lq_username body) db = Some a \<and> code_presented (sn_acc env) body (ai_id a) db)"
    using v pres by (cases "find_identity ''local'' (lq_username body) db") (auto simp: aid_def)
  moreover have "lr_user resp = us_id u" "lr_tokens resp = tok" using resp by (simp_all add: respond_def)
  ultimately show ?thesis
    using u tk open_gate issued_session[OF iss] unfolding v by (intro exI[of _ u] exI[of _ t] exI[of _ k] conjI) simp_all
qed

lemma totp_active_creds [simp]: "totp_active i (db\<lparr>ad_creds := cs\<rparr>) = totp_active i db"
  by (simp add: totp_active_def totp_row_at_def)

lemma challenge_creds:
  "totp_challenge env i code (db\<lparr>ad_creds := cs\<rparr>) = map_sum id (apsnd (\<lambda>d. d\<lparr>ad_creds := cs\<rparr>)) (totp_challenge env i code db)"
proof -
  have row: "totp_row_at i (db\<lparr>ad_creds := cs\<rparr>) = totp_row_at i db" by (simp add: totp_row_at_def)
  have used: "consume_recovery env i h (db\<lparr>ad_creds := cs\<rparr>) = apsnd (\<lambda>d. d\<lparr>ad_creds := cs\<rparr>) (consume_recovery env i h db)" for h
    by (auto simp: consume_recovery_def)
  have step: "totp_record_step i s (db\<lparr>ad_creds := cs\<rparr>) = (totp_record_step i s db)\<lparr>ad_creds := cs\<rparr>" for s by (simp add: totp_record_step_def)
  show ?thesis
    unfolding totp_challenge_def row used step
    by (auto split: option.split prod.split simp: bind_res_def split: sum.split)
qed

lemma code_presented_creds: "code_presented env body i (db\<lparr>ad_creds := cs\<rparr>) \<Longrightarrow> code_presented env body i db"
proof -
  assume "code_presented env body i (db\<lparr>ad_creds := cs\<rparr>)"
  then obtain code r db' where "lq_totp body = Some code" "map_sum id (apsnd (\<lambda>d. d\<lparr>ad_creds := cs\<rparr>)) (totp_challenge env i code db) = Inr (r, db')" "r \<noteq> ChallengeBad"
    by (auto simp: code_presented_def challenge_creds)
  then show ?thesis by (cases "totp_challenge env i code db") (auto simp: code_presented_def)
qed

text \<open>
  C16. A sign-in that succeeds without a directory proves the caller: the user name has a local credential whose user is active and whose
  lock, if any, has passed, and the password verifies against its hash; the role policy does not demand a factor the account lacks; and if
  the account has an active TOTP factor or a security key, the request presented one that was accepted against the account's own state, an
  assertion over an unexpired challenge issued for this user or an unused code. The session it answers with is stored, unrevoked, for
  this user, ends after the refresh lifetime, and is marked as verified exactly if a factor was presented.
\<close>

theorem login_proves_caller:
  assumes "login env q body db = (Inr resp, db')" and "''ldap_ad'' \<notin> set (en_providers (sn_acc env))"
  shows "\<exists>r u t k. get_by_username (lq_username body) db = Some r \<and> cr_active r \<and> (case cr_locked r of None \<Rightarrow> True | Some l \<Rightarrow> l \<le> en_now (sn_acc env)) \<and>
    en_verify (sn_acc env) (cr_hash r) (lq_password body) \<and> find_user (cr_user r) db = Some u \<and> lr_user resp = us_id u \<and>
    factors_of body (us_id u) db = (t, k) \<and> \<not> mfa_blocks (mfa_evaluate (sn_acc env) (us_id u) db) (t \<or> k) \<and>
    (t \<or> k \<longrightarrow> k \<and> key_presented env body (us_id u) db \<or>
       t \<and> (\<exists>a. find_identity ''local'' (lq_username body) db = Some a \<and> code_presented (sn_acc env) body (ai_id a) db)) \<and>
    (\<exists>s\<in>set (ad_sessions db'). se_id s = it_session (lr_tokens resp) \<and> se_user s = us_id u \<and> se_revoked s = None \<and>
       se_expires s = en_now (sn_acc env) + en_refresh_ttl (sn_acc env) * 1000000 \<and> se_mfa s = (if t \<or> k then Some (en_now (sn_acc env)) else None))"
proof -
  obtain names outcome db1 where a: "registry_names (sn_acc env) = Inr names" "authenticate (sn_acc env) (lq_username body) (lq_password body) db = (outcome, db1)"
    using assms(1) by (auto simp: login_def act_runs)
  have names: "''ldap_ad'' \<notin> set names"
    using a(1) assms(2) by (auto simp: registry_names_def Let_def set_dedupe_from split: option.splits)
  have ok: "oc_result outcome = LocalSuccess" and loc: "\<exists>uid. oc_user outcome = Some uid \<and> local_session env q body outcome uid db1 = (Inr resp, db')"
    using assms(1) a names
    by (auto simp: login_def act_bind_def act_check_def act_run_def act_ret_def act_do_def act_fail_def split: local_result.splits option.splits)
  obtain r cs where r: "get_by_username (lq_username body) db = Some r" "judge (sn_acc env) r (lq_password body) = VRight"
      "oc_user outcome = Some (cr_user r)" "db1 = db\<lparr>ad_creds := cs\<rparr>"
    using authenticated[OF a(2) ok] by blast
  have same: "find_user v db1 = find_user v db" "factors_of body v db1 = factors_of body v db" "mfa_evaluate e v db1 = mfa_evaluate e v db"
    "key_presented env body v db1 = key_presented env body v db" "find_identity p n db1 = find_identity p n db" for v e p n
    by (simp_all add: r(4) find_user_def factors_of_def find_identity_def has_active_key_def creds_for_user_def
        mfa_evaluate_def policy_grants_def key_presented_def del: find_first_None split: option.split)
  obtain u t k where u: "find_user (cr_user r) db1 = Some u" "lr_user resp = us_id u" "factors_of body (us_id u) db1 = (t, k)"
      "\<not> mfa_blocks (mfa_evaluate (sn_acc env) (us_id u) db1) (t \<or> k)"
      "t \<or> k \<longrightarrow> k \<and> key_presented env body (us_id u) db1 \<or>
        t \<and> (\<exists>a. find_identity ''local'' (lq_username body) db1 = Some a \<and> code_presented (sn_acc env) body (ai_id a) db1)"
      "\<exists>s\<in>set (ad_sessions db'). se_id s = it_session (lr_tokens resp) \<and> se_user s = us_id u \<and> se_revoked s = None \<and>
       se_expires s = en_now (sn_acc env) + en_refresh_ttl (sn_acc env) * 1000000 \<and> se_mfa s = (if t \<or> k then Some (en_now (sn_acc env)) else None)"
    using local_session_safe[of env q body outcome "cr_user r" db1 resp db'] loc r(3) by (auto simp only: option.inject)
  have "t \<or> k \<longrightarrow> k \<and> key_presented env body (us_id u) db \<or>
      t \<and> (\<exists>a. find_identity ''local'' (lq_username body) db = Some a \<and> code_presented (sn_acc env) body (ai_id a) db)"
    using u(5) code_presented_creds unfolding same unfolding r(4) by blast
  then show ?thesis
    using r(1,2) u(1-4,6) unfolding same judge_def
    by (intro exI[of _ r] exI[of _ u] exI[of _ t] exI[of _ k] conjI) (auto split: if_splits option.splits)
qed

definition plain_signin :: signin_env where
  "plain_signin = sample_signin\<lparr>sn_acc := sample_account_env\<lparr>en_providers := []\<rparr>\<rparr>"

lemma succeeds_Inr: "succeeds r \<Longrightarrow> \<exists>x db. r = (Inr x, db)"
  by (cases r) (auto simp: succeeds_def split: sum.splits)

theorem login_proves_caller_witness:
  "\<exists>resp db'. login plain_signin sample_web_request sample_login sample_accounts = (Inr resp, db') \<and> lr_user resp = 1 \<and>
     code_presented (sn_acc plain_signin) sample_login 2 sample_accounts"
proof -
  define outcome db1 where a: "outcome = fst (authenticate (sn_acc plain_signin) ''op'' ''pw'' sample_accounts)"
    "db1 = snd (authenticate (sn_acc plain_signin) ''op'' ''pw'' sample_accounts)"
  define u aid where u: "u = hd (ad_users sample_accounts)" "aid = hd (ad_identities sample_accounts)"
  define sf where "sf = second_factor plain_signin sample_web_request sample_login 1 (Some 2) True False db1"
  define db2 where "db2 = note_audit_row (sn_acc plain_signin) ((blank_request ''LOGIN_SUCCEEDED'')\<lparr>rq_actor := Some 1, rq_client := None, rq_workplace := None\<rparr>) (snd sf)"
  have auth: "authenticate (sn_acc plain_signin) ''op'' ''pw'' sample_accounts = (outcome, db1)" by (simp add: a)
  have f: "oc_result outcome = LocalSuccess" "oc_user outcome = Some 1" "find_user 1 db1 = Some u" "find_identity ''local'' ''op'' db1 = Some aid"
    "ai_id aid = 2" "us_id u = 1" "totp_active 2 db1" "\<not> has_active_key 1 db1" "fst sf = Inr True"
    "\<not> mg_blocked (enforce_mfa_policy (sn_acc plain_signin) 1 True False db1)" "registry_names (sn_acc plain_signin) = Inr [''local'']"
    "succeeds (issue_session (sn_acc plain_signin) sample_web_request 1 True db2)"
    unfolding a u sf_def db2_def by code_simp+
  have body: "lq_username sample_login = ''op''" "lq_password sample_login = ''pw''" "wr_client sample_web_request = None" "wr_workplace sample_web_request = None"
    by (simp_all add: sample_login_def sample_web_request_def)
  obtain tok db3 where issued: "issue_session (sn_acc plain_signin) sample_web_request 1 True db2 = (Inr tok, db3)" using succeeds_Inr[OF f(12)] by blast
  have sf: "second_factor plain_signin sample_web_request sample_login 1 (Some 2) True False db1 = (Inr True, snd sf)"
    using f(9) by (metis prod.collapse sf_def)
  have "\<exists>resp db'. local_session plain_signin sample_web_request sample_login outcome 1 db1 = (Inr resp, db')"
    using f sf issued by (simp add: local_session_def act_bind_def act_get_def act_do_def act_ret_def body db2_def)
  then obtain resp db' where l: "login plain_signin sample_web_request sample_login sample_accounts = (Inr resp, db')"
    using f auth by (auto simp: login_def act_bind_def act_check_def act_run_def act_ret_def body)
  have g: "map_option cr_user (get_by_username ''op'' sample_accounts) = Some 1" "find_user 1 sample_accounts = Some u"
    "find_identity ''local'' ''op'' sample_accounts = Some aid" "factors_of sample_login 1 sample_accounts = (True, False)"
    unfolding u by code_simp+
  have "''ldap_ad'' \<notin> set (en_providers (sn_acc plain_signin))" by (simp add: plain_signin_def)
  then obtain r u' t k where "get_by_username ''op'' sample_accounts = Some r" "find_user (cr_user r) sample_accounts = Some u'" "lr_user resp = us_id u'"
      "factors_of sample_login (us_id u') sample_accounts = (t, k)"
      "t \<or> k \<longrightarrow> k \<and> key_presented plain_signin sample_login (us_id u') sample_accounts \<or>
       t \<and> (\<exists>a. find_identity ''local'' ''op'' sample_accounts = Some a \<and> code_presented (sn_acc plain_signin) sample_login (ai_id a) sample_accounts)"
    using login_proves_caller[OF l] unfolding body by blast
  then show ?thesis using l f(5,6) g by auto
qed

section \<open>An administrator is left\<close>

definition active_admin :: "account_db \<Rightarrow> bool" where
  "active_admin db \<longleftrightarrow> (\<exists>u\<in>set (ad_users db). us_active u \<and> holds_admin (us_id u) (ad_rbac db))"

fun user_admin_call :: "account_call \<Rightarrow> bool" where
  "user_admin_call (CallCreateUser _) = True"
| "user_admin_call (CallUpdateUser _ _ _) = True"
| "user_admin_call (CallDeactivate _ _) = True"
| "user_admin_call (CallActivate _) = True"
| "user_admin_call (CallResetPassword _ _) = True"
| "user_admin_call _ = False"

lemma holds_admin_ids: "holds_admin u db \<longleftrightarrow> u \<in> set (admin_ids db)"
  by (auto simp: holds_admin_def admin_ids_def list_ex_iff image_iff)

lemma holds_admin_frame [simp]: "holds_admin u (db\<lparr>rb_users := x\<rparr>) = holds_admin u db" "holds_admin u (db\<lparr>rb_audit := y\<rparr>) = holds_admin u db"
  by (simp_all add: holds_admin_def manage_roles_def)

lemma service_audit_admin: "service_audit env rq db = Inr db' \<Longrightarrow> active_admin db' = active_admin db"
  by (auto simp: service_audit_def active_admin_def split: sum.splits)

lemma ad_rbac_update [simp]: "ad_rbac (update_user_row i f db) = ad_rbac db"
  by (simp add: update_user_row_def)

lemma update_row_admin:
  assumes "active_admin db" "\<And>u. u \<in> set (ad_users db) \<Longrightarrow> us_id u = i \<Longrightarrow> us_id (f u) = us_id u \<and> us_active (f u) = us_active u"
  shows "active_admin (update_user_row i f db)"
proof -
  obtain w where w: "w \<in> set (ad_users db)" "us_active w" "holds_admin (us_id w) (ad_rbac db)" using assms(1) by (auto simp: active_admin_def)
  define w' where "w' = (if us_id w = i then f w else w)"
  have "w' \<in> set (ad_users (update_user_row i f db))" using w(1) by (auto simp: update_user_row_def w'_def)
  moreover have "us_active w'" "us_id w' = us_id w" using w assms(2) by (simp_all add: w'_def)
  ultimately show ?thesis using w(3) unfolding active_admin_def by (metis ad_rbac_update)
qed

lemma deactivation_spares_admin:
  assumes "active_admin db" "\<not> is_last_active_admin i db"
  shows "active_admin (update_user_row i (\<lambda>x. x\<lparr>us_active := False\<rparr>) db)"
proof -
  obtain w where "w \<in> set (ad_users db)" "us_active w" "holds_admin (us_id w) (ad_rbac db)" "us_id w \<noteq> i"
    using assms by (auto simp: active_admin_def is_last_active_admin_def holds_admin_ids filter_empty_conv)
  then show ?thesis by (force simp: active_admin_def update_user_row_def)
qed

lemma update_sessions_admin [simp]: "active_admin (update_sessions p f db) = active_admin db"
  by (simp add: active_admin_def update_sessions_def)

lemma set_active_admin:
  assumes "set_active env u active actor db = Inr (n, db')" "active_admin db"
  shows "active_admin db'"
proof (cases active)
  case True
  then have "db' = update_user_row (us_id u) (\<lambda>x. x\<lparr>us_active := True\<rparr>) db" using assms(1) by (auto simp: set_active_def Let_def)
  then show ?thesis using assms(2) by (force simp: active_admin_def update_user_row_def)
next
  case False
  then have "active_admin (update_user_row (us_id u) (\<lambda>x. x\<lparr>us_active := False\<rparr>) db)"
    using assms deactivation_spares_admin by (auto simp: set_active_def split: if_splits)
  then show ?thesis
    using False assms(1) by (auto simp: set_active_def revoke_all_for_user_def revoke_where_def Let_def service_audit_admin split: if_splits sum.splits)
qed

lemma create_admin: "admin_create env spec db = Inr (u, db') \<Longrightarrow> active_admin db \<Longrightarrow> active_admin db'"
  by (auto simp: admin_create_def Let_def active_admin_def split: option.splits list.splits if_splits)

lemma reset_admin: "admin_reset_password env u fresh db = Inr (n, db') \<Longrightarrow> active_admin db \<Longrightarrow> active_admin db'"
  by (auto simp: admin_reset_password_def revoke_all_for_user_def revoke_where_def update_sessions_def update_cred_def active_admin_def
      split: sum.splits option.splits list.splits if_splits)

lemma act_admin_keeps:
  assumes "\<And>x db'. f db = Inr (x, db') \<Longrightarrow> active_admin db'" "active_admin db"
  shows "active_admin (snd (act_admin f db))"
  using assms by (auto simp: act_admin_def act_tx_def map_sum_id_Inr split: sum.splits)

lemma with_user_keeps: "(\<And>u. active_admin (snd (f u db))) \<Longrightarrow> active_admin db \<Longrightarrow> active_admin (snd (with_user i f db))"
  by (auto simp: with_user_def act_bind_def act_get_def act_fail_def split: option.splits)

lemma act_bind_get_user: "snd (act_bind m (\<lambda>_. get_user i) db) = snd (m db)"
  by (auto simp: act_bind_def get_user_def with_user_def act_get_def act_fail_def split: prod.splits sum.splits option.splits)

lemma act_bind_get: "snd (act_bind m (\<lambda>x. act_get (g x)) db) = snd (m db)"
  by (auto simp: act_bind_def act_get_def split: prod.splits sum.splits)

text \<open>
  C34. User administration never locks the administrators out: from tables in which some active user holds permissions.manage, no
  history of creating, renaming, activating, deactivating and password-resetting requests, in any order and by whomever, leaves
  none, because the request that would disable the last one is refused.
\<close>

theorem active_admin_survives:
  assumes "active_admin db" and "list_all (\<lambda>(env, c). user_admin_call c) calls"
  shows "active_admin (account_run calls db)"
  using assms
proof (induction calls db rule: account_run.induct)
  case (2 env c cs db)
  have "active_admin (account_do env c db)"
    using 2(2,3) by (cases c) (auto simp: create_user_def update_user_def deactivate_user_def activate_user_def reset_password_def admin_update_def
      act_bind_get_user act_fail_def act_bind_get act_do_def
      intro!: with_user_keeps act_admin_keeps update_row_admin dest: create_admin set_active_admin reset_admin)
  then show ?case using 2 by simp
qed simp

text \<open>Two administrators by hand, and a directory group mapped to their role.\<close>

definition two_admins :: account_db where
  "two_admins = sample_accounts\<lparr>
     ad_users := [\<lparr>us_id = 1, us_name = ''Op'', us_active = True, us_external = None\<rparr>, \<lparr>us_id = 2, us_name = ''Vi'', us_active = True, us_external = None\<rparr>],
     ad_mappings := [\<lparr>gm_id = 9, gm_provider = ''ldap_ad'', gm_group = ''leads'', gm_role = ''admin''\<rparr>],
     ad_rbac := (ad_rbac sample_accounts)\<lparr>rb_users := [1, 2], rb_permissions := [\<lparr>pm_id = 5, pm_key = ''permissions.manage'', pm_area = ''users_roles''\<rparr>],
       rb_roles := [\<lparr>ro_id = 3, ro_key = ''admin'', ro_name = ''Admin'', ro_builtin = True\<rparr>],
       rb_role_permissions := [\<lparr>rp_id = 6, rp_role = 3, rp_permission = 5, rp_scope = ''global'', rp_condition = None\<rparr>],
       rb_user_roles := map (\<lambda>u. \<lparr>ur_user = u, ur_role = 3, ur_granted_at = 0, ur_granted_by = None, ur_from = None, ur_to = None\<rparr>) [1, 2]\<rparr>\<rparr>"

theorem active_admin_survives_witness:
  "active_admin (account_run [(sample_signin, CallDeactivate 1 2), (sample_signin, CallDeactivate 2 1)] two_admins) \<and>
   fst (deactivate_user sample_account_env 2 1 (account_do sample_signin (CallDeactivate 1 2) two_admins)) =
     Inl (Conflict ''cannot deactivate the last user able to manage permissions'')"
proof -
  have "active_admin two_admins" by code_simp
  then have "active_admin (account_run [(sample_signin, CallDeactivate 1 2), (sample_signin, CallDeactivate 2 1)] two_admins)"
    by (rule active_admin_survives) simp
  moreover have "fst (deactivate_user sample_account_env 2 1 (account_do sample_signin (CallDeactivate 1 2) two_admins)) =
     Inl (Conflict ''cannot deactivate the last user able to manage permissions'')" by code_simp
  ultimately show ?thesis by simp
qed

section \<open>What the code leaves open\<close>

text \<open>
  The two last-admin guards count differently: user administration counts active holders, role administration counts holders. After one
  of two administrators was disabled, the role of the other can be revoked, and no active administrator is left.
\<close>

theorem admin_guards_disagree:
  "\<exists>rb. revoke_user_role 1 3 (ad_rbac (account_do sample_signin (CallDeactivate 1 2) two_admins)) = Inr rb \<and>
     \<not> active_admin ((account_do sample_signin (CallDeactivate 1 2) two_admins)\<lparr>ad_rbac := rb\<rparr>)"
proof -
  define db where "db = account_do sample_signin (CallDeactivate 1 2) two_admins"
  define rb where "rb = (ad_rbac db)\<lparr>rb_user_roles := filter (\<lambda>ur. \<not> (ur_user ur = 1 \<and> ur_role ur = 3)) (rb_user_roles (ad_rbac db))\<rparr>"
  have "any_admin rb" "\<not> active_admin (db\<lparr>ad_rbac := rb\<rparr>)" unfolding rb_def db_def by code_simp+
  then show ?thesis unfolding db_def[symmetric] by (intro exI[of _ rb]) (simp add: revoke_user_role_def guard_last_admin_def rb_def)
qed

text \<open>
  A role that was assigned by hand and is also mapped from a group of the user is recorded as mapped by the next external sign-in, and
  the sign-in after the user left the group removes it: the hand-made assignment is gone, whoever made it.
\<close>

theorem sync_takes_over_manual_role:
  "\<exists>db1 db2. sync_user_roles sample_account_env 1 ''ldap_ad'' [''leads''] two_admins = Inr ((), db1) \<and>
     sync_user_roles sample_account_env 1 ''ldap_ad'' [] db1 = Inr ((), db2) \<and>
     holds_admin 1 (ad_rbac two_admins) \<and> \<not> holds_admin 1 (ad_rbac db2)"
proof -
  define r1 where "r1 = sync_user_roles sample_account_env 1 ''ldap_ad'' [''leads''] two_admins"
  define db1 where "db1 = snd (projr r1)"
  define r2 where "r2 = sync_user_roles sample_account_env 1 ''ldap_ad'' [] db1"
  have ok: "\<not> isl r1" "\<not> isl r2" and "holds_admin 1 (ad_rbac two_admins)" "\<not> holds_admin 1 (ad_rbac (snd (projr r2)))"
    unfolding r2_def db1_def r1_def by code_simp+
  moreover have "r1 = Inr ((), db1)" using ok(1) by (cases r1) (auto simp: db1_def)
  moreover have "r2 = Inr ((), snd (projr r2))" using ok(2) by (cases r2) auto
  ultimately show ?thesis unfolding r1_def r2_def by blast
qed

text \<open>
  An external sign-in presents no second factor, yet when its user has one enrolled the session it opens is marked as verified by a
  factor at that moment, which is what the endpoints that ask for a recent factor read.
\<close>

theorem external_session_claims_factor:
  assumes "external_session env q u failure db = (Inr resp, db')" and "mfa_satisfied (us_id u) db = Inr True"
  shows "\<exists>s\<in>set (ad_sessions db'). se_id s = it_session (lr_tokens resp) \<and> se_user s = us_id u \<and> se_mfa s = Some (en_now env)"
proof -
  obtain tok gate where "issue_session env q (us_id u) True db = (Inr tok, db')" "resp = respond env u False gate tok"
    using assms by (auto simp: external_session_def act_runs split: if_splits)
  then show ?thesis using issued_session by (fastforce simp: respond_def)
qed

text \<open>The status of the user is not read on this path: a disabled user gets a session whenever an active one would.\<close>

theorem external_session_ignores_status:
  "succeeds (external_session env q (u\<lparr>us_active := False\<rparr>) failure db) = succeeds (external_session env q u failure db)"
  by (auto simp: external_session_def succeeds_def act_bind_def act_check_def act_get_def act_do_def act_fail_def act_ret_def split: prod.splits sum.splits)

section \<open>Group synchronisation reconciles\<close>

text \<open>
  The user's assignments after the write of a plan: rows for the added roles the user did not have, without the rows of the removed ones.
\<close>

definition synced_roles :: "account_env \<Rightarrow> uuid \<Rightarrow> sync_plan \<Rightarrow> user_role list \<Rightarrow> user_role list" where
  "synced_roles env u plan urs = filter (\<lambda>ur. \<not> (ur_user ur = u \<and> ur_role ur \<in> set (sp_remove plan)))
     (urs @ map (mapped_role env u) (filter (\<lambda>r. \<not> (\<exists>ur\<in>set urs. ur_user ur = u \<and> ur_role ur = r)) (sp_add plan)))"

definition synced_external :: "uuid \<Rightarrow> string \<Rightarrow> sync_plan \<Rightarrow> (uuid \<times> uuid \<times> string) list \<Rightarrow> (uuid \<times> uuid \<times> string) list" where
  "synced_external u p plan ext = filter (\<lambda>x. x \<notin> (\<lambda>r. (u, r, p)) ` set (sp_remove plan)) (ext @ map (\<lambda>r. (u, r, p)) (sp_add plan))"

text \<open>Only the assignments, the records of mapped roles and the audit log differ, and the log has \<open>n\<close> rows more.\<close>

definition synced :: "nat \<Rightarrow> account_db \<Rightarrow> account_db \<Rightarrow> bool" where
  "synced n db db' \<longleftrightarrow> (\<exists>ext urs a rows. db' = db\<lparr>ad_external := ext, ad_rbac := (ad_rbac db)\<lparr>rb_user_roles := urs, rb_audit := a\<rparr>\<rparr> \<and>
     audit_events a = audit_events (rb_audit (ad_rbac db)) @ rows \<and> length rows = n)"

lemma syncedI:
  "db' = db\<lparr>ad_external := ext, ad_rbac := (ad_rbac db)\<lparr>rb_user_roles := urs, rb_audit := a\<rparr>\<rparr> \<Longrightarrow>
   audit_events a = audit_events (rb_audit (ad_rbac db)) @ rows \<Longrightarrow> synced (length rows) db db'"
  unfolding synced_def by blast

lemma synced_refl: "synced 0 db db"
  using syncedI [where db = db and db' = db and rows = "[]" and a = "rb_audit (ad_rbac db)" and ext = "ad_external db" and urs = "rb_user_roles (ad_rbac db)"] by simp

lemma synced_trans:
  assumes "synced m x y" "synced n y z"
  shows "synced (m + n) x z"
proof -
  obtain ext urs a rows where y: "y = x\<lparr>ad_external := ext, ad_rbac := (ad_rbac x)\<lparr>rb_user_roles := urs, rb_audit := a\<rparr>\<rparr>"
    "audit_events a = audit_events (rb_audit (ad_rbac x)) @ rows" "length rows = m" using assms(1) unfolding synced_def by blast
  obtain ext' urs' a' rows' where z: "z = y\<lparr>ad_external := ext', ad_rbac := (ad_rbac y)\<lparr>rb_user_roles := urs', rb_audit := a'\<rparr>\<rparr>"
    "audit_events a' = audit_events (rb_audit (ad_rbac y)) @ rows'" "length rows' = n" using assms(2) unfolding synced_def by blast
  have "z = x\<lparr>ad_external := ext', ad_rbac := (ad_rbac x)\<lparr>rb_user_roles := urs', rb_audit := a'\<rparr>\<rparr>"
    "audit_events a' = audit_events (rb_audit (ad_rbac x)) @ (rows @ rows')"
    using y(1,2) z(1,2) by simp_all
  from syncedI [OF this] show ?thesis using y(3) z(3) by simp
qed

lemma service_audit_synced:
  assumes "service_audit env rq db = Inr db'"
  shows "synced 1 db db'" "ad_external db' = ad_external db" "rb_user_roles (ad_rbac db') = rb_user_roles (ad_rbac db)"
proof -
  obtain a where w: "audit_write (en_audit env) True rq (rb_audit (ad_rbac db)) = Inr a" "db' = db\<lparr>ad_rbac := (ad_rbac db)\<lparr>rb_audit := a\<rparr>\<rparr>"
    using assms by (auto simp: service_audit_def split: sum.splits)
  from w(1) have "\<exists>row. audit_events a = audit_events (rb_audit (ad_rbac db)) @ [row]"
    by (auto simp: audit_write_def Let_def simp del: append_eq_append_conv split: if_splits)
  then obtain row where a: "audit_events a = audit_events (rb_audit (ad_rbac db)) @ [row]" ..
  note a = a w(2)
  have "db' = db\<lparr>ad_external := ad_external db, ad_rbac := (ad_rbac db)\<lparr>rb_user_roles := rb_user_roles (ad_rbac db), rb_audit := a\<rparr>\<rparr>"
    using a(2) by simp
  from syncedI [OF this a(1)] show "synced 1 db db'" by simp
  show "ad_external db' = ad_external db" "rb_user_roles (ad_rbac db') = rb_user_roles (ad_rbac db)" using a(2) by simp_all
qed

lemma audited_change:
  assumes "service_audit env rq (db\<lparr>ad_external := ext, ad_rbac := (ad_rbac db)\<lparr>rb_user_roles := urs\<rparr>\<rparr>) = Inr db'"
  shows "synced 1 db db' \<and> ad_external db' = ext \<and> rb_user_roles (ad_rbac db') = urs"
proof -
  let ?d = "db\<lparr>ad_external := ext, ad_rbac := (ad_rbac db)\<lparr>rb_user_roles := urs\<rparr>\<rparr>"
  have "synced 0 db ?d" using syncedI [where db = db and db' = ?d and rows = "[]" and a = "rb_audit (ad_rbac db)" and ext = ext and urs = urs] by simp
  from synced_trans [OF this service_audit_synced(1) [OF assms]] show ?thesis
    using service_audit_synced(2,3) [OF assms] by simp
qed

lemma sync_add_does:
  assumes "sync_add env u p ks r db = Inr db'"
  shows "synced 1 db db' \<and> (u, r, p) \<notin> set (ad_external db) \<and> ad_external db' = ad_external db @ [(u, r, p)] \<and>
    rb_user_roles (ad_rbac db') = rb_user_roles (ad_rbac db) @
      (if \<exists>ur\<in>set (rb_user_roles (ad_rbac db)). ur_user ur = u \<and> ur_role ur = r then [] else [mapped_role env u r])"
proof -
  let ?urs = "rb_user_roles (ad_rbac db) @
      (if \<exists>ur\<in>set (rb_user_roles (ad_rbac db)). ur_user ur = u \<and> ur_role ur = r then [] else [mapped_role env u r])"
  let ?rb = "if \<exists>ur\<in>set (rb_user_roles (ad_rbac db)). ur_user ur = u \<and> ur_role ur = r then ad_rbac db
      else (ad_rbac db)\<lparr>rb_user_roles := rb_user_roles (ad_rbac db) @ [mapped_role env u r]\<rparr>"
  let ?bad = "u \<notin> us_id ` set (ad_users db) \<or> r \<notin> ro_id ` set (rb_roles (ad_rbac db)) \<or> (u, r, p) \<in> set (ad_external db)"
  obtain rq where rq: "\<not> ?bad" "service_audit env rq (db\<lparr>ad_rbac := ?rb, ad_external := ad_external db @ [(u, r, p)]\<rparr>) = Inr db'"
    using assms unfolding sync_add_def Let_def by (cases ?bad) (simp_all only: if_True if_False sum.distinct, blast)
  have "db\<lparr>ad_rbac := ?rb, ad_external := ad_external db @ [(u, r, p)]\<rparr> =
      db\<lparr>ad_external := ad_external db @ [(u, r, p)], ad_rbac := (ad_rbac db)\<lparr>rb_user_roles := ?urs\<rparr>\<rparr>" by simp
  from audited_change [OF rq(2) [unfolded this]] rq(1) show ?thesis by blast
qed

lemma sync_remove_does:
  assumes "sync_remove env u p ks r db = Inr db'"
  shows "synced 1 db db' \<and> ad_external db' = filter (\<lambda>x. x \<noteq> (u, r, p)) (ad_external db) \<and>
    rb_user_roles (ad_rbac db') = filter (\<lambda>ur. \<not> (ur_user ur = u \<and> ur_role ur = r)) (rb_user_roles (ad_rbac db))"
  using audited_change [OF assms [unfolded sync_remove_def]] .

lemma sync_adds_do:
  "fold_res (sync_add env u p ks) rs db = Inr db' \<Longrightarrow> synced (length rs) db db' \<and> distinct rs \<and>
     (\<forall>r\<in>set rs. (u, r, p) \<notin> set (ad_external db)) \<and> ad_external db' = ad_external db @ map (\<lambda>r. (u, r, p)) rs \<and>
     rb_user_roles (ad_rbac db') = rb_user_roles (ad_rbac db) @
       map (mapped_role env u) (filter (\<lambda>r. \<not> (\<exists>ur\<in>set (rb_user_roles (ad_rbac db)). ur_user ur = u \<and> ur_role ur = r)) rs)"
proof (induction rs arbitrary: db)
  case (Cons r rs)
  let ?missing = "\<lambda>db r. \<not> (\<exists>ur\<in>set (rb_user_roles (ad_rbac db)). ur_user ur = u \<and> ur_role ur = r)"
  obtain db1 where d: "sync_add env u p ks r db = Inr db1" "fold_res (sync_add env u p ks) rs db1 = Inr db'"
    using Cons.prems by (auto simp: bind_res_Inr)
  note one = sync_add_does [OF d(1)] and rest = Cons.IH [OF d(2)]
  have fresh: "r \<notin> set rs" "\<forall>r\<in>set rs. (u, r, p) \<notin> set (ad_external db)" using one rest by auto
  then have "filter (?missing db1) rs = filter (?missing db) rs"
    using one by (intro filter_cong) (auto simp: mapped_role_def)
  moreover have "synced (length (r # rs)) db db'" using synced_trans one rest by fastforce
  ultimately show ?case using one rest fresh by auto
qed (simp add: synced_refl)

lemma sync_removes_do:
  "fold_res (sync_remove env u p ks) rs db = Inr db' \<Longrightarrow> synced (length rs) db db' \<and>
     ad_external db' = filter (\<lambda>x. x \<notin> (\<lambda>r. (u, r, p)) ` set rs) (ad_external db) \<and>
     rb_user_roles (ad_rbac db') = filter (\<lambda>ur. \<not> (ur_user ur = u \<and> ur_role ur \<in> set rs)) (rb_user_roles (ad_rbac db))"
proof (induction rs arbitrary: db)
  case (Cons r rs)
  obtain db1 where d: "sync_remove env u p ks r db = Inr db1" "fold_res (sync_remove env u p ks) rs db1 = Inr db'"
    using Cons.prems by (auto simp: bind_res_Inr)
  note one = sync_remove_does [OF d(1)] and rest = Cons.IH [OF d(2)]
  have "filter (\<lambda>x. x \<notin> (\<lambda>r. (u, r, p)) ` set rs) (filter (\<lambda>x. x \<noteq> (u, r, p)) xs) = filter (\<lambda>x. x \<notin> (\<lambda>r. (u, r, p)) ` set (r # rs)) xs" for xs
    by (simp add: conj_commute cong: filter_cong)
  moreover have "filter (\<lambda>ur. \<not> (ur_user ur = u \<and> ur_role ur \<in> set rs)) (filter (\<lambda>ur. \<not> (ur_user ur = u \<and> ur_role ur = r)) urs) =
      filter (\<lambda>ur. \<not> (ur_user ur = u \<and> ur_role ur \<in> set (r # rs))) urs" for urs
    by (induction urs) auto
  moreover have "synced (length (r # rs)) db db'" using synced_trans one rest by fastforce
  ultimately show ?case using one rest by simp
qed (simp add: synced_refl)

lemma sync_write_does:
  assumes "sync_write env u p plan db = Inr db'"
  shows "synced (length (sp_add plan) + length (sp_remove plan)) db db'"
    "ad_external db' = synced_external u p plan (ad_external db)"
    "rb_user_roles (ad_rbac db') = synced_roles env u plan (rb_user_roles (ad_rbac db))"
proof -
  obtain db1 where d: "fold_res (sync_add env u p (sp_keys plan)) (sp_add plan) db = Inr db1"
      "fold_res (sync_remove env u p (sp_keys plan)) (sp_remove plan) db1 = Inr db'"
    using assms by (auto simp: sync_write_def bind_res_Inr)
  note a = sync_adds_do [OF d(1)] and b = sync_removes_do [OF d(2)]
  show "synced (length (sp_add plan) + length (sp_remove plan)) db db'" using synced_trans a b by blast
  show "ad_external db' = synced_external u p plan (ad_external db)"
    "rb_user_roles (ad_rbac db') = synced_roles env u plan (rb_user_roles (ad_rbac db))"
    using a b by (simp_all add: synced_external_def synced_roles_def)
qed

lemma mapped_roles_set: "set (mapped_roles u p db) = {r. (u, r, p) \<in> set (ad_external db)}"
  by (force simp: mapped_roles_def image_iff)



end
