(* ===== verification/Account_Linking.thy ===== *)
theory Account_Linking
  imports Login_Safety
begin

text \<open>
  Account linking (\<^verbatim>\<open>infra/repositories/account_linking.py\<close>, \<^verbatim>\<open>api/v1/account_linking.py\<close>, \<^verbatim>\<open>OidcLoginService.complete_link\<close>): a signed-in user
  attaches further identities and removes them. The directory of the runtime settings is a parameter of its own: it may differ from the one
  sign-in binds to. The stored provider configuration is a table of its own.
\<close>

section \<open>The service\<close>

datatype linking_error = LinkInvalid string | IdentityAlreadyLinked | ProviderAlreadyLinked | LastIdentity string | IdentityNotFound
  | LinkPolicy "policy_reason list" | LinkFault auth_error

definition translate_linking :: "linking_error \<Rightarrow> auth_error" where
  "translate_linking e =
     (case e of
        IdentityAlreadyLinked \<Rightarrow> Conflict ''that identity is already linked to another account''
      | ProviderAlreadyLinked \<Rightarrow> Conflict ''this account already has an identity with that provider''
      | LastIdentity m \<Rightarrow> Conflict m
      | IdentityNotFound \<Rightarrow> Missing ''identity not found''
      | LinkPolicy _ \<Rightarrow> Invalid ''password policy''
      | LinkInvalid m \<Rightarrow> Invalid m
      | LinkFault a \<Rightarrow> a)"

definition list_identities :: "uuid \<Rightarrow> account_db \<Rightarrow> identity_row list" where
  "list_identities u db = sort_key ai_provider (filter (\<lambda>a. ai_user a = u) (ad_identities db))"

definition ensure_no_provider :: "uuid \<Rightarrow> string \<Rightarrow> account_db \<Rightarrow> (linking_error, unit) res" where
  "ensure_no_provider u p db =
     (case filter (\<lambda>a. ai_user a = u \<and> ai_provider a = p) (ad_identities db) of
        [] \<Rightarrow> Inr () | [_] \<Rightarrow> Inl ProviderAlreadyLinked | _ \<Rightarrow> Inl (LinkFault ManyRows))"

definition ensure_subject_free :: "string \<Rightarrow> string \<Rightarrow> account_db \<Rightarrow> (linking_error, unit) res" where
  "ensure_subject_free p s db =
     (case filter (\<lambda>a. ai_provider a = p \<and> ai_subject a = s) (ad_identities db) of
        [] \<Rightarrow> Inr () | [_] \<Rightarrow> Inl IdentityAlreadyLinked | _ \<Rightarrow> Inl (LinkFault ManyRows))"

definition audit_link :: "account_env \<Rightarrow> uuid \<Rightarrow> string \<Rightarrow> string \<Rightarrow> uuid \<Rightarrow> account_db \<Rightarrow> (linking_error, account_db) res" where
  "audit_link env u p s actor db =
     map_sum LinkFault id (service_audit env ((blank_request ''IDENTITY_LINKED'')\<lparr>rq_actor := Some actor, rq_target_type := Some ''user'',
       rq_target_id := Some (en_uuid env u), rq_after := Some [(''provider'', PStr p), (''subject'', PStr s)]\<rparr>) db)"

definition insert_identity :: "uuid \<Rightarrow> string \<Rightarrow> string \<Rightarrow> account_db \<Rightarrow> (linking_error, identity_row \<times> account_db) res" where
  "insert_identity u p s db =
     (let a = \<lparr>ai_id = ad_next db, ai_user = u, ai_provider = p, ai_subject = s\<rparr> in
      if list_ex (\<lambda>x. ai_provider x = p \<and> ai_subject x = s) (ad_identities db) then Inl (LinkFault DuplicateKey)
      else Inr (a, db\<lparr>ad_identities := ad_identities db @ [a], ad_next := Suc (ad_next db)\<rparr>))"

text \<open>
  A service call is a sequence of transactions: each \<^verbatim>\<open>_ensure\<close> query runs in one of its own, and so does the insertion or deletion after them. Another
  request may come between any two, which is why the writing transactions are definitions of their own.
\<close>

type_synonym 'a link_act = "account_db \<Rightarrow> (linking_error, 'a) res \<times> account_db"

definition link_read :: "(account_db \<Rightarrow> (linking_error, 'a) res) \<Rightarrow> 'a link_act" where
  "link_read f db = (f db, db)"

definition link_write :: "(account_db \<Rightarrow> (linking_error, 'a \<times> account_db) res) \<Rightarrow> 'a link_act" where
  "link_write f db = (case f db of Inl e \<Rightarrow> (Inl e, db) | Inr (x, db') \<Rightarrow> (Inr x, db'))"

definition link_bind :: "'a link_act \<Rightarrow> ('a \<Rightarrow> 'b link_act) \<Rightarrow> 'b link_act" where
  "link_bind m f db = (case m db of (Inl e, db') \<Rightarrow> (Inl e, db') | (Inr x, db') \<Rightarrow> f x db')"

definition link_local_tx :: "account_env \<Rightarrow> uuid \<Rightarrow> string \<Rightarrow> string \<Rightarrow> uuid \<Rightarrow> account_db \<Rightarrow> (linking_error, identity_row \<times> account_db) res" where
  "link_local_tx env u username password actor db =
     bind_res (insert_identity u ''local'' username db) (\<lambda>(a, db1).
     bind_res (audit_link env u ''local'' username actor (db1\<lparr>ad_creds := ad_creds db1 @ [\<lparr>cd_identity = ai_id a, cd_hash = en_hash env password,
         cd_must_change = False, cd_failed = 0, cd_locked = None, cd_changed = en_now env\<rparr>]\<rparr>)) (\<lambda>db2. Inr (a, db2)))"

definition link_local :: "account_env \<Rightarrow> uuid \<Rightarrow> string \<Rightarrow> string \<Rightarrow> uuid \<Rightarrow> identity_row link_act" where
  "link_local env u username password actor =
     link_bind (link_read (ensure_no_provider u ''local'')) (\<lambda>_.
     link_bind (link_read (ensure_subject_free ''local'' username)) (\<lambda>_.
     link_bind (link_read (\<lambda>_. case policy_reasons env password (Some username) of [] \<Rightarrow> Inr () | rs \<Rightarrow> Inl (LinkPolicy rs))) (\<lambda>_.
     link_write (link_local_tx env u username password actor))))"

definition link_external_tx :: "account_env \<Rightarrow> uuid \<Rightarrow> string \<Rightarrow> string \<Rightarrow> uuid \<Rightarrow> account_db \<Rightarrow> (linking_error, identity_row \<times> account_db) res" where
  "link_external_tx env u p s actor db =
     bind_res (insert_identity u p s db) (\<lambda>(a, db1). bind_res (audit_link env u p s actor db1) (\<lambda>db2. Inr (a, db2)))"

definition link_external :: "account_env \<Rightarrow> uuid \<Rightarrow> string \<Rightarrow> string \<Rightarrow> uuid \<Rightarrow> identity_row link_act" where
  "link_external env u p s actor =
     link_bind (link_read (\<lambda>_. if p \<notin> {''ldap_ad'', ''entra_oidc''} then Inl (LinkInvalid (''not an external provider: '' @ p)) else Inr ())) (\<lambda>_.
     link_bind (link_read (ensure_no_provider u p)) (\<lambda>_.
     link_bind (link_read (ensure_subject_free p s)) (\<lambda>_.
     link_write (link_external_tx env u p s actor))))"

text \<open>
  \<^verbatim>\<open>unlink\<close> checks in one transaction and deletes in another. Deleting an identity, if it is still there, cascades to its credential, factors and
  keys; the audit row is written either way.
\<close>

definition unlink_check :: "uuid \<Rightarrow> uuid \<Rightarrow> account_db \<Rightarrow> (linking_error, identity_row) res" where
  "unlink_check u i db =
     (case find_first (\<lambda>a. ai_id a = i) (ad_identities db) of
        None \<Rightarrow> Inl IdentityNotFound
      | Some a \<Rightarrow>
          if ai_user a \<noteq> u then Inl IdentityNotFound
          else if length (filter (\<lambda>x. ai_user x = u) (ad_identities db)) \<le> 1 then Inl (LastIdentity ''cannot remove the account's only sign-in method'')
          else if is_last_active_admin u db then Inl (LastIdentity ''cannot reduce the last active administrator's sign-in methods'')
          else Inr a)"

definition delete_identity :: "uuid \<Rightarrow> account_db \<Rightarrow> account_db" where
  "delete_identity i db = db\<lparr>ad_identities := filter (\<lambda>a. ai_id a \<noteq> i) (ad_identities db), ad_creds := filter (\<lambda>c. cd_identity c \<noteq> i) (ad_creds db),
     ad_totp := filter (\<lambda>t. tt_identity t \<noteq> i) (ad_totp db), ad_recovery := filter (\<lambda>r. rc_identity r \<noteq> i) (ad_recovery db),
     ad_keys := filter (\<lambda>k. wk_identity k \<noteq> i) (ad_keys db), ad_challenges := filter (\<lambda>c. ch_identity c \<noteq> Some i) (ad_challenges db)\<rparr>"

definition unlink_delete :: "account_env \<Rightarrow> uuid \<Rightarrow> identity_row \<Rightarrow> uuid \<Rightarrow> account_db \<Rightarrow> (linking_error, unit \<times> account_db) res" where
  "unlink_delete env u a actor db =
     map_sum LinkFault (\<lambda>db'. ((), db')) (service_audit env ((blank_request ''IDENTITY_UNLINKED'')\<lparr>rq_actor := Some actor, rq_target_type := Some ''user'',
       rq_target_id := Some (en_uuid env u), rq_before := Some [(''provider'', PStr (ai_provider a)), (''subject'', PStr (ai_subject a))]\<rparr>)
       (delete_identity (ai_id a) db))"

definition unlink :: "account_env \<Rightarrow> uuid \<Rightarrow> uuid \<Rightarrow> uuid \<Rightarrow> unit link_act" where
  "unlink env u i actor = link_bind (link_read (unlink_check u i)) (\<lambda>a. link_write (unlink_delete env u a actor))"

section \<open>The endpoints\<close>

definition act_link :: "'a link_act \<Rightarrow> 'a act" where
  "act_link m db = (case m db of (r, db') \<Rightarrow> (map_sum translate_linking id r, db'))"

definition confirm_second_factor :: "account_env \<Rightarrow> int \<Rightarrow> uuid \<times> uuid \<Rightarrow> account_db \<Rightarrow> (auth_error, unit) res" where
  "confirm_second_factor env max_age ctx db =
     bind_res (mfa_satisfied (fst ctx) db) (\<lambda>satisfied.
       if \<not> satisfied then Inr ()
       else (case get_active (snd ctx) db of
               None \<Rightarrow> Inl NeedsStepUp
             | Some s \<Rightarrow> (case se_mfa s of
                            None \<Rightarrow> Inl NeedsStepUp
                          | Some t \<Rightarrow> if en_now env - t \<le> max_age * 1000000 then Inr () else Inl NeedsStepUp)))"

definition api_link_local :: "account_env \<Rightarrow> int \<Rightarrow> uuid \<times> uuid \<Rightarrow> string \<Rightarrow> string \<Rightarrow> identity_row act" where
  "api_link_local env max_age ctx username password =
     (if username = [] \<or> 255 < length username \<or> password = [] then act_fail (Invalid ''body'')
      else act_bind (act_check (confirm_second_factor env max_age ctx)) (\<lambda>_. act_link (link_local env (fst ctx) username password (fst ctx))))"

definition api_link_ldap ::
  "account_env \<Rightarrow> int \<Rightarrow> (string \<Rightarrow> string \<Rightarrow> (string, ldap_principal) res) \<Rightarrow> uuid \<times> uuid \<Rightarrow> string \<Rightarrow> string \<Rightarrow> identity_row act" where
  "api_link_ldap env max_age directory ctx username password =
     act_bind (act_check (confirm_second_factor env max_age ctx)) (\<lambda>_.
       (case directory username password of
          Inl _ \<Rightarrow> act_fail (Unauthorized ''directory authentication failed'')
        | Inr p \<Rightarrow> act_link (link_external env (fst ctx) ''ldap_ad'' (lp_uid p) (fst ctx))))"

definition link_oidc_start :: "signin_env \<Rightarrow> int \<Rightarrow> uuid \<times> uuid \<Rightarrow> string \<Rightarrow> unit act" where
  "link_oidc_start env max_age ctx p =
     act_bind (act_check (confirm_second_factor (sn_acc env) max_age ctx)) (\<lambda>_. act_tx (oidc_begin env p (Some (fst ctx))))"

definition verify_flow :: "signin_env \<Rightarrow> string \<Rightarrow> string \<Rightarrow> flow_row \<Rightarrow> (oidc_error, id_claims) res" where
  "verify_flow env p code f =
     bind_res (if p \<noteq> ''entra_oidc'' \<or> \<not> sn_oidc_configured env p then Inl OidcNotConfigured
               else if \<not> sn_metadata env p then Inl OidcUnavailable else Inr ()) (\<lambda>_.
     bind_res (case sn_unseal env (fl_verifier f) of None \<Rightarrow> Inl OidcStateError | Some v \<Rightarrow> Inr v) (\<lambda>verifier.
     bind_res (exchange_code env code verifier) (\<lambda>token.
     bind_res (case sn_jwks env of None \<Rightarrow> Inl OidcUnavailable | Some ks \<Rightarrow> Inr ks) (\<lambda>ks. validate_id_token env token ks (fl_nonce f)))))"

definition complete_link :: "signin_env \<Rightarrow> string \<Rightarrow> string \<Rightarrow> string \<Rightarrow> account_db \<Rightarrow> (oidc_error, uuid \<times> string) res \<times> account_db" where
  "complete_link env p code st db =
     (case consume_flow env p st db of
        (Inl e, db1) \<Rightarrow> (Inl e, db1)
      | (Inr f, db1) \<Rightarrow>
          (case fl_link f of
             None \<Rightarrow> (Inl OidcStateError, db1)
           | Some u \<Rightarrow> (bind_res (verify_flow env p code f) (\<lambda>claims. Inr (u, ic_subject claims)), db1)))"

definition link_oidc_callback :: "signin_env \<Rightarrow> uuid \<times> uuid \<Rightarrow> string \<Rightarrow> string \<Rightarrow> string \<Rightarrow> unit act" where
  "link_oidc_callback env ctx p code st db =
     (case complete_link env p code st db of
        (Inl e, db1) \<Rightarrow> (Inl (translate_oidc e), db1)
      | (Inr (u, s), db1) \<Rightarrow>
          if u \<noteq> fst ctx then (Inl (Unauthorized ''this linking flow belongs to another account''), db1)
          else act_bind (act_link (link_external (sn_acc env) (fst ctx) p s (fst ctx))) (\<lambda>_. act_ret ()) db1)"

definition unlink_identity :: "account_env \<Rightarrow> int \<Rightarrow> uuid \<times> uuid \<Rightarrow> uuid \<Rightarrow> unit act" where
  "unlink_identity env max_age ctx i =
     act_bind (act_check (confirm_second_factor env max_age ctx)) (\<lambda>_. act_link (unlink env (fst ctx) i (fst ctx)))"

section \<open>Provider configuration\<close>

record provider_config =
  pc_provider :: string
  pc_enabled :: bool
  pc_display :: string
  pc_updated_by :: "uuid option"

record provider_out =
  po_provider :: string
  po_enabled :: bool
  po_display :: string
  po_env :: bool

definition KNOWN_PROVIDERS :: "string list" where
  "KNOWN_PROVIDERS = [''local'', ''entra_oidc'', ''ldap_ad'']"

definition env_configured :: "bool \<Rightarrow> bool \<Rightarrow> string \<Rightarrow> bool" where
  "env_configured entra ldap name \<longleftrightarrow> name = ''local'' \<or> name = ''entra_oidc'' \<and> entra \<or> name = ''ldap_ad'' \<and> ldap"

definition list_providers :: "bool \<Rightarrow> bool \<Rightarrow> provider_config list \<Rightarrow> provider_out list" where
  "list_providers entra ldap rows = map (\<lambda>name.
     (case find_first (\<lambda>c. pc_provider c = name) rows of
        None \<Rightarrow> \<lparr>po_provider = name, po_enabled = True, po_display = [], po_env = env_configured entra ldap name\<rparr>
      | Some c \<Rightarrow> \<lparr>po_provider = name, po_enabled = pc_enabled c, po_display = pc_display c, po_env = env_configured entra ldap name\<rparr>)) KNOWN_PROVIDERS"

definition set_provider_config ::
  "account_env \<Rightarrow> uuid \<Rightarrow> string \<Rightarrow> bool \<Rightarrow> string \<Rightarrow> provider_config list \<times> account_db \<Rightarrow> (auth_error, provider_config list \<times> account_db) res" where
  "set_provider_config env actor p enabled display st =
     (let row = \<lparr>pc_provider = p, pc_enabled = enabled, pc_display = display, pc_updated_by = Some actor\<rparr>; (rows, db) = st in
      if 80 < length display then Inl (Invalid ''body'')
      else if p \<notin> set KNOWN_PROVIDERS then Inl (Invalid ''unknown provider'')
      else map_sum id (\<lambda>db'. (if p \<in> pc_provider ` set rows then map (\<lambda>c. if pc_provider c = p then row else c) rows else rows @ [row], db'))
        (service_audit env ((blank_request ''AUTH_PROVIDER_CONFIGURED'')\<lparr>rq_actor := Some actor, rq_target_type := Some ''auth_provider'',
          rq_target_id := Some p, rq_after := Some [(''enabled'', PBool enabled), (''display_name'', PStr display)]\<rparr>) db))"

section \<open>Histories of linking\<close>

datatype link_call = LinkLocal string string | LinkLdap "string \<Rightarrow> string \<Rightarrow> (string, ldap_principal) res" string string
  | LinkOidcStart string | LinkOidcCallback string string string | Unlink uuid

fun link_do :: "signin_env \<Rightarrow> int \<Rightarrow> uuid \<times> uuid \<Rightarrow> link_call \<Rightarrow> account_db \<Rightarrow> account_db" where
  "link_do env age ctx (LinkLocal name pw) db = snd (api_link_local (sn_acc env) age ctx name pw db)"
| "link_do env age ctx (LinkLdap directory name pw) db = snd (api_link_ldap (sn_acc env) age directory ctx name pw db)"
| "link_do env age ctx (LinkOidcStart p) db = snd (link_oidc_start env age ctx p db)"
| "link_do env age ctx (LinkOidcCallback p code st) db = snd (link_oidc_callback env ctx p code st db)"
| "link_do env age ctx (Unlink i) db = snd (unlink_identity (sn_acc env) age ctx i db)"

fun link_run :: "(signin_env \<times> int \<times> (uuid \<times> uuid) \<times> link_call) list \<Rightarrow> account_db \<Rightarrow> account_db" where
  "link_run [] db = db"
| "link_run ((env, age, ctx, c) # cs) db = link_run cs (link_do env age ctx c db)"

text \<open>What a call of user \<open>u\<close> does to the identities: nothing, one more, or one less of several.\<close>

inductive link_effect :: "uuid \<Rightarrow> account_db \<Rightarrow> account_db \<Rightarrow> bool" where
  same: "ad_identities db' = ad_identities db \<Longrightarrow> ad_next db \<le> ad_next db' \<Longrightarrow> link_effect u db db'"
| added: "ad_identities db' = ad_identities db @ [a] \<Longrightarrow> ad_next db' = Suc (ad_next db) \<Longrightarrow> ai_id a = ad_next db \<Longrightarrow> ai_user a = u \<Longrightarrow>
    \<forall>x\<in>set (ad_identities db). (ai_provider x, ai_subject x) \<noteq> (ai_provider a, ai_subject a) \<and> (ai_user x, ai_provider x) \<noteq> (u, ai_provider a) \<Longrightarrow>
    link_effect u db db'"
| removed: "ad_identities db' = filter (\<lambda>x. ai_id x \<noteq> ai_id a) (ad_identities db) \<Longrightarrow> ad_next db \<le> ad_next db' \<Longrightarrow> a \<in> set (ad_identities db) \<Longrightarrow>
    ai_user a = u \<Longrightarrow> 1 < length (filter (\<lambda>x. ai_user x = u) (ad_identities db)) \<Longrightarrow> link_effect u db db'"

lemma link_effect_refl [simp, intro!]: "link_effect u db db"
  by (simp add: link_effect.same)

lemma audit_identities: "service_audit env rq db = Inr db' \<Longrightarrow> ad_identities db' = ad_identities db \<and> ad_next db' = ad_next db"
  by (auto simp: service_audit_def split: sum.splits)

lemma audit_link_identities: "audit_link env u p s actor db = Inr db' \<Longrightarrow> ad_identities db' = ad_identities db \<and> ad_next db' = ad_next db"
  by (auto simp: audit_link_def map_sum_id_Inr dest: audit_identities)

lemma ensured:
  "ensure_no_provider u p db = Inr x \<Longrightarrow> \<forall>a\<in>set (ad_identities db). (ai_user a, ai_provider a) \<noteq> (u, p)"
  "ensure_subject_free p s db = Inr x \<Longrightarrow> \<forall>a\<in>set (ad_identities db). (ai_provider a, ai_subject a) \<noteq> (p, s)"
  by (auto simp: ensure_no_provider_def ensure_subject_free_def filter_empty_conv split: list.splits)

text \<open>The outcomes of a service call: refused with nothing changed, or its writing transaction in the state its checks saw.\<close>

lemma link_bind_read: "link_bind (link_read f) g db = (case f db of Inl e \<Rightarrow> (Inl e, db) | Inr x \<Rightarrow> g x db)"
  by (simp add: link_bind_def link_read_def)

lemma link_local_outcome:
  obtains "snd (link_local env u name pw actor db) = db"
  | a x db' where "ensure_no_provider u ''local'' db = Inr x" "link_local_tx env u name pw actor db = Inr (a, db')"
      "snd (link_local env u name pw actor db) = db'"
  by (cases "ensure_no_provider u ''local'' db"; cases "ensure_subject_free ''local'' name db"; cases "policy_reasons env pw (Some name)";
      cases "link_local_tx env u name pw actor db") (auto simp: link_local_def link_bind_read link_write_def)

lemma link_external_outcome:
  obtains "snd (link_external env u p s actor db) = db"
  | a x db' where "ensure_no_provider u p db = Inr x" "link_external_tx env u p s actor db = Inr (a, db')"
      "snd (link_external env u p s actor db) = db'"
  by (cases "ensure_no_provider u p db"; cases "ensure_subject_free p s db"; cases "p \<notin> {''ldap_ad'', ''entra_oidc''}";
      cases "link_external_tx env u p s actor db") (auto simp: link_external_def link_bind_read link_write_def)

lemma unlink_outcome:
  obtains "snd (unlink env u i actor db) = db"
  | a x db' where "unlink_check u i db = Inr a" "unlink_delete env u a actor db = Inr (x, db')" "snd (unlink env u i actor db) = db'"
proof (cases "unlink_check u i db")
  case (Inl e)
  then show ?thesis using that(1) by (simp add: unlink_def link_bind_read)
next
  case (Inr a)
  then show ?thesis using that
    by (cases "unlink_delete env u a actor db") (auto simp: unlink_def link_bind_read link_write_def)
qed

text \<open>What the writing transactions do to the identities, whatever the checks before them saw.\<close>

definition inserts :: "uuid \<Rightarrow> string \<Rightarrow> account_db \<Rightarrow> account_db \<Rightarrow> bool" where
  "inserts u p db db' \<longleftrightarrow> (\<exists>a. ad_identities db' = ad_identities db @ [a] \<and> ad_next db' = Suc (ad_next db) \<and> ai_id a = ad_next db \<and> ai_user a = u \<and>
     ai_provider a = p \<and> (\<forall>x\<in>set (ad_identities db). (ai_provider x, ai_subject x) \<noteq> (ai_provider a, ai_subject a)))"

lemma insert_identity_inserts:
  assumes "insert_identity u p s db = Inr (a, db1)" "ad_identities db' = ad_identities db1" "ad_next db' = ad_next db1"
  shows "inserts u p db db'"
  using assms by (auto simp: inserts_def insert_identity_def Let_def list_ex_iff split: if_splits)

lemma link_tx_inserts:
  "link_local_tx env u name pw actor db = Inr (a, db') \<Longrightarrow> inserts u ''local'' db db'"
  "link_external_tx env u p s actor db = Inr (a, db') \<Longrightarrow> inserts u p db db'"
  by (auto simp: link_local_tx_def link_external_tx_def bind_res_Inr dest!: audit_link_identities elim!: insert_identity_inserts)

lemma inserts_effect: "inserts u p db db' \<Longrightarrow> ensure_no_provider u p db = Inr x \<Longrightarrow> link_effect u db db'"
  unfolding inserts_def by (drule ensured(1), elim exE conjE) (rule link_effect.added; auto)

lemma link_local_effect: "link_effect u db (snd (link_local env u name pw actor db))"
  by (rule link_local_outcome [of env u name pw actor db]) (auto dest!: link_tx_inserts(1) dest: inserts_effect)

lemma link_external_effect: "link_effect u db (snd (link_external env u p s actor db))"
  by (rule link_external_outcome [of env u p s actor db]) (auto dest!: link_tx_inserts(2) dest: inserts_effect)

lemma unlink_delete_identities:
  assumes "unlink_delete env u a actor db = Inr (x, db')"
  shows "ad_identities db' = filter (\<lambda>x. ai_id x \<noteq> ai_id a) (ad_identities db) \<and> ad_next db' = ad_next db"
  using assms by (auto simp: unlink_delete_def delete_identity_def map_sum_def split: sum.splits dest!: audit_identities)

lemma unlink_check_Inr:
  assumes "unlink_check u i db = Inr a"
  shows "a \<in> set (ad_identities db)" "ai_user a = u" "1 < length (filter (\<lambda>x. ai_user x = u) (ad_identities db))"
proof -
  have "find_first (\<lambda>a. ai_id a = i) (ad_identities db) = Some a"
    using assms by (auto simp: unlink_check_def split: option.splits if_splits)
  then show "a \<in> set (ad_identities db)" using find_first_Some by fastforce
  show "ai_user a = u" "1 < length (filter (\<lambda>x. ai_user x = u) (ad_identities db))"
    using assms by (auto simp: unlink_check_def split: option.splits if_splits)
qed

lemma unlink_effect: "link_effect u db (snd (unlink env u i actor db))"
proof (rule unlink_outcome [of env u i actor db])
  fix a x db'
  assume "unlink_check u i db = Inr a" "unlink_delete env u a actor db = Inr (x, db')" "snd (unlink env u i actor db) = db'"
  then show ?thesis using unlink_check_Inr unlink_delete_identities by (intro link_effect.removed [where a = a]) auto
qed simp

lemma act_link_snd [simp]: "snd (act_link m db) = snd (m db)"
  by (simp add: act_link_def split: prod.split)

lemma checked_effect: "link_effect u db (snd (f () db)) \<Longrightarrow> link_effect u db (snd (act_bind (act_check c) f db))"
  by (auto simp: act_bind_def act_check_def intro: link_effect.same split: sum.splits)

lemma act_then_ret: "snd (act_bind m (\<lambda>_. act_ret ()) db) = snd (m db)"
  by (auto simp: act_bind_def act_ret_def split: prod.split sum.split)

lemma link_call_effect: "link_effect (fst ctx) db (link_do env age ctx c db)"
proof (cases c)
  case (LinkLocal name pw)
  then show ?thesis
    by (auto simp: api_link_local_def act_fail_def intro!: checked_effect link_local_effect)
next
  case (LinkLdap directory name pw)
  then show ?thesis
    by (auto simp: api_link_ldap_def act_fail_def intro!: checked_effect link_external_effect split: sum.split)
next
  case (LinkOidcStart p)
  then show ?thesis
    by (auto simp: link_oidc_start_def act_tx_def oidc_begin_def intro!: checked_effect link_effect.same split: sum.split if_splits)
next
  case (LinkOidcCallback p code st)
  obtain r db1 where r: "complete_link env p code st db = (r, db1)" by fastforce
  have same: "ad_identities db1 = ad_identities db" "ad_next db1 = ad_next db"
    using r by (auto simp: complete_link_def consume_flow_def split: option.splits if_splits prod.splits)
  have "link_effect u db db' = link_effect u db1 db'" for u db'
    using same by (auto simp: link_effect.simps)
  moreover have "link_effect (fst ctx) db1 (snd (act_bind (act_link (link_external (sn_acc env) (fst ctx) p s (fst ctx))) (\<lambda>_. act_ret ()) db1))" for s
    by (simp add: act_then_ret link_external_effect)
  ultimately show ?thesis
    using LinkOidcCallback r by (auto simp: link_oidc_callback_def split: sum.split)
next
  case (Unlink i)
  then show ?thesis by (auto simp: unlink_identity_def intro!: checked_effect unlink_effect)
qed

section \<open>Linking keeps the identities sound\<close>

definition identities_inv :: "account_db \<Rightarrow> bool" where
  "identities_inv db \<longleftrightarrow> distinct (map (\<lambda>a. (ai_provider a, ai_subject a)) (ad_identities db)) \<and>
     distinct (map (\<lambda>a. (ai_user a, ai_provider a)) (ad_identities db)) \<and> distinct (map ai_id (ad_identities db)) \<and>
     (\<forall>a\<in>set (ad_identities db). ai_id a < ad_next db)"

definition identities_of :: "uuid \<Rightarrow> account_db \<Rightarrow> identity_row list" where
  "identities_of u db = filter (\<lambda>a. ai_user a = u) (ad_identities db)"

lemma link_effect_inv:
  assumes "link_effect u db db'" "identities_inv db"
  shows "identities_inv db'"
  using assms
proof cases
  case (added a)
  then show ?thesis using assms(2) by (auto simp: identities_inv_def)
next
  case (removed a)
  then show ?thesis using assms(2) by (auto simp: identities_inv_def distinct_map_filter)
qed (auto simp: identities_inv_def)

lemma one_less:
  assumes "distinct (map ai_id xs)" "a \<in> set xs" "1 < length (filter (\<lambda>x. ai_user x = ai_user a) xs)"
  shows "filter (\<lambda>x. ai_user x = ai_user a) (filter (\<lambda>x. ai_id x \<noteq> ai_id a) xs) \<noteq> []"
proof
  assume none: "filter (\<lambda>x. ai_user x = ai_user a) (filter (\<lambda>x. ai_id x \<noteq> ai_id a) xs) = []"
  then have "set (filter (\<lambda>x. ai_user x = ai_user a) xs) \<subseteq> {a}"
    using assms(1,2) by (auto simp: filter_empty_conv distinct_map dest: inj_onD)
  moreover have "distinct (filter (\<lambda>x. ai_user x = ai_user a) xs)" using assms(1) by (simp add: distinct_map)
  ultimately have "length (filter (\<lambda>x. ai_user x = ai_user a) xs) \<le> 1"
    by (metis card_mono distinct_card finite.emptyI finite.insertI is_singletonI is_singleton_altdef)
  then show False using assms(3) by simp
qed

lemma effect_others: "link_effect u db db' \<Longrightarrow> v \<noteq> u \<Longrightarrow> identities_inv db \<Longrightarrow> identities_of v db' = identities_of v db"
proof (induction rule: link_effect.induct)
  case (removed db' a db u)
  have "ai_id x \<noteq> ai_id a" if "x \<in> set (ad_identities db)" "ai_user x = v" for x
    using that removed by (auto simp: identities_inv_def distinct_map dest: inj_onD)
  then show ?case using removed by (auto simp: identities_of_def intro!: filter_cong)
qed (auto simp: identities_of_def)

lemma effect_leaves_one:
  assumes "link_effect u db db'" "identities_inv db" "identities_of v db \<noteq> []"
  shows "identities_of v db' \<noteq> []"
proof (cases "v = u")
  case True
  show ?thesis using assms(1)
  proof cases
    case (removed a)
    then show ?thesis using one_less[of "ad_identities db" a] assms(2) True by (simp add: identities_of_def identities_inv_def)
  qed (use assms(3) in \<open>auto simp: identities_of_def\<close>)
next
  case False
  then show ?thesis using effect_others assms by metis
qed

section \<open>Interleaved transactions\<close>

text \<open>
  The transactions of concurrent requests in any order. An insertion may follow checks that any earlier state passed, so none is asked for; a deletion
  uses the row that a check of the same user read at some earlier time, which the second component remembers.
\<close>

datatype linking_tx = TxLinkLocal account_env string string | TxLinkExternal account_env string string | TxCheckUnlink uuid
  | TxDelete account_env identity_row | TxBeginFlow signin_env string | TxConsumeFlow signin_env string string

fun linking_tx_do :: "uuid \<times> linking_tx \<Rightarrow> account_db \<times> (uuid \<times> identity_row) list \<Rightarrow> account_db \<times> (uuid \<times> identity_row) list" where
  "linking_tx_do (u, TxLinkLocal env name pw) (db, ck) = (snd (link_write (link_local_tx env u name pw u) db), ck)"
| "linking_tx_do (u, TxLinkExternal env p s) (db, ck) = (snd (link_write (link_external_tx env u p s u) db), ck)"
| "linking_tx_do (u, TxCheckUnlink i) (db, ck) = (db, case unlink_check u i db of Inl _ \<Rightarrow> ck | Inr a \<Rightarrow> (u, a) # ck)"
| "linking_tx_do (u, TxDelete env a) (db, ck) = (if (u, a) \<in> set ck then snd (link_write (unlink_delete env u a u) db) else db, ck)"
| "linking_tx_do (u, TxBeginFlow env p) (db, ck) = (snd (act_tx (oidc_begin env p (Some u)) db), ck)"
| "linking_tx_do (u, TxConsumeFlow env p st) (db, ck) = (snd (consume_flow env p st db), ck)"

definition linking_txs :: "(uuid \<times> linking_tx) list \<Rightarrow> account_db \<times> (uuid \<times> identity_row) list \<Rightarrow> account_db \<times> (uuid \<times> identity_row) list" where
  "linking_txs txs s = fold linking_tx_do txs s"

definition identities_unique :: "account_db \<Rightarrow> bool" where
  "identities_unique db \<longleftrightarrow> distinct (map (\<lambda>a. (ai_provider a, ai_subject a)) (ad_identities db)) \<and> distinct (map ai_id (ad_identities db)) \<and>
     (\<forall>a\<in>set (ad_identities db). ai_id a < ad_next db)"

text \<open>A row read by a check keeps its id: the id stays that of an identity of the same user, or of none.\<close>

definition checked_inv :: "account_db \<times> (uuid \<times> identity_row) list \<Rightarrow> bool" where
  "checked_inv s \<longleftrightarrow> identities_unique (fst s) \<and> (\<forall>(u, a)\<in>set (snd s). ai_id a < ad_next (fst s) \<and>
     (\<forall>x\<in>set (ad_identities (fst s)). ai_id x = ai_id a \<longrightarrow> ai_user x = u))"

lemma checked_inv_frame:
  "checked_inv (db, ck) \<Longrightarrow> ad_identities db' = ad_identities db \<Longrightarrow> ad_next db \<le> ad_next db' \<Longrightarrow> checked_inv (db', ck)"
  by (fastforce simp: checked_inv_def identities_unique_def)

lemma checked_inv_insert: "checked_inv (db, ck) \<Longrightarrow> inserts u p db db' \<Longrightarrow> checked_inv (db', ck) \<and> (v \<noteq> u \<longrightarrow> identities_of v db' = identities_of v db)"
  by (fastforce simp: checked_inv_def identities_unique_def inserts_def identities_of_def)

lemma checked_inv_delete:
  assumes "checked_inv (db, ck)" "(u, a) \<in> set ck" "ad_identities db' = filter (\<lambda>x. ai_id x \<noteq> ai_id a) (ad_identities db)" "ad_next db' = ad_next db"
  shows "checked_inv (db', ck) \<and> (v \<noteq> u \<longrightarrow> identities_of v db' = identities_of v db)"
proof -
  have "ai_id x \<noteq> ai_id a" if "x \<in> set (ad_identities db)" "ai_user x = v" "v \<noteq> u" for x
    using that assms(1,2) by (auto simp: checked_inv_def)
  then have "v \<noteq> u \<longrightarrow> identities_of v db' = identities_of v db"
    using assms(3) by (auto simp: identities_of_def intro!: filter_cong)
  moreover have "checked_inv (db', ck)"
    using assms by (auto simp: checked_inv_def identities_unique_def distinct_map_filter)
  ultimately show ?thesis by blast
qed

lemma linking_tx_inv:
  assumes inv: "checked_inv (db, ck)" and run: "linking_tx_do (u, t) (db, ck) = (db', ck')"
  shows "checked_inv (db', ck') \<and> (v \<noteq> u \<longrightarrow> identities_of v db' = identities_of v db)"
proof -
  have inserted: ?thesis if "ck' = ck" "db' = db \<or> inserts u p db db'" for p
    using that inv checked_inv_insert by blast
  have kept: ?thesis if "ck' = ck" "ad_identities db' = ad_identities db" "ad_next db \<le> ad_next db'"
    using that checked_inv_frame [OF inv] by (simp add: identities_of_def)
  show ?thesis
  proof (cases t)
    case (TxLinkLocal env name pw)
    then show ?thesis using run by (intro inserted) (auto simp: link_write_def split: sum.splits dest: link_tx_inserts(1))
  next
    case (TxLinkExternal env p s)
    then show ?thesis using run by (intro inserted) (auto simp: link_write_def split: sum.splits dest: link_tx_inserts(2))
  next
    case (TxCheckUnlink i)
    have "(\<forall>x\<in>set (ad_identities db). ai_id x = ai_id a \<longrightarrow> ai_user x = u) \<and> ai_id a < ad_next db" if "unlink_check u i db = Inr a" for a
      using unlink_check_Inr [OF that] inv by (auto simp: checked_inv_def identities_unique_def distinct_map dest: inj_onD)
    then have "checked_inv (db, (u, a) # ck)" if "unlink_check u i db = Inr a" for a
      using that inv by (simp add: checked_inv_def)
    then show ?thesis using run inv TxCheckUnlink by (auto split: sum.splits)
  next
    case (TxDelete env a)
    then show ?thesis using run inv
      by (auto simp: link_write_def split: if_splits sum.splits dest!: unlink_delete_identities dest: checked_inv_delete)
  next
    case (TxBeginFlow env p)
    then show ?thesis using run by (intro kept) (auto simp: act_tx_def oidc_begin_def split: sum.splits if_splits)
  next
    case (TxConsumeFlow env p st)
    then show ?thesis using run by (intro kept) (auto simp: consume_flow_def split: option.splits if_splits)
  qed
qed

lemma linking_txs_inv:
  "checked_inv s \<Longrightarrow> checked_inv (linking_txs txs s) \<and>
    (v \<notin> fst ` set txs \<longrightarrow> identities_of v (fst (linking_txs txs s)) = identities_of v (fst s))"
proof (induction txs arbitrary: s)
  case (Cons t txs)
  obtain u k db ck where t: "t = (u, k)" "s = (db, ck)" by (cases t; cases s)
  obtain db' ck' where run: "linking_tx_do t s = (db', ck')" by fastforce
  then have "checked_inv (db', ck') \<and> (v \<noteq> u \<longrightarrow> identities_of v db' = identities_of v db)"
    using linking_tx_inv Cons.prems unfolding t by blast
  then show ?case using Cons.IH [of "(db', ck')"] run by (auto simp: linking_txs_def t)
qed (simp add: linking_txs_def)

text \<open>
  C40. Linking keeps the sign-in methods sound. For requests one after another, of any users: no identity of a provider belongs to two
  accounts, no account has two identities of one provider, a user who had a sign-in method still has one, and requests of others leave
  the methods of a user exactly as they were. For the transactions of requests that run at the same time, in any order and after any stale checks,
  it still holds that no identity of a provider belongs to two accounts and that others' requests leave a user's methods alone; the other two
  do not (\<open>concurrent_unlink_locks_out\<close>, \<open>concurrent_link_two\<close>).
\<close>

theorem linking_sound:
  assumes "identities_inv db"
  shows "identities_inv (link_run calls db) \<and> (identities_of v db \<noteq> [] \<longrightarrow> identities_of v (link_run calls db) \<noteq> []) \<and>
    (list_all (\<lambda>(env, age, ctx, c). fst ctx \<noteq> v) calls \<longrightarrow> identities_of v (link_run calls db) = identities_of v db) \<and>
    identities_unique (fst (linking_txs txs (db, []))) \<and>
    (v \<notin> fst ` set txs \<longrightarrow> identities_of v (fst (linking_txs txs (db, []))) = identities_of v db)"
proof -
  have "identities_inv (link_run calls db) \<and> (identities_of v db \<noteq> [] \<longrightarrow> identities_of v (link_run calls db) \<noteq> []) \<and>
    (list_all (\<lambda>(env, age, ctx, c). fst ctx \<noteq> v) calls \<longrightarrow> identities_of v (link_run calls db) = identities_of v db)"
    using assms
  proof (induction calls db rule: link_run.induct)
    case (2 env age ctx c cs db)
    have e: "link_effect (fst ctx) db (link_do env age ctx c db)" by (rule link_call_effect)
    then have "identities_inv (link_do env age ctx c db)" using link_effect_inv 2 by blast
    moreover have "identities_of v db \<noteq> [] \<Longrightarrow> identities_of v (link_do env age ctx c db) \<noteq> []" using effect_leaves_one e 2 by blast
    moreover have "fst ctx \<noteq> v \<Longrightarrow> identities_of v (link_do env age ctx c db) = identities_of v db" using effect_others e 2 by metis
    ultimately show ?case using 2(1) by auto
  qed simp
  moreover have "checked_inv (db, [])" using assms by (simp add: checked_inv_def identities_unique_def identities_inv_def)
  ultimately show ?thesis using linking_txs_inv [of "(db, [])" txs v] by (simp add: checked_inv_def)
qed

definition two_methods :: account_db where
  "two_methods = sample_accounts\<lparr>ad_totp := [], ad_identities := ad_identities sample_accounts @ [\<lparr>ai_id = 3, ai_user = 1, ai_provider = ''ldap_ad'', ai_subject = ''ext''\<rparr>]\<rparr>"

definition unlink_calls :: "(signin_env \<times> int \<times> (uuid \<times> uuid) \<times> link_call) list" where
  "unlink_calls = [(sample_signin, 300, (1, 7), Unlink 2), (sample_signin, 300, (1, 7), Unlink 3)]"

theorem linking_sound_witness:
  "identities_of 1 (link_run unlink_calls two_methods) \<noteq> [] \<and> identities_inv (link_run unlink_calls two_methods) \<and>
   fst (unlink_identity sample_account_env 300 (1, 7) 3 (link_do sample_signin 300 (1, 7) (Unlink 2) two_methods)) =
     Inl (Conflict ''cannot remove the account's only sign-in method'')"
proof -
  have "identities_inv two_methods" "identities_of 1 two_methods \<noteq> []" by code_simp+
  then have "identities_of 1 (link_run unlink_calls two_methods) \<noteq> [] \<and> identities_inv (link_run unlink_calls two_methods)"
    using linking_sound by blast
  moreover have "fst (unlink_identity sample_account_env 300 (1, 7) 3 (link_do sample_signin 300 (1, 7) (Unlink 2) two_methods)) =
     Inl (Conflict ''cannot remove the account's only sign-in method'')" by code_simp
  ultimately show ?thesis by blast
qed

text \<open>
  The count is taken before the deleting transaction: two requests that remove the two methods of an account at the same time both pass
  the check, and the account is left without any.
\<close>

theorem concurrent_unlink_locks_out:
  "\<exists>a b db1 db2. unlink_check 1 2 two_methods = Inr a \<and> unlink_check 1 3 two_methods = Inr b \<and>
     unlink_delete sample_account_env 1 a 1 two_methods = Inr ((), db1) \<and> unlink_delete sample_account_env 1 b 1 db1 = Inr ((), db2) \<and>
     identities_of 1 db2 = []"
proof -
  define a b where ab: "a = ad_identities two_methods ! 0" "b = ad_identities two_methods ! 1"
  define r1 where "r1 = unlink_delete sample_account_env 1 a 1 two_methods"
  define r2 where "r2 = unlink_delete sample_account_env 1 b 1 (snd (projr r1))"
  have c: "unlink_check 1 2 two_methods = Inr a" "unlink_check 1 3 two_methods = Inr b" "\<not> isl r1" "\<not> isl r2" "identities_of 1 (snd (projr r2)) = []"
    unfolding r2_def r1_def ab by code_simp+
  moreover have "r1 = Inr ((), snd (projr r1))" "r2 = Inr ((), snd (projr r2))" using c(3,4) by (cases r1; cases r2; auto)+
  ultimately show ?thesis unfolding r1_def r2_def by blast
qed

text \<open>
  The check for a provider is not backed by a constraint: two requests of one user that link two subjects of the same provider at the same
  time both pass it, and the account has two identities of the provider.
\<close>

theorem concurrent_link_two:
  "\<exists>a b db1 db2. ensure_no_provider 1 ''entra_oidc'' two_methods = Inr () \<and>
     link_external_tx sample_account_env 1 ''entra_oidc'' ''x'' 1 two_methods = Inr (a, db1) \<and>
     link_external_tx sample_account_env 1 ''entra_oidc'' ''y'' 1 db1 = Inr (b, db2) \<and>
     map ai_provider (identities_of 1 db2) = [''local'', ''ldap_ad'', ''entra_oidc'', ''entra_oidc'']"
proof -
  define r1 where "r1 = link_external_tx sample_account_env 1 ''entra_oidc'' ''x'' 1 two_methods"
  define r2 where "r2 = link_external_tx sample_account_env 1 ''entra_oidc'' ''y'' 1 (snd (projr r1))"
  have c: "ensure_no_provider 1 ''entra_oidc'' two_methods = Inr ()" "\<not> isl r1" "\<not> isl r2"
    "map ai_provider (identities_of 1 (snd (projr r2))) = [''local'', ''ldap_ad'', ''entra_oidc'', ''entra_oidc'']"
    unfolding r2_def r1_def by code_simp+
  moreover have "r1 = Inr (fst (projr r1), snd (projr r1))" "r2 = Inr (fst (projr r2), snd (projr r2))" using c(2,3) by (cases r1; cases r2; auto)+
  ultimately show ?thesis
    unfolding r1_def r2_def
    by (intro exI [of _ "fst (projr r1)"] exI [of _ "fst (projr r2)"] exI [of _ "snd (projr r1)"] exI [of _ "snd (projr r2)"] conjI)
      (simp_all add: r1_def r2_def)
qed

end
